(* ===== verification/Prelude.thy ===== *)
theory Prelude
  imports Complex_Main "HOL-Library.AList" "HOL-Library.Word" "HOL-Library.Sublist"
    "HOL-Library.List_Lexorder" "HOL-Library.Char_ord"
begin

text \<open>
  Shared vocabulary of the development: the Go types the packages use (strings as byte
  lists, instants and durations as integers counted in nanoseconds, 64-bit counters as
  words), the byte-string helpers of the standard library, the model of
  \<^verbatim>\<open>sort.Slice\<close> with the interface its comparators have to meet, and association-list
  lemmas. Nothing here is specific to one component.
\<close>

section \<open>Go's basic types\<close>

text \<open>
  A \<^verbatim>\<open>time.Time\<close> is the number of nanoseconds since Go's zero time (January 1, year 1,
  UTC), so \<^verbatim>\<open>IsZero\<close> is equality with 0, \<^verbatim>\<open>Before\<close>, \<^verbatim>\<open>After\<close> and \<^verbatim>\<open>Equal\<close> are the orders
  of the integers and \<^verbatim>\<open>Add\<close> is addition. A \<^verbatim>\<open>time.Duration\<close> is a number of nanoseconds.
  A \<^verbatim>\<open>float64\<close> is a rational: the packages modelled here only store and compare them.
  Pointers to scalars are options.
\<close>

type_synonym time = int
type_synonym duration = int
type_synonym float64 = rat
type_synonym uint64 = "64 word"
type_synonym uint32 = "32 word"

abbreviation (input) zero_time :: time where "zero_time \<equiv> 0"

abbreviation (input) millisecond :: duration where "millisecond \<equiv> 1000000"
abbreviation (input) second :: duration where "second \<equiv> 1000000000"

named_theorems struct_simps \<open>definitions of small helpers that proofs unfold freely\<close>

section \<open>Byte strings\<close>

definition has_prefix :: "string \<Rightarrow> string \<Rightarrow> bool" where
  "has_prefix s p \<longleftrightarrow> take (length p) s = p"

definition trim_prefix :: "string \<Rightarrow> string \<Rightarrow> string" where
  "trim_prefix s p = (if has_prefix s p then drop (length p) s else s)"

definition has_suffix :: "string \<Rightarrow> string \<Rightarrow> bool" where
  "has_suffix s p \<longleftrightarrow> length p \<le> length s \<and> drop (length s - length p) s = p"

definition trim_suffix :: "string \<Rightarrow> string \<Rightarrow> string" where
  "trim_suffix s p = (if has_suffix s p then take (length s - length p) s else s)"

lemma has_prefix_iff: "has_prefix s p \<longleftrightarrow> (\<exists>r. s = p @ r)"
  by (auto simp: has_prefix_def) (metis append_take_drop_id)

lemma has_prefix_append [simp]: "has_prefix (p @ r) p"
  by (simp add: has_prefix_def)

lemma trim_prefix_append [simp]: "trim_prefix (p @ r) p = r"
  by (simp add: trim_prefix_def)

lemma has_prefixE:
  assumes "has_prefix s p"
  obtains r where "s = p @ r" "trim_prefix s p = r"
  using assms by (auto simp: has_prefix_iff)

lemma has_suffix_append [simp]: "has_suffix (r @ p) p"
  by (simp add: has_suffix_def)

lemma trim_suffix_append [simp]: "trim_suffix (r @ p) p = r"
  by (simp add: trim_suffix_def)

lemma has_suffix_iff: "has_suffix s p \<longleftrightarrow> (\<exists>r. s = r @ p)"
proof
  assume "has_suffix s p"
  then have "s = take (length s - length p) s @ p"
    unfolding has_suffix_def by (metis append_take_drop_id)
  then show "\<exists>r. s = r @ p" by blast
qed auto

text \<open>
  The byte order of Go's strings is the lexicographic order of their bytes, which is the
  order \<^theory_text>\<open>List_Lexorder\<close> gives to lists of characters.
\<close>

lemma lex_append_left [simp]:
  fixes p :: "'a::linorder list"
  shows "p @ x < p @ y \<longleftrightarrow> x < y"
  by (induction p) auto

lemma lex_prefix_convex:
  fixes p :: "'a::linorder list"
  assumes "p @ x < s" and "s < p @ z"
  shows "\<exists>y. s = p @ y"
  using assms
proof (induction p arbitrary: s)
  case Nil
  then show ?case by simp
next
  case (Cons a p)
  then obtain b s' where s: "s = b # s'" by (cases s) auto
  with Cons.prems have ab: "a = b" by (auto simp: )
  with Cons s show ?case by auto
qed

lemma has_prefix_convex:
  fixes x y z :: string
  assumes "has_prefix x p" "has_prefix z p" "x < y" "y < z"
  shows "has_prefix y p"
  using assms lex_prefix_convex unfolding has_prefix_iff by blast

section \<open>sort.Slice\<close>

text \<open>
  \<^verbatim>\<open>sort.Slice\<close> orders a slice by a strict comparator. The model is a stable insertion
  sort. Go's sort is not stable, so the model speaks for the code only where the result
  does not depend on the algorithm: the locale below states when that is so (the
  comparator is a strict order that separates elements with different keys), and its
  lemma \<^verbatim>\<open>sort_slice_unique\<close> says that every ordered permutation of a list with distinct
  keys is then the list the model returns.
\<close>

fun insort_less :: "('a \<Rightarrow> 'a \<Rightarrow> bool) \<Rightarrow> 'a \<Rightarrow> 'a list \<Rightarrow> 'a list" where
  "insort_less lt x [] = [x]"
| "insort_less lt x (y # ys) =
     (if lt y x then y # insort_less lt x ys else x # y # ys)"

definition sort_slice :: "('a \<Rightarrow> 'a \<Rightarrow> bool) \<Rightarrow> 'a list \<Rightarrow> 'a list" where
  "sort_slice lt xs = foldr (insort_less lt) xs []"

lemma sort_slice_simps [simp]:
  "sort_slice lt [] = []"
  "sort_slice lt (x # xs) = insort_less lt x (sort_slice lt xs)"
  by (simp_all add: sort_slice_def)

lemma set_insort_less [simp]: "set (insort_less lt x ys) = insert x (set ys)"
  by (induction ys) auto

lemma length_insort_less [simp]: "length (insort_less lt x ys) = Suc (length ys)"
  by (induction ys) auto

lemma set_sort_slice [simp]: "set (sort_slice lt xs) = set xs"
  by (induction xs) auto

lemma length_sort_slice [simp]: "length (sort_slice lt xs) = length xs"
  by (induction xs) auto

lemma distinct_insort_less [simp]:
  "distinct (map f (insort_less lt x ys)) \<longleftrightarrow> f x \<notin> f ` set ys \<and> distinct (map f ys)"
  by (induction ys) auto

lemma distinct_sort_slice [simp]:
  "distinct (map f (sort_slice lt xs)) \<longleftrightarrow> distinct (map f xs)"
  by (induction xs) auto

lemma sorted_wrt_same_set:
  assumes irrefl: "\<And>a. \<not> lt a a"
    and trans: "\<And>a b c. lt a b \<Longrightarrow> lt b c \<Longrightarrow> lt a c"
    and "sorted_wrt lt xs" "sorted_wrt lt ys" "set xs = set ys"
  shows "xs = ys"
  using assms(3-)
proof (induction xs arbitrary: ys)
  case Nil
  then show ?case by simp
next
  case (Cons x xs)
  then obtain y ys' where ys: "ys = y # ys'" by (cases ys) auto
  have "x = y"
  proof (rule ccontr)
    assume "x \<noteq> y"
    then have "lt x y" "lt y x" using Cons.prems ys by auto
    then show False using irrefl trans by blast
  qed
  moreover have "set xs = set ys'"
  proof -
    have "x \<notin> set xs" "y \<notin> set ys'" using Cons.prems ys irrefl by auto
    then show ?thesis using Cons.prems(3) ys \<open>x = y\<close> by auto
  qed
  ultimately show ?case using Cons ys by auto
qed

locale comparator =
  fixes lt :: "'a \<Rightarrow> 'a \<Rightarrow> bool" and key :: "'a \<Rightarrow> 'k"
  assumes less_irrefl: "\<not> lt a a"
    and less_trans: "lt a b \<Longrightarrow> lt b c \<Longrightarrow> lt a c"
    and less_separates: "key a \<noteq> key b \<Longrightarrow> lt a b \<or> lt b a"
begin

lemma sorted_insort_less:
  assumes "sorted_wrt lt ys" "key x \<notin> key ` set ys"
  shows "sorted_wrt lt (insort_less lt x ys)"
  using assms
proof (induction ys)
  case Nil
  then show ?case by simp
next
  case (Cons y ys)
  show ?case
  proof (cases "lt y x")
    case True
    with Cons show ?thesis by auto
  next
    case False
    with Cons.prems have "lt x y" using less_separates [of x y] by auto
    with False Cons.prems show ?thesis by (auto intro: less_trans)
  qed
qed

lemma sorted_sort_slice: "distinct (map key xs) \<Longrightarrow> sorted_wrt lt (sort_slice lt xs)"
  by (induction xs) (auto intro!: sorted_insort_less)

lemma sort_slice_unique:
  assumes "distinct (map key xs)" "sorted_wrt lt ys" "set ys = set xs"
  shows "ys = sort_slice lt xs"
  by (rule sorted_wrt_same_set [of lt])
     (use assms less_irrefl in \<open>auto intro: less_trans sorted_sort_slice\<close>)

end

section \<open>Runs of a deterministic machine\<close>

text \<open>
  The interface a transition function offers to a property of its runs: a preorder
  between an earlier and a later state that every admissible step respects. Every run of
  admissible events then respects it.
\<close>

locale ordered_machine =
  fixes step :: "'s \<Rightarrow> 'e \<Rightarrow> 's"
    and admissible :: "'e \<Rightarrow> bool"
    and later :: "'s \<Rightarrow> 's \<Rightarrow> bool"
  assumes later_refl: "later s s"
    and later_trans: "later s t \<Longrightarrow> later t u \<Longrightarrow> later s u"
    and step_later: "admissible e \<Longrightarrow> later s (step s e)"
begin

lemma run_later: "\<forall>e \<in> set es. admissible e \<Longrightarrow> later s (foldl step s es)"
proof (induction es arbitrary: s)
  case Nil
  show ?case by (simp add: later_refl)
next
  case (Cons e es)
  then have "later s (step s e)" and "later (step s e) (foldl step (step s e) es)"
    by (auto intro: step_later)
  then show ?case by (auto intro: later_trans)
qed

end

end
