(* ===== verification/Agent_Model.thy ===== *)
theory Agent_Model
  imports Prelude
begin

text \<open>
  The data of \<^verbatim>\<open>core/agent.go\<close> and \<^verbatim>\<open>core/event.go\<close>: one record per Go struct with the
  fields in the order of the source, the string enumerations \<^verbatim>\<open>Status\<close> and \<^verbatim>\<open>Activity\<close> as
  datatypes (with a constructor for any other string, since both are Go strings), and the
  pure helpers \<^verbatim>\<open>Sender.SameIdentity\<close> and \<^verbatim>\<open>RetryDelay\<close>. An absent string is the empty
  string, a nil pointer is \<^term>\<open>None\<close>, a nil slice is the empty list.
\<close>

type_synonym hitch_id = string
type_synonym envelope_id = string
type_synonym agent_name = string

record team =
  team_curfew :: time

datatype status =
    Starting | Booting | Active | Dropping | Failed
  | StatusOther string

datatype activity =
    Unknown | Idle | Busy | Compacting | Interrupting | Blocked | Wedged
  | ActivityOther string

record process_identity =
  proc_namespace :: string
  proc_pid :: int
  proc_started :: string
  proc_version :: uint32
  proc_unique_id :: uint64
  proc_boot_id :: string

record input_intent =
  int_id :: string
  int_kind :: string
  int_at :: time

record result_ref =
  ref_id :: envelope_id
  ref_directory :: string

record message =
  msg_text :: string

record startup_sections =
  sec_contract :: string
  sec_doctrine :: string
  sec_role :: string

record sender =
  snd_kind :: string
  snd_name :: agent_name
  snd_hitch_id :: hitch_id
  snd_host :: string
  snd_peer_class :: string

definition SenderAgent :: string where "SenderAgent = ''agent''"
definition SenderOutside :: string where "SenderOutside = ''outside''"
definition SenderRegistered :: string where "SenderRegistered = ''registered''"
definition SenderSelfDeclared :: string where "SenderSelfDeclared = ''self_declared''"
definition SenderGangline :: string where "SenderGangline = ''gangline''"
definition SenderPeer :: string where "SenderPeer = ''peer''"

lemmas sender_kinds =
  SenderAgent_def SenderOutside_def SenderRegistered_def
  SenderSelfDeclared_def SenderGangline_def SenderPeer_def

definition same_identity :: "sender \<Rightarrow> sender \<Rightarrow> bool" where
  "same_identity s other =
     (if snd_kind s \<noteq> snd_kind other then False
      else if snd_kind s = SenderAgent \<or> snd_kind s = SenderOutside \<or> snd_kind s = SenderRegistered
      then snd_hitch_id s \<noteq> '''' \<and> snd_hitch_id s = snd_hitch_id other
      else snd_name s = snd_name other \<and> snd_host s = snd_host other
           \<and> snd_peer_class s = snd_peer_class other)"

record startup_paste =
  paste_witness_id :: string

record context_stamp =
  stamp_text :: string
  stamp_crossings :: "envelope_id list"

record envelope =
  env_id :: envelope_id
  env_token :: string
  env_from :: sender
  env_to :: agent_name
  env_recipient :: hitch_id
  env_message :: message
  env_context_stamp :: "context_stamp option"
  env_crossed :: string
  env_startup :: "startup_sections option"
  env_paste_only :: "startup_paste option"
  env_purpose :: string
  env_created_at :: time
  env_measured_at :: "time option"
  env_not_before :: time
  env_not_after :: time
  env_outcome :: string
  env_reason :: string
  env_witnessed :: string

definition CompactionUnconfirmed :: string where
  "CompactionUnconfirmed =
     ''native compaction completion unconfirmed; queued continuation may run''"

definition BootDeadlineElapsed :: string where
  "BootDeadlineElapsed = ''boot deadline elapsed''"

record compaction =
  cmp_id :: string
  cmp_resume :: message
  cmp_resume_from :: sender
  cmp_requester :: sender
  cmp_started_at :: time
  cmp_deadline :: time
  cmp_status :: string
  cmp_continuation :: bool
  cmp_resume_token :: string
  cmp_resume_admitted :: bool
  cmp_completed_at :: time
  cmp_refusal_before :: int
  cmp_reason :: string
  cmp_recovered :: bool

record capacity =
  cap_fingerprint :: string
  cap_evidence :: string
  cap_deadline :: time
  cap_next_at :: time
  cap_attempts :: int
  cap_submitted :: bool

definition no_capacity :: capacity where
  "no_capacity = \<lparr>cap_fingerprint = '''', cap_evidence = '''', cap_deadline = zero_time,
     cap_next_at = zero_time, cap_attempts = 0, cap_submitted = False\<rparr>"

record limit_window =
  lim_label :: string
  lim_used_percent :: float64
  lim_reset_at :: int
  lim_window_minutes :: int

record token_usage =
  use_semantics :: string
  use_fields :: string
  use_cache_inclusion :: string
  use_input :: "int option"
  use_output :: "int option"
  use_cached_input :: "int option"

record reading =
  rd_session_id :: string
  rd_source_offset :: int
  rd_usage :: "token_usage option"
  rd_kind :: string
  rd_source :: string
  rd_native_event :: string
  rd_at :: "time option"
  rd_status :: string
  rd_reason :: string
  rd_turn_id :: string
  rd_model :: string
  rd_used :: "int option"
  rd_limit :: "int option"
  rd_percent :: "float64 option"
  rd_limits :: "limit_window list"
  rd_effort :: string

record native_state =
  nat_hook_sequence :: uint64
  nat_hook_at :: time
  nat_hook_kind :: string
  nat_session_id :: string
  nat_bound_session :: string
  nat_turn_id :: string
  nat_transcript :: string
  nat_turn_failure :: string
  nat_failed_turn :: string
  nat_last_error_at :: time
  nat_last_error :: string
  nat_offset :: int
  nat_submitted_at :: time
  nat_finished_at :: time
  nat_compacted_at :: time
  nat_confirmed_compacted_at :: time
  nat_context :: reading
  nat_limits :: reading
  nat_model :: string
  nat_effort :: string
  nat_startup_session_id :: string
  nat_startup_turn_id :: string
  nat_startup_failure_noticed :: string

record clear_request =
  clr_envelope :: envelope
  clr_previous_session :: string
  clr_status :: string
  clr_started_at :: time
  clr_reason :: string

record context_band_thresholds =
  thr_early :: float64
  thr_late :: float64

record native_title =
  title_text :: string
  title_attempted :: bool

record input_outage =
  outage_since :: time
  outage_escalated :: bool

record context_band_note =
  note_threshold :: float64
  note_band :: string
  note_reading :: reading
  note_envelope :: envelope

record context_band_state =
  band_model :: string
  band_percent :: float64
  band_compacted_at :: time
  band_sequence :: uint64
  band_discard_queued :: bool
  band_pending :: "context_band_note list"

record pane_registration =
  reg_generation :: string
  reg_session :: string
  reg_token_hash :: string
  reg_launch_command :: string
  reg_server :: process_identity
  reg_held :: bool

record agent =
  ag_id :: hitch_id
  ag_name :: agent_name
  ag_collar :: string
  ag_configured_model :: string
  ag_configured_effort :: string
  ag_clear :: "clear_request option"
  ag_rehitch :: "message option"
  ag_role :: string
  ag_hitched_by :: hitch_id
  ag_directory :: string
  ag_pane :: string
  ag_status :: status
  ag_activity :: activity
  ag_created_at :: time
  ag_changed_at :: time
  ag_boot_deadline :: time
  ag_interrupt_deadline :: time
  ag_interrupt_at :: time
  ag_drop_deadline :: time
  ag_evidence :: string
  ag_status_probe_at :: time
  ag_screen_fingerprint :: string
  ag_screen_since :: time
  ag_input_outage :: "input_outage option"
  ag_input :: "input_intent option"
  ag_compaction :: "compaction option"
  ag_capacity :: capacity
  ag_native :: native_state
  ag_native_title :: "native_title option"
  ag_context_band_thresholds :: "context_band_thresholds option"
  ag_context_bands :: context_band_state
  ag_registration :: pane_registration
  ag_process :: process_identity
  ag_teardown :: "process_identity list"
  ag_rename_from :: agent_name
  ag_rename_to :: agent_name
  ag_last_accepted :: envelope_id
  ag_last_delivered :: envelope_id
  ag_last_failed :: envelope_id
  ag_cleanup :: "result_ref option"
  ag_curfew_notice_deadline :: time
  ag_startup_prompt_noticed_at :: time

section \<open>Events (core/event.go)\<close>

record credential_actor =
  act_kind :: string
  act_name :: agent_name
  act_hitch_id :: hitch_id

record credential_origin =
  org_at :: time
  org_actor :: credential_actor
  org_command :: string

record binding =
  bnd_session_id :: string
  bnd_previous_session_id :: string
  bnd_collar :: string
  bnd_hitched_by :: hitch_id

record activity_basis =
  bas_screen :: string
  bas_rule :: string
  bas_compaction :: string

record event =
  ev_source :: string
  ev_type :: string
  ev_at :: time
  ev_hitch_id :: hitch_id
  ev_name :: agent_name
  ev_to :: string
  ev_pane :: string
  ev_id :: string
  ev_reason :: string
  ev_status :: string
  ev_activity :: activity
  ev_deadline :: time
  ev_envelope :: "envelope option"
  ev_compaction :: "compaction option"
  ev_readings :: "reading list"
  ev_native_event :: string
  ev_fingerprint :: string
  ev_basis :: "activity_basis option"
  ev_binding :: "binding option"
  ev_actor :: "credential_actor option"
  ev_command :: string

record effect =
  eff_kind :: string
  eff_reason :: string

text \<open>The zero value of an event, which the struct literals of the source start from.\<close>

definition blank_event :: event where
  "blank_event = \<lparr>ev_source = '''', ev_type = '''', ev_at = zero_time, ev_hitch_id = '''',
     ev_name = '''', ev_to = '''', ev_pane = '''', ev_id = '''', ev_reason = '''',
     ev_status = '''', ev_activity = ActivityOther '''', ev_deadline = zero_time,
     ev_envelope = None, ev_compaction = None, ev_readings = [], ev_native_event = '''',
     ev_fingerprint = '''', ev_basis = None, ev_binding = None, ev_actor = None,
     ev_command = ''''\<rparr>"

section \<open>Zero values\<close>

text \<open>
  The zero values of the structs, which struct literals of the source start from; the
  witnesses build their concrete inputs from them.
\<close>

definition blank_sender :: sender where
  "blank_sender = \<lparr>snd_kind = [], snd_name = [], snd_hitch_id = [], snd_host = [],
     snd_peer_class = []\<rparr>"

definition blank_reading :: reading where
  "blank_reading = \<lparr>rd_session_id = [], rd_source_offset = 0, rd_usage = None, rd_kind = [],
     rd_source = [], rd_native_event = [], rd_at = None, rd_status = [], rd_reason = [],
     rd_turn_id = [], rd_model = [], rd_used = None, rd_limit = None, rd_percent = None,
     rd_limits = [], rd_effort = []\<rparr>"

definition blank_native :: native_state where
  "blank_native = \<lparr>nat_hook_sequence = 0, nat_hook_at = 0, nat_hook_kind = [],
     nat_session_id = [], nat_bound_session = [], nat_turn_id = [], nat_transcript = [],
     nat_turn_failure = [], nat_failed_turn = [], nat_last_error_at = 0, nat_last_error = [],
     nat_offset = 0, nat_submitted_at = 0, nat_finished_at = 0, nat_compacted_at = 0,
     nat_confirmed_compacted_at = 0, nat_context = blank_reading, nat_limits = blank_reading,
     nat_model = [], nat_effort = [], nat_startup_session_id = [], nat_startup_turn_id = [],
     nat_startup_failure_noticed = []\<rparr>"

definition blank_process :: process_identity where
  "blank_process = \<lparr>proc_namespace = [], proc_pid = 0, proc_started = [], proc_version = 0,
     proc_unique_id = 0, proc_boot_id = []\<rparr>"

definition blank_registration :: pane_registration where
  "blank_registration = \<lparr>reg_generation = [], reg_session = [], reg_token_hash = [],
     reg_launch_command = [], reg_server = blank_process, reg_held = False\<rparr>"

definition blank_bands :: context_band_state where
  "blank_bands = \<lparr>band_model = [], band_percent = 0, band_compacted_at = 0,
     band_sequence = 0, band_discard_queued = False, band_pending = []\<rparr>"

definition blank_envelope :: envelope where
  "blank_envelope = \<lparr>env_id = [], env_token = [], env_from = blank_sender, env_to = [],
     env_recipient = [], env_message = \<lparr>msg_text = []\<rparr>, env_context_stamp = None,
     env_crossed = [], env_startup = None, env_paste_only = None, env_purpose = [],
     env_created_at = 0, env_measured_at = None, env_not_before = 0, env_not_after = 0,
     env_outcome = [], env_reason = [], env_witnessed = []\<rparr>"

definition blank_compaction :: compaction where
  "blank_compaction = \<lparr>cmp_id = [], cmp_resume = \<lparr>msg_text = []\<rparr>,
     cmp_resume_from = blank_sender, cmp_requester = blank_sender, cmp_started_at = 0,
     cmp_deadline = 0, cmp_status = [], cmp_continuation = False, cmp_resume_token = [],
     cmp_resume_admitted = False, cmp_completed_at = 0, cmp_refusal_before = 0,
     cmp_reason = [], cmp_recovered = False\<rparr>"

definition blank_agent :: agent where
  "blank_agent = \<lparr>ag_id = [], ag_name = [], ag_collar = [], ag_configured_model = [],
     ag_configured_effort = [], ag_clear = None, ag_rehitch = None, ag_role = [],
     ag_hitched_by = [], ag_directory = [], ag_pane = [], ag_status = StatusOther [],
     ag_activity = ActivityOther [], ag_created_at = 0, ag_changed_at = 0,
     ag_boot_deadline = 0, ag_interrupt_deadline = 0, ag_interrupt_at = 0,
     ag_drop_deadline = 0, ag_evidence = [], ag_status_probe_at = 0,
     ag_screen_fingerprint = [], ag_screen_since = 0, ag_input_outage = None,
     ag_input = None, ag_compaction = None, ag_capacity = no_capacity,
     ag_native = blank_native, ag_native_title = None, ag_context_band_thresholds = None,
     ag_context_bands = blank_bands, ag_registration = blank_registration,
     ag_process = blank_process, ag_teardown = [], ag_rename_from = [], ag_rename_to = [],
     ag_last_accepted = [], ag_last_delivered = [], ag_last_failed = [], ag_cleanup = None,
     ag_curfew_notice_deadline = 0, ag_startup_prompt_noticed_at = 0\<rparr>"

section \<open>Retry delays\<close>

text \<open>
  The doubling loop of \<^verbatim>\<open>RetryDelay\<close>, with the delay and the remaining attempts as its
  state. The attempt count is a Go \<^verbatim>\<open>int\<close>, so the loop does not run for a count of 0 or
  less.
\<close>

function retry_loop :: "int \<Rightarrow> duration \<Rightarrow> duration" where
  "retry_loop attempt delay =
     (if attempt > 0 \<and> delay < 30 * second
      then retry_loop (attempt - 1) (min (2 * delay) (30 * second))
      else delay)"
  by pat_completeness auto
termination
  by (relation "measure (\<lambda>(a, _). nat a)") auto

declare retry_loop.simps [simp del]

definition RetryDelay :: "int \<Rightarrow> duration" where
  "RetryDelay attempt = retry_loop attempt (100 * millisecond)"

lemma same_identity_sym: "same_identity s t \<Longrightarrow> same_identity t s"
  by (auto simp: same_identity_def split: if_splits)

lemma same_identity_trans: "same_identity s t \<Longrightarrow> same_identity t u \<Longrightarrow> same_identity s u"
  by (auto simp: same_identity_def split: if_splits)

lemma min_min_mult:
  fixes p c d :: int
  assumes "1 \<le> p" "0 < c"
  shows "min (min (2 * d) c * p) c = min (d * (2 * p)) c"
proof (cases "2 * d \<le> c")
  case True
  then show ?thesis by (simp add: min_def algebra_simps)
next
  case False
  have cp: "c * 1 \<le> c * p" using assms by (intro mult_left_mono) auto
  have "c * p \<le> 2 * d * p" using False assms by (intro mult_right_mono) auto
  with cp have "c \<le> d * (2 * p)" by (simp add: algebra_simps)
  with False cp show ?thesis by (simp add: min_def)
qed

lemma retry_loop_closed:
  assumes "0 < d" "d \<le> 30 * second"
  shows "retry_loop a d = min (d * 2 ^ nat a) (30 * second)"
  using assms
proof (induction a d rule: retry_loop.induct)
  case (1 a d)
  show ?case
  proof (cases "a > 0 \<and> d < 30 * second")
    case True
    then have "retry_loop a d = retry_loop (a - 1) (min (2 * d) (30 * second))"
      by (simp add: retry_loop.simps [of a])
    also have "\<dots> = min (min (2 * d) (30 * second) * 2 ^ nat (a - 1)) (30 * second)"
      using 1 True by simp
    also have "\<dots> = min (d * 2 ^ nat a) (30 * second)"
    proof -
      have a: "nat a = Suc (nat (a - 1))" using True by arith
      show ?thesis unfolding a
        using min_min_mult [of "2 ^ nat (a - 1)" "30 * second" d] by simp
    qed
    finally show ?thesis .
  next
    case False
    then consider "a \<le> 0" | "a > 0" "d = 30 * second" using 1 by force
    then show ?thesis
    proof cases
      case 1
      with "1.prems" show ?thesis by (simp add: retry_loop.simps [of a])
    next
      case 2
      then show ?thesis by (simp add: retry_loop.simps [of a] min_absorb2)
    qed
  qed
qed

lemma RetryDelay_closed: "RetryDelay a = min (100 * millisecond * 2 ^ nat a) (30 * second)"
  unfolding RetryDelay_def by (rule retry_loop_closed) simp_all

end
