(* ===== verification/Core_Step.thy ===== *)
theory Core_Step
  imports Agent_Model
begin

text \<open>
  \<^verbatim>\<open>core/step.go\<close>: the pure transition \<^verbatim>\<open>Step(agent, event)\<close>. Each branch of its
  \<^verbatim>\<open>switch\<close> is one definition, and the three ways a branch leaves the function are the
  three constructors of \<^theory_text>\<open>outcome\<close>: reaching the end of the switch (which stamps
  \<^verbatim>\<open>ChangedAt\<close>), \<^verbatim>\<open>return agent, nil\<close> and \<^verbatim>\<open>return agent, []Effect{reject}\<close>.
\<close>

section \<open>The transition\<close>

datatype outcome =
    Stamp agent          \<comment> \<open>falls through to \<^verbatim>\<open>agent.ChangedAt = event.At\<close>\<close>
  | Ignore agent         \<comment> \<open>\<^verbatim>\<open>return agent, nil\<close>\<close>
  | Reject string        \<comment> \<open>\<^verbatim>\<open>return agent, []Effect{{Kind: "reject", ...}}\<close>\<close>

definition on_hitch_spawned :: "agent \<Rightarrow> event \<Rightarrow> outcome" where
  "on_hitch_spawned a e = Stamp (a\<lparr>ag_pane := ev_pane e, ag_status := Booting\<rparr>)"

definition on_hitch_ready :: "agent \<Rightarrow> event \<Rightarrow> outcome" where
  "on_hitch_ready a e =
     Stamp (a\<lparr>ag_status := Active, ag_activity := Idle, ag_boot_deadline := zero_time\<rparr>)"

definition on_hitch_blocked :: "agent \<Rightarrow> event \<Rightarrow> outcome" where
  "on_hitch_blocked a e =
     Stamp (a\<lparr>ag_startup_prompt_noticed_at := zero_time, ag_activity := Blocked,
             ag_evidence := ev_reason e, ag_boot_deadline := zero_time\<rparr>)"

definition on_boot_reopened :: "agent \<Rightarrow> event \<Rightarrow> outcome" where
  "on_boot_reopened a e =
     (if ag_status a \<noteq> Failed \<or> ag_evidence a \<noteq> BootDeadlineElapsed \<or> ev_deadline e = zero_time
      then Reject ''only an agent failed by its boot deadline can resume startup''
      else Stamp (a\<lparr>ag_status := Booting, ag_activity := Unknown, ag_evidence := '''',
                   ag_boot_deadline := ev_deadline e\<rparr>))"

definition on_hitch_failed :: "agent \<Rightarrow> event \<Rightarrow> outcome" where
  "on_hitch_failed a e =
     Stamp (a\<lparr>ag_status := Failed, ag_activity := Unknown, ag_evidence := ev_reason e\<rparr>)"

definition on_activity_observed :: "agent \<Rightarrow> event \<Rightarrow> outcome" where
  "on_activity_observed a e =
     Stamp (if ag_status a = Active
            then a\<lparr>ag_activity := ev_activity e, ag_evidence := ev_reason e\<rparr> else a)"

definition on_input_started :: "agent \<Rightarrow> event \<Rightarrow> outcome" where
  "on_input_started a e =
     (if ag_input a \<noteq> None then Reject ''input already in progress''
      else Stamp (a\<lparr>ag_input :=
                     Some \<lparr>int_id = ev_id e, int_kind = ev_status e, int_at = ev_at e\<rparr>\<rparr>))"

definition on_input_finished :: "agent \<Rightarrow> event \<Rightarrow> outcome" where
  "on_input_finished a e =
     (case ag_input a of
        None \<Rightarrow> Reject ''input result has no matching intent''
      | Some i \<Rightarrow>
          if int_id i \<noteq> ev_id e then Reject ''input result has no matching intent''
          else
            (let a = a\<lparr>ag_input := None\<rparr>
             in Stamp
               (if ev_status e = ''delivered''
                then a\<lparr>ag_activity := Busy,
                       ag_native := (ag_native a)\<lparr>nat_submitted_at := ev_at e\<rparr>\<rparr>
                else if ev_status e = ''accepted''
                then a\<lparr>ag_activity := Busy, ag_evidence := ev_reason e\<rparr>
                else if ev_status e = ''unverified''
                then a\<lparr>ag_activity := Unknown,
                       ag_evidence := ''input submission unverified: '' @ ev_reason e\<rparr>
                else a)))"

text \<open>The pending test of \<^verbatim>\<open>compaction_requested\<close>; in Go \<^verbatim>\<open>&&\<close> binds before \<^verbatim>\<open>||\<close>.\<close>

definition compaction_pending :: "compaction \<Rightarrow> bool" where
  "compaction_pending c \<longleftrightarrow>
     cmp_status c = ''queued'' \<or> cmp_status c = ''submitted''
     \<or> cmp_status c = ''completed'' \<and> \<not> cmp_continuation c"

definition on_compaction_requested :: "agent \<Rightarrow> event \<Rightarrow> outcome" where
  "on_compaction_requested a e =
     (if (case ag_compaction a of None \<Rightarrow> False | Some c \<Rightarrow> compaction_pending c)
      then Reject ''compaction already pending''
      else case ev_compaction e of
        None \<Rightarrow> Reject ''compaction is required''
      | Some c \<Rightarrow> Stamp (a\<lparr>ag_compaction := Some c\<rparr>))"

definition on_compaction_waiting :: "agent \<Rightarrow> event \<Rightarrow> outcome" where
  "on_compaction_waiting a e =
     (case ag_compaction a of
        None \<Rightarrow> Ignore a
      | Some c \<Rightarrow>
          if cmp_id c \<noteq> ev_id e \<or> cmp_status c \<noteq> ''queued'' then Ignore a
          else Stamp (a\<lparr>ag_compaction := Some (c\<lparr>cmp_reason := ev_reason e\<rparr>)\<rparr>))"

definition on_compaction_cancelled :: "agent \<Rightarrow> event \<Rightarrow> outcome" where
  "on_compaction_cancelled a e =
     (case ag_compaction a of
        None \<Rightarrow> Stamp a
      | Some c \<Rightarrow>
          Stamp (if cmp_id c = ev_id e \<and> cmp_status c = ''queued''
                 then a\<lparr>ag_compaction := None\<rparr> else a))"

definition on_compaction_submitted :: "agent \<Rightarrow> event \<Rightarrow> outcome" where
  "on_compaction_submitted a e =
     (case ag_compaction a of
        None \<Rightarrow> Ignore a
      | Some c \<Rightarrow>
          if cmp_id c \<noteq> ev_id e then Ignore a
          else Stamp (a\<lparr>ag_compaction := Some (c\<lparr>cmp_status := ''submitted''\<rparr>),
                       ag_activity := Compacting, ag_input := None\<rparr>))"

definition on_compaction_completed :: "agent \<Rightarrow> event \<Rightarrow> outcome" where
  "on_compaction_completed a e =
     (case ag_compaction a of
        None \<Rightarrow> Ignore a
      | Some c \<Rightarrow>
          if cmp_id c \<noteq> ev_id e then Ignore a
          else Stamp (a\<lparr>ag_compaction := Some (c\<lparr>cmp_status := ''completed'', cmp_reason := ''''\<rparr>),
                       ag_activity := Idle, ag_evidence := ''''\<rparr>))"

definition on_compaction_failed :: "agent \<Rightarrow> event \<Rightarrow> outcome" where
  "on_compaction_failed a e =
     (case ag_compaction a of
        None \<Rightarrow> Ignore a
      | Some c \<Rightarrow>
          if cmp_id c \<noteq> ev_id e then Ignore a
          else Stamp (a\<lparr>ag_compaction :=
                         Some (c\<lparr>cmp_status := ''failed'', cmp_reason := ev_reason e\<rparr>),
                       ag_activity := Unknown, ag_evidence := ev_reason e, ag_input := None\<rparr>))"

definition on_compaction_unverified :: "agent \<Rightarrow> event \<Rightarrow> outcome" where
  "on_compaction_unverified a e =
     (case ag_compaction a of
        None \<Rightarrow> Ignore a
      | Some c \<Rightarrow>
          if cmp_id c \<noteq> ev_id e then Ignore a
          else
            (let c = c\<lparr>cmp_status := ''unverified'', cmp_reason := ev_reason e\<rparr>;
                 c = (if ev_status e = ''recovery'' then c\<lparr>cmp_recovered := True\<rparr> else c)
             in Stamp (a\<lparr>ag_compaction := Some c, ag_activity := Unknown,
                        ag_evidence := ev_reason e, ag_input := None\<rparr>)))"

definition on_interrupt_requested :: "agent \<Rightarrow> event \<Rightarrow> outcome" where
  "on_interrupt_requested a e =
     Stamp (a\<lparr>ag_interrupt_at :=
                (if ag_interrupt_at a = zero_time \<or> \<not> ev_at e < ag_interrupt_deadline a
                 then ev_at e else ag_interrupt_at a),
             ag_activity := Interrupting, ag_interrupt_deadline := ev_deadline e\<rparr>)"

definition on_interrupt_completed :: "agent \<Rightarrow> event \<Rightarrow> outcome" where
  "on_interrupt_completed a e =
     Stamp (a\<lparr>ag_activity := Idle, ag_interrupt_deadline := zero_time,
             ag_interrupt_at := zero_time,
             ag_native := (if ev_at e > nat_finished_at (ag_native a)
                           then (ag_native a)\<lparr>nat_finished_at := ev_at e\<rparr> else ag_native a)\<rparr>)"

definition on_drop_started :: "agent \<Rightarrow> event \<Rightarrow> outcome" where
  "on_drop_started a e = Stamp (a\<lparr>ag_status := Dropping\<rparr>)"

definition capacity_envelope :: "string \<Rightarrow> envelope_id" where
  "capacity_envelope fingerprint = ''capacity-'' @ fingerprint"

definition note_capacity :: "capacity \<Rightarrow> event \<Rightarrow> capacity" where
  "note_capacity c e =
     (if cap_fingerprint c = ev_fingerprint e then c
      else c\<lparr>cap_deadline := (if cap_deadline c = zero_time then ev_deadline e else cap_deadline c),
             cap_fingerprint := ev_fingerprint e, cap_evidence := ev_reason e,
             cap_next_at := ev_at e + RetryDelay (cap_attempts c), cap_submitted := False\<rparr>)"

definition on_capacity_detected :: "agent \<Rightarrow> event \<Rightarrow> outcome" where
  "on_capacity_detected a e =
     (let c = note_capacity (ag_capacity a) e; a = a\<lparr>ag_capacity := c\<rparr>
      in Stamp
        (if \<not> ev_at e < cap_deadline c \<and> ag_last_failed a \<noteq> capacity_envelope (cap_fingerprint c)
         then a\<lparr>ag_activity := Wedged,
                ag_evidence := ''provider capacity recovery deadline elapsed''\<rparr>
         else a))"

definition on_capacity_submitted :: "agent \<Rightarrow> event \<Rightarrow> outcome" where
  "on_capacity_submitted a e =
     Stamp (a\<lparr>ag_capacity := (ag_capacity a)\<lparr>cap_submitted := True,
                cap_attempts := cap_attempts (ag_capacity a) + 1\<rparr>\<rparr>)"

definition on_capacity_cleared :: "agent \<Rightarrow> event \<Rightarrow> outcome" where
  "on_capacity_cleared a e = Stamp (a\<lparr>ag_capacity := no_capacity\<rparr>)"

text \<open>The three deadline checks of \<^verbatim>\<open>deadline_checked\<close>, in the order of the source.\<close>

definition check_boot :: "time \<Rightarrow> agent \<Rightarrow> agent" where
  "check_boot t a =
     (if ag_boot_deadline a \<noteq> zero_time \<and> \<not> t < ag_boot_deadline a
         \<and> (ag_status a = Starting \<or> ag_status a = Booting)
      then a\<lparr>ag_status := Failed, ag_evidence := BootDeadlineElapsed\<rparr> else a)"

definition check_interrupt :: "time \<Rightarrow> agent \<Rightarrow> agent" where
  "check_interrupt t a =
     (if ag_activity a = Interrupting \<and> ag_interrupt_deadline a \<noteq> zero_time
         \<and> \<not> t < ag_interrupt_deadline a
      then a\<lparr>ag_activity := Wedged, ag_evidence := ''interrupt deadline elapsed''\<rparr> else a)"

definition check_compaction :: "time \<Rightarrow> agent \<Rightarrow> agent" where
  "check_compaction t a =
     (case ag_compaction a of
        None \<Rightarrow> a
      | Some c \<Rightarrow>
          if cmp_status c = ''submitted'' \<and> \<not> t < cmp_deadline c
          then a\<lparr>ag_compaction :=
                   Some (c\<lparr>cmp_status := ''unverified'', cmp_reason := CompactionUnconfirmed\<rparr>),
                 ag_activity := Unknown, ag_evidence := CompactionUnconfirmed\<rparr>
          else a)"

definition on_deadline_checked :: "agent \<Rightarrow> event \<Rightarrow> outcome" where
  "on_deadline_checked a e =
     (if ag_status a = Dropping then Ignore a
      else Stamp (check_compaction (ev_at e) (check_interrupt (ev_at e) (check_boot (ev_at e) a))))"

text \<open>The \<^verbatim>\<open>switch event.Type\<close>: its cases in the order of the source, and its \<^verbatim>\<open>default\<close>.\<close>

definition handlers :: "(string \<times> (agent \<Rightarrow> event \<Rightarrow> outcome)) list" where
  "handlers =
    [(''hitch_spawned'', on_hitch_spawned),
     (''hitch_ready'', on_hitch_ready),
     (''hitch_blocked'', on_hitch_blocked),
     (''boot_reopened'', on_boot_reopened),
     (''hitch_failed'', on_hitch_failed),
     (''activity_observed'', on_activity_observed),
     (''input_started'', on_input_started),
     (''input_finished'', on_input_finished),
     (''compaction_requested'', on_compaction_requested),
     (''compaction_waiting'', on_compaction_waiting),
     (''compaction_cancelled'', on_compaction_cancelled),
     (''compaction_submitted'', on_compaction_submitted),
     (''compaction_completed'', on_compaction_completed),
     (''compaction_failed'', on_compaction_failed),
     (''compaction_unverified'', on_compaction_unverified),
     (''interrupt_requested'', on_interrupt_requested),
     (''interrupt_completed'', on_interrupt_completed),
     (''drop_started'', on_drop_started),
     (''capacity_detected'', on_capacity_detected),
     (''capacity_submitted'', on_capacity_submitted),
     (''capacity_cleared'', on_capacity_cleared),
     (''deadline_checked'', on_deadline_checked)]"

definition dispatch :: "string \<Rightarrow> agent \<Rightarrow> event \<Rightarrow> outcome" where
  "dispatch ty a e =
     (case map_of handlers ty of None \<Rightarrow> Ignore a | Some handler \<Rightarrow> handler a e)"

definition reject :: "string \<Rightarrow> effect" where
  "reject r = \<lparr>eff_kind = ''reject'', eff_reason = r\<rparr>"

definition Step :: "agent \<Rightarrow> event \<Rightarrow> agent \<times> effect list" where
  "Step a e =
     (if ev_hitch_id e \<noteq> ag_id a \<or> ev_at e = zero_time
      then (a, [reject ''event does not identify this agent and its time''])
      else case dispatch (ev_type e) a e of
        Reject r \<Rightarrow> (a, [reject r])
      | Ignore a' \<Rightarrow> (a', [])
      | Stamp a' \<Rightarrow> (a'\<lparr>ag_changed_at := ev_at e\<rparr>, []))"

section \<open>Reasoning about the switch\<close>

lemmas handler_defs =
  on_hitch_spawned_def on_hitch_ready_def on_hitch_blocked_def on_boot_reopened_def
  on_hitch_failed_def on_activity_observed_def on_input_started_def on_input_finished_def
  on_compaction_requested_def on_compaction_waiting_def on_compaction_cancelled_def
  on_compaction_submitted_def on_compaction_completed_def on_compaction_failed_def
  on_compaction_unverified_def on_interrupt_requested_def on_interrupt_completed_def
  on_drop_started_def on_capacity_detected_def on_capacity_submitted_def
  on_capacity_cleared_def on_deadline_checked_def

lemmas check_defs = check_boot_def check_interrupt_def check_compaction_def

text \<open>Each deadline check writes only the fields its verdict is about.\<close>

lemma check_boot_frame:
  "check_boot t a =
     a\<lparr>ag_status := ag_status (check_boot t a), ag_evidence := ag_evidence (check_boot t a)\<rparr>"
  by (simp add: check_boot_def)

lemma check_interrupt_frame:
  "check_interrupt t a =
     a\<lparr>ag_activity := ag_activity (check_interrupt t a),
       ag_evidence := ag_evidence (check_interrupt t a)\<rparr>"
  by (simp add: check_interrupt_def)

lemma check_compaction_frame:
  "check_compaction t a =
     a\<lparr>ag_activity := ag_activity (check_compaction t a),
       ag_evidence := ag_evidence (check_compaction t a),
       ag_compaction := ag_compaction (check_compaction t a)\<rparr>"
  by (simp add: check_compaction_def split: option.split)

lemma checks_frame:
  obtains st act c why where
    "check_compaction t (check_interrupt t (check_boot t a)) =
       a\<lparr>ag_status := st, ag_activity := act, ag_evidence := why, ag_compaction := c\<rparr>"
proof -
  show thesis
    by (rule that, subst check_compaction_frame, subst (4) check_interrupt_frame,
        subst (5) check_boot_frame, simp)
qed

text \<open>A fact about every branch is a fact about the switch, whatever the event's type.\<close>

lemma dispatch_rule:
  assumes "ty = ''hitch_spawned'' \<Longrightarrow> P (on_hitch_spawned a e)"
    "ty = ''hitch_ready'' \<Longrightarrow> P (on_hitch_ready a e)"
    "ty = ''hitch_blocked'' \<Longrightarrow> P (on_hitch_blocked a e)"
    "ty = ''boot_reopened'' \<Longrightarrow> P (on_boot_reopened a e)"
    "ty = ''hitch_failed'' \<Longrightarrow> P (on_hitch_failed a e)"
    "ty = ''activity_observed'' \<Longrightarrow> P (on_activity_observed a e)"
    "ty = ''input_started'' \<Longrightarrow> P (on_input_started a e)"
    "ty = ''input_finished'' \<Longrightarrow> P (on_input_finished a e)"
    "ty = ''compaction_requested'' \<Longrightarrow> P (on_compaction_requested a e)"
    "ty = ''compaction_waiting'' \<Longrightarrow> P (on_compaction_waiting a e)"
    "ty = ''compaction_cancelled'' \<Longrightarrow> P (on_compaction_cancelled a e)"
    "ty = ''compaction_submitted'' \<Longrightarrow> P (on_compaction_submitted a e)"
    "ty = ''compaction_completed'' \<Longrightarrow> P (on_compaction_completed a e)"
    "ty = ''compaction_failed'' \<Longrightarrow> P (on_compaction_failed a e)"
    "ty = ''compaction_unverified'' \<Longrightarrow> P (on_compaction_unverified a e)"
    "ty = ''interrupt_requested'' \<Longrightarrow> P (on_interrupt_requested a e)"
    "ty = ''interrupt_completed'' \<Longrightarrow> P (on_interrupt_completed a e)"
    "ty = ''drop_started'' \<Longrightarrow> P (on_drop_started a e)"
    "ty = ''capacity_detected'' \<Longrightarrow> P (on_capacity_detected a e)"
    "ty = ''capacity_submitted'' \<Longrightarrow> P (on_capacity_submitted a e)"
    "ty = ''capacity_cleared'' \<Longrightarrow> P (on_capacity_cleared a e)"
    "ty = ''deadline_checked'' \<Longrightarrow> P (on_deadline_checked a e)"
    "map_of handlers ty = None \<Longrightarrow> P (Ignore a)"
  shows "P (dispatch ty a e)"
proof (cases "map_of handlers ty")
  case None
  with assms(23) show ?thesis by (simp add: dispatch_def)
next
  case (Some h)
  then have "(ty, h) \<in> set handlers" by (rule map_of_SomeD)
  then have "P (h a e)"
    unfolding handlers_def list.set insert_iff prod.inject empty_iff
    by (elim disjE conjE) (simp_all add: assms)
  with Some show ?thesis by (simp add: dispatch_def)
qed

text \<open>The agent an outcome leaves behind, and whether it is stamped.\<close>

fun left_by :: "agent \<Rightarrow> outcome \<Rightarrow> agent" where
  "left_by a (Stamp a') = a'"
| "left_by a (Ignore a') = a'"
| "left_by a (Reject r) = a"

lemma Step_agent:
  "fst (Step a e) =
     (if ev_hitch_id e \<noteq> ag_id a \<or> ev_at e = zero_time then a
      else case dispatch (ev_type e) a e of
        Stamp a' \<Rightarrow> a'\<lparr>ag_changed_at := ev_at e\<rparr> | Ignore a' \<Rightarrow> a' | Reject r \<Rightarrow> a)"
  by (simp add: Step_def split: outcome.splits)

text \<open>To relate the agents before and after a step, relate them across every branch.\<close>

lemma Step_rule:
  assumes refl: "R a a"
    and branch: "P (dispatch (ev_type e) a e)"
    and left: "\<And>out. P out \<Longrightarrow> R a (left_by a out)"
    and stamp: "\<And>b t. R a b \<Longrightarrow> R a (b\<lparr>ag_changed_at := t\<rparr>)"
  shows "R a (fst (Step a e))"
proof (cases "dispatch (ev_type e) a e")
  case (Stamp b)
  with left [OF branch] have "R a b" by simp
  then show ?thesis using refl stamp by (simp add: Step_agent Stamp)
next
  case (Ignore b)
  with left [OF branch] have "R a b" by simp
  then show ?thesis using refl by (simp add: Step_agent Ignore)
next
  case (Reject r)
  then show ?thesis using refl by (simp add: Step_agent)
qed

end
