(* ===== verification/Core_Protocol.thy ===== *)
theory Core_Protocol
  imports Core_Step
begin

text \<open>
  The protocols an agent record carries, over any run of \<^verbatim>\<open>core.Step\<close>: the single input
  intent, the compaction lifecycle, the deadline checks, and the provider-capacity record.
\<close>

section \<open>The input slot\<close>

text \<open>
  The events that may clear an input intent: its own result, and the three compaction
  events that take native input over.
\<close>

definition may_release :: "string \<Rightarrow> event \<Rightarrow> bool" where
  "may_release i e \<longleftrightarrow>
     ev_type e = ''input_finished'' \<and> ev_id e = i
     \<or> ev_type e = ''compaction_submitted'' \<or> ev_type e = ''compaction_failed''
     \<or> ev_type e = ''compaction_unverified''"

definition keeps_intent :: "input_intent \<Rightarrow> agent \<Rightarrow> agent \<Rightarrow> bool" where
  "keeps_intent i a b \<longleftrightarrow> (ag_input a = Some i \<longrightarrow> ag_input b = Some i)"

lemma branch_keeps_intent:
  assumes "ag_input a = Some i" "\<not> may_release (int_id i) e"
  shows "ag_input (left_by a (dispatch (ev_type e) a e)) = Some i"
proof -
  obtain st act c why where checks:
    "check_compaction (ev_at e) (check_interrupt (ev_at e) (check_boot (ev_at e) a)) =
       a\<lparr>ag_status := st, ag_activity := act, ag_evidence := why, ag_compaction := c\<rparr>"
    by (rule checks_frame)
  have free: "ev_type e \<noteq> ''compaction_submitted''" "ev_type e \<noteq> ''compaction_failed''"
    "ev_type e \<noteq> ''compaction_unverified''"
    "ev_type e = ''input_finished'' \<Longrightarrow> int_id i \<noteq> ev_id e"
    using assms(2) by (auto simp: may_release_def)
  show ?thesis
    by (rule dispatch_rule [where ty = "ev_type e"])
       (simp_all add: assms(1) free handler_defs checks Let_def split: option.split)
qed

interpretation intent: ordered_machine
  "\<lambda>a e. fst (Step a e)" "\<lambda>e. \<not> may_release (int_id i) e" "keeps_intent i" for i
proof unfold_locales
  fix a e assume "\<not> may_release (int_id i) e"
  then have "keeps_intent i a (left_by a (dispatch (ev_type e) a e))"
    using branch_keeps_intent by (simp add: keeps_intent_def)
  note kept = this
  show "keeps_intent i a (fst (Step a e))"
    by (rule Step_rule [where P = "\<lambda>out. keeps_intent i a (left_by a out)"])
       (simp_all add: kept, simp_all add: keeps_intent_def)
qed (simp_all add: keeps_intent_def)

lemma dispatch_input:
  "dispatch ''input_started'' a e = on_input_started a e" "dispatch ''input_finished'' a e = on_input_finished a e"
  "dispatch ''deadline_checked'' a e = on_deadline_checked a e"
  by (simp_all add: dispatch_def handlers_def)

lemma Step_refuses:
  assumes "ag_input a = Some i"
    and "ev_type e = ''input_started'' \<or> ev_type e = ''input_finished'' \<and> ev_id e \<noteq> int_id i"
  shows "\<exists>r. Step a e = (a, [reject r])"
  using assms(2)
proof (elim disjE conjE)
  assume "ev_type e = ''input_started''"
  then show ?thesis using assms(1) by (auto simp: Step_def dispatch_input(1) on_input_started_def)
next
  assume "ev_type e = ''input_finished''" "ev_id e \<noteq> int_id i"
  then show ?thesis using assms(1) by (auto simp: Step_def dispatch_input(2) on_input_finished_def)
qed

text \<open>
  C23 (input_intent_kept): an input intent is never replaced. Through any run that neither
  reports this input's result nor hands native input to a compaction, the recorded intent
  stays; and in the state the run leaves, another input that tries to start, and the result of
  another input, are rejected with a reason and change nothing.
\<close>

theorem input_intent_kept:
  assumes "ag_input a = Some i" and "\<forall>e \<in> set es. \<not> may_release (int_id i) e"
  shows "ag_input (foldl (\<lambda>a e. fst (Step a e)) a es) = Some i
    \<and> (ev_type e = ''input_started'' \<or> ev_type e = ''input_finished'' \<and> ev_id e \<noteq> int_id i \<longrightarrow>
        (\<exists>r. Step (foldl (\<lambda>a e. fst (Step a e)) a es) e = (foldl (\<lambda>a e. fst (Step a e)) a es, [reject r])))"
proof -
  have "ag_input (foldl (\<lambda>a e. fst (Step a e)) a es) = Some i"
    using intent.run_later [OF assms(2), of a] assms(1) by (simp add: keeps_intent_def)
  then show ?thesis using Step_refuses by blast
qed

definition demo_agent :: agent where
  "demo_agent = blank_agent\<lparr>ag_id := ''h1'', ag_name := ''lead'', ag_collar := ''claude'',
     ag_status := Active, ag_activity := Idle\<rparr>"

definition demo_event :: "string \<Rightarrow> time \<Rightarrow> event" where
  "demo_event ty t = blank_event\<lparr>ev_type := ty, ev_hitch_id := ''h1'', ev_at := t\<rparr>"

theorem input_intent_kept_witness:
  "let b = foldl (\<lambda>a e. fst (Step a e))
     (demo_agent\<lparr>ag_input := Some \<lparr>int_id = ''m1'', int_kind = ''message'', int_at = 5\<rparr>\<rparr>)
     [demo_event ''input_started'' 6, demo_event ''input_finished'' 7]
   in ag_input b = Some \<lparr>int_id = ''m1'', int_kind = ''message'', int_at = 5\<rparr>
     \<and> (\<exists>r. Step b (demo_event ''input_started'' 8) = (b, [reject r]))"
proof -
  have type: "ev_type (demo_event ''input_started'' 8) = ''input_started''" by (simp add: demo_event_def)
  show ?thesis
    using input_intent_kept [of "demo_agent\<lparr>ag_input := Some \<lparr>int_id = ''m1'', int_kind = ''message'', int_at = 5\<rparr>\<rparr>"
        "\<lparr>int_id = ''m1'', int_kind = ''message'', int_at = 5\<rparr>" "[demo_event ''input_started'' 6, demo_event ''input_finished'' 7]"
        "demo_event ''input_started'' 8"] type
    unfolding Let_def by (simp add: may_release_def demo_event_def blank_event_def)
qed

section \<open>The compaction lifecycle\<close>

text \<open>
  The abstract lifecycle of the compaction record. An event is aimed at it when it identifies
  the agent and carries a time (and, for a deadline check, the agent is not being dropped). Each
  rule is one kind of event with the records it applies to; an event that no rule applies to
  leaves the record as it is.
\<close>

definition aimed :: "agent \<Rightarrow> event \<Rightarrow> bool" where
  "aimed a e \<longleftrightarrow> ev_hitch_id e = ag_id a \<and> ev_at e \<noteq> zero_time \<and> (ev_type e = ''deadline_checked'' \<longrightarrow> ag_status a \<noteq> Dropping)"

text \<open>Whether an aimed event decides something about the record.\<close>

definition decides :: "event \<Rightarrow> compaction option \<Rightarrow> bool" where
  "decides e r \<longleftrightarrow> (case r of
       None \<Rightarrow> ev_type e = ''compaction_requested'' \<and> ev_compaction e \<noteq> None
     | Some c \<Rightarrow>
         ev_type e = ''compaction_requested'' \<and> ev_compaction e \<noteq> None \<and> \<not> compaction_pending c
         \<or> ev_type e \<in> {''compaction_waiting'', ''compaction_cancelled''} \<and> cmp_id c = ev_id e \<and> cmp_status c = ''queued''
         \<or> ev_type e \<in> {''compaction_submitted'', ''compaction_completed'', ''compaction_failed'', ''compaction_unverified''}
             \<and> cmp_id c = ev_id e
         \<or> ev_type e = ''deadline_checked'' \<and> cmp_status c = ''submitted'' \<and> cmp_deadline c \<le> ev_at e)"

inductive lifecycle :: "bool \<Rightarrow> event \<Rightarrow> compaction option \<Rightarrow> compaction option \<Rightarrow> bool" where
  idle: "\<not> at_it \<or> \<not> decides e r \<Longrightarrow> lifecycle at_it e r r"
| request: "ev_type e = ''compaction_requested'' \<Longrightarrow> (\<And>c. r = Some c \<Longrightarrow> \<not> compaction_pending c) \<Longrightarrow>
    ev_compaction e = Some c' \<Longrightarrow> lifecycle True e r (Some c')"
| wait: "ev_type e = ''compaction_waiting'' \<Longrightarrow> cmp_id c = ev_id e \<Longrightarrow> cmp_status c = ''queued'' \<Longrightarrow>
    lifecycle True e (Some c) (Some (c\<lparr>cmp_reason := ev_reason e\<rparr>))"
| cancel: "ev_type e = ''compaction_cancelled'' \<Longrightarrow> cmp_id c = ev_id e \<Longrightarrow> cmp_status c = ''queued'' \<Longrightarrow>
    lifecycle True e (Some c) None"
| submit: "ev_type e = ''compaction_submitted'' \<Longrightarrow> cmp_id c = ev_id e \<Longrightarrow>
    lifecycle True e (Some c) (Some (c\<lparr>cmp_status := ''submitted''\<rparr>))"
| complete: "ev_type e = ''compaction_completed'' \<Longrightarrow> cmp_id c = ev_id e \<Longrightarrow>
    lifecycle True e (Some c) (Some (c\<lparr>cmp_status := ''completed'', cmp_reason := ''''\<rparr>))"
| fail: "ev_type e = ''compaction_failed'' \<Longrightarrow> cmp_id c = ev_id e \<Longrightarrow>
    lifecycle True e (Some c) (Some (c\<lparr>cmp_status := ''failed'', cmp_reason := ev_reason e\<rparr>))"
| doubt: "ev_type e = ''compaction_unverified'' \<Longrightarrow> cmp_id c = ev_id e \<Longrightarrow>
    lifecycle True e (Some c) (Some (c\<lparr>cmp_status := ''unverified'', cmp_reason := ev_reason e,
      cmp_recovered := (cmp_recovered c \<or> ev_status e = ''recovery'')\<rparr>))"
| expire: "ev_type e = ''deadline_checked'' \<Longrightarrow> cmp_status c = ''submitted'' \<Longrightarrow> cmp_deadline c \<le> ev_at e \<Longrightarrow>
    lifecycle True e (Some c) (Some (c\<lparr>cmp_status := ''unverified'', cmp_reason := CompactionUnconfirmed\<rparr>))"

inductive_cases lifecycle_someE: "lifecycle at_it e (Some c) r"

lemma check_keeps_compaction:
  "ag_compaction (check_boot t a) = ag_compaction a"
  "ag_compaction (check_interrupt t a) = ag_compaction a"
  by (simp_all add: check_boot_def check_interrupt_def)

lemma doubt_plain:
  assumes "ev_type e = ''compaction_unverified''" "cmp_id c = ev_id e"
  shows "ev_status e \<noteq> ''recovery'' \<Longrightarrow> lifecycle True e (Some c) (Some (c\<lparr>cmp_status := ''unverified'', cmp_reason := ev_reason e\<rparr>))"
    "ev_status e = ''recovery'' \<Longrightarrow>
      lifecycle True e (Some c) (Some (c\<lparr>cmp_status := ''unverified'', cmp_reason := ev_reason e, cmp_recovered := True\<rparr>))"
  using lifecycle.doubt [OF assms] by simp_all

text \<open>The handlers of the compaction events and of the deadline check, one by one.\<close>

definition tracks :: "agent \<Rightarrow> event \<Rightarrow> outcome \<Rightarrow> bool" where
  "tracks a e out \<longleftrightarrow> lifecycle True e (ag_compaction a) (ag_compaction (left_by a out))"

lemma tracks_idle:
  "ag_compaction (left_by a out) = ag_compaction a \<Longrightarrow> \<not> decides e (ag_compaction a) \<Longrightarrow> tracks a e out"
  by (simp add: tracks_def lifecycle.idle)

lemma tracks_requested: "ev_type e = ''compaction_requested'' \<Longrightarrow> tracks a e (on_compaction_requested a e)"
  by (auto simp: tracks_def on_compaction_requested_def decides_def split: option.splits
    intro: lifecycle.idle lifecycle.request)

lemma tracks_waiting: "ev_type e = ''compaction_waiting'' \<Longrightarrow> tracks a e (on_compaction_waiting a e)"
  by (auto simp: tracks_def on_compaction_waiting_def decides_def split: option.splits
    intro: lifecycle.idle lifecycle.wait)

lemma tracks_cancelled: "ev_type e = ''compaction_cancelled'' \<Longrightarrow> tracks a e (on_compaction_cancelled a e)"
  by (auto simp: tracks_def on_compaction_cancelled_def decides_def split: option.splits
    intro: lifecycle.idle lifecycle.cancel)

lemma tracks_submitted: "ev_type e = ''compaction_submitted'' \<Longrightarrow> tracks a e (on_compaction_submitted a e)"
  by (auto simp: tracks_def on_compaction_submitted_def decides_def split: option.splits
    intro: lifecycle.idle lifecycle.submit)

lemma tracks_completed: "ev_type e = ''compaction_completed'' \<Longrightarrow> tracks a e (on_compaction_completed a e)"
  by (auto simp: tracks_def on_compaction_completed_def decides_def split: option.splits
    intro: lifecycle.idle lifecycle.complete)

lemma tracks_failed: "ev_type e = ''compaction_failed'' \<Longrightarrow> tracks a e (on_compaction_failed a e)"
  by (auto simp: tracks_def on_compaction_failed_def decides_def split: option.splits
    intro: lifecycle.idle lifecycle.fail)

lemma tracks_unverified: "ev_type e = ''compaction_unverified'' \<Longrightarrow> tracks a e (on_compaction_unverified a e)"
  by (auto simp: tracks_def on_compaction_unverified_def decides_def Let_def split: option.splits
    intro: lifecycle.idle doubt_plain)

lemma tracks_deadline:
  assumes "ev_type e = ''deadline_checked''" "ag_status a \<noteq> Dropping"
  shows "tracks a e (on_deadline_checked a e)"
  using assms by (auto simp: tracks_def on_deadline_checked_def check_compaction_def check_keeps_compaction decides_def
    split: option.splits intro: lifecycle.idle lifecycle.expire)

lemmas tracks_rules = tracks_requested tracks_waiting tracks_cancelled tracks_submitted tracks_completed
  tracks_failed tracks_unverified tracks_deadline

text \<open>The other handlers leave the record alone, and no other event decides anything about it.\<close>

lemma other_handlers:
  "ag_compaction (left_by a (on_hitch_spawned a e)) = ag_compaction a"
  "ag_compaction (left_by a (on_hitch_ready a e)) = ag_compaction a"
  "ag_compaction (left_by a (on_hitch_blocked a e)) = ag_compaction a"
  "ag_compaction (left_by a (on_boot_reopened a e)) = ag_compaction a"
  "ag_compaction (left_by a (on_hitch_failed a e)) = ag_compaction a"
  "ag_compaction (left_by a (on_activity_observed a e)) = ag_compaction a"
  "ag_compaction (left_by a (on_input_started a e)) = ag_compaction a"
  "ag_compaction (left_by a (on_input_finished a e)) = ag_compaction a"
  "ag_compaction (left_by a (on_interrupt_requested a e)) = ag_compaction a"
  "ag_compaction (left_by a (on_interrupt_completed a e)) = ag_compaction a"
  "ag_compaction (left_by a (on_drop_started a e)) = ag_compaction a"
  "ag_compaction (left_by a (on_capacity_detected a e)) = ag_compaction a"
  "ag_compaction (left_by a (on_capacity_submitted a e)) = ag_compaction a"
  "ag_compaction (left_by a (on_capacity_cleared a e)) = ag_compaction a"
  by (simp_all add: handler_defs Let_def split: option.split)

definition deciding :: "string set" where
  "deciding = {''compaction_requested'', ''compaction_waiting'', ''compaction_cancelled'', ''compaction_submitted'',
     ''compaction_completed'', ''compaction_failed'', ''compaction_unverified'', ''deadline_checked''}"

lemma undecided: "ev_type e \<notin> deciding \<Longrightarrow> \<not> decides e r"
  by (auto simp: decides_def deciding_def split: option.splits)

lemma branch_lifecycle:
  assumes "ev_type e = ''deadline_checked'' \<longrightarrow> ag_status a \<noteq> Dropping"
  shows "tracks a e (dispatch (ev_type e) a e)"
proof -
  have known: "ev_type e \<in> deciding \<Longrightarrow> map_of handlers (ev_type e) \<noteq> None"
    by (auto simp: deciding_def handlers_def map_of_eq_None_iff simp del: map_of.simps)
  note idle = tracks_idle [OF _ undecided]
  show ?thesis
    by (rule dispatch_rule [where ty = "ev_type e"])
       (use assms known in \<open>simp_all only: other_handlers idle tracks_rules\<close>,
        auto simp: deciding_def intro: idle other_handlers tracks_deadline)
qed

lemma Step_lifecycle:
  "lifecycle (aimed a e) e (ag_compaction a) (ag_compaction (fst (Step a e)))"
proof (cases "aimed a e")
  case True
  then have own: "ev_hitch_id e = ag_id a" "ev_at e \<noteq> zero_time" "ev_type e = ''deadline_checked'' \<longrightarrow> ag_status a \<noteq> Dropping"
    by (simp_all add: aimed_def)
  have "ag_compaction (fst (Step a e)) = ag_compaction (left_by a (dispatch (ev_type e) a e))"
    using own(1,2) by (simp add: Step_def split: outcome.split)
  then show ?thesis using branch_lifecycle [OF own(3)] True by (simp add: tracks_def)
next
  case False
  then consider "ev_hitch_id e \<noteq> ag_id a \<or> ev_at e = zero_time" | "ev_type e = ''deadline_checked''" "ag_status a = Dropping"
    unfolding aimed_def by blast
  then have "fst (Step a e) = a"
    by cases (simp_all add: Step_def dispatch_input(3) on_deadline_checked_def)
  then show ?thesis using False by (simp add: lifecycle.idle)
qed


text \<open>What a record keeps for as long as it is the same compaction.\<close>

definition same_request :: "compaction \<Rightarrow> compaction \<Rightarrow> bool" where
  "same_request c d \<longleftrightarrow>
     cmp_id d = cmp_id c \<and> cmp_resume d = cmp_resume c \<and> cmp_resume_from d = cmp_resume_from c
     \<and> cmp_requester d = cmp_requester c \<and> cmp_started_at d = cmp_started_at c
     \<and> cmp_deadline d = cmp_deadline c \<and> cmp_continuation d = cmp_continuation c
     \<and> cmp_resume_token d = cmp_resume_token c
     \<and> cmp_resume_admitted d = cmp_resume_admitted c
     \<and> cmp_refusal_before d = cmp_refusal_before c"

lemma lifecycle_same_request:
  assumes "lifecycle at_it e (Some c) r" "compaction_pending c"
  shows "(\<exists>d. r = Some d \<and> same_request c d) \<or> (r = None \<and> cmp_status c = ''queued'' \<and> cmp_id c = ev_id e)"
  using assms by (auto elim!: lifecycle_someE simp: same_request_def)

text \<open>
  C32 (pending_compaction_never_lost): one step cannot lose a compaction that is queued,
  submitted, or completed with its continuation still to come: either the record is still
  there with the resume note, the requester, the deadline and the resume token it was
  requested with, or the step was the cancellation of that very request while it was
  still queued.
\<close>

theorem pending_compaction_never_lost:
  assumes "ag_compaction a = Some c" and "compaction_pending c"
  shows "(\<exists>d. ag_compaction (fst (Step a e)) = Some d \<and> same_request c d)
         \<or> (ag_compaction (fst (Step a e)) = None \<and> cmp_status c = ''queued'' \<and> cmp_id c = ev_id e)"
  using lifecycle_same_request [of "aimed a e" e c] Step_lifecycle [of a e] assms
  by simp

theorem pending_compaction_never_lost_witness:
  "let c = blank_compaction\<lparr>cmp_id := ''k'', cmp_status := ''submitted''\<rparr>;
       a = demo_agent\<lparr>ag_compaction := Some c\<rparr>;
       e = (demo_event ''compaction_requested'' 9)\<lparr>ev_compaction := Some blank_compaction\<rparr>
   in compaction_pending c \<and>
      ((\<exists>d. ag_compaction (fst (Step a e)) = Some d \<and> same_request c d)
       \<or> ag_compaction (fst (Step a e)) = None \<and> cmp_status c = ''queued'' \<and> cmp_id c = ev_id e)"
  unfolding Let_def
  by (intro conjI pending_compaction_never_lost) (simp_all add: compaction_pending_def)

section \<open>Deadline checks\<close>

lemma check_fields [simp]:
  "ag_id (check_boot t a) = ag_id a" "ag_id (check_interrupt t a) = ag_id a"
  "ag_id (check_compaction t a) = ag_id a"
  "ag_boot_deadline (check_boot t a) = ag_boot_deadline a"
  "ag_boot_deadline (check_interrupt t a) = ag_boot_deadline a"
  "ag_boot_deadline (check_compaction t a) = ag_boot_deadline a"
  "ag_interrupt_deadline (check_boot t a) = ag_interrupt_deadline a"
  "ag_interrupt_deadline (check_interrupt t a) = ag_interrupt_deadline a"
  "ag_interrupt_deadline (check_compaction t a) = ag_interrupt_deadline a"
  "ag_status (check_interrupt t a) = ag_status a"
  "ag_status (check_compaction t a) = ag_status a"
  "ag_activity (check_boot t a) = ag_activity a"
  by (simp_all add: check_defs split: option.split)

definition boot_overdue :: "time \<Rightarrow> agent \<Rightarrow> bool" where
  "boot_overdue t a \<longleftrightarrow> ag_boot_deadline a \<noteq> zero_time \<and> \<not> t < ag_boot_deadline a
     \<and> (ag_status a = Starting \<or> ag_status a = Booting)"

definition interrupt_overdue :: "time \<Rightarrow> agent \<Rightarrow> bool" where
  "interrupt_overdue t a \<longleftrightarrow> ag_activity a = Interrupting
     \<and> ag_interrupt_deadline a \<noteq> zero_time \<and> \<not> t < ag_interrupt_deadline a"

definition compaction_overdue :: "time \<Rightarrow> agent \<Rightarrow> bool" where
  "compaction_overdue t a \<longleftrightarrow>
     (\<exists>c. ag_compaction a = Some c \<and> cmp_status c = ''submitted'' \<and> \<not> t < cmp_deadline c)"

lemma check_not_overdue:
  "\<not> boot_overdue t a \<Longrightarrow> check_boot t a = a"
  "\<not> interrupt_overdue t a \<Longrightarrow> check_interrupt t a = a"
  "\<not> compaction_overdue t a \<Longrightarrow> check_compaction t a = a"
  by (auto simp: check_boot_def boot_overdue_def check_interrupt_def interrupt_overdue_def
      check_compaction_def compaction_overdue_def split: option.split)

lemma checks_leave_nothing_overdue:
  "\<not> boot_overdue t (check_boot t a)"
  "boot_overdue t (check_interrupt t a) = boot_overdue t a"
  "boot_overdue t (check_compaction t a) = boot_overdue t a"
  "\<not> interrupt_overdue t (check_interrupt t a)"
  "interrupt_overdue t (check_compaction t a) \<Longrightarrow> interrupt_overdue t a"
  "\<not> compaction_overdue t (check_compaction t a)"
  by (auto simp: boot_overdue_def interrupt_overdue_def compaction_overdue_def check_boot_def
      check_interrupt_def check_compaction_def split: option.splits if_splits)

lemma checks_idem:
  fixes t a
  defines "b \<equiv> check_compaction t (check_interrupt t (check_boot t a))"
  shows "check_boot t b = b" and "check_interrupt t b = b" and "check_compaction t b = b"
  unfolding b_def
  by (auto intro!: check_not_overdue simp: checks_leave_nothing_overdue
      dest: checks_leave_nothing_overdue(5))

lemma checks_changed_at:
  "check_boot t (a\<lparr>ag_changed_at := u\<rparr>) = (check_boot t a)\<lparr>ag_changed_at := u\<rparr>"
  "check_interrupt t (a\<lparr>ag_changed_at := u\<rparr>) = (check_interrupt t a)\<lparr>ag_changed_at := u\<rparr>"
  "check_compaction t (a\<lparr>ag_changed_at := u\<rparr>) = (check_compaction t a)\<lparr>ag_changed_at := u\<rparr>"
  by (simp_all add: check_defs split: option.split)

lemma dispatch_deadline [simp]: "dispatch ''deadline_checked'' = on_deadline_checked"
  by (simp add: dispatch_def handlers_def fun_eq_iff)

lemma check_boot_not_dropping: "ag_status a \<noteq> Dropping \<Longrightarrow> ag_status (check_boot t a) \<noteq> Dropping"
  by (simp add: check_boot_def)

text \<open>
  The watchdog may check deadlines as often as it likes:
  a second check at the same time changes nothing, for any agent, any outstanding
  deadlines and any status.
\<close>

theorem deadline_check_idempotent:
  assumes "ev_type e = ''deadline_checked''"
  shows "Step (fst (Step a e)) e = Step a e"
proof (cases "ev_hitch_id e \<noteq> ag_id a \<or> ev_at e = zero_time \<or> ag_status a = Dropping")
  case True
  then show ?thesis using assms by (auto simp: Step_def on_deadline_checked_def)
next
  case False
  define b where
    "b = check_compaction (ev_at e) (check_interrupt (ev_at e) (check_boot (ev_at e) a))"
  have step: "Step a e = (b\<lparr>ag_changed_at := ev_at e\<rparr>, [])"
    using False assms by (simp add: Step_def on_deadline_checked_def b_def)
  have fixed: "check_boot (ev_at e) b = b" "check_interrupt (ev_at e) b = b"
    "check_compaction (ev_at e) b = b"
    unfolding b_def by (rule checks_idem)+
  have "ag_id b = ag_id a" "ag_status b \<noteq> Dropping"
    using False by (simp_all add: b_def check_boot_not_dropping)
  then have "Step (b\<lparr>ag_changed_at := ev_at e\<rparr>) e = (b\<lparr>ag_changed_at := ev_at e\<rparr>, [])"
    using False assms by (simp add: Step_def on_deadline_checked_def checks_changed_at fixed)
  then show ?thesis by (simp add: step)
qed

theorem deadline_check_idempotent_witness:
  "Step (fst (Step (demo_agent\<lparr>ag_status := Booting, ag_boot_deadline := 7\<rparr>)
      (demo_event ''deadline_checked'' 9))) (demo_event ''deadline_checked'' 9)
   = Step (demo_agent\<lparr>ag_status := Booting, ag_boot_deadline := 7\<rparr>)
      (demo_event ''deadline_checked'' 9)"
  by (rule deadline_check_idempotent) (simp add: demo_event_def blank_event_def)

text \<open>
  What one deadline check concludes about an agent that is
  not being dropped. The agent has failed afterwards exactly when it had failed before or
  was still starting at or past its boot deadline; a compaction is unverified afterwards
  exactly when it was, or was submitted at or past its deadline; and when nothing is
  overdue the check writes nothing but its time.
\<close>

theorem deadline_check_verdicts:
  assumes "ev_type e = ''deadline_checked''" "ev_hitch_id e = ag_id a" "ev_at e \<noteq> zero_time"
    and "ag_status a \<noteq> Dropping"
  shows "let t = ev_at e; b = fst (Step a e) in
     (ag_status b = Failed \<longleftrightarrow> ag_status a = Failed \<or> boot_overdue t a)
     \<and> (map_option cmp_status (ag_compaction b) =
          (if compaction_overdue t a then Some ''unverified''
           else map_option cmp_status (ag_compaction a)))
     \<and> (\<not> boot_overdue t a \<and> \<not> interrupt_overdue t a \<and> \<not> compaction_overdue t a
          \<longrightarrow> b = a\<lparr>ag_changed_at := t\<rparr>)"
proof -
  have b: "fst (Step a e) =
      (check_compaction (ev_at e) (check_interrupt (ev_at e) (check_boot (ev_at e) a)))
      \<lparr>ag_changed_at := ev_at e\<rparr>"
    using assms by (simp add: Step_def on_deadline_checked_def)
  have status: "ag_status (check_boot (ev_at e) a) = Failed
      \<longleftrightarrow> ag_status a = Failed \<or> boot_overdue (ev_at e) a"
    by (auto simp: check_boot_def boot_overdue_def)
  have compaction: "map_option cmp_status (ag_compaction (fst (Step a e))) =
      (if compaction_overdue (ev_at e) a then Some ''unverified''
       else map_option cmp_status (ag_compaction a))"
    by (auto simp: b check_compaction_def check_keeps_compaction compaction_overdue_def
        split: option.split)
  show ?thesis
    unfolding Let_def using compaction by (simp add: b status check_not_overdue)
qed

theorem deadline_check_verdicts_witness:
  "ag_status (fst (Step (demo_agent\<lparr>ag_status := Booting, ag_boot_deadline := 7\<rparr>)
     (demo_event ''deadline_checked'' 9))) = Failed"
  using deadline_check_verdicts [of "demo_event ''deadline_checked'' 9"
      "demo_agent\<lparr>ag_status := Booting, ag_boot_deadline := 7\<rparr>"]
  by (simp add: Let_def boot_overdue_def demo_event_def blank_event_def demo_agent_def)

section \<open>Provider capacity recovery\<close>

definition recovery_progress :: "agent \<Rightarrow> agent \<Rightarrow> bool" where
  "recovery_progress a b \<longleftrightarrow>
     (cap_deadline (ag_capacity a) \<noteq> zero_time
        \<longrightarrow> cap_deadline (ag_capacity b) = cap_deadline (ag_capacity a))
     \<and> cap_attempts (ag_capacity a) \<le> cap_attempts (ag_capacity b)"

lemma branch_recovery:
  fixes e :: event
  assumes "ev_type e \<noteq> ''capacity_cleared''"
  shows "recovery_progress a (left_by a (dispatch (ev_type e) a e))"
proof -
  obtain st act c why where checks:
    "check_compaction (ev_at e) (check_interrupt (ev_at e) (check_boot (ev_at e) a)) =
       a\<lparr>ag_status := st, ag_activity := act, ag_evidence := why, ag_compaction := c\<rparr>"
    by (rule checks_frame)
  show ?thesis
    by (rule dispatch_rule [where ty = "ev_type e"])
       (simp_all add: assms handler_defs checks note_capacity_def recovery_progress_def Let_def
         split: option.split)
qed

interpretation recovery: ordered_machine
  "\<lambda>a e. fst (Step a e)" "\<lambda>e. ev_type e \<noteq> ''capacity_cleared''" recovery_progress
proof unfold_locales
  fix a and e :: event assume "ev_type e \<noteq> ''capacity_cleared''"
  then have step: "recovery_progress a (left_by a (dispatch (ev_type e) a e))"
    by (rule branch_recovery)
  show "recovery_progress a (fst (Step a e))"
    by (rule Step_rule [where P = "\<lambda>out. recovery_progress a (left_by a out)"])
       (simp_all add: step, simp_all add: recovery_progress_def)
qed (auto simp: recovery_progress_def)

text \<open>
  Repeated provider failures cannot extend a capacity
  recovery. Once a recovery deadline is set, every run that does not clear the recovery
  keeps that deadline, whatever failures it reports, and the attempt count never drops.
\<close>

theorem capacity_deadline_fixed:
  fixes a :: agent and es :: "event list"
  assumes "cap_deadline (ag_capacity a) \<noteq> zero_time"
    and "\<forall>e \<in> set es. ev_type e \<noteq> ''capacity_cleared''"
  shows "cap_deadline (ag_capacity (foldl (\<lambda>a e. fst (Step a e)) a es)) = cap_deadline (ag_capacity a)
       \<and> cap_attempts (ag_capacity a)
           \<le> cap_attempts (ag_capacity (foldl (\<lambda>a e. fst (Step a e)) a es))"
  using recovery.run_later [OF assms(2), of a] assms(1) by (simp add: recovery_progress_def)

theorem capacity_deadline_fixed_witness:
  "let a = demo_agent\<lparr>ag_capacity := no_capacity\<lparr>cap_deadline := 50\<rparr>\<rparr>;
       es = [(demo_event ''capacity_detected'' 9)\<lparr>ev_fingerprint := ''f'', ev_deadline := 99\<rparr>,
             demo_event ''capacity_submitted'' 10]
   in cap_deadline (ag_capacity (foldl (\<lambda>a e. fst (Step a e)) a es)) = cap_deadline (ag_capacity a)
       \<and> cap_attempts (ag_capacity a)
           \<le> cap_attempts (ag_capacity (foldl (\<lambda>a e. fst (Step a e)) a es))"
  unfolding Let_def
  by (rule capacity_deadline_fixed) (simp_all add: demo_event_def blank_event_def)

text \<open>
  The doubling loop of \<^verbatim>\<open>RetryDelay\<close> computes the closed form
  100ms times 2 to the number of attempts, capped at 30s; so the delay never falls below
  the first one, never exceeds the cap, and never shrinks as attempts accumulate.
\<close>

theorem retry_delay_closed:
  "RetryDelay n = min (100 * millisecond * 2 ^ nat n) (30 * second)
   \<and> 100 * millisecond \<le> RetryDelay n \<and> RetryDelay n \<le> 30 * second
   \<and> (m \<le> n \<longrightarrow> RetryDelay m \<le> RetryDelay n)"
proof -
  have one: "(1::int) \<le> 2 ^ nat n" by simp
  have "RetryDelay m \<le> RetryDelay n" if "m \<le> n"
  proof -
    have "(2::int) ^ nat m \<le> 2 ^ nat n" using that by (intro power_increasing) auto
    then show ?thesis unfolding RetryDelay_closed by (intro min.mono mult_left_mono) simp_all
  qed
  with one show ?thesis by (auto simp: RetryDelay_closed)
qed

theorem retry_delay_closed_witness:
  "RetryDelay 3 = min (100 * millisecond * 2 ^ nat 3) (30 * second)
   \<and> 100 * millisecond \<le> RetryDelay 3 \<and> RetryDelay 3 \<le> 30 * second
   \<and> RetryDelay 2 \<le> RetryDelay 3"
  using retry_delay_closed [where m = 2 and n = 3] by simp

section \<open>Leaving the failed state\<close>

lemma branch_failed:
  fixes a :: agent and e :: event
  assumes "ag_status a = Failed"
    and "ev_type e \<notin> {''hitch_spawned'', ''hitch_ready'', ''drop_started''}"
    and "ag_evidence a \<noteq> BootDeadlineElapsed"
  shows "ag_status (left_by a (dispatch (ev_type e) a e)) = Failed"
proof -
  have boot: "ag_status (check_boot (ev_at e) a) = Failed"
    using assms(1) by (simp add: check_boot_def)
  show ?thesis
    by (rule dispatch_rule [where ty = "ev_type e"])
       (use assms in \<open>simp_all add: boot handler_defs Let_def split: option.split\<close>)
qed

text \<open>
  A failure other than an elapsed boot deadline is final for the
  state machine: only a new spawn, a ready report or a drop moves the agent out of
  \<^verbatim>\<open>failed\<close>; in particular \<^verbatim>\<open>boot_reopened\<close> does not.
\<close>

theorem failure_stands:
  fixes a :: agent and e :: event
  assumes "ag_status a = Failed" and "ag_evidence a \<noteq> BootDeadlineElapsed"
    and "ev_type e \<notin> {''hitch_spawned'', ''hitch_ready'', ''drop_started''}"
  shows "ag_status (fst (Step a e)) = Failed"
proof -
  have step: "ag_status (left_by a (dispatch (ev_type e) a e)) = Failed"
    using assms by (intro branch_failed) auto
  show ?thesis
    by (rule Step_rule [where P = "\<lambda>out. ag_status (left_by a out) = Failed"
          and R = "\<lambda>a b. ag_status b = Failed"])
       (simp_all add: step assms(1))
qed

theorem failure_stands_witness:
  "ag_status (fst (Step (demo_agent\<lparr>ag_status := Failed, ag_evidence := ''native exited''\<rparr>)
     ((demo_event ''boot_reopened'' 9)\<lparr>ev_deadline := 20\<rparr>))) = Failed"
  by (rule failure_stands)
     (simp_all add: demo_event_def blank_event_def BootDeadlineElapsed_def)

end
