(* ===== verification/Core_Runs.thy ===== *)
theory Core_Runs
  imports Core_Step
begin

text \<open>
  Properties of \<^verbatim>\<open>core.Step\<close> and of its runs: what no event can change, when an event is
  rejected, how the input slot, the compaction record, the deadlines and the provider
  capacity record evolve over any sequence of events.
\<close>

definition apply_event :: "agent \<Rightarrow> event \<Rightarrow> agent" where
  "apply_event a e = fst (Step a e)"

section \<open>Identity and timestamps\<close>

text \<open>The fields of an agent that no event of \<^verbatim>\<open>Step\<close> writes.\<close>

definition same_identity_fields :: "agent \<Rightarrow> agent \<Rightarrow> bool" where
  "same_identity_fields a b \<longleftrightarrow>
     ag_id b = ag_id a \<and> ag_name b = ag_name a \<and> ag_collar b = ag_collar a
     \<and> ag_role b = ag_role a \<and> ag_hitched_by b = ag_hitched_by a
     \<and> ag_directory b = ag_directory a \<and> ag_created_at b = ag_created_at a
     \<and> ag_registration b = ag_registration a \<and> ag_process b = ag_process a
     \<and> ag_clear b = ag_clear a \<and> ag_rename_from b = ag_rename_from a
     \<and> ag_rename_to b = ag_rename_to a \<and> ag_cleanup b = ag_cleanup a
     \<and> ag_last_accepted b = ag_last_accepted a \<and> ag_last_delivered b = ag_last_delivered a
     \<and> ag_last_failed b = ag_last_failed a \<and> ag_context_bands b = ag_context_bands a
     \<and> nat_session_id (ag_native b) = nat_session_id (ag_native a)
     \<and> nat_bound_session (ag_native b) = nat_bound_session (ag_native a)
     \<and> nat_transcript (ag_native b) = nat_transcript (ag_native a)
     \<and> nat_hook_sequence (ag_native b) = nat_hook_sequence (ag_native a)"

lemma branch_identity: "same_identity_fields a (left_by a (dispatch ty a e))"
proof -
  obtain st act c why where checks:
    "check_compaction (ev_at e) (check_interrupt (ev_at e) (check_boot (ev_at e) a)) =
       a\<lparr>ag_status := st, ag_activity := act, ag_evidence := why, ag_compaction := c\<rparr>"
    by (rule checks_frame)
  show ?thesis
    by (rule dispatch_rule)
       (simp_all add: handler_defs checks same_identity_fields_def Let_def split: option.split)
qed

lemma Step_identity: "same_identity_fields a (fst (Step a e))"
  by (rule Step_rule [where P = "\<lambda>out. same_identity_fields a (left_by a out)"])
     (simp_all add: branch_identity, simp_all add: same_identity_fields_def)

interpretation identity: ordered_machine apply_event "\<lambda>_. True" same_identity_fields
  by unfold_locales
     (auto simp: apply_event_def Step_identity, auto simp: same_identity_fields_def)

text \<open>
  Whatever events an agent receives, its identity (hitch ID, name,
  collar, launch registration, process), its receipts, its pending rename and cleanup and
  its native session binding are the ones it started with: only the store and the command
  layer write those.
\<close>

theorem run_keeps_identity: "same_identity_fields a (foldl apply_event a es)"
  by (rule identity.run_later) simp

lemma branch_ignored: "dispatch ty a e = Ignore b \<longrightarrow> b = a"
  by (rule dispatch_rule [where P = "\<lambda>out. out = Ignore b \<longrightarrow> b = a"])
     (auto simp: handler_defs Let_def split: option.splits)

text \<open>
  An event changes nothing without leaving its time behind: after
  a step either the agent is exactly the one before, or \<^verbatim>\<open>ChangedAt\<close> is the event's time.
\<close>

theorem change_is_stamped:
  "fst (Step a e) = a \<or> ag_changed_at (fst (Step a e)) = ev_at e \<and> snd (Step a e) = []"
  by (auto simp: Step_def branch_ignored [THEN mp] split: outcome.splits)

section \<open>Rejections\<close>

definition guard_broken :: "agent \<Rightarrow> event \<Rightarrow> bool" where
  "guard_broken a e \<longleftrightarrow>
     ev_type e = ''boot_reopened''
        \<and> (ag_status a \<noteq> Failed \<or> ag_evidence a \<noteq> BootDeadlineElapsed \<or> ev_deadline e = zero_time)
     \<or> ev_type e = ''input_started'' \<and> ag_input a \<noteq> None
     \<or> ev_type e = ''input_finished'' \<and> (\<forall>i. ag_input a = Some i \<longrightarrow> int_id i \<noteq> ev_id e)
     \<or> ev_type e = ''compaction_requested''
        \<and> ((\<exists>c. ag_compaction a = Some c \<and> compaction_pending c) \<or> ev_compaction e = None)"

lemma branch_rejects: "(\<exists>r. dispatch (ev_type e) a e = Reject r) \<longleftrightarrow> guard_broken a e"
  by (rule dispatch_rule [where ty = "ev_type e"
        and P = "\<lambda>out. (\<exists>r. out = Reject r) \<longleftrightarrow> guard_broken a e"])
     (auto simp: guard_broken_def handler_defs handlers_def Let_def split: option.splits)

text \<open>
  A step returns an effect exactly when the event does not identify the
  agent and its time, or breaks one of the four guards of the switch (reopening a boot
  that did not fail by its deadline, a second input, an input result without its intent, a
  second compaction); the effect is then a single rejection and the agent is unchanged.
\<close>

theorem rejected_iff:
  "(snd (Step a e) \<noteq> []
      \<longleftrightarrow> ev_hitch_id e \<noteq> ag_id a \<or> ev_at e = zero_time \<or> guard_broken a e)
   \<and> (snd (Step a e) = [] \<or> fst (Step a e) = a \<and> (\<exists>r. snd (Step a e) = [reject r]))"
  using branch_rejects [of e a] by (auto simp: Step_def split: outcome.splits)

theorem rejected_iff_witness:
  "let a = blank_agent\<lparr>ag_id := ''h1'', ag_input := Some \<lparr>int_id = ''m1'', int_kind = ''message'', int_at = 3\<rparr>\<rparr>;
       e = blank_event\<lparr>ev_type := ''input_started'', ev_hitch_id := ''h1'', ev_at := 5, ev_id := ''m2''\<rparr>
   in fst (Step a e) = a \<and> (\<exists>r. snd (Step a e) = [reject r])"
  unfolding Let_def
  using rejected_iff [of "blank_agent\<lparr>ag_id := ''h1'', ag_input := Some \<lparr>int_id = ''m1'', int_kind = ''message'', int_at = 3\<rparr>\<rparr>"
      "blank_event\<lparr>ev_type := ''input_started'', ev_hitch_id := ''h1'', ev_at := 5, ev_id := ''m2''\<rparr>"]
  by (simp add: guard_broken_def) blast

end
