(* ===== verification/Usage_Types.thy ===== *)
theory Usage_Types
  imports Agent_Model
begin

text \<open>
  The record of account usage (the structs of \<^verbatim>\<open>cmd/gang/usage_state.go\<close>): usage windows
  with the bands they fired, warnings to the lead, scheduled wakes by their caller, and
  provider caps. A Go map is the association list of its entries. The two fields a
  release reads and discards are left out; \<^verbatim>\<open>Rearms\<close> counts provider resets, so it is an
  unbounded integer.
\<close>

record usage_window =
  uw_reset_at :: int
  uw_observed_at :: time
  uw_percent :: float64
  uw_fired :: "string list"

record usage_notice =
  un_id :: envelope_id
  un_token :: string
  un_collar :: string
  un_window :: string
  un_band :: string
  un_reset_at :: int
  un_text :: string
  un_created_at :: time
  un_recipient_id :: hitch_id
  un_recipient_name :: agent_name
  un_submission :: string

record usage_snooze =
  sn_id :: envelope_id
  sn_token :: string
  sn_caller_id :: hitch_id
  sn_caller_name :: agent_name
  sn_at :: time
  sn_note :: string
  sn_recipient_id :: hitch_id
  sn_recipient_name :: agent_name
  sn_submission :: string
  sn_input_text :: string
  sn_turn_id :: string
  sn_submitted_at :: time
  sn_cap_rejected :: bool
  sn_cap_candidate :: bool
  sn_cap_failed_at :: time
  sn_turn_failed :: bool
  sn_rearms :: int
  sn_auto :: bool

record auto_cap_candidate =
  acc_at :: time
  acc_submitted_at :: time

record usage_state =
  us_windows :: "(string \<times> usage_window) list"
  us_notices :: "usage_notice list"
  us_snoozes :: "(string \<times> usage_snooze) list"
  us_recent :: "(string \<times> usage_snooze) list"
  us_auto_caps :: "(string \<times> time) list"
  us_auto_candidates :: "(string \<times> auto_cap_candidate) list"

definition no_usage :: usage_state where
  "no_usage = \<lparr>us_windows = [], us_notices = [], us_snoozes = [], us_recent = [], us_auto_caps = [],
     us_auto_candidates = []\<rparr>"

text \<open>The zero value, which Go reads for a missing key.\<close>

definition no_snooze :: usage_snooze where
  "no_snooze = \<lparr>sn_id = '''', sn_token = '''', sn_caller_id = '''', sn_caller_name = '''', sn_at = zero_time,
     sn_note = '''', sn_recipient_id = '''', sn_recipient_name = '''', sn_submission = '''', sn_input_text = '''',
     sn_turn_id = '''', sn_submitted_at = zero_time, sn_cap_rejected = False, sn_cap_candidate = False,
     sn_cap_failed_at = zero_time, sn_turn_failed = False, sn_rearms = 0, sn_auto = False\<rparr>"

definition no_window :: usage_window where
  "no_window = \<lparr>uw_reset_at = 0, uw_observed_at = zero_time, uw_percent = 0, uw_fired = []\<rparr>"

end
