(* ===== verification/Store_Types.thy ===== *)
theory Store_Types
  imports Usage_Types
begin

text \<open>
  The structs of the \<^verbatim>\<open>store\<close> package, and the typed contents of the files it keeps. A
  file that the package writes with \<^verbatim>\<open>encoding/json\<close> holds the value of the Go struct
  whose JSON form it stores, without the fields tagged \<^verbatim>\<open>json:"-"\<close>; decoding a file as
  another type is an error. Raw files (the audit log, locks, keys) hold bytes.
\<close>

section \<open>Structs\<close>

record model_metadata =
  mm_version :: int
  mm_hitch_id :: hitch_id
  mm_generation :: string
  mm_session :: string
  mm_launch_token_hash :: string
  mm_configured_model :: string
  mm_configured_effort :: string
  mm_state_sha256 :: string
  mm_observed_effort :: string

record witness =
  wit_id :: string
  wit_at :: time
  wit_prompt :: string
  wit_session_id :: string
  wit_turn_id :: string
  wit_transcript :: string

record compaction_witness =
  cwit_at :: time
  cwit_session_id :: string

record permission_witness =
  perm_at :: time
  perm_session_id :: string

record status_hook =
  sh_sequence :: uint64
  sh_kind :: string
  sh_native_event :: string
  sh_at :: time
  sh_session_id :: string
  sh_turn_id :: string
  sh_transcript :: string
  sh_failure :: string

record session_start =
  ss_at :: time
  ss_session_id :: string
  ss_transcript :: string
  ss_source :: string
  ss_registration :: string
  ss_clear_id :: envelope_id

record clear_admission =
  adm_id :: envelope_id
  adm_session_id :: string

record native_pending =
  np_capacity_fingerprint :: string
  np_envelope :: envelope
  np_session_id :: string
  np_prompt :: string
  np_witness :: "witness option"

record foreign_submit =
  fs_at :: time
  fs_hitch_id :: hitch_id
  fs_name :: agent_name
  fs_registered :: string
  fs_session_id :: string
  fs_reason :: string
  fs_payload :: string

record held_input =
  hi_fingerprint :: string
  hi_generation :: string
  hi_session :: string
  hi_submitted_at :: time
  hi_since :: time
  hi_noticed :: bool

record session_conflict =
  sc_session_id :: string
  sc_transcript :: string
  sc_witness :: witness

record idle_publication =
  pub_recipient :: hitch_id
  pub_id :: envelope_id

record idle_member =
  mem_id :: hitch_id
  mem_name :: agent_name
  mem_generation :: string
  mem_session :: string
  mem_work :: uint64

record idle_notice =
  ntc_envelope :: envelope
  ntc_generation :: string
  ntc_session :: string
  ntc_outcome :: string

text \<open>\<^verbatim>\<open>Work\<close> is a Go map from hitch IDs to counters; it is kept as an association list.\<close>

record idle_state =
  idle_work :: "(hitch_id \<times> uint64) list"
  idle_pending :: "idle_publication option"
  idle_initialized :: bool
  idle_lead :: idle_member
  idle_members :: "idle_member list"
  idle_armed :: bool
  idle_notice_of :: "idle_notice option"

record idle_window_member =
  iwm_member :: idle_member
  iwm_hook_sequence :: uint64
  iwm_changed_at :: time
  iwm_screen_since :: time

record idle_window =
  win_since :: time
  win_last :: time
  win_minimum :: duration
  win_lead :: idle_member
  win_members :: "idle_window_member list"

record outside_registration =
  out_id :: hitch_id
  out_name :: agent_name
  out_created :: "credential_origin option"

text \<open>Go embeds \<^verbatim>\<open>OutsideRegistration\<close> in the next two structs; they extend its record.\<close>

record outside_principal = outside_registration +
  pri_generation :: string

record outside_state = outside_registration +
  ost_credential_hash :: string
  ost_generation :: string
  ost_pending :: "envelope list"

record sender_registration =
  sr_id :: hitch_id
  sr_name :: agent_name
  sr_credential_hash :: string
  sr_created :: "credential_origin option"

record observation_receipt =
  obs_key :: string
  obs_log :: "string list"
  obs_offset :: int
  obs_record :: string

section \<open>File contents\<close>

datatype content =
    CTeam team
  | CAgent agent
  | CModel model_metadata
  | CEnvelope envelope
  | CWitness witness
  | CCompactionWitness compaction_witness
  | CPermission permission_witness
  | CHooks "status_hook list"
  | CSessionStart session_start
  | CAdmission clear_admission
  | CNativePending native_pending
  | CForeign foreign_submit
  | CHeld held_input
  | CConflict session_conflict
  | CIdle idle_state
  | CWindow idle_window
  | COutside outside_state
  | CSender sender_registration
  | CObservation observation_receipt
  | CUsage usage_state
  | CText string      \<comment> \<open>a JSON string\<close>
  | CValue string     \<comment> \<open>the JSON of a value the store does not interpret\<close>
  | CBytes string     \<comment> \<open>a file that is not JSON\<close>

text \<open>
  What survives a write and a read of the agent state: the fields tagged \<^verbatim>\<open>json:"-"\<close> are
  dropped (\<^verbatim>\<open>ConfiguredModel\<close>, \<^verbatim>\<open>ConfiguredEffort\<close>, \<^verbatim>\<open>NativeState.Effort\<close> and
  \<^verbatim>\<open>Reading.Effort\<close> in every reading of the record).
\<close>

definition persist_reading :: "reading \<Rightarrow> reading" where
  "persist_reading r = r\<lparr>rd_effort := ''''\<rparr>"

definition persist_native :: "native_state \<Rightarrow> native_state" where
  "persist_native n =
     n\<lparr>nat_context := persist_reading (nat_context n), nat_limits := persist_reading (nat_limits n),
       nat_effort := ''''\<rparr>"

definition persist_note :: "context_band_note \<Rightarrow> context_band_note" where
  "persist_note n = n\<lparr>note_reading := persist_reading (note_reading n)\<rparr>"

definition persist_agent :: "agent \<Rightarrow> agent" where
  "persist_agent a =
     a\<lparr>ag_configured_model := '''', ag_configured_effort := '''',
       ag_native := persist_native (ag_native a),
       ag_context_bands :=
         (ag_context_bands a)\<lparr>band_pending := map persist_note (band_pending (ag_context_bands a))\<rparr>\<rparr>"

definition as_team :: "content \<Rightarrow> team option" where
  "as_team c = (case c of CTeam x \<Rightarrow> Some x | _ \<Rightarrow> None)"
definition as_agent :: "content \<Rightarrow> agent option" where
  "as_agent c = (case c of CAgent x \<Rightarrow> Some x | _ \<Rightarrow> None)"
definition as_model :: "content \<Rightarrow> model_metadata option" where
  "as_model c = (case c of CModel x \<Rightarrow> Some x | _ \<Rightarrow> None)"
definition as_envelope :: "content \<Rightarrow> envelope option" where
  "as_envelope c = (case c of CEnvelope x \<Rightarrow> Some x | _ \<Rightarrow> None)"
definition as_witness :: "content \<Rightarrow> witness option" where
  "as_witness c = (case c of CWitness x \<Rightarrow> Some x | _ \<Rightarrow> None)"
definition as_compaction_witness :: "content \<Rightarrow> compaction_witness option" where
  "as_compaction_witness c = (case c of CCompactionWitness x \<Rightarrow> Some x | _ \<Rightarrow> None)"
definition as_permission :: "content \<Rightarrow> permission_witness option" where
  "as_permission c = (case c of CPermission x \<Rightarrow> Some x | _ \<Rightarrow> None)"
definition as_hooks :: "content \<Rightarrow> status_hook list option" where
  "as_hooks c = (case c of CHooks x \<Rightarrow> Some x | _ \<Rightarrow> None)"
definition as_session_start :: "content \<Rightarrow> session_start option" where
  "as_session_start c = (case c of CSessionStart x \<Rightarrow> Some x | _ \<Rightarrow> None)"
definition as_admission :: "content \<Rightarrow> clear_admission option" where
  "as_admission c = (case c of CAdmission x \<Rightarrow> Some x | _ \<Rightarrow> None)"
definition as_native_pending :: "content \<Rightarrow> native_pending option" where
  "as_native_pending c = (case c of CNativePending x \<Rightarrow> Some x | _ \<Rightarrow> None)"
definition as_foreign :: "content \<Rightarrow> foreign_submit option" where
  "as_foreign c = (case c of CForeign x \<Rightarrow> Some x | _ \<Rightarrow> None)"
definition as_held :: "content \<Rightarrow> held_input option" where
  "as_held c = (case c of CHeld x \<Rightarrow> Some x | _ \<Rightarrow> None)"
definition as_idle :: "content \<Rightarrow> idle_state option" where
  "as_idle c = (case c of CIdle x \<Rightarrow> Some x | _ \<Rightarrow> None)"
definition as_window :: "content \<Rightarrow> idle_window option" where
  "as_window c = (case c of CWindow x \<Rightarrow> Some x | _ \<Rightarrow> None)"
definition as_outside :: "content \<Rightarrow> outside_state option" where
  "as_outside c = (case c of COutside x \<Rightarrow> Some x | _ \<Rightarrow> None)"
definition as_sender :: "content \<Rightarrow> sender_registration option" where
  "as_sender c = (case c of CSender x \<Rightarrow> Some x | _ \<Rightarrow> None)"
definition as_observation :: "content \<Rightarrow> observation_receipt option" where
  "as_observation c = (case c of CObservation x \<Rightarrow> Some x | _ \<Rightarrow> None)"
definition as_usage :: "content \<Rightarrow> usage_state option" where
  "as_usage c = (case c of CUsage x \<Rightarrow> Some x | _ \<Rightarrow> None)"
definition as_text :: "content \<Rightarrow> string option" where
  "as_text c = (case c of CText x \<Rightarrow> Some x | _ \<Rightarrow> None)"
definition as_value :: "content \<Rightarrow> string option" where
  "as_value c = (case c of CValue x \<Rightarrow> Some x | _ \<Rightarrow> None)"

lemmas as_defs =
  as_team_def as_agent_def as_model_def as_envelope_def as_witness_def
  as_compaction_witness_def as_permission_def as_hooks_def as_session_start_def
  as_admission_def as_native_pending_def as_foreign_def as_held_def as_idle_def as_window_def
  as_outside_def as_sender_def as_observation_def as_usage_def as_text_def as_value_def

end
