(* ===== verification/FileSystem.thy ===== *)
theory FileSystem
  imports Store_Types
begin

text \<open>
  The operating system as the \<^verbatim>\<open>store\<close> package uses it. A world holds the files, a
  schedule of failures, the advisory locks, and the codec (JSON, CUE schema and SHA-256
  of the standard library and third-party packages) as a parameter no operation changes.
  Every system call takes one entry of the failure schedule; a theorem about all worlds
  is a theorem about all ways the calls can fail. A failed call reports an error and has
  no other effect, as a failed \<^verbatim>\<open>rename(2)\<close> or \<^verbatim>\<open>link(2)\<close> does; a deferred cleanup of a
  temporary file is taken to succeed, so temporary files do not appear in the model.
\<close>

section \<open>Errors\<close>

datatype err =
    NotExist            \<comment> \<open>\<^verbatim>\<open>os.ErrNotExist\<close>\<close>
  | Exist               \<comment> \<open>\<^verbatim>\<open>os.ErrExist\<close>\<close>
  | IOError             \<comment> \<open>any other failure of a system call\<close>
  | Locked              \<comment> \<open>\<^verbatim>\<open>store.ErrLocked\<close>\<close>
  | WouldBlock          \<comment> \<open>a blocking lock another process holds: the call does not return\<close>
  | NameTaken           \<comment> \<open>\<^verbatim>\<open>store.ErrNameTaken\<close>\<close>
  | EnvelopeQueued      \<comment> \<open>\<^verbatim>\<open>store.ErrEnvelopeQueued\<close>\<close>
  | OutsideUnauthorized \<comment> \<open>\<^verbatim>\<open>store.ErrOutsideUnauthorized\<close>\<close>
  | SenderUnauthorized  \<comment> \<open>\<^verbatim>\<open>store.ErrSenderUnauthorized\<close>\<close>
  | UnknownEventType    \<comment> \<open>\<^verbatim>\<open>core.ErrUnknownEventType\<close>\<close>
  | ShortWrite          \<comment> \<open>\<^verbatim>\<open>io.ErrShortWrite\<close>\<close>
  | Fail string         \<comment> \<open>an error with only a message\<close>
  | Joined "err list"   \<comment> \<open>\<^verbatim>\<open>errors.Join\<close>\<close>

text \<open>\<^verbatim>\<open>errors.Is(err, target)\<close> for a sentinel target.\<close>

fun errors_is :: "err \<Rightarrow> err \<Rightarrow> bool" where
  "errors_is (Joined es) t = list_ex (\<lambda>e. errors_is e t) es"
| "errors_is e t = (e = t)"

section \<open>Worlds and actions\<close>

type_synonym path = "string list"

datatype node = Dir | Link string | File content

record codec =
  marshal_event :: "event \<Rightarrow> string option"
  header_type :: "string \<Rightarrow> string option"
  known_type :: "string \<Rightarrow> bool"
  strict_decode :: "string \<Rightarrow> event option"
  schema_ok :: "string \<Rightarrow> bool"
  agent_json :: "agent \<Rightarrow> string"
  sha256_hex :: "string \<Rightarrow> string"

record world =
  fs :: "(path \<times> node) list"
  faults :: "bool list"                      \<comment> \<open>\<^term>\<open>True\<close>: that call fails; exhausted: all succeed\<close>
  shorts :: "nat list"                       \<comment> \<open>how many bytes each raw write transfers; exhausted: all\<close>
  held :: "(path \<times> string option) list"     \<comment> \<open>agent locks of this process, with the handle's \<^verbatim>\<open>bound\<close>\<close>
  busy :: "path list"                        \<comment> \<open>locks of other processes\<close>
  now :: time
  codec_of :: codec

type_synonym 'a io = "world \<Rightarrow> (err + 'a) \<times> world"

definition ret :: "'a \<Rightarrow> 'a io" where
  "ret x w = (Inr x, w)"

definition raise :: "err \<Rightarrow> 'a io" where
  "raise e w = (Inl e, w)"

definition and_then :: "'a io \<Rightarrow> ('a \<Rightarrow> 'b io) \<Rightarrow> 'b io" where
  "and_then m f w = (case m w of (Inl e, w') \<Rightarrow> (Inl e, w') | (Inr x, w') \<Rightarrow> f x w')"

text \<open>\<^verbatim>\<open>x, err := op()\<close> with the error kept for inspection.\<close>

definition attempt :: "'a io \<Rightarrow> (err + 'a) io" where
  "attempt m w = (case m w of (r, w') \<Rightarrow> (Inr r, w'))"

definition lift :: "err + 'a \<Rightarrow> 'a io" where
  "lift r w = (r, w)"

definition reads :: "(world \<Rightarrow> 'a) \<Rightarrow> 'a io" where
  "reads f w = (Inr (f w), w)"

definition updates :: "(world \<Rightarrow> world) \<Rightarrow> unit io" where
  "updates f w = (Inr (), f w)"

text \<open>The loop \<^verbatim>\<open>for _, x := range xs { if err := f(x); err != nil { return err } }\<close>.\<close>

fun for_each :: "('a \<Rightarrow> unit io) \<Rightarrow> 'a list \<Rightarrow> unit io" where
  "for_each f [] = ret ()"
| "for_each f (x # xs) = and_then (f x) (\<lambda>_. for_each f xs)"

text \<open>The same loop when it collects the results of the elements that yield one.\<close>

fun collect :: "('a \<Rightarrow> 'b option io) \<Rightarrow> 'a list \<Rightarrow> 'b list io" where
  "collect f [] = ret []"
| "collect f (x # xs) =
     and_then (f x) (\<lambda>r. and_then (collect f xs)
       (\<lambda>rs. ret (case r of None \<Rightarrow> rs | Some y \<Rightarrow> y # rs)))"

section \<open>System calls\<close>

definition sys :: "unit io" where
  "sys w = (case faults w of
      [] \<Rightarrow> (Inr (), w)
    | b # bs \<Rightarrow> if b then (Inl IOError, w\<lparr>faults := bs\<rparr>) else (Inr (), w\<lparr>faults := bs\<rparr>))"

definition lookup :: "world \<Rightarrow> path \<Rightarrow> node option" where
  "lookup w p = map_of (fs w) p"

definition put :: "path \<Rightarrow> node \<Rightarrow> world \<Rightarrow> world" where
  "put p n w = w\<lparr>fs := AList.update p n (fs w)\<rparr>"

definition del :: "path \<Rightarrow> world \<Rightarrow> world" where
  "del p w = w\<lparr>fs := AList.delete p (fs w)\<rparr>"

definition is_dir :: "world \<Rightarrow> path \<Rightarrow> bool" where
  "is_dir w p \<longleftrightarrow> p = [] \<or> lookup w p = Some Dir"

definition children :: "world \<Rightarrow> path \<Rightarrow> string list" where
  "children w d =
     sort (remdups (map last (filter (\<lambda>k. k \<noteq> [] \<and> butlast k = d) (map fst (fs w)))))"

text \<open>An update of the files that may fail for a reason the files show.\<close>

definition act :: "(world \<Rightarrow> err + world) \<Rightarrow> unit io" where
  "act f = and_then sys (\<lambda>_ w. case f w of Inl e \<Rightarrow> (Inl e, w) | Inr w' \<Rightarrow> (Inr (), w'))"

definition os_stat :: "path \<Rightarrow> unit io" where
  "os_stat p = act (\<lambda>w. if lookup w p = None then Inl NotExist else Inr w)"

definition os_mkdir :: "path \<Rightarrow> unit io" where
  "os_mkdir p = act (\<lambda>w. if lookup w p \<noteq> None then Inl Exist
     else if \<not> is_dir w (butlast p) then Inl NotExist else Inr (put p Dir w))"

fun make_dirs :: "path \<Rightarrow> path \<Rightarrow> world \<Rightarrow> err + world" where
  "make_dirs d [] w = Inr w"
| "make_dirs d (c # cs) w =
     (let p = d @ [c] in case lookup w p of
        None \<Rightarrow> make_dirs p cs (put p Dir w)
      | Some n \<Rightarrow> if n = Dir then make_dirs p cs w else Inl IOError)"

definition os_mkdir_all :: "path \<Rightarrow> unit io" where
  "os_mkdir_all p = act (make_dirs [] p)"

text \<open>\<^verbatim>\<open>os.OpenFile\<close> with \<^verbatim>\<open>O_CREATE\<close>, with and without \<^verbatim>\<open>O_EXCL\<close>.\<close>

definition os_create_excl :: "path \<Rightarrow> content \<Rightarrow> unit io" where
  "os_create_excl p c = act (\<lambda>w. if lookup w p \<noteq> None then Inl Exist
     else if \<not> is_dir w (butlast p) then Inl NotExist else Inr (put p (File c) w))"

definition os_open_create :: "path \<Rightarrow> unit io" where
  "os_open_create p = act (\<lambda>w. case lookup w p of
       Some n \<Rightarrow> if n = Dir then Inl IOError else Inr w
     | None \<Rightarrow> if is_dir w (butlast p) then Inr (put p (File (CBytes '''')) w) else Inl NotExist)"

text \<open>\<^verbatim>\<open>os.WriteFile\<close>: create or truncate.\<close>

definition os_write_file :: "path \<Rightarrow> content \<Rightarrow> unit io" where
  "os_write_file p c = act (\<lambda>w. if lookup w p = Some Dir then Inl IOError
     else if is_dir w (butlast p) then Inr (put p (File c) w) else Inl NotExist)"

definition os_symlink :: "string \<Rightarrow> path \<Rightarrow> unit io" where
  "os_symlink target p = act (\<lambda>w. if lookup w p \<noteq> None then Inl Exist
     else if \<not> is_dir w (butlast p) then Inl NotExist else Inr (put p (Link target) w))"

definition os_readlink :: "path \<Rightarrow> string io" where
  "os_readlink p = and_then sys (\<lambda>_ w. case lookup w p of
       None \<Rightarrow> (Inl NotExist, w)
     | Some (Link t) \<Rightarrow> (Inr t, w)
     | Some _ \<Rightarrow> (Inl IOError, w))"

text \<open>\<^verbatim>\<open>link(2)\<close> of a finished temporary file onto a new name.\<close>

definition os_link_new :: "content \<Rightarrow> path \<Rightarrow> unit io" where
  "os_link_new c p = act (\<lambda>w. if lookup w p \<noteq> None then Inl Exist
     else if \<not> is_dir w (butlast p) then Inl NotExist else Inr (put p (File c) w))"

text \<open>\<^verbatim>\<open>rename(2)\<close> of a finished temporary file over a name.\<close>

definition os_rename_temp :: "content \<Rightarrow> path \<Rightarrow> unit io" where
  "os_rename_temp c p = act (\<lambda>w. if \<not> is_dir w (butlast p) then Inl NotExist
     else if lookup w p = Some Dir then Inl IOError else Inr (put p (File c) w))"

definition relabel :: "path \<Rightarrow> path \<Rightarrow> world \<Rightarrow> world" where
  "relabel p q w = w\<lparr>fs :=
     map (\<lambda>(k, n). (if prefix p k then q @ drop (length p) k else k, n))
       (filter (\<lambda>(k, _). \<not> prefix q k) (fs w))\<rparr>"

definition os_rename :: "path \<Rightarrow> path \<Rightarrow> unit io" where
  "os_rename p q = act (\<lambda>w. case lookup w p of
       None \<Rightarrow> Inl NotExist
     | Some n \<Rightarrow>
         if \<not> is_dir w (butlast q) then Inl NotExist
         else if prefix p q then (if p = q then Inr w else Inl IOError)
         else if prefix q p then Inl IOError
         else if n = Dir then
           (if lookup w q = None \<or> lookup w q = Some Dir \<and> children w q = []
            then Inr (relabel p q w) else Inl Exist)
         else if lookup w q = Some Dir then Inl IOError
         else Inr (relabel p q w))"

definition os_remove :: "path \<Rightarrow> unit io" where
  "os_remove p = act (\<lambda>w. if lookup w p = None then Inl NotExist
     else if lookup w p = Some Dir \<and> children w p \<noteq> [] then Inl IOError else Inr (del p w))"

definition os_remove_all :: "path \<Rightarrow> unit io" where
  "os_remove_all p = act (\<lambda>w. Inr (w\<lparr>fs := filter (\<lambda>(k, _). \<not> prefix p k) (fs w)\<rparr>))"

definition os_read_dir :: "path \<Rightarrow> (string \<times> bool) list io" where
  "os_read_dir d = and_then sys (\<lambda>_ w.
     if lookup w d = None then (Inl NotExist, w)
     else if lookup w d \<noteq> Some Dir then (Inl IOError, w)
     else (Inr (map (\<lambda>n. (n, lookup w (d @ [n]) = Some Dir)) (children w d)), w))"

text \<open>Open a file and read it to its end.\<close>

definition os_read_file :: "path \<Rightarrow> content io" where
  "os_read_file p = and_then sys (\<lambda>_ w. case lookup w p of
       None \<Rightarrow> (Inl NotExist, w)
     | Some (File c) \<Rightarrow> (Inr c, w)
     | Some _ \<Rightarrow> (Inl IOError, w))"

text \<open>
  A raw \<^verbatim>\<open>write(2)\<close> in append mode. It may transfer fewer bytes than it was given; the
  result is the number transferred.
\<close>

definition os_append :: "path \<Rightarrow> string \<Rightarrow> nat io" where
  "os_append p data = and_then sys (\<lambda>_ w. case lookup w p of
       Some (File (CBytes old)) \<Rightarrow>
         (let n = (case shorts w of [] \<Rightarrow> length data | k # _ \<Rightarrow> min k (length data))
          in (Inr n, (put p (File (CBytes (old @ take n data))) w)\<lparr>shorts := drop 1 (shorts w)\<rparr>))
     | _ \<Rightarrow> (Inl IOError, w))"

section \<open>JSON files (store.go)\<close>

definition decodeJSON :: "(content \<Rightarrow> 'a option) \<Rightarrow> content \<Rightarrow> err + 'a" where
  "decodeJSON prj c = (case prj c of None \<Rightarrow> Inl (Fail ''decode'') | Some x \<Rightarrow> Inr x)"

definition readJSON :: "(content \<Rightarrow> 'a option) \<Rightarrow> path \<Rightarrow> 'a io" where
  "readJSON prj p = and_then (os_read_file p) (\<lambda>c. lift (decodeJSON prj c))"

text \<open>
  \<^verbatim>\<open>jsonTemp\<close>: create a temporary file in the directory, encode into it, close it. The
  three calls can fail; what they leave behind is removed.
\<close>

definition jsonTemp :: "path \<Rightarrow> unit io" where
  "jsonTemp d =
     and_then (act (\<lambda>w. if is_dir w d then Inr w else Inl NotExist)) (\<lambda>_.
     and_then sys (\<lambda>_. sys))"

definition atomicJSON :: "path \<Rightarrow> content \<Rightarrow> unit io" where
  "atomicJSON p c = and_then (jsonTemp (butlast p)) (\<lambda>_. os_rename_temp c p)"

definition removeIfPresent :: "path \<Rightarrow> unit io" where
  "removeIfPresent p = and_then (attempt (os_remove p)) (\<lambda>r.
     case r of Inl e \<Rightarrow> if errors_is e NotExist then ret () else raise e | Inr _ \<Rightarrow> ret ())"

end
