(* ===== verification/FileSystem_Logic.thy ===== *)
theory FileSystem_Logic
  imports FileSystem
begin

text \<open>
  Reasoning about actions of the file store: a weakest-precondition predicate with a rule
  per combinator and system call that covers every failure schedule, evaluation lemmas
  for the schedule without failures, and the contract of a typed JSON file as a locale.
\<close>

named_theorems wp_intro \<open>introduction rules for weakest preconditions of actions\<close>
named_theorems run_simps \<open>evaluation of actions when no call fails\<close>

section \<open>Files\<close>

lemma lookup_put [simp]: "lookup (put p n w) q = (if q = p then Some n else lookup w q)"
  by (simp add: lookup_def put_def update_conv')

lemma lookup_del [simp]: "lookup (del p w) q = (if q = p then None else lookup w q)"
  by (simp add: lookup_def del_def delete_conv')

lemma world_upd_simps [simp]:
  "faults (put p n w) = faults w" "held (put p n w) = held w" "busy (put p n w) = busy w"
  "now (put p n w) = now w" "codec_of (put p n w) = codec_of w"
  "faults (del p w) = faults w" "held (del p w) = held w" "busy (del p w) = busy w"
  "now (del p w) = now w" "codec_of (del p w) = codec_of w"
  by (simp_all add: put_def del_def)

lemma lookup_faults [simp]:
  "lookup (w\<lparr>faults := bs\<rparr>) p = lookup w p"
  "lookup (w\<lparr>held := hs\<rparr>) p = lookup w p"
  by (simp_all add: lookup_def)

lemma shorts_simps [simp]:
  "lookup (w\<lparr>shorts := ns\<rparr>) p = lookup w p" "is_dir (w\<lparr>shorts := ns\<rparr>) p = is_dir w p"
  "children (w\<lparr>shorts := ns\<rparr>) d = children w d" "shorts (put p n w) = shorts w"
  "shorts (del p w) = shorts w"
  by (simp_all add: lookup_def is_dir_def children_def put_def del_def)

lemma put_faults [simp]:
  "put p n (w\<lparr>faults := bs\<rparr>) = (put p n w)\<lparr>faults := bs\<rparr>"
  "del p (w\<lparr>faults := bs\<rparr>) = (del p w)\<lparr>faults := bs\<rparr>"
  "put p n (w\<lparr>held := hs\<rparr>) = (put p n w)\<lparr>held := hs\<rparr>"
  "del p (w\<lparr>held := hs\<rparr>) = (del p w)\<lparr>held := hs\<rparr>"
  by (simp_all add: put_def del_def)

lemma is_dir_faults [simp]:
  "is_dir (w\<lparr>faults := bs\<rparr>) p = is_dir w p" "is_dir (w\<lparr>held := hs\<rparr>) p = is_dir w p"
  by (simp_all add: is_dir_def)

lemma is_dir_put_file [simp]:
  "n \<noteq> Dir \<Longrightarrow> is_dir (put p n w) q \<longleftrightarrow> is_dir w q \<and> (q \<noteq> p \<or> q = [])"
  by (auto simp: is_dir_def)

lemma children_faults [simp]:
  "children (w\<lparr>faults := bs\<rparr>) d = children w d" "children (w\<lparr>held := hs\<rparr>) d = children w d"
  by (simp_all add: children_def)

lemma keys_iff: "k \<in> fst ` set (fs w) \<longleftrightarrow> lookup w k \<noteq> None"
  by (simp add: lookup_def map_of_eq_None_iff)

lemma set_children: "set (children w d) = {n. lookup w (d @ [n]) \<noteq> None}"
proof -
  have "n \<in> set (children w d) \<longleftrightarrow> d @ [n] \<in> fst ` set (fs w)" for n
  proof -
    have "n \<in> set (children w d) \<longleftrightarrow>
        (\<exists>k \<in> fst ` set (fs w). k \<noteq> [] \<and> butlast k = d \<and> last k = n)"
      unfolding children_def set_sort set_remdups set_map set_filter by blast
    also have "\<dots> \<longleftrightarrow> d @ [n] \<in> fst ` set (fs w)"
      by (metis append_butlast_last_id butlast_snoc last_snoc snoc_eq_iff_butlast)
    finally show ?thesis .
  qed
  then show ?thesis by (auto simp: keys_iff)
qed

lemma sorted_children: "sorted (children w d)" and distinct_children: "distinct (children w d)"
  by (simp_all add: children_def)

lemma children_cong:
  assumes "\<And>n. (lookup w (d @ [n]) = None) = (lookup w' (d @ [n]) = None)"
  shows "children w d = children w' d"
proof -
  have "set (children w d) = set (children w' d)" using assms by (simp add: set_children)
  then show ?thesis
    by (simp add: sorted_distinct_set_unique sorted_children distinct_children)
qed

text \<open>A step that changes at most the files of a set (locks of this process apart).\<close>

definition changed_only :: "path set \<Rightarrow> world \<Rightarrow> world \<Rightarrow> bool" where
  "changed_only ps w w' \<longleftrightarrow> (\<forall>q. q \<notin> ps \<longrightarrow> lookup w' q = lookup w q)
     \<and> busy w' = busy w \<and> now w' = now w \<and> codec_of w' = codec_of w"

lemma changed_only_simps [simp]:
  "changed_only ps w w"
  "changed_only ps w (w'\<lparr>faults := bs\<rparr>) = changed_only ps w w'"
  "changed_only ps w (w'\<lparr>held := hs\<rparr>) = changed_only ps w w'"
  "changed_only ps w (w'\<lparr>shorts := ns\<rparr>) = changed_only ps w w'"
  "changed_only ps (w\<lparr>faults := bs\<rparr>) w' = changed_only ps w w'"
  "changed_only ps (w\<lparr>held := hs\<rparr>) w' = changed_only ps w w'"
  by (auto simp: changed_only_def)

lemma changed_only_put: "p \<in> ps \<Longrightarrow> changed_only ps w w' \<Longrightarrow> changed_only ps w (put p n w')"
  and changed_only_del: "p \<in> ps \<Longrightarrow> changed_only ps w w' \<Longrightarrow> changed_only ps w (del p w')"
  by (auto simp: changed_only_def)

lemma changed_only_trans:
  "changed_only ps u v \<Longrightarrow> changed_only qs v w \<Longrightarrow> ps \<union> qs \<subseteq> rs \<Longrightarrow> changed_only rs u w"
  unfolding changed_only_def by (metis UnCI subsetD)

lemma changed_only_mono: "changed_only ps u v \<Longrightarrow> ps \<subseteq> rs \<Longrightarrow> changed_only rs u v"
  by (auto simp: changed_only_def)

lemma changed_onlyD: "changed_only ps w w' \<Longrightarrow> q \<notin> ps \<Longrightarrow> lookup w' q = lookup w q"
  by (simp add: changed_only_def)

section \<open>Weakest preconditions\<close>

definition wp :: "'a io \<Rightarrow> ('a \<Rightarrow> world \<Rightarrow> bool) \<Rightarrow> (err \<Rightarrow> world \<Rightarrow> bool) \<Rightarrow> world \<Rightarrow> bool" where
  "wp m Q E w = (case m w of (Inr x, w') \<Rightarrow> Q x w' | (Inl e, w') \<Rightarrow> E e w')"

lemma wp_simps [simp]:
  "wp (ret x) Q E w = Q x w"
  "wp (raise e) Q E w = E e w"
  "wp (lift r) Q E w = (case r of Inl e \<Rightarrow> E e w | Inr x \<Rightarrow> Q x w)"
  "wp (reads g) Q E w = Q (g w) w"
  "wp (and_then m f) Q E w = wp m (\<lambda>x. wp (f x) Q E) E w"
  by (simp_all add: wp_def ret_def raise_def lift_def reads_def and_then_def
      split: sum.split prod.split)

lemma wp_updates [simp]: "wp (updates h) Q E w = Q () (h w)"
  by (simp add: wp_def updates_def)

lemma wp_attempt [simp]: "wp (attempt m) R E w = wp m (\<lambda>x. R (Inr x)) (\<lambda>e. R (Inl e)) w"
  unfolding wp_def attempt_def by (cases "m w"; cases "fst (m w)") auto

lemma wp_mono:
  assumes "wp m Q E w" "\<And>x w'. Q x w' \<Longrightarrow> Q' x w'" "\<And>e w'. E e w' \<Longrightarrow> E' e w'"
  shows "wp m Q' E' w"
  using assms by (auto simp: wp_def split: sum.splits prod.splits)

lemma wp_okD: "wp m Q E w \<Longrightarrow> m w = (Inr x, w') \<Longrightarrow> Q x w'"
  and wp_errD: "wp m Q E w \<Longrightarrow> m w = (Inl e, w') \<Longrightarrow> E e w'"
  by (simp_all add: wp_def)

lemma wpI: "(\<And>x w'. m w = (Inr x, w') \<Longrightarrow> Q x w') \<Longrightarrow> (\<And>e w'. m w = (Inl e, w') \<Longrightarrow> E e w')
    \<Longrightarrow> wp m Q E w"
  by (auto simp: wp_def split: sum.splits prod.splits)

lemma wp_result: "wp m (\<lambda>x w'. P (Inr x) w') (\<lambda>e w'. P (Inl e) w') w \<longleftrightarrow> (case m w of (r, w') \<Rightarrow> P r w')"
  unfolding wp_def by (cases "m w"; cases "fst (m w)") auto

lemma wp_sys [wp_intro]:
  assumes "\<And>bs. Q () (w\<lparr>faults := bs\<rparr>)" "\<And>bs. E IOError (w\<lparr>faults := bs\<rparr>)"
  shows "wp sys Q E w"
  using assms(1) [of "faults w"] assms by (auto simp: wp_def sys_def split: list.split)

lemma wp_act [wp_intro]:
  assumes "\<And>bs w'. f (w\<lparr>faults := bs\<rparr>) = Inr w' \<Longrightarrow> Q () w'"
    and "\<And>bs e. e = IOError \<or> f (w\<lparr>faults := bs\<rparr>) = Inl e \<Longrightarrow> E e (w\<lparr>faults := bs\<rparr>)"
  shows "wp (act f) Q E w"
  unfolding act_def wp_simps
  by (rule wp_sys) (auto simp: wp_def assms split: sum.split)

lemma wp_for_each:
  assumes step: "\<And>x w. x \<in> set xs \<Longrightarrow> I w \<Longrightarrow> wp (f x) (\<lambda>_. I) (\<lambda>e w. I w \<and> E e w) w"
    and "I w"
  shows "wp (for_each f xs) (\<lambda>_. I) (\<lambda>e w. I w \<and> E e w) w"
  using assms
proof (induction xs arbitrary: w)
  case Nil
  then show ?case by simp
next
  case (Cons x xs)
  have "wp (f x) (\<lambda>_. I) (\<lambda>e w. I w \<and> E e w) w" using Cons.prems by simp
  then show ?case
    unfolding for_each.simps wp_simps
    by (rule wp_mono) (use Cons in auto)
qed

lemma wp_collect:
  assumes step: "\<And>x w. x \<in> set xs \<Longrightarrow> I w \<Longrightarrow> wp (f x) (\<lambda>_. I) (\<lambda>_. I) w"
    and "I w"
  shows "wp (collect f xs) (\<lambda>_. I) (\<lambda>_. I) w"
  using assms
proof (induction xs arbitrary: w)
  case Nil
  then show ?case by simp
next
  case (Cons x xs)
  let ?rest = "\<lambda>r. and_then (collect f xs) (\<lambda>rs. ret (case r of None \<Rightarrow> rs | Some y \<Rightarrow> y # rs))"
  have rest: "wp (?rest r) (\<lambda>_. I) (\<lambda>_. I) w'" if "I w'" for r w'
    unfolding wp_simps by (rule wp_mono [OF Cons.IH]) (use that Cons.prems in auto)
  have "wp (f x) (\<lambda>_. I) (\<lambda>_. I) w" using Cons.prems by simp
  then have "wp (and_then (f x) ?rest) (\<lambda>_. I) (\<lambda>_. I) w"
    unfolding wp_simps(5) by (rule wp_mono) (use rest in auto)
  then show ?case by simp
qed

section \<open>System calls under every failure schedule\<close>

lemma wp_os_stat [wp_intro]:
  assumes "\<And>bs. lookup w p \<noteq> None \<Longrightarrow> Q () (w\<lparr>faults := bs\<rparr>)"
    and "\<And>bs e. (errors_is e NotExist \<Longrightarrow> lookup w p = None) \<Longrightarrow> E e (w\<lparr>faults := bs\<rparr>)"
  shows "wp (os_stat p) Q E w"
  unfolding os_stat_def by (rule wp_act) (auto split: if_splits intro!: assms)

lemma wp_os_read_file [wp_intro]:
  assumes "\<And>bs c. lookup w p = Some (File c) \<Longrightarrow> Q c (w\<lparr>faults := bs\<rparr>)"
    and "\<And>bs e. (errors_is e NotExist \<Longrightarrow> lookup w p = None) \<Longrightarrow> E e (w\<lparr>faults := bs\<rparr>)"
  shows "wp (os_read_file p) Q E w"
  unfolding os_read_file_def wp_simps
  by (rule wp_sys) (auto simp: wp_def intro!: assms split: option.split node.split)

lemma wp_readJSON [wp_intro]:
  assumes "\<And>bs c x. lookup w p = Some (File c) \<Longrightarrow> prj c = Some x \<Longrightarrow> Q x (w\<lparr>faults := bs\<rparr>)"
    and "\<And>bs e. (errors_is e NotExist \<Longrightarrow> lookup w p = None) \<Longrightarrow> E e (w\<lparr>faults := bs\<rparr>)"
  shows "wp (readJSON prj p) Q E w"
  unfolding readJSON_def wp_simps
  by (rule wp_os_read_file) (auto simp: decodeJSON_def intro!: assms split: option.split)

lemma wp_os_readlink [wp_intro]:
  assumes "\<And>bs t. lookup w p = Some (Link t) \<Longrightarrow> Q t (w\<lparr>faults := bs\<rparr>)"
    and "\<And>bs e. (errors_is e NotExist \<Longrightarrow> lookup w p = None) \<Longrightarrow> E e (w\<lparr>faults := bs\<rparr>)"
  shows "wp (os_readlink p) Q E w"
  unfolding os_readlink_def wp_simps
  by (rule wp_sys) (auto simp: wp_def intro!: assms split: option.split node.split)

lemma wp_os_read_dir [wp_intro]:
  assumes "\<And>bs. lookup w d = Some Dir \<Longrightarrow>
      Q (map (\<lambda>n. (n, lookup w (d @ [n]) = Some Dir)) (children w d)) (w\<lparr>faults := bs\<rparr>)"
    and "\<And>bs e. (errors_is e NotExist \<Longrightarrow> lookup w d = None) \<Longrightarrow> E e (w\<lparr>faults := bs\<rparr>)"
  shows "wp (os_read_dir d) Q E w"
  unfolding os_read_dir_def wp_simps
  by (rule wp_sys) (auto simp: wp_def intro!: assms)

lemma wp_os_symlink [wp_intro]:
  assumes "\<And>bs. lookup w p = None \<Longrightarrow> is_dir w (butlast p) \<Longrightarrow>
      Q () ((put p (Link t) w)\<lparr>faults := bs\<rparr>)"
    and "\<And>bs e. (errors_is e Exist \<Longrightarrow> lookup w p \<noteq> None) \<Longrightarrow> E e (w\<lparr>faults := bs\<rparr>)"
  shows "wp (os_symlink t p) Q E w"
  unfolding os_symlink_def by (rule wp_act) (auto split: if_splits intro!: assms)

lemma wp_os_link_new [wp_intro]:
  assumes "\<And>bs. lookup w p = None \<Longrightarrow> is_dir w (butlast p) \<Longrightarrow>
      Q () ((put p (File c) w)\<lparr>faults := bs\<rparr>)"
    and "\<And>bs e. (errors_is e Exist \<Longrightarrow> lookup w p \<noteq> None) \<Longrightarrow> E e (w\<lparr>faults := bs\<rparr>)"
  shows "wp (os_link_new c p) Q E w"
  unfolding os_link_new_def by (rule wp_act) (auto split: if_splits intro!: assms)

lemma wp_os_create_excl [wp_intro]:
  assumes "\<And>bs. lookup w p = None \<Longrightarrow> is_dir w (butlast p) \<Longrightarrow>
      Q () ((put p (File c) w)\<lparr>faults := bs\<rparr>)"
    and "\<And>bs e. (errors_is e Exist \<Longrightarrow> lookup w p \<noteq> None) \<Longrightarrow> E e (w\<lparr>faults := bs\<rparr>)"
  shows "wp (os_create_excl p c) Q E w"
  unfolding os_create_excl_def by (rule wp_act) (auto split: if_splits intro!: assms)

lemma wp_os_write_file [wp_intro]:
  assumes "\<And>bs. is_dir w (butlast p) \<Longrightarrow> Q () ((put p (File c) w)\<lparr>faults := bs\<rparr>)"
    and "\<And>bs e. E e (w\<lparr>faults := bs\<rparr>)"
  shows "wp (os_write_file p c) Q E w"
  unfolding os_write_file_def by (rule wp_act) (auto split: if_splits intro!: assms)

lemma wp_os_open_create [wp_intro]:
  assumes "\<And>bs n. lookup w p = Some n \<Longrightarrow> n \<noteq> Dir \<Longrightarrow> Q () (w\<lparr>faults := bs\<rparr>)"
    and "\<And>bs. lookup w p = None \<Longrightarrow> is_dir w (butlast p) \<Longrightarrow>
      Q () ((put p (File (CBytes [])) w)\<lparr>faults := bs\<rparr>)"
    and "\<And>bs e. E e (w\<lparr>faults := bs\<rparr>)"
  shows "wp (os_open_create p) Q E w"
  unfolding os_open_create_def
  by (rule wp_act) (auto split: if_splits option.splits intro!: assms)

lemma wp_os_mkdir [wp_intro]:
  assumes "\<And>bs. lookup w p = None \<Longrightarrow> is_dir w (butlast p) \<Longrightarrow> Q () ((put p Dir w)\<lparr>faults := bs\<rparr>)"
    and "\<And>bs e. (errors_is e Exist \<Longrightarrow> lookup w p \<noteq> None) \<Longrightarrow> E e (w\<lparr>faults := bs\<rparr>)"
  shows "wp (os_mkdir p) Q E w"
  unfolding os_mkdir_def by (rule wp_act) (auto split: if_splits intro!: assms)

lemma wp_os_remove [wp_intro]:
  assumes "\<And>bs. lookup w p \<noteq> None \<Longrightarrow> Q () ((del p w)\<lparr>faults := bs\<rparr>)"
    and "\<And>bs e. (errors_is e NotExist \<Longrightarrow> lookup w p = None) \<Longrightarrow> E e (w\<lparr>faults := bs\<rparr>)"
  shows "wp (os_remove p) Q E w"
  unfolding os_remove_def by (rule wp_act) (auto split: if_splits intro!: assms)

lemma wp_removeIfPresent [wp_intro]:
  assumes "\<And>bs. lookup w p \<noteq> None \<Longrightarrow> Q () ((del p w)\<lparr>faults := bs\<rparr>)"
    and "\<And>bs. lookup w p = None \<Longrightarrow> Q () (w\<lparr>faults := bs\<rparr>)"
    and "\<And>bs e. E e (w\<lparr>faults := bs\<rparr>)"
  shows "wp (removeIfPresent p) Q E w"
  unfolding removeIfPresent_def wp_simps wp_attempt
  by (rule wp_os_remove) (auto intro!: assms)

lemma wp_atomicJSON [wp_intro]:
  assumes "\<And>bs. is_dir w (butlast p) \<Longrightarrow> lookup w p \<noteq> Some Dir \<Longrightarrow>
      Q () ((put p (File c) w)\<lparr>faults := bs\<rparr>)"
    and "\<And>bs e. E e (w\<lparr>faults := bs\<rparr>)"
  shows "wp (atomicJSON p c) Q E w"
  unfolding atomicJSON_def jsonTemp_def os_rename_temp_def wp_simps
  by (rule wp_act wp_sys | (clarsimp split: if_splits; fail)
      | (auto split: if_splits intro!: assms wp_sys wp_act; fail))+

lemma wp_jsonTemp [wp_intro]:
  assumes "\<And>bs. is_dir w d \<Longrightarrow> Q () (w\<lparr>faults := bs\<rparr>)" and "\<And>bs e. E e (w\<lparr>faults := bs\<rparr>)"
  shows "wp (jsonTemp d) Q E w"
  unfolding jsonTemp_def wp_simps
  by (rule wp_act) (auto split: if_splits intro!: assms wp_sys)

lemma wp_os_append [wp_intro]:
  assumes "\<And>bs ns n old. lookup w p = Some (File (CBytes old)) \<Longrightarrow>
      Q n ((put p (File (CBytes (old @ take n data))) w)\<lparr>faults := bs, shorts := ns\<rparr>)"
    and "\<And>bs. E IOError (w\<lparr>faults := bs\<rparr>)"
  shows "wp (os_append p data) Q E w"
  unfolding os_append_def wp_simps
  by (rule wp_sys) (auto simp: wp_def Let_def assms split: option.split node.split content.split)

section \<open>Renames and removals of trees\<close>

lemma map_of_relabel:
  assumes "\<not> prefix p q" "\<not> prefix q p"
  shows "map_of (map (\<lambda>(k, n). (if prefix p k then q @ drop (length p) k else k, n))
           (filter (\<lambda>(k, _). \<not> prefix q k) kvs)) k =
    (if prefix q k then map_of kvs (p @ drop (length q) k)
     else if prefix p k then None else map_of kvs k)"
proof (induction kvs)
  case Nil
  then show ?case by simp
next
  case (Cons kv kvs)
  obtain j n where kv: "kv = (j, n)" by (cases kv)
  consider (q) "prefix q j" | (p) r where "j = p @ r" "\<not> prefix q j"
    | (other) "\<not> prefix q j" "\<not> prefix p j"
    by (auto simp: prefix_def)
  then show ?case
  proof cases
    case q
    then have "j \<noteq> p @ r" for r
      using assms by (metis prefixI prefix_same_cases)
    moreover have "\<not> prefix q k \<Longrightarrow> k \<noteq> j" using q by auto
    ultimately show ?thesis using Cons q by (auto simp: kv)
  next
    case p
    have "q @ r = k \<longleftrightarrow> prefix q k \<and> p @ drop (length q) k = j"
      using p by (auto simp: prefix_def)
    moreover have "prefix p j" "drop (length p) j = r" using p by simp_all
    moreover have "prefix p k" if "k = j" using that p by simp
    ultimately show ?thesis using Cons p(2) by (cases "k = j"; cases "q @ r = k") (simp_all add: kv)
  next
    case other
    then have "k = j \<Longrightarrow> \<not> prefix q k \<and> \<not> prefix p k" by simp
    moreover have "p @ r \<noteq> j" for r using other by auto
    ultimately show ?thesis using Cons other by (auto simp: kv)
  qed
qed

lemma lookup_relabel:
  assumes "\<not> prefix p q" "\<not> prefix q p"
  shows "lookup (relabel p q w) k =
    (if prefix q k then lookup w (p @ drop (length q) k)
     else if prefix p k then None else lookup w k)"
  unfolding lookup_def relabel_def by (subst map_of_relabel [OF assms, symmetric]) simp

lemma relabel_simps [simp]:
  "faults (relabel p q w) = faults w" "held (relabel p q w) = held w"
  "busy (relabel p q w) = busy w" "now (relabel p q w) = now w"
  "codec_of (relabel p q w) = codec_of w"
  "relabel p q (w\<lparr>faults := bs\<rparr>) = (relabel p q w)\<lparr>faults := bs\<rparr>"
  by (simp_all add: relabel_def)

lemma wp_os_rename [wp_intro]:
  assumes "\<And>bs n. lookup w p = Some n \<Longrightarrow> \<not> prefix p q \<Longrightarrow> \<not> prefix q p \<Longrightarrow> is_dir w (butlast q) \<Longrightarrow>
      (n = Dir \<Longrightarrow> lookup w q = None \<or> lookup w q = Some Dir \<and> children w q = []) \<Longrightarrow>
      Q () ((relabel p q w)\<lparr>faults := bs\<rparr>)"
    and "\<And>bs. p = q \<Longrightarrow> Q () (w\<lparr>faults := bs\<rparr>)"
    and "\<And>bs e. (errors_is e NotExist \<Longrightarrow> lookup w p = None \<or> \<not> is_dir w (butlast q)) \<Longrightarrow>
      E e (w\<lparr>faults := bs\<rparr>)"
  shows "wp (os_rename p q) Q E w"
  unfolding os_rename_def
  by (rule wp_act) (auto split: if_splits option.splits intro!: assms)

lemma lookup_remove_all:
  "lookup (w\<lparr>fs := filter (\<lambda>(k, _). \<not> prefix p k) (fs w)\<rparr>) q =
     (if prefix p q then None else lookup w q)"
proof -
  have "map_of (filter (\<lambda>(k, _). \<not> prefix p k) kvs) q =
      (if prefix p q then None else map_of kvs q)" for kvs :: "(path \<times> node) list"
    by (induction kvs) auto
  then show ?thesis by (simp add: lookup_def)
qed

definition removed_tree :: "path \<Rightarrow> world \<Rightarrow> world" where
  "removed_tree p w = w\<lparr>fs := filter (\<lambda>(k, _). \<not> prefix p k) (fs w)\<rparr>"

lemma lookup_removed_tree [simp]:
  "lookup (removed_tree p w) q = (if prefix p q then None else lookup w q)"
  by (simp add: removed_tree_def lookup_remove_all)

lemma removed_tree_simps [simp]:
  "faults (removed_tree p w) = faults w" "held (removed_tree p w) = held w"
  "busy (removed_tree p w) = busy w" "now (removed_tree p w) = now w"
  "codec_of (removed_tree p w) = codec_of w"
  "removed_tree p (w\<lparr>faults := bs\<rparr>) = (removed_tree p w)\<lparr>faults := bs\<rparr>"
  by (simp_all add: removed_tree_def)

lemma wp_os_remove_all [wp_intro]:
  assumes "\<And>bs. Q () ((removed_tree p w)\<lparr>faults := bs\<rparr>)" and "\<And>bs e. E e (w\<lparr>faults := bs\<rparr>)"
  shows "wp (os_remove_all p) Q E w"
proof -
  have same: "(w\<lparr>faults := bs\<rparr>)\<lparr>fs := filter (\<lambda>(k, _). \<not> prefix p k) (fs (w\<lparr>faults := bs\<rparr>))\<rparr>
      = (removed_tree p w)\<lparr>faults := bs\<rparr>" for bs
    by (simp add: removed_tree_def)
  show ?thesis
    unfolding os_remove_all_def
  proof (rule wp_act)
    fix bs w'
    assume "Inr ((w\<lparr>faults := bs\<rparr>)\<lparr>fs := filter (\<lambda>(k, _). \<not> prefix p k) (fs (w\<lparr>faults := bs\<rparr>))\<rparr>) = Inr w'"
    then show "Q () w'" unfolding same using assms(1) by auto
  qed (rule assms(2))
qed

text \<open>What \<^verbatim>\<open>MkdirAll\<close> leaves: the directory exists, and no file changed.\<close>

definition dirs_added :: "world \<Rightarrow> world \<Rightarrow> bool" where
  "dirs_added w w' \<longleftrightarrow>
     (\<forall>q. lookup w' q = lookup w q \<or> lookup w q = None \<and> lookup w' q = Some Dir)
     \<and> held w' = held w \<and> busy w' = busy w \<and> now w' = now w \<and> codec_of w' = codec_of w"

lemma dirs_added_refl [simp]: "dirs_added w w"
  by (simp add: dirs_added_def)

lemma dirs_added_trans: "dirs_added u v \<Longrightarrow> dirs_added v w \<Longrightarrow> dirs_added u w"
  unfolding dirs_added_def by metis

lemma dirs_addedD:
  assumes "dirs_added w w'"
  shows "lookup w q = Some n \<Longrightarrow> lookup w' q = Some n"
    and "lookup w' q = Some (File c) \<longleftrightarrow> lookup w q = Some (File c)"
    and "lookup w' q = Some (Link t) \<longleftrightarrow> lookup w q = Some (Link t)"
  using assms unfolding dirs_added_def
  by (metis option.distinct(1) option.inject node.distinct)+

lemma make_dirs_ok:
  assumes "make_dirs d cs w = Inr w'" "is_dir w d"
  shows "dirs_added w w' \<and> is_dir w' (d @ cs)"
  using assms
proof (induction d cs w rule: make_dirs.induct)
  case (1 d w)
  then show ?case by simp
next
  case (2 d c cs w)
  let ?p = "d @ [c]"
  show ?case
  proof (cases "lookup w ?p")
    case None
    then have "dirs_added (put ?p Dir w) w' \<and> is_dir w' (?p @ cs)"
      using 2 by (simp add: Let_def is_dir_def)
    moreover have "dirs_added w (put ?p Dir w)" using None by (auto simp: dirs_added_def)
    ultimately show ?thesis by (auto intro: dirs_added_trans)
  next
    case (Some n)
    then have "n = Dir" using 2 by (simp add: Let_def split: if_splits)
    then show ?thesis using 2 Some by (simp add: Let_def is_dir_def)
  qed
qed

lemma make_dirs_faults: "make_dirs d cs (w\<lparr>faults := bs\<rparr>) =
    (case make_dirs d cs w of Inl e \<Rightarrow> Inl e | Inr w' \<Rightarrow> Inr (w'\<lparr>faults := bs\<rparr>))"
  by (induction d cs w rule: make_dirs.induct) (auto simp: Let_def split: option.split)

lemma wp_os_mkdir_all [wp_intro]:
  assumes "\<And>bs w'. dirs_added w w' \<Longrightarrow> is_dir w' p \<Longrightarrow> Q () (w'\<lparr>faults := bs\<rparr>)"
    and "\<And>bs e. E e (w\<lparr>faults := bs\<rparr>)"
  shows "wp (os_mkdir_all p) Q E w"
  unfolding os_mkdir_all_def
proof (rule wp_act)
  fix bs w' assume "make_dirs [] p (w\<lparr>faults := bs\<rparr>) = Inr w'"
  then obtain v where v: "make_dirs [] p w = Inr v" "w' = v\<lparr>faults := bs\<rparr>"
    by (auto simp: make_dirs_faults split: sum.splits)
  then show "Q () w'"
    using make_dirs_ok [OF v(1)] by (auto intro!: assms(1) simp: is_dir_def)
qed (rule assms(2))

section \<open>The contract of a typed JSON file\<close>

text \<open>
  What a component relies on when it keeps a value in a file of its own: encoding a value
  and decoding it yields the value as stored. Under that law a successful write is what
  the next reader sees, and a failed write is invisible to every reader.
\<close>

definition quiet :: "world \<Rightarrow> world" where
  "quiet w = w\<lparr>faults := []\<rparr>"

lemma quiet_simps [simp]:
  "lookup (quiet w) p = lookup w p" "faults (quiet w) = []" "quiet (w\<lparr>faults := bs\<rparr>) = quiet w"
  by (simp_all add: quiet_def)

lemma sys_quiet [run_simps]: "faults w = [] \<Longrightarrow> sys w = (Inr (), w)"
  by (simp add: sys_def)

lemma act_quiet [run_simps]: "faults w = [] \<Longrightarrow>
    act f w = (case f w of Inl e \<Rightarrow> (Inl e, w) | Inr w' \<Rightarrow> (Inr (), w'))"
  by (simp add: act_def and_then_def sys_quiet)

lemma readJSON_quiet [run_simps]: "faults w = [] \<Longrightarrow>
    readJSON prj p w =
      ((case lookup w p of
          None \<Rightarrow> Inl NotExist
        | Some (File c) \<Rightarrow> (case prj c of None \<Rightarrow> Inl (Fail ''decode'') | Some x \<Rightarrow> Inr x)
        | Some _ \<Rightarrow> Inl IOError), w)"
  by (auto simp: readJSON_def os_read_file_def and_then_def sys_quiet lift_def decodeJSON_def
      split: option.split node.split)

lemma atomicJSON_quiet [run_simps]: "faults w = [] \<Longrightarrow>
    atomicJSON p c w =
      (if \<not> is_dir w (butlast p) then (Inl NotExist, w)
       else if lookup w p = Some Dir then (Inl IOError, w) else (Inr (), put p (File c) w))"
  by (simp add: atomicJSON_def jsonTemp_def os_rename_temp_def and_then_def sys_quiet act_quiet)

lemma and_then_Inr [run_simps]: "m w = (Inr x, w') \<Longrightarrow> and_then m f w = f x w'"
  and and_then_Inl [run_simps]: "m w = (Inl e, w') \<Longrightarrow> and_then m f w = (Inl e, w')"
  by (simp_all add: and_then_def)

locale typed_file =
  fixes inj :: "'a \<Rightarrow> content" and prj :: "content \<Rightarrow> 'a option" and stored :: "'a \<Rightarrow> 'a"
  assumes prj_inj: "prj (inj x) = Some (stored x)"
begin

lemma read_after_write:
  assumes "atomicJSON p (inj x) w = (Inr (), w')"
  shows "fst (readJSON prj p (quiet w')) = Inr (stored x)"
proof -
  have "wp (atomicJSON p (inj x)) (\<lambda>_ w'. lookup w' p = Some (File (inj x))) (\<lambda>_ _. True) w"
    by (intro wp_intro) auto
  from wp_okD [OF this assms] show ?thesis by (simp add: readJSON_quiet prj_inj)
qed

lemma failed_write_invisible:
  assumes "atomicJSON p (inj x) w = (Inl e, w')"
  shows "fst (readJSON prj' q (quiet w')) = fst (readJSON prj' q (quiet w))"
proof -
  have "wp (atomicJSON p (inj x)) (\<lambda>_ _. True) (\<lambda>_ w'. lookup w' = lookup w) w"
    by (intro wp_intro) (auto simp: fun_eq_iff)
  from wp_errD [OF this assms] show ?thesis by (simp add: readJSON_quiet)
qed

lemma write_frame:
  assumes "atomicJSON p (inj x) w = (r, w')" "q \<noteq> p"
  shows "lookup w' q = lookup w q"
proof -
  have "wp (atomicJSON p (inj x)) (\<lambda>_ w'. lookup w' q = lookup w q)
      (\<lambda>_ w'. lookup w' q = lookup w q) w"
    using assms(2) by (intro wp_intro) auto
  then show ?thesis using assms(1) by (auto simp: wp_def split: sum.splits)
qed

end

end
