(* ===== verification/Store_Paths.thy ===== *)
theory Store_Paths
  imports FileSystem_Logic
begin

text \<open>
  The names part of \<^verbatim>\<open>store/store.go\<close>: validation of path segments, the layout of a
  team's and an agent's files, team creation, and the name claims (symbolic links from a
  name to an immutable hitch ID). A path is the list of its components;
  \<^verbatim>\<open>filepath.Join\<close> of a checked segment appends the components of that segment.
\<close>

section \<open>Segments\<close>

definition separator :: char where "separator = CHR ''/''"

text \<open>\<^verbatim>\<open>filepath.Base\<close> on Unix.\<close>

definition base_name :: "string \<Rightarrow> string" where
  "base_name s =
     (if s = '''' then ''.''
      else let t = rev (dropWhile (\<lambda>c. c = separator) (rev s))
           in if t = '''' then [separator] else rev (takeWhile (\<lambda>c. c \<noteq> separator) (rev t)))"

definition segment :: "string \<Rightarrow> bool" where
  "segment v \<longleftrightarrow>
     \<not> (v = '''' \<or> v = ''.'' \<or> v = ''..'' \<or> base_name v \<noteq> v
        \<or> (\<exists>c \<in> set v. c = CHR 0x5C \<or> c = CHR 0x00))"

definition check_segment :: "string \<Rightarrow> unit io" where
  "check_segment v = (if segment v then ret () else raise (Fail ''invalid state path segment''))"

fun split_slash :: "string \<Rightarrow> string list" where
  "split_slash [] = [[]]"
| "split_slash (c # cs) =
     (if c = separator then [] # split_slash cs
      else case split_slash cs of x # xs \<Rightarrow> (c # x) # xs | [] \<Rightarrow> [[c]])"

definition components :: "string \<Rightarrow> path" where
  "components s = filter (\<lambda>x. x \<noteq> '''') (split_slash s)"

definition join_path :: "path \<Rightarrow> string \<Rightarrow> path" where
  "join_path d s = d @ components s"

section \<open>Layout\<close>

record paths =
  root :: string

record team_paths =
  tp_directory :: path
  tp_state :: path
  tp_log :: path
  tp_names :: path
  tp_agents :: path

record agent_paths =
  ap_directory :: path
  ap_state :: path
  ap_lock :: path
  ap_witness :: path
  ap_compaction_witness :: path
  ap_inbox :: path
  ap_permission :: path
  ap_log :: path

definition team_of :: "path \<Rightarrow> team_paths" where
  "team_of d = \<lparr>tp_directory = d, tp_state = d @ [''team.json''], tp_log = d @ [''log.jsonl''],
     tp_names = d @ [''names''], tp_agents = d @ [''agents'']\<rparr>"

definition Team :: "paths \<Rightarrow> string \<Rightarrow> team_paths io" where
  "Team p name =
     (if root p = '''' then raise (Fail ''state root is empty'')
      else and_then (check_segment name) (\<lambda>_.
        ret (team_of (join_path (components (root p) @ [''teams'']) name))))"

definition agent_of :: "team_paths \<Rightarrow> hitch_id \<Rightarrow> agent_paths" where
  "agent_of p i = (let d = join_path (tp_agents p) i in
     \<lparr>ap_directory = d, ap_state = d @ [''agent.json''], ap_lock = d @ [''lock''],
      ap_witness = d @ [''witness''], ap_compaction_witness = d @ [''compaction-witness''],
      ap_inbox = d @ [''inbox''], ap_permission = d @ [''permission''], ap_log = tp_log p\<rparr>)"

definition Agent :: "team_paths \<Rightarrow> hitch_id \<Rightarrow> agent_paths io" where
  "Agent p i = and_then (check_segment i) (\<lambda>_. ret (agent_of p i))"

definition Create :: "team_paths \<Rightarrow> unit io" where
  "Create p =
     and_then (for_each os_mkdir_all [tp_names p, tp_agents p]) (\<lambda>_.
     and_then (jsonTemp (tp_directory p)) (\<lambda>_.
     and_then (attempt (os_link_new (CTeam \<lparr>team_curfew = zero_time\<rparr>) (tp_state p))) (\<lambda>r.
     case r of Inl e \<Rightarrow> if errors_is e Exist then ret () else raise e | Inr _ \<Rightarrow> ret ())))"

definition ReadTeam :: "team_paths \<Rightarrow> team io" where
  "ReadTeam p = readJSON as_team (tp_state p)"

definition WriteTeam :: "team_paths \<Rightarrow> team \<Rightarrow> unit io" where
  "WriteTeam p t = atomicJSON (tp_state p) (CTeam t)"

section \<open>Name claims\<close>

definition name_path :: "team_paths \<Rightarrow> agent_name \<Rightarrow> path" where
  "name_path p name = join_path (tp_names p) name"

definition ClaimName :: "team_paths \<Rightarrow> agent_name \<Rightarrow> hitch_id \<Rightarrow> unit io" where
  "ClaimName p name i =
     and_then (check_segment name) (\<lambda>_.
     and_then (check_segment i) (\<lambda>_.
     and_then (attempt (os_symlink i (name_path p name))) (\<lambda>r.
     case r of
       Inl e \<Rightarrow> if errors_is e Exist then raise NameTaken else raise e
     | Inr _ \<Rightarrow> ret ())))"

definition ResolveName :: "team_paths \<Rightarrow> string \<Rightarrow> hitch_id io" where
  "ResolveName p name =
     and_then (check_segment name) (\<lambda>_.
     and_then (os_readlink (name_path p name)) (\<lambda>i.
     and_then (check_segment i) (\<lambda>_. ret i)))"

definition RemoveName :: "team_paths \<Rightarrow> agent_name \<Rightarrow> hitch_id \<Rightarrow> unit io" where
  "RemoveName p name i =
     (if name = '''' then ret ()
      else and_then (attempt (ResolveName p name)) (\<lambda>r.
        case r of
          Inl e \<Rightarrow> if errors_is e NotExist then ret () else raise e
        | Inr got \<Rightarrow> if got \<noteq> i then ret () else os_remove (name_path p name)))"

section \<open>What segment accepts\<close>

definition plain_segment :: "string \<Rightarrow> bool" where
  "plain_segment v \<longleftrightarrow>
     v \<noteq> '''' \<and> v \<noteq> ''.'' \<and> v \<noteq> ''..''
     \<and> (\<forall>c \<in> set v. c \<noteq> separator \<and> c \<noteq> CHR 0x5C \<and> c \<noteq> CHR 0x00)"

lemma base_name_no_separator:
  assumes "v \<noteq> ''''" "separator \<notin> set v"
  shows "base_name v = v"
proof -
  obtain u c where v: "v = u @ [c]" using assms(1) by (cases v rule: rev_cases) auto
  then have "dropWhile (\<lambda>c. c = separator) (rev v) = rev v" using assms(2) by auto
  moreover have "takeWhile (\<lambda>c. c \<noteq> separator) (rev v) = rev v"
    using assms(2) by (subst takeWhile_eq_all_conv) auto
  then have "rev (takeWhile (\<lambda>c. c \<noteq> separator) (rev v)) = v" by (metis rev_rev_ident)
  ultimately show ?thesis using assms(1) by (simp add: base_name_def)
qed

lemma set_base_name: "separator \<in> set (base_name v) \<Longrightarrow> base_name v = [separator]"
  by (auto simp: base_name_def Let_def separator_def split: if_splits dest: set_takeWhileD)

lemma base_name_separator: "base_name [separator] = [separator]"
  by (simp add: base_name_def)

lemma segment_iff: "segment v \<longleftrightarrow> plain_segment v \<or> v = ''/''"
proof
  assume s: "segment v"
  show "plain_segment v \<or> v = ''/''"
  proof (cases "separator \<in> set v")
    case True
    then have "v = [separator]" using s set_base_name [of v] by (auto simp: segment_def)
    then show ?thesis by (simp add: separator_def)
  next
    case False
    then show ?thesis using s by (auto simp: segment_def plain_segment_def)
  qed
next
  assume "plain_segment v \<or> v = ''/''"
  then show "segment v"
  proof
    assume p: "plain_segment v"
    then have "base_name v = v" by (intro base_name_no_separator) (auto simp: plain_segment_def)
    then show ?thesis using p by (auto simp: segment_def plain_segment_def)
  next
    assume "v = ''/''"
    then have "base_name v = v" using base_name_separator by (simp add: separator_def)
    then show ?thesis using \<open>v = ''/''\<close> by (simp add: segment_def)
  qed
qed

text \<open>
  The strings \<^verbatim>\<open>segment\<close> accepts are exactly the single path
  components (not empty, not \<^verbatim>\<open>.\<close> or \<^verbatim>\<open>..\<close>, without separator, backslash or NUL), and one
  more: the string \<^verbatim>\<open>/\<close>, which \<^verbatim>\<open>filepath.Base\<close> maps to itself. No accepted string holds
  a parent reference or more than one component.
\<close>

theorem segment_accepts: "segment v \<longleftrightarrow> plain_segment v \<or> v = ''/''"
  by (rule segment_iff)

lemma split_slash_plain: "separator \<notin> set v \<Longrightarrow> split_slash v = [v]"
  by (induction v) auto

lemma components_plain:
  assumes "plain_segment v"
  shows "components v = [v]"
proof -
  have "v \<noteq> ''''" "separator \<notin> set v" using assms by (auto simp: plain_segment_def)
  then show ?thesis by (simp add: components_def split_slash_plain)
qed

lemma join_path_plain [simp]: "plain_segment v \<Longrightarrow> join_path d v = d @ [v]"
  by (simp add: join_path_def components_plain)

lemma components_slash: "components ''/'' = []"
  by (simp add: components_def separator_def)

text \<open>
  C33 (state_paths_contained): a team directory computed from an accepted name is the
  \<^verbatim>\<open>teams\<close> directory extended by exactly that name, and two accepted names never share a
  directory; the exception is the name \<^verbatim>\<open>/\<close>, whose team directory is the directory of all
  teams.
\<close>

theorem state_paths_contained:
  assumes "Team p name w = (Inr t, w')"
  shows "(tp_directory t = components (root p) @ [''teams'', name] \<and> plain_segment name)
         \<or> (name = ''/'' \<and> tp_directory t = components (root p) @ [''teams''])"
proof -
  have "segment name" "t = team_of (join_path (components (root p) @ [''teams'']) name)"
    using assms by (auto simp: Team_def check_segment_def and_then_def ret_def raise_def split: if_splits)
  then show ?thesis
    unfolding segment_iff by (auto simp: team_of_def join_path_def components_slash components_plain)
qed

theorem state_paths_contained_witness:
  "let t = team_of (components ''/var/gang'' @ [''teams'', ''alpha''])
   in (tp_directory t = components (root \<lparr>root = ''/var/gang''\<rparr>) @ [''teams'', ''alpha''] \<and> plain_segment ''alpha'')
      \<or> (''alpha'' = ''/'' \<and> tp_directory t = components (root \<lparr>root = ''/var/gang''\<rparr>) @ [''teams''])"
proof -
  have plain: "plain_segment ''alpha''" by (simp add: plain_segment_def separator_def)
  have "Team \<lparr>root = ''/var/gang''\<rparr> ''alpha'' w =
      (Inr (team_of (components ''/var/gang'' @ [''teams'', ''alpha''])), w)" for w
    using plain by (simp add: Team_def check_segment_def segment_iff and_then_def ret_def)
  from state_paths_contained [OF this] show ?thesis by (simp add: Let_def)
qed

end
