(* ===== verification/Event_Log.thy ===== *)
theory Event_Log
  imports Store_Paths
begin

text \<open>
  The audit log: the event codec (\<^verbatim>\<open>core/codec.go\<close>) and the append-only file of one record
  per line (\<^verbatim>\<open>store/log.go\<close>). The JSON encoder and the CUE schema are the parameter
  \<^verbatim>\<open>codec_of\<close> of the world; what the code relies on of them is \<^verbatim>\<open>framed_codec\<close> and, for an event
  that is read back, \<^verbatim>\<open>reads_back\<close>. A raw
  write may be short, so the log can end in a torn line.
\<close>

section \<open>Codec\<close>

definition EncodeEvent :: "codec \<Rightarrow> event \<Rightarrow> err + string" where
  "EncodeEvent c e = (case marshal_event c e of
       None \<Rightarrow> Inl (Fail ''marshal'')
     | Some d \<Rightarrow> if schema_ok c d then Inr d else Inl (Fail ''validate event''))"

definition DecodeEvent :: "codec \<Rightarrow> string \<Rightarrow> err + event" where
  "DecodeEvent c d = (case header_type c d of
       None \<Rightarrow> Inl (Fail ''unmarshal'')
     | Some t \<Rightarrow>
         if t \<noteq> '''' \<and> \<not> known_type c t then Inl UnknownEventType
         else (case strict_decode c d of
             None \<Rightarrow> Inl (Fail ''decode event'')
           | Some e \<Rightarrow> if schema_ok c d then Inr e else Inl (Fail ''validate event'')))"

section \<open>Lines\<close>

definition newline :: char where "newline = CHR 0x0A"

text \<open>The complete lines of a text, each with its newline, and what follows the last one.\<close>

fun split_lines :: "string \<Rightarrow> string list \<times> string" where
  "split_lines [] = ([], [])"
| "split_lines (c # cs) =
     (case split_lines cs of (ls, r) \<Rightarrow>
        if c = newline then ([c] # ls, r)
        else (case ls of [] \<Rightarrow> ([], c # r) | l # ls' \<Rightarrow> ((c # l) # ls', r)))"

text \<open>A visitor is a closure over a state; it returns an error or \<^verbatim>\<open>nil\<close>.\<close>

fun scan_lines :: "(nat \<Rightarrow> string \<Rightarrow> 's \<Rightarrow> err option \<times> 's) \<Rightarrow> nat \<Rightarrow> string list \<Rightarrow> string \<Rightarrow> 's
    \<Rightarrow> err option \<times> 's" where
  "scan_lines visit line [] r s =
     (if r = '''' then (None, s) else (Some (Fail ''audit line is incomplete''), s))"
| "scan_lines visit line (l # ls) r s = (case visit line l s of
       (Some e, s') \<Rightarrow> (Some e, s')
     | (None, s') \<Rightarrow> scan_lines visit (Suc line) ls r s')"

definition ScanLog :: "string \<Rightarrow> (nat \<Rightarrow> string \<Rightarrow> 's \<Rightarrow> err option \<times> 's) \<Rightarrow> 's \<Rightarrow> err option \<times> 's" where
  "ScanLog data visit s = (case split_lines data of (ls, r) \<Rightarrow> scan_lines visit 1 ls r s)"

definition log_visitor :: "codec \<Rightarrow> (event \<Rightarrow> 's \<Rightarrow> err option \<times> 's) \<Rightarrow> nat \<Rightarrow> string
    \<Rightarrow> nat \<times> 's \<Rightarrow> err option \<times> (nat \<times> 's)" where
  "log_visitor c visit line d = (\<lambda>(skipped, s). case DecodeEvent c d of
       Inl e \<Rightarrow> if errors_is e UnknownEventType then (None, (skipped + 1, s))
         else (Some e, (skipped, s))
     | Inr e \<Rightarrow> (case visit e s of (r, s') \<Rightarrow> (r, (skipped, s'))))"

definition ReadLog :: "codec \<Rightarrow> string \<Rightarrow> (event \<Rightarrow> 's \<Rightarrow> err option \<times> 's) \<Rightarrow> 's
    \<Rightarrow> err option \<times> (nat \<times> 's)" where
  "ReadLog c data visit s = ScanLog data (log_visitor c visit) (0, s)"

section \<open>Appending\<close>

definition appendEvent :: "path \<Rightarrow> event \<Rightarrow> unit io" where
  "appendEvent p e =
     and_then (reads codec_of) (\<lambda>c.
     and_then (lift (EncodeEvent c e)) (\<lambda>d.
     and_then (os_open_create p) (\<lambda>_.
     and_then (os_append p (d @ [newline])) (\<lambda>n.
     and_then (attempt sys) (\<lambda>close_err.
       if n \<noteq> length (d @ [newline]) then raise ShortWrite else lift close_err)))))"

definition Append :: "team_paths \<Rightarrow> event \<Rightarrow> unit io" where
  "Append p e = appendEvent (tp_log p) e"

section \<open>Reading the end of the log\<close>

definition window_start :: "string \<Rightarrow> int \<Rightarrow> nat" where
  "window_start data window = nat (max (int (length data) - window) 0)"

fun after_newline :: "string \<Rightarrow> string option" where
  "after_newline [] = None"
| "after_newline (c # cs) = (if c = newline then Some cs else after_newline cs)"

text \<open>The bytes \<^verbatim>\<open>ReadRecent\<close> scans; \<^term>\<open>None\<close> when the window holds no line break.\<close>

definition recent_bytes :: "string \<Rightarrow> int \<Rightarrow> string option" where
  "recent_bytes data window =
     (let start = window_start data window in
      if start > 0 then after_newline (drop start data) else Some data)"

definition recent_visitor :: "codec \<Rightarrow> (string \<Rightarrow> bool) \<Rightarrow> (event \<Rightarrow> 's \<Rightarrow> err option \<times> 's)
    \<Rightarrow> nat \<Rightarrow> string \<Rightarrow> 's \<Rightarrow> err option \<times> 's" where
  "recent_visitor c keep visit line d s =
     (if \<not> keep d then (None, s)
      else case DecodeEvent c d of
          Inl e \<Rightarrow> if errors_is e UnknownEventType then (None, s) else (Some e, s)
        | Inr e \<Rightarrow> visit e s)"

definition ReadRecent :: "team_paths \<Rightarrow> int \<Rightarrow> (string \<Rightarrow> bool) \<Rightarrow> (event \<Rightarrow> 's \<Rightarrow> err option \<times> 's)
    \<Rightarrow> 's \<Rightarrow> (err option \<times> 's) io" where
  "ReadRecent p window keep visit s =
     and_then (os_read_file (tp_log p)) (\<lambda>f.
     and_then (reads codec_of) (\<lambda>c. case f of
       CBytes data \<Rightarrow> ret (case recent_bytes data window of
           None \<Rightarrow> (None, s)
         | Some bytes \<Rightarrow> ScanLog bytes (recent_visitor c keep visit) s)
     | _ \<Rightarrow> raise IOError))"

section \<open>Complete texts\<close>

definition complete :: "string \<Rightarrow> bool" where
  "complete data \<longleftrightarrow> snd (split_lines data) = ''''"

lemma split_lines_concat: "split_lines data = (ls, r) \<Longrightarrow> concat ls @ r = data"
  by (induction data arbitrary: ls r) (auto split: prod.splits if_splits list.splits)

lemma split_lines_rest: "split_lines data = (ls, r) \<Longrightarrow> newline \<notin> set r"
  by (induction data arbitrary: ls r) (auto split: prod.splits if_splits list.splits)

lemma split_lines_no_newline: "newline \<notin> set r \<Longrightarrow> split_lines r = ([], r)"
  by (induction r) auto

lemma split_lines_line:
  "newline \<notin> set l \<Longrightarrow> split_lines (l @ newline # data) =
     ((l @ [newline]) # fst (split_lines data), snd (split_lines data))"
  by (induction l) (auto split: prod.splits)

lemma split_lines_append:
  assumes "complete a"
  shows "split_lines (a @ b) = (fst (split_lines a) @ fst (split_lines b), snd (split_lines b))"
  using assms
proof (induction "length a" arbitrary: a rule: less_induct)
  case less
  show ?case
  proof (cases "newline \<in> set a")
    case False
    then have "a = ''''" using less.prems by (simp add: complete_def split_lines_no_newline)
    then show ?thesis by simp
  next
    case True
    then obtain l r where a: "a = l @ newline # r" "newline \<notin> set l" by (meson split_list_first)
    then have "complete r" using less.prems by (simp add: complete_def split_lines_line)
    then have "split_lines (r @ b) =
        (fst (split_lines r) @ fst (split_lines b), snd (split_lines b))"
      using a by (intro less.hyps) auto
    then show ?thesis using a(2) by (simp add: a(1) split_lines_line)
  qed
qed

lemma complete_line: "newline \<notin> set l \<Longrightarrow> complete (l @ [newline])"
  by (simp add: complete_def split_lines_line)

lemma complete_append: "complete a \<Longrightarrow> complete b \<Longrightarrow> complete (a @ b)"
  by (simp add: complete_def split_lines_append)

lemma scan_lines_append:
  "scan_lines visit n (ls @ ms) r s = (case scan_lines visit n ls '''' s of
     (Some e, s') \<Rightarrow> (Some e, s') | (None, s') \<Rightarrow> scan_lines visit (n + length ls) ms r s')"
  by (induction ls arbitrary: n s) (auto split: prod.split option.split)

section \<open>The codec's contract\<close>

text \<open>What of an event its JSON tells: the effort of a reading carries the tag \<^verbatim>\<open>json:"-"\<close>.\<close>

definition wire_event :: "event \<Rightarrow> event" where
  "wire_event e = e\<lparr>ev_readings := map persist_reading (ev_readings e)\<rparr>"

text \<open>
  What the log needs of \<^verbatim>\<open>encoding/json\<close> for every event: no raw newline in what it writes.
  And for an event whose record is to be read back (its strings are valid UTF-8, which the
  encoder would otherwise replace): the schema names its type, and its record decodes to what
  the JSON tells of it, with the line break.
\<close>

definition framed_codec :: "codec \<Rightarrow> bool" where
  "framed_codec c \<longleftrightarrow> (\<forall>e d. marshal_event c e = Some d \<longrightarrow> newline \<notin> set d)"

definition reads_back :: "codec \<Rightarrow> event \<Rightarrow> bool" where
  "reads_back c e \<longleftrightarrow> (\<forall>d. marshal_event c e = Some d \<and> schema_ok c d \<longrightarrow>
     header_type c (d @ [newline]) = Some (ev_type e) \<and> known_type c (ev_type e)
     \<and> strict_decode c (d @ [newline]) = Some (wire_event e) \<and> schema_ok c (d @ [newline]))"

lemma encoded_line: "framed_codec c \<Longrightarrow> EncodeEvent c e = Inr d \<Longrightarrow> newline \<notin> set d"
  unfolding framed_codec_def EncodeEvent_def by (auto split: option.splits if_splits)

lemma decode_encoded: "reads_back c e \<Longrightarrow> EncodeEvent c e = Inr d \<Longrightarrow> DecodeEvent c (d @ [newline]) = Inr (wire_event e)"
  unfolding reads_back_def EncodeEvent_def DecodeEvent_def by (auto split: option.splits if_splits)

text \<open>A codec that speaks for one event, to evaluate the theorems on.\<close>

definition demo_codec :: "event \<Rightarrow> codec" where
  "demo_codec e = \<lparr>marshal_event = (\<lambda>x. if x = e then Some ''E'' else None),
     header_type = (\<lambda>d. if d = ''E'' @ [newline] then Some (ev_type e) else None),
     known_type = (\<lambda>t. t = ev_type e),
     strict_decode = (\<lambda>d. if d = ''E'' @ [newline] then Some (wire_event e) else None),
     schema_ok = (\<lambda>d. d = ''E'' \<or> d = ''E'' @ [newline]),
     agent_json = (\<lambda>a. ag_id a), sha256_hex = (\<lambda>s. s)\<rparr>"

lemma demo_codec_lawful: "framed_codec (demo_codec e)" "reads_back (demo_codec e) e"
  by (auto simp: framed_codec_def reads_back_def demo_codec_def newline_def)

text \<open>An event of a context reading that names an effort.\<close>

definition demo_reading_event :: event where
  "demo_reading_event = blank_event\<lparr>ev_readings := [blank_reading\<lparr>rd_kind := ''context'', rd_effort := ''high''\<rparr>]\<rparr>"

section \<open>What an append does to the file\<close>

text \<open>The bytes of the log, empty when the file does not exist.\<close>

definition log_bytes :: "world \<Rightarrow> path \<Rightarrow> string" where
  "log_bytes w p = (case lookup w p of Some (File (CBytes d)) \<Rightarrow> d | _ \<Rightarrow> '''')"

lemma log_bytes_simps [simp]:
  "log_bytes (w\<lparr>faults := bs\<rparr>) p = log_bytes w p"
  "log_bytes (w\<lparr>shorts := ns\<rparr>) p = log_bytes w p"
  "log_bytes (w\<lparr>held := hs\<rparr>) p = log_bytes w p"
  "log_bytes (put q n w) p =
     (if p = q then (case n of File (CBytes d) \<Rightarrow> d | _ \<Rightarrow> '''') else log_bytes w p)"
  by (auto simp: log_bytes_def split: node.split content.split)

definition log_grown :: "codec \<Rightarrow> path \<Rightarrow> event \<Rightarrow> world \<Rightarrow> world \<Rightarrow> bool" where
  "log_grown c p e w w' \<longleftrightarrow>
     (\<forall>q. q \<noteq> p \<longrightarrow> lookup w' q = lookup w q) \<and> held w' = held w \<and> busy w' = busy w
     \<and> now w' = now w \<and> codec_of w' = codec_of w
     \<and> (log_bytes w' p = log_bytes w p
        \<or> (\<exists>d n. EncodeEvent c e = Inr d \<and> log_bytes w' p = log_bytes w p @ take n (d @ [newline])))"

definition log_appended :: "codec \<Rightarrow> path \<Rightarrow> event \<Rightarrow> world \<Rightarrow> world \<Rightarrow> bool" where
  "log_appended c p e w w' \<longleftrightarrow> log_grown c p e w w' \<and>
     (\<exists>d. EncodeEvent c e = Inr d \<and> log_bytes w' p = log_bytes w p @ d @ [newline])"

lemma wp_appendEvent [wp_intro]:
  assumes "\<And>w'. log_appended (codec_of w) p e w w' \<Longrightarrow> Q () w'"
    and "\<And>err w'. log_grown (codec_of w) p e w w' \<Longrightarrow> E err w'"
  shows "wp (appendEvent p e) Q E w"
proof (cases "EncodeEvent (codec_of w) e")
  case (Inl x)
  then show ?thesis by (auto simp: appendEvent_def log_grown_def intro: assms)
next
  case (Inr d)
  have written: "wp (if n \<noteq> length (d @ [newline]) then raise ShortWrite else lift r) Q E w'"
    if "log_bytes w' p = log_bytes w p @ take n (d @ [newline])"
      "\<And>q. q \<noteq> p \<Longrightarrow> lookup w' q = lookup w q"
      "held w' = held w \<and> busy w' = busy w \<and> now w' = now w \<and> codec_of w' = codec_of w"
    for n r w'
  proof -
    have grown: "log_grown (codec_of w) p e w w'" unfolding log_grown_def using that Inr by blast
    moreover have "log_appended (codec_of w) p e w w'" if "n = length (d @ [newline])"
      unfolding log_appended_def using grown Inr that \<open>log_bytes w' p = _\<close> by simp
    ultimately show ?thesis using assms by (cases r) auto
  qed
  have opened: "wp (and_then (os_append p (d @ [newline])) (\<lambda>n. and_then (attempt sys) (\<lambda>close_err.
      if n \<noteq> length (d @ [newline]) then raise ShortWrite else lift close_err))) Q E w'"
    if "log_bytes w' p = log_bytes w p" "\<And>q. q \<noteq> p \<Longrightarrow> lookup w' q = lookup w q"
      "held w' = held w \<and> busy w' = busy w \<and> now w' = now w \<and> codec_of w' = codec_of w"
    for w'
    unfolding wp_simps wp_attempt
    by (intro wp_os_append wp_sys written assms(2))
      (use that in \<open>auto simp: log_grown_def log_bytes_def\<close>)
  show ?thesis
    unfolding appendEvent_def wp_simps Inr sum.case
    by (intro wp_os_open_create opened [unfolded wp_simps] assms(2))
      (auto simp: log_grown_def log_bytes_def split: node.split content.split)
qed

text \<open>A small world to evaluate the theorems on: one team directory and its log.\<close>

definition demo_world :: "codec \<Rightarrow> (path \<times> node) list \<Rightarrow> world" where
  "demo_world c files = \<lparr>fs = files, faults = [], shorts = [], held = [], busy = [],
     now = 5 * second, codec_of = c\<rparr>"

lemma demo_world_simps [simp]:
  "fs (demo_world c files) = files" "faults (demo_world c files) = []"
  "shorts (demo_world c files) = []" "held (demo_world c files) = []"
  "busy (demo_world c files) = []" "now (demo_world c files) = 5 * second"
  "codec_of (demo_world c files) = c"
  by (simp_all add: demo_world_def)

definition demo_team :: team_paths where
  "demo_team = team_of [''t'']"

definition demo_log_world :: "event \<Rightarrow> string \<Rightarrow> nat list \<Rightarrow> world" where
  "demo_log_world e old ns =
     (demo_world (demo_codec e) [([''t''], Dir), ([''t'', ''log.jsonl''], File (CBytes old))])\<lparr>shorts := ns\<rparr>"

lemmas log_run =
  Append_def appendEvent_def and_then_def reads_def lift_def EncodeEvent_def demo_codec_def
  os_open_create_def act_quiet sys_quiet attempt_def os_append_def Let_def lookup_def
  is_dir_def demo_team_def team_of_def demo_log_world_def demo_world_def put_def log_bytes_def
  raise_def

section \<open>Reading what was written\<close>

lemma scan_log_append:
  assumes "complete a"
  shows "ScanLog (a @ b) visit s = (case ScanLog a visit s of
      (Some e, s') \<Rightarrow> (Some e, s')
    | (None, s') \<Rightarrow> scan_lines visit (1 + length (fst (split_lines a)))
        (fst (split_lines b)) (snd (split_lines b)) s')"
proof (cases "split_lines a")
  case (Pair ls r)
  then have "r = ''''" using assms by (simp add: complete_def)
  then show ?thesis
    using Pair split_lines_append [OF assms, of b] 
    by (simp add: ScanLog_def scan_lines_append split: prod.split option.split)
qed

lemma AppendE:
  assumes "Append p e w = (Inr (), w')"
  obtains d where "EncodeEvent (codec_of w) e = Inr d"
    "log_bytes w' (tp_log p) = log_bytes w (tp_log p) @ d @ [newline]"
proof -
  have "wp (Append p e) (\<lambda>_ w'. log_appended (codec_of w) (tp_log p) e w w') (\<lambda>_ _. True) w"
    unfolding Append_def by (rule wp_appendEvent) simp_all
  from wp_okD [OF this assms] show ?thesis using that by (auto simp: log_appended_def)
qed

text \<open>
  C29 (append_reads_back): an event that \<^verbatim>\<open>Append\<close> reports written to a log without a torn
  line is the last record \<^verbatim>\<open>ReadLog\<close> visits: every earlier record is read as before, then
  the visitor gets the appended event, all of it but the efforts of its readings (which the JSON
  leaves out), the number of skipped records is unchanged, and the log again ends in a complete
  line. Of the JSON library it needs that an encoding has no raw newline and that the record of
  this event decodes to what the JSON tells of it.
\<close>

theorem append_reads_back:
  assumes "framed_codec (codec_of w)" "reads_back (codec_of w) e" "complete (log_bytes w (tp_log p))"
    and "Append p e w = (Inr (), w')"
  shows "complete (log_bytes w' (tp_log p)) \<and>
    ReadLog (codec_of w) (log_bytes w' (tp_log p)) visit s =
     (case ReadLog (codec_of w) (log_bytes w (tp_log p)) visit s of
        (Some err, st) \<Rightarrow> (Some err, st)
      | (None, (skipped, s')) \<Rightarrow> (case visit (wire_event e) s' of (r, s'') \<Rightarrow> (r, (skipped, s''))))"
proof -
  obtain d where d: "EncodeEvent (codec_of w) e = Inr d"
    "log_bytes w' (tp_log p) = log_bytes w (tp_log p) @ d @ [newline]"
    using assms(4) by (rule AppendE)
  note line = encoded_line [OF assms(1) d(1)] decode_encoded [OF assms(2) d(1)]
  have "complete (log_bytes w' (tp_log p))"
    unfolding d(2) using assms(3) complete_line [OF line(1)] by (rule complete_append)
  moreover have "split_lines (d @ [newline]) = ([d @ [newline]], '''')"
    using line(1) split_lines_line [of d "''''"] by simp
  ultimately show ?thesis
    unfolding ReadLog_def d(2) scan_log_append [OF assms(3)]
    by (simp add: log_visitor_def line(2) split: prod.split option.split)
qed

theorem append_reads_back_witness:
  "ReadLog (demo_codec demo_reading_event) (''E'' @ [newline]) (\<lambda>e es. (None, e # es)) []
     = (None, (0, [blank_event\<lparr>ev_readings := [blank_reading\<lparr>rd_kind := ''context''\<rparr>]\<rparr>]))"
proof -
  have run: "Append demo_team demo_reading_event (demo_log_world demo_reading_event '''' []) =
      (Inr (), demo_log_world demo_reading_event (''E'' @ [newline]) [])"
    by (simp add: log_run)
  have c: "codec_of (demo_log_world demo_reading_event '''' []) = demo_codec demo_reading_event"
    by (simp add: demo_log_world_def)
  have told: "wire_event demo_reading_event = blank_event\<lparr>ev_readings := [blank_reading\<lparr>rd_kind := ''context''\<rparr>]\<rparr>"
    by (simp add: wire_event_def demo_reading_event_def persist_reading_def blank_reading_def)
  show ?thesis
    using append_reads_back [OF _ _ _ run, of "\<lambda>e es. (None, e # es)" "[]"] demo_codec_lawful
    unfolding c told
    by (simp add: complete_def log_bytes_def lookup_def demo_log_world_def demo_team_def team_of_def
        ReadLog_def ScanLog_def)
qed

text \<open>
  C30 (failed_append_keeps_records): whatever fails in \<^verbatim>\<open>Append\<close>, no earlier record is lost
  or changed. The log is as before, or holds the whole record (only the close failed), or
  ends in a torn line; then a reader still visits every earlier record before it reports the
  incomplete line.
\<close>

theorem failed_append_keeps_records:
  assumes "framed_codec (codec_of w)" "complete (log_bytes w (tp_log p))"
    and "Append p e w = (Inl err, w')"
  shows "log_bytes w' (tp_log p) = log_bytes w (tp_log p)
    \<or> (\<exists>d. EncodeEvent (codec_of w) e = Inr d
          \<and> log_bytes w' (tp_log p) = log_bytes w (tp_log p) @ d @ [newline])
    \<or> ReadLog (codec_of w) (log_bytes w' (tp_log p)) visit s =
        (case ReadLog (codec_of w) (log_bytes w (tp_log p)) visit s of
           (Some e', st) \<Rightarrow> (Some e', st)
         | (None, st) \<Rightarrow> (Some (Fail ''audit line is incomplete''), st))"
proof -
  let ?old = "log_bytes w (tp_log p)" and ?new = "log_bytes w' (tp_log p)"
  have "wp (Append p e) (\<lambda>_ _. True) (\<lambda>_ w'. log_grown (codec_of w) (tp_log p) e w w') w"
    unfolding Append_def by (rule wp_appendEvent) simp_all
  from wp_errD [OF this assms(3)]
  consider "?new = ?old" | d n where "EncodeEvent (codec_of w) e = Inr d"
      "?new = ?old @ take n (d @ [newline])"
    by (auto simp: log_grown_def)
  then show ?thesis
  proof cases
    case 1
    then show ?thesis by simp
  next
    case (2 d n)
    consider "length d < n" | "n = 0" | "0 < n" "n \<le> length d" by linarith
    then show ?thesis
    proof cases
      case 1
      then have "take n (d @ [newline]) = d @ [newline]" by simp
      then show ?thesis using 2 by (intro disjI2 disjI1) auto
    next
      case 2
      then show ?thesis using \<open>?new = _\<close> by simp
    next
      case 3
      have "newline \<notin> set (take n d)"
        using encoded_line [OF assms(1) 2(1)] by (meson in_set_takeD)
      moreover have "take n d \<noteq> ''''" using 3 by (cases d) auto
      ultimately show ?thesis
        unfolding ReadLog_def 2(2) scan_log_append [OF assms(2)] using 3
        by (intro disjI2) (simp add: split_lines_no_newline split: prod.split option.split)
    qed
  qed
qed

theorem failed_append_keeps_records_witness:
  "ReadLog (demo_codec blank_event) ''E'' (\<lambda>e es. (None, e # es)) [] =
     (Some (Fail ''audit line is incomplete''), (0, []))"
proof -
  have run: "Append demo_team blank_event (demo_log_world blank_event '''' [1]) =
      (Inl ShortWrite, demo_log_world blank_event ''E'' [])"
    by (simp add: log_run)
  have c: "codec_of (demo_log_world blank_event '''' [1]) = demo_codec blank_event"
    by (simp add: demo_log_world_def)
  show ?thesis
    using failed_append_keeps_records [OF _ _ run, of "\<lambda>e es. (None, e # es)" "[]"] demo_codec_lawful
    unfolding c
    by (simp add: complete_def log_bytes_def lookup_def demo_log_world_def demo_team_def team_of_def
        ReadLog_def ScanLog_def newline_def)
qed


text \<open>
  C34 (torn_line_swallows_next): \<^verbatim>\<open>Append\<close> does not repair a log that a short write left with
  a torn line. The next successful append continues that line, so its record has no line of
  its own: the last line of the log is the torn bytes followed by the new record.
\<close>

theorem torn_line_swallows_next:
  assumes "framed_codec (codec_of w)" "complete old" "newline \<notin> set torn"
    and "log_bytes w (tp_log p) = old @ torn" "Append p e w = (Inr (), w')"
  shows "\<exists>d. EncodeEvent (codec_of w) e = Inr d \<and>
    split_lines (log_bytes w' (tp_log p)) = (fst (split_lines old) @ [torn @ d @ [newline]], '''')"
proof -
  obtain d where d: "EncodeEvent (codec_of w) e = Inr d"
    "log_bytes w' (tp_log p) = log_bytes w (tp_log p) @ d @ [newline]"
    using assms(5) by (rule AppendE)
  have "newline \<notin> set (torn @ d)" using assms(3) encoded_line [OF assms(1) d(1)] by simp
  from split_lines_line [OF this, of "''''"]
  have "split_lines (log_bytes w' (tp_log p)) = (fst (split_lines old) @ [torn @ d @ [newline]], '''')"
    unfolding d(2) assms(4) using split_lines_append [OF assms(2), of "torn @ d @ [newline]"] by simp
  then show ?thesis using d(1) by blast
qed

theorem torn_line_swallows_next_witness:
  "split_lines (''tornE'' @ [newline]) = ([''tornE'' @ [newline]], '''')"
proof -
  have run: "Append demo_team blank_event (demo_log_world blank_event ''torn'' []) =
      (Inr (), demo_log_world blank_event (''tornE'' @ [newline]) [])"
    by (simp add: log_run)
  show ?thesis
    using torn_line_swallows_next [OF _ _ _ _ run, of "''''" "''torn''"] demo_codec_lawful
    by (simp add: demo_log_world_def complete_def newline_def log_bytes_def lookup_def
        demo_team_def team_of_def EncodeEvent_def demo_codec_def)
qed


lemma after_newline_split: "after_newline xs = Some ys \<Longrightarrow> \<exists>l. newline \<notin> set l \<and> xs = l @ newline # ys"
proof (induction xs)
  case (Cons c cs)
  then show ?case
  proof (cases "c = newline")
    case False
    then obtain l where "newline \<notin> set l" "cs = l @ newline # ys" using Cons by auto
    then show ?thesis using False by (intro exI [of _ "c # l"]) auto
  qed (use Cons in \<open>auto intro: exI [of _ "[]"]\<close>)
qed simp

lemma split_lines_suffix:
  "\<exists>k. fst (split_lines ys) = drop k (fst (split_lines (xs @ newline # ys)))
     \<and> snd (split_lines ys) = snd (split_lines (xs @ newline # ys))"
proof (induction xs)
  case Nil
  show ?case by (intro exI [of _ 1]) (auto split: prod.split)
next
  case (Cons c cs)
  then obtain k where k: "fst (split_lines ys) = drop k (fst (split_lines (cs @ newline # ys)))"
    "snd (split_lines ys) = snd (split_lines (cs @ newline # ys))" by blast
  obtain ls r where s: "split_lines (cs @ newline # ys) = (ls, r)" by fastforce
  have "newline \<in> set (concat ls @ r)" using split_lines_concat [OF s] by simp
  then have "ls \<noteq> []" using split_lines_rest [OF s] by auto
  then obtain l ls' where ls: "ls = l # ls'" by (cases ls) auto
  show ?case
  proof (cases "k = 0")
    case True
    then have "length (concat ls @ r) = length ys"
      using k s split_lines_concat [of ys] by (metis drop0 fst_conv snd_conv surjective_pairing)
    then have False using split_lines_concat [OF s] by simp
    then show ?thesis ..
  next
    case False
    then obtain j where j: "k = Suc j" by (cases k) auto
    show ?thesis
    proof (cases "c = newline")
      case True
      then show ?thesis using k s by (intro exI [of _ "Suc k"]) simp
    next
      case False
      then show ?thesis using k s ls j by (intro exI [of _ k]) simp
    qed
  qed
qed

text \<open>
  \<^verbatim>\<open>ReadRecent\<close> scans whole lines at the end of the log: a suffix
  of its lines, none cut by the window, at most \<^verbatim>\<open>window\<close> bytes in all, and the whole log
  when it fits in the window.
\<close>

theorem recent_is_a_suffix:
  assumes "0 \<le> window" "recent_bytes data window = Some bytes"
  shows "(\<exists>k. fst (split_lines bytes) = drop k (fst (split_lines data)))
    \<and> snd (split_lines bytes) = snd (split_lines data)
    \<and> int (length bytes) \<le> window \<and> (int (length data) \<le> window \<longrightarrow> bytes = data)"
proof (cases "window_start data window = 0")
  case True
  then have "bytes = data" "int (length data) \<le> window"
    using assms by (auto simp: recent_bytes_def window_start_def)
  then show ?thesis by (auto intro: exI [of _ 0])
next
  case False
  then have start: "window_start data window = length data - nat window" "nat window < length data"
    using assms(1) by (auto simp: window_start_def)
  from assms(2) obtain l where l: "drop (length data - nat window) data = l @ newline # bytes"
    using after_newline_split False by (auto simp: recent_bytes_def start split: if_splits)
  then have "length (l @ newline # bytes) = nat window"
    using start(2) by (metis diff_diff_cancel length_drop less_imp_le_nat)
  then have "int (length bytes) \<le> window" by simp
  moreover have "data = (take (length data - nat window) data @ l) @ newline # bytes"
    by (metis l append.assoc append_take_drop_id)
  ultimately show ?thesis using split_lines_suffix start(2) assms(1)
    by (metis leD nat_less_iff zless_nat_eq_int_zless)
qed

theorem recent_is_a_suffix_witness:
  "let data = ''one'' @ [newline] @ ''two'' @ [newline] in
     (\<exists>k. fst (split_lines (''two'' @ [newline])) = drop k (fst (split_lines data)))
     \<and> int (length (''two'' @ [newline])) \<le> 6"
proof -
  have "recent_bytes (''one'' @ [newline] @ ''two'' @ [newline]) 6 = Some (''two'' @ [newline])"
    by (simp add: recent_bytes_def window_start_def newline_def)
  from recent_is_a_suffix [OF _ this] show ?thesis by (simp add: Let_def)
qed


end
