(* ===== verification/Store_Agent.thy ===== *)
theory Store_Agent
  imports Event_Log
begin

text \<open>
  An agent's registration on disk: the exclusive lock (\<^verbatim>\<open>store/lock.go\<close>), the state file with
  its optional display metadata (\<^verbatim>\<open>store/model.go\<close>), and the operations of
  \<^verbatim>\<open>store/store.go\<close> that create, list and rename agents. A handle \<^verbatim>\<open>*LockedAgent\<close> is the
  entry of its lock file in the world's \<^verbatim>\<open>held\<close> list; the entry holds the field
  \<^verbatim>\<open>bound\<close>, \<^term>\<open>None\<close> until the saved state was read.
\<close>

section \<open>Locks (lock.go)\<close>

definition lock :: "bool \<Rightarrow> agent_paths \<Rightarrow> unit io" where
  "lock nonblocking p =
     and_then (act (\<lambda>w. case lookup w (ap_lock p) of
         None \<Rightarrow> Inl NotExist | Some n \<Rightarrow> if n = Dir then Inl IOError else Inr w)) (\<lambda>_.
     and_then (act (\<lambda>w. if ap_lock p \<in> set (busy w) \<union> fst ` set (held w)
         then Inl (if nonblocking then Locked else WouldBlock) else Inr w)) (\<lambda>_.
     and_then (os_stat (ap_state p)) (\<lambda>_.
     updates (\<lambda>w. w\<lparr>held := (ap_lock p, None) # held w\<rparr>))))"

definition TryLock :: "agent_paths \<Rightarrow> unit io" where
  "TryLock p = lock True p"

definition LockAgent :: "agent_paths \<Rightarrow> unit io" where
  "LockAgent p = lock False p"

definition handle :: "agent_paths \<Rightarrow> world \<Rightarrow> string option option" where
  "handle p w = map_of (held w) (ap_lock p)"

definition Held :: "agent_paths \<Rightarrow> world \<Rightarrow> bool" where
  "Held p w \<longleftrightarrow> handle p w \<noteq> None"

definition LockClose :: "agent_paths \<Rightarrow> unit io" where
  "LockClose p =
     and_then (reads (Held p)) (\<lambda>h.
       if \<not> h then ret ()
       else and_then (updates (\<lambda>w. w\<lparr>held := AList.delete (ap_lock p) (held w)\<rparr>)) (\<lambda>_. sys))"

definition set_bound :: "agent_paths \<Rightarrow> string \<Rightarrow> unit io" where
  "set_bound p b = updates (\<lambda>w. w\<lparr>held := AList.update (ap_lock p) (Some b) (held w)\<rparr>)"

section \<open>Display metadata (model.go)\<close>

definition model_path :: "agent_paths \<Rightarrow> path" where
  "model_path p = ap_directory p @ [''model-metadata.json'']"

definition modelStateDigest :: "codec \<Rightarrow> agent \<Rightarrow> string" where
  "modelStateDigest c a = sha256_hex c (agent_json c (persist_agent a) @ [newline])"

definition readModelMetadata :: "agent_paths \<Rightarrow> agent \<Rightarrow> agent io" where
  "readModelMetadata p a =
     and_then (attempt (readJSON as_model (model_path p))) (\<lambda>r.
     and_then (reads codec_of) (\<lambda>c. case r of
       Inl _ \<Rightarrow> ret a
     | Inr m \<Rightarrow>
         if mm_version m \<noteq> 1 then ret a
         else let g = ag_registration a in
         if reg_generation g = '''' \<or> reg_session g = '''' \<or> reg_token_hash g = ''''
            \<or> mm_hitch_id m \<noteq> ag_id a \<or> mm_generation m \<noteq> reg_generation g
            \<or> mm_session m \<noteq> reg_session g \<or> mm_launch_token_hash m \<noteq> reg_token_hash g
         then ret a
         else ret (a\<lparr>ag_configured_model := mm_configured_model m,
                     ag_configured_effort := mm_configured_effort m,
                     ag_native := (ag_native a)\<lparr>nat_effort :=
                       (if mm_state_sha256 m = modelStateDigest c a then mm_observed_effort m
                        else nat_effort (ag_native a))\<rparr>\<rparr>)))"

definition model_metadata_of :: "codec \<Rightarrow> agent \<Rightarrow> model_metadata" where
  "model_metadata_of c a = (let g = ag_registration a in
     \<lparr>mm_version = 1, mm_hitch_id = ag_id a, mm_generation = reg_generation g,
      mm_session = reg_session g, mm_launch_token_hash = reg_token_hash g,
      mm_configured_model = ag_configured_model a, mm_configured_effort = ag_configured_effort a,
      mm_state_sha256 = modelStateDigest c a, mm_observed_effort = nat_effort (ag_native a)\<rparr>)"

definition saveModelState :: "agent_paths \<Rightarrow> agent \<Rightarrow> unit io" where
  "saveModelState p a =
     and_then (reads codec_of) (\<lambda>c.
     and_then (atomicJSON (model_path p) (CModel (model_metadata_of c a))) (\<lambda>_.
     atomicJSON (ap_state p) (CAgent (persist_agent a))))"

section \<open>Saving the state\<close>

definition unbound :: "agent \<Rightarrow> string \<Rightarrow> bool" where
  "unbound a bound \<longleftrightarrow> nat_session_id (ag_native a) \<noteq> '''' \<and> nat_transcript (ag_native a) \<noteq> ''''
     \<and> nat_session_id (ag_native a) \<noteq> bound"

definition binding_event :: "agent \<Rightarrow> string \<Rightarrow> time \<Rightarrow> event" where
  "binding_event a previous t =
     blank_event\<lparr>ev_type := ''session_bound'', ev_at := t, ev_hitch_id := ag_id a, ev_name := ag_name a,
       ev_binding := Some \<lparr>bnd_session_id = nat_session_id (ag_native a),
         bnd_previous_session_id = previous, bnd_collar = ag_collar a,
         bnd_hitched_by = ag_hitched_by a\<rparr>\<rparr>"

definition bind :: "agent_paths \<Rightarrow> agent \<Rightarrow> string \<Rightarrow> unit io" where
  "bind p a previous =
     and_then (reads now) (\<lambda>t. appendEvent (ap_log p) (binding_event a previous t))"

text \<open>The first block of \<^verbatim>\<open>Save\<close>: the binding the log holds for the saved state.\<close>

definition saved_bound :: "agent_paths \<Rightarrow> string io" where
  "saved_bound p =
     and_then (reads (handle p)) (\<lambda>h. case h of
       None \<Rightarrow> raise (Fail ''agent lock is not held'')
     | Some (Some b) \<Rightarrow> ret b
     | Some None \<Rightarrow>
         and_then (readJSON as_agent (ap_state p)) (\<lambda>saved.
           let bound = nat_bound_session (ag_native saved) in
           and_then
             (if unbound saved bound
              then and_then (bind p saved bound) (\<lambda>_. ret (nat_session_id (ag_native saved)))
              else ret bound) (\<lambda>b.
           and_then (set_bound p b) (\<lambda>_. ret b))))"

definition with_bound :: "agent \<Rightarrow> string \<Rightarrow> agent" where
  "with_bound a b = a\<lparr>ag_native := (ag_native a)\<lparr>nat_bound_session := b\<rparr>\<rparr>"

definition Save :: "agent_paths \<Rightarrow> agent \<Rightarrow> unit io" where
  "Save p a =
     and_then (saved_bound p) (\<lambda>b.
     and_then
       (if unbound a b
        then and_then (bind p (with_bound a b) b) (\<lambda>_. ret (with_bound a (nat_session_id (ag_native a))))
        else ret (with_bound a b)) (\<lambda>a'.
     and_then (saveModelState p a') (\<lambda>_.
     set_bound p (nat_bound_session (ag_native a')))))"

section \<open>Reading, creating, listing and renaming (store.go)\<close>

definition ReadAgent :: "agent_paths \<Rightarrow> agent io" where
  "ReadAgent p =
     and_then (readJSON as_agent (ap_state p)) (\<lambda>a.
       if ag_id a \<noteq> last (ap_directory p) \<or> ag_name a = '''' \<or> ag_collar a = ''''
       then raise (Fail ''invalid agent identity'')
       else readModelMetadata p a)"

definition create_body :: "team_paths \<Rightarrow> agent_paths \<Rightarrow> agent \<Rightarrow> unit io" where
  "create_body p ap a0 =
     (let a = with_bound a0 '''' in
     and_then (for_each (\<lambda>n. os_mkdir_all (ap_inbox ap @ [n])) [''tmp'', ''new'', ''cur'', ''failed'']) (\<lambda>_.
     and_then (os_create_excl (ap_lock ap) (CBytes '''')) (\<lambda>_.
     and_then sys (\<lambda>_.
     and_then (atomicJSON (ap_state ap) (CAgent (persist_agent a))) (\<lambda>_.
     and_then (TryLock ap) (\<lambda>_.
     and_then (attempt (ClaimName p (ag_name a) (ag_id a))) (\<lambda>r. case r of
       Inl e \<Rightarrow> and_then (attempt (LockClose ap)) (\<lambda>_. raise e)
     | Inr _ \<Rightarrow>
         and_then (set_bound ap '''') (\<lambda>_.
         and_then (attempt (Save ap a)) (\<lambda>s. case s of
           Inr _ \<Rightarrow> ret ()
         | Inl e \<Rightarrow>
             and_then (attempt (LockClose ap)) (\<lambda>_.
             and_then (attempt (RemoveName p (ag_name a) (ag_id a))) (\<lambda>q.
               raise (Joined (e # (case q of Inl e' \<Rightarrow> [e'] | Inr _ \<Rightarrow> []))))))))))))))"

definition CreateAgent :: "team_paths \<Rightarrow> agent \<Rightarrow> agent_paths io" where
  "CreateAgent p a =
     and_then (Agent p (ag_id a)) (\<lambda>ap.
     and_then (os_mkdir (ap_directory ap)) (\<lambda>_.
     and_then (attempt (create_body p ap a)) (\<lambda>r. case r of
       Inr _ \<Rightarrow> ret ap
     | Inl e \<Rightarrow> and_then (attempt (os_remove_all (ap_directory ap))) (\<lambda>_. raise e))))"

fun list_entries :: "bool \<Rightarrow> team_paths \<Rightarrow> (string \<times> bool) list \<Rightarrow> agent list \<Rightarrow> int
    \<Rightarrow> (agent list \<times> int) io" where
  "list_entries partial p [] agents failed = ret (agents, failed)"
| "list_entries partial p ((n, is_directory) # es) agents failed =
     (if \<not> is_directory then list_entries partial p es agents failed
      else and_then (Agent p n) (\<lambda>ap.
      and_then (attempt (ReadAgent ap)) (\<lambda>r. case r of
        Inl e \<Rightarrow>
          if errors_is e NotExist then list_entries partial p es agents failed
          else if partial then list_entries partial p es agents (failed + 1)
          else raise e
      | Inr a \<Rightarrow>
          and_then (attempt (ResolveName p (ag_name a))) (\<lambda>q. case q of
            Inl e \<Rightarrow> if errors_is e NotExist then list_entries partial p es agents failed else raise e
          | Inr i \<Rightarrow> list_entries partial p es (if i = ag_id a then agents @ [a] else agents) failed))))"

definition name_less :: "agent \<Rightarrow> agent \<Rightarrow> bool" where
  "name_less a b \<longleftrightarrow> ag_name a < ag_name b"

definition listAgents :: "bool \<Rightarrow> team_paths \<Rightarrow> (agent list \<times> int) io" where
  "listAgents partial p =
     and_then (attempt (os_read_dir (tp_agents p))) (\<lambda>r. case r of
       Inl e \<Rightarrow> if errors_is e NotExist then ret ([], 0) else raise e
     | Inr entries \<Rightarrow>
         and_then (list_entries partial p entries [] 0) (\<lambda>(agents, failed).
           ret (sort_slice name_less agents, failed)))"

definition ListAgents :: "team_paths \<Rightarrow> agent list io" where
  "ListAgents p = and_then (listAgents False p) (\<lambda>(agents, _). ret agents)"

definition ListAgentsForRoster :: "team_paths \<Rightarrow> (agent list \<times> int) io" where
  "ListAgentsForRoster p = listAgents True p"

text \<open>
  \<^verbatim>\<open>FinishRename\<close> changes the caller's record on every path, also when it returns an
  error; the result is the error and that record.
\<close>

definition end_rename :: "agent \<Rightarrow> agent" where
  "end_rename a = a\<lparr>ag_rename_from := '''', ag_rename_to := ''''\<rparr>"

definition rename_owner :: "team_paths \<Rightarrow> agent \<Rightarrow> (err + hitch_id) io" where
  "rename_owner p a =
     and_then (attempt (ResolveName p (ag_rename_to a))) (\<lambda>r.
       if (case r of Inl e \<Rightarrow> errors_is e NotExist | Inr _ \<Rightarrow> False)
       then and_then (attempt (ClaimName p (ag_rename_to a) (ag_id a))) (\<lambda>c.
         ret (case c of Inl e \<Rightarrow> Inl e | Inr _ \<Rightarrow> Inr (ag_id a)))
       else ret r)"

definition FinishRename :: "team_paths \<Rightarrow> agent_paths \<Rightarrow> agent \<Rightarrow> (err option \<times> agent) io" where
  "FinishRename p l a =
     (if ag_rename_to a = '''' then ret (None, a)
      else and_then (rename_owner p a) (\<lambda>r.
        if (case r of Inl e \<Rightarrow> errors_is e NameTaken | Inr i \<Rightarrow> i \<noteq> ag_id a)
        then and_then (attempt (Save l (end_rename a))) (\<lambda>s.
          ret (Some (case s of Inl e \<Rightarrow> e | Inr _ \<Rightarrow> NameTaken), end_rename a))
        else case r of
          Inl e \<Rightarrow> ret (Some e, a)
        | Inr _ \<Rightarrow> (let a1 = a\<lparr>ag_name := ag_rename_to a\<rparr> in
            and_then (attempt (Save l a1)) (\<lambda>s. case s of
              Inl e \<Rightarrow> ret (Some e, a1)
            | Inr _ \<Rightarrow> and_then (attempt (RemoveName p (ag_rename_from a1) (ag_id a1))) (\<lambda>q. case q of
                Inl e \<Rightarrow> ret (Some e, a1)
              | Inr _ \<Rightarrow> and_then (attempt (Save l (end_rename a1))) (\<lambda>t.
                  ret (case t of Inl e \<Rightarrow> Some e | Inr _ \<Rightarrow> None, end_rename a1)))))))"

section \<open>What the operations change\<close>

lemma handle_simps [simp]:
  "handle p (w\<lparr>faults := bs\<rparr>) = handle p w" "handle p (w\<lparr>shorts := ns\<rparr>) = handle p w"
  "handle p (put q n w) = handle p w" "handle p (del q w) = handle p w"
  "handle p (w\<lparr>held := AList.update (ap_lock p) h hs\<rparr>) = Some h"
  by (simp_all add: handle_def update_conv')

lemma held_eq_handle: "held w' = held w \<Longrightarrow> handle p w' = handle p w"
  by (simp add: handle_def)

text \<open>The log of a world extends the log of an earlier one and nothing else changed.\<close>

definition log_extended :: "path \<Rightarrow> world \<Rightarrow> world \<Rightarrow> bool" where
  "log_extended l w w' \<longleftrightarrow> changed_only {l} w w' \<and> prefix (log_bytes w l) (log_bytes w' l)"

lemma log_extended_refl [simp]: "log_extended l w w"
  by (simp add: log_extended_def)

lemma log_extended_trans: "log_extended l u v \<Longrightarrow> log_extended l v w \<Longrightarrow> log_extended l u w"
  unfolding log_extended_def by (auto intro: changed_only_trans)

lemma log_extended_simps [simp]:
  "log_extended l w (w'\<lparr>faults := bs\<rparr>) = log_extended l w w'"
  "log_extended l w (w'\<lparr>held := hs\<rparr>) = log_extended l w w'"
  "log_extended l (w\<lparr>faults := bs\<rparr>) w' = log_extended l w w'"
  by (simp_all add: log_extended_def)

lemma log_grown_extended: "log_grown c l e w w' \<Longrightarrow> log_extended l w w' \<and> held w' = held w"
  by (auto simp: log_grown_def log_extended_def changed_only_def)

text \<open>
  The log holds a \<^verbatim>\<open>session_bound\<close> record of a hitch for a session; with \<^theory_text>\<open>whole\<close>,
  the record is a line of its own, not the end of a torn one.
\<close>

definition logged :: "bool \<Rightarrow> path \<Rightarrow> hitch_id \<Rightarrow> string \<Rightarrow> world \<Rightarrow> bool" where
  "logged whole l h s w \<longleftrightarrow> (\<exists>pre d post e b. log_bytes w l = pre @ d @ newline # post
     \<and> (whole \<longrightarrow> complete pre \<and> newline \<notin> set d)
     \<and> EncodeEvent (codec_of w) e = Inr d \<and> ev_type e = ''session_bound'' \<and> ev_hitch_id e = h
     \<and> ev_binding e = Some b \<and> bnd_session_id b = s)"

text \<open>With \<^theory_text>\<open>whole\<close>: no earlier append was torn.\<close>

definition clean_log :: "bool \<Rightarrow> path \<Rightarrow> world \<Rightarrow> bool" where
  "clean_log whole l w \<longleftrightarrow> (whole \<longrightarrow> framed_codec (codec_of w) \<and> complete (log_bytes w l))"

lemma logged_simps [simp]:
  "logged k l h s (w\<lparr>faults := bs\<rparr>) = logged k l h s w" "logged k l h s (w\<lparr>held := hs\<rparr>) = logged k l h s w"
  "clean_log k l (w\<lparr>faults := bs\<rparr>) = clean_log k l w" "clean_log k l (w\<lparr>held := hs\<rparr>) = clean_log k l w"
  by (simp_all add: logged_def clean_log_def)

lemma logged_mono: "logged k l h s w \<Longrightarrow> log_extended l w w' \<Longrightarrow> logged k l h s w'"
  unfolding logged_def log_extended_def changed_only_def prefix_def by (elim exE conjE) auto

lemma wp_bind [wp_intro]:
  assumes "\<And>w'. log_extended (ap_log p) w w' \<Longrightarrow> held w' = held w \<Longrightarrow>
      (\<forall>k. clean_log k (ap_log p) w \<longrightarrow> clean_log k (ap_log p) w' \<and> logged k (ap_log p) (ag_id a) (nat_session_id (ag_native a)) w') \<Longrightarrow> Q () w'"
    and "\<And>err w'. log_extended (ap_log p) w w' \<Longrightarrow> held w' = held w \<Longrightarrow> E err w'"
  shows "wp (bind p a previous) Q E w"
proof -
  let ?e = "binding_event a previous (now w)"
  have e: "ev_type ?e = ''session_bound''" "ev_hitch_id ?e = ag_id a"
      "\<exists>b. ev_binding ?e = Some b \<and> bnd_session_id b = nat_session_id (ag_native a)"
    by (simp_all add: binding_event_def)
  have "clean_log k (ap_log p) w' \<and> logged k (ap_log p) (ag_id a) (nat_session_id (ag_native a)) w'"
    if app: "log_appended (codec_of w) (ap_log p) ?e w w'" and clean: "clean_log k (ap_log p) w" for k w'
  proof -
    obtain d where d: "EncodeEvent (codec_of w) ?e = Inr d" "codec_of w' = codec_of w"
      "log_bytes w' (ap_log p) = log_bytes w (ap_log p) @ d @ [newline]"
      using app by (auto simp: log_appended_def log_grown_def)
    have line: "k \<longrightarrow> complete (log_bytes w (ap_log p)) \<and> newline \<notin> set d"
      using clean encoded_line d(1) by (auto simp: clean_log_def)
    have "clean_log k (ap_log p) w'"
      using clean d(2,3) line split_lines_append [of "log_bytes w (ap_log p)" "d @ [newline]"] split_lines_line [of d "''''"]
      by (auto simp: clean_log_def complete_def)
    moreover note line
    ultimately show ?thesis
      using e d unfolding logged_def
      by (intro conjI exI [of _ "log_bytes w (ap_log p)"] exI [of _ d] exI [of _ "''''"] exI [of _ ?e]) auto
  qed
  then show ?thesis
    unfolding bind_def wp_simps
    by (intro wp_appendEvent assms) (auto simp: log_appended_def dest: log_grown_extended)
qed

text \<open>The paths an agent's operations write are different files.\<close>

definition proper :: "agent_paths \<Rightarrow> bool" where
  "proper p \<longleftrightarrow> ap_log p \<noteq> ap_state p \<and> ap_log p \<noteq> model_path p \<and> ap_state p \<noteq> model_path p"

lemma agent_of_plain:
  assumes "plain_segment i"
  shows "ap_directory (agent_of (team_of d) i) = d @ [''agents'', i]"
    "ap_state (agent_of (team_of d) i) = d @ [''agents'', i, ''agent.json'']"
    "ap_lock (agent_of (team_of d) i) = d @ [''agents'', i, ''lock'']"
    "ap_inbox (agent_of (team_of d) i) = d @ [''agents'', i, ''inbox'']"
    "ap_log (agent_of (team_of d) i) = d @ [''log.jsonl'']"
    "model_path (agent_of (team_of d) i) = d @ [''agents'', i, ''model-metadata.json'']"
    "proper (agent_of (team_of d) i)"
  using assms by (simp_all add: agent_of_def team_of_def Let_def model_path_def proper_def)

definition binding_known :: "agent_paths \<Rightarrow> world \<Rightarrow> string \<Rightarrow> world \<Rightarrow> bool" where
  "binding_known p w b w' \<longleftrightarrow> handle p w = Some (Some b) \<or>
     (\<exists>saved. handle p w = Some None \<and> lookup w (ap_state p) = Some (File (CAgent saved))
        \<and> (if unbound saved (nat_bound_session (ag_native saved))
           then b = nat_session_id (ag_native saved) \<and> (\<forall>k. clean_log k (ap_log p) w \<longrightarrow> logged k (ap_log p) (ag_id saved) b w')
           else b = nat_bound_session (ag_native saved)))"

lemma wp_saved_bound [wp_intro]:
  assumes "\<And>b w'. log_extended (ap_log p) w w' \<Longrightarrow> handle p w' = Some (Some b) \<Longrightarrow>
      binding_known p w b w' \<Longrightarrow> (\<forall>k. clean_log k (ap_log p) w \<longrightarrow> clean_log k (ap_log p) w') \<Longrightarrow> Q b w'"
    and "\<And>e w'. log_extended (ap_log p) w w' \<Longrightarrow> handle p w' = handle p w \<Longrightarrow> E e w'"
  shows "wp (saved_bound p) Q E w"
proof -
  consider "handle p w = None" | b where "handle p w = Some (Some b)" | "handle p w = Some None"
    by (cases "handle p w") auto
  then show ?thesis
  proof cases
    case 3
    show ?thesis
      unfolding saved_bound_def wp_simps 3 option.case
    proof (intro wp_readJSON)
      fix bs c and saved :: agent
      let ?n = "ag_native saved"
      assume "lookup w (ap_state p) = Some (File c)" "as_agent c = Some saved"
      then have saved: "lookup w (ap_state p) = Some (File (CAgent saved))"
        by (cases c) (simp_all add: as_agent_def)
      have "wp (if unbound saved (nat_bound_session ?n)
            then and_then (bind p saved (nat_bound_session ?n)) (\<lambda>_. ret (nat_session_id ?n))
            else ret (nat_bound_session ?n))
          (\<lambda>b w'. log_extended (ap_log p) w w' \<and> binding_known p w b w' \<and> (\<forall>k. clean_log k (ap_log p) w \<longrightarrow> clean_log k (ap_log p) w'))
          (\<lambda>e w'. log_extended (ap_log p) w w' \<and> handle p w' = handle p w) (w\<lparr>faults := bs\<rparr>)"
        using 3 saved by (auto intro!: wp_bind simp: binding_known_def dest: held_eq_handle [of _ _ p])
      then have "wp (and_then (if unbound saved (nat_bound_session ?n)
            then and_then (bind p saved (nat_bound_session ?n)) (\<lambda>_. ret (nat_session_id ?n))
            else ret (nat_bound_session ?n)) (\<lambda>b. and_then (set_bound p b) (\<lambda>_. ret b))) Q E
          (w\<lparr>faults := bs\<rparr>)"
        unfolding wp_simps set_bound_def wp_updates
        by (rule wp_mono) (use 3 assms(2) in \<open>auto simp: binding_known_def intro!: assms(1)\<close>)
      then show "wp (let bound = nat_bound_session ?n in
          and_then (if unbound saved bound
            then and_then (bind p saved bound) (\<lambda>_. ret (nat_session_id ?n)) else ret bound)
           (\<lambda>b. and_then (set_bound p b) (\<lambda>_. ret b))) Q E (w\<lparr>faults := bs\<rparr>)"
        by (simp only: Let_def)
    next
      fix bs e
      show "E e (w\<lparr>faults := bs\<rparr>)" by (rule assms(2)) simp_all
    qed
  qed (auto simp: saved_bound_def binding_known_def intro!: assms)
qed

lemma wp_saveModelState [wp_intro]:
  assumes "\<And>w'. changed_only {ap_state p, model_path p} w w' \<Longrightarrow> held w' = held w \<Longrightarrow>
      lookup w' (ap_state p) = Some (File (CAgent (persist_agent a))) \<Longrightarrow> Q () w'"
    and "\<And>e w'. changed_only {model_path p} w w' \<Longrightarrow> held w' = held w \<Longrightarrow> E e w'"
  shows "wp (saveModelState p a) Q E w"
  unfolding saveModelState_def wp_simps
  by (intro wp_atomicJSON assms) (auto intro!: changed_only_put)

definition session_of :: "agent \<Rightarrow> string" where
  "session_of a = nat_session_id (ag_native a)"

definition reported :: "agent \<Rightarrow> bool" where
  "reported a \<longleftrightarrow> session_of a \<noteq> '''' \<and> nat_transcript (ag_native a) \<noteq> ''''"

lemma unbound_iff: "unbound a b \<longleftrightarrow> reported a \<and> session_of a \<noteq> b"
  by (auto simp: unbound_def reported_def session_of_def)

definition bound_after :: "agent \<Rightarrow> string \<Rightarrow> string" where
  "bound_after a b = (if unbound a b then session_of a else b)"

lemma wp_Save:
  assumes "proper p"
    and "\<And>b w'. changed_only {ap_log p, ap_state p, model_path p} w w' \<Longrightarrow>
      prefix (log_bytes w (ap_log p)) (log_bytes w' (ap_log p)) \<Longrightarrow>
      lookup w' (ap_state p) = Some (File (CAgent (persist_agent (with_bound a (bound_after a b))))) \<Longrightarrow>
      handle p w' = Some (Some (bound_after a b)) \<Longrightarrow> binding_known p w b w' \<Longrightarrow>
      (\<forall>k. clean_log k (ap_log p) w \<longrightarrow> clean_log k (ap_log p) w' \<and> (unbound a b \<longrightarrow> logged k (ap_log p) (ag_id a) (session_of a) w')) \<Longrightarrow> Q () w'"
    and "\<And>e w'. changed_only {ap_log p, model_path p} w w' \<Longrightarrow>
      prefix (log_bytes w (ap_log p)) (log_bytes w' (ap_log p)) \<Longrightarrow>
      handle p w' = handle p w \<or> (\<exists>b. handle p w' = Some (Some b) \<and> binding_known p w b w') \<Longrightarrow> E e w'"
  shows "wp (Save p a) Q E w"
proof -
  let ?l = "ap_log p"
  have other: "log_bytes v ?l = log_bytes u ?l \<and> (\<forall>k. (logged k ?l h s u \<longrightarrow> logged k ?l h s v) \<and> clean_log k ?l v = clean_log k ?l u)"
    if "changed_only {ap_state p, model_path p} u v" for u v h s
    using that assms(1) unfolding changed_only_def logged_def clean_log_def log_bytes_def proper_def by simp
  have known: "binding_known p w b u \<Longrightarrow> (\<And>k h s. logged k ?l h s u \<longrightarrow> logged k ?l h s v) \<Longrightarrow> binding_known p w b v"
    for b u v unfolding binding_known_def if_bool_eq_conj by blast
  have finish: "wp (and_then (saveModelState p (with_bound a (bound_after a b)))
      (\<lambda>_. set_bound p (nat_bound_session (ag_native (with_bound a (bound_after a b)))))) Q E u"
    if u: "log_extended ?l w u" "handle p u = Some (Some b)" "binding_known p w b u"
      "\<forall>k. clean_log k ?l w \<longrightarrow> clean_log k ?l u \<and> (unbound a b \<longrightarrow> logged k ?l (ag_id a) (session_of a) u)" for b u
    unfolding wp_simps set_bound_def wp_updates
  proof (rule wp_saveModelState)
    fix v assume v: "changed_only {ap_state p, model_path p} u v" "held v = held u"
      "lookup v (ap_state p) = Some (File (CAgent (persist_agent (with_bound a (bound_after a b)))))"
    show "Q () (v\<lparr>held := AList.update (ap_lock p)
        (Some (nat_bound_session (ag_native (with_bound a (bound_after a b))))) (held v)\<rparr>)"
      using u other [OF v(1)] v
      by (intro assms(2) [of _ b])
        (auto simp: log_extended_def with_bound_def intro: changed_only_trans known)
  next
    fix e v assume v: "changed_only {model_path p} u v" "held v = held u"
    then have "changed_only {ap_state p, model_path p} u v" by (auto intro: changed_only_mono)
    from other [OF this] show "E e v"
      using u v held_eq_handle [OF v(2), of p]
      by (intro assms(3)) (auto simp: log_extended_def intro: changed_only_trans known)
  qed
  have bound: "wp (and_then (if unbound a b
        then and_then (bind p (with_bound a b) b) (\<lambda>_. ret (with_bound a (nat_session_id (ag_native a))))
        else ret (with_bound a b))
      (\<lambda>a'. and_then (saveModelState p a') (\<lambda>_. set_bound p (nat_bound_session (ag_native a'))))) Q E u"
    if u: "log_extended ?l w u" "handle p u = Some (Some b)" "binding_known p w b u" "\<forall>k. clean_log k ?l w \<longrightarrow> clean_log k ?l u" for b u
  proof (cases "unbound a b")
    case False
    then have "bound_after a b = b" by (simp add: bound_after_def)
    then show ?thesis using finish [OF u(1-3)] u(4) False by simp
  next
    case True
    then have s: "bound_after a b = nat_session_id (ag_native a)"
      by (simp add: bound_after_def session_of_def)
    have keep: "binding_known p w b v" if "log_extended ?l u v" for v
      using known [OF u(3)] logged_mono that by blast
    show ?thesis
      unfolding if_P [OF True] wp_simps
    proof (rule wp_bind)
      fix v assume v: "log_extended ?l u v" "held v = held u"
        "\<forall>k. clean_log k ?l u \<longrightarrow> clean_log k ?l v \<and> logged k ?l (ag_id (with_bound a b)) (nat_session_id (ag_native (with_bound a b))) v"
      then have "wp (and_then (saveModelState p (with_bound a (bound_after a b)))
          (\<lambda>_. set_bound p (nat_bound_session (ag_native (with_bound a (bound_after a b)))))) Q E v"
        using u held_eq_handle [OF v(2), of p]
        by (intro finish keep) (auto intro: log_extended_trans simp: with_bound_def session_of_def)
      then show "wp (saveModelState p (with_bound a (nat_session_id (ag_native a))))
         (\<lambda>x. wp (set_bound p (nat_bound_session (ag_native
            (with_bound a (nat_session_id (ag_native a)))))) Q E) E v"
        unfolding s wp_simps .
    next
      fix e v assume v: "log_extended ?l u v" "held v = held u"
      have "log_extended ?l w v" using u(1) v(1) by (rule log_extended_trans)
      then show "E e v"
        using u held_eq_handle [OF v(2), of p] keep [OF v(1)]
        by (intro assms(3)) (auto simp: log_extended_def intro: changed_only_mono)
    qed
  qed
  show ?thesis
    unfolding Save_def
    by (subst wp_simps(5), rule wp_saved_bound, rule bound)
      (auto simp: log_extended_def intro!: assms(3) intro: changed_only_mono)
qed

section \<open>Every session stays in the log\<close>

text \<open>
  The invariant of an agent's bindings: what the state and the handle call bound is in the
  log, and a handle that has read the state knows the session the state reports.
\<close>

definition bound_ok :: "bool \<Rightarrow> hitch_id \<Rightarrow> agent_paths \<Rightarrow> world \<Rightarrow> bool" where
  "bound_ok k i p w \<longleftrightarrow>
     (\<forall>a. lookup w (ap_state p) = Some (File (CAgent a)) \<longrightarrow> ag_id a = i
        \<and> (nat_bound_session (ag_native a) \<noteq> '''' \<longrightarrow> logged k (ap_log p) i (nat_bound_session (ag_native a)) w))
     \<and> (\<forall>b. handle p w = Some (Some b) \<longrightarrow> (b \<noteq> '''' \<longrightarrow> logged k (ap_log p) i b w)
        \<and> (\<forall>a. lookup w (ap_state p) = Some (File (CAgent a)) \<and> reported a \<longrightarrow> session_of a = b))"

lemma persist_agent_simps [simp]:
  "ag_id (persist_agent a) = ag_id a" "ag_name (persist_agent a) = ag_name a"
  "ag_collar (persist_agent a) = ag_collar a"
  "ag_rename_from (persist_agent a) = ag_rename_from a" "ag_rename_to (persist_agent a) = ag_rename_to a"
  "session_of (persist_agent a) = session_of a" "reported (persist_agent a) = reported a"
  "nat_bound_session (ag_native (persist_agent a)) = nat_bound_session (ag_native a)"
  by (simp_all add: persist_agent_def persist_native_def session_of_def reported_def)

lemma with_bound_simps [simp]:
  "ag_id (with_bound a b) = ag_id a" "ag_name (with_bound a b) = ag_name a"
  "ag_collar (with_bound a b) = ag_collar a"
  "ag_rename_from (with_bound a b) = ag_rename_from a" "ag_rename_to (with_bound a b) = ag_rename_to a"
  "session_of (with_bound a b) = session_of a" "reported (with_bound a b) = reported a"
  "nat_bound_session (ag_native (with_bound a b)) = b"
  by (simp_all add: with_bound_def session_of_def reported_def)

lemma logged_extends:
  assumes "changed_only ps w w'" "prefix (log_bytes w l) (log_bytes w' l)"
  shows "logged k l h s w \<Longrightarrow> logged k l h s w'"
  using assms unfolding logged_def changed_only_def prefix_def by (elim exE conjE) auto

lemma binding_known_logged:
  assumes "bound_ok k i p w" "clean_log k (ap_log p) w" "binding_known p w b w'"
    and "\<And>s. logged k (ap_log p) i s w \<Longrightarrow> logged k (ap_log p) i s w'"
  shows "b \<noteq> '''' \<Longrightarrow> logged k (ap_log p) i b w'"
    and "lookup w (ap_state p) = Some (File (CAgent a)) \<Longrightarrow> reported a \<Longrightarrow> session_of a = b"
  using assms unfolding binding_known_def bound_ok_def
  by (auto simp: unbound_iff session_of_def split: if_splits)

text \<open>
  C21 (save_never_misses_binding): whatever fails in \<^verbatim>\<open>Save\<close> on a log without a torn line, the
  binding invariant of the hitch holds after it and the log only grows. When the save replaces a
  state that reported a native session, the log has a \<^verbatim>\<open>session_bound\<close> record of that
  session under this hitch's ID, on a line of its own; a successful save leaves such a record of
  the session it reports, and again no torn line. So the log names every session a hitch held.
\<close>

theorem save_never_misses_binding:
  fixes a :: agent
  assumes "plain_segment i" "p = agent_of (team_of d) i" "ag_id a = i"
    and "clean_log True (ap_log p) w" "bound_ok True i p w" "Save p a w = (r, w')"
  shows "bound_ok True i p w' \<and> prefix (log_bytes w (ap_log p)) (log_bytes w' (ap_log p))
    \<and> (\<forall>old. lookup w (ap_state p) = Some (File (CAgent old)) \<and> reported old
         \<and> lookup w' (ap_state p) \<noteq> lookup w (ap_state p) \<longrightarrow> logged True (ap_log p) i (session_of old) w')
    \<and> (r = Inr () \<longrightarrow> clean_log True (ap_log p) w' \<and> (reported a \<longrightarrow> logged True (ap_log p) i (session_of a) w'))"
    (is "?goal r w'")
proof -
  have p: "proper p" using assms(1,2) agent_of_plain by simp
  have "wp (Save p a) (\<lambda>x. ?goal (Inr x)) (\<lambda>e. ?goal (Inl e)) w"
  proof (rule wp_Save [OF p])
    fix b u
    let ?s = "bound_after a b"
    assume u: "changed_only {ap_log p, ap_state p, model_path p} w u"
      "prefix (log_bytes w (ap_log p)) (log_bytes u (ap_log p))"
      "lookup u (ap_state p) = Some (File (CAgent (persist_agent (with_bound a ?s))))"
      "handle p u = Some (Some ?s)" "binding_known p w b u"
      "\<forall>k. clean_log k (ap_log p) w \<longrightarrow> clean_log k (ap_log p) u \<and> (unbound a b \<longrightarrow> logged k (ap_log p) (ag_id a) (session_of a) u)"
    note keep = logged_extends [OF u(1,2)]
    note known = binding_known_logged [OF assms(5,4) u(5) keep]
    have new: "clean_log True (ap_log p) u" "unbound a b \<longrightarrow> logged True (ap_log p) i (session_of a) u" using u(6) assms(3,4) by simp_all
    have "?s \<noteq> '''' \<longrightarrow> logged True (ap_log p) i ?s u" using new(2) known(1) by (simp add: bound_after_def)
    moreover have "reported a \<longrightarrow> session_of a = ?s" by (simp add: bound_after_def unbound_iff)
    moreover have "reported a \<longrightarrow> ?s \<noteq> ''''" using calculation(2) by (auto simp: reported_def)
    moreover have "reported old \<Longrightarrow> lookup w (ap_state p) = Some (File (CAgent old)) \<Longrightarrow>
        logged True (ap_log p) i (session_of old) u" for old
      using known by (metis reported_def)
    ultimately show "?goal (Inr ()) u"
      using u(2,3,4) assms(3) new(1) unfolding bound_ok_def by auto
  next
    fix e u
    assume u: "changed_only {ap_log p, model_path p} w u"
      "prefix (log_bytes w (ap_log p)) (log_bytes u (ap_log p))"
      "handle p u = handle p w \<or> (\<exists>b. handle p u = Some (Some b) \<and> binding_known p w b u)"
    note keep = logged_extends [OF u(1,2)]
    have same: "lookup u (ap_state p) = lookup w (ap_state p)"
      using u(1) p by (auto simp: proper_def changed_only_def)
    from u(3) have "bound_ok True i p u"
    proof
      assume "handle p u = handle p w"
      then show ?thesis using assms(5) same keep by (auto simp: bound_ok_def)
    next
      assume "\<exists>b. handle p u = Some (Some b) \<and> binding_known p w b u"
      then obtain b where b: "handle p u = Some (Some b)" "binding_known p w b u" by blast
      note known = binding_known_logged [OF assms(5,4) b(2) keep]
      then show ?thesis using b assms(5) same keep by (auto simp: bound_ok_def)
    qed
    then show "?goal (Inl e) u" using same u(2) by simp
  qed
  then show ?thesis using assms(6) by (auto simp: wp_def split: sum.splits)
qed

text \<open>A world with one registered agent whose lock is held by an unread handle.\<close>

definition demo_hitch :: agent where
  "demo_hitch = blank_agent\<lparr>ag_id := ''h1'', ag_name := ''scout'', ag_collar := ''claude''\<rparr>"

definition demo_session :: agent where
  "demo_session = demo_hitch\<lparr>ag_native := blank_native\<lparr>nat_session_id := ''s1'', nat_transcript := ''t''\<rparr>\<rparr>"

definition demo_paths :: agent_paths where
  "demo_paths = agent_of (team_of [''t'']) ''h1''"

lemma plain_h1: "plain_segment ''h1''"
  by (simp add: plain_segment_def separator_def)

lemma demo_paths_simps [simp]:
  "ap_state demo_paths = [''t'', ''agents'', ''h1'', ''agent.json'']"
  "ap_lock demo_paths = [''t'', ''agents'', ''h1'', ''lock'']"
  "ap_log demo_paths = [''t'', ''log.jsonl'']"
  "ap_directory demo_paths = [''t'', ''agents'', ''h1'']"
  "ap_inbox demo_paths = [''t'', ''agents'', ''h1'', ''inbox'']"
  "model_path demo_paths = [''t'', ''agents'', ''h1'', ''model-metadata.json'']"
  using agent_of_plain [OF plain_h1, of "[''t'']"] by (simp_all add: demo_paths_def)

definition demo_tree :: "agent \<Rightarrow> (path \<times> node) list" where
  "demo_tree a =
     [([''t''], Dir), ([''t'', ''names''], Dir), ([''t'', ''agents''], Dir),
      ([''t'', ''agents'', ''h1''], Dir), ([''t'', ''agents'', ''h1'', ''lock''], File (CBytes '''')),
      ([''t'', ''agents'', ''h1'', ''agent.json''], File (CAgent a)),
      ([''t'', ''names'', ''scout''], Link ''h1'')]"

definition demo_hitch_world :: "event \<Rightarrow> agent \<Rightarrow> string option \<Rightarrow> world" where
  "demo_hitch_world e a b = (demo_world (demo_codec e) (demo_tree a))\<lparr>held := [(ap_lock demo_paths, b)]\<rparr>"

lemma demo_hitch_world_simps [simp]:
  "faults (demo_hitch_world e a b) = []" "shorts (demo_hitch_world e a b) = []"
  "now (demo_hitch_world e a b) = 5 * second" "codec_of (demo_hitch_world e a b) = demo_codec e"
  "lookup (demo_hitch_world e a b) q = map_of (demo_tree a) q"
  "handle demo_paths (demo_hitch_world e a b) = Some b"
  by (simp_all add: demo_hitch_world_def lookup_def handle_def)

definition demo_binding :: event where
  "demo_binding = binding_event demo_session '''' (5 * second)"

lemma demo_save:
  "fst (Save demo_paths demo_session (demo_hitch_world demo_binding demo_hitch None)) = Inr ()"
proof -
  have e: "EncodeEvent (demo_codec demo_binding) (binding_event (with_bound demo_session '''') '''' 5000000000) = Inr ''E''"
    by (simp add: EncodeEvent_def demo_codec_def demo_binding_def binding_event_def with_bound_def)
  have u: "\<not> unbound demo_hitch ''''" "unbound demo_session ''''" "nat_bound_session (ag_native demo_hitch) = ''''"
    by (simp_all add: unbound_def demo_hitch_def demo_session_def blank_agent_def blank_native_def)
  show ?thesis
    by (simp add: Save_def saved_bound_def and_then_def reads_def readJSON_quiet demo_tree_def as_agent_def
        Let_def u ret_def set_bound_def updates_def bind_def appendEvent_def e lift_def os_open_create_def
        act_quiet is_dir_def sys_quiet os_append_def attempt_def saveModelState_def atomicJSON_quiet)
qed

theorem save_never_misses_binding_witness:
  "logged True [''t'', ''log.jsonl''] ''h1'' ''s1''
     (snd (Save demo_paths demo_session (demo_hitch_world demo_binding demo_hitch None)))"
proof -
  let ?w = "demo_hitch_world demo_binding demo_hitch None"
  have run: "Save demo_paths demo_session ?w = (Inr (), snd (Save demo_paths demo_session ?w))"
    using demo_save by (simp add: prod_eq_iff)
  have ok: "bound_ok True ''h1'' demo_paths ?w"
    by (simp add: bound_ok_def demo_tree_def demo_hitch_def blank_agent_def blank_native_def)
  have "reported demo_session" "session_of demo_session = ''s1''"
    by (simp_all add: reported_def session_of_def demo_session_def)
  moreover have "ag_id demo_session = ''h1''" by (simp add: demo_session_def demo_hitch_def)
  moreover have "clean_log True (ap_log demo_paths) ?w"
    using demo_codec_lawful(1) by (simp add: clean_log_def complete_def log_bytes_def demo_tree_def)
  ultimately show ?thesis using save_never_misses_binding [OF plain_h1 demo_paths_def _ _ ok run] by simp
qed

section \<open>Names\<close>

lemma wp_check_segment [wp_intro]:
  assumes "segment v \<Longrightarrow> Q () w" and "E (Fail ''invalid state path segment'') w"
  shows "wp (check_segment v) Q E w"
  using assms by (simp add: check_segment_def)

lemma wp_ResolveName [wp_intro]:
  assumes "\<And>bs i. lookup w (name_path p name) = Some (Link i) \<Longrightarrow> Q i (w\<lparr>faults := bs\<rparr>)"
    and "\<And>bs e. (errors_is e NotExist \<Longrightarrow> lookup w (name_path p name) = None) \<Longrightarrow>
      \<not> errors_is e NameTaken \<Longrightarrow> E e (w\<lparr>faults := bs\<rparr>)"
  shows "wp (ResolveName p name) Q E w"
proof -
  have fail: "E (Fail m) (w\<lparr>faults := bs\<rparr>)" for m bs by (rule assms(2)) simp_all
  have "E (Fail m) w" for m using fail [of m "faults w"] by simp
  then show ?thesis
    unfolding ResolveName_def os_readlink_def wp_simps
    by (intro wp_check_segment wp_sys)
      (auto simp: wp_def check_segment_def ret_def raise_def intro!: assms fail
        split: option.split node.split)
qed

lemma wp_ClaimName [wp_intro]:
  assumes "\<And>bs. lookup w (name_path p name) = None \<Longrightarrow>
      Q () ((put (name_path p name) (Link i) w)\<lparr>faults := bs\<rparr>)"
    and "\<And>bs e. (errors_is e NameTaken \<Longrightarrow> lookup w (name_path p name) \<noteq> None) \<Longrightarrow>
      \<not> errors_is e NotExist \<or> lookup w (name_path p name) = None \<Longrightarrow> E e (w\<lparr>faults := bs\<rparr>)"
  shows "wp (ClaimName p name i) Q E w"
proof -
  have fail: "E (Fail m) (w\<lparr>faults := bs\<rparr>)" for m bs by (rule assms(2)) simp_all
  have "E (Fail m) w" for m using fail [of m "faults w"] by simp
  then show ?thesis
    unfolding ClaimName_def os_symlink_def wp_simps wp_attempt
    by (intro wp_check_segment wp_act) (auto intro!: assms fail split: if_splits)
qed

lemma wp_RemoveName [wp_intro]:
  assumes "\<And>bs. name = '''' \<or> lookup w (name_path p name) \<noteq> Some (Link i) \<Longrightarrow> Q () (w\<lparr>faults := bs\<rparr>)"
    and "\<And>bs. lookup w (name_path p name) = Some (Link i) \<Longrightarrow>
      Q () ((del (name_path p name) w)\<lparr>faults := bs\<rparr>)"
    and "\<And>bs e. E e (w\<lparr>faults := bs\<rparr>)"
  shows "wp (RemoveName p name i) Q E w"
proof (cases "name = ''''")
  case True
  then show ?thesis using assms(1) [of "faults w"] by (simp add: RemoveName_def)
next
  case False
  show ?thesis
    unfolding RemoveName_def if_not_P [OF False] wp_simps wp_attempt
    by (intro wp_ResolveName) (auto intro!: assms wp_os_remove)
qed

lemma name_path_team [simp]: "name_path (team_of d) n = d @ ''names'' # components n"
  by (simp add: name_path_def join_path_def team_of_def)

section \<open>The roster\<close>

text \<open>Agent \<^term>\<open>n\<close> is registered under a name that resolves to it.\<close>

definition owns :: "team_paths \<Rightarrow> world \<Rightarrow> hitch_id \<Rightarrow> agent_name \<Rightarrow> bool" where
  "owns p w n name \<longleftrightarrow> (\<exists>a :: agent. lookup w (ap_state (agent_of p n)) = Some (File (CAgent a))
     \<and> ag_id a = n \<and> ag_name a = name \<and> lookup w (name_path p name) = Some (Link n))"

lemma wp_readModelMetadata [wp_intro]:
  assumes "\<And>bs a'. ag_id a' = ag_id a \<Longrightarrow> ag_name a' = ag_name a \<Longrightarrow> Q a' (w\<lparr>faults := bs\<rparr>)"
  shows "wp (readModelMetadata p a) Q E w"
  unfolding readModelMetadata_def wp_simps wp_attempt
  by (intro wp_readJSON) (auto simp: Let_def intro!: assms)

lemma wp_ReadAgent [wp_intro]:
  assumes "\<And>bs (s :: agent) a. lookup w (ap_state p) = Some (File (CAgent s)) \<Longrightarrow> ag_id a = ag_id s \<Longrightarrow>
      ag_name a = ag_name s \<Longrightarrow> ag_id s = last (ap_directory p) \<Longrightarrow> Q a (w\<lparr>faults := bs\<rparr>)"
    and "\<And>bs e. (errors_is e NotExist \<Longrightarrow> lookup w (ap_state p) = None) \<Longrightarrow> E e (w\<lparr>faults := bs\<rparr>)"
  shows "wp (ReadAgent p) Q E w"
  unfolding ReadAgent_def wp_simps
proof (intro wp_readJSON)
  fix bs c and s :: agent
  assume "lookup w (ap_state p) = Some (File c)" "as_agent c = Some s"
  then have s: "lookup w (ap_state p) = Some (File (CAgent s))"
    by (cases c) (simp_all add: as_agent_def)
  show "wp (if ag_id s \<noteq> last (ap_directory p) \<or> ag_name s = '''' \<or> ag_collar s = ''''
      then raise (Fail ''invalid agent identity'') else readModelMetadata p s) Q E (w\<lparr>faults := bs\<rparr>)"
    using s by (auto intro!: assms wp_readModelMetadata)
qed (auto intro!: assms)

definition listed :: "team_paths \<Rightarrow> world \<Rightarrow> (string \<times> bool) list \<Rightarrow> (hitch_id \<times> agent_name) set" where
  "listed p w es = {(n, name). (n, True) \<in> set es \<and> owns p w n name}"

lemma listed_simps [simp]:
  "listed p w [] = {}" "listed p (w\<lparr>faults := bs\<rparr>) es = listed p w es"
  by (simp_all add: listed_def owns_def)

lemma listed_Cons:
  "listed p w ((n, is_directory) # es) = (if is_directory then {(n, name) |name. owns p w n name} else {}) \<union> listed p w es"
  by (auto simp: listed_def)

lemma owns_unique: "owns p w n name \<Longrightarrow> owns p w n name' \<Longrightarrow> name = name'"
  and owns_owner: "owns p w n name \<Longrightarrow> owns p w m name \<Longrightarrow> n = m"
  unfolding owns_def by (elim exE conjE, simp)+

abbreviation ident :: "agent \<Rightarrow> hitch_id \<times> agent_name" where
  "ident a \<equiv> (ag_id a, ag_name a)"

lemma wp_list_entries:
  assumes "\<forall>n \<in> fst ` set es. plain_segment n" "distinct (map fst es)"
  shows "wp (list_entries False (team_of d) es agents failed)
    (\<lambda>(as, k) w'. \<exists>bs new. w' = w\<lparr>faults := bs\<rparr> \<and> k = failed \<and> as = agents @ new
       \<and> ident ` set new = listed (team_of d) w es \<and> distinct (map ag_id new)) (\<lambda>_ _. True) w"
    (is "wp _ (?Q agents w es) _ w")
  using assms
proof (induction es arbitrary: agents w)
  case Nil
  show ?case by (auto intro!: exI [of _ "faults w"])
next
  case (Cons e es)
  obtain n is_directory where e: "e = (n, is_directory)" by (cases e)
  let ?p = "team_of d"
  have skip: "wp (list_entries False ?p es agents failed) (?Q agents w (e # es)) (\<lambda>_ _. True) (w\<lparr>faults := bs\<rparr>)"
    if none: "is_directory \<longrightarrow> (\<forall>name. \<not> owns ?p w n name)" for bs
  proof -
    have "listed ?p w (e # es) = listed ?p w es" using none by (auto simp: e listed_Cons)
    then show ?thesis
      using Cons.IH [of agents "w\<lparr>faults := bs\<rparr>"] Cons.prems by (auto elim!: wp_mono)
  qed
  have take: "wp (list_entries False ?p es (agents @ [a]) failed) (?Q agents w (e # es)) (\<lambda>_ _. True) (w\<lparr>faults := bs\<rparr>)"
    if owned: "is_directory" "ag_id a = n" "owns ?p w n (ag_name a)" for a bs
  proof -
    have "wp (list_entries False ?p es (agents @ [a]) failed) (?Q (agents @ [a]) w es) (\<lambda>_ _. True) (w\<lparr>faults := bs\<rparr>)"
      using Cons.IH [of "agents @ [a]" "w\<lparr>faults := bs\<rparr>"] Cons.prems by simp
    then show ?thesis
    proof (rule wp_mono)
      fix x w' assume "?Q (agents @ [a]) w es x w'"
      then obtain new bs' where new: "fst x = agents @ a # new" "snd x = failed" "w' = w\<lparr>faults := bs'\<rparr>"
        "ident ` set new = listed ?p w es" "distinct (map ag_id new)" by auto
      have "listed ?p w (e # es) = ident ` set (a # new)"
        using owned owns_unique new(4) by (auto simp: e listed_Cons)
      moreover have "n \<notin> ag_id ` set new"
      proof
        assume "n \<in> ag_id ` set new"
        then obtain b where "b \<in> set new" "ag_id b = n" by auto
        then have "(n, ag_name b) \<in> listed ?p w es" using new(4) by auto
        then have "n \<in> set (map fst es)" by (force simp: listed_def)
        then show False using Cons.prems by (simp add: e)
      qed
      ultimately show "?Q agents w (e # es) x w'"
        using new owned(2) by (cases x) (auto intro!: exI [of _ bs'] exI [of _ "a # new"])
    qed simp
  qed
  have plain: "plain_segment n" "segment n" using Cons.prems(1) segment_iff by (auto simp: e)
  show ?case
  proof (cases is_directory)
    case False
    then show ?thesis using skip [of "faults w"] by (simp add: e)
  next
    case True
    have last: "last (ap_directory (agent_of ?p n)) = n" using agent_of_plain(1) [OF plain(1)] by simp
    have agent: "Agent ?p n = ret (agent_of ?p n)"
      using plain(2) by (auto simp: Agent_def check_segment_def and_then_def ret_def)
    have resolve: "wp (and_then (attempt (ResolveName ?p (ag_name a))) (\<lambda>q. case q of
          Inl e' \<Rightarrow> if errors_is e' NotExist then list_entries False ?p es agents failed else raise e'
        | Inr i \<Rightarrow> list_entries False ?p es (if i = ag_id a then agents @ [a] else agents) failed))
        (?Q agents w (e # es)) (\<lambda>_ _. True) (w\<lparr>faults := bs\<rparr>)"
      if s: "lookup w (ap_state (agent_of ?p n)) = Some (File (CAgent s))" "ag_id s = n"
        "ag_id a = ag_id s" "ag_name a = ag_name s" for s a bs
    proof -
      have owns: "owns ?p w n name \<longleftrightarrow> name = ag_name a \<and> lookup w (name_path ?p (ag_name a)) = Some (Link n)"
        for name using s by (auto simp: owns_def)
      show ?thesis
        unfolding wp_simps wp_attempt
      proof (rule wp_ResolveName, goal_cases)
        case (1 bs' i)
        then show ?case using take [of a bs'] skip [of bs'] True s(2,3) owns by (cases "i = n") simp_all
      next
        case (2 bs' e')
        then show ?case using skip [of bs'] owns by simp
      qed
    qed
    show ?thesis
      unfolding e list_entries.simps agent wp_simps(1,5) wp_attempt
        if_not_P [of "\<not> is_directory", unfolded not_not, OF True]
    proof (rule wp_ReadAgent, goal_cases)
      case (1 bs s a)
      then show ?case using resolve [of s a bs] last by (simp add: e)
    next
      case (2 bs e')
      then show ?case using skip [of bs] by (auto simp: e owns_def)
    qed
  qed
qed

interpretation by_name: comparator name_less ag_name
  by unfold_locales (auto simp: name_less_def)

text \<open>
  C27 (roster_exact): a successful \<^verbatim>\<open>ListAgents\<close> returns, in strictly increasing order of
  their names, exactly the agents whose directory holds a state file under its own ID and
  whose name resolves to that ID, and it changes no file. An agent whose name another
  agent owns is not listed, and no registered agent is left out.
\<close>

theorem roster_exact:
  assumes "\<forall>n \<in> set (children w (tp_agents p)). plain_segment n" "p = team_of d"
    and "lookup w (tp_agents p) = Some Dir" "ListAgents p w = (Inr as, w')"
  shows "sorted_wrt (\<lambda>a b. ag_name a < ag_name b) as
    \<and> (\<lambda>a. (ag_id a, ag_name a)) ` set as
        = {(n, name). lookup w (tp_agents p @ [n]) = Some Dir \<and> owns p w n name}
    \<and> lookup w' = lookup w"
    (is "?goal as w'")
proof -
  let ?es = "map (\<lambda>n. (n, lookup w (tp_agents p @ [n]) = Some Dir)) (children w (tp_agents p))"
  have keys: "map fst ?es = children w (tp_agents p)" by (simp add: comp_def)
  have listed: "listed p w ?es = {(n, name). lookup w (tp_agents p @ [n]) = Some Dir \<and> owns p w n name}"
    by (auto simp: listed_def set_children)
  have entries: "wp (list_entries False p ?es [] 0) (\<lambda>x w'. ?goal (sort_slice name_less (fst x)) w')
      (\<lambda>_ _. True) (w\<lparr>faults := bs\<rparr>)" for bs
  proof -
    have "wp (list_entries False p ?es [] 0)
        (\<lambda>(as, k) w'. \<exists>bs' new. w' = w\<lparr>faults := bs\<rparr>\<lparr>faults := bs'\<rparr> \<and> k = 0 \<and> as = [] @ new
           \<and> ident ` set new = listed p (w\<lparr>faults := bs\<rparr>) ?es \<and> distinct (map ag_id new))
        (\<lambda>_ _. True) (w\<lparr>faults := bs\<rparr>)"
      unfolding assms(2)
      by (rule wp_list_entries) (use assms(1,2) keys distinct_children in auto)
    then show ?thesis
    proof (rule wp_mono)
      fix x v
      assume "(\<lambda>(as, k) w'. \<exists>bs' new. w' = w\<lparr>faults := bs\<rparr>\<lparr>faults := bs'\<rparr> \<and> k = 0 \<and> as = [] @ new
           \<and> ident ` set new = listed p (w\<lparr>faults := bs\<rparr>) ?es \<and> distinct (map ag_id new)) x v"
      then obtain new bs' where new: "fst x = new" "v = w\<lparr>faults := bs'\<rparr>"
        "ident ` set new = listed p w ?es" "distinct (map ag_id new)" by auto
      have own: "owns p w (ag_id a) (ag_name a)" if "a \<in> set new" for a
        using that new(3) listed by (auto simp: set_eq_iff image_iff)
      have "inj_on ag_name (set new)"
      proof (rule inj_onI)
        fix a b assume ab: "a \<in> set new" "b \<in> set new" "ag_name a = ag_name b"
        then have "ag_id a = ag_id b" using own [of a] own [of b] owns_owner by metis
        then show "a = b" using new(4) ab by (simp add: distinct_map inj_on_def)
      qed
      then have "distinct (map ag_name new)" using new(4) by (simp add: distinct_map)
      then have "sorted_wrt name_less (sort_slice name_less new)" by (rule by_name.sorted_sort_slice)
      then show "?goal (sort_slice name_less (fst x)) v"
        using new listed by (simp add: name_less_def [abs_def] fun_eq_iff)
    qed simp
  qed
  have "wp (ListAgents p) ?goal (\<lambda>_ _. True) w"
    unfolding ListAgents_def listAgents_def wp_simps wp_attempt
  proof (rule wp_os_read_dir, goal_cases)
    case (1 bs)
    show ?case
      unfolding sum.case wp_simps
    proof (rule wp_mono [OF entries])
      fix x v assume "?goal (sort_slice name_less (fst x)) v"
      then show "wp (case x of (agents, failed) \<Rightarrow> ret (sort_slice name_less agents, failed))
          (\<lambda>x. wp (case x of (agents, uu) \<Rightarrow> ret agents) ?goal (\<lambda>_ _. True)) (\<lambda>_ _. True) v"
        by (cases x) (simp only: prod.case fst_conv wp_simps)
    qed simp
  next
    case (2 bs e)
    then show ?case using assms(3) by (cases "errors_is e NotExist") simp_all
  qed
  from wp_okD [OF this assms(4)] show ?thesis .
qed

theorem roster_exact_witness:
  "(\<lambda>a. (ag_id a, ag_name a)) ` set (case fst (ListAgents (team_of [''t'']) (demo_hitch_world demo_binding demo_hitch None))
      of Inr as \<Rightarrow> as | Inl _ \<Rightarrow> []) = {(''h1'', ''scout'')}"
proof -
  let ?p = "team_of [''t'']" and ?w = "demo_hitch_world demo_binding demo_hitch None"
  have kids: "children ?w [''t'', ''agents''] = [''h1'']"
    by (simp add: children_def demo_hitch_world_def demo_tree_def)
  have agents: "tp_agents ?p = [''t'', ''agents'']" by (simp add: team_of_def)
  have id: "ag_id demo_hitch = ''h1''" "ag_name demo_hitch = ''scout''" "ag_collar demo_hitch = ''claude''"
    "reg_generation (ag_registration demo_hitch) = ''''"
    by (simp_all add: demo_hitch_def blank_agent_def blank_registration_def)
  have segments: "segment ''h1''" "segment ''scout''"
    by (simp_all add: segment_iff plain_segment_def separator_def)
  have names: "name_path ?p ''scout'' = [''t'', ''names'', ''scout'']"
    using components_plain [of "''scout''"] by (simp add: plain_segment_def separator_def)
  have "\<exists>as. ListAgents ?p ?w = (Inr as, ?w)"
    by (simp add: ListAgents_def listAgents_def and_then_def attempt_def os_read_dir_def sys_quiet kids agents
        demo_tree_def Agent_def check_segment_def segments demo_paths_def [symmetric] ReadAgent_def
        readJSON_quiet as_agent_def id readModelMetadata_def reads_def ResolveName_def os_readlink_def
        names ret_def del: name_path_team)
  then obtain as where run: "ListAgents ?p ?w = (Inr as, ?w)" ..
  have "(\<lambda>a. (ag_id a, ag_name a)) ` set as
      = {(n, name). lookup ?w (tp_agents ?p @ [n]) = Some Dir \<and> owns ?p ?w n name}"
    using roster_exact [OF _ refl _ run] plain_h1 by (simp add: kids agents demo_tree_def)
  also have "\<dots> = {(''h1'', ''scout'')}"
    by (auto simp: agents demo_tree_def owns_def demo_paths_def [symmetric] id names simp del: name_path_team)
  finally show ?thesis using run by simp
qed

section \<open>Renaming\<close>

text \<open>The saved state carries a name that resolves to the agent.\<close>

definition resolvable :: "team_paths \<Rightarrow> agent_paths \<Rightarrow> hitch_id \<Rightarrow> world \<Rightarrow> bool" where
  "resolvable p l i w \<longleftrightarrow> (\<exists>s :: agent. lookup w (ap_state l) = Some (File (CAgent s))
     \<and> lookup w (name_path p (ag_name s)) = Some (Link i))"

definition others_keep_names :: "team_paths \<Rightarrow> hitch_id \<Rightarrow> world \<Rightarrow> world \<Rightarrow> bool" where
  "others_keep_names p i w w' \<longleftrightarrow> (\<forall>n j. j \<noteq> i \<and> lookup w (name_path p n) = Some (Link j) \<longrightarrow>
     lookup w' (name_path p n) = Some (Link j))"

lemma wp_Save_names:
  fixes a :: agent
  assumes "plain_segment i" "l = agent_of (team_of d) i"
    and "\<And>(s :: agent) w'. (\<forall>n. lookup w' (name_path (team_of d) n) = lookup w (name_path (team_of d) n)) \<Longrightarrow>
      lookup w' (ap_state l) = Some (File (CAgent s)) \<Longrightarrow> ag_name s = ag_name a \<Longrightarrow>
      ag_rename_to s = ag_rename_to a \<Longrightarrow> Q () w'"
    and "\<And>e w'. (\<forall>n. lookup w' (name_path (team_of d) n) = lookup w (name_path (team_of d) n)) \<Longrightarrow>
      lookup w' (ap_state l) = lookup w (ap_state l) \<Longrightarrow> E e w'"
  shows "wp (Save l a) Q E w"
proof (rule wp_Save)
  note paths = agent_of_plain [OF assms(1), of d, folded assms(2)]
  show "proper l" using paths by simp
  fix b w'
  assume w': "changed_only {ap_log l, ap_state l, model_path l} w w'"
    "lookup w' (ap_state l) = Some (File (CAgent (persist_agent (with_bound a (bound_after a b)))))"
  show "Q () w'" by (rule assms(3) [OF _ w'(2)]) (use w'(1) in \<open>auto simp: changed_only_def paths\<close>)
next
  note paths = agent_of_plain [OF assms(1), of d, folded assms(2)]
  fix e w'
  assume "changed_only {ap_log l, model_path l} w w'"
  then show "E e w'" by (intro assms(4)) (auto simp: changed_only_def paths)
qed

lemma components_inj_plain: "plain_segment m \<Longrightarrow> plain_segment n \<Longrightarrow> components m = components n \<longleftrightarrow> m = n"
  by (simp add: components_plain)

definition renaming :: "agent \<Rightarrow> bool" where
  "renaming a \<longleftrightarrow> ag_rename_from a \<noteq> ag_rename_to a \<and> plain_segment (ag_rename_from a)
     \<and> plain_segment (ag_rename_to a) \<and> (ag_name a = ag_rename_from a \<or> ag_name a = ag_rename_to a)"

lemma wp_rename_owner:
  assumes "\<And>r w'. (\<forall>q. q \<noteq> name_path p (ag_rename_to a) \<or> lookup w q \<noteq> None \<longrightarrow> lookup w' q = lookup w q) \<Longrightarrow>
      (\<forall>i. r = Inr i \<longrightarrow> lookup w' (name_path p (ag_rename_to a)) = Some (Link i)) \<Longrightarrow> Q r w'"
  shows "wp (rename_owner p a) Q E w"
  unfolding rename_owner_def wp_simps wp_attempt
proof (rule wp_ResolveName, goal_cases)
  case (1 bs i)
  then show ?case by (auto intro!: assms simp del: name_path_team)
next
  case (2 bs e)
  then show ?case by (auto intro!: assms wp_ClaimName simp del: name_path_team)
qed

definition rename_complete :: "team_paths \<Rightarrow> agent_paths \<Rightarrow> agent \<Rightarrow> agent \<Rightarrow> world \<Rightarrow> bool" where
  "rename_complete p l a a' w \<longleftrightarrow> ag_name a' = ag_rename_to a \<and> ag_rename_to a' = ''''
     \<and> lookup w (name_path p (ag_rename_to a)) = Some (Link (ag_id a))
     \<and> lookup w (name_path p (ag_rename_from a)) \<noteq> Some (Link (ag_id a))
     \<and> (\<exists>s :: agent. lookup w (ap_state l) = Some (File (CAgent s))
          \<and> ag_name s = ag_rename_to a \<and> ag_rename_to s = '''')"

text \<open>
  C25 (rename_keeps_name): \<^verbatim>\<open>FinishRename\<close> on the saved record of an interrupted or a new
  rename, whatever fails in it, leaves a saved state whose name resolves to the agent, and
  no other agent's name changes. When it returns no error the rename is complete: the
  record and the saved state carry the new name, it resolves to the agent, the old name
  does not, and the rename is cleared.
\<close>

theorem rename_keeps_name:
  fixes a a' :: agent
  assumes "plain_segment i" "l = agent_of (team_of d) i" "p = team_of d" "ag_id a = i"
    and "renaming a" "lookup w (ap_state l) = Some (File (CAgent a))"
    and "lookup w (name_path p (ag_name a)) = Some (Link i)"
    and "FinishRename p l a w = (Inr (err, a'), w')"
  shows "resolvable p l i w' \<and> others_keep_names p i w w'
    \<and> (err = None \<longrightarrow> rename_complete p l a a' w')"
proof -
  note paths = agent_of_plain [OF assms(1), of d, folded assms(2)]
  let ?to = "name_path p (ag_rename_to a)" and ?from = "name_path p (ag_rename_from a)"
  let ?a1 = "a\<lparr>ag_name := ag_rename_to a\<rparr>"
  define kept where "kept v \<longleftrightarrow> resolvable p l i v \<and> others_keep_names p i w v" for v
  define goal where "goal = (\<lambda>(err :: err option, b) v. kept v \<and> (err = None \<longrightarrow> rename_complete p l a b v))"
  have failed: "goal (Some e, b) v" if "kept v" for e b v using that by (simp add: goal_def)
  have names: "ag_rename_to a \<noteq> ''''" "?from \<noteq> ?to" "ag_name a = ag_rename_from a \<or> ag_name a = ag_rename_to a"
    using assms(5) components_inj_plain unfolding renaming_def assms(3)
    by (auto simp: plain_segment_def)
  have state: "ap_state l \<noteq> name_path p n" for n by (simp add: paths assms(3))
  have same: "kept v" if "kept u" "\<forall>n. lookup v (name_path p n) = lookup u (name_path p n)"
    "lookup v (ap_state l) = lookup u (ap_state l)" for u v
    using that by (simp add: kept_def resolvable_def others_keep_names_def)
  have resaved: "kept v" if "kept u" "\<forall>n. lookup v (name_path p n) = lookup u (name_path p n)"
    "lookup v (ap_state l) = Some (File (CAgent s))" "lookup u (name_path p (ag_name s)) = Some (Link i)"
    for u v and s :: agent
    using that by (auto simp: kept_def resolvable_def others_keep_names_def)
  have save: "wp (attempt (Save l x)) R E u"
    if "\<And>(s :: agent) v. \<forall>n. lookup v (name_path p n) = lookup u (name_path p n) \<Longrightarrow>
        lookup v (ap_state l) = Some (File (CAgent s)) \<Longrightarrow> ag_name s = ag_name x \<Longrightarrow>
        ag_rename_to s = ag_rename_to x \<Longrightarrow> R (Inr ()) v"
      "\<And>e v. \<forall>n. lookup v (name_path p n) = lookup u (name_path p n) \<Longrightarrow>
        lookup v (ap_state l) = lookup u (ap_state l) \<Longrightarrow> R (Inl e) v" for R E u and x :: agent
    unfolding wp_attempt using that unfolding assms(3) by (rule wp_Save_names [OF assms(1,2)])
  have clear: "wp (and_then (attempt (Save l (end_rename ?a1))) (\<lambda>t.
      ret (case t of Inl e \<Rightarrow> Some e | Inr _ \<Rightarrow> None, end_rename ?a1))) goal E u"
    if u: "kept u" "lookup u ?to = Some (Link i)" "lookup u ?from \<noteq> Some (Link i)" for u E
    unfolding wp_simps
  proof (rule save, goal_cases)
    case (1 s v)
    then have "kept v" using u(2) by (intro resaved [OF u(1)]) (auto simp: end_rename_def)
    then show ?case using 1 u assms(4) by (auto simp: goal_def rename_complete_def end_rename_def)
  next
    case (2 e v)
    then show ?case using same [OF u(1)] failed by simp
  qed
  have finish: "wp (and_then (attempt (Save l ?a1)) (\<lambda>s. case s of
        Inl e \<Rightarrow> ret (Some e, ?a1)
      | Inr _ \<Rightarrow> and_then (attempt (RemoveName p (ag_rename_from ?a1) (ag_id ?a1))) (\<lambda>q. case q of
          Inl e \<Rightarrow> ret (Some e, ?a1)
        | Inr _ \<Rightarrow> and_then (attempt (Save l (end_rename ?a1))) (\<lambda>t.
            ret (case t of Inl e \<Rightarrow> Some e | Inr _ \<Rightarrow> None, end_rename ?a1))))) goal E u"
    if u: "kept u" "lookup u ?to = Some (Link i)" for u E
    unfolding wp_simps(5)
  proof (rule save, goal_cases)
    case (1 s v)
    then have v: "kept v" "lookup v ?to = Some (Link i)" using u(2) by (auto intro: resaved [OF u(1)])
    have s: "lookup v (ap_state l) = Some (File (CAgent s))" "ag_name s = ag_rename_to a"
      using 1 by simp_all
    have removed: "kept ((del ?from v)\<lparr>faults := bs\<rparr>)" if at: "lookup v ?from = Some (Link i)" for bs
    proof -
      have "resolvable p l i ((del ?from v)\<lparr>faults := bs\<rparr>)"
        unfolding resolvable_def using s v(2) state names(2) by (intro exI [of _ s]) simp
      moreover have "others_keep_names p i w ((del ?from v)\<lparr>faults := bs\<rparr>)"
        using v(1) at unfolding kept_def others_keep_names_def by auto
      ultimately show ?thesis by (simp add: kept_def)
    qed
    have id: "ag_rename_from ?a1 = ag_rename_from a" "ag_id ?a1 = i" using assms(4) by simp_all
    have keep: "kept (v\<lparr>faults := bs\<rparr>)" for bs by (rule same [OF v(1)]) simp_all
    have old: "ag_rename_from a \<noteq> ''''" using assms(5) by (simp add: renaming_def plain_segment_def)
    show ?case
      unfolding sum.case id wp_simps(5) wp_attempt
    proof (rule wp_RemoveName, goal_cases)
      case (1 bs)
      then show ?case
        unfolding sum.case using v(2) old keep by (intro clear [unfolded wp_simps(5) wp_attempt sum.case]) simp_all
    next
      case (2 bs)
      then show ?case
        unfolding sum.case using v(2) names(2) removed by (intro clear [unfolded wp_simps(5) wp_attempt sum.case]) simp_all
    next
      case (3 bs e)
      show ?case using failed keep by simp
    qed
  next
    case (2 e v)
    then show ?case using same [OF u(1)] failed by simp
  qed
  have start: "kept w"
    using assms(6,7) by (auto simp: kept_def resolvable_def others_keep_names_def)
  have "wp (FinishRename p l a) goal (\<lambda>_ _. True) w"
    unfolding FinishRename_def if_not_P [OF names(1)] wp_simps(5)
  proof (rule wp_rename_owner)
    fix r :: "err + hitch_id" and v
    assume v: "\<forall>q. q \<noteq> ?to \<or> lookup w q \<noteq> None \<longrightarrow> lookup v q = lookup w q"
      "\<forall>i. r = Inr i \<longrightarrow> lookup v ?to = Some (Link i)"
    have old: "lookup w q = Some n \<Longrightarrow> lookup v q = Some n" for q n using v(1) by (metis option.distinct(1))
    have kept: "kept v"
      using assms(6,7) old unfolding kept_def resolvable_def others_keep_names_def by blast
    have rest: "wp (case r of Inl e \<Rightarrow> ret (Some e, a) | Inr _ \<Rightarrow> (let a1 = ?a1 in
        and_then (attempt (Save l a1)) (\<lambda>s. case s of
          Inl e \<Rightarrow> ret (Some e, a1)
        | Inr _ \<Rightarrow> and_then (attempt (RemoveName p (ag_rename_from a1) (ag_id a1))) (\<lambda>q. case q of
            Inl e \<Rightarrow> ret (Some e, a1)
          | Inr _ \<Rightarrow> and_then (attempt (Save l (end_rename a1))) (\<lambda>t.
              ret (case t of Inl e \<Rightarrow> Some e | Inr _ \<Rightarrow> None, end_rename a1)))))) goal (\<lambda>_ _. True) v"
      if "\<not> (case r of Inl e \<Rightarrow> errors_is e NameTaken | Inr i \<Rightarrow> i \<noteq> ag_id a)"
      using that finish [OF kept] failed [OF kept] v(2) assms(4)
      by (cases r) (simp_all only: sum.case Let_def wp_simps(1) not_not)
    have ended: "wp (and_then (attempt (Save l (end_rename a))) (\<lambda>s.
        ret (Some (case s of Inl e \<Rightarrow> e | Inr _ \<Rightarrow> NameTaken), end_rename a))) goal (\<lambda>_ _. True) v"
      unfolding wp_simps(5)
    proof (rule save, goal_cases)
      case (1 s u)
      have "lookup v (name_path p (ag_name a)) = Some (Link i)" using assms(7) by (rule old)
      then have "kept u" by (intro resaved [OF kept 1(1,2)]) (simp add: 1(3) end_rename_def)
      then show ?case using failed by simp
    next
      case (2 e u)
      then show ?case using same [OF kept] failed by simp
    qed
    show "wp (if case r of Inl e \<Rightarrow> errors_is e NameTaken | Inr i \<Rightarrow> i \<noteq> ag_id a
        then and_then (attempt (Save l (end_rename a))) (\<lambda>s.
          ret (Some (case s of Inl e \<Rightarrow> e | Inr _ \<Rightarrow> NameTaken), end_rename a))
        else case r of Inl e \<Rightarrow> ret (Some e, a) | Inr _ \<Rightarrow> (let a1 = ?a1 in
          and_then (attempt (Save l a1)) (\<lambda>s. case s of
            Inl e \<Rightarrow> ret (Some e, a1)
          | Inr _ \<Rightarrow> and_then (attempt (RemoveName p (ag_rename_from a1) (ag_id a1))) (\<lambda>q. case q of
              Inl e \<Rightarrow> ret (Some e, a1)
            | Inr _ \<Rightarrow> and_then (attempt (Save l (end_rename a1))) (\<lambda>t.
                ret (case t of Inl e \<Rightarrow> Some e | Inr _ \<Rightarrow> None, end_rename a1)))))) goal (\<lambda>_ _. True) v"
      using rest ended by presburger
  qed
  from wp_okD [OF this assms(8)] show ?thesis by (simp add: goal_def kept_def)
qed

definition demo_renaming :: agent where
  "demo_renaming = demo_hitch\<lparr>ag_rename_from := ''scout'', ag_rename_to := ''ranger''\<rparr>"

theorem rename_keeps_name_witness:
  "let w = demo_hitch_world demo_binding demo_renaming (Some '''');
       w' = snd (FinishRename (team_of [''t'']) demo_paths demo_renaming w)
   in lookup w' [''t'', ''names'', ''ranger''] = Some (Link ''h1'')
      \<and> lookup w' [''t'', ''names'', ''scout''] \<noteq> Some (Link ''h1'')"
proof -
  let ?p = "team_of [''t'']" and ?w = "demo_hitch_world demo_binding demo_renaming (Some '''')"
  have plain: "plain_segment ''scout''" "plain_segment ''ranger''"
    by (simp_all add: plain_segment_def separator_def)
  have names: "name_path ?p ''scout'' = [''t'', ''names'', ''scout'']"
    "name_path ?p ''ranger'' = [''t'', ''names'', ''ranger'']"
    using plain by (simp_all add: components_plain)
  have segments: "segment ''h1''" "segment ''scout''" "segment ''ranger''"
    using plain plain_h1 by (simp_all add: segment_iff)
  have a: "ag_id demo_renaming = ''h1''" "ag_name demo_renaming = ''scout''"
    "ag_rename_from demo_renaming = ''scout''" "ag_rename_to demo_renaming = ''ranger''"
    "\<not> unbound (demo_renaming\<lparr>ag_name := ''ranger''\<rparr>) ''''"
    "\<not> unbound (end_rename (demo_renaming\<lparr>ag_name := ''ranger''\<rparr>)) ''''"
    by (simp_all add: demo_renaming_def demo_hitch_def blank_agent_def unbound_def blank_native_def end_rename_def)
  have handle: "handle demo_paths (w\<lparr>held := AList.update [''t'', ''agents'', ''h1'', ''lock''] h hs\<rparr>) = Some h"
    for w h hs using handle_simps(5) [where p = demo_paths] by simp
  note run_defs = handle and_then_def attempt_def reads_def updates_def ret_def check_segment_def
  have owner: "rename_owner ?p demo_renaming ?w = (Inr (Inr ''h1''), put [''t'', ''names'', ''ranger''] (Link ''h1'') ?w)"
    by (simp add: rename_owner_def ResolveName_def ClaimName_def run_defs os_readlink_def os_symlink_def
        sys_quiet act_quiet names segments a demo_tree_def is_dir_def del: name_path_team)
  have "\<exists>b. fst (FinishRename ?p demo_paths demo_renaming ?w) = Inr (None, b)"
    by (simp add: FinishRename_def owner a run_defs Let_def Save_def saved_bound_def set_bound_def
        saveModelState_def atomicJSON_quiet is_dir_def demo_tree_def RemoveName_def ResolveName_def
        os_readlink_def sys_quiet os_remove_def act_quiet names segments del: name_path_team)
  then obtain b where run: "FinishRename ?p demo_paths demo_renaming ?w = (Inr (None, b), snd (FinishRename ?p demo_paths demo_renaming ?w))"
    by (metis prod.collapse)
  have "renaming demo_renaming" by (simp add: renaming_def a plain)
  from rename_keeps_name [OF plain_h1 demo_paths_def refl a(1) this _ _ run]
  show ?thesis by (simp add: demo_tree_def names a rename_complete_def Let_def del: name_path_team)
qed

section \<open>Creating\<close>

lemma others_keep_refl [simp]: "others_keep_names p i w w"
  by (simp add: others_keep_names_def)

lemma others_keepD:
  "others_keep_names p i w w' \<Longrightarrow> j \<noteq> i \<Longrightarrow> lookup w (name_path p n) = Some (Link j) \<Longrightarrow>
    lookup w' (name_path p n) = Some (Link j)"
  unfolding others_keep_names_def by blast

lemma others_keep_trans:
  "others_keep_names p i u v \<Longrightarrow> others_keep_names p i v w \<Longrightarrow> others_keep_names p i u w"
  by (auto simp: others_keep_names_def)

lemma others_keep_simps [simp]:
  "others_keep_names p i w (w'\<lparr>faults := bs\<rparr>) = others_keep_names p i w w'"
  "others_keep_names p i w (w'\<lparr>held := hs\<rparr>) = others_keep_names p i w w'"
  "others_keep_names p i (w\<lparr>faults := bs\<rparr>) w' = others_keep_names p i w w'"
  by (simp_all add: others_keep_names_def)

lemma others_keep_dirs: "dirs_added w w' \<Longrightarrow> others_keep_names p i w w'"
  by (auto simp: others_keep_names_def dirs_added_def) (metis option.distinct(1))

lemma others_keep_put:
  "lookup w q = None \<or> (\<forall>n. q \<noteq> name_path p n) \<Longrightarrow> others_keep_names p i w (put q x w)"
  by (auto simp: others_keep_names_def)

lemma others_keep_del:
  "lookup w q = Some (Link i) \<Longrightarrow> others_keep_names p i w (del q w)"
  by (auto simp: others_keep_names_def)

lemma wp_lock [wp_intro]:
  assumes "\<And>bs. ap_lock p \<notin> set (busy w) \<Longrightarrow> ap_lock p \<notin> fst ` set (held w) \<Longrightarrow>
      lookup w (ap_state p) \<noteq> None \<Longrightarrow> Q () (w\<lparr>faults := bs, held := (ap_lock p, None) # held w\<rparr>)"
    and "\<And>bs e. E e (w\<lparr>faults := bs\<rparr>)"
  shows "wp (lock nonblocking p) Q E w"
  unfolding lock_def wp_simps wp_updates
proof (rule wp_act, goal_cases)
  case (1 bs w')
  then have w': "w' = w\<lparr>faults := bs\<rparr>" by (auto split: option.splits if_splits)
  show ?case unfolding w'
  proof (rule wp_act, goal_cases)
    case (1 bs' v)
    then have v: "v = w\<lparr>faults := bs'\<rparr>" "ap_lock p \<notin> set (busy w)" "ap_lock p \<notin> fst ` set (held w)"
      by (auto split: if_splits)
    show ?case unfolding v(1) by (rule wp_os_stat) (use v in \<open>auto intro!: assms\<close>)
  qed (auto intro!: assms)
qed (auto intro!: assms)

lemma wp_LockClose [wp_intro]:
  assumes "\<And>bs hs. Q () (w\<lparr>held := hs, faults := bs\<rparr>)" "\<And>bs hs e. E e (w\<lparr>held := hs, faults := bs\<rparr>)"
  shows "wp (LockClose p) Q E w"
proof (cases "Held p w")
  case True
  have "wp sys Q E (w\<lparr>held := AList.delete (ap_lock p) (held w)\<rparr>)"
    by (rule wp_sys) (rule assms)+
  then show ?thesis using True by (simp add: LockClose_def)
next
  case False
  then show ?thesis using assms(1) [of "faults w" "held w"] by (simp add: LockClose_def)
qed

lemma dirs_added_faults [simp]:
  "dirs_added w (w'\<lparr>faults := bs\<rparr>) = dirs_added w w'"
  "dirs_added (w\<lparr>faults := bs\<rparr>) w' = dirs_added w w'"
  by (simp_all add: dirs_added_def)

lemma wp_make_inbox:
  assumes "\<And>w'. dirs_added w w' \<Longrightarrow> Q () w'" "\<And>e w'. dirs_added w w' \<Longrightarrow> E e w'"
  shows "wp (for_each (\<lambda>n. os_mkdir_all (d @ [n])) ns) Q E w"
proof -
  have "wp (for_each (\<lambda>n. os_mkdir_all (d @ [n])) ns) (\<lambda>_. dirs_added w) (\<lambda>e v. dirs_added w v \<and> True) w"
    by (rule wp_for_each) (auto intro!: wp_os_mkdir_all intro: dirs_added_trans)
  then show ?thesis by (rule wp_mono) (use assms in auto)
qed

lemma reported_session: "reported a \<Longrightarrow> session_of a \<noteq> ''''"
  by (simp add: reported_def)

text \<open>What a successful \<^verbatim>\<open>CreateAgent\<close> establishes.\<close>

definition created :: "team_paths \<Rightarrow> agent_paths \<Rightarrow> agent \<Rightarrow> world \<Rightarrow> world \<Rightarrow> bool" where
  "created p l a w w' \<longleftrightarrow> resolvable p l (ag_id a) w' \<and> bound_ok False (ag_id a) l w' \<and> Held l w'
     \<and> lookup w (name_path p (ag_name a)) = None
     \<and> lookup w' (name_path p (ag_name a)) = Some (Link (ag_id a))"

text \<open>
  C26 (create_claims_fresh_name): whatever fails in \<^verbatim>\<open>CreateAgent\<close>, every other agent's name
  still resolves to it. When it returns a handle, the name was free before and resolves to
  the new agent now, the saved state carries that name, the lock is held, and the binding
  invariant of sessions and log holds, even for an agent created with a
  native session.
\<close>

theorem create_claims_fresh_name:
  fixes a :: agent
  assumes "plain_segment (ag_id a)" "p = team_of d" "l = agent_of p (ag_id a)"
    and "CreateAgent p a w = (r, w')"
  shows "others_keep_names p (ag_id a) w w' \<and> (\<forall>x. r = Inr x \<longrightarrow> x = l \<and> created p l a w w')"
    (is "?goal r w'")
proof -
  let ?i = "ag_id a" and ?name = "name_path p (ag_name a)"
  have l: "l = agent_of (team_of d) ?i" using assms(2,3) by simp
  note paths = agent_of_plain [OF assms(1), of d, folded l]
  have away: "ap_directory l \<noteq> name_path p n" "ap_lock l \<noteq> name_path p n" "ap_state l \<noteq> name_path p n"
    "ap_log l \<noteq> name_path p n" "model_path l \<noteq> name_path p n" "\<not> prefix (ap_directory l) (name_path p n)" for n
    by (simp_all add: paths assms(2))
  note away' = away(1-5) [THEN not_sym]
  define Q where "Q v \<longleftrightarrow> others_keep_names p ?i w v \<and> created p l a w v" for v
  define E where "E v \<longleftrightarrow> others_keep_names p ?i w v" for v
  have saved: "wp (attempt (Save l (with_bound a ''''))) (\<lambda>s. wp (case s of Inr _ \<Rightarrow> ret ()
      | Inl e \<Rightarrow> and_then (attempt (LockClose l)) (\<lambda>_.
          and_then (attempt (RemoveName p (ag_name a) ?i)) (\<lambda>q.
            raise (Joined (e # (case q of Inl e' \<Rightarrow> [e'] | Inr _ \<Rightarrow> [])))))) (\<lambda>_. Q) (\<lambda>_. E)) E' u"
    if u: "others_keep_names p ?i w u" "lookup w ?name = None" "lookup u ?name = Some (Link ?i)"
      "handle l u = Some (Some '''')" for u E'
    unfolding wp_attempt
  proof (rule wp_Save [OF paths(7)], goal_cases)
    case (1 b v)
    let ?s = "bound_after (with_bound a '''') b"
    have b: "b = ''''" using 1(5) u(4) by (simp add: binding_known_def)
    have names: "lookup v (name_path p n) = lookup u (name_path p n)" for n
      using 1(1) away [of n] by (simp add: changed_only_def)
    have "others_keep_names p ?i u v" using names by (simp add: others_keep_names_def)
    moreover have "resolvable p l ?i v" using 1(3) names u(3) by (simp add: resolvable_def)
    moreover have "bound_ok False (ag_id a) l v"
      using 1(3,4) 1(6) [THEN spec [of _ False]] reported_session [of a]
      by (auto simp: bound_ok_def b bound_after_def unbound_iff clean_log_def split: if_splits)
    ultimately show ?case
      using u names 1(4) others_keep_trans by (auto simp: Q_def created_def Held_def)
  next
    case (2 e v)
    have names: "lookup v (name_path p n) = lookup u (name_path p n)" for n
      using 2(1) away [of n] by (simp add: changed_only_def)
    then have "others_keep_names p ?i w v" using u(1) by (simp add: others_keep_names_def)
    then show ?case
      unfolding sum.case wp_simps wp_attempt
      by (intro wp_LockClose wp_RemoveName)
        (auto simp: E_def intro: others_keep_trans others_keep_del)
  qed
  have claimed: "wp (attempt (ClaimName p (ag_name a) ?i)) (\<lambda>r. wp (case r of
        Inl e \<Rightarrow> and_then (attempt (LockClose l)) (\<lambda>_. raise e)
      | Inr _ \<Rightarrow>
         and_then (set_bound l '''') (\<lambda>_.
         and_then (attempt (Save l (with_bound a ''''))) (\<lambda>s. case s of
           Inr _ \<Rightarrow> ret ()
         | Inl e \<Rightarrow>
             and_then (attempt (LockClose l)) (\<lambda>_.
             and_then (attempt (RemoveName p (ag_name a) ?i)) (\<lambda>q.
               raise (Joined (e # (case q of Inl e' \<Rightarrow> [e'] | Inr _ \<Rightarrow> [])))))))) (\<lambda>_. Q) (\<lambda>_. E)) E' u"
    if u: "others_keep_names p ?i w u" "\<And>q. lookup u q = None \<Longrightarrow> lookup w q = None" for u E'
    unfolding wp_attempt
  proof (rule wp_ClaimName, goal_cases)
    case (1 bs)
    have "others_keep_names p ?i u (put ?name (Link ?i) u)" using 1 by (intro others_keep_put) simp
    then show ?case
      unfolding sum.case wp_simps set_bound_def wp_updates
      using 1 u by (intro saved) (auto intro: others_keep_trans)
  next
    case (2 bs e)
    then show ?case using u(1) by (auto intro!: wp_LockClose simp: E_def)
  qed
  have body: "wp (create_body p l a) (\<lambda>_. Q) (\<lambda>_. E) u" if u: "others_keep_names p ?i w u"
    "\<And>q. lookup u q = None \<Longrightarrow> lookup w q = None" for u
    unfolding create_body_def Let_def wp_simps(5) with_bound_simps
  proof (rule wp_make_inbox, goal_cases)
    case (1 v)
    then have v: "others_keep_names p ?i w v" "\<And>q. lookup v q = None \<Longrightarrow> lookup w q = None"
      using u others_keep_dirs others_keep_trans by (blast, auto simp: dirs_added_def) (metis option.distinct(1))
    have put_state: "others_keep_names p ?i w (put (ap_state l) x (put (ap_lock l) y v))"
      "\<And>q. lookup (put (ap_state l) x (put (ap_lock l) y v)) q = None \<Longrightarrow> lookup w q = None"
      "others_keep_names p ?i w (put (ap_lock l) y v)" for x y
      using v away' by (auto simp: others_keep_names_def split: if_splits)
    show ?case
      using v(1) put_state unfolding TryLock_def
      by (intro wp_os_create_excl wp_sys wp_atomicJSON wp_lock claimed)
        (auto simp: E_def split: if_splits)
  next
    case (2 e v)
    then show ?case using u(1) others_keep_dirs others_keep_trans by (auto simp: E_def) 
  qed
  have rollback: "others_keep_names p ?i u (removed_tree (ap_directory l) u)" for u
    using away(6) by (auto simp: others_keep_names_def)
  have "segment ?i" using assms(1) by (simp add: segment_iff)
  then have agent: "Agent p ?i = ret l"
    unfolding assms(3) by (auto simp: Agent_def check_segment_def and_then_def ret_def)
  have "wp (CreateAgent p a) (\<lambda>x. ?goal (Inr x)) (\<lambda>e. ?goal (Inl e)) w"
    unfolding CreateAgent_def agent wp_simps(1,5)
  proof (rule wp_os_mkdir, goal_cases)
    case (1 bs)
    have start: "others_keep_names p ?i w (put (ap_directory l) Dir w)"
      using 1 by (intro others_keep_put) simp
    show ?case
      unfolding wp_attempt
    proof (rule wp_mono [OF body], goal_cases)
      case (1)
      show ?case using start by simp
    next
      case (2 q)
      then show ?case by (simp split: if_splits)
    next
      case (3 x v)
      then show ?case by (simp add: Q_def)
    next
      case (4 e v)
      then show ?case
        unfolding sum.case wp_simps wp_attempt using rollback others_keep_trans
        by (intro wp_os_remove_all) (auto simp: E_def)
    qed
  qed simp
  then show ?thesis using assms(4) by (auto simp: wp_def split: sum.splits)
qed

theorem create_claims_fresh_name_witness:
  "let w = demo_world (demo_codec demo_binding)
         [([''t''], Dir), ([''t'', ''names''], Dir), ([''t'', ''agents''], Dir),
          ([''t'', ''names'', ''scout''], Link ''h2'')];
       (r, w') = CreateAgent (team_of [''t'']) demo_hitch w
   in lookup w' [''t'', ''names'', ''scout''] = Some (Link ''h2'') \<and> (\<forall>x. r \<noteq> Inr x)"
proof -
  let ?p = "team_of [''t'']"
  let ?w = "demo_world (demo_codec demo_binding)
         [([''t''], Dir), ([''t'', ''names''], Dir), ([''t'', ''agents''], Dir),
          ([''t'', ''names'', ''scout''], Link ''h2'')]"
  obtain r w' where run: "CreateAgent ?p demo_hitch ?w = (r, w')" by fastforce
  have id: "ag_id demo_hitch = ''h1''" "ag_name demo_hitch = ''scout''" by (simp_all add: demo_hitch_def)
  have name: "name_path ?p ''scout'' = [''t'', ''names'', ''scout'']"
    using components_plain [of "''scout''"] by (simp add: plain_segment_def separator_def)
  have before: "lookup ?w (name_path ?p ''scout'') = Some (Link ''h2'')" unfolding name by (simp add: lookup_def)
  have other: "''h2'' \<noteq> ''h1''" by simp
  have plain: "plain_segment (ag_id demo_hitch)" using plain_h1 by (simp add: id)
  note out = create_claims_fresh_name [OF plain refl refl run]
  have "lookup w' (name_path ?p ''scout'') = Some (Link ''h2'')"
    by (rule others_keepD [OF out [THEN conjunct1, unfolded id] other before])
  moreover have "r \<noteq> Inr x" for x
  proof
    assume "r = Inr x"
    then have "lookup ?w (name_path ?p ''scout'') = None"
      using out [THEN conjunct2, rule_format, THEN conjunct2] unfolding created_def id(2) by simp
    with before show False by (simp only: option.distinct)
  qed
  ultimately show ?thesis unfolding run Let_def prod.case name by blast
qed

end
