(* ===== verification/Store_Files.thy ===== *)
theory Store_Files
  imports Store_Agent
begin

text \<open>
  The typed files of the state directory: for every Go type the \<^verbatim>\<open>store\<close> package keeps in a
  JSON file of its own, the constructor that stores it and the projection that decodes it
  satisfy the contract \<^theory_text>\<open>typed_file\<close>. The agent record is the one whose stored form differs
  from its value; its two files (\<^verbatim>\<open>agent.json\<close> and \<^verbatim>\<open>model-metadata.json\<close>) together restore it.
\<close>

section \<open>The contract on every file type\<close>

interpretation team_file: typed_file CTeam as_team "\<lambda>x. x"
  by unfold_locales (simp add: as_team_def)

interpretation agent_file: typed_file "\<lambda>a. CAgent (persist_agent a)" as_agent persist_agent
  by unfold_locales (simp add: as_agent_def)

interpretation model_file: typed_file CModel as_model "\<lambda>x. x"
  by unfold_locales (simp add: as_model_def)

interpretation envelope_file: typed_file CEnvelope as_envelope "\<lambda>x. x"
  by unfold_locales (simp add: as_envelope_def)

interpretation witness_file: typed_file CWitness as_witness "\<lambda>x. x"
  by unfold_locales (simp add: as_witness_def)

interpretation hooks_file: typed_file CHooks as_hooks "\<lambda>x. x"
  by unfold_locales (simp add: as_hooks_def)

interpretation idle_file: typed_file CIdle as_idle "\<lambda>x. x"
  by unfold_locales (simp add: as_idle_def)

interpretation outside_file: typed_file COutside as_outside "\<lambda>x. x"
  by unfold_locales (simp add: as_outside_def)

interpretation sender_file: typed_file CSender as_sender "\<lambda>x. x"
  by unfold_locales (simp add: as_sender_def)

section \<open>Saving and reading an agent\<close>

lemma persist_agent_idem [simp]: "persist_agent (persist_agent a) = persist_agent a"
  by (simp add: persist_agent_def persist_native_def persist_note_def persist_reading_def comp_def)

text \<open>The record names the launch of its harness completely.\<close>

definition launched :: "agent \<Rightarrow> bool" where
  "launched a \<longleftrightarrow> reg_generation (ag_registration a) \<noteq> '''' \<and> reg_session (ag_registration a) \<noteq> ''''
     \<and> reg_token_hash (ag_registration a) \<noteq> ''''"

definition restored :: "agent \<Rightarrow> agent" where
  "restored a =
     (if launched a
      then (persist_agent a)\<lparr>ag_configured_model := ag_configured_model a,
             ag_configured_effort := ag_configured_effort a,
             ag_native := (persist_native (ag_native a))\<lparr>nat_effort := nat_effort (ag_native a)\<rparr>\<rparr>
      else persist_agent a)"

lemma saveModelState_files:
  fixes a :: agent
  assumes "saveModelState p a w = (Inr (), w')" "model_path p \<noteq> ap_state p"
  shows "lookup w' (ap_state p) = Some (File (CAgent (persist_agent a)))
    \<and> lookup w' (model_path p) = Some (File (CModel (model_metadata_of (codec_of w) a)))
    \<and> codec_of w' = codec_of w"
proof -
  let ?good = "\<lambda>_ w'. lookup w' (ap_state p) = Some (File (CAgent (persist_agent a)))
    \<and> lookup w' (model_path p) = Some (File (CModel (model_metadata_of (codec_of w) a)))
    \<and> codec_of w' = codec_of w"
  have "wp (saveModelState p a) ?good (\<lambda>_ _. True) w"
    unfolding saveModelState_def wp_simps
    by (intro wp_intro) (use assms(2) in auto)
  from wp_okD [OF this assms(1)] show ?thesis .
qed

lemma Save_files:
  fixes a :: agent
  assumes "Save p a w = (Inr (), w')" "model_path p \<noteq> ap_state p"
  shows "\<exists>b. lookup w' (ap_state p) = Some (File (CAgent (persist_agent (with_bound a b))))
    \<and> lookup w' (model_path p) = Some (File (CModel (model_metadata_of (codec_of w') (with_bound a b))))"
proof -
  let ?good = "\<lambda>_ w'. \<exists>b. lookup w' (ap_state p) = Some (File (CAgent (persist_agent (with_bound a b))))
    \<and> lookup w' (model_path p) = Some (File (CModel (model_metadata_of (codec_of w') (with_bound a b))))"
  have stores: "wp (saveModelState p (with_bound a b)) (\<lambda>_. wp (set_bound p b') ?good (\<lambda>_ _. True))
      (\<lambda>_ _. True) u" for b b' u
    by (rule wpI) (use saveModelState_files [OF _ assms(2)] in \<open>force simp: set_bound_def\<close>)+
  have "wp (Save p a) ?good (\<lambda>_ _. True) w"
    unfolding Save_def wp_simps
    by (rule wp_saved_bound) (auto intro!: wp_bind stores)
  from wp_okD [OF this assms(1)] show ?thesis .
qed

lemma read_files:
  fixes a :: agent
  assumes "lookup w (ap_state p) = Some (File (CAgent (persist_agent a)))"
    and "lookup w (model_path p) = Some (File (CModel (model_metadata_of (codec_of w) a)))"
    and "ag_id a = last (ap_directory p)" "ag_name a \<noteq> ''''" "ag_collar a \<noteq> ''''"
  shows "fst (ReadAgent p (quiet w)) = Inr (restored a)"
proof -
  have codec: "codec_of (quiet w) = codec_of w" by (simp add: quiet_def)
  have state: "readJSON as_agent (ap_state p) (quiet w) = (Inr (persist_agent a), quiet w)"
    using assms(1) by (simp add: readJSON_quiet agent_file.prj_inj)
  have model: "readJSON as_model (model_path p) (quiet w)
      = (Inr (model_metadata_of (codec_of w) a), quiet w)"
    using assms(2) by (simp add: readJSON_quiet model_file.prj_inj)
  have digest: "modelStateDigest c (persist_agent a) = modelStateDigest c a" for c
    by (simp add: modelStateDigest_def)
  have reg: "ag_registration (persist_agent a) = ag_registration a"
      "ag_native (persist_agent a) = persist_native (ag_native a)"
    by (simp_all add: persist_agent_def)
  have "readModelMetadata p (persist_agent a) (quiet w) = (Inr (restored a), quiet w)"
    unfolding readModelMetadata_def
    by (simp add: and_then_def attempt_def model reads_def codec model_metadata_of_def Let_def
        digest reg launched_def restored_def ret_def)
  then show ?thesis
    using assms(3,4,5) by (simp add: ReadAgent_def and_then_def state)
qed

text \<open>
  C31 (save_reads_back): after a successful \<^verbatim>\<open>Save\<close>, a reader that meets no failure gets the
  saved record back, with some bound session. The settings that are no part of the state
  file (configured model and effort, the observed effort) come back from the metadata file
  exactly when the record names its launch completely; otherwise they are empty.
\<close>

theorem save_reads_back:
  fixes a :: agent
  assumes "plain_segment i" "p = agent_of (team_of d) i" "Save p a w = (Inr (), w')"
    and "ag_id a = i" "ag_name a \<noteq> ''''" "ag_collar a \<noteq> ''''"
  shows "\<exists>b. fst (ReadAgent p (quiet w')) = Inr (restored (with_bound a b))"
proof -
  have p: "model_path p \<noteq> ap_state p" "last (ap_directory p) = i"
    using assms(1,2) agent_of_plain by simp_all
  then obtain b where
    "lookup w' (ap_state p) = Some (File (CAgent (persist_agent (with_bound a b))))"
    "lookup w' (model_path p) = Some (File (CModel (model_metadata_of (codec_of w') (with_bound a b))))"
    using Save_files [OF assms(3)] by blast
  then show ?thesis
    using p assms(4,5,6) read_files [of w' p "with_bound a b"] by auto
qed

theorem save_reads_back_witness:
  "\<exists>b. fst (ReadAgent demo_paths (quiet (snd (Save demo_paths demo_session
      (demo_hitch_world demo_binding demo_hitch None))))) = Inr (restored (with_bound demo_session b))"
proof (rule save_reads_back [OF plain_h1 demo_paths_def])
  let ?w = "demo_hitch_world demo_binding demo_hitch None"
  show "Save demo_paths demo_session ?w = (Inr (), snd (Save demo_paths demo_session ?w))"
    using demo_save by (simp add: prod_eq_iff)
qed (simp_all add: demo_session_def demo_hitch_def)

end
