(* ===== verification/Store_Envelopes.thy ===== *)
theory Store_Envelopes
  imports Store_Agent "HOL-Library.Product_Lexorder"
begin

text \<open>
  Envelope files of an inbox (\<^verbatim>\<open>store/inbox.go\<close>): their paths, reading one, and listing a
  directory in delivery order. The comparator of \<^verbatim>\<open>list\<close> orders by creation time, then by
  identity, with the sequence numbers of \<^verbatim>\<open>context-\<close> envelopes compared as numbers; it is
  interpreted as a \<^verbatim>\<open>comparator\<close> by the rank it implements.
\<close>

section \<open>Files\<close>

definition inbox_dirs :: "string list" where
  "inbox_dirs = [''new'', ''cur'', ''failed'', ''tmp/drop'']"

definition EnvelopePath :: "agent_paths \<Rightarrow> string \<Rightarrow> envelope_id \<Rightarrow> path io" where
  "EnvelopePath p dir i =
     and_then (check_segment i) (\<lambda>_.
       if dir \<noteq> ''new'' \<and> dir \<noteq> ''cur'' \<and> dir \<noteq> ''failed'' \<and> dir \<noteq> ''tmp/drop''
       then raise (Fail ''invalid inbox directory'')
       else ret (join_path (ap_inbox p @ components dir) (i @ ''.json'')))"

definition ReadEnvelope :: "agent_paths \<Rightarrow> string \<Rightarrow> envelope_id \<Rightarrow> envelope io" where
  "ReadEnvelope p dir i =
     and_then (EnvelopePath p dir i) (\<lambda>path.
     and_then (readJSON as_envelope path) (\<lambda>e.
       if env_id e \<noteq> i then raise (Fail ''envelope ID does not match its filename'') else ret e))"

definition Publish :: "agent_paths \<Rightarrow> envelope \<Rightarrow> unit io" where
  "Publish p e =
     and_then (EnvelopePath p ''new'' (env_id e)) (\<lambda>path.
     and_then (jsonTemp (ap_inbox p @ [''tmp''])) (\<lambda>_.
     os_rename_temp (CEnvelope e) path))"

section \<open>Delivery order\<close>

definition context_prefix :: string where "context_prefix = ''context-''"

text \<open>\<^verbatim>\<open>strconv.ParseUint(s, 10, 64)\<close>; \<^term>\<open>None\<close> is its error.\<close>

definition digit :: "char \<Rightarrow> bool" where
  "digit c \<longleftrightarrow> CHR ''0'' \<le> c \<and> c \<le> CHR ''9''"

fun parse_digits :: "nat \<Rightarrow> string \<Rightarrow> nat option" where
  "parse_digits n [] = Some n"
| "parse_digits n (c # cs) =
     (if digit c then parse_digits (10 * n + (of_char c - 48)) cs else None)"

definition ParseUint :: "string \<Rightarrow> nat option" where
  "ParseUint s = (if s = '''' then None
     else case parse_digits 0 s of
         None \<Rightarrow> None
       | Some n \<Rightarrow> if n < 2 ^ 64 then Some n else None)"

definition id_less :: "string \<Rightarrow> string \<Rightarrow> bool" where
  "id_less left right =
     (if has_prefix left context_prefix \<and> has_prefix right context_prefix
      then let l = ParseUint (trim_prefix left context_prefix);
               r = ParseUint (trim_prefix right context_prefix)
           in if (l \<noteq> None) \<noteq> (r \<noteq> None) then l \<noteq> None
              else if l \<noteq> None \<and> r \<noteq> None \<and> the l \<noteq> the r then the l < the r
              else left < right
      else left < right)"

definition env_less :: "envelope \<Rightarrow> envelope \<Rightarrow> bool" where
  "env_less a b =
     (if env_created_at a = env_created_at b then id_less (env_id a) (env_id b)
      else env_created_at a < env_created_at b)"

section \<open>Listing\<close>

definition read_entry :: "path \<Rightarrow> string \<times> bool \<Rightarrow> envelope option io" where
  "read_entry d entry = (case entry of (n, is_directory) \<Rightarrow>
     if is_directory then raise (Fail ''unexpected inbox directory'')
     else and_then (attempt (readJSON as_envelope (d @ [n]))) (\<lambda>r. case r of
       Inl e \<Rightarrow> if errors_is e NotExist then ret None else raise e
     | Inr e \<Rightarrow>
         if n \<noteq> env_id e @ ''.json'' then raise (Fail ''inbox filename does not match envelope ID'')
         else ret (Some e)))"

definition list_dir :: "agent_paths \<Rightarrow> string \<Rightarrow> envelope list io" where
  "list_dir p dir =
     (let d = ap_inbox p @ components dir in
     and_then (os_read_dir d) (\<lambda>entries.
     and_then (collect (read_entry d) entries) (\<lambda>es. ret (sort_slice env_less es))))"

definition ListNew :: "agent_paths \<Rightarrow> envelope list io" where
  "ListNew p = list_dir p ''new''"

section \<open>The order is a strict linear order\<close>

type_synonym id_rank = "string \<times> nat \<times> nat \<times> string"

definition id_rank :: "string \<Rightarrow> id_rank" where
  "id_rank s =
     (if has_prefix s context_prefix
      then (case ParseUint (trim_prefix s context_prefix) of
          Some n \<Rightarrow> (context_prefix, 0, n, s)
        | None \<Rightarrow> (context_prefix, 1, 0, s))
      else (s, 0, 0, s))"

lemma not_prefixed_less:
  assumes "\<not> has_prefix s context_prefix" "has_prefix t context_prefix"
  shows "s < t \<longleftrightarrow> s < context_prefix" "t < s \<longleftrightarrow> context_prefix < s" "s \<noteq> context_prefix"
proof -
  have c: "has_prefix context_prefix context_prefix" by (simp add: has_prefix_def)
  obtain r where t: "t = context_prefix @ r" using assms(2) by (auto simp: has_prefix_iff)
  have "context_prefix @ [] < context_prefix @ r" if "r \<noteq> []"
    using that by (subst lex_append_left) (cases r, auto)
  then have le: "context_prefix \<le> t" unfolding t by (cases "r = []") auto
  show ne: "s \<noteq> context_prefix" using assms(1) c by auto
  show "s < t \<longleftrightarrow> s < context_prefix"
    using assms ne le has_prefix_convex [OF c assms(2), of s] by (metis less_le_trans linorder_neqE)
  show "t < s \<longleftrightarrow> context_prefix < s"
    using assms ne le has_prefix_convex [OF c assms(2), of s]
    by (metis le_less_trans less_le_trans linorder_neqE order.strict_iff_order)
qed

lemma id_less_rank: "id_less s t \<longleftrightarrow> id_rank s < id_rank t"
proof -
  consider (both) "has_prefix s context_prefix" "has_prefix t context_prefix"
    | (left) "has_prefix s context_prefix" "\<not> has_prefix t context_prefix"
    | (right) "\<not> has_prefix s context_prefix" "has_prefix t context_prefix"
    | (none) "\<not> has_prefix s context_prefix" "\<not> has_prefix t context_prefix" by blast
  then show ?thesis
  proof cases
    case both
    then show ?thesis
      by (auto simp: id_less_def id_rank_def Let_def less_prod_def split: option.split)
  next
    case left
    note cmp = not_prefixed_less [OF left(2,1)]
    show ?thesis using left cmp by (auto simp: id_less_def id_rank_def split: option.split)
  next
    case right
    note cmp = not_prefixed_less [OF right]
    show ?thesis using right cmp by (auto simp: id_less_def id_rank_def split: option.split)
  next
    case none
    then show ?thesis by (auto simp: id_less_def id_rank_def)
  qed
qed

lemma env_less_rank:
  "env_less a b \<longleftrightarrow> (env_created_at a, id_rank (env_id a)) < (env_created_at b, id_rank (env_id b))"
  by (auto simp: env_less_def id_less_rank less_prod_def)

lemma id_rank_inj: "id_rank s = id_rank t \<Longrightarrow> s = t"
  by (auto simp: id_rank_def split: if_splits option.splits)

interpretation by_time: comparator env_less env_id
proof
  fix a b :: envelope assume "env_id a \<noteq> env_id b"
  then show "env_less a b \<or> env_less b a"
    unfolding env_less_rank using id_rank_inj by (metis linorder_neqE prod.inject)
qed (auto simp: env_less_rank)

section \<open>What a listing returns\<close>

lemma wp_collect_all:
  assumes "\<And>x bs. x \<in> set xs \<Longrightarrow>
      wp (f x) (\<lambda>r w'. \<exists>bs' y. w' = w\<lparr>faults := bs'\<rparr> \<and> r = Some y \<and> R x y) (\<lambda>_ _. True) (w\<lparr>faults := bs\<rparr>)"
  shows "wp (collect f xs) (\<lambda>ys w'. (\<exists>bs'. w' = w\<lparr>faults := bs'\<rparr>) \<and> list_all2 R xs ys) (\<lambda>_ _. True) (w\<lparr>faults := bs\<rparr>)"
  using assms
proof (induction xs arbitrary: bs)
  case Nil
  then show ?case by (auto intro: exI [of _ bs])
next
  case (Cons x xs)
  have "wp (f x) (\<lambda>r w'. \<exists>bs' y. w' = w\<lparr>faults := bs'\<rparr> \<and> r = Some y \<and> R x y) (\<lambda>_ _. True) (w\<lparr>faults := bs\<rparr>)"
    using Cons.prems by simp
  then show ?case
    unfolding collect.simps wp_simps
  proof (rule wp_mono)
    fix r w' assume "\<exists>bs' y. w' = w\<lparr>faults := bs'\<rparr> \<and> r = Some y \<and> R x y"
    then obtain bs' y where r: "w' = w\<lparr>faults := bs'\<rparr>" "r = Some y" "R x y" by blast
    have "wp (collect f xs) (\<lambda>ys w'. (\<exists>bs'. w' = w\<lparr>faults := bs'\<rparr>) \<and> list_all2 R xs ys) (\<lambda>_ _. True) (w\<lparr>faults := bs'\<rparr>)"
      by (rule Cons.IH) (rule Cons.prems, simp)
    then show "wp (collect f xs) (\<lambda>rs. (\<lambda>w'. (\<exists>bs'. w' = w\<lparr>faults := bs'\<rparr>) \<and>
        list_all2 R (x # xs) (case r of None \<Rightarrow> rs | Some y \<Rightarrow> y # rs))) (\<lambda>_ _. True) w'"
      unfolding r by (rule wp_mono) (use r in auto)
  qed simp
qed

lemma wp_read_entry:
  assumes "lookup w (d @ [n]) \<noteq> None"
  shows "wp (read_entry d (n, is_directory)) (\<lambda>r w'. \<exists>bs' e. w' = w\<lparr>faults := bs'\<rparr> \<and> r = Some e
      \<and> n = env_id e @ ''.json'' \<and> lookup w (d @ [n]) = Some (File (CEnvelope e))) (\<lambda>_ _. True)
    (w\<lparr>faults := bs\<rparr>)"
  unfolding read_entry_def prod.case
proof (cases is_directory)
  case False
  have env: "lookup w (d @ [n]) = Some (File (CEnvelope e))"
    if "lookup w (d @ [n]) = Some (File c)" "as_envelope c = Some e" for c e
    using that by (cases c) (simp_all add: as_envelope_def)
  show "wp (if is_directory then raise (Fail ''unexpected inbox directory'')
     else and_then (attempt (readJSON as_envelope (d @ [n]))) (\<lambda>r. case r of
       Inl e \<Rightarrow> if errors_is e NotExist then ret None else raise e
     | Inr e \<Rightarrow>
         if n \<noteq> env_id e @ ''.json'' then raise (Fail ''inbox filename does not match envelope ID'')
         else ret (Some e))) (\<lambda>r w'. \<exists>bs' e. w' = w\<lparr>faults := bs'\<rparr> \<and> r = Some e
      \<and> n = env_id e @ ''.json'' \<and> lookup w (d @ [n]) = Some (File (CEnvelope e))) (\<lambda>_ _. True)
    (w\<lparr>faults := bs\<rparr>)"
    unfolding if_not_P [OF False] wp_simps wp_attempt
    by (rule wp_readJSON) (use assms env in auto)
qed simp

text \<open>The envelope files of a directory.\<close>

definition envelopes_in :: "world \<Rightarrow> path \<Rightarrow> envelope set" where
  "envelopes_in w d = {e. lookup w (d @ [env_id e @ ''.json'']) = Some (File (CEnvelope e))}"

lemma wp_list_dir:
  assumes "\<And>es bs. d = ap_inbox p @ components dir \<Longrightarrow> sorted_wrt env_less es \<Longrightarrow>
      set es = envelopes_in w d \<Longrightarrow> distinct (map env_id es) \<Longrightarrow>
      set (children w d) = (\<lambda>e. env_id e @ ''.json'') ` set es \<Longrightarrow> Q es (w\<lparr>faults := bs\<rparr>)"
    and "\<And>e w'. True \<Longrightarrow> E e w'"
    and "d = ap_inbox p @ components dir"
  shows "wp (list_dir p dir) Q E w"
  unfolding list_dir_def Let_def assms(3) [symmetric] wp_simps
proof (rule wp_os_read_dir)
  fix bs assume dir: "lookup w d = Some Dir"
  let ?R = "\<lambda>(n, _) e. n = env_id e @ ''.json'' \<and> lookup w (d @ [n]) = Some (File (CEnvelope e))"
  let ?xs = "map (\<lambda>n. (n, lookup w (d @ [n]) = Some Dir)) (children w d)"
  have "wp (collect (read_entry d) ?xs) (\<lambda>ys w'. (\<exists>bs'. w' = w\<lparr>faults := bs'\<rparr>) \<and> list_all2 ?R ?xs ys)
      (\<lambda>_ _. True) (w\<lparr>faults := bs\<rparr>)"
  proof (rule wp_collect_all)
    fix x bs' assume "x \<in> set ?xs"
    then obtain n b where x: "x = (n, b)" "lookup w (d @ [n]) \<noteq> None" by (auto simp: set_children)
    show "wp (read_entry d x) (\<lambda>r w'. \<exists>bs' y. w' = w\<lparr>faults := bs'\<rparr> \<and> r = Some y \<and> ?R x y)
        (\<lambda>_ _. True) (w\<lparr>faults := bs'\<rparr>)"
      unfolding x(1) by (rule wp_mono [OF wp_read_entry [OF x(2)]]) auto
  qed
  then show "wp (collect (read_entry d) ?xs) (\<lambda>x. Q (sort_slice env_less x)) E (w\<lparr>faults := bs\<rparr>)"
  proof (rule wp_mono)
    fix ys w' assume a: "(\<exists>bs'. w' = w\<lparr>faults := bs'\<rparr>) \<and> list_all2 ?R ?xs ys"
    then obtain bs' where w': "w' = w\<lparr>faults := bs'\<rparr>" by blast
    have len: "length ys = length (children w d)" using a by (auto dest: list_all2_lengthD)
    have at: "children w d ! k = env_id (ys ! k) @ ''.json''"
        "lookup w (d @ [children w d ! k]) = Some (File (CEnvelope (ys ! k)))" if "k < length ys" for k
      using a that len by (auto simp: list_all2_conv_all_nth)
    have names: "children w d = map (\<lambda>e. env_id e @ ''.json'') ys"
      by (rule nth_equalityI) (simp_all add: len at(1))
    have entry: "lookup w (d @ [env_id e @ ''.json'']) = Some (File (CEnvelope e))" if "e \<in> set ys" for e
      using that at by (metis in_set_conv_nth)
    have all: "set ys = envelopes_in w d"
    proof
      show "set ys \<subseteq> envelopes_in w d" using entry by (auto simp: envelopes_in_def)
      show "envelopes_in w d \<subseteq> set ys"
      proof
        fix e assume e: "e \<in> envelopes_in w d"
        then have "env_id e @ ''.json'' \<in> set (children w d)" by (auto simp: envelopes_in_def set_children)
        then obtain y where "y \<in> set ys" "env_id y = env_id e" unfolding names by auto
        then show "e \<in> set ys" using e entry [of y] by (simp add: envelopes_in_def)
      qed
    qed
    have ids: "distinct (map env_id ys)"
      using distinct_children [of w d] unfolding names by (simp add: distinct_map inj_on_def)
    show "Q (sort_slice env_less ys) w'"
      unfolding w' using all ids by_time.sorted_sort_slice [OF ids] names
      by (intro assms(1)) (simp_all add: assms(3))
  qed (rule assms(2), simp)
qed (rule assms(2), simp)

lemma ListNew_exact:
  assumes "ListNew p w = (Inr es, w')"
  shows "sorted_wrt env_less es \<and> distinct (map env_id es)
    \<and> set es = envelopes_in w (ap_inbox p @ [''new''])
    \<and> set (children w (ap_inbox p @ [''new''])) = (\<lambda>e. env_id e @ ''.json'') ` set es
    \<and> lookup w' = lookup w"
proof -
  have "wp (ListNew p) (\<lambda>es w'. sorted_wrt env_less es \<and> distinct (map env_id es)
      \<and> set es = envelopes_in w (ap_inbox p @ [''new''])
      \<and> set (children w (ap_inbox p @ [''new''])) = (\<lambda>e. env_id e @ ''.json'') ` set es
      \<and> lookup w' = lookup w) (\<lambda>_ _. True) w"
    unfolding ListNew_def
    by (rule wp_list_dir [where d = "ap_inbox p @ [''new'']"])
      (simp_all add: components_def separator_def fun_eq_iff)
  from wp_okD [OF this assms] show ?thesis .
qed

text \<open>
  C28 (list_in_delivery_order): a successful \<^verbatim>\<open>ListNew\<close> returns exactly the queued
  envelopes, each once, strictly ordered by creation time and, within one instant, by
  identity; it changes no file. It succeeds only when every directory entry is named after
  the envelope it holds, so one stray file in the directory makes it fail.
\<close>

theorem list_in_delivery_order:
  assumes "ListNew p w = (Inr es, w')"
  shows "sorted_wrt env_less es \<and> distinct (map env_id es)
    \<and> set es = envelopes_in w (ap_inbox p @ [''new''])
    \<and> set (children w (ap_inbox p @ [''new''])) = (\<lambda>e. env_id e @ ''.json'') ` set es
    \<and> lookup w' = lookup w"
  by (rule ListNew_exact [OF assms])

text \<open>
  Of two envelopes created at one instant whose
  identities are \<^verbatim>\<open>context-M\<close> and \<^verbatim>\<open>context-N\<close> with numbers M < N, whatever the number
  of digits, every successful listing puts the first before the second.
\<close>

theorem context_sequences_keep_order:
  fixes a b :: envelope
  assumes "ListNew p w = (Inr (xs @ b # ys), w')" "a \<in> set (xs @ b # ys)"
    and "env_created_at a = env_created_at b"
    and "env_id a = context_prefix @ m" "env_id b = context_prefix @ n"
    and "ParseUint m = Some k" "ParseUint n = Some l" "k < l"
  shows "a \<in> set xs"
proof -
  have sorted: "sorted_wrt env_less (xs @ b # ys)" using ListNew_exact [OF assms(1)] by blast
  have ab: "env_less a b" using assms by (simp add: env_less_def id_less_def)
  have "a \<noteq> b" using ab by_time.less_irrefl by blast
  moreover have "a \<notin> set ys"
  proof
    assume "a \<in> set ys"
    then have "env_less b a" using sorted by (auto simp: sorted_wrt_append)
    with ab show False using by_time.less_irrefl by_time.less_trans by blast
  qed
  ultimately show ?thesis using assms(2) by auto
qed

text \<open>An inbox with two context envelopes of one instant.\<close>

definition demo_envelope :: "string \<Rightarrow> envelope" where
  "demo_envelope i = blank_envelope\<lparr>env_id := i, env_created_at := 3\<rparr>"

lemma demo_envelope_simps [simp]:
  "env_id (demo_envelope i) = i" "env_created_at (demo_envelope i) = 3"
  by (simp_all add: demo_envelope_def)

definition demo_inbox :: "string list \<Rightarrow> (path \<times> node) list" where
  "demo_inbox ids = map (\<lambda>i. ([''t'', ''agents'', ''h1'', ''inbox'', ''new'', i @ ''.json''],
       File (CEnvelope (demo_envelope i)))) ids
     @ map (\<lambda>d. ([''t'', ''agents'', ''h1'', ''inbox''] @ d, Dir))
         [[], [''tmp''], [''new''], [''cur''], [''failed'']]
     @ ([''t'', ''team.json''], File (CTeam \<lparr>team_curfew = zero_time\<rparr>)) # demo_tree demo_hitch"

definition demo_inbox_world :: "string list \<Rightarrow> world" where
  "demo_inbox_world ids = demo_world (demo_codec demo_binding) (demo_inbox ids)"

lemma demo_inbox_world_simps [simp]:
  "faults (demo_inbox_world ids) = []" "lookup (demo_inbox_world ids) q = map_of (demo_inbox ids) q"
  "now (demo_inbox_world ids) = 5 * second" "held (demo_inbox_world ids) = []"
  "busy (demo_inbox_world ids) = []" "shorts (demo_inbox_world ids) = []"
  by (simp_all add: demo_inbox_world_def lookup_def)

lemma components_new [simp]:
  "components ''new'' = [''new'']" "components ''cur'' = [''cur'']"
  "components ''failed'' = [''failed'']" "components ''tmp/drop'' = [''tmp'', ''drop'']"
  by (simp_all add: components_def separator_def)

lemma demo_list:
  "ListNew demo_paths (demo_inbox_world [''context-9'', ''context-10'']) =
     (Inr [demo_envelope ''context-9'', demo_envelope ''context-10''], demo_inbox_world [''context-9'', ''context-10''])"
proof -
  let ?w = "demo_inbox_world [''context-9'', ''context-10'']"
  have kids: "children ?w [''t'', ''agents'', ''h1'', ''inbox'', ''new''] = [''context-10.json'', ''context-9.json'']"
    by (simp add: children_def demo_inbox_world_def demo_inbox_def demo_tree_def)
  have less: "env_less (demo_envelope ''context-9'') (demo_envelope ''context-10'')"
    "\<not> env_less (demo_envelope ''context-10'') (demo_envelope ''context-9'')"
    by (simp_all add: env_less_def id_less_def has_prefix_def trim_prefix_def context_prefix_def
        ParseUint_def digit_def Let_def)
  show ?thesis
    by (simp add: ListNew_def list_dir_def Let_def and_then_def os_read_dir_def sys_quiet kids
        demo_inbox_def read_entry_def attempt_def readJSON_quiet
        as_envelope_def ret_def less)
qed

theorem list_in_delivery_order_witness:
  "envelopes_in (demo_inbox_world [''context-9'', ''context-10'']) [''t'', ''agents'', ''h1'', ''inbox'', ''new'']
     = {demo_envelope ''context-9'', demo_envelope ''context-10''}"
  using list_in_delivery_order [OF demo_list] by simp

theorem context_sequences_keep_order_witness:
  "demo_envelope ''context-9'' \<in> set (takeWhile (\<lambda>e. env_id e \<noteq> ''context-10'')
     (case fst (ListNew demo_paths (demo_inbox_world [''context-9'', ''context-10''])) of
        Inr es \<Rightarrow> es | Inl _ \<Rightarrow> []))"
proof -
  have "ListNew demo_paths (demo_inbox_world [''context-9'', ''context-10'']) =
      (Inr ([demo_envelope ''context-9''] @ demo_envelope ''context-10'' # []),
       demo_inbox_world [''context-9'', ''context-10''])"
    using demo_list by simp
  from context_sequences_keep_order [OF this, of "demo_envelope ''context-9''" "''9''" "''10''" 9 10]
  show ?thesis unfolding demo_list by (simp add: context_prefix_def ParseUint_def digit_def)
qed

end
