(* ===== verification/Store_Idle.thy ===== *)
theory Store_Idle
  imports Store_Envelopes
begin

text \<open>
  The team's idle ledger (\<^verbatim>\<open>store/team_idle.go\<close>): the count of publications to each agent,
  the intent that makes a publication count exactly once although the publisher can stop
  at any call, and the replaceable observation window. The handle \<^verbatim>\<open>*LockedIdle\<close> is the
  entry of its lock file in the world's \<^verbatim>\<open>held\<close> list; the store's publication \<^verbatim>\<open>PublishNew\<close>
  (\<^verbatim>\<open>store/inbox.go\<close>) is here because it holds that lock over its link.
\<close>

section \<open>The lock\<close>

definition idle_lock :: "team_paths \<Rightarrow> path" where
  "idle_lock p = tp_directory p @ [''idle.lock'']"

definition idle_file :: "team_paths \<Rightarrow> path" where
  "idle_file p = tp_directory p @ [''idle.json'']"

definition window_file :: "team_paths \<Rightarrow> path" where
  "window_file p = tp_directory p @ [''idle-window.json'']"

definition LockIdle :: "team_paths \<Rightarrow> unit io" where
  "LockIdle p =
     and_then (os_open_create (idle_lock p)) (\<lambda>_.
     and_then (act (\<lambda>w. if idle_lock p \<in> set (busy w) \<union> fst ` set (held w)
         then Inl WouldBlock else Inr w)) (\<lambda>_.
     and_then sys (\<lambda>_.
     and_then (os_stat (idle_lock p)) (\<lambda>_.
     and_then (os_stat (tp_state p)) (\<lambda>_.
     updates (\<lambda>w. w\<lparr>held := (idle_lock p, None) # held w\<rparr>))))))"

definition IdleClose :: "team_paths \<Rightarrow> unit io" where
  "IdleClose p =
     and_then (reads (\<lambda>w. idle_lock p \<in> fst ` set (held w))) (\<lambda>h.
       if \<not> h then ret ()
       else and_then (updates (\<lambda>w. w\<lparr>held := AList.delete (idle_lock p) (held w)\<rparr>)) (\<lambda>_. sys))"

definition IdleSave :: "team_paths \<Rightarrow> idle_state \<Rightarrow> unit io" where
  "IdleSave p s =
     and_then (reads (\<lambda>w. idle_lock p \<in> fst ` set (held w))) (\<lambda>h.
       if \<not> h then raise (Fail ''idle lock is not held'') else atomicJSON (idle_file p) (CIdle s))"

section \<open>The ledger\<close>

definition no_member :: idle_member where
  "no_member = \<lparr>mem_id = '''', mem_name = '''', mem_generation = '''', mem_session = '''', mem_work = 0\<rparr>"

definition no_idle :: idle_state where
  "no_idle = \<lparr>idle_work = [], idle_pending = None, idle_initialized = False, idle_lead = no_member,
     idle_members = [], idle_armed = False, idle_notice_of = None\<rparr>"

text \<open>A missing key of a Go map reads as the zero value.\<close>

definition work_of :: "idle_state \<Rightarrow> hitch_id \<Rightarrow> uint64" where
  "work_of s i = (case map_of (idle_work s) i of None \<Rightarrow> 0 | Some n \<Rightarrow> n)"

definition add_work :: "idle_state \<Rightarrow> hitch_id \<Rightarrow> idle_state" where
  "add_work s i = s\<lparr>idle_work := AList.update i (work_of s i + 1) (idle_work s)\<rparr>"

text \<open>The loop over the directories in which a published envelope can be.\<close>

fun count_pending :: "agent_paths \<Rightarrow> idle_publication \<Rightarrow> string list \<Rightarrow> idle_state \<Rightarrow> idle_state io" where
  "count_pending ap pub [] s = ret s"
| "count_pending ap pub (dir # dirs) s =
     and_then (attempt (ReadEnvelope ap dir (pub_id pub))) (\<lambda>r. case r of
       Inr _ \<Rightarrow>
         if work_of s (pub_recipient pub) = 0xFFFFFFFFFFFFFFFF
         then raise (Fail ''idle work revision exhausted'')
         else ret (add_work s (pub_recipient pub))
     | Inl e \<Rightarrow> if errors_is e NotExist then count_pending ap pub dirs s else raise e)"

definition resolve_pending :: "team_paths \<Rightarrow> idle_state \<Rightarrow> idle_state io" where
  "resolve_pending p s = (case idle_pending s of
       None \<Rightarrow> ret s
     | Some pub \<Rightarrow>
         and_then (Agent p (pub_recipient pub)) (\<lambda>ap.
         and_then (count_pending ap pub [''new'', ''cur'', ''failed''] s) (\<lambda>s'.
         let s'' = s'\<lparr>idle_pending := None\<rparr> in
         and_then (IdleSave p s'') (\<lambda>_. ret s''))))"

definition keep_work :: "team_paths \<Rightarrow> hitch_id \<times> uint64 \<Rightarrow> (hitch_id \<times> uint64) option io" where
  "keep_work p entry =
     and_then (Agent p (fst entry)) (\<lambda>ap.
     and_then (attempt (os_stat (ap_state ap))) (\<lambda>r. case r of
       Inl e \<Rightarrow> if errors_is e NotExist then ret None else raise e
     | Inr _ \<Rightarrow> ret (Some entry)))"

definition IdleRead :: "team_paths \<Rightarrow> idle_state io" where
  "IdleRead p =
     and_then (attempt (readJSON as_idle (idle_file p))) (\<lambda>r.
     and_then (case r of
         Inl e \<Rightarrow> if errors_is e NotExist then ret no_idle else raise e
       | Inr s \<Rightarrow> ret s) (\<lambda>s0.
     and_then (resolve_pending p s0) (\<lambda>s.
     and_then (collect (keep_work p) (idle_work s)) (\<lambda>kept.
       if kept = idle_work s then ret s
       else let s' = s\<lparr>idle_work := kept\<rparr> in and_then (IdleSave p s') (\<lambda>_. ret s')))))"

section \<open>Publication\<close>

definition idleTeam :: "agent_paths \<Rightarrow> team_paths" where
  "idleTeam p = (let d = butlast (butlast (ap_directory p)) in
     \<lparr>tp_directory = d, tp_state = d @ [''team.json''], tp_log = [], tp_names = [],
      tp_agents = d @ [''agents'']\<rparr>)"

text \<open>
  Returns the held lock, which the caller closes; an error has closed it.
\<close>

definition prepareIdlePublication :: "agent_paths \<Rightarrow> envelope \<Rightarrow> unit io" where
  "prepareIdlePublication p e = (let t = idleTeam p in
     and_then (LockIdle t) (\<lambda>_.
     and_then (attempt
       (and_then (IdleRead t) (\<lambda>s.
        and_then (EnvelopePath p ''new'' (env_id e)) (\<lambda>path.
        and_then (attempt (os_stat path)) (\<lambda>r. case r of
          Inr _ \<Rightarrow> raise EnvelopeQueued
        | Inl err \<Rightarrow>
            if errors_is err NotExist
            then IdleSave t (s\<lparr>idle_pending :=
                   Some \<lparr>pub_recipient = last (ap_directory p), pub_id = env_id e\<rparr>\<rparr>)
            else raise err))))) (\<lambda>r. case r of
       Inl err \<Rightarrow> and_then (attempt (IdleClose t)) (\<lambda>_. raise err)
     | Inr _ \<Rightarrow> ret ())))"

definition PublishNew :: "agent_paths \<Rightarrow> envelope \<Rightarrow> unit io" where
  "PublishNew p e =
     and_then (EnvelopePath p ''new'' (env_id e)) (\<lambda>path.
     and_then (jsonTemp (ap_inbox p @ [''tmp''])) (\<lambda>_.
     and_then (attempt (os_stat path)) (\<lambda>st. case st of
       Inr _ \<Rightarrow> raise EnvelopeQueued
     | Inl err \<Rightarrow>
         if \<not> errors_is err NotExist then raise err
         else and_then (prepareIdlePublication p e) (\<lambda>_.
              and_then (attempt (os_link_new (CEnvelope e) path)) (\<lambda>ln.
              and_then (attempt (IdleClose (idleTeam p))) (\<lambda>_. case ln of
                Inr _ \<Rightarrow> ret ()
              | Inl err \<Rightarrow> raise (if errors_is err Exist then EnvelopeQueued else err)))))))"

definition resolveIdlePublication :: "agent_paths \<Rightarrow> unit io" where
  "resolveIdlePublication p = (let t = idleTeam p in
     and_then (LockIdle t) (\<lambda>_.
     and_then (attempt (IdleRead t)) (\<lambda>r.
     and_then (attempt (IdleClose t)) (\<lambda>_. case r of Inl e \<Rightarrow> raise e | Inr _ \<Rightarrow> ret ()))))"

section \<open>The observation window\<close>

definition ReadWindow :: "team_paths \<Rightarrow> idle_window option io" where
  "ReadWindow p = and_then (attempt (readJSON as_window (window_file p))) (\<lambda>r.
     ret (case r of Inl _ \<Rightarrow> None | Inr x \<Rightarrow> Some x))"

definition SaveWindow :: "team_paths \<Rightarrow> idle_window option \<Rightarrow> unit io" where
  "SaveWindow p window =
     and_then (reads (\<lambda>w. idle_lock p \<in> fst ` set (held w))) (\<lambda>h.
       if \<not> h then raise (Fail ''idle lock is not held'')
       else case window of
         None \<Rightarrow> removeIfPresent (window_file p)
       | Some x \<Rightarrow> atomicJSON (window_file p) (CWindow x))"

section \<open>Envelopes and counters of a world\<close>

definition env_path :: "agent_paths \<Rightarrow> string \<Rightarrow> envelope_id \<Rightarrow> path" where
  "env_path p dir i = join_path (ap_inbox p @ components dir) (i @ ''.json'')"

lemma wp_EnvelopePath [wp_intro]:
  assumes "segment i \<Longrightarrow> dir \<in> set inbox_dirs \<Longrightarrow> Q (env_path p dir i) w"
    and "\<And>m. \<not> segment i \<or> dir \<notin> set inbox_dirs \<Longrightarrow> E (Fail m) w"
  shows "wp (EnvelopePath p dir i) Q E w"
  using assms by (auto simp: EnvelopePath_def check_segment_def env_path_def inbox_dirs_def)

definition stored_envelope :: "agent_paths \<Rightarrow> world \<Rightarrow> string \<Rightarrow> envelope_id \<Rightarrow> envelope \<Rightarrow> bool" where
  "stored_envelope p w dir i e \<longleftrightarrow> lookup w (env_path p dir i) = Some (File (CEnvelope e)) \<and> env_id e = i"

lemma wp_ReadEnvelope [wp_intro]:
  assumes "\<And>bs e. stored_envelope p w dir i e \<Longrightarrow> Q e (w\<lparr>faults := bs\<rparr>)"
    and "\<And>bs e. (errors_is e NotExist \<Longrightarrow> lookup w (env_path p dir i) = None) \<Longrightarrow> E e (w\<lparr>faults := bs\<rparr>)"
  shows "wp (ReadEnvelope p dir i) Q E w"
proof -
  have fail: "E (Fail m) (w\<lparr>faults := bs\<rparr>)" for m bs by (rule assms(2)) simp
  have "E (Fail m) w" for m using fail [of m "faults w"] by simp
  moreover have env: "lookup w q = Some (File (CEnvelope e))"
    if "lookup w q = Some (File c)" "as_envelope c = Some e" for c e q
    using that by (cases c) (simp_all add: as_envelope_def)
  ultimately show ?thesis
    unfolding ReadEnvelope_def wp_simps
    by (intro wp_EnvelopePath wp_readJSON) (auto intro!: assms fail simp: stored_envelope_def)
qed

definition ledger :: "team_paths \<Rightarrow> world \<Rightarrow> idle_state" where
  "ledger p w = (case lookup w (idle_file p) of Some (File (CIdle s)) \<Rightarrow> s | _ \<Rightarrow> no_idle)"

definition found :: "team_paths \<Rightarrow> world \<Rightarrow> string list \<Rightarrow> idle_publication \<Rightarrow> bool" where
  "found p w dirs pub \<longleftrightarrow>
     (\<exists>dir \<in> set dirs. \<exists>e. stored_envelope (agent_of p (pub_recipient pub)) w dir (pub_id pub) e)"

abbreviation filed_dirs :: "string list" where "filed_dirs \<equiv> [''new'', ''cur'', ''failed'']"

definition registered :: "team_paths \<Rightarrow> world \<Rightarrow> hitch_id \<Rightarrow> bool" where
  "registered p w i \<longleftrightarrow> lookup w (ap_state (agent_of p i)) \<noteq> None"

text \<open>
  The publications to an agent: those the ledger has counted and the one it has recorded
  the intent of, when its envelope exists.
\<close>

definition publications :: "team_paths \<Rightarrow> world \<Rightarrow> hitch_id \<Rightarrow> nat" where
  "publications p w i = unat (work_of (ledger p w) i) + (case idle_pending (ledger p w) of
       None \<Rightarrow> 0
     | Some pub \<Rightarrow> if pub_recipient pub = i \<and> found p w filed_dirs pub then 1 else 0)"

text \<open>Paths below the agents' directory are unaffected by the ledger's files.\<close>

definition same_agents :: "team_paths \<Rightarrow> world \<Rightarrow> world \<Rightarrow> bool" where
  "same_agents p w w' \<longleftrightarrow> (\<forall>q. lookup w' (tp_agents p @ q) = lookup w (tp_agents p @ q))"

lemma agent_of_below:
  "\<exists>q. ap_state (agent_of p i) = tp_agents p @ q" "\<exists>q. env_path (agent_of p i) dir j = tp_agents p @ q"
  by (auto simp: agent_of_def Let_def join_path_def env_path_def)

lemma same_agentsD:
  assumes "same_agents p w w'"
  shows "registered p w' i = registered p w i" "found p w' dirs pub = found p w dirs pub"
    "stored_envelope (agent_of p i) w' dir j e = stored_envelope (agent_of p i) w dir j e"
proof -
  have st: "lookup w' (ap_state (agent_of p i)) = lookup w (ap_state (agent_of p i))" for i
    using assms agent_of_below(1) [of p i] by (auto simp: same_agents_def)
  have env: "lookup w' (env_path (agent_of p i) dir j) = lookup w (env_path (agent_of p i) dir j)" for i dir j
    using assms agent_of_below(2) [of p i dir j] by (auto simp: same_agents_def)
  show "registered p w' i = registered p w i" by (simp add: registered_def st)
  show "stored_envelope (agent_of p i) w' dir j e = stored_envelope (agent_of p i) w dir j e"
    by (simp add: stored_envelope_def env)
  show "found p w' dirs pub = found p w dirs pub" by (simp add: found_def stored_envelope_def env)
qed

lemma same_agents_simps [simp]:
  "same_agents p w w" "same_agents p w (w'\<lparr>faults := bs\<rparr>) = same_agents p w w'"
  "same_agents p w (w'\<lparr>held := hs\<rparr>) = same_agents p w w'"
  by (simp_all add: same_agents_def)

lemma same_agents_trans: "same_agents p u v \<Longrightarrow> same_agents p v w \<Longrightarrow> same_agents p u w"
  by (simp add: same_agents_def)

lemma same_agents_put: "\<forall>q. x \<noteq> tp_agents p @ q \<Longrightarrow> same_agents p w (put x n w)"
  by (auto simp: same_agents_def)

lemma ledger_simps [simp]:
  "ledger p (w\<lparr>faults := bs\<rparr>) = ledger p w" "ledger p (w\<lparr>held := hs\<rparr>) = ledger p w"
  "ledger p (put (idle_file p) (File (CIdle s)) w) = s"
  "q \<noteq> idle_file p \<Longrightarrow> ledger p (put q n w) = ledger p w"
  by (simp_all add: ledger_def)

lemma publications_cong:
  "same_agents p w w' \<Longrightarrow> ledger p w' = ledger p w \<Longrightarrow> publications p w' i = publications p w i"
  by (simp add: publications_def same_agentsD split: option.split)

lemma publications_simps [simp]:
  "publications p (w\<lparr>faults := bs\<rparr>) i = publications p w i"
  "publications p (w\<lparr>held := hs\<rparr>) i = publications p w i"
  by (rule publications_cong; simp)+

text \<open>A team whose own files lie beside its agents' directory.\<close>

definition team_layout :: "team_paths \<Rightarrow> bool" where
  "team_layout p \<longleftrightarrow> (\<forall>q. idle_file p \<noteq> tp_agents p @ q \<and> idle_lock p \<noteq> tp_agents p @ q)"

lemma team_layoutD: "team_layout p \<Longrightarrow> idle_file p \<noteq> tp_agents p @ q" "team_layout p \<Longrightarrow> idle_lock p \<noteq> tp_agents p @ q"
    "idle_file p \<noteq> idle_lock p"
  by (auto simp: team_layout_def idle_file_def idle_lock_def)

section \<open>Resolving a recorded intent\<close>

lemma wp_count_pending:
  assumes "\<And>bs. (found p w dirs pub \<longrightarrow> work_of s (pub_recipient pub) \<noteq> 0xFFFFFFFFFFFFFFFF) \<Longrightarrow>
      Q (if found p w dirs pub then add_work s (pub_recipient pub) else s) (w\<lparr>faults := bs\<rparr>)"
    and "\<And>bs e. E e (w\<lparr>faults := bs\<rparr>)"
  shows "wp (count_pending (agent_of p (pub_recipient pub)) pub dirs s) Q E w"
  using assms
proof (induction dirs arbitrary: w)
  case Nil
  then show ?case using Nil.prems(1) [of "faults w"] by (simp add: found_def)
next
  case (Cons dir dirs)
  let ?ap = "agent_of p (pub_recipient pub)"
  show ?case
    unfolding count_pending.simps wp_simps wp_attempt
  proof (rule wp_ReadEnvelope)
    fix bs e assume "stored_envelope ?ap w dir (pub_id pub) e"
    then have "found p w (dir # dirs) pub" by (auto simp: found_def)
    then show "wp (case Inr e of Inr _ \<Rightarrow>
         if work_of s (pub_recipient pub) = 0xFFFFFFFFFFFFFFFF
         then raise (Fail ''idle work revision exhausted'')
         else ret (add_work s (pub_recipient pub))
       | Inl e \<Rightarrow> if errors_is e NotExist then count_pending ?ap pub dirs s else raise e) Q E (w\<lparr>faults := bs\<rparr>)"
      using Cons.prems by auto
  next
    fix bs e assume e: "errors_is e NotExist \<Longrightarrow> lookup w (env_path ?ap dir (pub_id pub)) = None"
    show "wp (case Inl e of Inr _ \<Rightarrow>
         if work_of s (pub_recipient pub) = 0xFFFFFFFFFFFFFFFF
         then raise (Fail ''idle work revision exhausted'')
         else ret (add_work s (pub_recipient pub))
       | Inl e \<Rightarrow> if errors_is e NotExist then count_pending ?ap pub dirs s else raise e) Q E (w\<lparr>faults := bs\<rparr>)"
    proof (cases "errors_is e NotExist")
      case True
      then have "found p (w\<lparr>faults := bs\<rparr>) dirs pub = found p w (dir # dirs) pub"
        using e by (auto simp: found_def stored_envelope_def)
      then show ?thesis
        using True Cons.IH [of "w\<lparr>faults := bs\<rparr>"] Cons.prems by simp
    next
      case False
      then show ?thesis using Cons.prems by simp
    qed
  qed
qed

lemma wp_IdleSave [wp_intro]:
  assumes "\<And>bs. Q () ((put (idle_file p) (File (CIdle s)) w)\<lparr>faults := bs\<rparr>)" "\<And>bs e. E e (w\<lparr>faults := bs\<rparr>)"
  shows "wp (IdleSave p s) Q E w"
proof -
  have "E e w" for e using assms(2) [of e "faults w"] by simp
  then show ?thesis
    unfolding IdleSave_def wp_simps using assms by (auto intro!: wp_atomicJSON)
qed

lemma wp_Agent:
  assumes "Q (agent_of p i) w" "\<And>e. E e w"
  shows "wp (Agent p i) Q E w"
  using assms by (auto simp: Agent_def check_segment_def)

definition resolved :: "team_paths \<Rightarrow> world \<Rightarrow> idle_state \<Rightarrow> bool" where
  "resolved p w s \<longleftrightarrow> idle_pending s = None \<and> (\<forall>i. unat (work_of s i) = publications p w i)"

lemma unat_add_one: "(x :: uint64) \<noteq> 0xFFFFFFFFFFFFFFFF \<Longrightarrow> unat (x + 1) = unat x + 1"
proof -
  assume "x \<noteq> 0xFFFFFFFFFFFFFFFF"
  then have "1 + x \<noteq> 0" using add_eq_0_iff [of 1 x] by auto
  then show ?thesis using unatSuc [of x] by (simp add: add.commute)
qed

lemma work_of_add:
  "work_of (add_work s i) j = (if j = i then work_of s i + 1 else work_of s j)"
  by (simp add: work_of_def add_work_def update_conv')

lemma idle_upd_simps [simp]:
  "idle_pending (add_work s i) = idle_pending s"
  "work_of (s\<lparr>idle_pending := x\<rparr>) i = work_of s i"
  by (simp_all add: add_work_def work_of_def)

lemma wp_resolve_pending:
  assumes lay: "team_layout p"
    and "\<And>s w'. changed_only {idle_file p} w w' \<Longrightarrow> held w' = held w \<Longrightarrow> ledger p w' = s \<Longrightarrow>
      resolved p w s \<Longrightarrow> Q s w'"
    and "\<And>bs e. E e (w\<lparr>faults := bs\<rparr>)"
  shows "wp (resolve_pending p (ledger p w)) Q E w"
proof (cases "idle_pending (ledger p w)")
  case None
  then have "resolved p w (ledger p w)" by (simp add: resolved_def publications_def)
  then show ?thesis using None assms(2) [of w "ledger p w"] by (simp add: resolve_pending_def)
next
  case (Some pub)
  let ?s = "ledger p w"
  let ?new = "\<lambda>s. s\<lparr>idle_pending := None\<rparr>"
  have fail: "E e w" for e using assms(3) [of e "faults w"] by simp
  have absent: "resolved p w (?new ?s)" if "\<not> found p w filed_dirs pub"
    using that Some by (simp add: resolved_def publications_def)
  have present: "resolved p w (?new (add_work ?s (pub_recipient pub)))"
    if "found p w filed_dirs pub" "work_of ?s (pub_recipient pub) \<noteq> 0xFFFFFFFFFFFFFFFF"
    using that Some by (simp add: resolved_def publications_def work_of_add unat_add_one)
  show ?thesis
    unfolding resolve_pending_def Some option.case wp_simps Let_def
    by (intro wp_Agent wp_count_pending wp_IdleSave)
      (auto intro!: assms fail absent present changed_only_put)
qed

lemma wp_partial [simp]:
  "wp (ret x) Q E = Q x" "wp (raise e) Q E = E e"
  "wp (and_then m f) Q E = wp m (\<lambda>x. wp (f x) Q E) E"
  "wp (attempt m) R E = wp m (\<lambda>x. R (Inr x)) (\<lambda>e. R (Inl e))"
  by (simp_all add: fun_eq_iff)

lemma wp_keep_work:
  assumes "\<And>bs. Q (filter (\<lambda>x. registered p w (fst x)) xs) (w\<lparr>faults := bs\<rparr>)"
    and "\<And>bs e. E e (w\<lparr>faults := bs\<rparr>)"
  shows "wp (collect (keep_work p) xs) Q E w"
  using assms
proof (induction xs arbitrary: w Q)
  case Nil
  then show ?case using Nil.prems(1) [of "faults w"] by simp
next
  case (Cons x xs)
  have fail: "E e w" for e using Cons.prems(2) [of e "faults w"] by simp
  have rest: "wp (collect (keep_work p) xs)
      (\<lambda>rs. Q (case r of None \<Rightarrow> rs | Some y \<Rightarrow> y # rs)) E (w\<lparr>faults := bs\<rparr>)"
    if "r = (if registered p w (fst x) then Some x else None)" for r bs
    by (rule Cons.IH) (use Cons.prems that in \<open>auto simp: registered_def\<close>)
  show ?case
    unfolding collect.simps keep_work_def [of p x] wp_partial
  proof (rule wp_Agent, rule wp_os_stat, goal_cases)
    case (1 bs)
    then show ?case using rest [of "Some x" bs] by (simp add: registered_def)
  next
    case (2 bs e)
    then show ?case using rest [of None bs] Cons.prems(2) by (auto simp: registered_def)
  qed (rule fail)
qed

lemma work_of_filter:
  "work_of (s\<lparr>idle_work := filter (\<lambda>x. P (fst x)) (idle_work s)\<rparr>) i = (if P i then work_of s i else 0)"
proof -
  have "map_of (filter (\<lambda>x. P (fst x)) xs) i = (if P i then map_of xs i else None)" for xs :: "(hitch_id \<times> uint64) list"
    by (induction xs) auto
  then show ?thesis by (simp add: work_of_def)
qed

text \<open>What reading the ledger does: the counts of registered agents are kept.\<close>

definition counts_kept :: "team_paths \<Rightarrow> world \<Rightarrow> world \<Rightarrow> bool" where
  "counts_kept p w w' \<longleftrightarrow> (\<forall>i. registered p w i \<longrightarrow> publications p w' i = publications p w i)"

lemma registered_simps [simp]:
  "registered p (w\<lparr>faults := bs\<rparr>) i = registered p w i"
  "registered p (w\<lparr>held := hs\<rparr>) i = registered p w i"
  by (simp_all add: registered_def)

lemma counts_kept_simps [simp]:
  "counts_kept p w w" "counts_kept p (w\<lparr>faults := bs\<rparr>) u = counts_kept p w u"
  "counts_kept p w (u\<lparr>held := hs\<rparr>) = counts_kept p w u"
  "counts_kept p w (u\<lparr>faults := bs\<rparr>) = counts_kept p w u"
  by (simp_all add: counts_kept_def)

lemma wp_IdleRead:
  assumes lay: "team_layout p"
    and "\<And>s w'. changed_only {idle_file p} w w' \<Longrightarrow> held w' = held w \<Longrightarrow> ledger p w' = s \<Longrightarrow>
      idle_pending s = None \<Longrightarrow> counts_kept p w w' \<Longrightarrow> Q s w'"
    and "\<And>e w'. changed_only {idle_file p} w w' \<Longrightarrow> held w' = held w \<Longrightarrow> counts_kept p w w' \<Longrightarrow> E e w'"
  shows "wp (IdleRead p) Q E w"
proof -
  have same: "same_agents p w v" if "changed_only {idle_file p} w v" for v
    using that team_layoutD(1) [OF lay, THEN not_sym] by (auto simp: same_agents_def changed_only_def)
  have fail: "E e (w\<lparr>faults := bs\<rparr>)" for e bs
    by (rule assms(3)) (simp_all add: counts_kept_def publications_cong)
  have start: "wp (resolve_pending p (ledger p w)) (\<lambda>s. wp (and_then (collect (keep_work p) (idle_work s)) (\<lambda>kept.
       if kept = idle_work s then ret s
       else let s' = s\<lparr>idle_work := kept\<rparr> in and_then (IdleSave p s') (\<lambda>_. ret s'))) Q E) E (w\<lparr>faults := bs\<rparr>)" for bs
  proof -
    have "wp (resolve_pending p (ledger p (w\<lparr>faults := bs\<rparr>))) (\<lambda>s. wp (and_then (collect (keep_work p) (idle_work s)) (\<lambda>kept.
       if kept = idle_work s then ret s
       else let s' = s\<lparr>idle_work := kept\<rparr> in and_then (IdleSave p s') (\<lambda>_. ret s'))) Q E) E (w\<lparr>faults := bs\<rparr>)"
    proof (rule wp_resolve_pending [OF lay])
      fix s v
      assume v: "changed_only {idle_file p} (w\<lparr>faults := bs\<rparr>) v" "held v = held (w\<lparr>faults := bs\<rparr>)"
        "ledger p v = s" "resolved p (w\<lparr>faults := bs\<rparr>) s"
      have w: "changed_only {idle_file p} w v" "held v = held w" using v by simp_all
      note agents = same_agentsD [OF same [OF w(1)]]
      have none: "idle_pending s = None" and work: "unat (work_of s i) = publications p w i" for i
        using v(4) publications_cong [of p w "w\<lparr>faults := bs\<rparr>"] by (simp_all add: resolved_def)
      have kept: "counts_kept p w u" if "ledger p u = s'" "idle_pending s' = None"
        "\<forall>i. registered p w i \<longrightarrow> work_of s' i = work_of s i" for u s'
        using that work by (simp add: counts_kept_def publications_def)
      let ?s' = "s\<lparr>idle_work := filter (\<lambda>x. registered p v (fst x)) (idle_work s)\<rparr>"
      have pruned: "\<forall>i. registered p w i \<longrightarrow> work_of ?s' i = work_of s i"
        using work_of_filter [where P = "registered p v" and s = s] agents(1) by simp
      have saved: "wp (and_then (IdleSave p ?s') (\<lambda>_. ret ?s')) Q E (v\<lparr>faults := bs'\<rparr>)" for bs'
        unfolding wp_simps
        by (intro wp_IdleSave assms(2,3) kept [where s' = ?s'] kept [where s' = s])
          (use w v(3) none pruned in \<open>auto intro: changed_only_put\<close>)
      show "wp (and_then (collect (keep_work p) (idle_work s)) (\<lambda>kept.
         if kept = idle_work s then ret s
         else let s' = s\<lparr>idle_work := kept\<rparr> in and_then (IdleSave p s') (\<lambda>_. ret s'))) Q E v"
        unfolding wp_simps Let_def
      proof (rule wp_keep_work)
        fix bs'
        show "wp (if filter (\<lambda>x. registered p v (fst x)) (idle_work s) = idle_work s then ret s
            else and_then (IdleSave p ?s') (\<lambda>_. ret ?s')) Q E (v\<lparr>faults := bs'\<rparr>)"
          using saved assms(2) [of "v\<lparr>faults := bs'\<rparr>" s] kept [of "v\<lparr>faults := bs'\<rparr>" s] w v(3) none by auto
      next
        fix bs' e
        show "E e (v\<lparr>faults := bs'\<rparr>)"
          using assms(3) [of "v\<lparr>faults := bs'\<rparr>"] kept [of "v\<lparr>faults := bs'\<rparr>" s] w v(3) none by auto
      qed
    qed (simp add: fail)
    then show ?thesis by simp
  qed
  have idle: "ledger p w = s" if "lookup w (idle_file p) = Some (File c)" "as_idle c = Some s" for c s
    using that by (cases c) (simp_all add: as_idle_def ledger_def)
  show ?thesis
    unfolding IdleRead_def wp_partial
  proof (rule wp_readJSON, goal_cases)
    case (1 bs c s)
    then show ?case using start [of bs] idle by simp
  next
    case (2 bs e)
    then have "errors_is e NotExist \<Longrightarrow> ledger p w = no_idle" by (simp add: ledger_def)
    then show ?case using start [of bs] fail by (cases "errors_is e NotExist") simp_all
  qed
qed

section \<open>The lock around the ledger\<close>

lemma wp_LockIdle:
  assumes "\<And>w'. changed_only {idle_lock p} w w' \<Longrightarrow> held w' = (idle_lock p, None) # held w \<Longrightarrow> Q () w'"
    and "\<And>e w'. changed_only {idle_lock p} w w' \<Longrightarrow> held w' = held w \<Longrightarrow> E e w'"
  shows "wp (LockIdle p) Q E w"
proof -
  have locked: "wp (act (\<lambda>w. if idle_lock p \<in> set (busy w) \<union> fst ` set (held w) then Inl WouldBlock else Inr w))
      (\<lambda>_. wp (and_then sys (\<lambda>_. and_then (os_stat (idle_lock p)) (\<lambda>_. and_then (os_stat (tp_state p))
        (\<lambda>_. updates (\<lambda>w. w\<lparr>held := (idle_lock p, None) # held w\<rparr>))))) Q E) E v"
    if v: "changed_only {idle_lock p} w v" "held v = held w" for v
    unfolding wp_partial
  proof (rule wp_act, goal_cases)
    case (1 bs u)
    then have "u = v\<lparr>faults := bs\<rparr>" by (auto split: if_splits)
    then show ?case by (auto intro!: wp_sys wp_os_stat assms simp: v)
  qed (auto intro!: assms simp: v)
  show ?thesis
    unfolding LockIdle_def wp_partial
    by (intro wp_os_open_create locked [unfolded wp_partial] assms(2)) (auto intro: changed_only_put)
qed

lemma wp_IdleClose:
  assumes "\<And>bs hs. Q () (w\<lparr>held := hs, faults := bs\<rparr>)" "\<And>bs hs e. E e (w\<lparr>held := hs, faults := bs\<rparr>)"
  shows "wp (IdleClose p) Q E w"
proof (cases "idle_lock p \<in> fst ` set (held w)")
  case True
  have "wp sys Q E (w\<lparr>held := AList.delete (idle_lock p) (held w)\<rparr>)"
    by (rule wp_sys) (rule assms)+
  then show ?thesis using True by (simp add: IdleClose_def)
next
  case False
  then show ?thesis using assms(1) [of "faults w" "held w"] by (simp add: IdleClose_def)
qed

text \<open>The team of an agent's paths, and the paths below it.\<close>

lemma idle_paths:
  assumes "plain_segment i" "p = agent_of (team_of d) i"
  shows "tp_agents (idleTeam p) = d @ [''agents'']" "idle_file (idleTeam p) = d @ [''idle.json'']"
    "idle_lock (idleTeam p) = d @ [''idle.lock'']" "team_layout (idleTeam p)"
    "last (ap_directory p) = i" "ap_inbox p = d @ [''agents'', i, ''inbox'']"
    "env_path (agent_of (idleTeam p) i) dir j = env_path p dir j"
proof -
  note paths = agent_of_plain [OF assms(1), of d, folded assms(2)]
  have d: "butlast (butlast (ap_directory p)) = d"
    by (simp add: paths butlast_append)
  show t: "tp_agents (idleTeam p) = d @ [''agents'']" "idle_file (idleTeam p) = d @ [''idle.json'']"
    "idle_lock (idleTeam p) = d @ [''idle.lock'']"
    by (simp_all add: idleTeam_def Let_def d idle_file_def idle_lock_def)
  show "team_layout (idleTeam p)" by (simp add: team_layout_def t)
  show "last (ap_directory p) = i" "ap_inbox p = d @ [''agents'', i, ''inbox'']" by (simp_all add: paths)
  show "env_path (agent_of (idleTeam p) i) dir j = env_path p dir j"
    using assms(1) by (simp add: env_path_def agent_of_def t paths Let_def)
qed

lemma ledger_changed: "changed_only ps w w' \<Longrightarrow> idle_file p \<notin> ps \<Longrightarrow> ledger p w' = ledger p w"
  by (simp add: ledger_def changed_only_def)

lemma lock_harmless:
  assumes "team_layout p" "changed_only {idle_lock p} w w'"
  shows "same_agents p w w'" "ledger p w' = ledger p w" "publications p w' i = publications p w i"
proof -
  show a: "same_agents p w w'"
    using assms team_layoutD(2) [OF assms(1), THEN not_sym] by (auto simp: same_agents_def changed_only_def)
  show l: "ledger p w' = ledger p w" using assms team_layoutD(3) [of p] by (auto intro: ledger_changed)
  show "publications p w' i = publications p w i" by (rule publications_cong [OF a l])
qed

abbreviation idle_files :: "team_paths \<Rightarrow> path set" where
  "idle_files p \<equiv> {idle_lock p, idle_file p}"

lemma wp_resolveIdlePublication:
  assumes lay: "team_layout (idleTeam p)"
    and "\<And>w'. changed_only (idle_files (idleTeam p)) w w' \<Longrightarrow> idle_pending (ledger (idleTeam p) w') = None \<Longrightarrow>
      counts_kept (idleTeam p) w w' \<Longrightarrow> Q () w'"
    and "\<And>e w'. changed_only (idle_files (idleTeam p)) w w' \<Longrightarrow> counts_kept (idleTeam p) w w' \<Longrightarrow> E e w'"
  shows "wp (resolveIdlePublication p) Q E w"
  unfolding resolveIdlePublication_def Let_def wp_partial
proof (rule wp_LockIdle, goal_cases)
  case (1 v)
  let ?t = "idleTeam p"
  note lock = lock_harmless [OF lay 1(1)]
  have kept: "counts_kept ?t w u" if "counts_kept ?t v u" for u
    using that same_agentsD(1) [OF lock(1)] lock(3) by (simp add: counts_kept_def)
  have changed: "changed_only (idle_files ?t) w u" if "changed_only {idle_file ?t} v u" for u
    using 1(1) that by (auto intro: changed_only_trans)
  have held: "counts_kept ?t w (u\<lparr>held := hs\<rparr>)" "counts_kept ?t w (u\<lparr>faults := bs\<rparr>)"
    if "counts_kept ?t w u" for u hs bs
    using that by (simp_all add: counts_kept_def)
  show ?case
  proof (rule wp_IdleRead [OF lay], goal_cases)
    case (1 s u)
    then show ?case
      unfolding sum.case wp_partial using changed kept
      by (intro wp_IdleClose) (auto intro!: assms(2) held)
  next
    case (2 e u)
    then show ?case
      unfolding sum.case wp_partial using changed kept
      by (intro wp_IdleClose) (auto intro!: assms(3) held)
  qed
next
  case (2 e v)
  then show ?case
    using lock_harmless(3) [OF lay 2(1)] by (intro assms(3)) (auto simp: counts_kept_def intro: changed_only_mono)
qed

section \<open>Publishing\<close>

lemma env_path_away:
  assumes "plain_segment i" "p = agent_of (team_of d) i"
  shows "env_path p dir j \<notin> idle_files (idleTeam p)"
  using idle_paths [OF assms] by (auto simp: env_path_def join_path_def)

lemma wp_prepare:
  assumes "plain_segment i" "p = agent_of (team_of d) i"
    and "\<And>w'. changed_only (idle_files (idleTeam p)) w w' \<Longrightarrow>
      idle_pending (ledger (idleTeam p) w') = Some \<lparr>pub_recipient = i, pub_id = env_id e\<rparr> \<Longrightarrow>
      (\<forall>j. registered (idleTeam p) w j \<longrightarrow> unat (work_of (ledger (idleTeam p) w') j) = publications (idleTeam p) w j) \<Longrightarrow>
      lookup w' (env_path p ''new'' (env_id e)) = None \<Longrightarrow> Q () w'"
    and "\<And>err w'. changed_only (idle_files (idleTeam p)) w w' \<Longrightarrow> counts_kept (idleTeam p) w w' \<Longrightarrow> E err w'"
  shows "wp (prepareIdlePublication p e) Q E w"
  unfolding prepareIdlePublication_def Let_def wp_partial
proof (rule wp_LockIdle, goal_cases)
  case (1 v)
  let ?t = "idleTeam p" and ?path = "env_path p ''new'' (env_id e)"
  note lay = idle_paths(4) [OF assms(1,2)] and last = idle_paths(5) [OF assms(1,2)]
  note lock = lock_harmless [OF lay 1(1)]
  have kept: "counts_kept ?t w u" if "counts_kept ?t v u" for u
    using that same_agentsD(1) [OF lock(1)] lock(3) by (simp add: counts_kept_def)
  have changed: "changed_only (idle_files ?t) w u" if "changed_only {idle_file ?t} v u" for u
    using 1(1) that by (auto intro: changed_only_trans)
  have held: "counts_kept ?t w (u\<lparr>held := hs\<rparr>)" "counts_kept ?t w (u\<lparr>faults := bs\<rparr>)"
    if "counts_kept ?t w u" for u hs bs
    using that by (simp_all add: counts_kept_def)
  have failed: "wp (and_then (attempt (IdleClose ?t)) (\<lambda>_. raise err)) Q E u"
    if "changed_only {idle_file ?t} v u" "counts_kept ?t v u" for err u
    unfolding wp_partial by (intro wp_IdleClose) (auto intro!: assms(4) held changed kept that)
  show ?case
  proof (rule wp_IdleRead [OF lay], goal_cases)
    case (1 s u)
    have work: "\<forall>j. registered ?t w j \<longrightarrow> unat (work_of s j) = publications ?t w j"
      using kept [OF 1(5)] 1(3,4) by (simp add: counts_kept_def publications_def)
    let ?s = "s\<lparr>idle_pending := Some \<lparr>pub_recipient = last (ap_directory p), pub_id = env_id e\<rparr>\<rparr>"
    have fails: "wp (and_then (attempt (IdleClose ?t)) (\<lambda>_. raise err)) Q E (u\<lparr>faults := bs\<rparr>)" for err bs
      using 1 by (intro failed) (auto simp: counts_kept_def)
    note fails' = fails [unfolded wp_partial]
    have fails'': "wp (IdleClose ?t) (\<lambda>x. E err) (\<lambda>e. E err) u" for err
      using fails' [of err "faults u"] by simp
    have saved: "wp (IdleSave ?t ?s) Q
        (\<lambda>x. wp (IdleClose ?t) (\<lambda>xa. E x) (\<lambda>xa. E x)) (u\<lparr>faults := bs\<rparr>)"
      if none: "lookup u ?path = None" for bs
    proof (rule wp_IdleSave)
      fix bs'
      show "Q () ((put (idle_file ?t) (File (CIdle ?s)) (u\<lparr>faults := bs\<rparr>))\<lparr>faults := bs'\<rparr>)"
        using work 1(1) none env_path_away [OF assms(1,2), of "''new''" "env_id e"] last
        by (intro assms(3)) (auto intro!: changed changed_only_put)
    next
      fix bs' err
      show "wp (IdleClose ?t) (\<lambda>xa. E err) (\<lambda>xa. E err) (u\<lparr>faults := bs\<rparr>\<lparr>faults := bs'\<rparr>)"
        using fails' by simp
    qed
    show ?case
      unfolding wp_partial
      by (intro wp_EnvelopePath wp_os_stat) (auto simp: fails' fails'' saved)
  next
    case (2 err u)
    show ?case unfolding sum.case by (rule failed [OF 2(1,3)])
  qed
next
  case (2 err v)
  then show ?case
    using lock_harmless(3) [OF idle_paths(4) [OF assms(1,2)] 2(1)]
    by (intro assms(4)) (auto simp: counts_kept_def intro: changed_only_mono)
qed

text \<open>
  C20 (publication_counted_once): for an agent of the team and an envelope identity that no
  filed result carries, a successful \<^verbatim>\<open>PublishNew\<close> adds exactly one publication to the
  recipient and none to any other registered agent, and queues the envelope where none was
  queued; a failed one, whatever failed, leaves every count and the queue unchanged.
\<close>

theorem publication_counted_once:
  assumes "plain_segment i" "p = agent_of (team_of d) i"
    and "\<forall>dir \<in> {''cur'', ''failed''}. \<forall>x. \<not> stored_envelope p w dir (env_id e) x"
    and "PublishNew p e w = (r, w')"
  shows "(\<forall>j. registered (idleTeam p) w j \<longrightarrow> publications (idleTeam p) w' j =
            publications (idleTeam p) w j + (if r = Inr () \<and> j = i then 1 else 0))
    \<and> (r = Inr () \<longrightarrow> lookup w (env_path p ''new'' (env_id e)) = None
         \<and> lookup w' (env_path p ''new'' (env_id e)) = Some (File (CEnvelope e)))
    \<and> (r \<noteq> Inr () \<longrightarrow> lookup w' (env_path p ''new'' (env_id e)) = lookup w (env_path p ''new'' (env_id e)))"
    (is "?goal r w'")
proof -
  let ?t = "idleTeam p" and ?path = "env_path p ''new'' (env_id e)"
  note away = env_path_away [OF assms(1,2), of "''new''" "env_id e"]
  define goal where "goal x v \<longleftrightarrow> ?goal x v" for x v
  have failed: "goal (Inl err) u" if "changed_only (idle_files ?t) w u" "counts_kept ?t w u" for err u
    using that away by (simp add: goal_def counts_kept_def changed_only_def)
  have nothing: "goal (Inl err) (w\<lparr>faults := bs\<rparr>)" for err bs
    by (rule failed) (simp_all add: counts_kept_def)
  have nothing': "goal (Inl err) w" for err by (rule failed) (simp_all add: counts_kept_def)
  have held: "goal r (v\<lparr>held := hs\<rparr>) = goal r v" "goal r (v\<lparr>faults := bs\<rparr>) = goal r v" for r v hs bs
    by (simp_all add: goal_def)
  have linked: "wp (os_link_new (CEnvelope e) ?path) (\<lambda>x. wp (IdleClose ?t) (\<lambda>_. goal (Inr ())) (\<lambda>_. goal (Inr ())))
      (\<lambda>err. wp (IdleClose ?t) (\<lambda>_. goal (Inl (if errors_is err Exist then EnvelopeQueued else err)))
         (\<lambda>_. goal (Inl (if errors_is err Exist then EnvelopeQueued else err)))) u"
    if u: "changed_only (idle_files ?t) w u"
      "idle_pending (ledger ?t u) = Some \<lparr>pub_recipient = i, pub_id = env_id e\<rparr>"
      "\<forall>j. registered ?t w j \<longrightarrow> unat (work_of (ledger ?t u) j) = publications ?t w j"
      "lookup u ?path = None" for u
  proof -
    have filed: "stored_envelope (agent_of ?t i) v dir (env_id e) x \<longleftrightarrow>
        lookup v (env_path p dir (env_id e)) = Some (File (CEnvelope x)) \<and> env_id x = env_id e" for v dir x
      by (simp add: stored_envelope_def idle_paths(7) [OF assms(1,2)])
    have others: "lookup u (env_path p dir (env_id e)) = lookup w (env_path p dir (env_id e))" for dir
      using u(1) env_path_away [OF assms(1,2), of dir "env_id e"] by (simp add: changed_only_def)
    have absent: "\<not> found ?t u filed_dirs \<lparr>pub_recipient = i, pub_id = env_id e\<rparr>"
      using u(4) assms(3) others unfolding found_def
      by (auto simp: stored_envelope_def idle_paths(7) [OF assms(1,2)])
    have present: "found ?t (put ?path (File (CEnvelope e)) u) filed_dirs \<lparr>pub_recipient = i, pub_id = env_id e\<rparr>"
      unfolding found_def by (intro bexI [of _ "''new''"] exI [of _ e]) (simp_all add: filed)
    have before: "lookup w ?path = None" using u(1,4) away by (simp add: changed_only_def)
    have same: "ledger ?t (put ?path n u) = ledger ?t u" for n using away by simp
    have added: "goal (Inr ()) (put ?path (File (CEnvelope e)) u)"
      using u(2,3) before present same by (simp add: goal_def publications_def)
    have not_added: "goal (Inl err) u" for err
      using u before absent by (simp add: goal_def publications_def)
    show ?thesis
      by (intro wp_os_link_new wp_IdleClose)
        (use added not_added in \<open>simp_all add: held\<close>)
  qed
  have "wp (PublishNew p e) (\<lambda>x. goal (Inr x)) (\<lambda>err. goal (Inl err)) w"
    unfolding PublishNew_def wp_partial
    by (intro wp_EnvelopePath wp_jsonTemp wp_os_stat)
      (auto simp: nothing nothing' intro!: wp_prepare [OF assms(1,2)] linked failed)
  then show ?thesis using assms(4) by (auto simp: wp_def goal_def split: sum.splits)
qed

lemma demo_idle_paths:
  "idleTeam demo_paths = \<lparr>tp_directory = [''t''], tp_state = [''t'', ''team.json''], tp_log = [], tp_names = [],
     tp_agents = [''t'', ''agents'']\<rparr>"
  by (simp add: idleTeam_def)

lemma demo_publish:
  "fst (PublishNew demo_paths (demo_envelope ''m1'') (demo_inbox_world [])) = Inr ()"
proof -
  have path: "EnvelopePath demo_paths ''new'' ''m1'' w =
      (Inr [''t'', ''agents'', ''h1'', ''inbox'', ''new'', ''m1.json''], w)" for w
    by (simp add: EnvelopePath_def and_then_def check_segment_def segment_iff plain_segment_def
        separator_def ret_def join_path_def components_def)
  have no: "idle_work no_idle = []" "idle_pending no_idle = None" by (simp_all add: no_idle_def)
  show ?thesis
    by (simp add: PublishNew_def path and_then_def attempt_def jsonTemp_def act_quiet sys_quiet is_dir_def
        demo_inbox_def demo_tree_def os_stat_def prepareIdlePublication_def Let_def demo_idle_paths LockIdle_def
        os_open_create_def idle_lock_def updates_def IdleRead_def idle_file_def readJSON_quiet ret_def no
        resolve_pending_def IdleSave_def reads_def atomicJSON_quiet os_link_new_def IdleClose_def)
qed

lemma demo_counts:
  "registered (idleTeam demo_paths) (demo_inbox_world []) ''h1''"
  "publications (idleTeam demo_paths) (demo_inbox_world []) ''h1'' = 0"
proof -
  have state: "ap_state (agent_of (idleTeam demo_paths) ''h1'') = [''t'', ''agents'', ''h1'', ''agent.json'']"
    by (simp add: agent_of_def Let_def demo_idle_paths plain_h1)
  show "registered (idleTeam demo_paths) (demo_inbox_world []) ''h1''"
    by (simp add: registered_def state demo_inbox_def demo_tree_def)
  show "publications (idleTeam demo_paths) (demo_inbox_world []) ''h1'' = 0"
    by (simp add: publications_def ledger_def demo_idle_paths idle_file_def demo_inbox_def demo_tree_def
        no_idle_def work_of_def)
qed

theorem publication_counted_once_witness:
  "publications (idleTeam demo_paths) (snd (PublishNew demo_paths (demo_envelope ''m1'') (demo_inbox_world []))) ''h1'' = 1"
proof -
  let ?e = "demo_envelope ''m1''" and ?w = "demo_inbox_world []"
  have run: "PublishNew demo_paths ?e ?w = (Inr (), snd (PublishNew demo_paths ?e ?w))"
    using demo_publish by (simp add: prod_eq_iff)
  have path: "env_path demo_paths dir ''m1'' = [''t'', ''agents'', ''h1'', ''inbox''] @ components dir @ [''m1.json'']" for dir
    by (simp add: env_path_def join_path_def components_def separator_def)
  have fresh: "\<forall>dir \<in> {''cur'', ''failed''}. \<forall>x. \<not> stored_envelope demo_paths ?w dir (env_id ?e) x"
    by (simp add: stored_envelope_def path demo_inbox_def demo_tree_def)
  show ?thesis
    using demo_counts publication_counted_once [OF plain_h1 demo_paths_def fresh run] by simp
qed

text \<open>
  Resolving a recorded publication, whatever fails in it, keeps
  the number of publications to every registered agent; once it succeeded nothing is pending
  any more and the ledger's counters are those numbers, so resolving again changes nothing.
\<close>

theorem resolving_keeps_counts:
  assumes "plain_segment i" "p = agent_of (team_of d) i"
    and "resolveIdlePublication p w = (r, w')"
  shows "(\<forall>j. registered (idleTeam p) w j \<longrightarrow> publications (idleTeam p) w' j = publications (idleTeam p) w j)
    \<and> (r = Inr () \<longrightarrow> idle_pending (ledger (idleTeam p) w') = None
        \<and> (\<forall>j. registered (idleTeam p) w j \<longrightarrow>
             unat (work_of (ledger (idleTeam p) w') j) = publications (idleTeam p) w j))"
    (is "?goal r w'")
proof -
  have "wp (resolveIdlePublication p) (\<lambda>x. ?goal (Inr x)) (\<lambda>e. ?goal (Inl e)) w"
    by (rule wp_resolveIdlePublication [OF idle_paths(4) [OF assms(1,2)]])
      (auto simp: counts_kept_def publications_def)
  then show ?thesis using assms(3) by (auto simp: wp_def split: sum.splits)
qed

theorem resolving_keeps_counts_witness:
  "publications (idleTeam demo_paths) (snd (resolveIdlePublication demo_paths (demo_inbox_world []))) ''h1'' = 0"
  using resolving_keeps_counts [OF plain_h1 demo_paths_def prod.collapse [symmetric]] demo_counts by simp

end
