(* ===== verification/Store_Hooks.thy ===== *)
theory Store_Hooks
  imports Store_Idle
begin

text \<open>
  The side files native hooks write without the agent lock: status hooks
  (\<^verbatim>\<open>store/hooks.go\<close>), the session start, the admission of a clear's continuation and the
  display hook (\<^verbatim>\<open>store/clear.go\<close>), evidence of native writes (\<^verbatim>\<open>store/native_pending.go\<close>),
  and the witness files of \<^verbatim>\<open>store/inbox.go\<close>. Every operation takes the short status-hook
  lock and releases it before it returns, so the lock leaves no entry behind.
\<close>

section \<open>Status hooks (hooks.go)\<close>

definition side_file :: "agent_paths \<Rightarrow> string \<Rightarrow> path" where
  "side_file p n = ap_directory p @ [n]"

definition lockStatusHooks :: "agent_paths \<Rightarrow> unit io" where
  "lockStatusHooks p =
     and_then (os_open_create (side_file p ''status-hooks.lock'')) (\<lambda>_.
     act (\<lambda>w. if side_file p ''status-hooks.lock'' \<in> set (busy w) then Inl WouldBlock else Inr w))"

definition ReadStatusHooks :: "agent_paths \<Rightarrow> status_hook list io" where
  "ReadStatusHooks p =
     and_then (attempt (readJSON as_hooks (side_file p ''status-hooks''))) (\<lambda>r. case r of
       Inl e \<Rightarrow> if errors_is e NotExist then ret [] else raise e
     | Inr hs \<Rightarrow> ret hs)"

definition hook_kinds :: "string list" where
  "hook_kinds = [''turn-started'', ''turn-finished'', ''turn-failed'', ''activity'',
     ''permission-requested'', ''compaction-started'', ''compaction-finished'']"

definition terminal_kind :: "string \<Rightarrow> bool" where
  "terminal_kind k \<longleftrightarrow> k = ''turn-finished'' \<or> k = ''turn-failed'' \<or> k = ''compaction-finished''"

definition highest_sequence :: "status_hook list \<Rightarrow> uint64" where
  "highest_sequence records =
     fold (\<lambda>old s. if sh_sequence old > s then sh_sequence old else s) records 0"

definition sequence_less :: "status_hook \<Rightarrow> status_hook \<Rightarrow> bool" where
  "sequence_less a b \<longleftrightarrow> sh_sequence a < sh_sequence b"

text \<open>The records after a write; \<^term>\<open>None\<close> when the reading is stale and dropped.\<close>

definition next_hooks :: "status_hook \<Rightarrow> uint64 \<Rightarrow> status_hook list \<Rightarrow> status_hook list option" where
  "next_hooks n acknowledged records =
     (if list_ex (\<lambda>old. \<not> terminal_kind (sh_kind n) \<and> sh_kind old = sh_kind n \<and> sh_at old > sh_at n) records
      then None
      else Some (sort_slice sequence_less
        (filter (\<lambda>old. sh_kind old \<noteq> sh_kind n
                    \<or> terminal_kind (sh_kind n) \<and> sh_sequence old > acknowledged) records
         @ [n\<lparr>sh_sequence := highest_sequence records + 1\<rparr>])))"

definition WriteStatusHook :: "agent_paths \<Rightarrow> status_hook \<Rightarrow> unit io" where
  "WriteStatusHook p n =
     (if sh_kind n \<notin> set hook_kinds then raise (Fail ''unsupported status hook'')
      else and_then (lockStatusHooks p) (\<lambda>_.
      and_then (ReadStatusHooks p) (\<lambda>records.
      and_then (ReadAgent p) (\<lambda>a.
      case next_hooks n (nat_hook_sequence (ag_native a)) records of
        None \<Rightarrow> ret ()
      | Some next_records \<Rightarrow> atomicJSON (side_file p ''status-hooks'') (CHooks next_records)))))"

definition latest_sequences :: "status_hook list \<Rightarrow> string \<rightharpoonup> uint64" where
  "latest_sequences records = fold (\<lambda>n m. m(sh_kind n \<mapsto> sh_sequence n)) records Map.empty"

definition pruned_hooks :: "uint64 \<Rightarrow> status_hook list \<Rightarrow> status_hook list" where
  "pruned_hooks sequence records =
     filter (\<lambda>n. sh_sequence n > sequence \<or> latest_sequences records (sh_kind n) = Some (sh_sequence n)) records"

definition PruneStatusHooks :: "agent_paths \<Rightarrow> uint64 \<Rightarrow> unit io" where
  "PruneStatusHooks p sequence =
     and_then (lockStatusHooks p) (\<lambda>_.
     and_then (ReadStatusHooks p) (\<lambda>records.
     let kept = pruned_hooks sequence records in
     if length kept = length records then ret ()
     else atomicJSON (side_file p ''status-hooks'') (CHooks kept)))"

section \<open>Permission and compaction witnesses (inbox.go)\<close>

definition WriteCompactionWitness :: "agent_paths \<Rightarrow> compaction_witness \<Rightarrow> unit io" where
  "WriteCompactionWitness p w = atomicJSON (ap_compaction_witness p) (CCompactionWitness w)"

definition ReadCompactionWitness :: "agent_paths \<Rightarrow> compaction_witness io" where
  "ReadCompactionWitness p = readJSON as_compaction_witness (ap_compaction_witness p)"

definition WritePermissionWitness :: "agent_paths \<Rightarrow> permission_witness \<Rightarrow> unit io" where
  "WritePermissionWitness p w = atomicJSON (ap_permission p) (CPermission w)"

definition ReadPermissionWitness :: "agent_paths \<Rightarrow> permission_witness option io" where
  "ReadPermissionWitness p =
     and_then (attempt (readJSON as_permission (ap_permission p))) (\<lambda>r. case r of
       Inl e \<Rightarrow> if errors_is e NotExist then ret None else raise e
     | Inr x \<Rightarrow> ret (Some x))"

definition RemovePermissionWitness :: "agent_paths \<Rightarrow> unit io" where
  "RemovePermissionWitness p = removeIfPresent (ap_permission p)"

section \<open>Clearing a conversation (clear.go)\<close>

definition ReadSessionStart :: "agent_paths \<Rightarrow> session_start io" where
  "ReadSessionStart p = readJSON as_session_start (side_file p ''session-start'')"

text \<open>A read whose absence is not an error; \<^term>\<open>None\<close> when the file does not exist.\<close>

definition if_present :: "'a io \<Rightarrow> 'a option io" where
  "if_present m = and_then (attempt m) (\<lambda>r. case r of
     Inl e \<Rightarrow> if errors_is e NotExist then ret None else raise e
   | Inr x \<Rightarrow> ret (Some x))"

definition check_transition :: "agent_paths \<Rightarrow> agent \<Rightarrow> session_start \<Rightarrow> unit io" where
  "check_transition p a n = (case ag_clear a of
       None \<Rightarrow> ret ()
     | Some pending \<Rightarrow>
         if (clr_status pending = ''queued'' \<or> clr_status pending = ''completed'')
            \<and> ss_session_id n \<noteq> nat_session_id (ag_native a) \<and> ss_source n \<noteq> ''compact''
         then raise (Fail ''session start is not an authorized native transition'')
         else if ss_session_id n = clr_previous_session pending \<and> clr_started_at pending \<noteq> zero_time
         then raise (Fail ''session start belongs to the retired native conversation'')
         else and_then (if_present (ReadSessionStart p)) (\<lambda>old. case old of
             None \<Rightarrow> ret ()
           | Some o' \<Rightarrow>
               if clr_status pending \<noteq> ''completed'' \<and> ss_clear_id o' = env_id (clr_envelope pending)
                  \<and> ss_session_id o' \<noteq> ss_session_id n
               then raise (Fail ''clear already confirmed another native conversation'')
               else ret ()))"

definition confirm_clear :: "agent \<Rightarrow> session_start \<Rightarrow> session_start" where
  "confirm_clear a n = (case ag_clear a of
       None \<Rightarrow> n
     | Some pending \<Rightarrow>
         if (clr_status pending = ''submitted'' \<or> clr_status pending = ''continuing''
             \<or> clr_status pending = ''unverified'')
            \<and> ss_source n = ''clear'' \<and> ss_session_id n \<noteq> clr_previous_session pending
            \<and> \<not> ss_at n < clr_started_at pending
         then n\<lparr>ss_clear_id := env_id (clr_envelope pending)\<rparr> else n)"

definition WriteSessionStart :: "agent_paths \<Rightarrow> session_start \<Rightarrow> unit io" where
  "WriteSessionStart p n0 =
     and_then (lockStatusHooks p) (\<lambda>_.
     and_then (ReadAgent p) (\<lambda>a.
     if ss_registration n0 = '''' \<or> ss_registration n0 \<noteq> reg_generation (ag_registration a)
     then raise (Fail ''session start belongs to another registration'')
     else if ss_session_id n0 = '''' \<or> ss_transcript n0 = ''''
     then raise (Fail ''session start has no native identity'')
     else and_then (check_transition p a n0) (\<lambda>_.
     let n = confirm_clear a n0 in
     and_then
       (if ss_clear_id n = '''' then ret ()
        else and_then (if_present (ReadSessionStart p)) (\<lambda>old.
          if (case old of None \<Rightarrow> '''' | Some o' \<Rightarrow> ss_clear_id o') \<noteq> ss_clear_id n
          then RemovePermissionWitness p else ret ())) (\<lambda>_.
     atomicJSON (side_file p ''session-start'') (CSessionStart n)))))"

definition ReadClearAdmission :: "agent_paths \<Rightarrow> clear_admission io" where
  "ReadClearAdmission p = readJSON as_admission (side_file p ''clear-admission'')"

definition AdmitClear :: "agent_paths \<Rightarrow> envelope_id \<Rightarrow> string \<Rightarrow> string \<Rightarrow> unit io" where
  "AdmitClear p i session registration =
     and_then (lockStatusHooks p) (\<lambda>_.
     and_then (ReadAgent p) (\<lambda>a. case ag_clear a of
       None \<Rightarrow> raise (Fail ''clear continuation is not pending in this registration'')
     | Some pending \<Rightarrow>
         if env_id (clr_envelope pending) \<noteq> i \<or> clr_status pending \<noteq> ''continuing''
            \<or> reg_generation (ag_registration a) \<noteq> registration
         then raise (Fail ''clear continuation is not pending in this registration'')
         else and_then (ReadSessionStart p) (\<lambda>n.
           if ss_clear_id n \<noteq> i \<or> ss_source n \<noteq> ''clear'' \<or> ss_registration n \<noteq> registration
              \<or> ss_session_id n \<noteq> session \<or> session = '''' \<or> session = clr_previous_session pending
              \<or> ss_at n < clr_started_at pending
           then raise (Fail ''clear continuation has no matching new native session'')
           else and_then (if_present (ReadClearAdmission p)) (\<lambda>old.
             if (case old of None \<Rightarrow> '''' | Some o' \<Rightarrow> adm_id o') = i
             then raise (Fail ''clear continuation already admitted; do not resend'')
             else atomicJSON (side_file p ''clear-admission'')
                    (CAdmission \<lparr>adm_id = i, adm_session_id = session\<rparr>)))))"

text \<open>Whether a display hook is dropped because a clear replaced its session.\<close>

definition display_retired :: "agent \<Rightarrow> session_start option \<Rightarrow> status_hook \<Rightarrow> string \<Rightarrow> bool" where
  "display_retired a start n observed = (case ag_clear a of
       None \<Rightarrow> False
     | Some pending \<Rightarrow>
         let confirmed = (\<lambda>session. case start of None \<Rightarrow> False
               | Some s \<Rightarrow> ss_clear_id s = env_id (clr_envelope pending) \<and> session s)
         in (observed \<noteq> nat_session_id (ag_native a) \<and> sh_session_id n \<noteq> nat_session_id (ag_native a)
             \<and> \<not> confirmed (\<lambda>s. sh_session_id n = ss_session_id s))
            \<or> confirmed (\<lambda>_. sh_session_id n = clr_previous_session pending))"

definition WriteDisplayHook :: "agent_paths \<Rightarrow> status_hook \<Rightarrow> string \<Rightarrow> unit io" where
  "WriteDisplayHook p n observed =
     and_then (lockStatusHooks p) (\<lambda>_.
     and_then (ReadAgent p) (\<lambda>a.
     and_then (if ag_clear a = None then ret None else if_present (ReadSessionStart p)) (\<lambda>start.
     if display_retired a start n observed then ret ()
     else if sh_kind n = ''permission-requested''
     then WritePermissionWitness p \<lparr>perm_at = sh_at n, perm_session_id = sh_session_id n\<rparr>
     else RemovePermissionWitness p)))"

section \<open>Evidence of native writes (native_pending.go)\<close>

definition pending_dir :: "agent_paths \<Rightarrow> path" where
  "pending_dir p = side_file p ''native-pending''"

definition NativePendingPath :: "agent_paths \<Rightarrow> envelope_id \<Rightarrow> path io" where
  "NativePendingPath p i =
     and_then (check_segment i) (\<lambda>_. ret (join_path (pending_dir p) (i @ ''.json'')))"

definition BeginNative :: "agent_paths \<Rightarrow> native_pending \<Rightarrow> unit io" where
  "BeginNative p n =
     and_then (lockStatusHooks p) (\<lambda>_.
     and_then (NativePendingPath p (env_id (np_envelope n))) (\<lambda>path.
     and_then (os_mkdir_all (butlast path)) (\<lambda>_.
     atomicJSON path (CNativePending n))))"

definition ReadNativePending :: "agent_paths \<Rightarrow> envelope_id \<Rightarrow> native_pending io" where
  "ReadNativePending p i =
     and_then (NativePendingPath p i) (\<lambda>path.
     and_then (readJSON as_native_pending path) (\<lambda>n.
       if env_id (np_envelope n) \<noteq> i then raise (Fail ''native pending ID does not match filename'')
       else ret n))"

text \<open>\<^verbatim>\<open>filepath.Ext\<close>: the suffix from the last dot.\<close>

definition file_ext :: "string \<Rightarrow> string" where
  "file_ext s = (if CHR ''.'' \<in> set s then CHR ''.'' # rev (takeWhile (\<lambda>c. c \<noteq> CHR ''.'') (rev s)) else '''')"

definition read_pending_entry :: "agent_paths \<Rightarrow> string \<times> bool \<Rightarrow> native_pending option io" where
  "read_pending_entry p entry = (case entry of (n, is_directory) \<Rightarrow>
     if has_prefix n ''.write-'' then ret None
     else if is_directory \<or> file_ext n \<noteq> ''.json'' then raise (Fail ''unexpected native pending entry'')
     else if_present (ReadNativePending p (take (length n - 5) n)))"

definition ListNativePending :: "agent_paths \<Rightarrow> native_pending list io" where
  "ListNativePending p =
     and_then (attempt (os_read_dir (pending_dir p))) (\<lambda>r. case r of
       Inl e \<Rightarrow> if errors_is e NotExist then ret [] else raise e
     | Inr entries \<Rightarrow> collect (read_pending_entry p) entries)"

definition RemoveNativePending :: "agent_paths \<Rightarrow> envelope_id \<Rightarrow> unit io" where
  "RemoveNativePending p i =
     and_then (lockStatusHooks p) (\<lambda>_.
     and_then (NativePendingPath p i) (\<lambda>path. removeIfPresent path))"

definition proves :: "agent \<Rightarrow> witness \<Rightarrow> native_pending \<Rightarrow> bool" where
  "proves a w n \<longleftrightarrow>
     \<not> (np_witness n \<noteq> None \<or> wit_session_id w = '''' \<or> wit_session_id w \<noteq> nat_session_id (ag_native a)
        \<or> wit_session_id w \<noteq> np_session_id n \<or> wit_prompt w \<noteq> np_prompt n
        \<or> wit_at w < env_created_at (np_envelope n))"

definition witnessNativePending :: "agent_paths \<Rightarrow> agent \<Rightarrow> witness \<Rightarrow> unit io" where
  "witnessNativePending p a w =
     and_then (ListNativePending p) (\<lambda>pending.
     for_each (\<lambda>n.
       if \<not> proves a w n then ret ()
       else atomicJSON (join_path (pending_dir p) (env_id (np_envelope n) @ ''.json''))
              (CNativePending (n\<lparr>np_witness := Some w\<rparr>))) pending)"

definition RetireNativePending :: "agent_paths \<Rightarrow> string \<Rightarrow> unit io" where
  "RetireNativePending p session =
     (if session = '''' then ret ()
      else and_then (lockStatusHooks p) (\<lambda>_.
      and_then (ListNativePending p) (\<lambda>pending.
      for_each (\<lambda>n.
        if np_session_id n = session \<or> np_witness n \<noteq> None then ret ()
        else removeIfPresent (join_path (pending_dir p) (env_id (np_envelope n) @ ''.json''))) pending)))"

definition ReadNativeFallback :: "agent_paths \<Rightarrow> string io" where
  "ReadNativeFallback p = readJSON as_text (side_file p ''native-fallback'')"

definition WriteNativeFallback :: "agent_paths \<Rightarrow> string \<Rightarrow> unit io" where
  "WriteNativeFallback p reason = atomicJSON (side_file p ''native-fallback'') (CText reason)"

definition ClearNativeFallback :: "agent_paths \<Rightarrow> unit io" where
  "ClearNativeFallback p = removeIfPresent (side_file p ''native-fallback'')"

section \<open>Submit witnesses (inbox.go)\<close>

text \<open>The check of a witness against a pending clear; \<^term>\<open>observed\<close> is the hook's session.\<close>

definition check_witness :: "agent_paths \<Rightarrow> agent \<Rightarrow> witness \<Rightarrow> string option \<Rightarrow> unit io" where
  "check_witness p a w observed = (case ag_clear a of
       None \<Rightarrow> ret ()
     | Some pending \<Rightarrow>
         and_then (if_present (ReadSessionStart p)) (\<lambda>start.
         let confirmed = (\<lambda>session. case start of None \<Rightarrow> False
               | Some s \<Rightarrow> ss_clear_id s = env_id (clr_envelope pending) \<and> session s)
         in if observed \<noteq> None \<and> the observed \<noteq> nat_session_id (ag_native a)
               \<and> wit_session_id w \<noteq> nat_session_id (ag_native a)
               \<and> \<not> confirmed (\<lambda>s. wit_session_id w = ss_session_id s)
            then raise (Fail ''submit hook's native session binding changed before its witness'')
            else if confirmed (\<lambda>s. ss_session_id s \<noteq> clr_previous_session pending
                     \<and> wit_session_id w = clr_previous_session pending)
            then raise (Fail ''submit witness belongs to the retired native session'')
            else ret ()))"

definition writeWitness :: "agent_paths \<Rightarrow> witness \<Rightarrow> string option \<Rightarrow> unit io" where
  "writeWitness p w observed =
     and_then (lockStatusHooks p) (\<lambda>_.
     and_then (ReadAgent p) (\<lambda>a.
     and_then (check_witness p a w observed) (\<lambda>_.
     and_then (witnessNativePending p a w) (\<lambda>_.
     atomicJSON (ap_witness p) (CWitness w)))))"

definition WriteWitness :: "agent_paths \<Rightarrow> witness \<Rightarrow> unit io" where
  "WriteWitness p w = writeWitness p w None"

definition WriteNativeWitness :: "agent_paths \<Rightarrow> witness \<Rightarrow> string \<Rightarrow> unit io" where
  "WriteNativeWitness p w observed = writeWitness p w (Some observed)"

definition ReadWitness :: "agent_paths \<Rightarrow> witness io" where
  "ReadWitness p = readJSON as_witness (ap_witness p)"

section \<open>The life of the status hooks\<close>

interpretation by_sequence: comparator sequence_less sh_sequence
  by unfold_locales (auto simp: sequence_less_def)

text \<open>
  What the records of an agent go through: hooks write, the agent acknowledges a sequence
  number, and settled records are pruned up to an acknowledged one. The last argument is
  the history of the records ever written.
\<close>

inductive hook_run :: "status_hook list \<Rightarrow> uint64 \<Rightarrow> status_hook list \<Rightarrow> bool" where
  hook_start: "hook_run [] 0 []"
| hook_write: "hook_run rs ack ws \<Longrightarrow> next_hooks n ack rs = Some rs' \<Longrightarrow>
    hook_run rs' ack (ws @ [n\<lparr>sh_sequence := highest_sequence rs + 1\<rparr>])"
| hook_acknowledge: "hook_run rs ack ws \<Longrightarrow> ack \<le> ack' \<Longrightarrow> hook_run rs ack' ws"
| hook_prune: "hook_run rs ack ws \<Longrightarrow> s \<le> ack \<Longrightarrow> hook_run (pruned_hooks s rs) ack ws"

inductive_cases hook_runE: "hook_run rs ack ws"

lemma highest_fold:
  "(\<forall>r \<in> set rs. sh_sequence r \<le> fold (\<lambda>old s. if sh_sequence old > s then sh_sequence old else s) rs s)
   \<and> s \<le> fold (\<lambda>old s. if sh_sequence old > s then sh_sequence old else s) rs s
   \<and> (fold (\<lambda>old s. if sh_sequence old > s then sh_sequence old else s) rs s = s
      \<or> (\<exists>r \<in> set rs. sh_sequence r = fold (\<lambda>old s. if sh_sequence old > s then sh_sequence old else s) rs s))"
proof (induction rs arbitrary: s)
  case (Cons r rs)
  let ?s = "if sh_sequence r > s then sh_sequence r else s"
  have "s \<le> ?s" "sh_sequence r \<le> ?s" "?s = s \<or> ?s = sh_sequence r" by auto
  with Cons.IH [of ?s] show ?case by (auto intro: order_trans simp del: if_split)
qed simp

lemma highest_upper: "r \<in> set rs \<Longrightarrow> sh_sequence r \<le> highest_sequence rs"
  and highest_member: "highest_sequence rs = 0 \<or> (\<exists>r \<in> set rs. sh_sequence r = highest_sequence rs)"
  using highest_fold [of rs 0] by (auto simp: highest_sequence_def)

lemma latest_last:
  "sorted_wrt sequence_less rs \<Longrightarrow> n \<in> set rs \<Longrightarrow>
    (\<And>m. m \<in> set rs \<Longrightarrow> sh_kind m = sh_kind n \<Longrightarrow> sh_sequence m \<le> sh_sequence n) \<Longrightarrow>
    latest_sequences rs (sh_kind n) = Some (sh_sequence n)"
proof (induction rs rule: rev_induct)
  case (snoc x rs)
  show ?case
  proof (cases "sh_kind x = sh_kind n")
    case True
    then have "sh_sequence x \<le> sh_sequence n" using snoc.prems by simp
    then have "x = n" using snoc.prems(1,2) by (auto simp: sorted_wrt_append sequence_less_def)
    then show ?thesis by (simp add: latest_sequences_def)
  next
    case False
    then have "n \<in> set rs" using snoc.prems(2) by auto
    then have "latest_sequences rs (sh_kind n) = Some (sh_sequence n)"
      using snoc.prems by (intro snoc.IH) (auto simp: sorted_wrt_append)
    then show ?thesis using False by (simp add: latest_sequences_def)
  qed
qed simp

lemma sequence_distinct: "sorted_wrt sequence_less rs \<Longrightarrow> distinct (map sh_sequence rs)"
  by (induction rs) (auto simp: sequence_less_def)

definition hooks_ok :: "status_hook list \<Rightarrow> uint64 \<Rightarrow> status_hook list \<Rightarrow> bool" where
  "hooks_ok rs ack ws \<longleftrightarrow>
     (\<forall>i < length ws. unat (sh_sequence (ws ! i)) = Suc i)
     \<and> sorted_wrt sequence_less rs \<and> set rs \<subseteq> set ws
     \<and> (\<forall>n \<in> set ws. terminal_kind (sh_kind n) \<and> sh_sequence n > ack \<longrightarrow> n \<in> set rs)
     \<and> (\<forall>n \<in> set ws. (\<forall>m \<in> set ws. sh_kind m = sh_kind n \<longrightarrow> sh_sequence m \<le> sh_sequence n) \<longrightarrow> n \<in> set rs)"

lemma hooks_ok_highest:
  assumes "hooks_ok rs ack ws"
  shows "unat (highest_sequence rs) = length ws"
proof (cases ws rule: rev_cases)
  case Nil
  then have "rs = []" using assms by (simp add: hooks_ok_def)
  then show ?thesis using Nil by (simp add: highest_sequence_def)
next
  case (snoc vs x)
  have seq: "unat (sh_sequence (ws ! i)) = Suc i" if "i < length ws" for i
    using assms that by (simp add: hooks_ok_def)
  have x: "unat (sh_sequence x) = length ws" using seq [of "length vs"] snoc by simp
  have le: "unat (sh_sequence m) \<le> length ws" if "m \<in> set ws" for m
    using that seq by (metis Suc_leI in_set_conv_nth)
  have "x \<in> set rs"
    using assms snoc le x by (simp add: hooks_ok_def word_le_nat_alt) 
  then have "sh_sequence x \<le> highest_sequence rs" by (rule highest_upper)
  moreover have "unat (highest_sequence rs) \<le> length ws"
  proof -
    have "unat (sh_sequence r) \<le> length ws" if "r \<in> set rs" for r
      using le that assms by (auto simp: hooks_ok_def)
    then show ?thesis using highest_member [of rs] by (metis le0 unat_0)
  qed
  ultimately show ?thesis using x by (simp add: word_le_nat_alt)
qed

lemma hooks_ok_step:
  assumes ok: "hooks_ok rs ack ws" and next_records: "next_hooks n ack rs = Some rs'" and small: "Suc (length ws) < 2 ^ 64"
  shows "hooks_ok rs' ack (ws @ [n\<lparr>sh_sequence := highest_sequence rs + 1\<rparr>])"
proof -
  let ?n = "n\<lparr>sh_sequence := highest_sequence rs + 1\<rparr>"
  let ?keep = "filter (\<lambda>old. sh_kind old \<noteq> sh_kind n \<or> terminal_kind (sh_kind n) \<and> sh_sequence old > ack) rs"
  have rs': "rs' = sort_slice sequence_less (?keep @ [?n])"
    using next_records by (simp add: next_hooks_def split: if_splits)
  have top: "unat (highest_sequence rs) = length ws" by (rule hooks_ok_highest [OF ok])
  then have fresh: "unat (sh_sequence ?n) = Suc (length ws)"
    using small by (simp add: unat_plus_if')
  have seq: "unat (sh_sequence (ws ! i)) = Suc i" if "i < length ws" for i
    using ok that by (simp add: hooks_ok_def)
  have sorted: "sorted_wrt sequence_less rs" and sub: "set rs \<subseteq> set ws"
    using ok by (simp_all add: hooks_ok_def)
  have above: "sh_sequence m < sh_sequence ?n" if "m \<in> set ws" for m
    using that seq fresh by (metis Suc_leI in_set_conv_nth less_Suc_eq_le word_less_nat_alt)
  have "distinct (map sh_sequence ?keep)"
    using sequence_distinct [OF sorted] by (simp add: distinct_map_filter)
  moreover have "sh_sequence ?n \<notin> sh_sequence ` set ?keep"
    using above sub by (fastforce dest: subsetD)
  ultimately have "distinct (map sh_sequence (?keep @ [?n]))" by simp
  then have "sorted_wrt sequence_less rs'"
    unfolding rs' by (rule by_sequence.sorted_sort_slice)
  moreover have set: "set rs' = set ?keep \<union> {?n}" by (simp add: rs')
  moreover have "unat (sh_sequence ((ws @ [?n]) ! i)) = Suc i" if "i < length (ws @ [?n])" for i
    using that seq fresh by (cases "i = length ws") (simp_all add: nth_append)
  moreover have "m \<in> set rs'" if "m \<in> set (ws @ [?n])" "terminal_kind (sh_kind m)" "sh_sequence m > ack" for m
  proof (cases "m = ?n")
    case False
    then have "m \<in> set rs" using that ok by (simp add: hooks_ok_def)
    then show ?thesis using that unfolding set by auto
  qed (simp add: set)
  moreover have "m \<in> set rs'"
    if m: "m \<in> set (ws @ [?n])"
      "\<forall>k \<in> set (ws @ [?n]). sh_kind k = sh_kind m \<longrightarrow> sh_sequence k \<le> sh_sequence m" for m
  proof (cases "m = ?n")
    case False
    then have mw: "m \<in> set ws" using m(1) by simp
    have "sh_kind m \<noteq> sh_kind n"
    proof
      assume "sh_kind m = sh_kind n"
      then have "sh_sequence ?n \<le> sh_sequence m" using m(2) by simp
      then show False using above [OF mw] by simp
    qed
    moreover have "m \<in> set rs" using m mw ok by (simp add: hooks_ok_def)
    ultimately show ?thesis unfolding set by simp
  qed (simp add: set)
  ultimately show ?thesis using sub unfolding hooks_ok_def by auto
qed

lemma hooks_ok_prune:
  assumes ok: "hooks_ok rs ack ws" and "s \<le> ack"
  shows "hooks_ok (pruned_hooks s rs) ack ws"
proof -
  have sorted: "sorted_wrt sequence_less rs" and sub: "set rs \<subseteq> set ws"
    using ok by (simp_all add: hooks_ok_def)
  have "sorted_wrt sequence_less (pruned_hooks s rs)"
    unfolding pruned_hooks_def using sorted by (rule sorted_wrt_filter)
  moreover have "m \<in> set (pruned_hooks s rs)"
    if m: "m \<in> set ws" "\<forall>k \<in> set ws. sh_kind k = sh_kind m \<longrightarrow> sh_sequence k \<le> sh_sequence m" for m
  proof -
    have "m \<in> set rs" using m ok by (simp add: hooks_ok_def)
    then show ?thesis
      using latest_last [OF sorted, of m] m(2) sub by (auto simp: pruned_hooks_def)
  qed
  moreover have "m \<in> set (pruned_hooks s rs)"
    if m: "m \<in> set ws" "terminal_kind (sh_kind m)" "sh_sequence m > ack" for m
    using m ok assms(2) by (auto simp: hooks_ok_def pruned_hooks_def)
  ultimately show ?thesis using ok sub unfolding hooks_ok_def by (auto simp: pruned_hooks_def)
qed

text \<open>
  C24 (hook_boundaries_survive): in every run of writes, acknowledgments and prunings (with
  fewer than 2^64 writes), the k-th record written has the sequence number k, so no number
  is used twice; the retained records are in sequence order; and they include the latest
  record of every kind and every boundary of a turn or compaction whose number has not been
  acknowledged.
\<close>

theorem hook_boundaries_survive:
  assumes "hook_run rs ack ws" "length ws < 2 ^ 64"
  shows "(\<forall>i < length ws. unat (sh_sequence (ws ! i)) = Suc i)
     \<and> sorted_wrt sequence_less rs \<and> set rs \<subseteq> set ws
     \<and> (\<forall>n \<in> set ws. terminal_kind (sh_kind n) \<and> sh_sequence n > ack \<longrightarrow> n \<in> set rs)
     \<and> (\<forall>n \<in> set ws. (\<forall>m \<in> set ws. sh_kind m = sh_kind n \<longrightarrow> sh_sequence m \<le> sh_sequence n) \<longrightarrow> n \<in> set rs)"
proof -
  have "hooks_ok rs ack ws"
    using assms
  proof (induction rule: hook_run.induct)
    case hook_start
    then show ?case by (simp add: hooks_ok_def)
  next
    case (hook_write rs ack ws n rs')
    then show ?case by (intro hooks_ok_step) auto
  next
    case (hook_acknowledge rs ack ws ack')
    then show ?case by (auto simp: hooks_ok_def)
  next
    case (hook_prune rs ack ws s)
    then show ?case by (intro hooks_ok_prune) auto
  qed
  then show ?thesis by (simp add: hooks_ok_def)
qed

definition demo_hook :: "string \<Rightarrow> time \<Rightarrow> status_hook" where
  "demo_hook k t = \<lparr>sh_sequence = 0, sh_kind = k, sh_native_event = '''', sh_at = t, sh_session_id = ''s1'',
     sh_turn_id = '''', sh_transcript = '''', sh_failure = ''''\<rparr>"

theorem hook_boundaries_survive_witness:
  "let f1 = (demo_hook ''turn-finished'' 1)\<lparr>sh_sequence := 1\<rparr>; s2 = (demo_hook ''turn-started'' 2)\<lparr>sh_sequence := 2\<rparr>;
       f3 = (demo_hook ''turn-finished'' 3)\<lparr>sh_sequence := 3\<rparr>
   in \<exists>rs. hook_run rs 0 [f1, s2, f3] \<and> f1 \<in> set rs \<and> f3 \<in> set rs"
proof -
  let ?f1 = "(demo_hook ''turn-finished'' 1)\<lparr>sh_sequence := 1\<rparr>"
  let ?s2 = "(demo_hook ''turn-started'' 2)\<lparr>sh_sequence := 2\<rparr>"
  let ?f3 = "(demo_hook ''turn-finished'' 3)\<lparr>sh_sequence := 3\<rparr>"
  have "hook_run [?f1] 0 ([] @ [?f1])"
    using hook_write [OF hook_start, of "demo_hook ''turn-finished'' 1" "[?f1]"]
    by (simp add: next_hooks_def highest_sequence_def demo_hook_def)
  then have "hook_run [?f1, ?s2] 0 ([?f1] @ [?s2])"
    using hook_write [of "[?f1]" 0 "[?f1]" "demo_hook ''turn-started'' 2" "[?f1, ?s2]"]
    by (simp add: next_hooks_def highest_sequence_def demo_hook_def terminal_kind_def sequence_less_def)
  then have run: "hook_run [?f1, ?s2, ?f3] 0 [?f1, ?s2, ?f3]"
    using hook_write [of "[?f1, ?s2]" 0 "[?f1, ?s2]" "demo_hook ''turn-finished'' 3" "[?f1, ?s2, ?f3]"]
    by (simp add: next_hooks_def highest_sequence_def demo_hook_def terminal_kind_def sequence_less_def)
  from hook_boundaries_survive [OF run] run show ?thesis
    by (auto simp: Let_def)
qed

end
