(* ===== verification/Store_Inbox.thy ===== *)
theory Store_Inbox
  imports Store_Idle
begin

text \<open>
  The rest of \<^verbatim>\<open>store/inbox.go\<close>: how envelopes leave the queue. \<^verbatim>\<open>Settle\<close> and \<^verbatim>\<open>FileFailure\<close>
  file a result, \<^verbatim>\<open>CleanResult\<close> removes the receipt a newer result replaces, \<^verbatim>\<open>Withdraw\<close>
  and \<^verbatim>\<open>ClearScheduled\<close> remove undelivered envelopes, and \<^verbatim>\<open>SealInbox\<close> moves the queue away
  before a drop. \<^verbatim>\<open>CleanResult\<close> and \<^verbatim>\<open>Settle\<close> change the caller's record on every path, also
  when they return an error: their result is the error and that record.
\<close>

section \<open>Operations\<close>

definition Withdraw :: "agent_paths \<Rightarrow> envelope_id \<Rightarrow> unit io" where
  "Withdraw p i =
     and_then (resolveIdlePublication p) (\<lambda>_.
     and_then (EnvelopePath p ''new'' i) os_remove)"

definition CleanResult :: "agent_paths \<Rightarrow> agent \<Rightarrow> (err option \<times> agent) io" where
  "CleanResult p a = (case ag_cleanup a of
       None \<Rightarrow> ret (None, a)
     | Some c \<Rightarrow>
         and_then (attempt
           (and_then (resolveIdlePublication p) (\<lambda>_.
            and_then (EnvelopePath p (ref_directory c) (ref_id c)) removeIfPresent))) (\<lambda>r. case r of
           Inl e \<Rightarrow> ret (Some e, a)
         | Inr _ \<Rightarrow> (let a' = a\<lparr>ag_cleanup := None\<rparr> in
             and_then (attempt (Save p a')) (\<lambda>s.
               ret (case s of Inl e \<Rightarrow> Some e | Inr _ \<Rightarrow> None, a')))))"

definition filed :: "envelope \<Rightarrow> string \<Rightarrow> string \<Rightarrow> envelope" where
  "filed e outcome reason =
     e\<lparr>env_outcome := outcome, env_reason := reason,
       env_witnessed := (if outcome \<noteq> ''unverified'' then '''' else env_witnessed e)\<rparr>"

text \<open>A path whose error was discarded (\<^verbatim>\<open>p, _ := EnvelopePath(...)\<close>) is empty.\<close>

definition path_or_empty :: "err + path \<Rightarrow> path" where
  "path_or_empty r = (case r of Inl _ \<Rightarrow> [] | Inr q \<Rightarrow> q)"

definition fileResult :: "agent_paths \<Rightarrow> envelope \<Rightarrow> string \<Rightarrow> string \<Rightarrow> string \<Rightarrow> unit io" where
  "fileResult p e dir outcome reason =
     and_then (EnvelopePath p ''new'' (env_id e)) (\<lambda>source.
     and_then (attempt (EnvelopePath p dir (env_id e))) (\<lambda>target.
     and_then (atomicJSON source (CEnvelope (filed e outcome reason))) (\<lambda>_.
     os_rename source (path_or_empty target))))"

definition FileFailure :: "agent_paths \<Rightarrow> envelope \<Rightarrow> string \<Rightarrow> string \<Rightarrow> unit io" where
  "FileFailure p e outcome reason = fileResult p e ''failed'' outcome reason"

definition result_dir :: "string \<Rightarrow> string" where
  "result_dir outcome = (if outcome \<in> {''delivered'', ''accepted''} then ''cur'' else ''failed'')"

definition previous_result :: "agent \<Rightarrow> string \<Rightarrow> envelope_id" where
  "previous_result a outcome =
     (if outcome = ''delivered'' then ag_last_delivered a
      else if outcome = ''accepted'' then ag_last_accepted a else ag_last_failed a)"

text \<open>The record after a result was filed: the receipt, and the one to clean up.\<close>

definition with_receipt :: "agent \<Rightarrow> envelope_id \<Rightarrow> string \<Rightarrow> agent" where
  "with_receipt a i outcome =
     (let previous = previous_result a outcome;
          a1 = (if previous \<noteq> '''' \<and> previous \<noteq> i
                then a\<lparr>ag_cleanup := Some \<lparr>ref_id = previous, ref_directory = result_dir outcome\<rparr>\<rparr> else a)
      in if outcome = ''accepted'' then a1\<lparr>ag_last_accepted := i\<rparr>
         else if result_dir outcome = ''cur'' then a1\<lparr>ag_last_delivered := i\<rparr>
         else a1\<lparr>ag_last_failed := i\<rparr>)"

definition Settle :: "agent_paths \<Rightarrow> agent \<Rightarrow> envelope \<Rightarrow> string \<Rightarrow> string \<Rightarrow> (err option \<times> agent) io" where
  "Settle p a e outcome reason =
     and_then (attempt (resolveIdlePublication p)) (\<lambda>r. case r of
       Inl x \<Rightarrow> ret (Some x, a)
     | Inr _ \<Rightarrow>
         and_then (CleanResult p a) (\<lambda>(x, a0). case x of
           Some x \<Rightarrow> ret (Some x, a0)
         | None \<Rightarrow>
             and_then (attempt (fileResult p e (result_dir outcome) outcome reason)) (\<lambda>r. case r of
               Inl x \<Rightarrow> ret (Some x, a0)
             | Inr _ \<Rightarrow> (let a1 = with_receipt a0 (env_id e) outcome in
                 and_then (attempt (Save p a1)) (\<lambda>s. case s of
                   Inl x \<Rightarrow> ret (Some x, a1)
                 | Inr _ \<Rightarrow> CleanResult p a1)))))"

text \<open>The removal loop returns the envelopes it removed also when it stops at an error.\<close>

fun remove_scheduled :: "agent_paths \<Rightarrow> sender \<Rightarrow> envelope list \<Rightarrow> envelope list \<Rightarrow> (err option \<times> envelope list) io" where
  "remove_scheduled p s [] removed = ret (None, removed)"
| "remove_scheduled p s (e # es) removed =
     (if env_not_before e = zero_time \<or> \<not> same_identity (env_from e) s
      then remove_scheduled p s es removed
      else and_then (attempt (EnvelopePath p ''new'' (env_id e))) (\<lambda>path.
        and_then (attempt (os_remove (path_or_empty path))) (\<lambda>r. case r of
          Inl x \<Rightarrow> ret (Some x, removed)
        | Inr _ \<Rightarrow> remove_scheduled p s es (removed @ [e]))))"

definition ClearScheduled :: "agent_paths \<Rightarrow> sender \<Rightarrow> (err option \<times> envelope list) io" where
  "ClearScheduled p s =
     and_then (attempt (and_then (resolveIdlePublication p) (\<lambda>_. ListNew p))) (\<lambda>r. case r of
       Inl x \<Rightarrow> ret (Some x, [])
     | Inr es \<Rightarrow> remove_scheduled p s es [])"

definition SealInbox :: "agent_paths \<Rightarrow> envelope list io" where
  "SealInbox p =
     (let source = ap_inbox p @ [''new'']; target = ap_inbox p @ [''tmp'', ''drop''] in
     and_then (resolveIdlePublication p) (\<lambda>_.
     and_then (attempt (os_rename source target)) (\<lambda>r.
     and_then (case r of
         Inr _ \<Rightarrow> ret ()
       | Inl e \<Rightarrow> if \<not> errors_is e NotExist then raise e else os_stat target) (\<lambda>_.
     list_dir p ''tmp/drop''))))"

section \<open>Where envelopes lie\<close>

lemma wp_always_ok: "wp m Q (\<lambda>_ _. False) w \<Longrightarrow> m w = (r, w') \<Longrightarrow> \<exists>y. r = Inr y \<and> Q y w'"
  by (cases r) (simp_all add: wp_def)

lemma components_dirs [simp]:
  "components ''new'' = [''new'']" "components ''cur'' = [''cur'']" "components ''failed'' = [''failed'']"
  "components ''tmp/drop'' = [''tmp'', ''drop'']"
  by (simp_all add: components_def separator_def)

lemma components_file:
  assumes "segment i"
  shows "components (i @ ''.json'') = [(if i = ''/'' then '''' else i) @ ''.json'']"
proof (cases "i = ''/''")
  case True
  then show ?thesis by (simp add: components_def separator_def)
next
  case False
  then have "plain_segment i" using assms segment_iff by blast
  then have "separator \<notin> set (i @ ''.json'')" by (auto simp: plain_segment_def separator_def)
  then show ?thesis using False by (simp add: components_def split_slash_plain)
qed

lemma env_path_inj:
  assumes "segment i" "segment j" "env_path p dir i = env_path p dir j"
  shows "i = j"
  using assms by (auto simp: env_path_def join_path_def components_file segment_def split: if_splits)

text \<open>The files an agent's own operations write, apart from its inbox.\<close>

definition own_files :: "agent_paths \<Rightarrow> path set" where
  "own_files p = idle_files (idleTeam p) \<union> {ap_log p, ap_state p, model_path p}"

definition below :: "path \<Rightarrow> path set" where
  "below q = {k. prefix q k}"

lemma inbox_apart:
  assumes "plain_segment i" "p = agent_of (team_of d) i"
  shows "below (env_path p dir j) \<inter> own_files p = {}" "env_path p dir j \<noteq> []"
proof -
  note paths = agent_of_plain [OF assms(1), of d, folded assms(2)] and idle = idle_paths [OF assms]
  show "below (env_path p dir j) \<inter> own_files p = {}"
    by (auto simp: below_def own_files_def paths idle env_path_def join_path_def)
  show "env_path p dir j \<noteq> []" by (simp add: env_path_def join_path_def paths)
qed

lemma own_files_proper:
  assumes "plain_segment i" "p = agent_of (team_of d) i"
  shows "proper p" "ap_state p \<notin> idle_files (idleTeam p)"
  using agent_of_plain [OF assms(1), of d] idle_paths [OF assms] assms(2) by auto

lemma wp_Save_frame:
  fixes a :: agent
  assumes "proper p"
    and "\<And>b w'. changed_only (own_files p) w w' \<Longrightarrow>
      lookup w' (ap_state p) = Some (File (CAgent (persist_agent (with_bound a b)))) \<Longrightarrow> Q () w'"
    and "\<And>e w'. changed_only (own_files p - {ap_state p}) w w' \<Longrightarrow> E e w'"
  shows "wp (Save p a) Q E w"
proof (rule wp_Save [OF assms(1)], goal_cases)
  case (1 b w')
  show ?case by (rule assms(2), rule changed_only_mono [OF 1(1)]) (auto simp: own_files_def 1)
next
  case (2 e w')
  show ?case
    by (rule assms(3), rule changed_only_mono [OF 2(1)]) (use assms(1) in \<open>auto simp: own_files_def proper_def\<close>)
qed

text \<open>The path of the receipt a record says is to be removed.\<close>

definition receipt_path :: "agent_paths \<Rightarrow> agent \<Rightarrow> path set" where
  "receipt_path p a = (case ag_cleanup a of None \<Rightarrow> {}
     | Some c \<Rightarrow> if segment (ref_id c) then {env_path p (ref_directory c) (ref_id c)} else {})"

lemma wp_CleanResult:
  fixes a :: agent
  assumes lay: "plain_segment i" "p = agent_of (team_of d) i"
    and "\<And>w'. changed_only (own_files p \<union> receipt_path p a) w w' \<Longrightarrow>
      (\<forall>q \<in> receipt_path p a. lookup w' q = None) \<Longrightarrow>
      ag_cleanup a = None \<and> w' = w
        \<or> (\<exists>b. lookup w' (ap_state p) = Some (File (CAgent (persist_agent (with_bound (a\<lparr>ag_cleanup := None\<rparr>) b))))) \<Longrightarrow>
      Q (None, a\<lparr>ag_cleanup := None\<rparr>) w'"
    and "\<And>e a' w'. changed_only (own_files p \<union> receipt_path p a) w w' \<Longrightarrow> Q (Some e, a') w'"
  shows "wp (CleanResult p a) Q E w"
proof (cases "ag_cleanup a")
  case None
  then have same: "a\<lparr>ag_cleanup := None\<rparr> = a" by simp
  have "Q (None, a) w" using assms(3) [of w, unfolded same] None by (simp add: receipt_path_def)
  then show ?thesis using None by (simp add: CleanResult_def)
next
  case (Some c)
  let ?path = "env_path p (ref_directory c) (ref_id c)"
  note apart = inbox_apart [OF lay, of "ref_directory c" "ref_id c"] and proper = own_files_proper [OF lay]
  have away: "?path \<notin> own_files p" using apart(1) by (auto simp: below_def)
  have idle: "changed_only (own_files p \<union> receipt_path p a) w v" if "changed_only (idle_files (idleTeam p)) w v" for v
    by (rule changed_only_mono [OF that]) (auto simp: own_files_def)
  have saved: "wp (Save p (a\<lparr>ag_cleanup := None\<rparr>)) (\<lambda>_. Q (None, a\<lparr>ag_cleanup := None\<rparr>))
      (\<lambda>e. Q (Some e, a\<lparr>ag_cleanup := None\<rparr>)) v"
    if v: "changed_only (own_files p \<union> receipt_path p a) w v" "lookup v ?path = None" "segment (ref_id c)" for v
  proof (rule wp_Save_frame [OF proper(1)], goal_cases)
    case (1 b w')
    have "lookup w' ?path = None" using changed_onlyD [OF 1(1) away] v(2) by simp
    moreover have "changed_only (own_files p \<union> receipt_path p a) w w'"
      by (rule changed_only_trans [OF v(1) 1(1)]) auto
    ultimately show ?case
      using 1(2) v(3) by (intro assms(3)) (auto simp: receipt_path_def Some)
  next
    case (2 e w')
    show ?case by (rule assms(4), rule changed_only_trans [OF v(1) 2]) auto
  qed
  show ?thesis
    unfolding CleanResult_def Some option.case wp_partial
  proof (rule wp_resolveIdlePublication [OF idle_paths(4) [OF lay]], goal_cases)
    case (1 v)
    note w = idle [OF 1(1)]
    have gone: "changed_only (own_files p \<union> receipt_path p a) w (del ?path v)" if "segment (ref_id c)"
      using w that by (auto intro!: changed_only_del simp: receipt_path_def Some)
    show ?case
      by (intro wp_EnvelopePath wp_removeIfPresent)
        (use w gone saved assms(4) in \<open>auto simp: Let_def comp_def\<close>)
  next
    case (2 e v)
    then show ?case using idle by (auto intro!: assms(4))
  qed
qed

section \<open>Filing a result\<close>

lemma dirs_apart:
  assumes "plain_segment i" "p = agent_of (team_of d) i" "dir \<in> {''cur'', ''failed''}"
  shows "below (env_path p ''new'' j) \<inter> below (env_path p dir k) = {}"
  using assms agent_of_plain [OF assms(1), of d]
  by (auto simp: below_def env_path_def join_path_def prefix_def)

lemma in_below [simp]: "q \<in> below q"
  by (simp add: below_def)

lemma new_path_differs:
  assumes "plain_segment i" "p = agent_of (team_of d) i" "dir \<in> {''cur'', ''failed''}"
  shows "env_path p ''new'' j \<noteq> env_path p dir k"
    "env_path p ''new'' j \<notin> below (env_path p dir k)" "env_path p dir k \<notin> below (env_path p ''new'' j)"
proof -
  note apart = dirs_apart [OF assms, of j k]
  show "env_path p ''new'' j \<noteq> env_path p dir k"
  proof
    assume eq: "env_path p ''new'' j = env_path p dir k"
    show False using apart in_below [of "env_path p dir k"] unfolding eq by simp
  qed
  show "env_path p ''new'' j \<notin> below (env_path p dir k)" "env_path p dir k \<notin> below (env_path p ''new'' j)"
    using apart in_below [of "env_path p ''new'' j"] in_below [of "env_path p dir k"] by blast+
qed

lemma changed_only_relabel:
  assumes "\<not> prefix q k" "\<not> prefix k q"
  shows "changed_only (below q \<union> below k) w (relabel q k w)"
    "lookup (relabel q k w) q = None" "lookup (relabel q k w) k = lookup w q"
  using assms by (simp_all add: changed_only_def lookup_relabel below_def)

lemma wp_fileResult:
  assumes lay: "plain_segment i" "p = agent_of (team_of d) i" and dir: "dir \<in> {''cur'', ''failed''}"
    and ok: "\<And>w'. changed_only (below (env_path p ''new'' (env_id e)) \<union> below (env_path p dir (env_id e))) w w' \<Longrightarrow>
      lookup w' (env_path p ''new'' (env_id e)) = None \<Longrightarrow> segment (env_id e) \<Longrightarrow>
      lookup w' (env_path p dir (env_id e)) = Some (File (CEnvelope (filed e outcome reason))) \<Longrightarrow> Q () w'"
    and failed: "\<And>x w'. changed_only {env_path p ''new'' (env_id e)} w w' \<Longrightarrow>
      lookup w' (env_path p ''new'' (env_id e))
        \<in> {lookup w (env_path p ''new'' (env_id e)), Some (File (CEnvelope (filed e outcome reason)))} \<Longrightarrow> E x w'"
  shows "wp (fileResult p e dir outcome reason) Q E w"
proof -
  let ?src = "env_path p ''new'' (env_id e)" and ?dst = "env_path p dir (env_id e)"
  let ?n = "File (CEnvelope (filed e outcome reason))"
  note apart = new_path_differs(1) [OF lay dir, of "env_id e" "env_id e"]
  have moved: "Q () ((relabel ?src ?dst (put ?src ?n w))\<lparr>faults := bs\<rparr>)"
    if "\<not> prefix ?src ?dst" "\<not> prefix ?dst ?src" "segment (env_id e)" for bs
    using that
    by (intro ok) (auto simp: changed_only_relabel intro!: changed_only_trans [OF _ changed_only_relabel(1)] changed_only_put)
  have stays: "E x ((put ?src ?n w)\<lparr>faults := bs\<rparr>)" "E x (w\<lparr>faults := bs\<rparr>)" "E x w" for x bs
    by (rule failed; auto intro: changed_only_put)+
  have renamed: "wp (os_rename ?src ?dst) Q E ((put ?src ?n w)\<lparr>faults := bs\<rparr>)" if "segment (env_id e)" for bs
    by (rule wp_os_rename) (use that apart moved stays(1) in auto)
  show ?thesis
    unfolding fileResult_def wp_partial
    by (intro wp_EnvelopePath wp_atomicJSON)
      (use dir in \<open>auto simp: stays renamed inbox_dirs_def path_or_empty_def\<close>)
qed

lemma filed_id [simp]: "env_id (filed e outcome reason) = env_id e"
  by (simp add: filed_def)

lemma result_dir_cases: "result_dir outcome \<in> {''cur'', ''failed''}"
  by (simp add: result_dir_def)

lemma with_receipt_cleanup:
  "(with_receipt (a\<lparr>ag_cleanup := None\<rparr>) i outcome)\<lparr>ag_cleanup := None\<rparr>
     = (with_receipt a i outcome)\<lparr>ag_cleanup := None\<rparr>"
proof -
  have same: "previous_result (a\<lparr>ag_cleanup := None\<rparr>) outcome = previous_result a outcome"
    by (simp add: previous_result_def)
  show ?thesis
    by (cases "outcome = ''accepted''"; cases "result_dir outcome = ''cur''";
        cases "previous_result a outcome = '''' \<or> previous_result a outcome = i")
      (auto simp: with_receipt_def Let_def same)
qed

lemma cleanup_after:
  "ag_cleanup (with_receipt a i outcome) =
     (if previous_result a outcome \<noteq> '''' \<and> previous_result a outcome \<noteq> i
      then Some \<lparr>ref_id = previous_result a outcome, ref_directory = result_dir outcome\<rparr> else ag_cleanup a)"
  by (simp add: with_receipt_def Let_def)

lemma not_segment_empty [simp]: "\<not> segment ''''"
  by (simp add: segment_def)

lemma receipt_after:
  "receipt_path p (with_receipt (a\<lparr>ag_cleanup := None\<rparr>) i outcome)
     = (if segment (previous_result a outcome) \<and> previous_result a outcome \<noteq> i
        then {env_path p (result_dir outcome) (previous_result a outcome)} else {})"
proof -
  have same: "previous_result (a\<lparr>ag_cleanup := None\<rparr>) outcome = previous_result a outcome"
    by (simp add: previous_result_def)
  show ?thesis
    by (cases "previous_result a outcome = ''''")
      (simp_all add: receipt_path_def cleanup_after same)
qed

text \<open>What \<^verbatim>\<open>Settle\<close> reports and leaves, about the envelope it was given.\<close>

definition settled :: "agent_paths \<Rightarrow> agent \<Rightarrow> envelope \<Rightarrow> string \<Rightarrow> string \<Rightarrow> agent \<Rightarrow> world \<Rightarrow> bool" where
  "settled p a e outcome reason a' w \<longleftrightarrow>
     stored_envelope p w (result_dir outcome) (env_id e) (filed e outcome reason)
     \<and> lookup w (env_path p ''new'' (env_id e)) = None
     \<and> (segment (previous_result a outcome) \<and> previous_result a outcome \<noteq> env_id e
          \<longrightarrow> lookup w (env_path p (result_dir outcome) (previous_result a outcome)) = None)
     \<and> a' = (with_receipt a (env_id e) outcome)\<lparr>ag_cleanup := None\<rparr>
     \<and> (\<exists>b. lookup w (ap_state p) = Some (File (CAgent (persist_agent (with_bound a' b)))))"

definition kept_somewhere :: "agent_paths \<Rightarrow> envelope \<Rightarrow> envelope \<Rightarrow> string \<Rightarrow> string \<Rightarrow> world \<Rightarrow> bool" where
  "kept_somewhere p e q outcome reason w \<longleftrightarrow>
     (\<exists>m \<in> {q, filed e outcome reason}. stored_envelope p w ''new'' (env_id e) m
        \<or> stored_envelope p w (result_dir outcome) (env_id e) m)"

lemma kept_new: "lookup w (env_path p ''new'' (env_id e)) \<in> {Some (File (CEnvelope q)), Some (File (CEnvelope (filed e outcome reason)))}
    \<Longrightarrow> env_id q = env_id e \<Longrightarrow> kept_somewhere p e q outcome reason w"
  by (auto simp: kept_somewhere_def stored_envelope_def)

lemma wp_Settle:
  fixes a :: agent
  assumes lay: "plain_segment i" "p = agent_of (team_of d) i"
    and cleanup: "\<forall>c. ag_cleanup a = Some c \<longrightarrow> ref_directory c \<in> {''cur'', ''failed''}"
    and queued: "stored_envelope p w ''new'' (env_id e) q"
    and ok: "\<And>a' w'. settled p a e outcome reason a' w' \<Longrightarrow> Q (None, a') w'"
    and failed: "\<And>x a' w'. kept_somewhere p e q outcome reason w' \<Longrightarrow> Q (Some x, a') w'"
  shows "wp (Settle p a e outcome reason) Q E w"
proof -
  let ?new = "env_path p ''new'' (env_id e)" and ?dst = "env_path p (result_dir outcome) (env_id e)"
  let ?f = "filed e outcome reason" and ?a0 = "a\<lparr>ag_cleanup := None\<rparr>"
  let ?a1 = "with_receipt ?a0 (env_id e) outcome"
  have q: "lookup w ?new = Some (File (CEnvelope q))" "env_id q = env_id e"
    using queued by (simp_all add: stored_envelope_def)
  note proper = own_files_proper [OF lay]
  have away: "env_path p dir j \<notin> own_files p" for dir j
    using inbox_apart(1) [OF lay, of dir j] in_below by blast
  have old: "?new \<notin> receipt_path p a"
  proof
    assume "?new \<in> receipt_path p a"
    then obtain c where c: "ag_cleanup a = Some c" "?new = env_path p (ref_directory c) (ref_id c)"
      by (auto simp: receipt_path_def split: option.splits if_splits)
    then show False using new_path_differs(1) [OF lay, of "ref_directory c" "env_id e" "ref_id c"] cleanup by simp
  qed
  have idle: "lookup v ?new = lookup w ?new" if "changed_only (idle_files (idleTeam p)) w v" for v
    using that away [of "''new''" "env_id e"] by (auto simp: changed_only_def own_files_def)
  have early: "lookup v ?new = Some (File (CEnvelope q))"
    if "changed_only (own_files p \<union> receipt_path p a) u v" "lookup u ?new = Some (File (CEnvelope q))" for u v
    using that away old by (simp add: changed_only_def)
  have filed: "kept_somewhere p e q outcome reason v" if "lookup v ?dst = Some (File (CEnvelope ?f))" for v
    using that by (auto simp: kept_somewhere_def stored_envelope_def)
  have finish: "wp (CleanResult p ?a1) Q E v"
    if v: "lookup v ?dst = Some (File (CEnvelope ?f))" "lookup v ?new = None" "segment (env_id e)"
      "\<exists>b. lookup v (ap_state p) = Some (File (CAgent (persist_agent (with_bound ?a1 b))))" for v
  proof -
    have other: "?dst \<notin> receipt_path p ?a1"
      using v(3) env_path_inj [of "env_id e" "previous_result a outcome" p "result_dir outcome"]
      unfolding receipt_after by auto
    have other_new: "?new \<notin> receipt_path p ?a1"
      using new_path_differs(1) [OF lay result_dir_cases] unfolding receipt_after by simp
    have dst_kept: "lookup w' ?dst = Some (File (CEnvelope ?f))" "lookup w' ?new = None"
      if "changed_only (own_files p \<union> receipt_path p ?a1) v w'" for w'
      using that v(1,2) away other other_new by (simp_all add: changed_only_def)
    show ?thesis
    proof (rule wp_CleanResult [OF lay], goal_cases)
      case (1 w')
      have state: "\<exists>b. lookup w' (ap_state p) = Some (File (CAgent (persist_agent (with_bound (?a1\<lparr>ag_cleanup := None\<rparr>) b))))"
        using 1(3)
      proof
        assume none: "ag_cleanup ?a1 = None \<and> w' = v"
        then have "?a1\<lparr>ag_cleanup := None\<rparr> = ?a1" by simp
        then show ?thesis using v(4) none by metis
      qed
      then show ?case
        using dst_kept [OF 1(1)] 1(2)
        by (intro ok) (simp add: settled_def stored_envelope_def with_receipt_cleanup receipt_after)
    next
      case (2 x a' w')
      show ?case by (rule failed, rule filed, rule dst_kept(1) [OF 2])
    qed
  qed
  have save: "wp (Save p ?a1) (\<lambda>_. wp (CleanResult p ?a1) Q E) (\<lambda>x. Q (Some x, ?a1)) v"
    if v: "lookup v ?dst = Some (File (CEnvelope ?f))" "lookup v ?new = None" "segment (env_id e)" for v
  proof (rule wp_Save_frame [OF proper(1)], goal_cases)
    case (1 b w')
    show ?case
      by (rule finish) (use v 1 changed_onlyD [OF 1(1) away] in auto)
  next
    case (2 x w')
    show ?case
      by (rule failed, rule filed) (use v(1) 2 away in \<open>simp add: changed_only_def\<close>)
  qed
  have file_it: "wp (fileResult p e (result_dir outcome) outcome reason)
      (\<lambda>_. wp (Save p ?a1) (\<lambda>_. wp (CleanResult p ?a1) Q E) (\<lambda>x. Q (Some x, ?a1)))
      (\<lambda>x. Q (Some x, ?a0)) v"
    if v: "lookup v ?new = Some (File (CEnvelope q))" for v
    by (rule wp_fileResult [OF lay result_dir_cases])
      (use v q(2) in \<open>auto intro!: save failed kept_new\<close>)
  show ?thesis
    unfolding Settle_def wp_partial
  proof (rule wp_resolveIdlePublication [OF idle_paths(4) [OF lay]], goal_cases)
    case (1 v)
    have v: "lookup v ?new = Some (File (CEnvelope q))" using idle [OF 1(1)] q by simp
    show ?case
      unfolding sum.case wp_partial
    proof (rule wp_CleanResult [OF lay], goal_cases)
      case (1 u)
      show ?case using file_it [OF early [OF 1(1) v]] by (simp add: Let_def)
    next
      case (2 x a' u)
      show ?case using early [OF 2 v] q(2) by (auto intro!: failed kept_new)
    qed
  next
    case (2 x v)
    then show ?case using idle [OF 2(1)] q by (auto intro!: failed kept_new)
  qed
qed

text \<open>
  C35 (settle_keeps_envelope): whatever fails in \<^verbatim>\<open>Settle\<close>, the envelope is not lost: it is
  still queued or lies in the directory of its result, as it was or with the outcome. When
  \<^verbatim>\<open>Settle\<close> returns no error, the result is filed with its outcome, the queue entry is gone,
  the result it replaces is removed, and the saved record names the new receipt and
  nothing left to clean up.
\<close>

theorem settle_keeps_envelope:
  fixes a :: agent
  assumes "plain_segment i" "p = agent_of (team_of d) i"
    and "\<forall>c. ag_cleanup a = Some c \<longrightarrow> ref_directory c \<in> {''cur'', ''failed''}"
    and "stored_envelope p w ''new'' (env_id e) q"
    and "Settle p a e outcome reason w = (r, w')"
  shows "\<exists>x a'. r = Inr (x, a') \<and> kept_somewhere p e q outcome reason w'
    \<and> (x = None \<longrightarrow> settled p a e outcome reason a' w')"
proof -
  let ?goal = "\<lambda>(x, a') w'. kept_somewhere p e q outcome reason w'
    \<and> (x = None \<longrightarrow> settled p a e outcome reason a' w')"
  have "wp (Settle p a e outcome reason) ?goal (\<lambda>_ _. False) w"
    by (rule wp_Settle [OF assms(1-4)]) (auto simp: settled_def kept_somewhere_def)
  then show ?thesis using assms(5) by (auto simp: wp_def split: sum.splits prod.splits)
qed

definition demo_settle_world :: world where
  "demo_settle_world = (demo_inbox_world [''m1''])\<lparr>held := [(ap_lock demo_paths, Some '''')]\<rparr>"

lemma demo_settle_world_simps [simp]:
  "faults demo_settle_world = []" "shorts demo_settle_world = []"
  "lookup demo_settle_world q = map_of (demo_inbox [''m1'']) q" "busy demo_settle_world = []"
  "held demo_settle_world = [([''t'', ''agents'', ''h1'', ''lock''], Some '''')]"
  by (simp_all add: demo_settle_world_def demo_inbox_world_def demo_world_def lookup_def)

lemma demo_settle:
  "\<exists>a'. fst (Settle demo_paths demo_hitch (demo_envelope ''m1'') ''delivered'' '''' demo_settle_world) = Inr (None, a')"
proof -
  have path: "EnvelopePath demo_paths dir ''m1'' w =
      (Inr [''t'', ''agents'', ''h1'', ''inbox'', dir, ''m1.json''], w)" if "dir \<in> {''new'', ''cur''}" for w dir
    using that by (auto simp: EnvelopePath_def and_then_def check_segment_def segment_iff plain_segment_def
        separator_def ret_def join_path_def components_def)
  have no: "idle_work no_idle = []" "idle_pending no_idle = None" by (simp_all add: no_idle_def)
  have a: "ag_cleanup demo_hitch = None" "ag_last_delivered demo_hitch = ''''"
      "\<not> unbound (with_receipt demo_hitch ''m1'' ''delivered'') ''''"
      "ag_cleanup (with_receipt demo_hitch ''m1'' ''delivered'') = None"
    by (simp_all add: demo_hitch_def blank_agent_def blank_native_def unbound_def with_receipt_def Let_def
        previous_result_def result_dir_def)
  show ?thesis
    by (simp add: Settle_def resolveIdlePublication_def and_then_def attempt_def act_quiet sys_quiet is_dir_def
        demo_inbox_def demo_tree_def os_stat_def Let_def demo_idle_paths LockIdle_def
        os_open_create_def idle_lock_def updates_def IdleRead_def idle_file_def readJSON_quiet ret_def no
        resolve_pending_def IdleSave_def reads_def IdleClose_def CleanResult_def a fileResult_def result_dir_def path
        atomicJSON_quiet os_rename_def lookup_relabel path_or_empty_def Save_def saved_bound_def handle_def saveModelState_def
        set_bound_def)
qed

theorem settle_keeps_envelope_witness:
  "\<exists>a'. settled demo_paths demo_hitch (demo_envelope ''m1'') ''delivered'' '''' a'
     (snd (Settle demo_paths demo_hitch (demo_envelope ''m1'') ''delivered'' '''' demo_settle_world))"
proof -
  have cleanup: "\<forall>c. ag_cleanup demo_hitch = Some c \<longrightarrow> ref_directory c \<in> {''cur'', ''failed''}"
    by (simp add: demo_hitch_def blank_agent_def)
  have path: "env_path demo_paths ''new'' ''m1'' = [''t'', ''agents'', ''h1'', ''inbox'', ''new'', ''m1.json'']"
    by (simp add: env_path_def join_path_def components_def separator_def)
  have queued: "stored_envelope demo_paths demo_settle_world ''new'' (env_id (demo_envelope ''m1'')) (demo_envelope ''m1'')"
    by (simp add: stored_envelope_def path demo_inbox_def)
  show ?thesis
    using settle_keeps_envelope [OF plain_h1 demo_paths_def cleanup queued prod.collapse [symmetric],
        of "''delivered''" "''''"] demo_settle by force
qed

section \<open>Removing undelivered envelopes\<close>

text \<open>A scheduled envelope of the sender who asks to clear them.\<close>

definition scheduled_by :: "sender \<Rightarrow> envelope \<Rightarrow> bool" where
  "scheduled_by s e \<longleftrightarrow> env_not_before e \<noteq> zero_time \<and> same_identity (env_from e) s"

lemma wp_remove_scheduled:
  assumes "\<forall>e \<in> set es. segment (env_id e) \<and> lookup w (env_path p ''new'' (env_id e)) = Some (File (CEnvelope e))"
    and "distinct (map env_id es)"
    and "\<And>x more w'. set more \<subseteq> set es \<Longrightarrow> (\<forall>e \<in> set more. scheduled_by s e) \<Longrightarrow>
      (x = None \<longrightarrow> more = filter (scheduled_by s) es) \<Longrightarrow>
      changed_only ((\<lambda>e. env_path p ''new'' (env_id e)) ` set more) w w' \<Longrightarrow>
      (\<forall>e \<in> set more. lookup w' (env_path p ''new'' (env_id e)) = None) \<Longrightarrow> Q (x, removed @ more) w'"
  shows "wp (remove_scheduled p s es removed) Q E w"
  using assms
proof (induction es arbitrary: w removed)
  case Nil
  then show ?case using Nil.prems(3) [of "[]" None w] by simp
next
  case (Cons e es)
  let ?path = "\<lambda>e. env_path p ''new'' (env_id e)"
  have entry: "segment (env_id x)" "lookup w (?path x) = Some (File (CEnvelope x))"
    if "x \<in> set es" for x
    using Cons.prems(1) that by auto
  have seg: "segment (env_id e)" using Cons.prems(1) by simp
  have apart: "?path x \<noteq> ?path e" if "x \<in> set es" for x
  proof
    assume "?path x = ?path e"
    then have "env_id x = env_id e" by (rule env_path_inj [OF entry(1) [OF that] seg])
    then have "env_id e \<in> env_id ` set es" using that by (metis imageI)
    then show False using Cons.prems(2) by simp
  qed
  show ?case
  proof (cases "scheduled_by s e")
    case False
    have "wp (remove_scheduled p s es removed) Q E w"
    proof (rule Cons.IH)
      fix x :: "err option" and more w'
      assume m: "set more \<subseteq> set es" "\<forall>e \<in> set more. scheduled_by s e" "x = None \<longrightarrow> more = filter (scheduled_by s) es"
        "changed_only (?path ` set more) w w'" "\<forall>e \<in> set more. lookup w' (?path e) = None"
      show "Q (x, removed @ more) w'"
      proof (rule Cons.prems(3))
        show "set more \<subseteq> set (e # es)" using m(1) by auto
        show "x = None \<longrightarrow> more = filter (scheduled_by s) (e # es)" using m(3) False by simp
      qed (rule m(2), rule m(4), rule m(5))
    qed (use Cons.prems(1,2) in auto)
    then show ?thesis using False by (auto simp: scheduled_by_def)
  next
    case True
    let ?u = "\<lambda>bs. (del (?path e) w)\<lparr>faults := bs\<rparr>"
    have rest: "wp (remove_scheduled p s es (removed @ [e])) Q E (?u bs)" for bs
    proof (rule Cons.IH)
      show "\<forall>x \<in> set es. segment (env_id x) \<and> lookup (?u bs) (?path x) = Some (File (CEnvelope x))"
        using entry apart by simp
      show "distinct (map env_id es)" using Cons.prems(2) by simp
    next
      fix x :: "err option" and more w'
      assume m: "set more \<subseteq> set es" "\<forall>e \<in> set more. scheduled_by s e" "x = None \<longrightarrow> more = filter (scheduled_by s) es"
        "changed_only (?path ` set more) (?u bs) w'" "\<forall>e \<in> set more. lookup w' (?path e) = None"
      have first: "changed_only {?path e} w (?u bs)" by (simp add: changed_only_del)
      have "?path e \<notin> ?path ` set more"
      proof
        assume "?path e \<in> ?path ` set more"
        then obtain y where "?path e = ?path y" "y \<in> set es" using m(1) by blast
        then show False using apart [of y] by simp
      qed
      then have gone: "lookup w' (?path e) = None" using changed_onlyD [OF m(4)] by simp
      have both: "changed_only (?path ` set (e # more)) w w'" by (rule changed_only_trans [OF first m(4)]) auto
      have "Q (x, removed @ (e # more)) w'"
      proof (rule Cons.prems(3))
        show "set (e # more) \<subseteq> set (e # es)" using m(1) by auto
        show "\<forall>e \<in> set (e # more). scheduled_by s e" using m(2) True by simp
        show "x = None \<longrightarrow> e # more = filter (scheduled_by s) (e # es)" using m(3) True by simp
        show "\<forall>e \<in> set (e # more). lookup w' (?path e) = None" using m(5) gone by simp
      qed (rule both)
      then show "Q (x, (removed @ [e]) @ more) w'" by simp
    qed
    have stop: "Q (Some x, removed) (w\<lparr>faults := bs\<rparr>)" for x bs
      using Cons.prems(3) [of "[]" "Some x" "w\<lparr>faults := bs\<rparr>"] by simp
    have "wp (os_remove (?path e)) (\<lambda>_. wp (remove_scheduled p s es (removed @ [e])) Q E)
        (\<lambda>x. Q (Some x, removed)) w"
      by (rule wp_os_remove) (rule rest, rule stop)
    then have "wp (EnvelopePath p ''new'' (env_id e))
        (\<lambda>q. wp (os_remove q) (\<lambda>_. wp (remove_scheduled p s es (removed @ [e])) Q E) (\<lambda>x. Q (Some x, removed)))
        (\<lambda>x. wp (os_remove []) (\<lambda>_. wp (remove_scheduled p s es (removed @ [e])) Q E) (\<lambda>x. Q (Some x, removed))) w"
      using seg by (intro wp_EnvelopePath) (simp_all add: inbox_dirs_def)
    then show ?thesis
      using True unfolding remove_scheduled.simps scheduled_by_def
      by (simp add: path_or_empty_def)
  qed
qed

lemma counts_by_ledger:
  assumes "counts_kept t w v" "idle_pending (ledger t v) = None" "ledger t w' = ledger t v"
  shows "counts_kept t w w'"
  using assms by (simp add: counts_kept_def publications_def)

lemma new_entry:
  assumes "plain_segment j"
  shows "env_path p ''new'' j = ap_inbox p @ [''new'', j @ ''.json'']"
proof -
  have "j \<noteq> ''/''"
  proof
    assume "j = ''/''"
    then have "separator \<in> set j" by (simp add: separator_def)
    then show False using assms unfolding plain_segment_def by blast
  qed
  then show ?thesis using assms by (simp add: env_path_def join_path_def components_file segment_iff)
qed

lemma read_entry_pure: "wp (read_entry d x) (\<lambda>_ v. lookup v = lookup u) (\<lambda>_ v. lookup v = lookup u) u"
proof -
  obtain n b where x: "x = (n, b)" by (cases x)
  have read: "wp (readJSON as_envelope (d @ [n]))
      (\<lambda>e. wp (if n \<noteq> env_id e @ ''.json'' then raise (Fail m) else ret (Some e))
        (\<lambda>_ v. lookup v = lookup u) (\<lambda>_ v. lookup v = lookup u))
      (\<lambda>e. wp (if errors_is e NotExist then ret None else raise e)
        (\<lambda>_ v. lookup v = lookup u) (\<lambda>_ v. lookup v = lookup u)) u" for m
    by (rule wp_readJSON) (simp_all add: fun_eq_iff)
  show ?thesis
    by (cases b) (use read in \<open>simp_all add: x read_entry_def wp_partial\<close>)
qed

lemma list_dir_pure:
  "wp (list_dir p dir) (\<lambda>_ v. lookup v = lookup w) (\<lambda>_ v. lookup v = lookup w) w"
  unfolding list_dir_def Let_def wp_simps
proof (rule wp_os_read_dir, goal_cases)
  case (1 bs)
  have step: "wp (read_entry d x) (\<lambda>_ v. lookup v = lookup w) (\<lambda>_ v. lookup v = lookup w) v"
    if "lookup v = lookup w" for d x v
    using read_entry_pure [of d x v] unfolding that .
  show ?case
    by (rule wp_collect [where I = "\<lambda>v. lookup v = lookup w"]) (rule step, assumption, simp add: fun_eq_iff)
qed (simp add: fun_eq_iff)

lemma wp_ListNew:
  assumes "\<And>es bs. sorted_wrt env_less es \<Longrightarrow> set es = envelopes_in w (ap_inbox p @ [''new'']) \<Longrightarrow>
      distinct (map env_id es) \<Longrightarrow> Q es (w\<lparr>faults := bs\<rparr>)"
    and "\<And>e w'. lookup w' = lookup w \<Longrightarrow> E e w'"
  shows "wp (ListNew p) Q E w"
proof (rule wpI)
  fix es w' assume run: "ListNew p w = (Inr es, w')"
  have "wp (ListNew p) (\<lambda>es w'. \<exists>bs. w' = w\<lparr>faults := bs\<rparr>) (\<lambda>_ _. True) w"
    unfolding ListNew_def by (rule wp_list_dir [where d = "ap_inbox p @ [''new'']"]) auto
  from wp_okD [OF this run] show "Q es w'" using ListNew_exact [OF run] assms(1) by auto
next
  fix e w' assume run: "ListNew p w = (Inl e, w')"
  from wp_errD [OF list_dir_pure [of p "''new''" w] this [unfolded ListNew_def]] show "E e w'"
    by (rule assms(2))
qed

text \<open>Every queued envelope was published under an identity that is a path component.\<close>

definition named_queue :: "agent_paths \<Rightarrow> world \<Rightarrow> bool" where
  "named_queue p w \<longleftrightarrow> (\<forall>e \<in> envelopes_in w (ap_inbox p @ [''new'']). plain_segment (env_id e))"

text \<open>
  \<^verbatim>\<open>ClearScheduled\<close> removes scheduled envelopes of one sender
  identity and nothing else. Whatever fails, the queue afterwards is the queue before
  without the envelopes it returns, all of which are scheduled and of that sender, and no
  agent's publication count changes; when it returns no error it has removed all of them.
\<close>

theorem clear_scheduled_exact:
  assumes "plain_segment i" "p = agent_of (team_of d) i" "named_queue p w"
    and "ClearScheduled p s w = (r, w')"
  shows "\<exists>x removed. r = Inr (x, removed)
    \<and> envelopes_in w' (ap_inbox p @ [''new'']) = envelopes_in w (ap_inbox p @ [''new'']) - set removed
    \<and> set removed \<subseteq> {e \<in> envelopes_in w (ap_inbox p @ [''new'']). scheduled_by s e}
    \<and> (x = None \<longrightarrow> set removed = {e \<in> envelopes_in w (ap_inbox p @ [''new'']). scheduled_by s e})
    \<and> counts_kept (idleTeam p) w w'"
proof -
  let ?d = "ap_inbox p @ [''new'']" and ?t = "idleTeam p" and ?path = "\<lambda>e. env_path p ''new'' (env_id e)"
  note lay = assms(1,2)
  define good where "good = (\<lambda>(x :: err option, removed) v.
    envelopes_in v ?d = envelopes_in w ?d - set removed
    \<and> set removed \<subseteq> {e \<in> envelopes_in w ?d. scheduled_by s e}
    \<and> (x = None \<longrightarrow> set removed = {e \<in> envelopes_in w ?d. scheduled_by s e}) \<and> counts_kept ?t w v)"
  have entry: "?path e = ?d @ [env_id e @ ''.json'']" if "e \<in> envelopes_in w ?d" for e
    using new_entry [of "env_id e" p] that assms(3) by (simp add: named_queue_def)
  have same: "envelopes_in v ?d = envelopes_in w ?d" if "changed_only (idle_files ?t) w v" for v
    using that idle_paths [OF lay] by (simp add: envelopes_in_def changed_only_def)
  have none: "good (Some x, []) v" if "envelopes_in v ?d = envelopes_in w ?d" "counts_kept ?t w v" for x v
    using that by (simp add: good_def)
  have removal: "wp (remove_scheduled p s es []) good (\<lambda>_ _. False) (v\<lparr>faults := bs\<rparr>)"
    if v: "changed_only (idle_files ?t) w v" "idle_pending (ledger ?t v) = None" "counts_kept ?t w v"
      and es: "set es = envelopes_in v ?d" "distinct (map env_id es)" for v es bs
  proof -
    have set: "set es = envelopes_in w ?d" using es(1) same [OF v(1)] by simp
    have at: "lookup v (?path e) = Some (File (CEnvelope e))" if "e \<in> set es" for e
    proof -
      have "e \<in> envelopes_in v ?d" using that es(1) by blast
      then have "lookup v (?d @ [env_id e @ ''.json'']) = Some (File (CEnvelope e))" by (simp add: envelopes_in_def)
      moreover have "e \<in> envelopes_in w ?d" using that set by blast
      ultimately show ?thesis using entry by simp
    qed
    have seg: "segment (env_id e)" if "e \<in> set es" for e
      using that assms(3) set by (simp add: named_queue_def segment_iff)
    show ?thesis
    proof (rule wp_remove_scheduled)
      show "\<forall>e \<in> set es. segment (env_id e) \<and> lookup (v\<lparr>faults := bs\<rparr>) (?path e) = Some (File (CEnvelope e))"
        using at seg by simp
      fix x :: "err option" and more u
      assume m: "set more \<subseteq> set es" "\<forall>e \<in> set more. scheduled_by s e" "x = None \<longrightarrow> more = filter (scheduled_by s) es"
        "changed_only (?path ` set more) (v\<lparr>faults := bs\<rparr>) u" "\<forall>e \<in> set more. lookup u (?path e) = None"
      have other: "lookup u q = lookup v q" if "q \<notin> ?path ` set more" for q
        using changed_onlyD [OF m(4) that] by simp
      have "envelopes_in u ?d = envelopes_in v ?d - set more"
      proof (rule set_eqI)
        fix e
        show "e \<in> envelopes_in u ?d \<longleftrightarrow> e \<in> envelopes_in v ?d - set more"
        proof (cases "?d @ [env_id e @ ''.json''] \<in> ?path ` set more")
          case True
          then obtain m' where m': "m' \<in> set more" "?d @ [env_id e @ ''.json''] = ?path m'" by blast
          then have "lookup u (?d @ [env_id e @ ''.json'']) = None" using m(5) by simp
          moreover have "e \<in> set more" if "e \<in> envelopes_in v ?d"
          proof -
            have "lookup v (?path m') = Some (File (CEnvelope m'))" using m'(1) m(1) at by blast
            then show ?thesis using that m' by (simp add: envelopes_in_def)
          qed
          ultimately show ?thesis by (auto simp: envelopes_in_def)
        next
          case False
          have "e \<notin> set more"
          proof
            assume e: "e \<in> set more"
            then have "e \<in> envelopes_in w ?d" using m(1) set by blast
            from entry [OF this] imageI [OF e, of ?path] show False using False by simp
          qed
          then show ?thesis using other [OF False] by (simp add: envelopes_in_def)
        qed
      qed
      moreover have "counts_kept ?t w u"
      proof (rule counts_by_ledger [OF v(3,2)])
        have "?path e \<noteq> idle_file ?t" for e using env_path_away [OF lay, of "''new''" "env_id e"] by simp
        then have "idle_file ?t \<notin> ?path ` set more" by (metis imageE)
        from ledger_changed [OF m(4) this] show "ledger ?t u = ledger ?t v" by simp
      qed
      moreover have "set more \<subseteq> {e \<in> envelopes_in w ?d. scheduled_by s e}"
        using m(1,2) set by blast
      moreover have "x = None \<longrightarrow> set more = {e \<in> envelopes_in w ?d. scheduled_by s e}"
        using m(3) set by auto
      ultimately show "good (x, [] @ more) u" using same [OF v(1)] by (simp add: good_def)
    qed (rule es(2))
  qed
  have "wp (ClearScheduled p s) good (\<lambda>_ _. False) w"
    unfolding ClearScheduled_def wp_partial
  proof (rule wp_resolveIdlePublication [OF idle_paths(4) [OF lay]], goal_cases)
    case (1 v)
    note v = 1
    show ?case
    proof (rule wp_ListNew, goal_cases)
      case (1 es bs)
      have "wp (remove_scheduled p s es []) good (\<lambda>_ _. False) (v\<lparr>faults := bs\<rparr>)"
        by (rule removal [OF v 1(2,3)])
      then show ?case by simp
    next
      case (2 e u)
      have "ledger ?t u = ledger ?t v" using 2 by (simp add: ledger_def)
      then have "counts_kept ?t w u" by (rule counts_by_ledger [OF v(3,2)])
      moreover have "envelopes_in u ?d = envelopes_in w ?d"
        using 2 same [OF v(1)] by (simp add: envelopes_in_def)
      ultimately show ?case using none [of u e] by simp
    qed
  next
    case (2 e v)
    show ?case using none [OF same [OF 2(1)] 2(2)] by simp
  qed
  from wp_always_ok [OF this assms(4)] obtain y where y: "r = Inr y" "good y w'" by (elim exE conjE)
  obtain x removed where "y = (x, removed)" by (cases y)
  with y show ?thesis by (intro exI [of _ x] exI [of _ removed]) (simp add: good_def)
qed

lemma plain_m1: "plain_segment ''m1''"
  by (simp add: plain_segment_def separator_def)

lemma demo_named_queue: "named_queue demo_paths (demo_inbox_world [''m1''])"
proof -
  have "env_id e = ''m1''" if "e \<in> envelopes_in (demo_inbox_world [''m1'']) (ap_inbox demo_paths @ [''new''])" for e
    using that by (simp add: envelopes_in_def demo_inbox_def demo_tree_def split: if_splits)
  then show ?thesis using plain_m1 by (simp add: named_queue_def)
qed

theorem clear_scheduled_exact_witness:
  "\<exists>x removed. fst (ClearScheduled demo_paths blank_sender (demo_inbox_world [''m1''])) = Inr (x, removed)
     \<and> envelopes_in (snd (ClearScheduled demo_paths blank_sender (demo_inbox_world [''m1'']))) (ap_inbox demo_paths @ [''new''])
       = envelopes_in (demo_inbox_world [''m1'']) (ap_inbox demo_paths @ [''new'']) - set removed"
  using clear_scheduled_exact [OF plain_h1 demo_paths_def demo_named_queue prod.collapse [symmetric], of blank_sender]
  by blast

section \<open>Sealing the queue before a drop\<close>

definition queue_dir :: "agent_paths \<Rightarrow> path" where
  "queue_dir p = ap_inbox p @ [''new'']"

definition drop_dir :: "agent_paths \<Rightarrow> path" where
  "drop_dir p = ap_inbox p @ [''tmp'', ''drop'']"

text \<open>An entry of the two directories lies in a directory that exists, as on any file system.\<close>

definition inbox_sound :: "agent_paths \<Rightarrow> world \<Rightarrow> bool" where
  "inbox_sound p w \<longleftrightarrow> (\<forall>k. lookup w (queue_dir p @ k) \<noteq> None \<longrightarrow> lookup w (queue_dir p) = Some Dir)
     \<and> (\<forall>n. lookup w (drop_dir p @ [n]) \<noteq> None \<longrightarrow> lookup w (drop_dir p) = Some Dir)
     \<and> (lookup w (drop_dir p) \<noteq> None \<longrightarrow> is_dir w (ap_inbox p @ [''tmp'']))"

lemma queue_drop_apart: "\<not> prefix (queue_dir p) (drop_dir p)" "\<not> prefix (drop_dir p) (queue_dir p)"
  by (simp_all add: queue_dir_def drop_dir_def)

lemma own_files_queue:
  assumes "plain_segment i" "p = agent_of (team_of d) i"
  shows "changed_only (idle_files (idleTeam p)) w v \<Longrightarrow> lookup v (queue_dir p @ k) = lookup w (queue_dir p @ k)"
    "changed_only (idle_files (idleTeam p)) w v \<Longrightarrow> lookup v (drop_dir p @ k) = lookup w (drop_dir p @ k)"
    "changed_only (idle_files (idleTeam p)) w v \<Longrightarrow> lookup v (ap_inbox p @ k) = lookup w (ap_inbox p @ k)"
  using idle_paths [OF assms] by (simp_all add: changed_only_def queue_dir_def drop_dir_def)

text \<open>
  Whatever fails in \<^verbatim>\<open>SealInbox\<close>, no queued envelope is lost: every
  file of the queue is still there or has moved to the drop directory, and every file the
  drop directory held is still in it. When \<^verbatim>\<open>SealInbox\<close> succeeds the queue directory is gone,
  so a later publication fails, and the result lists the sealed envelopes in delivery order:
  those of the queue, or of an earlier seal when there was no queue directory.
\<close>

theorem seal_keeps_queue:
  assumes "plain_segment i" "p = agent_of (team_of d) i" "inbox_sound p w"
    and "SealInbox p w = (r, w')"
  shows "(\<forall>k m. lookup w (queue_dir p @ k) = Some m
        \<longrightarrow> lookup w' (queue_dir p @ k) = Some m \<or> lookup w' (drop_dir p @ k) = Some m)
    \<and> (\<forall>n m. lookup w (drop_dir p @ [n]) = Some m \<longrightarrow> lookup w' (drop_dir p @ [n]) = Some m)
    \<and> (\<forall>es. r = Inr es \<longrightarrow> lookup w' (queue_dir p) = None \<and> sorted_wrt env_less es
        \<and> set es = (if lookup w (queue_dir p) \<noteq> None then envelopes_in w (queue_dir p) else envelopes_in w (drop_dir p)))"
    (is "?goal r w'")
proof -
  note lay = assms(1,2) and own = own_files_queue [OF lay]
  have in_queue: "lookup w (queue_dir p) = Some Dir" if "lookup w (queue_dir p @ k) = Some m" for k m
    using assms(3) that unfolding inbox_sound_def by blast
  have in_drop: "lookup w (drop_dir p) = Some Dir" if "lookup w (drop_dir p @ [n]) = Some m" for n m
    using assms(3) that unfolding inbox_sound_def by blast
  have tmp: "is_dir w (ap_inbox p @ [''tmp''])" if "lookup w (drop_dir p) = Some m" for m
    using assms(3) that unfolding inbox_sound_def by blast
  define goal where "goal r v \<longleftrightarrow> ?goal r v" for r v
  have stays: "goal (Inl x) v" if "\<And>k. lookup v (queue_dir p @ k) = lookup w (queue_dir p @ k)"
      "\<And>k. lookup v (drop_dir p @ k) = lookup w (drop_dir p @ k)" for x v
    using that by (simp add: goal_def)
  have final: "wp (list_dir p ''tmp/drop'') (\<lambda>es. goal (Inr es)) (\<lambda>x. goal (Inl x)) v"
    if v: "lookup v (queue_dir p) = None"
      "\<forall>k m. lookup w (queue_dir p @ k) = Some m \<longrightarrow> lookup v (drop_dir p @ k) = Some m"
      "\<forall>n m. lookup w (drop_dir p @ [n]) = Some m \<longrightarrow> lookup v (drop_dir p @ [n]) = Some m"
      "envelopes_in v (drop_dir p) = (if lookup w (queue_dir p) \<noteq> None then envelopes_in w (queue_dir p) else envelopes_in w (drop_dir p))"
    for v
  proof -
    have keep: "goal (Inl x) u" if "lookup u = lookup v" for x u
      using v(2,3) that by (simp add: goal_def)
    show ?thesis
    proof (rule wpI)
      fix es u assume run: "list_dir p ''tmp/drop'' v = (Inr es, u)"
      have "wp (list_dir p ''tmp/drop'') (\<lambda>es u. lookup u = lookup v \<and> sorted_wrt env_less es
          \<and> set es = envelopes_in v (drop_dir p)) (\<lambda>_ _. True) v"
        by (rule wp_list_dir [where d = "drop_dir p"]) (auto simp: fun_eq_iff drop_dir_def)
      from wp_okD [OF this run] show "goal (Inr es) u" using v by (simp add: goal_def)
    next
      fix x u assume run: "list_dir p ''tmp/drop'' v = (Inl x, u)"
      show "goal (Inl x) u" by (rule keep, rule wp_errD [OF list_dir_pure run])
    qed
  qed
  have "wp (SealInbox p) (\<lambda>es. goal (Inr es)) (\<lambda>x. goal (Inl x)) w"
    unfolding SealInbox_def Let_def queue_dir_def [symmetric] drop_dir_def [symmetric] wp_partial
  proof (rule wp_resolveIdlePublication [OF idle_paths(4) [OF lay]], goal_cases)
    case (1 v)
    note v = own [OF 1(1)]
    show ?case
    proof (rule wp_os_rename, goal_cases)
      case (1 bs n)
      let ?u = "relabel (queue_dir p) (drop_dir p) v"
      have u: "lookup ?u q = (if prefix (drop_dir p) q then lookup v (queue_dir p @ drop (length (drop_dir p)) q)
          else if prefix (queue_dir p) q then None else lookup v q)" for q
        by (rule lookup_relabel [OF queue_drop_apart])
      have at: "lookup ?u (drop_dir p @ k) = lookup w (queue_dir p @ k)" for k using v by (simp add: u)
      have exists: "lookup w (queue_dir p) = Some Dir"
        by (rule in_queue [of "[]" n]) (use 1(1) v(1) [of "[]"] in simp)
      then have n': "n = Dir" using 1(1) v(1) [of "[]"] by simp
      have empty: "lookup w (drop_dir p @ [n]) = None" for n :: string
      proof (rule ccontr)
        assume entry: "lookup w (drop_dir p @ [n]) \<noteq> None"
        then obtain m where "lookup w (drop_dir p @ [n]) = Some m" by blast
        from in_drop [OF this] have dir: "lookup v (drop_dir p) = Some Dir" using v(2) [of "[]"] by simp
        have "n \<in> set (children v (drop_dir p))" using entry v(2) [of "[n]"] by (simp add: set_children)
        then show False using 1(5) n' dir by simp
      qed
      show ?case
        unfolding sum.case wp_partial
        by (rule final) (use at exists empty in \<open>simp_all add: u queue_drop_apart envelopes_in_def\<close>)
    next
      case (2 bs)
      then show ?case using queue_drop_apart [of p] by simp
    next
      case (3 bs e)
      have fail: "goal (Inl x) (v\<lparr>faults := cs\<rparr>)" for x cs by (rule stays) (simp_all add: v)
      show ?case
      proof (cases "errors_is e NotExist")
        case True
        have again: "wp (list_dir p ''tmp/drop'') (\<lambda>es. goal (Inr es)) (\<lambda>x. goal (Inl x)) (v\<lparr>faults := cs\<rparr>)"
          if there: "lookup v (drop_dir p) \<noteq> None" for cs
        proof -
          obtain m where "lookup w (drop_dir p) = Some m" using there v(2) [of "[]"] by auto
          from tmp [OF this] have "is_dir v (butlast (drop_dir p))"
            using v(3) [of "[''tmp'']"] by (simp add: is_dir_def drop_dir_def butlast_append)
          then have none: "lookup v (queue_dir p) = None" using 3 True by simp
          have "lookup w (queue_dir p @ k) = None" for k
          proof (cases "lookup w (queue_dir p @ k)")
            case (Some m)
            from in_queue [OF this] show ?thesis using none v(1) [of "[]"] by simp
          qed
          moreover from this [of "[]"] have "lookup w (queue_dir p) = None" by simp
          ultimately show ?thesis
            by (intro final) (use none v in \<open>simp_all add: envelopes_in_def\<close>)
        qed
        show ?thesis
          using True unfolding sum.case wp_partial
          by (simp, intro wp_os_stat) (auto intro!: again fail)
      next
        case False
        then show ?thesis using fail by simp
      qed
    qed
  next
    case (2 e v)
    show ?case by (rule stays) (rule own [OF 2(1)])+
  qed
  then show ?thesis using assms(4) by (auto simp: wp_def goal_def split: sum.splits)
qed

theorem seal_keeps_queue_witness:
  "lookup (snd (SealInbox demo_paths (demo_inbox_world [''m1'']))) (queue_dir demo_paths @ [''m1.json''])
       = Some (File (CEnvelope (demo_envelope ''m1'')))
     \<or> lookup (snd (SealInbox demo_paths (demo_inbox_world [''m1'']))) (drop_dir demo_paths @ [''m1.json''])
       = Some (File (CEnvelope (demo_envelope ''m1'')))"
proof -
  have sound: "inbox_sound demo_paths (demo_inbox_world [''m1''])"
    by (simp add: inbox_sound_def queue_dir_def drop_dir_def demo_inbox_def demo_tree_def is_dir_def)
  have "lookup (demo_inbox_world [''m1'']) (queue_dir demo_paths @ [''m1.json'']) = Some (File (CEnvelope (demo_envelope ''m1'')))"
    by (simp add: queue_dir_def demo_inbox_def)
  with seal_keeps_queue [OF plain_h1 demo_paths_def sound prod.collapse [symmetric]] show ?thesis by blast
qed

section \<open>Withdrawals keep the counts\<close>

text \<open>
  Removing an envelope does not lose a publication. \<^verbatim>\<open>Withdraw\<close>
  first resolves the recorded intent, so whatever fails in it the number of publications to
  every registered agent stays what it was; a successful \<^verbatim>\<open>Withdraw\<close>
  removes the queued envelope, and a failed one leaves it.
\<close>

theorem withdrawal_keeps_counts:
  assumes "plain_segment i" "p = agent_of (team_of d) i"
    and "Withdraw p j w = (r, w')"
  shows "counts_kept (idleTeam p) w w'
    \<and> lookup w' (env_path p ''new'' j) = (if r = Inr () then None else lookup w (env_path p ''new'' j))"
    (is "?goal r w'")
proof -
  note lay = assms(1,2)
  have queue: "lookup v (env_path p ''new'' j) = lookup w (env_path p ''new'' j)"
    if "changed_only (idle_files (idleTeam p)) w v" for v
    using that env_path_away [OF lay, of "''new''" j] by (simp add: changed_only_def)
  have ledger: "ledger (idleTeam p) (del (env_path p ''new'' j) v) = ledger (idleTeam p) v" for v
    using env_path_away [OF lay, of "''new''" j] by (simp add: ledger_def eq_commute [of "idle_file _"])
  define goal where "goal r v \<longleftrightarrow> ?goal r v" for r v
  have kept: "goal (Inl e) (v\<lparr>faults := bs\<rparr>)"
    if "changed_only (idle_files (idleTeam p)) w v" "counts_kept (idleTeam p) w v" for e v bs
    using queue [OF that(1)] that(2) by (simp add: goal_def)
  have "wp (Withdraw p j) (\<lambda>x. goal (Inr x)) (\<lambda>e. goal (Inl e)) w"
    unfolding Withdraw_def wp_partial
  proof (rule wp_resolveIdlePublication [OF idle_paths(4) [OF lay]], goal_cases)
    case (1 v)
    have "counts_kept (idleTeam p) w (del (env_path p ''new'' j) v)"
      by (rule counts_by_ledger [OF 1(3,2) ledger])
    then have gone: "goal (Inr ()) ((del (env_path p ''new'' j) v)\<lparr>faults := bs\<rparr>)" for bs
      by (simp add: goal_def)
    have stays: "goal (Inl e) (v\<lparr>faults := bs\<rparr>)" for e bs by (rule kept [OF 1(1,3)])
    show ?case
      by (intro wp_EnvelopePath wp_os_remove gone stays) (rule stays [of _ "faults v", simplified])
  next
    case (2 e v)
    show ?case using kept [OF 2, of e "faults v"] by simp
  qed
  then show ?thesis using assms(3) by (cases r) (simp_all add: wp_def goal_def)
qed

theorem withdrawal_keeps_counts_witness:
  "counts_kept (idleTeam demo_paths) (demo_inbox_world [''m1''])
     (snd (Withdraw demo_paths ''m1'' (demo_inbox_world [''m1''])))"
  using withdrawal_keeps_counts [OF plain_h1 demo_paths_def prod.collapse [symmetric]] by blast

end
