(* ===== verification/Store_Side.thy ===== *)
theory Store_Side
  imports Store_Hooks
begin

text \<open>
  The small side files of the store: held drafts (\<^verbatim>\<open>store/held_input.go\<close>), foreign submits
  (\<^verbatim>\<open>store/foreign_submit.go\<close>), session conflicts (\<^verbatim>\<open>store/session_conflict.go\<close>), the account
  usage record with its lock (\<^verbatim>\<open>store/team_usage.go\<close>), the lock around registration
  (\<^verbatim>\<open>store/team_lock.go\<close>), and the suppression of unchanged observations
  (\<^verbatim>\<open>store/observation.go\<close>). A lock handle is the entry of its file in the world's \<^verbatim>\<open>held\<close>.
\<close>

section \<open>Held drafts, foreign submits, session conflicts\<close>

definition no_draft :: held_input where
  "no_draft = \<lparr>hi_fingerprint = '''', hi_generation = '''', hi_session = '''', hi_submitted_at = zero_time,
     hi_since = zero_time, hi_noticed = False\<rparr>"

definition ReadHeldInput :: "agent_paths \<Rightarrow> held_input io" where
  "ReadHeldInput p =
     and_then (attempt (readJSON as_held (side_file p ''held-input.json''))) (\<lambda>r. case r of
       Inr x \<Rightarrow> ret x
     | Inl e \<Rightarrow> if errors_is e NotExist then ret no_draft else raise e)"

definition SaveHeldInput :: "agent_paths \<Rightarrow> held_input option \<Rightarrow> unit io" where
  "SaveHeldInput p draft = (case draft of
       None \<Rightarrow> removeIfPresent (side_file p ''held-input.json'')
     | Some x \<Rightarrow> atomicJSON (side_file p ''held-input.json'') (CHeld x))"

definition ForeignSubmitPath :: "team_paths \<Rightarrow> hitch_id \<Rightarrow> path io" where
  "ForeignSubmitPath p i =
     and_then (check_segment i) (\<lambda>_.
     ret (join_path (tp_directory p @ [''foreign-submits'']) (i @ ''.json'')))"

definition WriteForeignSubmit :: "team_paths \<Rightarrow> foreign_submit \<Rightarrow> path io" where
  "WriteForeignSubmit p f =
     and_then (ForeignSubmitPath p (fs_hitch_id f)) (\<lambda>path.
     and_then (os_mkdir_all (butlast path)) (\<lambda>_.
     and_then (atomicJSON path (CForeign f)) (\<lambda>_. ret path)))"

definition ReadForeignSubmit :: "team_paths \<Rightarrow> hitch_id \<Rightarrow> foreign_submit io" where
  "ReadForeignSubmit p i = and_then (ForeignSubmitPath p i) (readJSON as_foreign)"

definition WriteSessionConflict :: "agent_paths \<Rightarrow> session_conflict \<Rightarrow> unit io" where
  "WriteSessionConflict p c = atomicJSON (side_file p ''native-session-conflict'') (CConflict c)"

section \<open>Account usage\<close>

definition usage_lock :: "team_paths \<Rightarrow> path" where
  "usage_lock p = tp_directory p @ [''usage.lock'']"

definition usage_file :: "team_paths \<Rightarrow> path" where
  "usage_file p = tp_directory p @ [''usage.json'']"

definition LockUsage :: "team_paths \<Rightarrow> unit io" where
  "LockUsage p =
     and_then (os_open_create (usage_lock p)) (\<lambda>_.
     and_then (act (\<lambda>w. if usage_lock p \<in> set (busy w) \<union> fst ` set (held w)
         then Inl WouldBlock else Inr w)) (\<lambda>_.
     and_then sys (\<lambda>_.
     and_then (os_stat (usage_lock p)) (\<lambda>_.
     and_then (os_stat (tp_state p)) (\<lambda>_.
     updates (\<lambda>w. w\<lparr>held := (usage_lock p, None) # held w\<rparr>))))))"

definition usage_held :: "team_paths \<Rightarrow> world \<Rightarrow> bool" where
  "usage_held p w \<longleftrightarrow> usage_lock p \<in> fst ` set (held w)"

text \<open>
  The record is a JSON value of the caller's type, which the reader's projection or the
  writer's content gives; a missing file keeps the caller's value.
\<close>

definition UsageRead :: "(content \<Rightarrow> 'a option) \<Rightarrow> team_paths \<Rightarrow> 'a \<Rightarrow> 'a io" where
  "UsageRead prj p value =
     and_then (reads (usage_held p)) (\<lambda>h.
       if \<not> h then raise (Fail ''usage lock is not held'')
       else and_then (attempt (readJSON prj (usage_file p))) (\<lambda>r. case r of
         Inr x \<Rightarrow> ret x
       | Inl e \<Rightarrow> if errors_is e NotExist then ret value else raise e))"

definition UsageSave :: "team_paths \<Rightarrow> content \<Rightarrow> unit io" where
  "UsageSave p value =
     and_then (reads (usage_held p)) (\<lambda>h.
       if \<not> h then raise (Fail ''usage lock is not held'')
       else atomicJSON (usage_file p) value)"

definition UsageClose :: "team_paths \<Rightarrow> unit io" where
  "UsageClose p =
     and_then (reads (usage_held p)) (\<lambda>h.
       if \<not> h then ret ()
       else and_then (updates (\<lambda>w. w\<lparr>held := AList.delete (usage_lock p) (held w)\<rparr>)) (\<lambda>_. sys))"

section \<open>The lock around registration\<close>

definition team_lock :: "paths \<Rightarrow> string \<Rightarrow> path" where
  "team_lock p name = join_path (components (root p) @ [''team-locks'']) (name @ ''.lock'')"

definition LockTeam :: "paths \<Rightarrow> string \<Rightarrow> unit io" where
  "LockTeam p name =
     and_then (check_segment name) (\<lambda>_.
     and_then (os_mkdir_all (components (root p) @ [''team-locks''])) (\<lambda>_.
     and_then (os_open_create (team_lock p name)) (\<lambda>_.
     and_then (act (\<lambda>w. if team_lock p name \<in> set (busy w) \<union> fst ` set (held w)
         then Inl Locked else Inr w)) (\<lambda>_.
     updates (\<lambda>w. w\<lparr>held := (team_lock p name, None) # held w\<rparr>)))))"

definition UnlockTeam :: "paths \<Rightarrow> string \<Rightarrow> unit io" where
  "UnlockTeam p name = updates (\<lambda>w. w\<lparr>held := AList.delete (team_lock p name) (held w)\<rparr>)"

text \<open>\<^verbatim>\<open>lock, err := p.LockTeam(team); if err != nil { return err }; defer lock.Close()\<close>.\<close>

definition locking_team :: "paths \<Rightarrow> string \<Rightarrow> 'a io \<Rightarrow> 'a io" where
  "locking_team p name body =
     and_then (LockTeam p name) (\<lambda>_.
     and_then (attempt body) (\<lambda>r.
     and_then (UnlockTeam p name) (\<lambda>_. lift r)))"

section \<open>Observations\<close>

text \<open>
  \<^verbatim>\<open>f.ReadAt\<close> of the previous record: the bytes at the offset, fewer at the end of the file.
\<close>

definition bytes_at :: "string \<Rightarrow> nat \<Rightarrow> nat \<Rightarrow> string" where
  "bytes_at data offset n = take n (drop offset data)"

definition read_bytes :: "path \<Rightarrow> string io" where
  "read_bytes p = and_then (os_read_file p) (\<lambda>c. case c of CBytes b \<Rightarrow> ret b | _ \<Rightarrow> raise IOError)"

definition no_receipt :: observation_receipt where
  "no_receipt = \<lparr>obs_key = '''', obs_log = [], obs_offset = 0, obs_record = ''''\<rparr>"

definition unchanged_record :: "agent_paths \<Rightarrow> string \<Rightarrow> observation_receipt \<Rightarrow> bool io" where
  "unchanged_record p key old =
     (if obs_key old = key \<and> obs_log old = ap_log p \<and> obs_offset old \<ge> 0 \<and> obs_record old \<noteq> ''''
      then and_then (read_bytes (ap_log p)) (\<lambda>data.
        ret (bytes_at data (nat (obs_offset old)) (length (obs_record old)) = obs_record old))
      else ret False)"

text \<open>The append and the receipt it leaves; then the whole body under the hook lock.\<close>

definition append_record :: "agent_paths \<Rightarrow> string \<Rightarrow> string \<Rightarrow> unit io" where
  "append_record p key record =
     and_then (os_append (ap_log p) record) (\<lambda>n.
       if n \<noteq> length record then raise ShortWrite
       else and_then sys (\<lambda>_.
       and_then (reads (\<lambda>w. int (length (log_bytes w (ap_log p))))) (\<lambda>end_offset.
       and_then sys (\<lambda>_.
       atomicJSON (side_file p ''last-observation'')
         (CObservation \<lparr>obs_key = key, obs_log = ap_log p, obs_offset = end_offset - int n,
            obs_record = record\<rparr>)))))"

definition observe :: "agent_paths \<Rightarrow> string \<Rightarrow> string \<Rightarrow> unit io" where
  "observe p key record =
     and_then (attempt (readJSON as_observation (side_file p ''last-observation''))) (\<lambda>r.
     and_then (case r of
         Inr x \<Rightarrow> ret x
       | Inl x \<Rightarrow> if errors_is x NotExist then ret no_receipt else raise x) (\<lambda>old.
     and_then (os_open_create (ap_log p)) (\<lambda>_.
     and_then (unchanged_record p key old) (\<lambda>same.
       if same then ret () else append_record p key record))))"

definition appendObservation :: "agent_paths \<Rightarrow> event \<Rightarrow> string \<Rightarrow> unit io" where
  "appendObservation p e key =
     (if ev_type e \<noteq> ''observation'' \<or> key = ''''
      then raise (Fail ''observation requires a nonempty identity key'')
      else and_then (reads codec_of) (\<lambda>c.
      and_then (lift (EncodeEvent c e)) (\<lambda>d.
      and_then (lockStatusHooks p) (\<lambda>_. observe p key (d @ [newline])))))"

definition AppendObservation :: "agent_paths \<Rightarrow> event \<Rightarrow> string \<Rightarrow> unit io" where
  "AppendObservation p e key = appendObservation p e key"

text \<open>The receipt and the log agree: the record of the last observation is where it says.\<close>

definition evidence :: "agent_paths \<Rightarrow> string \<Rightarrow> world \<Rightarrow> bool" where
  "evidence p key w \<longleftrightarrow> (\<exists>old. lookup w (side_file p ''last-observation'') = Some (File (CObservation old))
     \<and> obs_key old = key \<and> obs_log old = ap_log p \<and> obs_offset old \<ge> 0 \<and> obs_record old \<noteq> ''''
     \<and> (\<exists>data. lookup w (ap_log p) = Some (File (CBytes data))
          \<and> bytes_at data (nat (obs_offset old)) (length (obs_record old)) = obs_record old))"

lemma wp_lockStatusHooks [wp_intro]:
  assumes "\<And>w'. changed_only {side_file p ''status-hooks.lock''} w w' \<Longrightarrow> held w' = held w \<Longrightarrow> Q () w'"
    and "\<And>e w'. changed_only {side_file p ''status-hooks.lock''} w w' \<Longrightarrow> held w' = held w \<Longrightarrow> E e w'"
  shows "wp (lockStatusHooks p) Q E w"
proof -
  let ?l = "side_file p ''status-hooks.lock''"
  have locked: "wp (act (\<lambda>w. if ?l \<in> set (busy w) then Inl WouldBlock else Inr w)) Q E v"
    if v: "changed_only {?l} w v" "held v = held w" for v
  proof (rule wp_act, goal_cases)
    case (1 bs u)
    then have "u = v\<lparr>faults := bs\<rparr>" by (auto split: if_splits)
    then show ?case using v by (intro assms(1)) simp_all
  qed (use v in \<open>auto intro!: assms(2)\<close>)
  show ?thesis
    unfolding lockStatusHooks_def wp_simps
    by (intro wp_os_open_create locked assms(2)) (auto intro: changed_only_put)
qed

lemma wp_read_bytes [wp_intro]:
  assumes "\<And>bs b. lookup w p = Some (File (CBytes b)) \<Longrightarrow> Q b (w\<lparr>faults := bs\<rparr>)"
    and "\<And>bs e. E e (w\<lparr>faults := bs\<rparr>)"
  shows "wp (read_bytes p) Q E w"
  unfolding read_bytes_def wp_simps
  by (rule wp_os_read_file) (auto intro!: assms split: content.split)

lemma wp_unchanged_record [wp_intro]:
  assumes "\<And>bs b. lookup w (ap_log p) = Some (File (CBytes b)) \<Longrightarrow> obs_key old = key \<Longrightarrow> obs_log old = ap_log p \<Longrightarrow>
      obs_offset old \<ge> 0 \<Longrightarrow> obs_record old \<noteq> '''' \<Longrightarrow>
      bytes_at b (nat (obs_offset old)) (length (obs_record old)) = obs_record old \<Longrightarrow> Q True (w\<lparr>faults := bs\<rparr>)"
    and "\<And>bs. (\<forall>b. lookup w (ap_log p) = Some (File (CBytes b)) \<longrightarrow> obs_key old = key \<longrightarrow> obs_log old = ap_log p \<longrightarrow>
      obs_offset old \<ge> 0 \<longrightarrow> obs_record old \<noteq> '''' \<longrightarrow>
      bytes_at b (nat (obs_offset old)) (length (obs_record old)) \<noteq> obs_record old) \<Longrightarrow> Q False (w\<lparr>faults := bs\<rparr>)"
    and "\<And>bs e. E e (w\<lparr>faults := bs\<rparr>)"
  shows "wp (unchanged_record p key old) Q E w"
proof (cases "obs_key old = key \<and> obs_log old = ap_log p \<and> obs_offset old \<ge> 0 \<and> obs_record old \<noteq> ''''")
  case True
  have "wp (read_bytes (ap_log p)) (\<lambda>data. Q (bytes_at data (nat (obs_offset old)) (length (obs_record old)) = obs_record old)) E w"
  proof (rule wp_read_bytes)
    fix bs b assume b: "lookup w (ap_log p) = Some (File (CBytes b))"
    show "Q (bytes_at b (nat (obs_offset old)) (length (obs_record old)) = obs_record old) (w\<lparr>faults := bs\<rparr>)"
    proof (cases "bytes_at b (nat (obs_offset old)) (length (obs_record old)) = obs_record old")
      case same: True
      then show ?thesis using assms(1) [OF b] True by simp
    next
      case False
      have "Q False (w\<lparr>faults := bs\<rparr>)" by (rule assms(2)) (use b False in auto)
      then show ?thesis using False by simp
    qed
  qed (rule assms(3))
  then show ?thesis using True unfolding unchanged_record_def by simp
next
  case False
  have "Q False w" using assms(2) [of "faults w"] False by simp
  then show ?thesis using False unfolding unchanged_record_def by auto
qed

definition observation_paths :: "agent_paths \<Rightarrow> bool" where
  "observation_paths p \<longleftrightarrow> ap_log p \<noteq> side_file p ''status-hooks.lock''
     \<and> side_file p ''last-observation'' \<noteq> ap_log p"

lemma observation_paths_agent: "plain_segment i \<Longrightarrow> observation_paths (agent_of (team_of d) i)"
  by (simp add: observation_paths_def agent_of_plain side_file_def)

lemma as_observation_iff: "as_observation c = Some x \<longleftrightarrow> c = CObservation x"
  by (cases c) (auto simp: as_observation_def)

lemma log_bytes_data: "lookup w l = Some (File (CBytes b)) \<Longrightarrow> log_bytes w l = b"
  by (simp add: log_bytes_def)

lemma wp_append_record:
  assumes "observation_paths p" "record \<noteq> ''''"
    and "\<And>w'. evidence p key w' \<Longrightarrow> Q () w'" and "\<And>e w'. E e w'"
  shows "wp (append_record p key record) Q E w"
  unfolding append_record_def wp_simps
proof (rule wp_os_append, goal_cases)
  case (1 bs ns n b)
  let ?r = "side_file p ''last-observation''"
  have paths: "?r \<noteq> ap_log p" "ap_log p \<noteq> ?r" using assms(1) unfolding observation_paths_def by auto
  show ?case
  proof (cases "n = length record")
    case True
    let ?u = "(put (ap_log p) (File (CBytes (b @ record))) w)\<lparr>faults := bs, shorts := ns\<rparr>"
    let ?new = "\<lparr>obs_key = key, obs_log = ap_log p, obs_offset = int (length b), obs_record = record\<rparr>"
    have store: "wp (atomicJSON ?r (CObservation ?new)) Q E v"
      if v: "lookup v (ap_log p) = Some (File (CBytes (b @ record)))" for v
    proof (rule wp_atomicJSON)
      fix cs
      have "evidence p key ((put ?r (File (CObservation ?new)) v)\<lparr>faults := cs\<rparr>)"
        unfolding evidence_def by (rule exI [of _ ?new]) (simp add: v paths assms(2) bytes_at_def)
      then show "Q () ((put ?r (File (CObservation ?new)) v)\<lparr>faults := cs\<rparr>)" by (rule assms(3))
    qed (rule assms(4))
    have inner: "wp (and_then (reads (\<lambda>w. int (length (log_bytes w (ap_log p))))) (\<lambda>end_offset.
        and_then sys (\<lambda>_. atomicJSON ?r (CObservation \<lparr>obs_key = key, obs_log = ap_log p,
          obs_offset = end_offset - int n, obs_record = record\<rparr>)))) Q E v"
      if v: "lookup v (ap_log p) = Some (File (CBytes (b @ record)))" for v
    proof -
      have offset: "int (length (log_bytes v (ap_log p))) - int n = int (length b)"
        using True by (simp add: log_bytes_data [OF v])
      have "wp sys (\<lambda>_. wp (atomicJSON ?r (CObservation ?new)) Q E) E v"
        by (rule wp_sys) (rule store, use v in simp, rule assms(4))
      then show ?thesis unfolding wp_simps offset .
    qed
    have "wp sys (\<lambda>_. wp (and_then (reads (\<lambda>w. int (length (log_bytes w (ap_log p))))) (\<lambda>end_offset.
        and_then sys (\<lambda>_. atomicJSON ?r (CObservation \<lparr>obs_key = key, obs_log = ap_log p,
          obs_offset = end_offset - int n, obs_record = record\<rparr>)))) Q E) E ?u"
      by (rule wp_sys) (rule inner, simp, rule assms(4))
    then show ?thesis using True by simp
  qed (simp add: assms(4))
qed (rule assms(4))

lemma wp_observe:
  assumes "observation_paths p" "record \<noteq> ''''"
    and "\<And>w'. evidence p key w' \<Longrightarrow> Q () w'" and "\<And>x w'. E x w'"
  shows "wp (observe p key record) Q E w"
proof -
  let ?r = "side_file p ''last-observation''"
  have paths: "?r \<noteq> ap_log p" using assms(1) by (simp add: observation_paths_def)
  have append: "wp (append_record p key record) Q E v" for v
    by (rule wp_append_record [OF assms(1,2)]) (simp_all add: assms(3,4))
  have check: "wp (unchanged_record p key old) (\<lambda>same. wp (if same then ret () else append_record p key record) Q E) E u"
    if u: "lookup u ?r = Some (File (CObservation old)) \<or> old = no_receipt" for u old
  proof (rule wp_unchanged_record, goal_cases)
    case (1 bs b)
    then have "lookup u ?r = Some (File (CObservation old))" using u by (auto simp: no_receipt_def)
    then have "evidence p key (u\<lparr>faults := bs\<rparr>)"
      unfolding evidence_def by (intro exI [of _ old]) (use 1 in simp)
    then show ?case by (simp add: assms(3))
  qed (simp_all add: append assms(4))
  have rest: "wp (os_open_create (ap_log p)) (\<lambda>_. wp (unchanged_record p key old)
      (\<lambda>same. wp (if same then ret () else append_record p key record) Q E) E) E v"
    if old: "lookup v ?r = Some (File (CObservation old)) \<or> old = no_receipt" for old v
    by (rule wp_os_open_create) (use old paths in \<open>auto intro!: check assms(4)\<close>)
  show ?thesis
    unfolding observe_def wp_partial wp_simps wp_attempt
    by (rule wp_readJSON) (auto simp: as_observation_iff assms(4) intro!: rest)
qed

lemma wp_observe_again:
  assumes "observation_paths p" "evidence p key w"
  shows "wp (observe p key record) (\<lambda>_ w'. lookup w' (ap_log p) = lookup w (ap_log p))
    (\<lambda>_ w'. lookup w' (ap_log p) = lookup w (ap_log p)) w"
proof -
  let ?r = "side_file p ''last-observation''"
  let ?same = "\<lambda>_ w'. lookup w' (ap_log p) = lookup w (ap_log p)"
  obtain old data where old: "lookup w ?r = Some (File (CObservation old))" "obs_key old = key"
      "obs_log old = ap_log p" "obs_offset old \<ge> 0" "obs_record old \<noteq> ''''"
    and data: "lookup w (ap_log p) = Some (File (CBytes data))"
      "bytes_at data (nat (obs_offset old)) (length (obs_record old)) = obs_record old"
    using assms(2) unfolding evidence_def by blast
  have check: "wp (unchanged_record p key old) (\<lambda>same. wp (if same then ret () else append_record p key record) ?same ?same) ?same u"
    if u: "lookup u (ap_log p) = lookup w (ap_log p)" for u
    by (rule wp_unchanged_record) (use u old data in auto)
  have rest: "wp (os_open_create (ap_log p)) (\<lambda>_. wp (unchanged_record p key old)
      (\<lambda>same. wp (if same then ret () else append_record p key record) ?same ?same) ?same) ?same (w\<lparr>faults := bs\<rparr>)" for bs
  proof (rule wp_os_open_create, goal_cases)
    case (1 cs n)
    show ?case by (rule check) simp
  qed (use data(1) in simp_all)
  show ?thesis
    unfolding observe_def wp_partial wp_simps wp_attempt
    by (rule wp_readJSON) (use rest old(1) in \<open>auto simp: as_observation_iff\<close>)
qed

text \<open>The checks before the lock change nothing.\<close>

lemma wp_appendObservation:
  assumes "\<And>d v. changed_only {side_file p ''status-hooks.lock''} w v \<Longrightarrow> wp (observe p key (d @ [newline])) Q E v"
    and "\<And>x v. changed_only {side_file p ''status-hooks.lock''} w v \<Longrightarrow> E x v"
  shows "wp (AppendObservation p e key) Q E w"
  unfolding AppendObservation_def appendObservation_def
  by (auto intro!: assms wp_lockStatusHooks split: sum.split)

text \<open>
  After a successful \<^verbatim>\<open>AppendObservation\<close> the receipt names a
  record that lies in the log at the offset it gives, under the caller's key; as long as
  that holds, a further \<^verbatim>\<open>AppendObservation\<close> with the same key, whatever fails in it, does
  not change the log. So an unchanged observation is logged once, and it is logged again
  only when its record is no longer there.
\<close>

theorem observation_not_repeated:
  assumes "plain_segment i" "p = agent_of (team_of d) i"
    and "AppendObservation p e key w = (Inr (), w1)" "AppendObservation p e' key (w1\<lparr>faults := bs\<rparr>) = (r, w2)"
  shows "evidence p key w1 \<and> lookup w2 (ap_log p) = lookup w1 (ap_log p)"
proof -
  have paths: "observation_paths p" using assms(1,2) observation_paths_agent by simp
  have "wp (AppendObservation p e key) (\<lambda>_. evidence p key) (\<lambda>_ _. True) w"
    by (rule wp_appendObservation) (rule wp_observe [OF paths], simp_all)
  from wp_okD [OF this assms(3)] have evidence: "evidence p key w1" .
  have "wp (AppendObservation p e' key) (\<lambda>_ w'. lookup w' (ap_log p) = lookup w1 (ap_log p))
      (\<lambda>_ w'. lookup w' (ap_log p) = lookup w1 (ap_log p)) (w1\<lparr>faults := bs\<rparr>)"
  proof (rule wp_appendObservation)
    fix rec v assume v: "changed_only {side_file p ''status-hooks.lock''} (w1\<lparr>faults := bs\<rparr>) v"
    have log: "lookup v (ap_log p) = lookup w1 (ap_log p)"
      using v paths by (simp add: changed_only_def observation_paths_def)
    have "lookup v (side_file p ''last-observation'') = lookup w1 (side_file p ''last-observation'')"
      using v by (simp add: changed_only_def side_file_def)
    then have "evidence p key v" using evidence log by (simp add: evidence_def)
    from wp_observe_again [OF paths this] show "wp (observe p key (rec @ [newline]))
        (\<lambda>_ w'. lookup w' (ap_log p) = lookup w1 (ap_log p)) (\<lambda>_ w'. lookup w' (ap_log p) = lookup w1 (ap_log p)) v"
      unfolding log .
  qed (use paths in \<open>simp add: changed_only_def observation_paths_def\<close>)
  then have "lookup w2 (ap_log p) = lookup w1 (ap_log p)"
    using assms(4) by (cases r) (simp_all add: wp_def)
  with evidence show ?thesis by blast
qed

definition demo_observation :: event where
  "demo_observation = blank_event\<lparr>ev_type := ''observation'', ev_at := 5, ev_hitch_id := ''h1''\<rparr>"

theorem observation_not_repeated_witness:
  "let w1 = snd (AppendObservation demo_paths demo_observation ''k'' (demo_hitch_world demo_observation demo_hitch None));
       w2 = snd (AppendObservation demo_paths demo_observation ''k'' (w1\<lparr>faults := []\<rparr>))
   in lookup w2 [''t'', ''log.jsonl''] = lookup w1 [''t'', ''log.jsonl''] \<and> evidence demo_paths ''k'' w1"
proof -
  let ?w = "demo_hitch_world demo_observation demo_hitch None"
  have "EncodeEvent (demo_codec demo_observation) demo_observation = Inr ''E''"
    by (simp add: EncodeEvent_def demo_codec_def)
  moreover have "ev_type demo_observation = ''observation''" "busy ?w = []"
    by (simp_all add: demo_observation_def demo_hitch_world_def demo_world_def)
  ultimately have "fst (AppendObservation demo_paths demo_observation ''k'' ?w) = Inr ()"
    by (simp add: AppendObservation_def appendObservation_def and_then_def reads_def lift_def lockStatusHooks_def
        os_open_create_def act_quiet is_dir_def demo_tree_def observe_def attempt_def readJSON_quiet side_file_def
        ret_def unchanged_record_def no_receipt_def append_record_def os_append_def sys_quiet atomicJSON_quiet)
  then have run: "AppendObservation demo_paths demo_observation ''k'' ?w
      = (Inr (), snd (AppendObservation demo_paths demo_observation ''k'' ?w))"
    by (simp add: prod_eq_iff)
  from observation_not_repeated [OF plain_h1 demo_paths_def run prod.collapse [symmetric]] show ?thesis
    by (simp add: Let_def)
qed

end
