(* ===== verification/Go_Strings.thy ===== *)
theory Go_Strings
  imports Prelude
begin

text \<open>
  The functions of Go's \<^verbatim>\<open>strings\<close> and \<^verbatim>\<open>strconv\<close> packages that the modelled code calls, on
  byte strings. White space is what \<^verbatim>\<open>unicode.IsSpace\<close> accepts, by its UTF-8 encodings.
\<close>

section \<open>Searching and splitting\<close>

fun contains :: "string \<Rightarrow> string \<Rightarrow> bool" where
  "contains [] p = (p = [])"
| "contains (c # s) p = (has_prefix (c # s) p \<or> contains s p)"

text \<open>\<^verbatim>\<open>strings.Cut\<close>: the text before and after the first separator, and whether there was one.\<close>

fun cut :: "string \<Rightarrow> string \<Rightarrow> string \<times> string \<times> bool" where
  "cut [] sep = (if sep = [] then ([], [], True) else ([], [], False))"
| "cut (c # s) sep =
     (if has_prefix (c # s) sep then ([], drop (length sep) (c # s), True)
      else case cut s sep of (b, a, f) \<Rightarrow> if f then (c # b, a, True) else (c # s, [], False))"

text \<open>\<^verbatim>\<open>strings.Split\<close> at a single byte.\<close>

fun split_on :: "char \<Rightarrow> string \<Rightarrow> string list" where
  "split_on x [] = [[]]"
| "split_on x (c # s) =
     (if c = x then [] # split_on x s
      else case split_on x s of y # ys \<Rightarrow> (c # y) # ys | [] \<Rightarrow> [[c]])"

fun join_with :: "string \<Rightarrow> string list \<Rightarrow> string" where
  "join_with sep [] = []"
| "join_with sep [x] = x"
| "join_with sep (x # y # ys) = x @ sep @ join_with sep (y # ys)"

lemma split_on_not_Nil [simp]: "split_on x s \<noteq> []"
  by (induction s) (auto split: list.split)

lemma join_split: "join_with [x] (split_on x s) = s"
proof (induction s)
  case (Cons c s)
  obtain y ys where s: "split_on x s = y # ys" by (cases "split_on x s") auto
  then show ?case using Cons by (cases ys) auto
qed simp

lemma split_on_no_sep: "l \<in> set (split_on x s) \<Longrightarrow> x \<notin> set l"
proof (induction s arbitrary: l)
  case (Cons c s)
  obtain y ys where s: "split_on x s = y # ys" by (cases "split_on x s") auto
  then show ?case using Cons by (auto split: if_splits)
qed simp

lemma contains_iff: "contains s p \<longleftrightarrow> (\<exists>u v. s = u @ p @ v)"
proof (induction s)
  case (Cons c s)
  note IH = Cons.IH
  show ?case
  proof
    assume "contains (c # s) p"
    then consider v where "c # s = p @ v" | u v where "s = u @ p @ v"
      using Cons by (auto simp: has_prefix_iff)
    then show "\<exists>u v. c # s = u @ p @ v"
      by cases (metis append_Nil, metis append_Cons)
  next
    assume "\<exists>u v. c # s = u @ p @ v"
    then obtain u v where uv: "c # s = u @ p @ v" by blast
    show "contains (c # s) p"
    proof (cases u)
      case Nil
      then have "has_prefix (c # s) p" using uv by (auto simp: has_prefix_iff)
      then show ?thesis by simp
    next
      case (Cons d us)
      then have "\<exists>u v. s = u @ p @ v" using uv by auto
      then show ?thesis using IH by simp
    qed
  qed
qed auto

section \<open>White space\<close>

definition space_bytes :: "string list" where
  "space_bytes =
     [[CHR 0x09], [CHR 0x0A], [CHR 0x0B], [CHR 0x0C], [CHR 0x0D], [CHR 0x20],
      [CHR 0xC2, CHR 0x85], [CHR 0xC2, CHR 0xA0], [CHR 0xE1, CHR 0x9A, CHR 0x80],
      [CHR 0xE2, CHR 0x80, CHR 0x80], [CHR 0xE2, CHR 0x80, CHR 0x81], [CHR 0xE2, CHR 0x80, CHR 0x82],
      [CHR 0xE2, CHR 0x80, CHR 0x83], [CHR 0xE2, CHR 0x80, CHR 0x84], [CHR 0xE2, CHR 0x80, CHR 0x85],
      [CHR 0xE2, CHR 0x80, CHR 0x86], [CHR 0xE2, CHR 0x80, CHR 0x87], [CHR 0xE2, CHR 0x80, CHR 0x88],
      [CHR 0xE2, CHR 0x80, CHR 0x89], [CHR 0xE2, CHR 0x80, CHR 0x8A], [CHR 0xE2, CHR 0x80, CHR 0xA8],
      [CHR 0xE2, CHR 0x80, CHR 0xA9], [CHR 0xE2, CHR 0x80, CHR 0xAF], [CHR 0xE2, CHR 0x81, CHR 0x9F],
      [CHR 0xE3, CHR 0x80, CHR 0x80]]"

lemma space_bytes_pos: "x \<in> set space_bytes \<Longrightarrow> 0 < length x"
  by (auto simp: space_bytes_def)

text \<open>Remove the listed byte sequences from the front as long as one of them is there.\<close>

function trim_front :: "string list \<Rightarrow> string \<Rightarrow> string" where
  "trim_front seqs s =
     (case find (\<lambda>x. x \<noteq> [] \<and> has_prefix s x) seqs of
        None \<Rightarrow> s
      | Some x \<Rightarrow> trim_front seqs (drop (length x) s))"
  by pat_completeness auto
termination
proof (relation "measure (\<lambda>(_, s). length s)")
  fix seqs :: "string list" and s x :: string
  assume "find (\<lambda>x. x \<noteq> [] \<and> has_prefix s x) seqs = Some x"
  then have "x \<noteq> []" "has_prefix s x" by (auto simp: find_Some_iff)
  then have "length x > 0" "length s \<ge> length x" by (auto simp: has_prefix_iff)
  then have "length s - length x < length s" by linarith
  then show "((seqs, drop (length x) s), seqs, s) \<in> measure (\<lambda>(_, s). length s)" by simp
qed simp

declare trim_front.simps [simp del]

definition TrimSpace :: "string \<Rightarrow> string" where
  "TrimSpace s = rev (trim_front (map rev space_bytes) (rev (trim_front space_bytes s)))"

text \<open>A text that starts and ends with bytes no white space starts or ends with is kept.\<close>

definition solid :: "char \<Rightarrow> bool" where
  "solid c \<longleftrightarrow> (\<forall>x \<in> set space_bytes. hd x \<noteq> c \<and> last x \<noteq> c)"

lemma trim_front_keeps:
  assumes "\<And>x. x \<in> set seqs \<Longrightarrow> x \<noteq> [] \<Longrightarrow> hd x \<noteq> c"
  shows "trim_front seqs (c # s) = c # s"
proof -
  have "find (\<lambda>x. x \<noteq> [] \<and> has_prefix (c # s) x) seqs = None"
    using assms by (force simp: find_None_iff has_prefix_iff Cons_eq_append_conv)
  then show ?thesis by (subst trim_front.simps) simp
qed

lemma TrimSpace_solid:
  assumes "solid c" "solid d"
  shows "TrimSpace (c # s @ [d]) = c # s @ [d]"
proof -
  have "trim_front space_bytes (c # s @ [d]) = c # s @ [d]"
    by (rule trim_front_keeps) (use assms(1) in \<open>auto simp: solid_def\<close>)
  moreover have "trim_front (map rev space_bytes) (d # rev s @ [c]) = d # rev s @ [c]"
  proof (rule trim_front_keeps)
    fix x :: string assume "x \<in> set (map rev space_bytes)" "x \<noteq> []"
    then obtain y where "x = rev y" "y \<in> set space_bytes" "y \<noteq> []" by auto
    then show "hd x \<noteq> d" using assms(2) by (simp add: solid_def hd_rev)
  qed
  ultimately show ?thesis by (simp add: TrimSpace_def)
qed

end
