(* ===== verification/Store_Senders.thy ===== *)
theory Store_Senders
  imports Store_Files Store_Side Go_Strings
begin

text \<open>
  Registered senders (\<^verbatim>\<open>store/senders.go\<close>) and the audit of credential changes
  (\<^verbatim>\<open>store/credentials.go\<close>): a sender is a name claimed for a \<^verbatim>\<open>sender-\<close> identity, whose
  directory holds the key file and a record with the hash of the key. Random strings of
  \<^verbatim>\<open>crypto/rand\<close> are arguments of the operations that draw them.
\<close>

section \<open>Credential changes\<close>

definition credentialEvent :: "string \<Rightarrow> hitch_id \<Rightarrow> agent_name \<Rightarrow> credential_origin \<Rightarrow> event" where
  "credentialEvent kind i name origin =
     blank_event\<lparr>ev_source := ''command'', ev_type := kind, ev_at := org_at origin, ev_hitch_id := i,
       ev_name := name, ev_actor := Some (org_actor origin), ev_command := org_command origin\<rparr>"

definition validateCredentialOrigin :: "credential_origin \<Rightarrow> unit io" where
  "validateCredentialOrigin origin =
     (if org_at origin = zero_time then raise (Fail ''credential change requires its occurrence time'')
      else and_then (reads codec_of) (\<lambda>c.
        and_then (lift (EncodeEvent c (credentialEvent ''sender_added'' ''validation'' ''validation'' origin)))
          (\<lambda>_. ret ())))"

definition auditCredential :: "team_paths \<Rightarrow> string \<Rightarrow> hitch_id \<Rightarrow> agent_name \<Rightarrow> credential_origin \<Rightarrow> unit io" where
  "auditCredential p kind i name origin = Append p (credentialEvent kind i name origin)"

definition outsideRandom :: "string \<Rightarrow> string io" where
  "outsideRandom draw = and_then sys (\<lambda>_. ret draw)"

definition outsideHash :: "string \<Rightarrow> string io" where
  "outsideHash token = reads (\<lambda>w. sha256_hex (codec_of w) token)"

definition errs_of :: "err + 'a \<Rightarrow> err list" where
  "errs_of r = (case r of Inl e \<Rightarrow> [e] | Inr _ \<Rightarrow> [])"

section \<open>Senders\<close>

definition IsSenderID :: "hitch_id \<Rightarrow> bool" where
  "IsSenderID i = has_prefix i ''sender-''"

definition sender_id :: "string \<Rightarrow> hitch_id" where
  "sender_id identity = ''sender-'' @ identity"

definition sender_dir :: "team_paths \<Rightarrow> hitch_id \<Rightarrow> path" where
  "sender_dir p i = join_path (tp_directory p @ [''senders'']) i"

definition SenderCredential :: "team_paths \<Rightarrow> hitch_id \<Rightarrow> path io" where
  "SenderCredential p i =
     and_then (check_segment i) (\<lambda>_.
       if \<not> IsSenderID i then raise SenderUnauthorized else ret (sender_dir p i @ [''key'']))"

definition ReadSender :: "team_paths \<Rightarrow> agent_name \<Rightarrow> sender_registration io" where
  "ReadSender p name =
     and_then (ResolveName p name) (\<lambda>i.
     and_then (SenderCredential p i) (\<lambda>key.
     and_then (readJSON as_sender (butlast key @ [''sender.json''])) (\<lambda>r.
       if sr_id r \<noteq> i \<or> sr_name r \<noteq> name then raise SenderUnauthorized else ret r)))"

text \<open>The files of a new sender, and the claim that makes it one.\<close>

definition claim_sender :: "team_paths \<Rightarrow> path \<Rightarrow> sender_registration \<Rightarrow> string \<Rightarrow> unit io" where
  "claim_sender p key r token =
     and_then (os_write_file key (CBytes (token @ [newline]))) (\<lambda>_.
     and_then (atomicJSON (butlast key @ [''sender.json'']) (CSender r)) (\<lambda>_.
     ClaimName p (sr_name r) (sr_id r)))"

text \<open>
  The result is the error, if any, and the path of the key: an audit that failed leaves
  the sender registered.
\<close>

definition AddSender :: "team_paths \<Rightarrow> agent_name \<Rightarrow> credential_origin \<Rightarrow> string \<Rightarrow> string
    \<Rightarrow> (err option \<times> path) io" where
  "AddSender p name origin token_draw identity_draw =
     and_then (attempt
       (and_then (validateCredentialOrigin origin) (\<lambda>_.
        and_then (ReadTeam p) (\<lambda>_.
        and_then (outsideRandom token_draw) (\<lambda>token.
        and_then (outsideRandom identity_draw) (\<lambda>identity.
        and_then (outsideHash token) (\<lambda>hash.
        let r = \<lparr>sr_id = sender_id identity, sr_name = name, sr_credential_hash = hash,
                 sr_created = Some origin\<rparr> in
        and_then (SenderCredential p (sr_id r)) (\<lambda>key.
        and_then (os_mkdir_all (butlast key)) (\<lambda>_. ret (r, token, key)))))))))) (\<lambda>x. case x of
       Inl e \<Rightarrow> ret (Some e, [])
     | Inr (r, token, key) \<Rightarrow>
         and_then (attempt (claim_sender p key r token)) (\<lambda>c. case c of
           Inl e \<Rightarrow> and_then (attempt (os_remove_all (butlast key))) (\<lambda>q.
             ret (Some (Joined (e # errs_of q)), key))
         | Inr _ \<Rightarrow> and_then (attempt (auditCredential p ''sender_added'' (sr_id r) (sr_name r) origin)) (\<lambda>a.
             ret (case a of Inl e \<Rightarrow> Some e | Inr _ \<Rightarrow> None, key))))"

definition read_listed_sender :: "team_paths \<Rightarrow> string \<times> bool \<Rightarrow> sender_registration option io" where
  "read_listed_sender p entry =
     and_then (ResolveName p (fst entry)) (\<lambda>i.
       if \<not> IsSenderID i then ret None
       else and_then (ReadSender p (fst entry)) (\<lambda>r. ret (Some r)))"

definition ListSenders :: "team_paths \<Rightarrow> sender_registration list io" where
  "ListSenders p = and_then (os_read_dir (tp_names p)) (collect (read_listed_sender p))"

definition RemoveSender :: "team_paths \<Rightarrow> agent_name \<Rightarrow> credential_origin \<Rightarrow> unit io" where
  "RemoveSender p name origin =
     and_then (validateCredentialOrigin origin) (\<lambda>_.
     and_then (attempt (ResolveName p name)) (\<lambda>r. case r of
       Inl e \<Rightarrow> raise (if errors_is e NotExist then SenderUnauthorized else e)
     | Inr i \<Rightarrow>
         and_then (SenderCredential p i) (\<lambda>key.
         and_then (os_remove_all (butlast key)) (\<lambda>_.
         and_then (RemoveName p name i) (\<lambda>_.
         auditCredential p ''sender_removed'' i name origin)))))"

definition registered_sender :: "sender_registration \<Rightarrow> sender" where
  "registered_sender r =
     blank_sender\<lparr>snd_kind := SenderRegistered, snd_name := sr_name r, snd_hitch_id := sr_id r\<rparr>"

definition AuthenticateSender :: "team_paths \<Rightarrow> agent_name \<Rightarrow> string \<Rightarrow> sender io" where
  "AuthenticateSender p name credential =
     and_then (attempt (ReadSender p name)) (\<lambda>x. case x of
       Inl e \<Rightarrow> raise SenderUnauthorized
     | Inr r \<Rightarrow> and_then (outsideHash (TrimSpace credential)) (\<lambda>hash.
         if hash \<noteq> sr_credential_hash r then raise SenderUnauthorized else ret (registered_sender r)))"

section \<open>The life of a credential\<close>

lemma wp_auditCredential [wp_intro]:
  assumes "\<And>w'. changed_only {tp_log p} w w' \<Longrightarrow> held w' = held w \<Longrightarrow> Q () w'"
    and "\<And>e w'. changed_only {tp_log p} w w' \<Longrightarrow> held w' = held w \<Longrightarrow> E e w'"
  shows "wp (auditCredential p kind i name origin) Q E w"
  unfolding auditCredential_def Append_def
  by (rule wp_appendEvent)
    (auto simp: log_appended_def log_extended_def dest!: log_grown_extended intro!: assms)

text \<open>Where a sender of a team lies: its claim and its record.\<close>

definition sender_file :: "team_paths \<Rightarrow> hitch_id \<Rightarrow> path" where
  "sender_file p i = sender_dir p i @ [''sender.json'']"

definition enrolled :: "team_paths \<Rightarrow> world \<Rightarrow> sender_registration \<Rightarrow> bool" where
  "enrolled p w r \<longleftrightarrow> lookup w (name_path p (sr_name r)) = Some (Link (sr_id r))
     \<and> lookup w (sender_file p (sr_id r)) = Some (File (CSender r))"

lemma team_sender_paths:
  assumes "plain_segment i"
  shows "sender_dir (team_of d) i = d @ [''senders'', i]"
    "sender_file (team_of d) i = d @ [''senders'', i, ''sender.json'']"
    "name_path (team_of d) n = d @ ''names'' # components n" "tp_log (team_of d) = d @ [''log.jsonl'']"
proof -
  show "sender_dir (team_of d) i = d @ [''senders'', i]" "tp_log (team_of d) = d @ [''log.jsonl'']"
    using assms by (simp_all add: sender_dir_def team_of_def)
  then show "sender_file (team_of d) i = d @ [''senders'', i, ''sender.json'']"
    by (simp add: sender_file_def)
qed simp

lemma wp_validateCredentialOrigin [wp_intro]:
  assumes "Q () w" "\<And>e. E e w"
  shows "wp (validateCredentialOrigin origin) Q E w"
  using assms by (auto simp: validateCredentialOrigin_def split: sum.split)

lemma wp_outsideRandom [wp_intro]:
  assumes "\<And>bs. Q draw (w\<lparr>faults := bs\<rparr>)" "\<And>bs e. E e (w\<lparr>faults := bs\<rparr>)"
  shows "wp (outsideRandom draw) Q E w"
  using assms by (auto simp: outsideRandom_def intro!: wp_sys)

lemma wp_claim_sender:
  assumes "plain_segment (sr_id r)" "p = team_of d"
    and "\<And>w'. enrolled p w' r \<Longrightarrow> codec_of w' = codec_of w \<Longrightarrow> Q () w'" and "\<And>e w'. E e w'"
  shows "wp (claim_sender p (sender_dir p (sr_id r) @ [''key'']) r token) Q E w"
proof -
  have file_path: "butlast (sender_dir p (sr_id r) @ [''key'']) @ [''sender.json''] = sender_file p (sr_id r)"
    by (simp add: sender_file_def)
  show ?thesis
    unfolding claim_sender_def wp_simps file_path
    by (intro wp_os_write_file wp_atomicJSON wp_ClaimName assms(3,4))
      (simp_all add: enrolled_def assms(2) team_sender_paths [OF assms(1)])
qed

lemma enrolled_log:
  assumes "enrolled p w r" "changed_only {tp_log p} w w'" "plain_segment (sr_id r)" "p = team_of d"
  shows "enrolled p w' r" "codec_of w' = codec_of w"
  using assms by (simp_all add: enrolled_def changed_only_def team_sender_paths [OF assms(3)])

lemma wp_AddSender:
  assumes "plain_segment (sender_id identity)" "p = team_of d"
    and "\<And>key w'. enrolled p w' \<lparr>sr_id = sender_id identity, sr_name = name,
        sr_credential_hash = sha256_hex (codec_of w) token, sr_created = Some origin\<rparr> \<Longrightarrow>
      codec_of w' = codec_of w \<Longrightarrow> Q (None, key) w'"
    and "\<And>e key w'. Q (Some e, key) w'"
  shows "wp (AddSender p name origin token identity) Q E w"
proof -
  let ?r = "\<lparr>sr_id = sender_id identity, sr_name = name,
    sr_credential_hash = sha256_hex (codec_of w) token, sr_created = Some origin\<rparr>"
  let ?key = "sender_dir p (sr_id ?r) @ [''key'']"
  have audit: "wp (auditCredential p ''sender_added'' (sr_id ?r) (sr_name ?r) origin)
      (\<lambda>_. Q (None, ?key)) (\<lambda>e. Q (Some e, ?key)) v"
    if v: "enrolled p v ?r" "codec_of v = codec_of w" for v
    by (rule wp_auditCredential)
      (use enrolled_log [OF v(1) _ _ assms(2)] assms v(2) in \<open>auto intro!: assms(3,4)\<close>)
  have clean: "wp (os_remove_all (butlast ?key)) (\<lambda>q. Q (Some (Joined (e # errs_of (Inr q))), ?key))
      (\<lambda>q. Q (Some (Joined (e # errs_of (Inl q))), ?key)) v" for e v
    by (rule wp_os_remove_all) (simp_all add: assms(4))
  have claim: "wp (claim_sender p ?key ?r token)
      (\<lambda>_. wp (auditCredential p ''sender_added'' (sr_id ?r) (sr_name ?r) origin)
        (\<lambda>_. Q (None, ?key)) (\<lambda>e. Q (Some e, ?key)))
      (\<lambda>e. wp (os_remove_all (butlast ?key)) (\<lambda>q. Q (Some (Joined (e # errs_of (Inr q))), ?key))
        (\<lambda>q. Q (Some (Joined (e # errs_of (Inl q))), ?key))) v"
    if "codec_of v = codec_of w" for v
    by (rule wp_claim_sender [OF _ assms(2)]) (use assms(1) audit clean that in simp_all)
  have made: "wp (os_mkdir_all (butlast ?key)) (\<lambda>_. wp (claim_sender p ?key ?r token)
      (\<lambda>_. wp (auditCredential p ''sender_added'' (sr_id ?r) (sr_name ?r) origin)
        (\<lambda>_. Q (None, ?key)) (\<lambda>e. Q (Some e, ?key)))
      (\<lambda>e. wp (os_remove_all (butlast ?key)) (\<lambda>q. Q (Some (Joined (e # errs_of (Inr q))), ?key))
        (\<lambda>q. Q (Some (Joined (e # errs_of (Inl q))), ?key)))) (\<lambda>e. Q (Some e, [])) (w\<lparr>faults := bs\<rparr>)" for bs
  proof (rule wp_os_mkdir_all, goal_cases)
    case (1 cs v)
    show ?case by (rule claim) (use 1 in \<open>simp add: dirs_added_def\<close>)
  qed (rule assms(4))
  have accepted: "check_segment (sender_id identity) = ret ()" "IsSenderID (sender_id identity)"
    using assms(1) by (simp_all add: check_segment_def segment_iff IsSenderID_def has_prefix_def sender_id_def)
  show ?thesis
    unfolding AddSender_def ReadTeam_def outsideHash_def SenderCredential_def Let_def wp_partial
  proof (intro wp_validateCredentialOrigin wp_readJSON wp_outsideRandom, goal_cases)
    case (1 bs c x cs ds)
    show ?case using made [of ds] by (simp add: accepted)
  qed (simp_all add: assms(4))
qed

lemma has_sender_id: "IsSenderID (sender_id i)"
  by (simp add: IsSenderID_def has_prefix_def sender_id_def)

text \<open>Authentication without failures.\<close>

lemma ReadSender_enrolled:
  assumes "enrolled p w r" "segment (sr_name r)" "segment (sr_id r)" "IsSenderID (sr_id r)"
  shows "ReadSender p (sr_name r) (quiet w) = (Inr r, quiet w)"
proof -
  have claimed: "ResolveName p (sr_name r) (quiet w) = (Inr (sr_id r), quiet w)"
    using assms by (simp add: ResolveName_def check_segment_def and_then_def ret_def os_readlink_def sys_quiet enrolled_def)
  have stored: "readJSON as_sender (sender_dir p (sr_id r) @ [''sender.json'']) (quiet w) = (Inr r, quiet w)"
    using assms(1) by (simp add: readJSON_quiet enrolled_def sender_file_def sender_file.prj_inj)
  show ?thesis
    using assms(3,4) by (simp add: ReadSender_def SenderCredential_def check_segment_def and_then_def claimed ret_def stored)
qed

lemma unclaimed_unauthorized:
  assumes "lookup w (name_path p name) = None"
  shows "fst (AuthenticateSender p name c w) = Inl SenderUnauthorized"
proof -
  have "wp (AuthenticateSender p name c) (\<lambda>_ _. False) (\<lambda>e _. e = SenderUnauthorized) w"
    unfolding AuthenticateSender_def ReadSender_def wp_partial
    by (rule wp_ResolveName) (use assms in simp_all)
  then show ?thesis by (auto simp: wp_def split: prod.splits sum.splits)
qed

lemma tp_log_team [simp]: "tp_log (team_of d) = d @ [''log.jsonl'']"
  by (simp add: team_of_def)

lemma wp_RemoveSender:
  assumes "p = team_of d" "name \<noteq> ''''"
  shows "wp (RemoveSender p name origin) (\<lambda>_ w'. lookup w' (name_path p name) = None) (\<lambda>_ _. True) w"
proof -
  have audit: "wp (auditCredential p k i name origin) (\<lambda>_ w'. lookup w' (name_path p name) = None) (\<lambda>_ _. True) v"
    if "lookup v (name_path p name) = None" for k i v
    by (rule wp_auditCredential) (use that assms(1) in \<open>simp_all add: changed_only_def\<close>)
  have drop_name: "wp (RemoveName p name i) (\<lambda>_. wp (auditCredential p k i name origin)
      (\<lambda>_ w'. lookup w' (name_path p name) = None) (\<lambda>_ _. True)) (\<lambda>_ _. True) v"
    if "lookup v (name_path p name) = Some (Link i)" for k i v
    by (rule wp_RemoveName) (use that assms(2) in \<open>auto intro!: audit\<close>)
  have files: "wp (os_remove_all (sender_dir p i)) (\<lambda>_. wp (RemoveName p name i) (\<lambda>_. wp (auditCredential p k i name origin)
      (\<lambda>_ w'. lookup w' (name_path p name) = None) (\<lambda>_ _. True)) (\<lambda>_ _. True)) (\<lambda>_ _. True) v"
    if v: "lookup v (name_path p name) = Some (Link i)" and i: "segment i" "IsSenderID i" for k i v
  proof -
    have "i \<noteq> ''/''" using i(2) by (auto simp: IsSenderID_def has_prefix_def)
    then have "plain_segment i" using i(1) segment_iff by blast
    then have "\<not> prefix (sender_dir p i) (name_path p name)"
      by (simp add: assms(1) team_sender_paths(1))
    then show ?thesis by (intro wp_os_remove_all drop_name) (use v in simp_all)
  qed
  have cred: "wp (SenderCredential p i) (\<lambda>key. wp (os_remove_all (butlast key)) (\<lambda>_. wp (RemoveName p name i)
      (\<lambda>_. wp (auditCredential p k i name origin) (\<lambda>_ w'. lookup w' (name_path p name) = None) (\<lambda>_ _. True))
      (\<lambda>_ _. True)) (\<lambda>_ _. True)) (\<lambda>_ _. True) v"
    if "lookup v (name_path p name) = Some (Link i)" for k i v
    unfolding SenderCredential_def wp_simps
    by (rule wp_check_segment) (use files that in simp_all)
  show ?thesis
    unfolding RemoveSender_def wp_partial
    by (rule wp_validateCredentialOrigin, rule wp_ResolveName) (simp_all add: cred)
qed

text \<open>
  A credential that \<^verbatim>\<open>AddSender\<close> reports registered
  authenticates the sender's name and identity, white space around it aside, and no
  credential with another hash does. Once \<^verbatim>\<open>RemoveSender\<close> has returned without error, no
  credential authenticates that name, whatever fails in either operation.
\<close>

theorem sender_credential_life:
  assumes "plain_segment (sender_id identity)" "plain_segment name" "p = team_of d"
    and "AddSender p name origin token identity w = (Inr (None, key), w')"
  shows "fst (AuthenticateSender p name c (quiet w')) =
       (if sha256_hex (codec_of w) (TrimSpace c) = sha256_hex (codec_of w) token
        then Inr (blank_sender\<lparr>snd_kind := SenderRegistered, snd_name := name, snd_hitch_id := sender_id identity\<rparr>)
        else Inl SenderUnauthorized)
     \<and> (\<forall>bs origin' w2. RemoveSender p name origin' (w'\<lparr>faults := bs\<rparr>) = (Inr (), w2) \<longrightarrow>
          (\<forall>cs c'. fst (AuthenticateSender p name c' (w2\<lparr>faults := cs\<rparr>)) = Inl SenderUnauthorized))"
proof (intro conjI allI impI)
  let ?r = "\<lparr>sr_id = sender_id identity, sr_name = name,
    sr_credential_hash = sha256_hex (codec_of w) token, sr_created = Some origin\<rparr>"
  have "wp (AddSender p name origin token identity)
      (\<lambda>(x, _) w'. x = None \<longrightarrow> enrolled p w' ?r \<and> codec_of w' = codec_of w) (\<lambda>_ _. True) w"
    by (rule wp_AddSender [OF assms(1,3)]) simp_all
  from wp_okD [OF this assms(4)] have e: "enrolled p w' ?r" "codec_of w' = codec_of w" by simp_all
  have read: "ReadSender p name (quiet w') = (Inr ?r, quiet w')"
    using ReadSender_enrolled [OF e(1)] assms(1,2) by (simp add: segment_iff has_sender_id)
  have "codec_of (quiet w') = codec_of w" by (simp add: quiet_def e(2))
  then show "fst (AuthenticateSender p name c (quiet w')) =
       (if sha256_hex (codec_of w) (TrimSpace c) = sha256_hex (codec_of w) token
        then Inr (blank_sender\<lparr>snd_kind := SenderRegistered, snd_name := name, snd_hitch_id := sender_id identity\<rparr>)
        else Inl SenderUnauthorized)"
    by (simp add: AuthenticateSender_def and_then_def attempt_def read outsideHash_def reads_def registered_sender_def
        ret_def raise_def)
next
  fix bs cs :: "bool list" and origin' w2 c'
  assume run: "RemoveSender p name origin' (w'\<lparr>faults := bs\<rparr>) = (Inr (), w2)"
  have "name \<noteq> ''''" using assms(2) by (auto simp: plain_segment_def)
  from wp_okD [OF wp_RemoveSender [OF assms(3) this] run]
  have "lookup w2 (name_path p name) = None" .
  then show "fst (AuthenticateSender p name c' (w2\<lparr>faults := cs\<rparr>)) = Inl SenderUnauthorized"
    by (intro unclaimed_unauthorized) simp
qed

text \<open>A team whose codec encodes every event and whose digest is the text itself.\<close>

definition open_codec :: codec where
  "open_codec = (demo_codec blank_event)\<lparr>marshal_event := \<lambda>_. Some ''E'', sha256_hex := \<lambda>t. t\<rparr>"

definition demo_team_world :: world where
  "demo_team_world = demo_world open_codec
     ([([''t'', ''team.json''], File (CTeam \<lparr>team_curfew = zero_time\<rparr>))] @ demo_tree demo_hitch)"

definition demo_origin :: credential_origin where
  "demo_origin = \<lparr>org_at = 5, org_actor = \<lparr>act_kind = ''operator'', act_name = '''', act_hitch_id = ''''\<rparr>,
     org_command = ''gang''\<rparr>"

lemma demo_team_world_simps [simp]:
  "faults demo_team_world = []" "shorts demo_team_world = []" "busy demo_team_world = []"
  "held demo_team_world = []" "codec_of demo_team_world = open_codec"
  "lookup demo_team_world q =
     map_of ([([''t'', ''team.json''], File (CTeam \<lparr>team_curfew = zero_time\<rparr>))] @ demo_tree demo_hitch) q"
  by (simp_all add: demo_team_world_def demo_world_def lookup_def)

lemma open_codec_encodes [simp]: "EncodeEvent open_codec e = Inr ''E''" "sha256_hex open_codec t = t"
  by (simp_all add: EncodeEvent_def open_codec_def demo_codec_def)

lemma plain_demo_sender: "plain_segment (sender_id ''x'')" "plain_segment ''lead''"
  by (simp_all add: plain_segment_def separator_def sender_id_def)

lemma demo_add_sender:
  "\<exists>key. fst (AddSender (team_of [''t'']) ''lead'' demo_origin ''tok'' ''x'' demo_team_world) = Inr (None, key)"
proof -
  have paths: "sender_dir (team_of [''t'']) (sender_id ''x'') = [''t'', ''senders'', sender_id ''x'']"
    "tp_state (team_of [''t'']) = [''t'', ''team.json'']" "components ''lead'' = [''lead'']"
    using team_sender_paths(1) [OF plain_demo_sender(1), of "[''t'']"] components_plain [OF plain_demo_sender(2)]
    by (simp_all add: team_of_def)
  have ok: "check_segment (sender_id ''x'') = ret ()" "check_segment ''lead'' = ret ()" "IsSenderID (sender_id ''x'')"
    using plain_demo_sender by (simp_all add: check_segment_def segment_iff has_sender_id)
  have o: "org_at demo_origin = 5" by (simp add: demo_origin_def)
  show ?thesis
    by (simp add: AddSender_def validateCredentialOrigin_def o and_then_def attempt_def reads_def lift_def ret_def
        ReadTeam_def readJSON_quiet paths demo_tree_def as_team_def outsideRandom_def sys_quiet outsideHash_def Let_def
        SenderCredential_def ok os_mkdir_all_def act_quiet claim_sender_def os_write_file_def is_dir_def atomicJSON_quiet
        ClaimName_def os_symlink_def auditCredential_def Append_def appendEvent_def os_open_create_def os_append_def)
qed

theorem sender_credential_life_witness:
  "\<exists>w'. fst (AuthenticateSender (team_of [''t'']) ''lead'' ''tok'' (quiet w')) =
     Inr (blank_sender\<lparr>snd_kind := SenderRegistered, snd_name := ''lead'', snd_hitch_id := sender_id ''x''\<rparr>)"
proof -
  obtain key where "fst (AddSender (team_of [''t'']) ''lead'' demo_origin ''tok'' ''x'' demo_team_world) = Inr (None, key)"
    using demo_add_sender by blast
  then have run: "AddSender (team_of [''t'']) ''lead'' demo_origin ''tok'' ''x'' demo_team_world
      = (Inr (None, key), snd (AddSender (team_of [''t'']) ''lead'' demo_origin ''tok'' ''x'' demo_team_world))"
    by (simp add: prod_eq_iff)
  have "TrimSpace ''tok'' = ''tok''"
    using TrimSpace_solid [of "CHR ''t''" "CHR ''k''" "''o''"] by (simp add: solid_def space_bytes_def)
  then show ?thesis
    using sender_credential_life [OF plain_demo_sender refl run, of "''tok''"] by auto
qed

end
