(* ===== verification/Store_Outside.thy ===== *)
theory Store_Outside
  imports Store_Senders Store_Inbox
begin

text \<open>
  Outside participants (\<^verbatim>\<open>store/outside.go\<close>): a name of the team held by an identity outside
  it, with a bearer credential of one generation and a mailbox of pending envelopes in the
  same file. Registration, rotation, removal and every use of the mailbox run under the
  team lock.
\<close>

section \<open>The mailbox as a value\<close>

definition outside_queue :: "outside_state \<Rightarrow> envelope \<Rightarrow> outside_state option" where
  "outside_queue s e =
     (if list_ex (\<lambda>pending. env_id pending = env_id e) (ost_pending s) then None
      else Some (s\<lparr>ost_pending := ost_pending s @ [e]\<rparr>))"

definition outside_ack :: "outside_state \<Rightarrow> envelope_id list \<Rightarrow> outside_state" where
  "outside_ack s ids = s\<lparr>ost_pending := filter (\<lambda>e. env_id e \<notin> set ids) (ost_pending s)\<rparr>"

definition acknowledged :: "outside_state \<Rightarrow> envelope_id list \<Rightarrow> envelope list" where
  "acknowledged s ids = filter (\<lambda>e. env_id e \<in> set ids) (ost_pending s)"

record outside_mailbox =
  mbx_registration :: outside_registration
  mbx_state :: outside_state
  mbx_path :: path
  mbx_data_directory :: path
  mbx_team :: team_paths

definition Pending :: "outside_mailbox \<Rightarrow> envelope list" where
  "Pending m = ost_pending (mbx_state m)"

definition ack_event :: "outside_registration \<Rightarrow> time \<Rightarrow> envelope \<Rightarrow> event" where
  "ack_event r moment e =
     blank_event\<lparr>ev_type := ''outside_acknowledged'', ev_at := moment, ev_source := ''command'',
       ev_hitch_id := out_id r, ev_name := out_name r, ev_id := env_id e, ev_envelope := Some e\<rparr>"

fun append_all :: "team_paths \<Rightarrow> event list \<Rightarrow> err list io" where
  "append_all p [] = ret []"
| "append_all p (e # es) =
     and_then (attempt (Append p e)) (\<lambda>r.
     and_then (append_all p es) (\<lambda>failures. ret (errs_of r @ failures)))"

text \<open>
  The method changes its receiver: the result is the mailbox after the call, and the
  failures of the audit that the returned error joins.
\<close>

definition Ack :: "outside_mailbox \<Rightarrow> envelope_id list \<Rightarrow> time \<Rightarrow> (err option \<times> outside_mailbox) io" where
  "Ack m ids moment =
     (let after = outside_ack (mbx_state m) ids in
     and_then (atomicJSON (mbx_path m) (COutside after)) (\<lambda>_.
     and_then (append_all (mbx_team m)
       (map (ack_event (mbx_registration m) moment) (acknowledged (mbx_state m) ids))) (\<lambda>failures.
     ret (if failures = [] then None else Some (Joined failures), m\<lparr>mbx_state := after\<rparr>))))"

definition dataPath :: "outside_mailbox \<Rightarrow> string \<Rightarrow> path io" where
  "dataPath m key = and_then (outsideHash key) (\<lambda>h. ret (join_path (mbx_data_directory m) (h @ ''.json'')))"

definition Get :: "outside_mailbox \<Rightarrow> string \<Rightarrow> string option io" where
  "Get m key =
     and_then (dataPath m key) (\<lambda>path.
     and_then (attempt (readJSON as_value path)) (\<lambda>r. case r of
       Inl e \<Rightarrow> if errors_is e NotExist then ret None else raise e
     | Inr v \<Rightarrow> ret (Some v)))"

definition Put :: "outside_mailbox \<Rightarrow> string \<Rightarrow> string \<Rightarrow> unit io" where
  "Put m key v =
     and_then (os_mkdir_all (mbx_data_directory m)) (\<lambda>_.
     and_then (dataPath m key) (\<lambda>path. atomicJSON path (CValue v)))"

definition Delete :: "outside_mailbox \<Rightarrow> string \<Rightarrow> unit io" where
  "Delete m key =
     and_then (dataPath m key) (\<lambda>path.
     and_then (attempt (os_remove path)) (\<lambda>r. case r of
       Inl e \<Rightarrow> if errors_is e NotExist then ret () else raise e
     | Inr _ \<Rightarrow> ret ()))"

section \<open>Registrations\<close>

definition outsidePath :: "team_paths \<Rightarrow> hitch_id \<Rightarrow> path io" where
  "outsidePath p i =
     and_then (check_segment i) (\<lambda>_.
     ret (join_path (tp_directory p @ [''outside'']) (i @ ''.json'')))"

definition outsideState :: "team_paths \<Rightarrow> hitch_id \<Rightarrow> outside_state io" where
  "outsideState p i =
     and_then (outsidePath p i) (\<lambda>path.
     and_then (readJSON as_outside path) (\<lambda>state.
       if out_id state \<noteq> i \<or> out_name state = '''' \<or> ost_generation state = ''''
          \<or> length (ost_credential_hash state) \<noteq> 64
       then raise (Fail ''invalid outside registration'')
       else and_then (ResolveName p (out_name state)) (\<lambda>current.
         if current \<noteq> i then raise OutsideUnauthorized else ret state)))"

definition ResolveOutside :: "team_paths \<Rightarrow> string \<Rightarrow> outside_registration io" where
  "ResolveOutside p name =
     and_then (ResolveName p name) (\<lambda>i.
       if \<not> has_prefix i ''outside-'' then raise NotExist
       else and_then (outsideState p i) (\<lambda>state. ret (outside_registration.truncate state)))"

definition read_listed_outside :: "team_paths \<Rightarrow> string \<times> bool \<Rightarrow> outside_registration option io" where
  "read_listed_outside p entry =
     (if snd entry \<or> \<not> has_suffix (fst entry) ''.json'' then ret None
      else and_then (attempt (outsideState p (trim_suffix (fst entry) ''.json''))) (\<lambda>r. case r of
          Inl e \<Rightarrow> if errors_is e NotExist \<or> errors_is e OutsideUnauthorized then ret None else raise e
        | Inr state \<Rightarrow> ret (Some (outside_registration.truncate state))))"

definition ListOutside :: "team_paths \<Rightarrow> outside_registration list io" where
  "ListOutside p =
     and_then (attempt (os_read_dir (tp_directory p @ [''outside'']))) (\<lambda>r. case r of
       Inl e \<Rightarrow> if errors_is e NotExist then ret [] else raise e
     | Inr entries \<Rightarrow>
         and_then (collect (read_listed_outside p) entries) (\<lambda>result.
         ret (sort_slice (\<lambda>a b. out_name a < out_name b) result)))"

text \<open>
  The credential file: its path is absolute and its name is new, and after a failure it is
  removed. The draws of \<^verbatim>\<open>crypto/rand\<close> are arguments.
\<close>

definition write_credential :: "path \<Rightarrow> string \<Rightarrow> unit io" where
  "write_credential path token =
     and_then (os_append path (token @ [newline])) (\<lambda>n.
       if n \<noteq> length (token @ [newline]) then raise ShortWrite else sys)"

definition with_credential :: "outside_state \<Rightarrow> string \<Rightarrow> string \<Rightarrow> outside_state" where
  "with_credential s hash generation = s\<lparr>ost_credential_hash := hash, ost_generation := generation\<rparr>"

definition close_credential :: "path \<Rightarrow> err + unit \<Rightarrow> unit io" where
  "close_credential path r =
     and_then (attempt sys) (\<lambda>closed.
       if errs_of r @ errs_of closed = [] then ret ()
       else and_then (attempt (os_remove path)) (\<lambda>q.
         raise (Joined (errs_of r @ errs_of closed @ errs_of q))))"

definition issueOutsideCredential :: "outside_state \<Rightarrow> string \<Rightarrow> string \<Rightarrow> string \<Rightarrow> outside_state io" where
  "issueOutsideCredential state path token_draw generation_draw =
     (if \<not> has_prefix path ''/'' then raise (Fail ''credential file must be an absolute path'')
      else and_then (outsideRandom token_draw) (\<lambda>token.
      and_then (outsideRandom generation_draw) (\<lambda>generation.
      and_then (os_create_excl (components path) (CBytes '''')) (\<lambda>_.
      and_then (attempt (write_credential (components path) token)) (\<lambda>r.
      and_then (close_credential (components path) r) (\<lambda>_.
      and_then (outsideHash token) (\<lambda>hash.
      ret (with_credential state hash generation))))))))"

text \<open>The registration after its credential is out; an error of the audit comes with it.\<close>

definition save_registration :: "team_paths \<Rightarrow> path \<Rightarrow> outside_state \<Rightarrow> string \<Rightarrow> credential_origin
    \<Rightarrow> (outside_registration \<times> err option) io" where
  "save_registration t path state credentialFile origin =
     and_then (attempt (atomicJSON path (COutside state))) (\<lambda>r. case r of
       Inl e \<Rightarrow> and_then (attempt (os_remove (components credentialFile))) (\<lambda>q.
         raise (Joined (e # errs_of q)))
     | Inr _ \<Rightarrow>
         and_then (attempt (ClaimName t (out_name state) (out_id state))) (\<lambda>c. case c of
           Inl e \<Rightarrow> and_then (attempt (os_remove path)) (\<lambda>q.
             and_then (attempt (os_remove (components credentialFile))) (\<lambda>q2.
             raise (Joined (e # errs_of q @ errs_of q2))))
         | Inr _ \<Rightarrow>
             and_then (attempt (auditCredential t ''outside_registered'' (out_id state) (out_name state) origin)) (\<lambda>a.
             ret (outside_registration.truncate state, case a of Inl e \<Rightarrow> Some e | Inr _ \<Rightarrow> None))))"

definition RegisterOutside :: "paths \<Rightarrow> string \<Rightarrow> string \<Rightarrow> string \<Rightarrow> credential_origin
    \<Rightarrow> string \<Rightarrow> string \<Rightarrow> string \<Rightarrow> (outside_registration \<times> err option) io" where
  "RegisterOutside p team name credentialFile origin identity_draw token_draw generation_draw =
     and_then (validateCredentialOrigin origin) (\<lambda>_.
     locking_team p team (
     and_then (Team p team) (\<lambda>t.
     and_then (check_segment name) (\<lambda>_.
     and_then (ReadTeam t) (\<lambda>_.
     and_then (attempt (ResolveName t name)) (\<lambda>taken. case taken of
       Inr _ \<Rightarrow> raise NameTaken
     | Inl e \<Rightarrow>
       if \<not> errors_is e NotExist then raise e
       else
         and_then (outsideRandom identity_draw) (\<lambda>identity.
         and_then (os_mkdir_all (tp_directory t @ [''outside''])) (\<lambda>_.
         let fresh = \<lparr>out_id = ''outside-'' @ identity, out_name = name, out_created = Some origin,
                      ost_credential_hash = '''', ost_generation = '''', ost_pending = []\<rparr> in
         and_then (attempt (outsidePath t (out_id fresh))) (\<lambda>path.
         and_then (issueOutsideCredential fresh credentialFile token_draw generation_draw) (\<lambda>state.
         save_registration t (path_or_empty path) state credentialFile origin))))))))))"

definition save_rotation :: "team_paths \<Rightarrow> outside_state \<Rightarrow> string \<Rightarrow> credential_origin \<Rightarrow> unit io" where
  "save_rotation t state credentialFile origin =
     and_then (attempt (outsidePath t (out_id state))) (\<lambda>path.
     and_then (attempt (atomicJSON (path_or_empty path) (COutside state))) (\<lambda>r. case r of
       Inl e \<Rightarrow> and_then (attempt (os_remove (components credentialFile))) (\<lambda>q.
         raise (Joined (e # errs_of q)))
     | Inr _ \<Rightarrow> auditCredential t ''outside_rotated'' (out_id state) (out_name state) origin))"

definition RotateOutside :: "paths \<Rightarrow> string \<Rightarrow> string \<Rightarrow> string \<Rightarrow> credential_origin
    \<Rightarrow> string \<Rightarrow> string \<Rightarrow> unit io" where
  "RotateOutside p team name credentialFile origin token_draw generation_draw =
     and_then (validateCredentialOrigin origin) (\<lambda>_.
     locking_team p team (
     and_then (Team p team) (\<lambda>t.
     and_then (ResolveOutside t name) (\<lambda>registration.
     and_then (outsideState t (out_id registration)) (\<lambda>state.
     and_then (issueOutsideCredential state credentialFile token_draw generation_draw) (\<lambda>issued.
     save_rotation t issued credentialFile origin))))))"

definition RemoveOutsideOf :: "team_paths \<Rightarrow> string \<Rightarrow> credential_origin \<Rightarrow> unit io" where
  "RemoveOutsideOf p name origin =
     and_then (validateCredentialOrigin origin) (\<lambda>_.
     and_then (ResolveOutside p name) (\<lambda>registration.
     and_then (RemoveName p (out_name registration) (out_id registration)) (\<lambda>_.
     and_then (attempt (auditCredential p ''outside_removed'' (out_id registration) (out_name registration) origin)) (\<lambda>audit.
     and_then (attempt (os_remove_all (join_path (tp_directory p @ [''outside-data'']) (out_id registration)))) (\<lambda>data.
     and_then (attempt (outsidePath p (out_id registration))) (\<lambda>path.
     and_then (attempt (os_remove (path_or_empty path))) (\<lambda>removed.
     let es = errs_of data @ errs_of removed @ errs_of audit in
     if es = [] then ret () else raise (Joined es))))))))"

definition RemoveOutside :: "paths \<Rightarrow> string \<Rightarrow> string \<Rightarrow> credential_origin \<Rightarrow> unit io" where
  "RemoveOutside p team name origin =
     locking_team p team (and_then (Team p team) (\<lambda>t. RemoveOutsideOf t name origin))"

section \<open>Principals\<close>

definition principal_of :: "outside_registration \<Rightarrow> string \<Rightarrow> outside_principal" where
  "principal_of r generation =
     \<lparr>out_id = out_id r, out_name = out_name r, out_created = out_created r, pri_generation = generation\<rparr>"

definition principal_string :: "outside_principal \<Rightarrow> string" where
  "principal_string p = out_id p @ ''.'' @ pri_generation p"

definition principal_sender :: "outside_principal \<Rightarrow> sender" where
  "principal_sender p =
     blank_sender\<lparr>snd_kind := SenderOutside, snd_name := out_name p, snd_hitch_id := out_id p\<rparr>"

definition gone :: "err \<Rightarrow> bool" where
  "gone e \<longleftrightarrow> errors_is e NotExist \<or> errors_is e OutsideUnauthorized"

fun find_principal :: "team_paths \<Rightarrow> string \<Rightarrow> outside_registration list \<Rightarrow> outside_principal io" where
  "find_principal t digest [] = raise OutsideUnauthorized"
| "find_principal t digest (r # rs) =
     and_then (attempt (outsideState t (out_id r))) (\<lambda>x. case x of
       Inl e \<Rightarrow> if gone e then find_principal t digest rs else raise e
     | Inr state \<Rightarrow>
         if digest = ost_credential_hash state then ret (principal_of r (ost_generation state))
         else find_principal t digest rs)"

definition AuthenticateOutside :: "paths \<Rightarrow> string \<Rightarrow> string \<Rightarrow> outside_principal io" where
  "AuthenticateOutside p team token =
     and_then (Team p team) (\<lambda>t.
     and_then (ListOutside t) (\<lambda>registrations.
     and_then (outsideHash token) (\<lambda>digest. find_principal t digest registrations)))"

definition ResolveOutsidePrincipal :: "paths \<Rightarrow> string \<Rightarrow> string \<Rightarrow> outside_principal io" where
  "ResolveOutsidePrincipal p team who =
     (case cut who ''.'' of (i, generation, ok) \<Rightarrow>
       if \<not> ok then raise OutsideUnauthorized
       else
         and_then (Team p team) (\<lambda>t.
         and_then (attempt (outsideState t i)) (\<lambda>r. case r of
           Inl e \<Rightarrow> if gone e then raise OutsideUnauthorized else raise e
         | Inr state \<Rightarrow>
             if generation \<noteq> ost_generation state then raise OutsideUnauthorized
             else ret (principal_of (outside_registration.truncate state) (ost_generation state)))))"

text \<open>
  The callback of \<^verbatim>\<open>WithOutside\<close> is an argument: any action of the mailbox it is given.
\<close>

definition WithOutside :: "paths \<Rightarrow> string \<Rightarrow> outside_principal \<Rightarrow> (outside_mailbox \<Rightarrow> unit io) \<Rightarrow> unit io" where
  "WithOutside p team who f =
     locking_team p team (
     and_then (ResolveOutsidePrincipal p team (principal_string who)) (\<lambda>current.
       if out_name current \<noteq> out_name who then raise OutsideUnauthorized
       else
         and_then (Team p team) (\<lambda>t.
         and_then (outsideState t (out_id current)) (\<lambda>state.
         and_then (attempt (outsidePath t (out_id current))) (\<lambda>path.
         f \<lparr>mbx_registration = outside_registration.truncate current, mbx_state = state,
            mbx_path = path_or_empty path,
            mbx_data_directory = join_path (tp_directory t @ [''outside-data'']) (out_id current),
            mbx_team = t\<rparr>)))))"

definition queue_for :: "team_paths \<Rightarrow> envelope \<Rightarrow> outside_registration \<Rightarrow> unit io" where
  "queue_for t e registration =
     (if env_recipient e \<noteq> out_id registration \<or> env_to e \<noteq> out_name registration
      then raise (Fail ''outside recipient registration changed; retry'')
      else
        and_then (outsideState t (out_id registration)) (\<lambda>state.
        case outside_queue state e of
          None \<Rightarrow> raise EnvelopeQueued
        | Some queued \<Rightarrow>
            and_then (attempt (outsidePath t (out_id registration))) (\<lambda>path.
            and_then (atomicJSON (path_or_empty path) (COutside queued)) (\<lambda>_.
            Append t (blank_event\<lparr>ev_type := ''send_queued'', ev_at := env_created_at e,
              ev_source := ''command'', ev_hitch_id := out_id registration,
              ev_name := out_name registration, ev_envelope := Some e\<rparr>)))))"

definition QueueOutside :: "paths \<Rightarrow> string \<Rightarrow> string \<Rightarrow> envelope \<Rightarrow> unit io" where
  "QueueOutside p team name e =
     locking_team p team (
     and_then (Team p team) (\<lambda>t.
     and_then (ResolveOutside t name) (queue_for t e)))"

definition ReadOutsidePending :: "paths \<Rightarrow> string \<Rightarrow> outside_principal \<Rightarrow> envelope list io" where
  "ReadOutsidePending p team who =
     and_then (Team p team) (\<lambda>t.
     and_then (attempt (outsideState t (out_id who))) (\<lambda>r. case r of
       Inl e \<Rightarrow> if gone e then raise OutsideUnauthorized else raise e
     | Inr state \<Rightarrow>
         if out_name state \<noteq> out_name who \<or> ost_generation state \<noteq> pri_generation who
         then raise OutsideUnauthorized else ret (ost_pending state)))"


section \<open>The mailbox over a run\<close>

datatype mail_op = MailQueue envelope | MailAck "envelope_id list"

fun mail_step :: "outside_state \<Rightarrow> mail_op \<Rightarrow> outside_state" where
  "mail_step s (MailQueue e) = (case outside_queue s e of None \<Rightarrow> s | Some t \<Rightarrow> t)"
| "mail_step s (MailAck ids) = outside_ack s ids"

definition mail_run :: "outside_state \<Rightarrow> mail_op list \<Rightarrow> outside_state" where
  "mail_run s ops = foldl mail_step s ops"

definition mail_ids :: "outside_state \<Rightarrow> envelope_id set" where
  "mail_ids s = env_id ` set (ost_pending s)"

lemma mail_run_simps [simp]:
  "mail_run s [] = s" "mail_run s (ops @ [x]) = mail_step (mail_run s ops) x"
  by (simp_all add: mail_run_def)

lemma outside_queue_iff:
  "outside_queue s e = (if env_id e \<in> mail_ids s then None else Some (s\<lparr>ost_pending := ost_pending s @ [e]\<rparr>))"
proof -
  have "list_ex (\<lambda>pending. env_id pending = env_id e) (ost_pending s) \<longleftrightarrow> env_id e \<in> mail_ids s"
    unfolding list_ex_iff mail_ids_def image_iff by metis
  then show ?thesis by (simp add: outside_queue_def)
qed

lemma pending_step:
  "x \<in> set (ost_pending (mail_step s (MailQueue e))) \<longleftrightarrow> x \<in> set (ost_pending s) \<or> x = e \<and> env_id e \<notin> mail_ids s"
  "x \<in> set (ost_pending (mail_step s (MailAck ids))) \<longleftrightarrow> x \<in> set (ost_pending s) \<and> env_id x \<notin> set ids"
  by (auto simp: outside_queue_iff outside_ack_def)

text \<open>The envelope was taken at some point of the run and not acknowledged since.\<close>

definition live :: "outside_state \<Rightarrow> mail_op list \<Rightarrow> envelope \<Rightarrow> bool" where
  "live s ops e \<longleftrightarrow> (\<exists>before later. ops = before @ MailQueue e # later \<and> env_id e \<notin> mail_ids (mail_run s before)
     \<and> (\<forall>ids. MailAck ids \<in> set later \<longrightarrow> env_id e \<notin> set ids))"

lemma live_snoc:
  "live s (ops @ [x]) e \<longleftrightarrow> (case x of
      MailQueue q \<Rightarrow> live s ops e \<or> q = e \<and> env_id e \<notin> mail_ids (mail_run s ops)
    | MailAck ids \<Rightarrow> live s ops e \<and> env_id e \<notin> set ids)"
proof -
  let ?taken = "\<lambda>before. env_id e \<notin> mail_ids (mail_run s before)"
  let ?kept = "\<lambda>later. \<forall>ids. MailAck ids \<in> set later \<longrightarrow> env_id e \<notin> set ids"
  have split: "ops @ [x] = before @ MailQueue e # later \<longleftrightarrow>
      (x = MailQueue e \<and> before = ops \<and> later = []) \<or> (\<exists>l. later = l @ [x] \<and> ops = before @ MailQueue e # l)"
    for before later
    by (cases later rule: rev_cases) auto
  have last: "?kept (l @ [x]) \<longleftrightarrow> ?kept l \<and> (\<forall>ids. x = MailAck ids \<longrightarrow> env_id e \<notin> set ids)" for l
    by auto
  have "live s (ops @ [x]) e \<longleftrightarrow> (x = MailQueue e \<and> ?taken ops) \<or>
      (\<exists>before l. ops = before @ MailQueue e # l \<and> ?taken before \<and> ?kept (l @ [x]))"
  proof
    assume "live s (ops @ [x]) e"
    then obtain before later where "ops @ [x] = before @ MailQueue e # later" "?taken before" "?kept later"
      unfolding live_def by blast
    then show "(x = MailQueue e \<and> ?taken ops) \<or>
        (\<exists>before l. ops = before @ MailQueue e # l \<and> ?taken before \<and> ?kept (l @ [x]))"
      unfolding split by blast
  next
    assume "(x = MailQueue e \<and> ?taken ops) \<or>
        (\<exists>before l. ops = before @ MailQueue e # l \<and> ?taken before \<and> ?kept (l @ [x]))"
    then show "live s (ops @ [x]) e"
    proof
      assume "x = MailQueue e \<and> ?taken ops"
      then show ?thesis unfolding live_def by (intro exI [of _ ops] exI [of _ "[]"]) simp
    next
      assume "\<exists>before l. ops = before @ MailQueue e # l \<and> ?taken before \<and> ?kept (l @ [x])"
      then obtain before l where "ops = before @ MailQueue e # l" "?taken before" "?kept (l @ [x])" by blast
      then show ?thesis unfolding live_def by (intro exI [of _ before] exI [of _ "l @ [x]"]) simp
    qed
  qed
  also have "\<dots> \<longleftrightarrow> (x = MailQueue e \<and> ?taken ops) \<or> live s ops e \<and> (\<forall>ids. x = MailAck ids \<longrightarrow> env_id e \<notin> set ids)"
    unfolding live_def last by blast
  finally show ?thesis by (cases x) auto
qed

text \<open>
  C36 (mailbox_exactly_once): over any run of queueings and acknowledgments from an empty
  mailbox, the pending envelopes have distinct IDs and are exactly those that a queueing
  took in (their ID was not pending then) and no later acknowledgment names.
\<close>

theorem mailbox_exactly_once:
  assumes "ost_pending s = []"
  shows "distinct (map env_id (ost_pending (mail_run s ops)))
    \<and> (\<forall>e. e \<in> set (ost_pending (mail_run s ops)) \<longleftrightarrow> live s ops e)"
proof (induction ops rule: rev_induct)
  case Nil
  then show ?case by (simp add: assms live_def)
next
  case (snoc x ops)
  let ?m = "mail_run s ops"
  have members: "e \<in> set (ost_pending (mail_step ?m x)) \<longleftrightarrow> live s (ops @ [x]) e" for e
    using snoc by (cases x) (auto simp: pending_step live_snoc simp del: mail_step.simps)
  have "distinct (map env_id (ost_pending (mail_step ?m x)))"
    using snoc by (cases x) (auto simp: outside_queue_iff outside_ack_def mail_ids_def distinct_map_filter)
  with members show ?case by simp
qed

section \<open>What existing files keep\<close>

text \<open>Every file, link and directory outside the set is as it was; new ones may have appeared.\<close>

definition steady :: "path set \<Rightarrow> world \<Rightarrow> world \<Rightarrow> bool" where
  "steady ps w w' \<longleftrightarrow> (\<forall>q. q \<notin> ps \<longrightarrow> lookup w q \<noteq> None \<longrightarrow> lookup w' q = lookup w q) \<and> codec_of w' = codec_of w"

lemma steady_simps [simp]:
  "steady ps w w"
  "steady ps w (w'\<lparr>faults := bs\<rparr>) = steady ps w w'"
  "steady ps w (w'\<lparr>held := hs\<rparr>) = steady ps w w'"
  "steady ps w (w'\<lparr>shorts := ns\<rparr>) = steady ps w w'"
  "steady ps (w\<lparr>faults := bs\<rparr>) w' = steady ps w w'"
  by (simp_all add: steady_def)

lemma steady_put: "lookup w q = None \<Longrightarrow> steady ps w w' \<Longrightarrow> steady ps w (put q n w')"
  and steady_del: "lookup w q = None \<Longrightarrow> steady ps w w' \<Longrightarrow> steady ps w (del q w')"
  by (auto simp: steady_def)

lemma steady_trans:
  assumes "steady ps u v" "steady qs v w" "ps \<union> qs \<subseteq> rs"
  shows "steady rs u w"
  unfolding steady_def
proof (intro conjI allI impI)
  fix q assume q: "q \<notin> rs" "lookup u q \<noteq> None"
  then have "lookup v q = lookup u q" using assms(1,3) by (auto simp: steady_def)
  then show "lookup w q = lookup u q" using assms(2,3) q by (auto simp: steady_def)
qed (use assms in \<open>simp add: steady_def\<close>)

lemma steady_dirs: "dirs_added w w' \<Longrightarrow> steady {} w w'"
  unfolding steady_def dirs_added_def by metis

lemma steady_changed: "changed_only ps w w' \<Longrightarrow> steady ps w w'"
  by (simp add: steady_def changed_only_def)

lemma steady_lookup: "steady ps w w' \<Longrightarrow> q \<notin> ps \<Longrightarrow> lookup w q = Some n \<Longrightarrow> lookup w' q = Some n"
  by (simp add: steady_def)

lemma wp_LockTeam [wp_intro]:
  assumes "\<And>w'. steady {} w w' \<Longrightarrow> Q () w'" and "\<And>e w'. steady {} w w' \<Longrightarrow> E e w'"
  shows "wp (LockTeam p team) Q E w"
proof -
  let ?l = "team_lock p team"
  let ?held = "\<lambda>_ w. Q () (w\<lparr>held := (?l, None) # held w\<rparr>)"
  have taken: "wp (act (\<lambda>w. if ?l \<in> set (busy w) \<union> fst ` set (held w) then Inl Locked else Inr w)) ?held E v"
    if "steady {} w v" for v
    by (rule wp_act) (use that in \<open>auto split: if_splits intro!: assms\<close>)
  have opened: "wp (os_open_create ?l) (\<lambda>_. wp (act (\<lambda>w. if ?l \<in> set (busy w) \<union> fst ` set (held w)
      then Inl Locked else Inr w)) ?held E) E v" if v: "steady {} w v" for v
  proof (rule wp_os_open_create, goal_cases)
    case (2 bs)
    show ?case by (rule taken) (use steady_trans [OF v, of "{}" "put ?l (File (CBytes [])) v" "{}"] 2 steady_put in simp)
  qed (use v in \<open>simp_all add: taken assms(2) del: Un_iff\<close>)
  have made: "wp (os_mkdir_all d) (\<lambda>_. wp (os_open_create ?l) (\<lambda>_. wp (act (\<lambda>w. if ?l \<in> set (busy w) \<union> fst ` set (held w)
      then Inl Locked else Inr w)) ?held E) E) E w" for d
    by (rule wp_os_mkdir_all, rule opened) (simp_all add: steady_dirs assms(2))
  show ?thesis
    unfolding LockTeam_def wp_simps wp_updates
    by (rule wp_check_segment) (simp_all only: made assms(2) steady_simps)
qed

lemma wp_locking_team:
  assumes "\<And>v. steady {} w v \<Longrightarrow>
      wp body (\<lambda>x u. \<forall>hs. Q x (u\<lparr>held := hs\<rparr>)) (\<lambda>e u. \<forall>hs. E e (u\<lparr>held := hs\<rparr>)) v"
    and "\<And>e v. steady {} w v \<Longrightarrow> E e v"
  shows "wp (locking_team p team body) Q E w"
proof -
  have "wp body (\<lambda>x u. Q x (u\<lparr>held := AList.delete (team_lock p team) (held u)\<rparr>))
      (\<lambda>e u. E e (u\<lparr>held := AList.delete (team_lock p team) (held u)\<rparr>)) v" if "steady {} w v" for v
    by (rule wp_mono [OF assms(1) [OF that]]) simp_all
  then show ?thesis
    unfolding locking_team_def UnlockTeam_def wp_simps wp_attempt wp_updates
    by (intro wp_LockTeam) (simp_all add: assms(2))
qed

definition outside_file :: "team_paths \<Rightarrow> hitch_id \<Rightarrow> path" where
  "outside_file t i = join_path (tp_directory t @ [''outside'']) (i @ ''.json'')"

definition enlisted :: "team_paths \<Rightarrow> world \<Rightarrow> hitch_id \<Rightarrow> outside_state \<Rightarrow> bool" where
  "enlisted t w i s \<longleftrightarrow> lookup w (outside_file t i) = Some (File (COutside s)) \<and> out_id s = i
     \<and> lookup w (name_path t (out_name s)) = Some (Link i)"

lemma as_outside_iff: "as_outside c = Some x \<longleftrightarrow> c = COutside x"
  by (cases c) (auto simp: as_outside_def)

lemma wp_outsidePath [wp_intro]:
  assumes "segment i \<Longrightarrow> Q (outside_file t i) w" "\<And>e. \<not> segment i \<Longrightarrow> E e w"
  shows "wp (outsidePath t i) Q E w"
  using assms by (simp add: outsidePath_def check_segment_def outside_file_def)

lemma wp_outsideState [wp_intro]:
  assumes "\<And>bs s. segment i \<Longrightarrow> enlisted t w i s \<Longrightarrow> Q s (w\<lparr>faults := bs\<rparr>)" and "\<And>bs e. E e (w\<lparr>faults := bs\<rparr>)"
  shows "wp (outsideState t i) Q E w"
proof -
  have "E e w" for e using assms(2) [of e "faults w"] by simp
  moreover have "wp (readJSON as_outside (outside_file t i)) (\<lambda>state. wp (if out_id state \<noteq> i \<or> out_name state = ''''
        \<or> ost_generation state = '''' \<or> length (ost_credential_hash state) \<noteq> 64
      then raise (Fail ''invalid outside registration'')
      else and_then (ResolveName t (out_name state)) (\<lambda>current.
        if current \<noteq> i then raise OutsideUnauthorized else ret state)) Q E) E w" if i: "segment i"
  proof (rule wp_readJSON, goal_cases)
    case (1 bs c s)
    have "wp (ResolveName t (out_name s)) (\<lambda>current. wp (if current \<noteq> i then raise OutsideUnauthorized else ret s) Q E) E
        (w\<lparr>faults := bs\<rparr>)" if "out_id s = i"
      by (rule wp_ResolveName) (use that 1 i in \<open>auto intro!: assms simp: enlisted_def as_outside_iff\<close>)
    then show ?case by (simp add: assms(2))
  qed (rule assms(2))
  ultimately show ?thesis
    unfolding outsideState_def wp_simps by (intro wp_outsidePath) simp_all
qed

lemma wp_ResolveOutside [wp_intro]:
  assumes "\<And>bs i s. lookup w (name_path t name) = Some (Link i) \<Longrightarrow> has_prefix i ''outside-'' \<Longrightarrow> segment i \<Longrightarrow>
      enlisted t w i s \<Longrightarrow> Q (outside_registration.truncate s) (w\<lparr>faults := bs\<rparr>)"
    and "\<And>bs e. E e (w\<lparr>faults := bs\<rparr>)"
  shows "wp (ResolveOutside t name) Q E w"
  unfolding ResolveOutside_def wp_simps
proof (rule wp_ResolveName, goal_cases)
  case (1 bs i)
  have "wp (outsideState t i) (\<lambda>state. Q (outside_registration.truncate state)) E (w\<lparr>faults := bs\<rparr>)"
    if "has_prefix i ''outside-''"
    by (rule wp_outsideState) (use 1 that assms in \<open>simp_all add: enlisted_def\<close>)
  then show ?case by (simp add: assms(2))
qed (rule assms(2))

lemma wp_close_credential:
  assumes "steady {} w v" "lookup w path = None"
    and "\<And>w'. steady {} w w' \<Longrightarrow> Q () w'" and "\<And>e w'. steady {} w w' \<Longrightarrow> E e w'"
  shows "wp (close_credential path r) Q E v"
proof -
  have remove: "wp (os_remove path) F G (v\<lparr>faults := bs\<rparr>)"
    if "\<And>x u. steady {} w u \<Longrightarrow> F x u" "\<And>x u. steady {} w u \<Longrightarrow> G x u" for F G bs
  proof (rule wp_os_remove, goal_cases)
    case (1 cs)
    show ?case by (rule that(1)) (use assms(1,2) in \<open>simp add: steady_del\<close>)
  qed (use assms(1) in \<open>simp add: that(2)\<close>)
  show ?thesis
    unfolding close_credential_def wp_simps wp_attempt
    by (rule wp_sys) (use assms(1) in \<open>auto intro!: remove assms(3,4)\<close>)
qed

lemma wp_write_credential:
  assumes "steady {} w v" "lookup w path = None"
    and "\<And>w'. steady {} w w' \<Longrightarrow> Q () w'" and "\<And>e w'. steady {} w w' \<Longrightarrow> E e w'"
  shows "wp (write_credential path token) Q E v"
proof -
  have sync: "wp (if n \<noteq> length (token @ [newline]) then raise ShortWrite else sys) Q E u" if "steady {} w u" for n u
    using that by (auto intro!: wp_sys assms(3,4))
  show ?thesis
    unfolding write_credential_def wp_simps(5)
    by (rule wp_os_append, rule sync) (use assms(1,2) in \<open>simp_all add: steady_put assms(4)\<close>)
qed

lemma wp_issueOutsideCredential [wp_intro]:
  assumes "\<And>w'. steady {} w w' \<Longrightarrow> lookup w (components path) = None \<Longrightarrow>
      Q (with_credential s (sha256_hex (codec_of w) token) generation) w'"
    and "\<And>e w'. steady {} w w' \<Longrightarrow> E e w'"
  shows "wp (issueOutsideCredential s path token generation) Q E w"
proof -
  let ?c = "components path"
  let ?fin = "wp (outsideHash token) (\<lambda>hash. Q (with_credential s hash generation)) E"
  have issued: "?fin v" if "steady {} w v" "lookup w ?c = None" for v
    using assms(1) [OF that] that by (simp add: outsideHash_def steady_def)
  have closed: "wp (close_credential ?c r) (\<lambda>_. ?fin) E v" if "steady {} w v" "lookup w ?c = None" for r v
    by (rule wp_close_credential [OF that]) (simp_all only: issued that assms(2))
  have written: "wp (write_credential ?c token) (\<lambda>x. wp (close_credential ?c (Inr x)) (\<lambda>_. ?fin) E)
      (\<lambda>e. wp (close_credential ?c (Inl e)) (\<lambda>_. ?fin) E) v" if "steady {} w v" "lookup w ?c = None" for v
    by (rule wp_write_credential [OF that]) (simp_all only: closed that)
  have created: "wp (os_create_excl ?c (CBytes '''')) (\<lambda>_. wp (write_credential ?c token)
      (\<lambda>x. wp (close_credential ?c (Inr x)) (\<lambda>_. ?fin) E) (\<lambda>e. wp (close_credential ?c (Inl e)) (\<lambda>_. ?fin) E)) E (w\<lparr>faults := bs\<rparr>)" for bs
  proof (rule wp_os_create_excl, goal_cases)
    case (1 cs)
    then have "lookup w ?c = None" by simp
    then show ?case by (intro written) (simp_all add: steady_put)
  qed (simp add: assms(2))
  have "wp (issueOutsideCredential s path token generation) Q E w" if "has_prefix path ''/''"
    using that unfolding issueOutsideCredential_def wp_partial
    by (simp, intro wp_outsideRandom) (use created assms(2) in simp_all)
  then show ?thesis
    using assms(2) [of w] by (cases "has_prefix path ''/''") (simp_all add: issueOutsideCredential_def)
qed

section \<open>Rotation and the mailbox on disk\<close>

definition team_at :: "paths \<Rightarrow> string \<Rightarrow> team_paths" where
  "team_at p team = team_of (join_path (components (root p) @ [''teams'']) team)"

lemma wp_Team [wp_intro]:
  assumes "Q (team_at p team) w" "\<And>e. E e w"
  shows "wp (Team p team) Q E w"
  using assms by (simp add: Team_def check_segment_def team_at_def)

lemma team_at_paths [simp]:
  "tp_log (team_at p team) \<noteq> outside_file (team_at p team) i"
  "name_path (team_at p team) n \<noteq> outside_file (team_at p team) i"
  "name_path (team_at p team) n \<noteq> tp_log (team_at p team)"
  by (simp_all add: team_at_def outside_file_def join_path_def team_of_def name_path_def)

lemma enlisted_simps [simp]:
  "enlisted t (w\<lparr>faults := bs\<rparr>) i s = enlisted t w i s"
  "enlisted t (w\<lparr>held := hs\<rparr>) i s = enlisted t w i s"
  by (simp_all add: enlisted_def)

lemma enlisted_unique: "enlisted t w i s \<Longrightarrow> enlisted t w i s' \<Longrightarrow> s' = s"
  by (simp add: enlisted_def)

lemma enlisted_id: "enlisted t w i s \<Longrightarrow> out_id s = i"
  by (simp add: enlisted_def)

lemma enlisted_steady:
  assumes "enlisted t w i s" "steady {} w v"
  shows "enlisted t v i s"
  using assms by (simp add: enlisted_def steady_def)

lemma enlisted_log:
  assumes "enlisted (team_at p team) w i s" "changed_only {tp_log (team_at p team)} w v"
  shows "enlisted (team_at p team) v i s"
  using assms team_at_paths [of p team] by (metis changed_onlyD enlisted_def singletonD)

lemma enlisted_put:
  assumes "enlisted (team_at p team) w i s" "out_id s' = i" "out_name s' = out_name s"
  shows "enlisted (team_at p team) (put (outside_file (team_at p team) i) (File (COutside s')) w) i s'"
  using assms by (simp add: enlisted_def)

lemma truncate_simps [simp]:
  "out_id (outside_registration.truncate s) = out_id s"
  "out_name (outside_registration.truncate s) = out_name s"
  by (cases s; simp add: outside_registration.truncate_def)+

text \<open>
  A step both \<^verbatim>\<open>RotateOutside\<close> and \<^verbatim>\<open>QueueOutside\<close> take under the team lock: find the
  registration by name and read its state.
\<close>

lemma wp_found_outside:
  assumes "lookup w (name_path t name) = Some (Link i)" "enlisted t w i s"
    and "\<And>bs. segment i \<Longrightarrow> wp (f (outside_registration.truncate s)) Q E (w\<lparr>faults := bs\<rparr>)"
    and "\<And>bs e. E e (w\<lparr>faults := bs\<rparr>)"
  shows "wp (ResolveOutside t name) (\<lambda>r. wp (f r) Q E) E w"
proof (rule wp_ResolveOutside, goal_cases)
  case (1 bs j s')
  then have j: "j = i" using assms(1) by simp
  from 1 assms(2) have "s' = s" unfolding j using enlisted_unique by blast
  then show ?case using assms(3) 1(3) j by simp
qed (rule assms(4))

lemma wp_outsideState_registered:
  assumes "enlisted t w i s"
    and "\<And>bs. segment i \<Longrightarrow> Q s (w\<lparr>faults := bs\<rparr>)" and "\<And>bs e. E e (w\<lparr>faults := bs\<rparr>)"
  shows "wp (outsideState t i) Q E w"
proof (rule wp_outsideState, goal_cases)
  case (1 bs s')
  then show ?case using assms(2) [OF 1(1)] enlisted_unique [OF assms(1) 1(2)] by simp
qed (rule assms(3))

lemma with_credential_simps [simp]:
  "out_id (with_credential s h g) = out_id s" "out_name (with_credential s h g) = out_name s"
  "ost_pending (with_credential s h g) = ost_pending s" "ost_generation (with_credential s h g) = g"
  "ost_credential_hash (with_credential s h g) = h"
  by (simp_all add: with_credential_def)

lemma wp_save_rotation:
  fixes Q :: "unit \<Rightarrow> world \<Rightarrow> bool" and E :: "err \<Rightarrow> world \<Rightarrow> bool"
  assumes t: "t = team_at p team" and i: "segment i"
    and w: "enlisted t w i s" "steady {} w v" "lookup w (components path) = None"
    and new: "out_id new = i" "out_name new = out_name s"
    and Q: "\<And>u. enlisted t u i new \<Longrightarrow> codec_of u = codec_of w \<Longrightarrow> Q () u"
    and E: "\<And>e u. enlisted t u i s \<or> enlisted t u i new \<Longrightarrow> E e u"
  shows "wp (save_rotation t new path origin) Q E v"
proof -
  have audit: "wp (auditCredential t k i n origin) Q E u"
    if "enlisted t u i new" "codec_of u = codec_of w" for k n u
    by (rule wp_auditCredential)
      (use that enlisted_log [of p team u i new] t in \<open>auto simp: changed_only_def intro!: Q E\<close>)
  have remove: "wp (os_remove (components path)) (\<lambda>q. E (f (Inr q))) (\<lambda>q. E (f (Inl q))) (v\<lparr>faults := bs\<rparr>)" for f bs
    by (rule wp_os_remove)
      (use w steady_del [OF w(3,2)] enlisted_steady [OF w(1)] in \<open>auto intro!: E\<close>)
  have "wp (atomicJSON (outside_file t i) (COutside new))
      (\<lambda>_. wp (auditCredential t ''outside_rotated'' i (out_name s) origin) Q E)
      (\<lambda>e. wp (os_remove (components path)) (\<lambda>q. E (Joined (e # errs_of (Inr q)))) (\<lambda>q. E (Joined (e # errs_of (Inl q :: err + unit))))) v"
  proof (rule wp_atomicJSON, goal_cases)
    case (1 bs)
    have "enlisted t (put (outside_file t i) (File (COutside new)) v) i new"
      using enlisted_put [OF enlisted_steady [OF w(1,2), unfolded t], of new] new t by simp
    then show ?case by (intro audit) (use w(2) in \<open>simp_all add: steady_def\<close>)
  next
    case (2 bs e)
    show ?case by (rule remove)
  qed
  then show ?thesis
    using i by (simp add: save_rotation_def outsidePath_def check_segment_def outside_file_def path_or_empty_def new)
qed

lemma wp_RotateOutside:
  fixes Q :: "unit \<Rightarrow> world \<Rightarrow> bool" and E :: "err \<Rightarrow> world \<Rightarrow> bool"
  assumes t: "t = team_at p team" and found: "lookup w (name_path t name) = Some (Link i)" "enlisted t w i s"
    and new: "new = with_credential s (sha256_hex (codec_of w) token) generation"
    and Q: "\<And>v. enlisted t v i new \<Longrightarrow> Q () v"
    and E: "\<And>e v. enlisted t v i s \<or> enlisted t v i new \<Longrightarrow> E e v"
  shows "wp (RotateOutside p team name path origin token generation) Q E w"
proof -
  let ?Q = "\<lambda>x u. \<forall>hs. Q x (u\<lparr>held := hs\<rparr>)" and ?E = "\<lambda>e u. \<forall>hs. E e (u\<lparr>held := hs\<rparr>)"
  have same: "out_id new = i" "out_name new = out_name s" by (simp_all add: new enlisted_id [OF found(2)])
  have body: "wp (issueOutsideCredential s path token generation) (\<lambda>issued. wp (save_rotation t issued path origin) ?Q ?E) ?E v"
    if v: "steady {} w v" "segment i" for v
  proof (rule wp_issueOutsideCredential, goal_cases)
    case (1 u)
    have codec: "codec_of v = codec_of w" using v(1) by (simp add: steady_def)
    show ?case
      unfolding codec new [symmetric]
      by (rule wp_save_rotation [OF t v(2) enlisted_steady [OF found(2) v(1)] 1 same]) (simp_all add: Q E)
  next
    case (2 e u)
    have "steady {} w u" using steady_trans [OF v(1) 2] by simp
    then show ?case using enlisted_steady [OF found(2)] by (auto intro!: E)
  qed
  have read: "wp (outsideState t i) (\<lambda>s. wp (issueOutsideCredential s path token generation)
      (\<lambda>issued. wp (save_rotation t issued path origin) ?Q ?E) ?E) ?E v"
    if v: "steady {} w v" for v
  proof (rule wp_outsideState_registered [OF enlisted_steady [OF found(2) v]], goal_cases)
    case (1 bs)
    show ?case by (rule body) (use v 1 in simp_all)
  qed (use enlisted_steady [OF found(2) v] in \<open>auto intro!: E\<close>)
  have search: "wp (ResolveOutside t name) (\<lambda>r. wp (and_then (outsideState t (out_id r))
      (\<lambda>s. and_then (issueOutsideCredential s path token generation) (\<lambda>issued. save_rotation t issued path origin))) ?Q ?E) ?E v"
    if v: "steady {} w v" for v
  proof (rule wp_found_outside [OF steady_lookup [OF v _ found(1)] enlisted_steady [OF found(2) v]], goal_cases)
    case (2 bs)
    show ?case
      unfolding truncate_simps enlisted_id [OF found(2)] wp_simps(5) by (rule read) (use v in simp)
  qed (use enlisted_steady [OF found(2) v] in \<open>auto intro!: E\<close>)
  show ?thesis
    unfolding RotateOutside_def wp_simps(5)
  proof (rule wp_validateCredentialOrigin, rule wp_locking_team)
    fix v assume v: "steady {} w v"
    show "wp (and_then (Team p team) (\<lambda>t. and_then (ResolveOutside t name) (\<lambda>r. and_then (outsideState t (out_id r))
      (\<lambda>s. and_then (issueOutsideCredential s path token generation) (\<lambda>issued. save_rotation t issued path origin))))) ?Q ?E v"
      unfolding wp_simps(5)
      by (rule wp_Team) (use search [OF v] enlisted_steady [OF found(2) v] in \<open>auto simp: t [symmetric] intro!: E\<close>)
  qed (use found(2) enlisted_steady in \<open>auto intro!: E\<close>)
qed

lemma outsideState_enlisted:
  "wp (outsideState t j) (\<lambda>s' u. enlisted t w j s' \<and> (\<exists>bs. u = w\<lparr>faults := bs\<rparr>)) (\<lambda>_ u. \<exists>bs. u = w\<lparr>faults := bs\<rparr>)
     (w\<lparr>faults := cs\<rparr>)"
  by (rule wp_outsideState) auto

lemma wp_find_principal:
  assumes "enlisted t w i s"
  shows "wp (find_principal t digest rs) (\<lambda>who _. out_id who = i \<longrightarrow> digest = ost_credential_hash s \<and> pri_generation who = ost_generation s)
    (\<lambda>_ _. True) (w\<lparr>faults := bs\<rparr>)"
proof (induction rs arbitrary: bs)
  case (Cons r rs)
  show ?case
    unfolding find_principal.simps wp_simps wp_attempt
  proof (rule wp_mono [OF outsideState_enlisted [of t "out_id r" w bs]], goal_cases)
    case (1 s' u)
    have "s' = s" if "out_id r = i" using 1 assms enlisted_unique that by blast
    then show ?case using 1 Cons.IH by (auto simp: principal_of_def)
  next
    case (2 e u)
    then show ?case using Cons.IH by auto
  qed
qed simp

lemma wp_ListOutside:
  "wp (ListOutside t) (\<lambda>_ u. \<exists>bs. u = w\<lparr>faults := bs\<rparr>) (\<lambda>_ u. \<exists>bs. u = w\<lparr>faults := bs\<rparr>) (w\<lparr>faults := cs\<rparr>)"
proof -
  have entry: "wp (read_listed_outside t x) (\<lambda>_ u. \<exists>bs. u = w\<lparr>faults := bs\<rparr>) (\<lambda>_ u. \<exists>bs. u = w\<lparr>faults := bs\<rparr>) v"
    if "\<exists>bs. v = w\<lparr>faults := bs\<rparr>" for x v
  proof -
    from that obtain bs where v: "v = w\<lparr>faults := bs\<rparr>" by blast
    show ?thesis
      unfolding read_listed_outside_def v by (auto intro!: wp_mono [OF outsideState_enlisted])
  qed
  show ?thesis
    unfolding ListOutside_def wp_simps wp_attempt
    by (rule wp_os_read_dir) (auto intro!: wp_mono [OF wp_collect [where I = "\<lambda>u. \<exists>bs. u = w\<lparr>faults := bs\<rparr>"]] entry)
qed

lemma cut_at:
  assumes "CHR ''.'' \<notin> set i"
  shows "cut (i @ ''.'' @ g) ''.'' = (i, g, True)"
  using assms by (induction i) (auto simp: has_prefix_def)

definition stale :: "outside_principal \<Rightarrow> hitch_id \<Rightarrow> string \<Rightarrow> bool" where
  "stale who i generation \<longleftrightarrow> out_id who = i \<and> pri_generation who \<noteq> generation"

lemma wp_never_ok: "wp m (\<lambda>_ _. False) (\<lambda>_ _. True) w \<Longrightarrow> \<exists>e. fst (m w) = Inl e"
  by (auto simp: wp_def split: prod.splits sum.splits)

lemma wp_current_state:
  assumes "enlisted t w i s"
  shows "wp (outsideState t i) (\<lambda>s' _. s' = s) (\<lambda>_ _. True) w"
  by (rule wp_outsideState_registered [OF assms]) simp_all

lemma stale_unresolved:
  assumes "t = team_at p team" "enlisted t w i s" "CHR ''.'' \<notin> set i" "stale who i (ost_generation s)"
  shows "wp (ResolveOutsidePrincipal p team (principal_string who)) (\<lambda>_ _. False) (\<lambda>_ _. True) w"
proof -
  have string: "principal_string who = i @ ''.'' @ pri_generation who" "pri_generation who \<noteq> ost_generation s"
    using assms(4) by (simp_all add: principal_string_def stale_def)
  have "wp (outsideState t i) (\<lambda>s'. wp (if pri_generation who \<noteq> ost_generation s' then raise OutsideUnauthorized
      else ret (principal_of (outside_registration.truncate s') (ost_generation s'))) (\<lambda>_ _. False) (\<lambda>_ _. True))
      (\<lambda>e. wp (if gone e then raise OutsideUnauthorized else raise e) (\<lambda>_ _. False) (\<lambda>_ _. True)) w"
    by (rule wp_mono [OF wp_current_state [OF assms(2)]]) (simp_all add: string(2))
  then show ?thesis
    unfolding ResolveOutsidePrincipal_def string(1) cut_at [OF assms(3)] wp_partial
    by (simp del: if_split, intro wp_Team) (simp_all add: assms(1))
qed

lemma stale_excluded:
  assumes "t = team_at p team" "enlisted t w i s" "CHR ''.'' \<notin> set i" "stale who i (ost_generation s)"
  shows "\<exists>e. fst (WithOutside p team who f w) = Inl e" "\<exists>e. fst (ReadOutsidePending p team who w) = Inl e"
proof -
  show "\<exists>e. fst (WithOutside p team who f w) = Inl e"
    unfolding WithOutside_def wp_partial
  proof (rule wp_never_ok, rule wp_locking_team)
    fix v assume "steady {} w v"
    then have "wp (ResolveOutsidePrincipal p team (principal_string who)) (\<lambda>_ _. False) (\<lambda>_ _. True) v"
      using stale_unresolved [OF assms(1) _ assms(3,4)] enlisted_steady [OF assms(2)] by blast
    then show "wp (and_then (ResolveOutsidePrincipal p team (principal_string who)) g)
        (\<lambda>x u. \<forall>hs. False) (\<lambda>e u. \<forall>hs. True) v" for g :: "outside_principal \<Rightarrow> unit io"
      unfolding wp_simps by (rule wp_mono) simp_all
  qed simp
  have "wp (outsideState t (out_id who)) (\<lambda>s'. wp (if out_name s' \<noteq> out_name who \<or> ost_generation s' \<noteq> pri_generation who
      then raise OutsideUnauthorized else ret (ost_pending s')) (\<lambda>_ _. False) (\<lambda>_ _. True))
      (\<lambda>e. wp (if gone e then raise OutsideUnauthorized else raise e) (\<lambda>_ _. False) (\<lambda>_ _. True)) w"
    using assms(4) by (intro wp_mono [OF wp_current_state [of t w "out_id who" s]]) (auto simp: stale_def assms(2))
  then show "\<exists>e. fst (ReadOutsidePending p team who w) = Inl e"
    unfolding ReadOutsidePending_def
    by (intro wp_never_ok) (simp, intro wp_Team, simp_all add: assms(1))
qed

lemma authenticated_current:
  assumes "t = team_at p team" "enlisted t w i s" "AuthenticateOutside p team other w = (Inr who, v)" "out_id who = i"
  shows "sha256_hex (codec_of w) other = ost_credential_hash s \<and> pri_generation who = ost_generation s"
proof -
  let ?good = "\<lambda>who. out_id who = i \<longrightarrow> sha256_hex (codec_of w) other = ost_credential_hash s
    \<and> pri_generation who = ost_generation s"
  have search: "wp (find_principal t (sha256_hex (codec_of w) other) rs) (\<lambda>who _. ?good who) (\<lambda>_ _. True) (w\<lparr>faults := bs\<rparr>)" for rs bs
    by (rule wp_mono [OF wp_find_principal [OF assms(2)]]) simp_all
  have "wp (ListOutside t) (\<lambda>rs. wp (outsideHash other) (\<lambda>d. wp (find_principal t d rs) (\<lambda>who _. ?good who) (\<lambda>_ _. True)) (\<lambda>_ _. True))
      (\<lambda>_ _. True) w"
    by (rule wp_mono [OF wp_ListOutside [of t w "faults w", simplified]]) (auto simp: outsideHash_def search)
  then have "wp (AuthenticateOutside p team other) (\<lambda>who _. ?good who) (\<lambda>_ _. True) w"
    unfolding AuthenticateOutside_def wp_simps by (intro wp_Team) (simp_all add: assms(1))
  from wp_okD [OF this assms(3)] assms(4) show ?thesis by blast
qed

text \<open>
  C38 (rotation_revokes): once \<^verbatim>\<open>RotateOutside\<close> has returned without error, the
  registration has the new hash and generation and still every pending envelope; from then
  on, whatever fails, no principal of an earlier generation runs a callback of
  \<^verbatim>\<open>WithOutside\<close> or reads the mailbox, and only a token with the new hash authenticates
  as that identity.
\<close>

theorem rotation_revokes:
  assumes "t = team_at p team" "lookup w (name_path t name) = Some (Link i)" "enlisted t w i s"
    and "CHR ''.'' \<notin> set i"
    and "RotateOutside p team name path origin token generation w = (Inr (), w')"
  shows "enlisted t w' i (with_credential s (sha256_hex (codec_of w) token) generation)
    \<and> (stale who i generation \<longrightarrow>
        (\<exists>e. fst (WithOutside p team who f (w'\<lparr>faults := bs\<rparr>)) = Inl e)
        \<and> (\<exists>e. fst (ReadOutsidePending p team who (w'\<lparr>faults := bs\<rparr>)) = Inl e))
    \<and> (AuthenticateOutside p team other (w'\<lparr>faults := bs\<rparr>) = (Inr who, v) \<and> out_id who = i \<longrightarrow>
        sha256_hex (codec_of w') other = sha256_hex (codec_of w) token \<and> pri_generation who = generation)"
proof -
  let ?new = "with_credential s (sha256_hex (codec_of w) token) generation"
  have "wp (RotateOutside p team name path origin token generation) (\<lambda>_ v. enlisted t v i ?new) (\<lambda>_ _. True) w"
    by (rule wp_RotateOutside [OF assms(1-3) refl]) simp_all
  from wp_okD [OF this assms(5)] have new: "enlisted t w' i ?new" .
  then have now: "enlisted t (w'\<lparr>faults := bs\<rparr>) i ?new" by simp
  show ?thesis
    using new stale_excluded [OF assms(1) now assms(4)] authenticated_current [OF assms(1) now] by auto
qed

lemma wp_Append:
  assumes "\<And>w'. changed_only {tp_log t} w w' \<Longrightarrow> Q () w'" and "\<And>e w'. changed_only {tp_log t} w w' \<Longrightarrow> E e w'"
  shows "wp (Append t ev) Q E w"
  unfolding Append_def
  by (rule wp_appendEvent)
    (auto simp: log_appended_def log_extended_def dest!: log_grown_extended intro!: assms)

lemma wp_append_all:
  assumes "\<And>rs w'. changed_only {tp_log t} w w' \<Longrightarrow> Q rs w'"
  shows "wp (append_all t es) Q E w"
  using assms
proof (induction es arbitrary: w Q)
  case (Cons e es)
  have later: "wp (append_all t es) (\<lambda>rs. Q (f @ rs)) E v" if "changed_only {tp_log t} w v" for f v
    by (rule Cons.IH) (rule Cons.prems, rule changed_only_trans [OF that], assumption, simp)
  show ?case
    unfolding append_all.simps wp_simps wp_attempt
    by (rule wp_Append) (simp_all only: later)
qed simp

lemma queued_fields [simp]:
  "outside_queue s e = Some q \<Longrightarrow> out_id q = out_id s"
  "outside_queue s e = Some q \<Longrightarrow> out_name q = out_name s"
  by (auto simp: outside_queue_iff split: if_splits)

lemma wp_queue_for:
  assumes t: "t = team_at p team" and v: "enlisted t v i s"
    and Q: "\<And>u q. outside_queue s e = Some q \<Longrightarrow> enlisted t u i q \<Longrightarrow> Q () u"
    and E: "\<And>x u. enlisted t u i s \<or> (\<exists>q. outside_queue s e = Some q \<and> enlisted t u i q) \<Longrightarrow> E x u"
  shows "wp (queue_for t e (outside_registration.truncate s)) Q E v"
proof -
  have save: "wp (atomicJSON (outside_file t i) (COutside q)) (\<lambda>_. wp (Append t ev) Q E) E u"
    if u: "enlisted t u i s" and q: "outside_queue s e = Some q" for u q ev
  proof (rule wp_atomicJSON, goal_cases)
    case (1 bs)
    have new: "enlisted t (put (outside_file t i) (File (COutside q)) u) i q"
      using enlisted_put [of p team u i s q] u q enlisted_id [OF u] unfolding t by simp
    show ?case
      by (rule wp_Append)
        (use enlisted_log [of p team _ i q] new t q in \<open>auto intro!: Q [OF q] E\<close>)
  qed (use u in \<open>auto intro!: E\<close>)
  have "wp (outsideState t i) (\<lambda>state. wp (case outside_queue state e of
         None \<Rightarrow> raise EnvelopeQueued
       | Some queued \<Rightarrow> and_then (attempt (outsidePath t i)) (\<lambda>path.
           and_then (atomicJSON (path_or_empty path) (COutside queued)) (\<lambda>_. Append t ev))) Q E) E v" for ev
  proof (rule wp_outsideState_registered [OF v], goal_cases)
    case (1 bs)
    have "outsidePath t i = ret (outside_file t i)"
      using 1 by (simp add: outsidePath_def check_segment_def outside_file_def and_then_def ret_def fun_eq_iff)
    then show ?case
      using save [of "v\<lparr>faults := bs\<rparr>"] v by (auto simp: path_or_empty_def intro!: E split: option.split)
  qed (use v in \<open>auto intro!: E\<close>)
  then show ?thesis
    unfolding queue_for_def truncate_simps enlisted_id [OF v] using v by (simp add: E)
qed

lemma wp_QueueOutside:
  fixes Q :: "unit \<Rightarrow> world \<Rightarrow> bool" and E :: "err \<Rightarrow> world \<Rightarrow> bool"
  assumes t: "t = team_at p team" and found: "lookup w (name_path t name) = Some (Link i)" "enlisted t w i s"
    and Q: "\<And>v q. outside_queue s e = Some q \<Longrightarrow> enlisted t v i q \<Longrightarrow> Q () v"
    and E: "\<And>x v. enlisted t v i s \<or> (\<exists>q. outside_queue s e = Some q \<and> enlisted t v i q) \<Longrightarrow> E x v"
  shows "wp (QueueOutside p team name e) Q E w"
proof -
  let ?Q = "\<lambda>x u. \<forall>hs. Q x (u\<lparr>held := hs\<rparr>)" and ?E = "\<lambda>e u. \<forall>hs. E e (u\<lparr>held := hs\<rparr>)"
  have body: "wp (queue_for t e (outside_registration.truncate s)) ?Q ?E v" if v: "enlisted t v i s" for v
    by (rule wp_queue_for [OF t v]) (use Q E in auto)
  have search: "wp (ResolveOutside t name) (\<lambda>r. wp (queue_for t e r) ?Q ?E) ?E v" if v: "steady {} w v" for v
  proof (rule wp_found_outside [OF steady_lookup [OF v _ found(1)] enlisted_steady [OF found(2) v]], goal_cases)
    case (2 bs)
    show ?case by (rule body) (use enlisted_steady [OF found(2) v] in simp)
  qed (use enlisted_steady [OF found(2) v] in \<open>auto intro!: E\<close>)
  show ?thesis
    unfolding QueueOutside_def
  proof (rule wp_locking_team)
    fix v assume v: "steady {} w v"
    show "wp (and_then (Team p team) (\<lambda>t. and_then (ResolveOutside t name) (queue_for t e))) ?Q ?E v"
      unfolding wp_simps(5)
      by (rule wp_Team, unfold t [symmetric], rule search [OF v])
        (use enlisted_steady [OF found(2) v] in \<open>auto intro!: E\<close>)
  qed (use found(2) enlisted_steady in \<open>auto intro!: E\<close>)
qed

lemma wp_Ack:
  assumes t: "t = team_at p team" and w: "enlisted t w i s"
    and m: "mbx_state m = s" "mbx_path m = outside_file t i" "mbx_team m = t"
    and Q: "\<And>x u. enlisted t u i (outside_ack s ids) \<Longrightarrow> Q (x, m\<lparr>mbx_state := outside_ack s ids\<rparr>) u"
    and E: "\<And>x u. enlisted t u i s \<Longrightarrow> E x u"
  shows "wp (Ack m ids moment) Q E w"
proof -
  let ?new = "outside_ack s ids"
  have same: "out_id ?new = i" "out_name ?new = out_name s"
    by (simp_all add: outside_ack_def enlisted_id [OF w])
  have audit: "wp (append_all t es) (\<lambda>f. Q (if f = [] then None else Some (Joined f), m\<lparr>mbx_state := ?new\<rparr>)) E u"
    if "enlisted t u i ?new" for es u
    by (rule wp_append_all) (use that enlisted_log [of p team u i ?new] t in \<open>auto intro!: Q\<close>)
  have "wp (atomicJSON (outside_file t i) (COutside ?new)) (\<lambda>_. wp (append_all t es)
      (\<lambda>f. Q (if f = [] then None else Some (Joined f), m\<lparr>mbx_state := ?new\<rparr>)) E) E w" for es
  proof (rule wp_atomicJSON, goal_cases)
    case (1 bs)
    show ?case by (rule audit) (use enlisted_put [of p team w i s ?new] w same t in simp)
  qed (use w in \<open>simp add: E\<close>)
  then show ?thesis by (simp add: Ack_def Let_def m)
qed

text \<open>
  C37 (mailbox_on_disk): whatever fails, \<^verbatim>\<open>QueueOutside\<close> leaves the file of the registration
  as it was and returns an error, or takes the envelope into it exactly as the queue step
  does; \<^verbatim>\<open>Ack\<close> leaves it as it was and returns an error, or removes exactly the named
  envelopes from the file and from the mailbox in memory, even when the audit of them fails.
\<close>

theorem mailbox_on_disk:
  assumes "t = team_at p team" "lookup w (name_path t name) = Some (Link i)" "enlisted t w i s"
    and "mbx_state m = s" "mbx_path m = outside_file t i" "mbx_team m = t"
  shows "(case QueueOutside p team name e w of
       (Inr _, w') \<Rightarrow> outside_queue s e \<noteq> None \<and> enlisted t w' i (mail_step s (MailQueue e))
     | (Inl _, w') \<Rightarrow> enlisted t w' i s \<or> enlisted t w' i (mail_step s (MailQueue e)))
    \<and> (case Ack m ids moment w of
       (Inr (_, m'), w') \<Rightarrow> mbx_state m' = mail_step s (MailAck ids) \<and> enlisted t w' i (mbx_state m')
     | (Inl _, w') \<Rightarrow> enlisted t w' i s)"
proof -
  have "wp (QueueOutside p team name e)
      (\<lambda>_ w'. outside_queue s e \<noteq> None \<and> enlisted t w' i (mail_step s (MailQueue e)))
      (\<lambda>_ w'. enlisted t w' i s \<or> enlisted t w' i (mail_step s (MailQueue e))) w"
    by (rule wp_QueueOutside [OF assms(1-3)]) auto
  moreover have "wp (Ack m ids moment)
      (\<lambda>(_, m') w'. mbx_state m' = mail_step s (MailAck ids) \<and> enlisted t w' i (mbx_state m'))
      (\<lambda>_ w'. enlisted t w' i s) w"
    by (rule wp_Ack [OF assms(1,3-6)]) simp_all
  ultimately show ?thesis
    by (auto simp: wp_def split: prod.splits sum.splits)
qed

section \<open>Concrete runs\<close>

definition demo_root :: paths where
  "demo_root = \<lparr>root = ''r''\<rparr>"

definition demo_outside :: outside_state where
  "demo_outside = \<lparr>out_id = ''outside-x'', out_name = ''bot'', out_created = None,
     ost_credential_hash = replicate 64 (CHR ''a''), ost_generation = ''g0'', ost_pending = []\<rparr>"

definition demo_outside_world :: world where
  "demo_outside_world = demo_world open_codec
     [([''r''], Dir), ([''r'', ''teams''], Dir), ([''r'', ''teams'', ''t''], Dir), ([''r'', ''team-locks''], Dir),
      ([''r'', ''teams'', ''t'', ''names''], Dir), ([''r'', ''teams'', ''t'', ''outside''], Dir),
      ([''r'', ''teams'', ''t'', ''names'', ''bot''], Link ''outside-x''),
      ([''r'', ''teams'', ''t'', ''outside'', ''outside-x.json''], File (COutside demo_outside))]"

lemma demo_components:
  "components ''r'' = [''r'']" "components ''t'' = [''t'']" "components ''bot'' = [''bot'']"
  "components ''/k'' = [''k'']" "components ''t.lock'' = [''t.lock'']"
  "components ''outside-x.json'' = [''outside-x.json'']"
  by (simp_all add: components_def separator_def)

lemma demo_outside_paths:
  "team_at demo_root ''t'' = team_of [''r'', ''teams'', ''t'']"
  "team_lock demo_root ''t'' = [''r'', ''team-locks'', ''t.lock'']"
  "outside_file (team_of [''r'', ''teams'', ''t'']) ''outside-x'' = [''r'', ''teams'', ''t'', ''outside'', ''outside-x.json'']"
  "name_path (team_of [''r'', ''teams'', ''t'']) ''bot'' = [''r'', ''teams'', ''t'', ''names'', ''bot'']"
  by (simp_all add: team_at_def demo_root_def join_path_def demo_components team_lock_def outside_file_def team_of_def name_path_def)

lemma demo_outside_world_simps [simp]:
  "faults demo_outside_world = []" "shorts demo_outside_world = []" "busy demo_outside_world = []"
  "held demo_outside_world = []" "codec_of demo_outside_world = open_codec"
  by (simp_all add: demo_outside_world_def)

lemma demo_enlisted:
  "lookup demo_outside_world (name_path (team_of [''r'', ''teams'', ''t'']) ''bot'') = Some (Link ''outside-x'')"
  "enlisted (team_of [''r'', ''teams'', ''t'']) demo_outside_world ''outside-x'' demo_outside"
  by (simp_all add: enlisted_def demo_outside_paths demo_outside_def demo_outside_world_def lookup_def del: name_path_team)

theorem mailbox_exactly_once_witness:
  "let e = blank_envelope\<lparr>env_id := ''1''\<rparr>; ops = [MailQueue e, MailQueue e, MailAck [''2'']]
   in ost_pending (mail_run demo_outside ops) = [e] \<and> live demo_outside ops e"
proof -
  let ?e = "blank_envelope\<lparr>env_id := ''1''\<rparr>"
  let ?ops = "[MailQueue ?e, MailQueue ?e, MailAck [''2'']]"
  have "ost_pending demo_outside = []" by (simp add: demo_outside_def)
  from mailbox_exactly_once [OF this, of ?ops]
  have "?e \<in> set (ost_pending (mail_run demo_outside ?ops)) \<longleftrightarrow> live demo_outside ?ops ?e" by blast
  moreover have "ost_pending (mail_run demo_outside ?ops) = [?e]"
    by (simp add: mail_run_def outside_queue_def outside_ack_def demo_outside_def)
  ultimately show ?thesis by (simp add: Let_def)
qed

lemma demo_lookup [simp]:
  "lookup demo_outside_world q = map_of
     [([''r''], Dir), ([''r'', ''teams''], Dir), ([''r'', ''teams'', ''t''], Dir), ([''r'', ''team-locks''], Dir),
      ([''r'', ''teams'', ''t'', ''names''], Dir), ([''r'', ''teams'', ''t'', ''outside''], Dir),
      ([''r'', ''teams'', ''t'', ''names'', ''bot''], Link ''outside-x''),
      ([''r'', ''teams'', ''t'', ''outside'', ''outside-x.json''], File (COutside demo_outside))] q"
  by (simp add: demo_outside_world_def lookup_def)

lemma demo_segments:
  "check_segment ''t'' = ret ()" "check_segment ''bot'' = ret ()" "check_segment ''outside-x'' = ret ()"
  by (simp_all add: check_segment_def segment_iff plain_segment_def separator_def)

lemma demo_Team: "Team demo_root ''t'' = ret (team_of [''r'', ''teams'', ''t''])"
  by (simp add: Team_def demo_root_def demo_segments and_then_def ret_def fun_eq_iff join_path_def demo_components)

lemma demo_outsidePath:
  "outsidePath (team_of [''r'', ''teams'', ''t'']) ''outside-x'' = ret [''r'', ''teams'', ''t'', ''outside'', ''outside-x.json'']"
  by (simp add: outsidePath_def demo_segments and_then_def ret_def fun_eq_iff join_path_def demo_components team_of_def)

lemma demo_outsideState:
  assumes "faults v = []" "lookup v [''r'', ''teams'', ''t'', ''names'', ''bot''] = Some (Link ''outside-x'')"
    and "lookup v [''r'', ''teams'', ''t'', ''outside'', ''outside-x.json''] = Some (File (COutside demo_outside))"
  shows "outsideState (team_of [''r'', ''teams'', ''t'']) ''outside-x'' v = (Inr demo_outside, v)"
    "ResolveOutside (team_of [''r'', ''teams'', ''t'']) ''bot'' v = (Inr (outside_registration.truncate demo_outside), v)"
proof -
  have name: "ResolveName (team_of [''r'', ''teams'', ''t'']) ''bot'' v = (Inr ''outside-x'', v)"
    by (simp add: ResolveName_def demo_segments and_then_def ret_def os_readlink_def sys_quiet assms demo_components)
  show state: "outsideState (team_of [''r'', ''teams'', ''t'']) ''outside-x'' v = (Inr demo_outside, v)"
    using name
    by (simp add: outsideState_def demo_outsidePath and_then_def ret_def readJSON_quiet assms as_outside_def demo_outside_def)
  show "ResolveOutside (team_of [''r'', ''teams'', ''t'']) ''bot'' v = (Inr (outside_registration.truncate demo_outside), v)"
    by (simp add: ResolveOutside_def name and_then_def state ret_def has_prefix_def)
qed

lemma demo_LockTeam:
  "\<exists>v. LockTeam demo_root ''t'' demo_outside_world = (Inr (), v) \<and> faults v = [] \<and> shorts v = [] \<and> codec_of v = open_codec
     \<and> (\<forall>q. q \<noteq> [''r'', ''team-locks'', ''t.lock''] \<longrightarrow> lookup v q = lookup demo_outside_world q)"
  by (simp add: LockTeam_def demo_segments and_then_def ret_def os_mkdir_all_def act_quiet demo_root_def demo_components
      os_open_create_def team_lock_def join_path_def is_dir_def updates_def)

lemma demo_lookups:
  assumes "\<forall>q. q \<noteq> [''r'', ''team-locks'', ''t.lock''] \<longrightarrow> lookup v q = lookup demo_outside_world q"
  shows "lookup v [''r'', ''teams'', ''t'', ''names'', ''bot''] = Some (Link ''outside-x'')"
    "lookup v [''r'', ''teams'', ''t'', ''outside'', ''outside-x.json''] = Some (File (COutside demo_outside))"
    "lookup v [''r'', ''teams'', ''t'', ''outside''] = Some Dir" "lookup v [''r'', ''teams'', ''t''] = Some Dir"
    "lookup v [''r'', ''teams'', ''t'', ''log.jsonl''] = None" "lookup v [''k''] = None"
  using assms by simp_all

lemma locking_done:
  assumes "LockTeam p team w = (Inr (), v)" "fst (body v) = Inr ()"
  shows "fst (locking_team p team body w) = Inr ()"
  using assms by (cases "body v") (simp add: locking_team_def and_then_def attempt_def lift_def UnlockTeam_def updates_def)

lemma demo_rotation:
  "fst (RotateOutside demo_root ''t'' ''bot'' ''/k'' demo_origin ''new'' ''g1'' demo_outside_world) = Inr ()"
proof -
  obtain v where v: "LockTeam demo_root ''t'' demo_outside_world = (Inr (), v)" "faults v = []" "shorts v = []"
      "codec_of v = open_codec" and files: "\<forall>q. q \<noteq> [''r'', ''team-locks'', ''t.lock''] \<longrightarrow> lookup v q = lookup demo_outside_world q"
    using demo_LockTeam by blast
  note found = demo_lookups [OF files]
  have origin: "validateCredentialOrigin demo_origin demo_outside_world = (Inr (), demo_outside_world)"
    by (simp add: validateCredentialOrigin_def demo_origin_def and_then_def reads_def lift_def ret_def)
  have "fst (save_rotation (team_of [''r'', ''teams'', ''t'']) (with_credential demo_outside ''new'' ''g1'') ''/k'' demo_origin u) = Inr ()"
    if "faults u = []" "shorts u = []" "codec_of u = open_codec" "\<forall>q. q \<noteq> [''k''] \<longrightarrow> lookup u q = lookup v q" for u
    using that found by (simp add: save_rotation_def and_then_def attempt_def demo_outside_def demo_outsidePath ret_def
        path_or_empty_def atomicJSON_quiet is_dir_def auditCredential_def Append_def appendEvent_def reads_def lift_def
        os_open_create_def act_quiet os_append_def sys_quiet)
  then have "fst (and_then (issueOutsideCredential demo_outside ''/k'' ''new'' ''g1'')
      (\<lambda>issued. save_rotation (team_of [''r'', ''teams'', ''t'']) issued ''/k'' demo_origin) v) = Inr ()"
    using v found by (simp add: issueOutsideCredential_def has_prefix_def outsideRandom_def and_then_def sys_quiet ret_def
        demo_components os_create_excl_def act_quiet is_dir_def attempt_def write_credential_def os_append_def
        close_credential_def errs_of_def outsideHash_def reads_def)
  then have "fst (and_then (Team demo_root ''t'') (\<lambda>t. and_then (ResolveOutside t ''bot'') (\<lambda>r. and_then (outsideState t (out_id r))
      (\<lambda>s. and_then (issueOutsideCredential s ''/k'' ''new'' ''g1'') (\<lambda>issued. save_rotation t issued ''/k'' demo_origin)))) v) = Inr ()"
    using demo_outsideState [OF v(2) found(1,2)]
    by (simp add: and_then_def demo_Team ret_def enlisted_id [OF demo_enlisted(2)])
  then show ?thesis
    unfolding RotateOutside_def and_then_Inr [where m = "validateCredentialOrigin demo_origin", OF origin]
    by (rule locking_done [OF v(1)])
qed

theorem rotation_revokes_witness:
  "\<exists>w'. enlisted (team_at demo_root ''t'') w' ''outside-x'' (with_credential demo_outside ''new'' ''g1'')
    \<and> (\<exists>e. fst (ReadOutsidePending demo_root ''t'' (principal_of (outside_registration.truncate demo_outside) ''g0'') w') = Inl e)"
proof -
  let ?w = "snd (RotateOutside demo_root ''t'' ''bot'' ''/k'' demo_origin ''new'' ''g1'' demo_outside_world)"
  let ?who = "principal_of (outside_registration.truncate demo_outside) ''g0''"
  have run: "RotateOutside demo_root ''t'' ''bot'' ''/k'' demo_origin ''new'' ''g1'' demo_outside_world = (Inr (), ?w)"
    using demo_rotation by (simp add: prod_eq_iff)
  have "stale ?who ''outside-x'' ''g1''"
    by (simp add: stale_def principal_of_def enlisted_id [OF demo_enlisted(2)])
  then have "enlisted (team_of [''r'', ''teams'', ''t'']) ?w ''outside-x'' (with_credential demo_outside ''new'' ''g1'')
      \<and> (\<exists>e. fst (ReadOutsidePending demo_root ''t'' ?who ?w) = Inl e)"
    using rotation_revokes [OF demo_outside_paths(1) [symmetric] demo_enlisted _ run, of ?who _ "faults ?w"] by simp
  then show ?thesis unfolding demo_outside_paths(1) by (rule exI)
qed

lemma demo_queue:
  "fst (QueueOutside demo_root ''t'' ''bot'' (blank_envelope\<lparr>env_id := ''1'', env_recipient := ''outside-x'', env_to := ''bot''\<rparr>)
    demo_outside_world) = Inr ()"
proof -
  obtain v where v: "LockTeam demo_root ''t'' demo_outside_world = (Inr (), v)" "faults v = []" "shorts v = []"
      "codec_of v = open_codec" and files: "\<forall>q. q \<noteq> [''r'', ''team-locks'', ''t.lock''] \<longrightarrow> lookup v q = lookup demo_outside_world q"
    using demo_LockTeam by blast
  note found = demo_lookups [OF files]
  have queue: "outside_queue demo_outside e = Some (demo_outside\<lparr>ost_pending := [e]\<rparr>)" for e
    by (simp add: outside_queue_def demo_outside_def)
  have "out_name demo_outside = ''bot''" by (simp add: demo_outside_def)
  then show ?thesis
    unfolding QueueOutside_def
    using demo_outsideState [OF v(2) found(1,2)] v found
    by (intro locking_done [OF v(1)]) (simp add: and_then_def demo_Team ret_def queue_for_def
        enlisted_id [OF demo_enlisted(2)] queue attempt_def demo_outsidePath path_or_empty_def atomicJSON_quiet is_dir_def
        Append_def appendEvent_def reads_def lift_def os_open_create_def act_quiet os_append_def sys_quiet)
qed

theorem mailbox_on_disk_witness:
  "let e = blank_envelope\<lparr>env_id := ''1'', env_recipient := ''outside-x'', env_to := ''bot''\<rparr>
   in case QueueOutside demo_root ''t'' ''bot'' e demo_outside_world of
       (Inr _, w') \<Rightarrow> enlisted (team_at demo_root ''t'') w' ''outside-x'' (demo_outside\<lparr>ost_pending := [e]\<rparr>)
     | (Inl _, w') \<Rightarrow> False"
proof -
  let ?e = "blank_envelope\<lparr>env_id := ''1'', env_recipient := ''outside-x'', env_to := ''bot''\<rparr>"
  let ?m = "\<lparr>mbx_registration = outside_registration.truncate demo_outside, mbx_state = demo_outside,
    mbx_path = outside_file (team_of [''r'', ''teams'', ''t'']) ''outside-x'', mbx_data_directory = [],
    mbx_team = team_of [''r'', ''teams'', ''t'']\<rparr>"
  have "mail_step demo_outside (MailQueue ?e) = demo_outside\<lparr>ost_pending := [?e]\<rparr>"
    by (simp add: outside_queue_def demo_outside_def)
  then show ?thesis
    using mailbox_on_disk [OF demo_outside_paths(1) [symmetric] demo_enlisted, of ?m ?e] demo_queue
    by (auto simp: Let_def demo_outside_paths(1) simp del: mail_step.simps split: prod.splits sum.splits)
qed

end
