(* ===== verification/Harness_Queue.thy ===== *)
theory Harness_Queue
  imports Event_Log Go_Strings
begin

text \<open>
  The queue of prompts a harness keeps behind a running turn, as it can be read from the
  transcript (\<^verbatim>\<open>harness/queued.go\<close>, \<^verbatim>\<open>boundedTranscriptStart\<close> of \<^verbatim>\<open>harness/transcript.go\<close>).
  A transcript is the bytes of its file; decoding JSON is a parameter, as in the store.
\<close>

section \<open>Records of a transcript\<close>

record invocation =
  inv_name :: string
  inv_params :: "(string \<times> string) list"

text \<open>Reading a Go map of strings: a missing key is the empty string.\<close>

definition param :: "invocation \<Rightarrow> string \<Rightarrow> string" where
  "param iv k = (case map_of (inv_params iv) k of None \<Rightarrow> '''' | Some v \<Rightarrow> v)"

text \<open>\<^verbatim>\<open>json.RawMessage\<close> fields are the bytes of the value; the turn position is its index.\<close>

record queue_record =
  qr_type :: string
  qr_subtype :: string
  qr_operation :: string
  qr_prompt_id :: string
  qr_timestamp :: time
  qr_content :: string
  qr_message :: string
  qr_prompt_source :: string
  qr_sidechain :: bool
  qr_meta :: bool
  qr_compact_summary :: bool
  qr_turn_position :: "int option"

record transcript_codec =
  record_of :: "string \<Rightarrow> queue_record option"     \<comment> \<open>\<^verbatim>\<open>json.Unmarshal\<close> of a line\<close>
  content_of :: "string \<Rightarrow> string option"          \<comment> \<open>the content member of a message\<close>
  string_of :: "string \<Rightarrow> string option"           \<comment> \<open>the value of a JSON string\<close>

definition record_text :: "transcript_codec \<Rightarrow> queue_record \<Rightarrow> string" where
  "record_text c r =
     (case (if qr_type r = ''user'' then content_of c (qr_message r) else Some (qr_content r)) of
        None \<Rightarrow> ''''
      | Some content \<Rightarrow> (case string_of c content of None \<Rightarrow> '''' | Some t \<Rightarrow> t))"

definition startsPrompt :: "queue_record \<Rightarrow> bool" where
  "startsPrompt r \<longleftrightarrow> qr_type r = ''user'' \<and> qr_prompt_id r \<noteq> '''' \<and> \<not> qr_sidechain r \<and> \<not> qr_meta r
     \<and> \<not> qr_compact_summary r"

section \<open>Reading the transcript\<close>

definition transcriptWindow :: int where
  "transcriptWindow = 4 * 2 ^ 20"

text \<open>The bytes up to and with the first newline, or all of them.\<close>

fun first_line :: "string \<Rightarrow> string" where
  "first_line [] = []"
| "first_line (c # cs) = (if c = newline then [c] else c # first_line cs)"

definition boundedTranscriptStart :: "string \<Rightarrow> int \<Rightarrow> int \<Rightarrow> int" where
  "boundedTranscriptStart data start len =
     (if len - start \<le> transcriptWindow then start
      else let s = len - transcriptWindow in s + int (length (first_line (drop (nat s) (take (nat len) data)))))"

fun decode_records :: "transcript_codec \<Rightarrow> string list \<Rightarrow> err + queue_record list" where
  "decode_records c [] = Inr []"
| "decode_records c (l # ls) =
     (case record_of c l of
        None \<Rightarrow> Inl (Fail ''decode transcript queue record'')
      | Some r \<Rightarrow> (case decode_records c ls of
          Inl e \<Rightarrow> Inl e
        | Inr rs \<Rightarrow> Inr (if qr_timestamp r \<noteq> zero_time then r # rs else rs)))"

text \<open>
  A last line without its newline is not read. \<^verbatim>\<open>sort.SliceStable\<close> is the stable sort of
  the library. Opening the transcript is an argument: its bytes, or the error.
\<close>

definition claudeQueueRecords :: "transcript_codec \<Rightarrow> err + string \<Rightarrow> err + queue_record list" where
  "claudeQueueRecords c file =
     (case file of
        Inl e \<Rightarrow> Inl e
      | Inr data \<Rightarrow>
          let start = boundedTranscriptStart data 0 (int (length data)) in
          (case decode_records c (fst (split_lines (drop (nat start) data))) of
             Inl e \<Rightarrow> Inl e
           | Inr rs \<Rightarrow> Inr (sort_key qr_timestamp rs)))"

definition queuedTurnSource :: "invocation \<Rightarrow> err + string" where
  "queuedTurnSource iv =
     (let v = param iv ''queued_turns'' in
      if v = '''' \<or> v = ''claude-transcript'' then Inr v
      else Inl (Fail ''turn boundary queued_turns is not claude-transcript''))"

section \<open>The queue\<close>

text \<open>
  The counter is a Go \<^verbatim>\<open>int\<close>; it is at most the number of records of a bounded tail, so it
  is a natural number here, and \<^verbatim>\<open>max(q.queued-1, 0)\<close> is subtraction on them.
\<close>

record claude_queue =
  cq_queued :: nat
  cq_dequeued :: time

definition empty_queue :: claude_queue where
  "empty_queue = \<lparr>cq_queued = 0, cq_dequeued = zero_time\<rparr>"

definition replay :: "claude_queue \<Rightarrow> queue_record \<Rightarrow> claude_queue" where
  "replay q r =
     (if qr_operation r = ''enqueue'' then q\<lparr>cq_queued := cq_queued q + 1\<rparr>
      else if qr_operation r = ''remove'' then q\<lparr>cq_queued := cq_queued q - 1\<rparr>
      else if qr_operation r = ''dequeue''
        then q\<lparr>cq_queued := cq_queued q - 1, cq_dequeued := qr_timestamp r\<rparr>
      else if qr_operation r = ''popAll'' then q\<lparr>cq_queued := 0\<rparr>
      else q)"

record pending_scan =
  ps_queue :: claude_queue
  ps_ended :: bool
  ps_turn_seen :: time
  ps_prompts :: "string list"

definition scan_start :: pending_scan where
  "scan_start = \<lparr>ps_queue = empty_queue, ps_ended = False, ps_turn_seen = zero_time, ps_prompts = []\<rparr>"

definition new_prompt :: "queue_record \<Rightarrow> pending_scan \<Rightarrow> pending_scan" where
  "new_prompt r s =
     (if qr_prompt_id r \<notin> set (ps_prompts s) \<and> startsPrompt r
      then let s1 = s\<lparr>ps_prompts := qr_prompt_id r # ps_prompts s\<rparr> in
        if ps_ended s then s1\<lparr>ps_queue := (ps_queue s)\<lparr>cq_queued := 0\<rparr>, ps_ended := False\<rparr> else s1
      else s)"

definition pending_step :: "string \<Rightarrow> queue_record \<Rightarrow> pending_scan \<Rightarrow> pending_scan" where
  "pending_step turn r s =
     (if qr_sidechain r then s
      else if qr_type r = ''queue-operation''
        then s\<lparr>ps_queue := replay (ps_queue s) r,
               ps_ended := (if qr_operation r = ''dequeue'' then False else ps_ended s)\<rparr>
      else if qr_type r = ''system'' \<and> (qr_subtype r = ''stop_hook_summary'' \<or> qr_subtype r = ''turn_duration'')
        then s\<lparr>ps_ended := True\<rparr>
      else if qr_type r = ''user'' \<and> qr_prompt_id r \<noteq> ''''
        then let s1 = new_prompt r s in
          if qr_prompt_id r = turn then s1\<lparr>ps_turn_seen := qr_timestamp r\<rparr> else s1
      else s)"

definition pending_verdict :: "pending_scan \<Rightarrow> bool" where
  "pending_verdict s \<longleftrightarrow> cq_queued (ps_queue s) > 0
     \<or> ps_turn_seen s \<noteq> zero_time \<and> cq_dequeued (ps_queue s) > ps_turn_seen s"

text \<open>
  The beginning the three readers share: no source or no transcript answers without
  reading; otherwise the records are read.
\<close>

definition with_records :: "transcript_codec \<Rightarrow> (string \<Rightarrow> err + string) \<Rightarrow> invocation \<Rightarrow> string \<Rightarrow> 'a
    \<Rightarrow> (queue_record list \<Rightarrow> 'a) \<Rightarrow> err + 'a" where
  "with_records c opens iv transcript none f =
     (case queuedTurnSource iv of
        Inl e \<Rightarrow> Inl e
      | Inr source \<Rightarrow>
          if source = '''' \<or> transcript = '''' then Inr none
          else (case claudeQueueRecords c (opens transcript) of Inl e \<Rightarrow> Inl e | Inr rs \<Rightarrow> Inr (f rs)))"

definition QueuedTurnPending :: "transcript_codec \<Rightarrow> (string \<Rightarrow> err + string) \<Rightarrow> invocation \<Rightarrow> string \<Rightarrow> string
    \<Rightarrow> err + bool" where
  "QueuedTurnPending c opens iv transcript turn =
     with_records c opens iv transcript False
       (\<lambda>rs. pending_verdict (fold (pending_step turn) rs scan_start))"

section \<open>The order of turns\<close>

definition note_first :: "queue_record \<Rightarrow> (string \<times> time) list \<Rightarrow> (string \<times> time) list" where
  "note_first r seen =
     (if map_of seen (qr_prompt_id r) = None \<and> qr_type r = ''user'' \<and> qr_prompt_id r \<noteq> ''''
      then (qr_prompt_id r, qr_timestamp r) # seen else seen)"

definition first_seen :: "(string \<times> time) list \<Rightarrow> string \<Rightarrow> time" where
  "first_seen seen i = (case map_of seen i of None \<Rightarrow> zero_time | Some t \<Rightarrow> t)"

definition ran_after :: "queue_record list \<Rightarrow> string \<Rightarrow> string \<Rightarrow> bool" where
  "ran_after rs earlier later =
     (let seen = fold note_first rs [] in
      map_of seen earlier \<noteq> None \<and> first_seen seen later > first_seen seen earlier)"

definition TurnRanAfter :: "transcript_codec \<Rightarrow> (string \<Rightarrow> err + string) \<Rightarrow> invocation \<Rightarrow> string \<Rightarrow> string \<Rightarrow> string
    \<Rightarrow> err + bool" where
  "TurnRanAfter c opens iv transcript earlier later =
     with_records c opens iv transcript False (\<lambda>rs. ran_after rs earlier later)"

section \<open>The turn of a prompt\<close>

definition boundary :: "queue_record \<Rightarrow> bool" where
  "boundary r \<longleftrightarrow> qr_type r = ''assistant'' \<or> qr_type r = ''system''
     \<or> qr_type r = ''queue-operation'' \<and> qr_operation r = ''dequeue''"

definition same_turn :: "queue_record \<Rightarrow> queue_record \<Rightarrow> bool" where
  "same_turn own r \<longleftrightarrow> qr_type r = ''user'' \<and> qr_prompt_source r = ''queued''
     \<and> qr_turn_position own \<noteq> None \<and> qr_turn_position r = qr_turn_position own"

definition add_id :: "queue_record \<Rightarrow> queue_record \<Rightarrow> string list \<Rightarrow> string list" where
  "add_id own r ids = (if same_turn own r \<and> qr_prompt_id r \<notin> set ids then ids @ [qr_prompt_id r] else ids)"

text \<open>
  The records between the boundaries around the prompt's own record; its neighbours are
  the part before it (from the nearest boundary on) and after it (up to the next one).
\<close>

definition dequeuedTogether :: "queue_record list \<Rightarrow> nat \<Rightarrow> string list" where
  "dequeuedTogether rs i =
     (let own = rs ! i;
          before = rev (takeWhile (\<lambda>r. \<not> boundary r) (rev (take i rs)));
          later = takeWhile (\<lambda>r. \<not> boundary r) (drop (i + 1) rs)
      in fold (add_id own) (before @ own # later) [qr_prompt_id own])"

text \<open>The loop of \<^verbatim>\<open>PromptTurn\<close> from record \<^theory_text>\<open>i\<close> on; the result is turns, pending and left.\<close>

fun prompt_scan :: "transcript_codec \<Rightarrow> string \<Rightarrow> queue_record list \<Rightarrow> nat \<Rightarrow> queue_record list \<Rightarrow> bool \<Rightarrow> bool
    \<Rightarrow> string list \<times> bool \<times> bool" where
  "prompt_scan c opening rs i [] pending left = ([], pending, left)"
| "prompt_scan c opening rs i (r # later) pending left =
     (let opens = has_prefix (record_text c r) opening; queue_op = (qr_type r = ''queue-operation'') in
      if qr_type r = ''user'' \<and> opens then (dequeuedTogether rs i, False, False)
      else if queue_op \<and> qr_operation r = ''enqueue'' \<and> opens then prompt_scan c opening rs (i + 1) later True False
      else if queue_op \<and> qr_operation r = ''popAll'' \<and> opens then prompt_scan c opening rs (i + 1) later False True
      else if queue_op \<and> (qr_operation r = ''remove'' \<and> opens \<or> qr_operation r = ''popAll'')
        then prompt_scan c opening rs (i + 1) later False left
      else prompt_scan c opening rs (i + 1) later pending left)"

definition PromptTurn :: "transcript_codec \<Rightarrow> (string \<Rightarrow> err + string) \<Rightarrow> invocation \<Rightarrow> string \<Rightarrow> string
    \<Rightarrow> err + string list \<times> bool \<times> bool" where
  "PromptTurn c opens iv transcript opening =
     with_records c opens iv transcript ([], False, False)
       (\<lambda>rs. prompt_scan c opening rs 0 rs False False)"

section \<open>What the counter means\<close>

definition scan_after :: "string \<Rightarrow> queue_record list \<Rightarrow> pending_scan" where
  "scan_after turn rs = fold (pending_step turn) rs scan_start"

lemma scan_after_simps [simp]:
  "scan_after turn [] = scan_start" "scan_after turn (rs @ [r]) = pending_step turn r (scan_after turn rs)"
  by (simp_all add: scan_after_def)

text \<open>How a record moves the number of queued prompts, and when it forgets them all.\<close>

definition moves :: "queue_record \<Rightarrow> int" where
  "moves r =
     (if qr_sidechain r \<or> qr_type r \<noteq> ''queue-operation'' then 0
      else if qr_operation r = ''enqueue'' then 1
      else if qr_operation r = ''remove'' \<or> qr_operation r = ''dequeue'' then - 1
      else 0)"

definition balance :: "queue_record list \<Rightarrow> int" where
  "balance rs = sum_list (map moves rs)"

definition forgets :: "pending_scan \<Rightarrow> queue_record \<Rightarrow> bool" where
  "forgets s r \<longleftrightarrow> \<not> qr_sidechain r \<and>
     (qr_type r = ''queue-operation'' \<and> qr_operation r = ''popAll''
      \<or> startsPrompt r \<and> qr_prompt_id r \<notin> set (ps_prompts s) \<and> ps_ended s)"

fun remembered :: "string \<Rightarrow> pending_scan \<Rightarrow> queue_record list \<Rightarrow> bool" where
  "remembered turn s [] = True"
| "remembered turn s (r # rs) \<longleftrightarrow> \<not> forgets s r \<and> remembered turn (pending_step turn r s) rs"

abbreviation depth :: "pending_scan \<Rightarrow> int" where
  "depth s \<equiv> int (cq_queued (ps_queue s))"

lemma depth_step:
  "depth (pending_step turn r s) = (if forgets s r then 0 else max 0 (depth s + moves r))"
proof -
  have user: "startsPrompt r \<Longrightarrow> qr_type r = ''user'' \<and> qr_prompt_id r \<noteq> ''''"
    by (simp add: startsPrompt_def)
  consider "qr_sidechain r" | "\<not> qr_sidechain r" "qr_type r = ''queue-operation''"
    | "\<not> qr_sidechain r" "qr_type r \<noteq> ''queue-operation''" by blast
  then show ?thesis
  proof cases
    case 2
    then show ?thesis using user
      by (auto simp: pending_step_def forgets_def moves_def replay_def)
  next
    case 3
    then show ?thesis using user
      by (auto simp: pending_step_def forgets_def moves_def new_prompt_def Let_def)
  qed (simp add: pending_step_def forgets_def moves_def)
qed

lemma remembered_snoc:
  "remembered turn s (rs @ [r]) \<longleftrightarrow> remembered turn s rs \<and> \<not> forgets (fold (pending_step turn) rs s) r"
  by (induction rs arbitrary: s) auto

lemma depth_reached:
  "\<exists>pre suf. rs = pre @ suf \<and> remembered turn (scan_after turn pre) suf \<and> balance suf = depth (scan_after turn rs)"
proof (induction rs rule: rev_induct)
  case Nil
  then show ?case by (simp add: balance_def scan_start_def empty_queue_def)
next
  case (snoc r rs)
  then obtain pre suf where rs: "rs = pre @ suf" "remembered turn (scan_after turn pre) suf"
    and depth: "balance suf = depth (scan_after turn rs)" by blast
  let ?s = "scan_after turn rs"
  have whole: "fold (pending_step turn) suf (scan_after turn pre) = ?s" by (simp add: rs(1) scan_after_def)
  show ?case
  proof (cases "forgets ?s r \<or> depth ?s + moves r < 0")
    case True
    then have "depth (scan_after turn (rs @ [r])) = 0" by (auto simp: depth_step)
    then show ?thesis by (intro exI [of _ "rs @ [r]"] exI [of _ "[]"]) (simp add: balance_def)
  next
    case False
    then have "remembered turn (scan_after turn pre) (suf @ [r])" using rs(2) whole by (simp add: remembered_snoc)
    moreover have "balance (suf @ [r]) = depth (scan_after turn (rs @ [r]))"
      using False depth by (simp add: balance_def depth_step)
    ultimately show ?thesis using rs(1) by (intro exI [of _ pre] exI [of _ "suf @ [r]"]) simp
  qed
qed

lemma depth_bounds: "remembered turn s suf \<Longrightarrow> balance suf \<le> depth (fold (pending_step turn) suf s)"
proof (induction suf rule: rev_induct)
  case (snoc r rs)
  then show ?case by (simp add: remembered_snoc balance_def depth_step)
qed (simp add: balance_def)

lemma queued_iff:
  "cq_queued (ps_queue (scan_after turn rs)) > 0 \<longleftrightarrow>
     (\<exists>pre suf. rs = pre @ suf \<and> remembered turn (scan_after turn pre) suf \<and> balance suf > 0)"
proof
  assume "cq_queued (ps_queue (scan_after turn rs)) > 0"
  then show "\<exists>pre suf. rs = pre @ suf \<and> remembered turn (scan_after turn pre) suf \<and> balance suf > 0"
    using depth_reached [of rs turn] by force
next
  assume "\<exists>pre suf. rs = pre @ suf \<and> remembered turn (scan_after turn pre) suf \<and> balance suf > 0"
  then obtain pre suf where "rs = pre @ suf" "remembered turn (scan_after turn pre) suf" "balance suf > 0" by blast
  then show "cq_queued (ps_queue (scan_after turn rs)) > 0"
    using depth_bounds [of turn "scan_after turn pre" suf] by (simp add: scan_after_def)
qed

section \<open>What the records say\<close>

text \<open>
  The same in terms of the records alone, by their places in time order: the records that end a
  turn, take a prompt out of the queue to run it, or belong to a turn; the first record of a
  prompt; and the places where a turn has ended and nothing has run since.
\<close>

definition ends_turn :: "queue_record \<Rightarrow> bool" where
  "ends_turn r \<longleftrightarrow> \<not> qr_sidechain r \<and> qr_type r = ''system'' \<and> qr_subtype r \<in> {''stop_hook_summary'', ''turn_duration''}"

definition dequeues :: "queue_record \<Rightarrow> bool" where
  "dequeues r \<longleftrightarrow> \<not> qr_sidechain r \<and> qr_type r = ''queue-operation'' \<and> qr_operation r = ''dequeue''"

definition of_turn :: "string \<Rightarrow> queue_record \<Rightarrow> bool" where
  "of_turn turn r \<longleftrightarrow> \<not> qr_sidechain r \<and> qr_type r = ''user'' \<and> turn \<noteq> '''' \<and> qr_prompt_id r = turn"

text \<open>A prompt of the conversation: not a subagent's, not written by the harness, no summary.\<close>

definition conversation_prompt :: "queue_record \<Rightarrow> bool" where
  "conversation_prompt r \<longleftrightarrow> qr_type r = ''user'' \<and> qr_prompt_id r \<noteq> ''''
     \<and> \<not> (qr_sidechain r \<or> qr_meta r \<or> qr_compact_summary r)"

definition prompts_anew :: "queue_record list \<Rightarrow> nat \<Rightarrow> bool" where
  "prompts_anew rs i \<longleftrightarrow> conversation_prompt (rs ! i)
     \<and> (\<forall>j < i. conversation_prompt (rs ! j) \<longrightarrow> qr_prompt_id (rs ! j) \<noteq> qr_prompt_id (rs ! i))"

definition ended_at :: "queue_record list \<Rightarrow> nat \<Rightarrow> bool" where
  "ended_at rs i \<longleftrightarrow> (\<exists>j < i. ends_turn (rs ! j) \<and> (\<forall>k. j < k \<and> k < i \<longrightarrow> \<not> dequeues (rs ! k) \<and> \<not> prompts_anew rs k))"

text \<open>A record that leaves the queue empty, whatever was in it.\<close>

definition empties :: "queue_record list \<Rightarrow> nat \<Rightarrow> bool" where
  "empties rs i \<longleftrightarrow> \<not> qr_sidechain (rs ! i) \<and> qr_type (rs ! i) = ''queue-operation'' \<and> qr_operation (rs ! i) = ''popAll''
     \<or> prompts_anew rs i \<and> ended_at rs i"

lemma starts_iff: "conversation_prompt = startsPrompt"
  by (auto simp: conversation_prompt_def startsPrompt_def)

lemma ended_Suc: "ended_at rs (Suc i) \<longleftrightarrow> ends_turn (rs ! i) \<or> ended_at rs i \<and> \<not> dequeues (rs ! i) \<and> \<not> prompts_anew rs i"
  by (auto simp: ended_at_def less_Suc_eq)

lemma anew_iff:
  assumes "set ps = {x. \<exists>j < i. startsPrompt (rs ! j) \<and> x = qr_prompt_id (rs ! j)}"
  shows "prompts_anew rs i \<longleftrightarrow> startsPrompt (rs ! i) \<and> qr_prompt_id (rs ! i) \<notin> set ps"
  unfolding assms prompts_anew_def starts_iff by auto

lemma starts_kind: "startsPrompt r \<Longrightarrow> \<not> qr_sidechain r \<and> qr_type r = ''user'' \<and> qr_prompt_id r \<noteq> ''''"
  by (simp add: startsPrompt_def)

lemma step_prompts:
  "set (ps_prompts (pending_step turn r s)) = (if startsPrompt r then {qr_prompt_id r} else {}) \<union> set (ps_prompts s)"
  using starts_kind [of r] by (auto simp: pending_step_def new_prompt_def Let_def)

lemma step_ended:
  "ps_ended (pending_step turn r s) \<longleftrightarrow> ends_turn r
     \<or> ps_ended s \<and> \<not> dequeues r \<and> \<not> (startsPrompt r \<and> qr_prompt_id r \<notin> set (ps_prompts s))"
  using starts_kind [of r] by (auto simp: pending_step_def new_prompt_def Let_def ends_turn_def dequeues_def)

lemma scan_places:
  "i \<le> length rs \<Longrightarrow> set (ps_prompts (scan_after turn (take i rs))) = {x. \<exists>j < i. startsPrompt (rs ! j) \<and> x = qr_prompt_id (rs ! j)}
    \<and> ps_ended (scan_after turn (take i rs)) = ended_at rs i"
proof (induction i)
  case 0
  then show ?case by (simp add: scan_start_def ended_at_def)
next
  case (Suc i)
  then have s: "set (ps_prompts (scan_after turn (take i rs))) = {x. \<exists>j < i. startsPrompt (rs ! j) \<and> x = qr_prompt_id (rs ! j)}"
    "ps_ended (scan_after turn (take i rs)) = ended_at rs i" by simp_all
  have next_one: "scan_after turn (take (Suc i) rs) = pending_step turn (rs ! i) (scan_after turn (take i rs))"
    using Suc.prems by (simp add: take_Suc_conv_app_nth)
  show ?case
    unfolding next_one step_prompts step_ended ended_Suc anew_iff [OF s(1)] s(2)
    unfolding s(1) by (auto simp: less_Suc_eq)
qed

lemma forgets_empties:
  assumes "i < length rs"
  shows "forgets (scan_after turn (take i rs)) (rs ! i) \<longleftrightarrow> empties rs i"
proof -
  have s: "set (ps_prompts (scan_after turn (take i rs))) = {x. \<exists>j < i. startsPrompt (rs ! j) \<and> x = qr_prompt_id (rs ! j)}"
    "ps_ended (scan_after turn (take i rs)) = ended_at rs i"
    using scan_places [of i rs turn] assms by simp_all
  show ?thesis
    unfolding forgets_def empties_def anew_iff [OF s(1)] s(2) using starts_kind [of "rs ! i"] by blast
qed

lemma remembered_places:
  "i \<le> length rs \<Longrightarrow> remembered turn (scan_after turn (take i rs)) (drop i rs) \<longleftrightarrow> (\<forall>k < length rs. i \<le> k \<longrightarrow> \<not> empties rs k)"
proof (induction "length rs - i" arbitrary: i)
  case 0
  then show ?case by simp
next
  case (Suc n)
  then have i: "i < length rs" by simp
  have "scan_after turn (take (Suc i) rs) = pending_step turn (rs ! i) (scan_after turn (take i rs))"
    using i by (simp add: take_Suc_conv_app_nth)
  then have "remembered turn (scan_after turn (take i rs)) (drop i rs)
      \<longleftrightarrow> \<not> empties rs i \<and> remembered turn (scan_after turn (take (Suc i) rs)) (drop (Suc i) rs)"
    using i by (simp add: Cons_nth_drop_Suc [symmetric] forgets_empties del: Cons_nth_drop_Suc)
  also have "\<dots> \<longleftrightarrow> \<not> empties rs i \<and> (\<forall>k < length rs. Suc i \<le> k \<longrightarrow> \<not> empties rs k)"
    using Suc.hyps(1) [of "Suc i"] Suc.hyps(2) i by simp
  also have "\<dots> \<longleftrightarrow> (\<forall>k < length rs. i \<le> k \<longrightarrow> \<not> empties rs k)"
    using i by (metis Suc_leD Suc_leI le_neq_implies_less le_refl)
  finally show ?case .
qed

lemma queued_places:
  "cq_queued (ps_queue (scan_after turn rs)) > 0 \<longleftrightarrow>
    (\<exists>i \<le> length rs. (\<forall>k < length rs. i \<le> k \<longrightarrow> \<not> empties rs k) \<and> balance (drop i rs) > 0)"
proof -
  have "(\<exists>pre suf. rs = pre @ suf \<and> P pre suf) \<longleftrightarrow> (\<exists>i \<le> length rs. P (take i rs) (drop i rs))" for P
  proof
    assume "\<exists>pre suf. rs = pre @ suf \<and> P pre suf"
    then obtain pre suf where "rs = pre @ suf" "P pre suf" by blast
    then show "\<exists>i \<le> length rs. P (take i rs) (drop i rs)" by (intro exI [of _ "length pre"]) simp
  next
    assume "\<exists>i \<le> length rs. P (take i rs) (drop i rs)"
    then obtain i where "P (take i rs) (drop i rs)" by blast
    then show "\<exists>pre suf. rs = pre @ suf \<and> P pre suf" by (intro exI [of _ "take i rs"] exI [of _ "drop i rs"]) simp
  qed
  then show ?thesis unfolding queued_iff using remembered_places by auto
qed

text \<open>The times the scan remembers are those of the last such record.\<close>

definition last_time :: "(queue_record \<Rightarrow> bool) \<Rightarrow> queue_record list \<Rightarrow> time" where
  "last_time P rs = (if filter P rs = [] then zero_time else qr_timestamp (last (filter P rs)))"

lemma step_times:
  "cq_dequeued (ps_queue (pending_step turn r s)) = (if dequeues r then qr_timestamp r else cq_dequeued (ps_queue s))"
  "ps_turn_seen (pending_step turn r s) = (if of_turn turn r then qr_timestamp r else ps_turn_seen s)"
  by (auto simp: pending_step_def replay_def new_prompt_def Let_def dequeues_def of_turn_def)

lemma scan_times:
  "cq_dequeued (ps_queue (scan_after turn rs)) = last_time dequeues rs \<and> ps_turn_seen (scan_after turn rs) = last_time (of_turn turn) rs"
  by (induction rs rule: rev_induct) (simp_all add: scan_start_def empty_queue_def last_time_def step_times)

lemma last_time_sorted:
  assumes "sorted (map qr_timestamp rs)"
  shows "(\<exists>r \<in> set rs. P r) \<Longrightarrow> \<exists>r \<in> set rs. P r \<and> qr_timestamp r = last_time P rs"
    and "r \<in> set rs \<Longrightarrow> P r \<Longrightarrow> qr_timestamp r \<le> last_time P rs"
    and "\<not> (\<exists>r \<in> set rs. P r) \<Longrightarrow> last_time P rs = zero_time"
proof -
  have sorted: "sorted (map qr_timestamp (filter P rs))" using assms by (rule sorted_filter)
  show "(\<exists>r \<in> set rs. P r) \<Longrightarrow> \<exists>r \<in> set rs. P r \<and> qr_timestamp r = last_time P rs"
  proof -
    assume "\<exists>r \<in> set rs. P r"
    then have "filter P rs \<noteq> []" by (auto simp: filter_empty_conv)
    then show ?thesis using last_in_set [of "filter P rs"] by (auto simp: last_time_def)
  qed
  show "qr_timestamp r \<le> last_time P rs" if r: "r \<in> set rs" "P r"
  proof -
    have "r \<in> set (filter P rs)" using r by simp
    then show ?thesis using sorted by (cases "filter P rs" rule: rev_cases) (auto simp: last_time_def sorted_append)
  qed
  show "\<not> (\<exists>r \<in> set rs. P r) \<Longrightarrow> last_time P rs = zero_time" by (auto simp: last_time_def filter_empty_conv)
qed

lemma later_than_turn:
  assumes "sorted (map qr_timestamp rs)" "\<forall>r \<in> set rs. zero_time < qr_timestamp r"
  shows "last_time (of_turn turn) rs \<noteq> zero_time \<and> last_time dequeues rs > last_time (of_turn turn) rs \<longleftrightarrow>
    (\<exists>r \<in> set rs. of_turn turn r) \<and> (\<exists>d \<in> set rs. dequeues d \<and> (\<forall>r \<in> set rs. of_turn turn r \<longrightarrow> qr_timestamp r < qr_timestamp d))"
    (is "?scan \<longleftrightarrow> ?spec")
proof
  assume ?scan
  then obtain r where r: "r \<in> set rs" "of_turn turn r" "qr_timestamp r = last_time (of_turn turn) rs"
    using last_time_sorted(1,3) [OF assms(1), of "of_turn turn"] by blast
  then have "last_time dequeues rs \<noteq> zero_time" using \<open>?scan\<close> assms(2) by force
  then obtain d where d: "d \<in> set rs" "dequeues d" "qr_timestamp d = last_time dequeues rs"
    using last_time_sorted(1,3) [OF assms(1), of dequeues] by blast
  then have "\<forall>r \<in> set rs. of_turn turn r \<longrightarrow> qr_timestamp r < qr_timestamp d"
    using \<open>?scan\<close> last_time_sorted(2) [OF assms(1), of _ "of_turn turn"] by force
  then show ?spec using r(1,2) d(1,2) by blast
next
  assume ?spec
  then obtain d where turn: "\<exists>r \<in> set rs. of_turn turn r"
    and d: "d \<in> set rs" "dequeues d" "\<forall>r \<in> set rs. of_turn turn r \<longrightarrow> qr_timestamp r < qr_timestamp d" by blast
  obtain r where r: "r \<in> set rs" "of_turn turn r" "qr_timestamp r = last_time (of_turn turn) rs"
    using last_time_sorted(1) [OF assms(1) turn] by blast
  have "qr_timestamp d \<le> last_time dequeues rs" using last_time_sorted(2) [OF assms(1), of d dequeues] d(1,2) by simp
  moreover have "qr_timestamp r < qr_timestamp d" "zero_time < qr_timestamp r" using d(3) r(1,2) assms(2) by auto
  ultimately show ?scan using r(3) by linarith
qed

lemma records_in_time: "claudeQueueRecords c file = Inr rs \<Longrightarrow> sorted (map qr_timestamp rs)"
  by (auto simp: claudeQueueRecords_def Let_def split: sum.splits)

text \<open>
  C39 (queued_turn_pending_exact): \<^verbatim>\<open>QueuedTurnPending\<close> answers yes exactly when one of two things
  holds of the transcript's records outside subagents. Either they end, in time order, in a stretch
  in which more prompts entered the queue than left it and no record emptied it: a \<^verbatim>\<open>popAll\<close>, or
  the first record of a prompt when the turn before it had ended and neither a dequeue nor another
  new prompt had come since. Or the turn has a record and some dequeue is later than every record
  of the turn. Prompts that left unseen before the stretch do not hide those that entered later.
  Timestamps are taken to be after the zero time, which stands for a missing one.
\<close>

theorem queued_turn_pending_exact:
  assumes "queuedTurnSource iv = Inr ''claude-transcript''" "transcript \<noteq> ''''"
    and "claudeQueueRecords c (opens transcript) = Inr rs" "\<forall>r \<in> set rs. zero_time < qr_timestamp r"
  shows "QueuedTurnPending c opens iv transcript turn = Inr
    ((\<exists>i \<le> length rs. (\<forall>k < length rs. i \<le> k \<longrightarrow> \<not> empties rs k) \<and> balance (drop i rs) > 0)
     \<or> (\<exists>r \<in> set rs. of_turn turn r)
       \<and> (\<exists>d \<in> set rs. dequeues d \<and> (\<forall>r \<in> set rs. of_turn turn r \<longrightarrow> qr_timestamp r < qr_timestamp d)))"
  using assms scan_times [of turn rs] later_than_turn [OF records_in_time [OF assms(3)] assms(4), of turn]
  by (simp add: QueuedTurnPending_def with_records_def pending_verdict_def scan_after_def [symmetric] queued_places)

section \<open>Prompts of one turn\<close>

lemma fold_add_id:
  "set (fold (add_id own) rs ids) = set ids \<union> qr_prompt_id ` {r \<in> set rs. same_turn own r}"
  "distinct ids \<Longrightarrow> distinct (fold (add_id own) rs ids)"
  "prefix ids (fold (add_id own) rs ids)"
proof (induction rs arbitrary: ids)
  case (Cons r rs)
  { case 1 then show ?case using Cons(1) by (auto simp: add_id_def) }
  { case 2 then show ?case using Cons(2) by (simp add: add_id_def) }
  { case 3
    have "prefix ids (add_id own r ids)" by (simp add: add_id_def)
    then show ?case using Cons(3) [of "add_id own r ids"] by (auto intro: prefix_order.trans) }
qed simp_all

definition unbroken :: "queue_record list \<Rightarrow> nat \<Rightarrow> nat \<Rightarrow> bool" where
  "unbroken rs i j \<longleftrightarrow> (\<forall>k < length rs. (i < k \<and> k \<le> j \<or> j \<le> k \<and> k < i) \<longrightarrow> \<not> boundary (rs ! k))"

lemma set_takeWhile_nth:
  "x \<in> set (takeWhile P xs) \<longleftrightarrow> (\<exists>k < length xs. xs ! k = x \<and> (\<forall>m \<le> k. P (xs ! m)))"
proof
  assume "x \<in> set (takeWhile P xs)"
  then obtain k where k: "k < length (takeWhile P xs)" "takeWhile P xs ! k = x" by (auto simp: in_set_conv_nth)
  have "P (xs ! m)" if "m \<le> k" for m
    using that k(1) takeWhile_nth [of m P xs] set_takeWhileD [of "xs ! m" P xs] nth_mem [of m "takeWhile P xs"] by auto
  moreover have "k < length xs" using k(1) length_takeWhile_le [of P xs] by linarith
  ultimately show "\<exists>k < length xs. xs ! k = x \<and> (\<forall>m \<le> k. P (xs ! m))"
    using k takeWhile_nth [of k P xs] by (intro exI [of _ k]) simp
next
  assume "\<exists>k < length xs. xs ! k = x \<and> (\<forall>m \<le> k. P (xs ! m))"
  then obtain k where k: "k < length xs" "xs ! k = x" "\<forall>m \<le> k. P (xs ! m)" by blast
  then have "Suc k \<le> length (takeWhile P xs)" by (intro length_takeWhile_less_P_nth) auto
  then show "x \<in> set (takeWhile P xs)" using k takeWhile_nth [of k P xs] by (metis Suc_le_eq nth_mem)
qed

lemma set_before:
  assumes "i \<le> length rs"
  shows "x \<in> set (takeWhile P (rev (take i rs))) \<longleftrightarrow> (\<exists>j < i. rs ! j = x \<and> (\<forall>k. j \<le> k \<and> k < i \<longrightarrow> P (rs ! k)))"
proof -
  have nth: "rev (take i rs) ! k = rs ! (i - Suc k)" if "k < i" for k
    using that assms by (simp add: rev_nth)
  have "x \<in> set (takeWhile P (rev (take i rs))) \<longleftrightarrow> (\<exists>k < i. rs ! (i - Suc k) = x \<and> (\<forall>m \<le> k. P (rs ! (i - Suc m))))"
    using assms nth by (auto simp: set_takeWhile_nth)
  also have "\<dots> \<longleftrightarrow> (\<exists>j < i. rs ! j = x \<and> (\<forall>k. j \<le> k \<and> k < i \<longrightarrow> P (rs ! k)))"
  proof
    assume "\<exists>k < i. rs ! (i - Suc k) = x \<and> (\<forall>m \<le> k. P (rs ! (i - Suc m)))"
    then obtain k where k: "k < i" "rs ! (i - Suc k) = x" and P: "\<forall>m \<le> k. P (rs ! (i - Suc m))" by blast
    have "P (rs ! n)" if "i - Suc k \<le> n \<and> n < i" for n
    proof -
      have "i - Suc n \<le> k" "i - Suc (i - Suc n) = n" using that by arith+
      then show ?thesis using P by metis
    qed
    then show "\<exists>j < i. rs ! j = x \<and> (\<forall>k. j \<le> k \<and> k < i \<longrightarrow> P (rs ! k))"
      using k by (intro exI [of _ "i - Suc k"]) auto
  next
    assume "\<exists>j < i. rs ! j = x \<and> (\<forall>k. j \<le> k \<and> k < i \<longrightarrow> P (rs ! k))"
    then obtain j where j: "j < i" "rs ! j = x" and P: "\<forall>k. j \<le> k \<and> k < i \<longrightarrow> P (rs ! k)" by blast
    have "P (rs ! (i - Suc m))" if "m \<le> i - Suc j" for m
      using P [rule_format, of "i - Suc m"] that j(1) by linarith
    then show "\<exists>k < i. rs ! (i - Suc k) = x \<and> (\<forall>m \<le> k. P (rs ! (i - Suc m)))"
      using j by (intro exI [of _ "i - Suc j"]) auto
  qed
  finally show ?thesis .
qed

lemma set_later:
  "x \<in> set (takeWhile P (drop (Suc i) rs)) \<longleftrightarrow>
     (\<exists>j. i < j \<and> j < length rs \<and> rs ! j = x \<and> (\<forall>k. i < k \<and> k \<le> j \<longrightarrow> P (rs ! k)))"
proof -
  have nth: "drop (Suc i) rs ! k = rs ! (Suc i + k)" if "k < length rs - Suc i" for k
    using that by simp
  show ?thesis
    unfolding set_takeWhile_nth
  proof
    assume "\<exists>k < length (drop (Suc i) rs). drop (Suc i) rs ! k = x \<and> (\<forall>m \<le> k. P (drop (Suc i) rs ! m))"
    then obtain k where k: "k < length rs - Suc i" "rs ! (Suc i + k) = x" "\<forall>m \<le> k. P (rs ! (Suc i + m))"
      using nth by auto
    have "P (rs ! n)" if "i < n \<and> n \<le> Suc i + k" for n
      using k(3) [rule_format, of "n - Suc i"] that by auto
    then show "\<exists>j. i < j \<and> j < length rs \<and> rs ! j = x \<and> (\<forall>k. i < k \<and> k \<le> j \<longrightarrow> P (rs ! k))"
      using k by (intro exI [of _ "Suc i + k"]) auto
  next
    assume "\<exists>j. i < j \<and> j < length rs \<and> rs ! j = x \<and> (\<forall>k. i < k \<and> k \<le> j \<longrightarrow> P (rs ! k))"
    then obtain j where "i < j" "j < length rs" "rs ! j = x" "\<forall>k. i < k \<and> k \<le> j \<longrightarrow> P (rs ! k)" by blast
    then show "\<exists>k < length (drop (Suc i) rs). drop (Suc i) rs ! k = x \<and> (\<forall>m \<le> k. P (drop (Suc i) rs ! m))"
      by (intro exI [of _ "j - Suc i"]) auto
  qed
qed

text \<open>
  The prompt IDs of a turn are the prompt's own first, all
  different, and besides it exactly those of the queued user records at the same turn
  position with no response, system record or dequeue between them and the prompt.
\<close>

theorem dequeued_together_exact:
  assumes "i < length rs"
  shows "hd (dequeuedTogether rs i) = qr_prompt_id (rs ! i) \<and> distinct (dequeuedTogether rs i)
    \<and> set (dequeuedTogether rs i) = insert (qr_prompt_id (rs ! i))
        {qr_prompt_id (rs ! j) | j. j < length rs \<and> unbroken rs i j \<and> same_turn (rs ! i) (rs ! j)}"
proof -
  let ?own = "rs ! i"
  let ?before = "takeWhile (\<lambda>r. \<not> boundary r) (rev (take i rs))"
  let ?later = "takeWhile (\<lambda>r. \<not> boundary r) (drop (Suc i) rs)"
  let ?ids = "fold (add_id ?own) (rev ?before @ ?own # ?later) [qr_prompt_id ?own]"
  have all: "dequeuedTogether rs i = ?ids" by (simp add: dequeuedTogether_def Let_def)
  have "prefix [qr_prompt_id ?own] ?ids" by (rule fold_add_id(3))
  then have hd: "hd ?ids = qr_prompt_id ?own" by (auto simp: prefix_def simp del: fold_append)
  have near: "r \<in> set (rev ?before @ ?own # ?later) \<longleftrightarrow> (\<exists>j < length rs. unbroken rs i j \<and> rs ! j = r)" for r
  proof -
    have b: "r \<in> set ?before \<longleftrightarrow> (\<exists>j < i. unbroken rs i j \<and> rs ! j = r)"
      using assms by (subst set_before) (auto simp: unbroken_def)
    have l: "r \<in> set ?later \<longleftrightarrow> (\<exists>j. i < j \<and> j < length rs \<and> unbroken rs i j \<and> rs ! j = r)"
      by (subst set_later) (auto simp: unbroken_def)
    have "unbroken rs i i" by (auto simp: unbroken_def)
    then have own: "\<exists>j < length rs. unbroken rs i j \<and> rs ! j = ?own" using assms by blast
    show ?thesis
    proof
      assume "r \<in> set (rev ?before @ ?own # ?later)"
      then consider "r \<in> set ?before" | "r = ?own" | "r \<in> set ?later" by auto
      then show "\<exists>j < length rs. unbroken rs i j \<and> rs ! j = r"
        using own assms unfolding b l by cases (auto intro: less_trans)
    next
      assume "\<exists>j < length rs. unbroken rs i j \<and> rs ! j = r"
      then obtain j where j: "j < length rs" "unbroken rs i j" "rs ! j = r" by blast
      consider "j < i" | "j = i" | "i < j" by linarith
      then have "r \<in> set ?before \<or> r = ?own \<or> r \<in> set ?later" unfolding b l using j by cases blast+
      then show "r \<in> set (rev ?before @ ?own # ?later)" by auto
    qed
  qed
  have "set ?ids = insert (qr_prompt_id ?own) (qr_prompt_id ` {r \<in> set (rev ?before @ ?own # ?later). same_turn ?own r})"
    by (subst fold_add_id(1)) simp
  also have "\<dots> = insert (qr_prompt_id ?own) {qr_prompt_id (rs ! j) | j. j < length rs \<and> unbroken rs i j \<and> same_turn ?own (rs ! j)}"
    unfolding near by auto
  finally show ?thesis
    unfolding all using hd fold_add_id(2) by (simp del: fold_append)
qed

section \<open>The order of turns in the transcript\<close>

definition prompt_record :: "string \<Rightarrow> queue_record \<Rightarrow> bool" where
  "prompt_record i r \<longleftrightarrow> qr_type r = ''user'' \<and> qr_prompt_id r = i \<and> i \<noteq> ''''"

lemma map_of_noted:
  "map_of (note_first r seen) i = (case map_of seen i of
     None \<Rightarrow> if prompt_record i r then Some (qr_timestamp r) else None | Some t \<Rightarrow> Some t)"
  by (auto simp: note_first_def prompt_record_def split: option.split)

lemma map_of_note_first:
  "map_of (fold note_first rs []) i =
     (case filter (prompt_record i) rs of [] \<Rightarrow> None | r # _ \<Rightarrow> Some (qr_timestamp r))"
proof (induction rs rule: rev_induct)
  case (snoc r rs)
  then show ?case
    by (cases "filter (prompt_record i) rs") (auto simp: map_of_noted)
qed simp

lemma first_is_earliest:
  assumes "sorted (map qr_timestamp rs)" "filter P rs = r # later" "x \<in> set rs" "P x"
  shows "qr_timestamp r \<le> qr_timestamp x"
proof -
  have "sorted (map qr_timestamp (filter P rs))" by (rule sorted_filter [OF assms(1)])
  moreover have "x \<in> set (r # later)" using assms(3,4) by (simp flip: assms(2))
  ultimately show ?thesis by (auto simp: assms(2))
qed

lemma ran_after_iff:
  assumes "sorted (map qr_timestamp rs)" "\<forall>r \<in> set rs. qr_timestamp r > 0"
  shows "ran_after rs earlier later \<longleftrightarrow>
    (\<exists>e \<in> set rs. prompt_record earlier e \<and> (\<exists>l \<in> set rs. prompt_record later l)
      \<and> (\<forall>l \<in> set rs. prompt_record later l \<longrightarrow> qr_timestamp e < qr_timestamp l))"
proof (cases "filter (prompt_record earlier) rs")
  case Nil
  then show ?thesis by (auto simp: ran_after_def Let_def map_of_note_first filter_empty_conv)
next
  case (Cons e es)
  then have "e \<in> set (filter (prompt_record earlier) rs)" by simp
  then have e: "e \<in> set rs" "prompt_record earlier e" by auto
  show ?thesis
  proof (cases "filter (prompt_record later) rs")
    case Nil
    then have "\<not> (\<exists>l \<in> set rs. prompt_record later l)" by (auto simp: filter_empty_conv)
    moreover have "qr_timestamp e > 0" using assms(2) e(1) by blast
    ultimately show ?thesis using Cons Nil by (auto simp: ran_after_def Let_def map_of_note_first first_seen_def)
  next
    case later: (Cons l ls)
    then have "l \<in> set (filter (prompt_record later) rs)" by simp
    then have l: "l \<in> set rs" "prompt_record later l" by auto
    have "ran_after rs earlier later \<longleftrightarrow> qr_timestamp e < qr_timestamp l"
      using Cons later by (simp add: ran_after_def Let_def map_of_note_first first_seen_def)
    moreover have "qr_timestamp e \<le> qr_timestamp x" if "x \<in> set rs" "prompt_record earlier x" for x
      by (rule first_is_earliest [OF assms(1) Cons that])
    moreover have "qr_timestamp l \<le> qr_timestamp x" if "x \<in> set rs" "prompt_record later x" for x
      by (rule first_is_earliest [OF assms(1) later that])
    ultimately show ?thesis using e l by (meson order_le_less_trans order_less_le_trans)
  qed
qed

lemma claudeQueueRecords_sorted: "claudeQueueRecords c file = Inr rs \<Longrightarrow> sorted (map qr_timestamp rs)"
  by (auto simp: claudeQueueRecords_def Let_def split: sum.splits)

text \<open>
  \<^verbatim>\<open>TurnRanAfter\<close> says that one turn ran after another exactly
  when both have user records and some record of the first is older than every record of
  the second, wherever they stand in the file.
\<close>

theorem turn_ran_after_exact:
  assumes "queuedTurnSource iv = Inr ''claude-transcript''" "transcript \<noteq> ''''"
    and "claudeQueueRecords c (opens transcript) = Inr rs" "\<forall>r \<in> set rs. qr_timestamp r > 0"
  shows "TurnRanAfter c opens iv transcript earlier later = Inr
    (\<exists>e \<in> set rs. prompt_record earlier e \<and> (\<exists>l \<in> set rs. prompt_record later l)
      \<and> (\<forall>l \<in> set rs. prompt_record later l \<longrightarrow> qr_timestamp e < qr_timestamp l))"
  using assms ran_after_iff [OF claudeQueueRecords_sorted [OF assms(3)] assms(4)]
  by (simp add: TurnRanAfter_def with_records_def)

section \<open>Concrete transcripts\<close>

definition demo_record :: "string \<Rightarrow> string \<Rightarrow> string \<Rightarrow> time \<Rightarrow> queue_record" where
  "demo_record kind op i t =
     \<lparr>qr_type = kind, qr_subtype = '''', qr_operation = op, qr_prompt_id = i, qr_timestamp = t, qr_content = '''',
       qr_message = '''', qr_prompt_source = ''queued'', qr_sidechain = False, qr_meta = False,
       qr_compact_summary = False, qr_turn_position = Some 1\<rparr>"

text \<open>Lines of one letter: the later turn comes first in the file, then an enqueue.\<close>

definition demo_transcript_codec :: transcript_codec where
  "demo_transcript_codec = \<lparr>record_of = (\<lambda>l. Some
       (if hd l = CHR ''b'' then demo_record ''user'' '''' ''second'' 9
        else if hd l = CHR ''a'' then demo_record ''user'' '''' ''first'' 5
        else demo_record ''queue-operation'' ''enqueue'' '''' 7)),
     content_of = (\<lambda>_. None), string_of = (\<lambda>_. None)\<rparr>"

definition demo_boundary :: invocation where
  "demo_boundary = \<lparr>inv_name = ''turn'', inv_params = [(''queued_turns'', ''claude-transcript'')]\<rparr>"

definition demo_records :: "queue_record list" where
  "demo_records = [demo_record ''user'' '''' ''first'' 5, demo_record ''queue-operation'' ''enqueue'' '''' 7,
     demo_record ''user'' '''' ''second'' 9]"

lemma demo_source: "queuedTurnSource demo_boundary = Inr ''claude-transcript''"
  by (simp add: queuedTurnSource_def demo_boundary_def param_def)

lemma demo_read:
  "claudeQueueRecords demo_transcript_codec (Inr [CHR ''b'', newline, CHR ''a'', newline, CHR ''q'', newline, CHR ''a''])
    = Inr demo_records"
  by (simp add: claudeQueueRecords_def boundedTranscriptStart_def transcriptWindow_def newline_def demo_transcript_codec_def
      Let_def demo_records_def demo_record_def)

theorem queued_turn_pending_exact_witness:
  "QueuedTurnPending demo_transcript_codec
     (\<lambda>_. Inr [CHR ''b'', newline, CHR ''a'', newline, CHR ''q'', newline, CHR ''a'']) demo_boundary ''t'' ''first'' = Inr True"
proof -
  have "\<not> empties demo_records k" if "k < length demo_records" "1 \<le> k" for k
    using that by (auto simp: demo_records_def demo_record_def empties_def ended_at_def ends_turn_def nth_Cons split: nat.splits)
  moreover have "balance (drop 1 demo_records) > 0"
    by (simp add: demo_records_def balance_def moves_def demo_record_def)
  ultimately have "\<exists>i \<le> length demo_records. (\<forall>k < length demo_records. i \<le> k \<longrightarrow> \<not> empties demo_records k) \<and> balance (drop i demo_records) > 0"
    by (intro exI [of _ 1]) (auto simp: demo_records_def)
  moreover have "\<forall>r \<in> set demo_records. zero_time < qr_timestamp r" by (simp add: demo_records_def demo_record_def)
  ultimately show ?thesis
    using queued_turn_pending_exact [OF demo_source, of "''t''" demo_transcript_codec
      "\<lambda>_. Inr [CHR ''b'', newline, CHR ''a'', newline, CHR ''q'', newline, CHR ''a'']" demo_records "''first''"]
    by (simp add: demo_read)
qed

theorem turn_ran_after_exact_witness:
  "TurnRanAfter demo_transcript_codec
     (\<lambda>_. Inr [CHR ''b'', newline, CHR ''a'', newline, CHR ''q'', newline, CHR ''a'']) demo_boundary ''t'' ''first'' ''second'' = Inr True"
  using turn_ran_after_exact [OF demo_source, of "''t''" demo_transcript_codec
      "\<lambda>_. Inr [CHR ''b'', newline, CHR ''a'', newline, CHR ''q'', newline, CHR ''a'']" demo_records "''first''" "''second''"]
  by (simp add: demo_read) (simp add: demo_records_def demo_record_def prompt_record_def)

theorem dequeued_together_exact_witness:
  "hd (dequeuedTogether demo_records 2) = ''second'' \<and> set (dequeuedTogether demo_records 2) = {''second'', ''first''}"
proof -
  have "dequeuedTogether demo_records 2 = [''second'', ''first'']"
    by (simp add: dequeuedTogether_def demo_records_def demo_record_def boundary_def add_id_def same_turn_def)
  then show ?thesis
    using dequeued_together_exact [of 2 demo_records] by (simp add: demo_records_def demo_record_def)
qed

end
