(* ===== verification/Go_Format.thy ===== *)
theory Go_Format
  imports Go_Strings
begin

text \<open>
  Printing and matching of Go's standard library as the command layer uses them:
  \<^verbatim>\<open>fmt.Sprint\<close> of integers and \<^verbatim>\<open>%.0f\<close>, \<^verbatim>\<open>strings.NewReplacer\<close>, \<^verbatim>\<open>strings.ToLower\<close> on
  ASCII, and \<^verbatim>\<open>filepath.Match\<close>.
\<close>

section \<open>Decimal text\<close>

definition digit_char :: "nat \<Rightarrow> char" where
  "digit_char d = char_of (48 + d mod 10)"

function decimal :: "nat \<Rightarrow> string" where
  "decimal n = (if n < 10 then [digit_char n] else decimal (n div 10) @ [digit_char (n mod 10)])"
  by pat_completeness auto
termination by (relation "measure id") auto

declare decimal.simps [simp del]

definition show_int :: "int \<Rightarrow> string" where
  "show_int i = (if i < 0 then CHR ''-'' # decimal (nat (- i)) else decimal (nat i))"

text \<open>\<^verbatim>\<open>%.0f\<close>: the nearest integer, ties to even.\<close>

definition nearest_even :: "rat \<Rightarrow> int" where
  "nearest_even x =
     (let f = \<lfloor>x\<rfloor>; d = x - of_int f in
      if d < 1 / 2 \<or> d = 1 / 2 \<and> even f then f else f + 1)"

definition format0 :: "rat \<Rightarrow> string" where
  "format0 x = (if x < 0 then CHR ''-'' # decimal (nat (nearest_even (- x))) else decimal (nat (nearest_even x)))"

section \<open>Replacing tokens\<close>

text \<open>At each position the first pair, in argument order, whose old text is there.\<close>

function replace_tokens :: "(string \<times> string) list \<Rightarrow> string \<Rightarrow> string" where
  "replace_tokens pairs s =
     (case find (\<lambda>p. fst p \<noteq> [] \<and> has_prefix s (fst p)) pairs of
        Some p \<Rightarrow> snd p @ replace_tokens pairs (drop (length (fst p)) s)
      | None \<Rightarrow> (case s of [] \<Rightarrow> [] | c # cs \<Rightarrow> c # replace_tokens pairs cs))"
  by pat_completeness auto
termination
proof (relation "measure (\<lambda>(_, s). length s)", goal_cases)
  case (3 pairs s p)
  then have "fst p \<noteq> []" "has_prefix s (fst p)" by (auto simp: find_Some_iff)
  then have "0 < length (fst p)" "length (fst p) \<le> length s" by (auto simp: has_prefix_iff)
  then have "length s - length (fst p) < length s" by linarith
  then show ?case by simp
qed simp_all

declare replace_tokens.simps [simp del]

section \<open>filepath.Match\<close>

text \<open>
  The first rune of a byte string, as \<^verbatim>\<open>utf8.DecodeRuneInString\<close> reads it: its code point
  and its width; an invalid sequence is the replacement rune of width 1.
\<close>

definition continuation :: "nat \<Rightarrow> bool" where
  "continuation b \<longleftrightarrow> 128 \<le> b \<and> b < 192"

definition decode_rune :: "string \<Rightarrow> nat \<times> nat" where
  "decode_rune s =
     (case map of_char s of
        [] \<Rightarrow> (65533, 0)
      | b # bs \<Rightarrow>
          if b < 128 then (b, 1)
          else (case bs of
             c # cs \<Rightarrow>
               if 194 \<le> b \<and> b \<le> 223 \<and> continuation c then ((b - 192) * 64 + (c - 128), 2)
               else (case cs of
                  d # ds \<Rightarrow>
                    if 224 \<le> b \<and> b \<le> 239 \<and> continuation c \<and> continuation d
                       \<and> (b = 224 \<longrightarrow> 160 \<le> c) \<and> (b = 237 \<longrightarrow> c < 160)
                    then ((b - 224) * 4096 + (c - 128) * 64 + (d - 128), 3)
                    else (case ds of
                       e # _ \<Rightarrow>
                         if 240 \<le> b \<and> b \<le> 244 \<and> continuation c \<and> continuation d \<and> continuation e
                            \<and> (b = 240 \<longrightarrow> 144 \<le> c) \<and> (b = 244 \<longrightarrow> c < 144)
                         then ((b - 240) * 262144 + (c - 128) * 4096 + (d - 128) * 64 + (e - 128), 4)
                         else (65533, 1)
                     | [] \<Rightarrow> (65533, 1))
                | [] \<Rightarrow> (65533, 1))
           | [] \<Rightarrow> (65533, 1)))"

text \<open>A character of a class, which a backslash may escape; \<^term>\<open>None\<close> is a bad pattern.\<close>

definition class_rune :: "string \<Rightarrow> (nat \<times> string) option" where
  "class_rune p =
     (let q = (case p of CHR 0x5C # r \<Rightarrow> r | _ \<Rightarrow> p) in
      if p = [] \<or> hd p = CHR ''-'' \<or> hd p = CHR '']'' \<or> q = [] then None
      else let (r, n) = decode_rune q in
        if r = 65533 \<and> n = 1 \<or> drop n q = [] then None else Some (r, drop n q))"

fun class_ranges :: "nat \<Rightarrow> nat \<Rightarrow> bool \<Rightarrow> bool \<Rightarrow> string \<Rightarrow> (bool \<times> string) option" where
  "class_ranges 0 r found any p = None"
| "class_ranges (Suc fuel) r found any p =
     (if any \<and> p \<noteq> [] \<and> hd p = CHR '']'' then Some (found, tl p)
      else (case class_rune p of
          None \<Rightarrow> None
        | Some (lo, q) \<Rightarrow>
            (case (if hd q = CHR ''-'' then class_rune (tl q) else Some (lo, q)) of
               None \<Rightarrow> None
             | Some (hi, q2) \<Rightarrow> class_ranges fuel r (found \<or> lo \<le> r \<and> r \<le> hi) True q2)))"

text \<open>
  The pattern and the name are consumed together; the fuel bounds their joint length, of
  which every step uses some. The result is only whether the name matches: a bad pattern
  never matches.
\<close>

fun glob :: "nat \<Rightarrow> string \<Rightarrow> string \<Rightarrow> bool" where
  "glob 0 p s = False"
| "glob (Suc fuel) p s =
     (case p of
        [] \<Rightarrow> s = []
      | c # q \<Rightarrow>
          if c = CHR ''*'' then glob fuel q s \<or> (s \<noteq> [] \<and> hd s \<noteq> CHR ''/'' \<and> glob fuel p (tl s))
          else if s = [] then False
          else if c = CHR ''?'' then hd s \<noteq> CHR ''/'' \<and> glob fuel q (drop (snd (decode_rune s)) s)
          else if c = CHR ''['' then
            (let negated = (q \<noteq> [] \<and> hd q = CHR ''^''); body = (if negated then tl q else q) in
             case class_ranges (length body + 1) (fst (decode_rune s)) False False body of
               None \<Rightarrow> False
             | Some (found, rest) \<Rightarrow> found \<noteq> negated \<and> glob fuel rest (drop (snd (decode_rune s)) s))
          else if c = CHR 0x5C then q \<noteq> [] \<and> hd q = hd s \<and> glob fuel (tl q) (tl s)
          else c = hd s \<and> glob fuel q (tl s))"

definition filepath_match :: "string \<Rightarrow> string \<Rightarrow> bool" where
  "filepath_match p s = glob (length p + length s + 1) p s"

text \<open>A pattern of literal text and a final star matches what starts with the text.\<close>

lemma glob_star: "CHR ''/'' \<notin> set s \<Longrightarrow> fuel > length s + 1 \<Longrightarrow> glob fuel [CHR ''*''] s"
proof (induction s arbitrary: fuel)
  case Nil
  then obtain n where "fuel = Suc n" "n > 0" by (cases fuel) auto
  then show ?case by (cases n) auto
next
  case (Cons c s)
  then obtain n where "fuel = Suc n" "n > length s + 1" by (cases fuel) auto
  then show ?case using Cons by auto
qed

definition literal :: "char \<Rightarrow> bool" where
  "literal c \<longleftrightarrow> c \<notin> {CHR ''*'', CHR ''?'', CHR ''['', CHR 0x5C}"

lemma glob_literal:
  assumes "list_all literal p" "fuel > length p"
  shows "glob fuel (p @ q) s \<longleftrightarrow> has_prefix s p \<and> glob (fuel - length p) q (drop (length p) s)"
  using assms
proof (induction p arbitrary: fuel s)
  case (Cons c p)
  then obtain n where n: "fuel = Suc n" "n > length p" by (cases fuel) auto
  have c: "c \<noteq> CHR ''*''" "c \<noteq> CHR ''?''" "c \<noteq> CHR ''[''" "c \<noteq> CHR 0x5C"
    using Cons.prems(1) by (auto simp: literal_def)
  show ?case
  proof (cases s)
    case (Cons d s')
    then show ?thesis using c n Cons.IH [OF _ n(2), of s'] \<open>list_all literal (c # p)\<close> by (auto simp: has_prefix_def)
  qed (use c n in \<open>simp add: has_prefix_def\<close>)
qed (simp add: has_prefix_def)

lemma filepath_match_prefix:
  assumes "list_all literal p" "CHR ''/'' \<notin> set s"
  shows "filepath_match (p @ ''*'') s \<longleftrightarrow> has_prefix s p"
proof -
  have "glob (length p + 1 + length s + 1 - length p) ''*'' (drop (length p) s)" if "has_prefix s p"
  proof (rule glob_star)
    show "CHR ''/'' \<notin> set (drop (length p) s)" using assms(2) in_set_dropD by fast
    have "length p \<le> length s" using that by (auto simp: has_prefix_iff)
    then show "length (drop (length p) s) + 1 < length p + 1 + length s + 1 - length p" by simp
  qed
  then show ?thesis
    unfolding filepath_match_def by (subst glob_literal [OF assms(1)]) auto
qed

end
