(* ===== verification/Context_Bands.thy ===== *)
theory Context_Bands
  imports Go_Format Store_Envelopes Store_Senders "HOL-Library.Multiset"
begin

text \<open>
  Context bands: which thresholds of an agent's context use a reading crosses
  (\<^verbatim>\<open>harness/context.go\<close>, \<^verbatim>\<open>cmd/gang/context_band_options.go\<close>), how native readings update
  the agent (\<^verbatim>\<open>acceptReadings\<close> of \<^verbatim>\<open>cmd/gang/telemetry.go\<close>), and the notes that report each
  crossing once (\<^verbatim>\<open>cmd/gang/context_bands.go\<close>). Arithmetic on \<^verbatim>\<open>float64\<close> rounds: the
  rounding is the parameter \<^theory_text>\<open>fl\<close> of every definition that computes with them.
\<close>

section \<open>Bands of a collar\<close>

record context_band =
  cb_name :: string
  cb_at :: float64
  cb_message :: string

text \<open>A Go map, as the list of its entries in some iteration order.\<close>

type_synonym band_map = "(string \<times> context_band list) list"

definition specificity :: "string \<Rightarrow> int" where
  "specificity selector = int (length (filter (\<lambda>c. c \<noteq> CHR ''*'') selector))"

definition better_selector :: "string \<Rightarrow> string \<times> int \<Rightarrow> string \<Rightarrow> string \<times> int" where
  "better_selector model best selector =
     (if filepath_match selector model
         \<and> (specificity selector > snd best \<or> specificity selector = snd best \<and> selector < fst best)
      then (selector, specificity selector) else best)"

definition contextSelector :: "band_map \<Rightarrow> string \<Rightarrow> string" where
  "contextSelector bands model =
     (if model = '''' then '''' else fst (foldl (better_selector model) ('''', - 1) (map fst bands)))"

definition modelContextBands :: "band_map \<Rightarrow> string \<Rightarrow> context_band list" where
  "modelContextBands bands model =
     sort_slice (\<lambda>a b. cb_at a < cb_at b)
       (case map_of bands (contextSelector bands model) of None \<Rightarrow> [] | Some bs \<Rightarrow> bs)"

definition ActiveContextBand :: "band_map \<Rightarrow> string \<Rightarrow> float64 \<Rightarrow> context_band option" where
  "ActiveContextBand bands model percent =
     (case rev (takeWhile (\<lambda>b. \<not> percent < cb_at b) (modelContextBands bands model)) of
        [] \<Rightarrow> None | b # _ \<Rightarrow> Some b)"

definition CrossedContextBands :: "band_map \<Rightarrow> string \<Rightarrow> float64 \<Rightarrow> float64 \<Rightarrow> context_band list" where
  "CrossedContextBands bands model previous current =
     filter (\<lambda>b. previous < cb_at b \<and> current \<ge> cb_at b) (modelContextBands bands model)"

definition override_bands :: "context_band_thresholds \<Rightarrow> context_band list \<Rightarrow> context_band list" where
  "override_bands t bs = (case bs of
       [early, late] \<Rightarrow> [early\<lparr>cb_at := thr_early t\<rparr>, late\<lparr>cb_at := thr_late t\<rparr>]
     | _ \<Rightarrow> bs)"

definition agentContextCollar :: "agent \<Rightarrow> band_map \<Rightarrow> band_map" where
  "agentContextCollar a bands = (case ag_context_band_thresholds a of
       None \<Rightarrow> bands
     | Some t \<Rightarrow> map (\<lambda>(selector, bs). (selector, override_bands t bs)) bands)"

section \<open>Native readings\<close>

definition accept_reading :: "native_state \<Rightarrow> reading \<Rightarrow> native_state" where
  "accept_reading n r =
     (if rd_kind r = ''compaction-checkpoint'' \<or> rd_kind r = ''compaction-finished'' then
        (case rd_at r of
           None \<Rightarrow> n
         | Some t \<Rightarrow>
             let n1 = (if rd_kind r = ''compaction-finished'' \<and> t > nat_confirmed_compacted_at n
                       then n\<lparr>nat_confirmed_compacted_at := t\<rparr> else n) in
             if t > nat_compacted_at n1 then
               let n2 = n1\<lparr>nat_compacted_at := t\<rparr> in
               if (case rd_at (nat_context n2) of None \<Rightarrow> True | Some u \<Rightarrow> \<not> u > t)
               then n2\<lparr>nat_context := blank_reading\<lparr>rd_kind := ''context'', rd_source := rd_source r, rd_status := ''unknown'',
                      rd_reason := ''compaction completed; waiting for a newer native measurement''\<rparr>\<rparr>
               else n2
             else n1)
      else if rd_kind r = ''model'' then n\<lparr>nat_model := rd_model r, nat_effort := rd_effort r\<rparr>
      else if rd_kind r = ''context'' then
        (if (case rd_at (nat_context n) of None \<Rightarrow> False | Some u \<Rightarrow>
              (case rd_at r of None \<Rightarrow> True | Some t \<Rightarrow> t < u)) then n
         else if nat_compacted_at n \<noteq> zero_time
              \<and> (case rd_at r of None \<Rightarrow> True | Some t \<Rightarrow> \<not> t > nat_compacted_at n) then n
         else n\<lparr>nat_context := (if rd_model r = '''' then r\<lparr>rd_model := nat_model n\<rparr> else r)\<rparr>)
      else if rd_kind r = ''provider-limits'' then
        (if (case rd_at (nat_limits n) of None \<Rightarrow> False | Some u \<Rightarrow>
              (case rd_at r of None \<Rightarrow> True | Some t \<Rightarrow> t < u)) then n
         else n\<lparr>nat_limits := r\<rparr>)
      else if rd_kind r = ''error'' then
        (case rd_at r of
           None \<Rightarrow> n
         | Some t \<Rightarrow> if t > nat_last_error_at n
             then n\<lparr>nat_last_error_at := t, nat_last_error := rd_reason r\<rparr> else n)
      else n)"

definition acceptReadings :: "native_state \<Rightarrow> reading list \<Rightarrow> native_state" where
  "acceptReadings n rs = foldl accept_reading n rs"

section \<open>Notes\<close>

definition contextBandAdvice :: string where
  "contextBandAdvice = ''{{band}} {{threshold_percent}}% crossed: save state and compact/clear''"

definition contextBandOrder :: string where
  "contextBandOrder = ''{{band}} {{threshold_percent}}% crossed: save state and compact/clear now''"

definition contextBandCompactCommand :: string where
  "contextBandCompactCommand = ''gang compact --note '' @ [CHR 0x27] @ ''Resume from FILE'' @ [CHR 0x27]"

text \<open>The three fields that the Go code dereferences are set when a message is rendered.\<close>

definition renderContextBandMessage :: "(float64 \<Rightarrow> float64) \<Rightarrow> context_band \<Rightarrow> bool \<Rightarrow> agent \<Rightarrow> reading \<Rightarrow> string" where
  "renderContextBandMessage fl band is_last a r =
     replace_tokens
       [(''{{band}}'', cb_name band),
        (''{{threshold_percent}}'', format0 (fl (cb_at band * 100))),
        (''{{used_tokens}}'', show_int (the (rd_used r))),
        (''{{limit_tokens}}'', show_int (the (rd_limit r))),
        (''{{used_percent}}'', format0 (the (rd_percent r))),
        (''{{model}}'', rd_model r),
        (''{{agent_name}}'', ag_name a),
        (''{{compact_command}}'', contextBandCompactCommand)]
       (if cb_message band = '''' then (if is_last then contextBandOrder else contextBandAdvice)
        else cb_message band)"

text \<open>\<^verbatim>\<open>run.record\<close>: the event of an agent, at its own time or now.\<close>

definition record_event :: "team_paths \<Rightarrow> agent \<Rightarrow> event \<Rightarrow> unit io" where
  "record_event p a e =
     and_then (reads now) (\<lambda>t.
       Append p ((if ev_at e = zero_time then e\<lparr>ev_at := t\<rparr> else e)\<lparr>ev_hitch_id := ag_id a, ev_name := ag_name a\<rparr>))"

definition band_envelope :: "agent \<Rightarrow> uint64 \<Rightarrow> string \<Rightarrow> time \<Rightarrow> string \<Rightarrow> envelope" where
  "band_envelope a n token t text =
     blank_envelope\<lparr>env_id := ''context-'' @ decimal (unat n), env_token := token, env_recipient := ag_id a,
       env_to := ag_name a,
       env_from := blank_sender\<lparr>snd_kind := SenderGangline, snd_name := ''context-band''\<rparr>,
       env_created_at := t, env_message := \<lparr>msg_text = text\<rparr>\<rparr>"

text \<open>
  One crossing: the token may fail to be drawn; the note is pending before it is recorded.
  The draw of a token is an argument, by the sequence number it is for.
\<close>

definition note_crossing :: "(float64 \<Rightarrow> float64) \<Rightarrow> team_paths \<Rightarrow> (uint64 \<Rightarrow> string) \<Rightarrow> context_band option \<Rightarrow> reading
    \<Rightarrow> context_band \<Rightarrow> agent \<Rightarrow> (err option \<times> agent) io" where
  "note_crossing fl p draws final r band a =
     and_then (attempt sys) (\<lambda>drawn. case drawn of
       Inl e \<Rightarrow> ret (Some e, a)
     | Inr _ \<Rightarrow>
         and_then (reads now) (\<lambda>t.
         let n = band_sequence (ag_context_bands a) + 1;
             is_last = (case final of None \<Rightarrow> False | Some l \<Rightarrow> cb_name band = cb_name l);
             e = band_envelope a n (draws n) t (renderContextBandMessage fl band is_last a r);
             a1 = a\<lparr>ag_context_bands := (ag_context_bands a)\<lparr>band_sequence := n,
                    band_pending := band_pending (ag_context_bands a) @
                      [\<lparr>note_threshold = cb_at band, note_band = cb_name band, note_reading = r, note_envelope = e\<rparr>]\<rparr>\<rparr> in
         and_then (attempt (record_event p a1 (blank_event\<lparr>ev_type := ''context_band_crossed'', ev_id := env_id e,
             ev_status := cb_name band, ev_envelope := Some e, ev_readings := [r]\<rparr>))) (\<lambda>logged.
         ret (case logged of Inl x \<Rightarrow> Some x | Inr _ \<Rightarrow> None, a1))))"

fun note_crossings :: "(float64 \<Rightarrow> float64) \<Rightarrow> team_paths \<Rightarrow> (uint64 \<Rightarrow> string) \<Rightarrow> context_band option \<Rightarrow> reading
    \<Rightarrow> context_band list \<Rightarrow> agent \<Rightarrow> (err option \<times> agent) io" where
  "note_crossings fl p draws final r [] a = ret (None, a)"
| "note_crossings fl p draws final r (b # bs) a =
     and_then (note_crossing fl p draws final r b a) (\<lambda>(x, a1). case x of
       Some e \<Rightarrow> ret (Some e, a1)
     | None \<Rightarrow> note_crossings fl p draws final r bs a1)"

text \<open>A compaction newer than the state starts the comparison anew.\<close>

definition rebase_bands :: "agent \<Rightarrow> agent" where
  "rebase_bands a =
     (if nat_compacted_at (ag_native a) > band_compacted_at (ag_context_bands a)
      then a\<lparr>ag_context_bands := (ag_context_bands a)\<lparr>band_model := '''', band_percent := 0,
             band_compacted_at := nat_compacted_at (ag_native a)\<rparr>\<rparr>
      else a)"

definition usable_reading :: "reading \<Rightarrow> bool" where
  "usable_reading r \<longleftrightarrow> rd_status r = ''observed'' \<and> rd_model r \<noteq> '''' \<and> rd_used r \<noteq> None
     \<and> rd_limit r \<noteq> None \<and> rd_percent r \<noteq> None"

definition previous_percent :: "context_band_state \<Rightarrow> reading \<Rightarrow> float64" where
  "previous_percent s r =
     (if band_model s = '''' \<and> band_compacted_at s = zero_time \<or> band_model s \<noteq> '''' \<and> band_model s \<noteq> rd_model r
      then - 1
      else if band_model s = '''' then the (rd_percent r) else band_percent s)"

definition noteContextBands :: "(float64 \<Rightarrow> float64) \<Rightarrow> team_paths \<Rightarrow> (uint64 \<Rightarrow> string) \<Rightarrow> agent \<Rightarrow> band_map
    \<Rightarrow> (err option \<times> agent) io" where
  "noteContextBands fl p draws a collar =
     (if ag_status a \<noteq> Active then ret (None, a)
      else
        let bands = agentContextCollar a collar; a1 = rebase_bands a; r = nat_context (ag_native a1) in
        if \<not> usable_reading r then ret (None, a1)
        else
          let previous = previous_percent (ag_context_bands a1) r; final = ActiveContextBand bands (rd_model r) 1;
              crossed = CrossedContextBands bands (rd_model r) (fl (previous / 100)) (fl (the (rd_percent r) / 100)) in
          and_then (note_crossings fl p draws final r crossed a1) (\<lambda>(x, a2). case x of
            Some e \<Rightarrow> ret (Some e, a2)
          | None \<Rightarrow> ret (None, a2\<lparr>ag_context_bands :=
              (ag_context_bands a2)\<lparr>band_model := rd_model r, band_percent := the (rd_percent r)\<rparr>\<rparr>)))"

text \<open>What a reading of a finished compaction does before it is accepted.\<close>

definition note_finished :: "agent \<Rightarrow> reading \<Rightarrow> agent" where
  "note_finished a r =
     (case rd_at r of
        None \<Rightarrow> a
      | Some t \<Rightarrow>
          if rd_kind r \<noteq> ''compaction-finished'' then a
          else
            let a1 = (case ag_compaction a of
                  None \<Rightarrow> a
                | Some c \<Rightarrow> if (cmp_status c = ''submitted'' \<or> cmp_status c = ''unverified'') \<and> t > cmp_started_at c
                    then a\<lparr>ag_compaction := Some (c\<lparr>cmp_completed_at := t\<rparr>)\<rparr> else a) in
            if t > nat_confirmed_compacted_at (ag_native a1)
            then a1\<lparr>ag_context_bands := (ag_context_bands a1)\<lparr>band_pending := [], band_discard_queued := True\<rparr>\<rparr>
            else a1)"

fun acceptContextReadings :: "(float64 \<Rightarrow> float64) \<Rightarrow> team_paths \<Rightarrow> (uint64 \<Rightarrow> string) \<Rightarrow> agent \<Rightarrow> band_map \<Rightarrow> reading list
    \<Rightarrow> (err option \<times> agent) io" where
  "acceptContextReadings fl p draws a collar [] = ret (None, a)"
| "acceptContextReadings fl p draws a collar (r # rs) =
     (let a1 = note_finished a r; a2 = a1\<lparr>ag_native := acceptReadings (ag_native a1) [r]\<rparr> in
      if rd_kind r = ''compaction-finished'' then acceptContextReadings fl p draws a2 collar rs
      else and_then (noteContextBands fl p draws a2 collar) (\<lambda>(x, a3). case x of
          Some e \<Rightarrow> ret (Some e, a3)
        | None \<Rightarrow> acceptContextReadings fl p draws a3 collar rs))"

section \<open>The selector does not depend on the iteration order\<close>

text \<open>How selectors rank: by specificity, and among equals the smaller text first.\<close>

definition outranks :: "string \<Rightarrow> string \<Rightarrow> bool" where
  "outranks s t \<longleftrightarrow> specificity s > specificity t \<or> specificity s = specificity t \<and> s \<le> t"

definition best_of :: "string \<Rightarrow> string set \<Rightarrow> string \<times> int \<Rightarrow> bool" where
  "best_of model selectors best \<longleftrightarrow>
     (if \<exists>s \<in> selectors. filepath_match s model
      then fst best \<in> selectors \<and> filepath_match (fst best) model \<and> snd best = specificity (fst best)
        \<and> (\<forall>s \<in> selectors. filepath_match s model \<longrightarrow> outranks (fst best) s)
      else best = ('''', - 1))"

lemma specificity_nonneg: "specificity s \<ge> 0"
  by (simp add: specificity_def)

lemma best_step:
  assumes "best_of model selectors best"
  shows "best_of model (insert s selectors) (better_selector model best s)"
proof (cases "filepath_match s model")
  case False
  then show ?thesis using assms by (auto simp: best_of_def better_selector_def split: if_splits)
next
  case s: True
  show ?thesis
  proof (cases "\<exists>t \<in> selectors. filepath_match t model")
    case True
    then have b: "fst best \<in> selectors" "filepath_match (fst best) model" "snd best = specificity (fst best)"
      "\<And>t. t \<in> selectors \<Longrightarrow> filepath_match t model \<Longrightarrow> outranks (fst best) t"
      using assms by (auto simp: best_of_def)
    show ?thesis
    proof (cases "specificity s > snd best \<or> specificity s = snd best \<and> s < fst best")
      case better: True
      then have "outranks s t" if "outranks (fst best) t" for t
        using that b(3) by (auto simp: outranks_def)
      then show ?thesis using better s b by (auto simp: best_of_def better_selector_def outranks_def)
    next
      case False
      then have "outranks (fst best) s" using b(3) by (auto simp: outranks_def)
      then show ?thesis using False s b by (auto simp: best_of_def better_selector_def)
    qed
  next
    case False
    then have "best = ('''', - 1)" using assms by (auto simp: best_of_def)
    then have "better_selector model best s = (s, specificity s)"
      using s specificity_nonneg [of s] by (simp add: better_selector_def)
    then show ?thesis using False s by (auto simp: best_of_def outranks_def)
  qed
qed

lemma best_foldl: "best_of model selectors best \<Longrightarrow>
    best_of model (set ss \<union> selectors) (foldl (better_selector model) best ss)"
proof (induction ss arbitrary: best selectors)
  case (Cons s ss)
  have "best_of model (set ss \<union> insert s selectors) (foldl (better_selector model) (better_selector model best s) ss)"
    by (rule Cons.IH) (rule best_step [OF Cons.prems])
  then show ?case by simp
qed simp

lemma contextSelector_best:
  assumes "model \<noteq> ''''"
  shows "\<exists>n. best_of model (set (map fst bands)) (contextSelector bands model, n)"
proof -
  have "best_of model {} ('''', - 1)" by (simp add: best_of_def)
  from best_foldl [OF this, of "map fst bands"] show ?thesis
    using assms by (intro exI [of _ "snd (foldl (better_selector model) ('''', - 1) (map fst bands))"])
      (simp add: contextSelector_def)
qed

text \<open>
  The bands of a model are those of the most specific selector
  that matches it, the least in byte order among equally specific ones; so the choice does
  not depend on the iteration order of the map. No selector matches: no bands.
\<close>

theorem band_selector_exact:
  assumes "model \<noteq> ''''" "set (map fst bands) = set (map fst bands')"
  shows "contextSelector bands model = contextSelector bands' model
    \<and> (if \<exists>s \<in> set (map fst bands). filepath_match s model
       then contextSelector bands model \<in> set (map fst bands) \<and> filepath_match (contextSelector bands model) model
         \<and> (\<forall>s \<in> set (map fst bands). filepath_match s model \<longrightarrow> outranks (contextSelector bands model) s)
       else contextSelector bands model = '''')"
proof -
  obtain n m where b: "best_of model (set (map fst bands)) (contextSelector bands model, n)"
    and b': "best_of model (set (map fst bands)) (contextSelector bands' model, m)"
    using contextSelector_best [OF assms(1), of bands] contextSelector_best [OF assms(1), of bands'] assms(2) by auto
  have "contextSelector bands model = contextSelector bands' model"
  proof (cases "\<exists>s \<in> set (map fst bands). filepath_match s model")
    case True
    then have "outranks (contextSelector bands model) (contextSelector bands' model)"
      "outranks (contextSelector bands' model) (contextSelector bands model)"
      using b b' unfolding best_of_def by auto
    then show ?thesis by (auto simp: outranks_def)
  qed (use b b' in \<open>auto simp: best_of_def\<close>)
  then show ?thesis using b by (auto simp: best_of_def split: if_splits)
qed

theorem band_selector_exact_witness:
  "contextSelector [(''*'', []), (''op*'', [])] ''opus'' = ''op*''"
proof -
  have keys: "filepath_match ''op*'' ''opus''" "filepath_match ''*'' ''opus''"
    using filepath_match_prefix [of "''op''" "''opus''"] filepath_match_prefix [of "''''" "''opus''"]
    by (simp_all add: literal_def has_prefix_def)
  have "outranks (contextSelector [(''*'', []), (''op*'', [])] ''opus'') ''op*''
      \<and> contextSelector [(''*'', []), (''op*'', [])] ''opus'' \<in> {''*'', ''op*''}"
    using band_selector_exact [of "''opus''" "[(''*'', []), (''op*'', [])]" "[(''*'', []), (''op*'', [])]"] keys by auto
  then show ?thesis by (auto simp: outranks_def specificity_def)
qed

section \<open>A stale measurement is never kept\<close>

definition fresh_context :: "native_state \<Rightarrow> bool" where
  "fresh_context n \<longleftrightarrow> nat_compacted_at n = zero_time
     \<or> (\<forall>u. rd_at (nat_context n) = Some u \<longrightarrow> u > nat_compacted_at n)"

definition times_kept :: "native_state \<Rightarrow> native_state \<Rightarrow> bool" where
  "times_kept n m \<longleftrightarrow> nat_compacted_at n \<le> nat_compacted_at m
     \<and> nat_confirmed_compacted_at n \<le> nat_confirmed_compacted_at m \<and> nat_last_error_at n \<le> nat_last_error_at m"

lemma accept_reading_kinds:
  "rd_kind r = ''context'' \<Longrightarrow> nat_compacted_at (accept_reading n r) = nat_compacted_at n"
  "rd_kind r \<notin> {''compaction-checkpoint'', ''compaction-finished'', ''context''} \<Longrightarrow>
     nat_compacted_at (accept_reading n r) = nat_compacted_at n \<and> nat_context (accept_reading n r) = nat_context n"
  by (auto simp: accept_reading_def Let_def split: option.split)

lemma accept_fresh:
  assumes "fresh_context n"
  shows "fresh_context (accept_reading n r)"
proof -
  consider (compaction) "rd_kind r \<in> {''compaction-checkpoint'', ''compaction-finished''}"
    | (measured) "rd_kind r = ''context''"
    | (other) "rd_kind r \<notin> {''compaction-checkpoint'', ''compaction-finished'', ''context''}" by blast
  then show ?thesis
  proof cases
    case compaction
    then show ?thesis using assms
      by (auto simp: accept_reading_def fresh_context_def blank_reading_def Let_def split: option.splits)
  next
    case measured
    then show ?thesis using assms
      by (auto simp: accept_reading_def fresh_context_def split: option.splits if_splits)
  next
    case other
    then show ?thesis using assms accept_reading_kinds(2) [OF other, of n] by (simp add: fresh_context_def)
  qed
qed

lemma accept_times: "times_kept n (accept_reading n r)"
  by (auto simp: accept_reading_def times_kept_def Let_def split: option.split)

text \<open>
  Over any batch of native readings, the times of the last
  compaction, confirmed compaction and error never go back, and a context measurement with
  a time is kept only if it is newer than the last compaction.
\<close>

theorem context_never_stale:
  "times_kept n (acceptReadings n rs) \<and> (fresh_context n \<longrightarrow> fresh_context (acceptReadings n rs))"
proof (induction rs rule: rev_induct)
  case (snoc r rs)
  then show ?case
    using accept_times [of "acceptReadings n rs" r] accept_fresh [of "acceptReadings n rs" r]
    by (auto simp: acceptReadings_def times_kept_def)
qed (simp add: acceptReadings_def times_kept_def)

theorem context_never_stale_witness:
  "fresh_context (acceptReadings blank_native
     [blank_reading\<lparr>rd_kind := ''context'', rd_at := Some 5\<rparr>, blank_reading\<lparr>rd_kind := ''compaction-finished'', rd_at := Some 7\<rparr>])"
  using context_never_stale [of blank_native] by (simp add: fresh_context_def blank_native_def)

section \<open>Each crossing is noted once\<close>

definition noted :: "reading \<Rightarrow> context_band \<Rightarrow> agent \<Rightarrow> agent \<Rightarrow> bool" where
  "noted r b a a' \<longleftrightarrow> (\<exists>e. a' = a\<lparr>ag_context_bands := (ag_context_bands a)\<lparr>band_sequence := band_sequence (ag_context_bands a) + 1,
      band_pending := band_pending (ag_context_bands a) @
        [\<lparr>note_threshold = cb_at b, note_band = cb_name b, note_reading = r, note_envelope = e\<rparr>]\<rparr>\<rparr>
    \<and> env_id e = ''context-'' @ decimal (unat (band_sequence (ag_context_bands a) + 1)) \<and> env_recipient e = ag_id a)"

lemma wp_any: "(\<And>x w'. Q x w') \<Longrightarrow> (\<And>e w'. E e w') \<Longrightarrow> wp m Q E w"
  by (auto simp: wp_def split: prod.split sum.split)

lemma note_crossing_noted:
  assumes "note_crossing fl p draws final r b a w = (Inr (None, a'), w')"
  shows "noted r b a a'"
proof -
  have "wp (note_crossing fl p draws final r b a) (\<lambda>(x, a') _. x = None \<longrightarrow> noted r b a a') (\<lambda>_ _. True) w"
    unfolding note_crossing_def wp_simps wp_attempt Let_def
  proof (rule wp_sys, goal_cases)
    case (1 bs)
    show ?case
      unfolding sum.case wp_simps wp_attempt
      by (rule wp_any) (auto simp: noted_def band_envelope_def)
  qed simp
  from wp_okD [OF this assms] show ?thesis by simp
qed

fun all_noted :: "reading \<Rightarrow> context_band list \<Rightarrow> agent \<Rightarrow> agent \<Rightarrow> bool" where
  "all_noted r [] a a' \<longleftrightarrow> a' = a"
| "all_noted r (b # bs) a a' \<longleftrightarrow> (\<exists>a1. noted r b a a1 \<and> all_noted r bs a1 a')"

lemma note_crossings_noted:
  "note_crossings fl p draws final r bs a w = (Inr (None, a'), w') \<Longrightarrow> all_noted r bs a a'"
proof (induction bs arbitrary: a w)
  case (Cons b bs)
  obtain x a1 w1 where one: "note_crossing fl p draws final r b a w = (Inr (x, a1), w1)"
    using Cons.prems by (cases "note_crossing fl p draws final r b a w"; cases "fst (note_crossing fl p draws final r b a w)")
      (auto simp: and_then_def)
  with Cons.prems have x: "x = None" "note_crossings fl p draws final r bs a1 w1 = (Inr (None, a'), w')"
    by (cases x; simp add: and_then_def ret_def)+
  then show ?case using note_crossing_noted [of fl p draws final r b a w a1 w1] one Cons.IH by auto
qed (simp add: ret_def)

text \<open>The notes of a run of crossings: one per band, with consecutive sequence numbers.\<close>

definition numbered_notes :: "uint64 \<Rightarrow> context_band list \<Rightarrow> context_band_note list \<Rightarrow> bool" where
  "numbered_notes n bs ns \<longleftrightarrow> length ns = length bs \<and> (\<forall>k < length bs.
     note_band (ns ! k) = cb_name (bs ! k) \<and> note_threshold (ns ! k) = cb_at (bs ! k)
     \<and> env_id (note_envelope (ns ! k)) = ''context-'' @ decimal (unat (n + of_nat (k + 1))))"

lemma numbered_Cons:
  assumes "numbered_notes (n + 1) bs ns" "note_band x = cb_name b" "note_threshold x = cb_at b"
    and "env_id (note_envelope x) = ''context-'' @ decimal (unat (n + 1))"
  shows "numbered_notes n (b # bs) (x # ns)"
  using assms by (auto simp: numbered_notes_def less_Suc_eq_0_disj add.assoc)

lemma all_noted_pending:
  "all_noted r bs a a' \<Longrightarrow> \<exists>ns. numbered_notes (band_sequence (ag_context_bands a)) bs ns
     \<and> a' = a\<lparr>ag_context_bands := (ag_context_bands a)\<lparr>band_sequence := band_sequence (ag_context_bands a) + of_nat (length bs),
         band_pending := band_pending (ag_context_bands a) @ ns\<rparr>\<rparr>"
proof (induction bs arbitrary: a)
  case Nil
  then show ?case by (intro exI [of _ "[]"]) (simp add: numbered_notes_def)
next
  case (Cons b bs)
  then obtain a1 where one: "noted r b a a1" and later: "all_noted r bs a1 a'" by auto
  from one obtain e where a1: "a1 = a\<lparr>ag_context_bands := (ag_context_bands a)\<lparr>band_sequence := band_sequence (ag_context_bands a) + 1,
      band_pending := band_pending (ag_context_bands a) @
        [\<lparr>note_threshold = cb_at b, note_band = cb_name b, note_reading = r, note_envelope = e\<rparr>]\<rparr>\<rparr>"
    and e: "env_id e = ''context-'' @ decimal (unat (band_sequence (ag_context_bands a) + 1))"
    unfolding noted_def by blast
  from Cons.IH [OF later] obtain ns where ns: "numbered_notes (band_sequence (ag_context_bands a1)) bs ns"
    and a': "a' = a1\<lparr>ag_context_bands := (ag_context_bands a1)\<lparr>band_sequence := band_sequence (ag_context_bands a1) + of_nat (length bs),
         band_pending := band_pending (ag_context_bands a1) @ ns\<rparr>\<rparr>" by blast
  let ?x = "\<lparr>note_threshold = cb_at b, note_band = cb_name b, note_reading = r, note_envelope = e\<rparr>"
  have "numbered_notes (band_sequence (ag_context_bands a)) (b # bs) (?x # ns)"
    by (rule numbered_Cons) (use ns e in \<open>simp_all add: a1\<close>)
  moreover have "a' = a\<lparr>ag_context_bands := (ag_context_bands a)\<lparr>band_sequence := band_sequence (ag_context_bands a) + of_nat (length (b # bs)),
         band_pending := band_pending (ag_context_bands a) @ (?x # ns)\<rparr>\<rparr>"
    unfolding a' a1 by (simp add: add.assoc)
  ultimately show ?case by blast
qed

lemma rebase_simps [simp]:
  "ag_native (rebase_bands a) = ag_native a" "ag_status (rebase_bands a) = ag_status a"
  "ag_context_band_thresholds (rebase_bands a) = ag_context_band_thresholds a"
  "band_sequence (ag_context_bands (rebase_bands a)) = band_sequence (ag_context_bands a)"
  "band_pending (ag_context_bands (rebase_bands a)) = band_pending (ag_context_bands a)"
  "\<not> nat_compacted_at (ag_native a) > band_compacted_at (ag_context_bands (rebase_bands a))"
  by (auto simp: rebase_bands_def)

text \<open>The bands a reading newly crosses, as the code compares them.\<close>

definition new_crossings :: "(float64 \<Rightarrow> float64) \<Rightarrow> agent \<Rightarrow> band_map \<Rightarrow> context_band list" where
  "new_crossings fl a collar =
     (let r = nat_context (ag_native a) in
      CrossedContextBands (agentContextCollar a collar) (rd_model r)
        (fl (previous_percent (ag_context_bands (rebase_bands a)) r / 100)) (fl (the (rd_percent r) / 100)))"

text \<open>
  What they should be. The reading is compared with the last one of the same model; with itself
  right after a compaction, so that it crosses nothing; and otherwise with nothing, so that every
  threshold up to it is crossed.
\<close>

definition baseline :: "agent \<Rightarrow> reading \<Rightarrow> float64" where
  "baseline a r =
     (let b = ag_context_bands a; compacted = nat_compacted_at (ag_native a); reset = compacted > band_compacted_at b in
      if \<not> reset \<and> band_model b \<noteq> '''' then (if band_model b = rd_model r then band_percent b else - 1)
      else if (if reset then compacted else band_compacted_at b) = zero_time then - 1
      else the (rd_percent r))"

text \<open>The bands declared for a model: those of the best selector that matches it.\<close>

definition declared_bands :: "band_map \<Rightarrow> string \<Rightarrow> context_band list \<Rightarrow> bool" where
  "declared_bands bands model bs \<longleftrightarrow> (\<exists>s.
     (if \<exists>t \<in> set (map fst bands). filepath_match t model
      then s \<in> set (map fst bands) \<and> filepath_match s model \<and> (\<forall>t \<in> set (map fst bands). filepath_match t model \<longrightarrow> outranks s t)
      else s = '''')
     \<and> bs = (case map_of bands s of None \<Rightarrow> [] | Some xs \<Rightarrow> xs))"

definition newly_crossed :: "(float64 \<Rightarrow> float64) \<Rightarrow> agent \<Rightarrow> band_map \<Rightarrow> context_band list \<Rightarrow> bool" where
  "newly_crossed fl a collar bs \<longleftrightarrow> (let r = nat_context (ag_native a) in
     sorted_wrt (\<lambda>x y. cb_at x \<le> cb_at y) bs
     \<and> (\<exists>all. declared_bands (agentContextCollar a collar) (rd_model r) all
          \<and> mset bs = filter_mset (\<lambda>b. fl (baseline a r / 100) < cb_at b \<and> cb_at b \<le> fl (the (rd_percent r) / 100)) (mset all)))"

lemma sort_bands: "sorted_wrt (\<lambda>x y. cb_at x \<le> cb_at y) (sort_slice (\<lambda>a b. cb_at a < cb_at b) bs)"
  "mset (sort_slice (\<lambda>a b. cb_at a < cb_at b) bs) = mset bs"
proof -
  have insort: "sorted_wrt (\<lambda>x y. cb_at x \<le> cb_at y) xs \<Longrightarrow> sorted_wrt (\<lambda>x y. cb_at x \<le> cb_at y) (insort_less (\<lambda>a b. cb_at a < cb_at b) b xs)"
    for b xs by (induction xs) auto
  have same: "mset (insort_less (\<lambda>a b. cb_at a < cb_at b) b xs) = add_mset b (mset xs)" for b xs by (induction xs) auto
  show "sorted_wrt (\<lambda>x y. cb_at x \<le> cb_at y) (sort_slice (\<lambda>a b. cb_at a < cb_at b) bs)"
    by (induction bs) (simp_all add: insort)
  show "mset (sort_slice (\<lambda>a b. cb_at a < cb_at b) bs) = mset bs" by (induction bs) (simp_all add: same)
qed

lemma previous_baseline: "previous_percent (ag_context_bands (rebase_bands a)) r = baseline a r"
  by (auto simp: previous_percent_def rebase_bands_def baseline_def Let_def)

lemma new_crossings_exact:
  assumes "rd_model (nat_context (ag_native a)) \<noteq> ''''"
  shows "newly_crossed fl a collar (new_crossings fl a collar)"
proof -
  let ?r = "nat_context (ag_native a)" and ?bands = "agentContextCollar a collar"
  let ?all = "case map_of ?bands (contextSelector ?bands (rd_model ?r)) of None \<Rightarrow> [] | Some bs \<Rightarrow> bs"
  obtain n where "best_of (rd_model ?r) (set (map fst ?bands)) (contextSelector ?bands (rd_model ?r), n)"
    using contextSelector_best [OF assms] by blast
  then have "declared_bands ?bands (rd_model ?r) ?all"
    unfolding declared_bands_def best_of_def by (intro exI [of _ "contextSelector ?bands (rd_model ?r)"]) (auto split: if_splits)
  then show ?thesis
    unfolding newly_crossed_def new_crossings_def Let_def CrossedContextBands_def modelContextBands_def previous_baseline mset_filter sort_bands(2)
    by (intro conjI exI [of _ ?all] sorted_wrt_filter sort_bands(1)) (simp_all add: conj_commute)
qed

text \<open>
  C40 (crossings_noted_once): when \<^verbatim>\<open>noteContextBands\<close> returns without error for an active
  agent with a usable reading, the notes appended to the pending ones are one for each newly
  crossed band, in threshold order and with consecutive sequence numbers: of the bands declared
  for the reading's model (by the most specific selector that matches it), those above the
  baseline and at most at the reading. The baseline is the last percentage noted for the same
  model, the reading itself right after a compaction, and otherwise below everything. Looking at
  the same reading again, under any failures, adds no note and reports no error.
\<close>

theorem crossings_noted_once:
  assumes "ag_status a = Active" "usable_reading (nat_context (ag_native a))"
    and "noteContextBands fl p draws a collar w = (Inr (None, a'), w')"
  shows "(\<exists>bs ns. newly_crossed fl a collar bs \<and> numbered_notes (band_sequence (ag_context_bands a)) bs ns
      \<and> band_pending (ag_context_bands a') = band_pending (ag_context_bands a) @ ns)
    \<and> noteContextBands fl p draws a' collar v = (Inr (None, a'), v)"
proof -
  let ?a = "rebase_bands a" and ?r = "nat_context (ag_native a)"
  let ?new = "new_crossings fl a collar"
  obtain a2 where bs: "note_crossings fl p draws (ActiveContextBand (agentContextCollar a collar) (rd_model ?r) 1) ?r ?new ?a w
      = (Inr (None, a2), w')"
    and a': "a' = a2\<lparr>ag_context_bands := (ag_context_bands a2)\<lparr>band_model := rd_model ?r, band_percent := the (rd_percent ?r)\<rparr>\<rparr>"
    using assms by (auto simp: noteContextBands_def and_then_def ret_def Let_def new_crossings_def
        split: prod.splits sum.splits option.splits)
  from all_noted_pending [OF note_crossings_noted [OF bs]] obtain ns
    where ns: "numbered_notes (band_sequence (ag_context_bands a)) ?new ns"
    and a2: "a2 = ?a\<lparr>ag_context_bands := (ag_context_bands ?a)\<lparr>band_sequence := band_sequence (ag_context_bands a) + of_nat (length ?new),
         band_pending := band_pending (ag_context_bands a) @ ns\<rparr>\<rparr>" by auto
  have pending: "band_pending (ag_context_bands a') = band_pending (ag_context_bands a) @ ns" by (simp add: a' a2)
  have same: "ag_native a' = ag_native a" "ag_status a' = Active" "rebase_bands a' = a'"
    "agentContextCollar a' = agentContextCollar a" "rd_model ?r \<noteq> ''''"
    using assms(1,2) by (simp_all add: a' a2 rebase_bands_def agentContextCollar_def fun_eq_iff usable_reading_def)
  have "previous_percent (ag_context_bands a') ?r = the (rd_percent ?r)"
    using same(5) by (simp add: previous_percent_def a')
  then have "noteContextBands fl p draws a' collar v = (Inr (None, a'), v)"
    using assms(2) same by (simp add: noteContextBands_def and_then_def ret_def Let_def CrossedContextBands_def not_less)
      (simp add: a')
  with ns pending new_crossings_exact [OF same(5)] show ?thesis by blast
qed

text \<open>An active agent at half its context, and a collar with one band at its start.\<close>

definition half_used :: reading where
  "half_used = blank_reading\<lparr>rd_kind := ''context'', rd_status := ''observed'', rd_model := ''opus'',
     rd_used := Some 50, rd_limit := Some 100, rd_percent := Some 50\<rparr>"

definition demo_working :: agent where
  "demo_working = blank_agent\<lparr>ag_status := Active, ag_native := blank_native\<lparr>nat_context := half_used\<rparr>\<rparr>"

definition onset :: context_band where
  "onset = \<lparr>cb_name = ''onset'', cb_at = 0, cb_message = ''''\<rparr>"

lemma demo_crossing: "new_crossings (\<lambda>x. x) demo_working [(''*'', [onset])] = [onset]"
proof -
  have "filepath_match ''*'' ''opus''"
    using filepath_match_prefix [of "''''" "''opus''"] by (simp add: has_prefix_def)
  then have "contextSelector [(''*'', [onset])] ''opus'' = ''*''"
    by (simp add: contextSelector_def better_selector_def specificity_def)
  then show ?thesis
    by (simp add: new_crossings_def demo_working_def half_used_def blank_agent_def blank_native_def blank_bands_def
        agentContextCollar_def CrossedContextBands_def modelContextBands_def rebase_bands_def previous_percent_def onset_def)
qed

lemma demo_newly: "newly_crossed (\<lambda>x. x) demo_working [(''*'', [onset])] bs \<Longrightarrow> bs = [onset]"
proof -
  assume new: "newly_crossed (\<lambda>x. x) demo_working [(''*'', [onset])] bs"
  have "filepath_match ''*'' ''opus''"
    using filepath_match_prefix [of "''''" "''opus''"] by (simp add: has_prefix_def)
  then have only: "declared_bands [(''*'', [onset])] ''opus'' all \<Longrightarrow> all = [onset]" for all by (auto simp: declared_bands_def)
  have data: "agentContextCollar demo_working [(''*'', [onset])] = [(''*'', [onset])]" "baseline demo_working half_used = - 1"
    "nat_context (ag_native demo_working) = half_used" "rd_model half_used = ''opus''" "rd_percent half_used = Some 50"
    by (simp_all add: demo_working_def half_used_def blank_agent_def blank_native_def blank_bands_def agentContextCollar_def baseline_def)
  obtain all where all: "declared_bands [(''*'', [onset])] ''opus'' all"
    "mset bs = {#b \<in># mset all. - 1 / 100 < cb_at b \<and> cb_at b \<le> 50 / 100#}"
    using new unfolding newly_crossed_def Let_def data option.sel by blast
  then have "mset bs = {#onset#}" using only [OF all(1)] by (simp add: onset_def)
  then show ?thesis by simp
qed

theorem crossings_noted_once_witness:
  "map note_band (band_pending (ag_context_bands
     (snd (sum.projr (fst (noteContextBands (\<lambda>x. x) (team_of [''t'']) (\<lambda>_. ''tok'') demo_working [(''*'', [onset])] demo_team_world))))))
     = [''onset'']"
proof -
  let ?run = "noteContextBands (\<lambda>x. x) (team_of [''t'']) (\<lambda>_. ''tok'') demo_working [(''*'', [onset])] demo_team_world"
  have active: "ag_status demo_working = Active" "usable_reading (nat_context (ag_native demo_working))"
    "band_pending (ag_context_bands demo_working) = []"
    by (simp_all add: demo_working_def half_used_def usable_reading_def blank_agent_def blank_bands_def)
  have crossed: "CrossedContextBands (agentContextCollar demo_working [(''*'', [onset])]) (rd_model (nat_context (ag_native demo_working)))
      (previous_percent (ag_context_bands (rebase_bands demo_working)) (nat_context (ag_native demo_working)) / 100)
      (the (rd_percent (nat_context (ag_native demo_working))) / 100) = [onset]"
    using demo_crossing by (simp add: new_crossings_def Let_def)
  have "fst (record_event (team_of [''t'']) a e demo_team_world) = Inr ()" for a e
    by (simp add: record_event_def and_then_def reads_def Append_def appendEvent_def lift_def os_open_create_def
        act_quiet os_append_def sys_quiet attempt_def ret_def demo_tree_def is_dir_def)
  then have logged: "x = Inr ()" if "record_event (team_of [''t'']) a e demo_team_world = (x, v)" for a e x v
    using that by (metis fst_conv)
  have "fst (sum.projr (fst ?run)) = None \<and> \<not> isl (fst ?run)"
    using active(1,2) crossed
    by (auto simp: noteContextBands_def Let_def and_then_def note_crossing_def attempt_def sys_quiet reads_def ret_def
        dest!: logged split: prod.split sum.split)
  then obtain a' where result: "fst ?run = Inr (None, a')" by (cases "fst ?run") auto
  then have run: "?run = (Inr (None, a'), snd ?run)" by (simp add: prod_eq_iff)
  note once = crossings_noted_once [OF active(1,2) run, THEN conjunct1, unfolded active(3) append_Nil]
  then obtain bs ns
    where "newly_crossed (\<lambda>x. x) demo_working [(''*'', [onset])] bs" "numbered_notes (band_sequence (ag_context_bands demo_working)) bs ns"
      and pending: "band_pending (ag_context_bands a') = ns"
    by blast
  then have "numbered_notes (band_sequence (ag_context_bands demo_working)) [onset] ns" using demo_newly by blast
  then have "map note_band ns = [''onset'']" by (cases ns) (auto simp: numbered_notes_def onset_def)
  then show ?thesis using pending by (simp add: result)
qed

text \<open>
  When a batch holds the end of a newer compaction and then a newer
  measurement, the pending notes are dropped, queued ones are marked for withdrawal, and
  the measurement is the new baseline: it crosses no band, whatever it reads.
\<close>

theorem compaction_rebases:
  assumes "ag_status a = Active" "rd_kind fin = ''compaction-finished''" "rd_at fin = Some t"
    and "t > nat_compacted_at (ag_native a)" "t > nat_confirmed_compacted_at (ag_native a)"
    and "t > band_compacted_at (ag_context_bands a)" "t > 0"
    and "\<And>u. rd_at (nat_context (ag_native a)) = Some u \<Longrightarrow> u \<le> t"
    and "rd_kind m = ''context''" "rd_at m = Some u" "u > t" "usable_reading m"
  shows "\<exists>a'. acceptContextReadings fl p draws a collar [fin, m] w = (Inr (None, a'), w)
    \<and> band_pending (ag_context_bands a') = [] \<and> band_discard_queued (ag_context_bands a')
    \<and> Some (band_percent (ag_context_bands a')) = rd_percent m \<and> nat_context (ag_native a') = m"
proof -
  let ?a1 = "note_finished a fin"
  let ?a2 = "?a1\<lparr>ag_native := acceptReadings (ag_native ?a1) [fin]\<rparr>"
  let ?a3 = "(note_finished ?a2 m)\<lparr>ag_native := acceptReadings (ag_native (note_finished ?a2 m)) [m]\<rparr>"
  have one: "ag_native ?a1 = ag_native a" "ag_status ?a1 = Active"
    "band_pending (ag_context_bands ?a1) = []" "band_discard_queued (ag_context_bands ?a1)"
    "band_compacted_at (ag_context_bands ?a1) = band_compacted_at (ag_context_bands a)"
    using assms by (auto simp: note_finished_def Let_def split: option.split)
  have "\<not> (case rd_at (nat_context (ag_native a)) of None \<Rightarrow> False | Some u \<Rightarrow> u > t)"
    using assms(8) by (auto split: option.split)
  then have two: "nat_compacted_at (ag_native ?a2) = t" "rd_at (nat_context (ag_native ?a2)) = None"
    using assms one(1) by (auto simp: acceptReadings_def accept_reading_def Let_def blank_reading_def split: option.splits)
  have same: "note_finished ?a2 m = ?a2" using assms(9,10) by (simp add: note_finished_def)
  have model: "rd_model m \<noteq> ''''" using assms(12) by (simp add: usable_reading_def)
  have three: "nat_context (ag_native ?a3) = m" "nat_compacted_at (ag_native ?a3) = t" "ag_status ?a3 = Active"
    "ag_context_bands ?a3 = ag_context_bands ?a1"
    using assms(7,9-11) two one model unfolding same by (simp_all add: acceptReadings_def accept_reading_def)
  have rebased: "ag_context_bands (rebase_bands ?a3) = (ag_context_bands ?a1)\<lparr>band_model := '''', band_percent := 0, band_compacted_at := t\<rparr>"
    using three one assms(6) by (simp add: rebase_bands_def)
  have "previous_percent (ag_context_bands (rebase_bands ?a3)) m = the (rd_percent m)"
    using assms(7) by (simp add: rebased previous_percent_def)
  then have "noteContextBands fl p draws ?a3 collar w = (Inr (None, (rebase_bands ?a3)\<lparr>ag_context_bands :=
      (ag_context_bands (rebase_bands ?a3))\<lparr>band_model := rd_model m, band_percent := the (rd_percent m)\<rparr>\<rparr>), w)"
    using assms(12) three
    by (simp add: noteContextBands_def Let_def and_then_def ret_def CrossedContextBands_def not_less del: acceptReadings_def)
  then show ?thesis
    using assms(2,9,12) one three rebased
    by (intro exI [of _ "(rebase_bands ?a3)\<lparr>ag_context_bands :=
      (ag_context_bands (rebase_bands ?a3))\<lparr>band_model := rd_model m, band_percent := the (rd_percent m)\<rparr>\<rparr>"])
      (simp add: Let_def and_then_def ret_def usable_reading_def)
qed

theorem compaction_rebases_witness:
  "\<exists>a'. acceptContextReadings (\<lambda>x. x) (team_of [''t'']) (\<lambda>_. ''tok'') demo_working [(''*'', [onset])]
     [blank_reading\<lparr>rd_kind := ''compaction-finished'', rd_at := Some 7\<rparr>, half_used\<lparr>rd_at := Some 9\<rparr>] demo_team_world
     = (Inr (None, a'), demo_team_world) \<and> band_pending (ag_context_bands a') = []"
  using compaction_rebases [of demo_working "blank_reading\<lparr>rd_kind := ''compaction-finished'', rd_at := Some 7\<rparr>" 7
      "half_used\<lparr>rd_at := Some 9\<rparr>" 9 "\<lambda>x. x" "team_of [''t'']" "\<lambda>_. ''tok''" "[(''*'', [onset])]" demo_team_world]
  by (auto simp: demo_working_def half_used_def blank_agent_def blank_native_def blank_bands_def blank_reading_def usable_reading_def)

end
