(* ===== verification/Go_Time.thy ===== *)
theory Go_Time
  imports Go_Format
begin

text \<open>
  Go's \<^verbatim>\<open>time\<close> package as the command layer uses it: Unix seconds, saturating differences,
  64-bit durations and the texts of \<^verbatim>\<open>time.RFC3339\<close> and \<^verbatim>\<open>Duration.String\<close>; lower case and
  signed percentages; and the rounding of \<^verbatim>\<open>float64\<close> operations.
\<close>

section \<open>Instants and durations\<close>

abbreviation (input) minute :: duration where "minute \<equiv> 60000000000"

text \<open>Seconds from Go's zero time to the Unix epoch.\<close>

definition unix_epoch :: int where
  "unix_epoch = 62135596800"

definition time_unix :: "int \<Rightarrow> time" where
  "time_unix sec = (sec + unix_epoch) * second"

definition unix_seconds :: "time \<Rightarrow> int" where
  "unix_seconds t = t div second - unix_epoch"

text \<open>Two's-complement wrapping of an \<^verbatim>\<open>int64\<close>, and the saturating \<^verbatim>\<open>Time.Sub\<close>.\<close>

definition wrap64 :: "int \<Rightarrow> int" where
  "wrap64 x = (x + 2 ^ 63) mod 2 ^ 64 - 2 ^ 63"

definition sub_time :: "time \<Rightarrow> time \<Rightarrow> duration" where
  "sub_time t u = max (- (2 ^ 63)) (min (2 ^ 63 - 1) (t - u))"

lemma wrap64_small: "- (2 ^ 63) \<le> x \<Longrightarrow> x < 2 ^ 63 \<Longrightarrow> wrap64 x = x"
  by (simp add: wrap64_def)

lemma sub_time_compare: "0 \<le> d \<Longrightarrow> d < 2 ^ 63 - 1 \<Longrightarrow> sub_time t u > d \<longleftrightarrow> t - u > d"
  by (auto simp: sub_time_def)

lemma unix_roundtrip [simp]: "unix_seconds (time_unix sec) = sec"
  by (simp add: unix_seconds_def time_unix_def)

lemma time_unix_less [simp]: "time_unix a < time_unix b \<longleftrightarrow> a < b"
  and time_unix_le [simp]: "time_unix a \<le> time_unix b \<longleftrightarrow> a \<le> b"
  by (simp_all add: time_unix_def)

lemma div_less_mult:
  assumes "0 < (d :: int)"
  shows "t div d < n \<longleftrightarrow> t < n * d"
proof
  assume "t div d < n"
  then have "(t div d + 1) * d \<le> n * d" using assms by (intro mult_right_mono) auto
  moreover have "t < (t div d + 1) * d"
    using pos_mod_bound [OF assms, of t] div_mult_mod_eq [of t d] unfolding distrib_right by linarith
  ultimately show "t < n * d" by linarith
next
  assume t: "t < n * d"
  have "(t div d) * d \<le> t" using pos_mod_sign [OF assms, of t] div_mult_mod_eq [of t d] by linarith
  with t have "(t div d) * d < n * d" by linarith
  then show "t div d < n" using assms by simp
qed

lemma later_second: "sec > unix_seconds t \<longleftrightarrow> time_unix sec > t"
proof -
  have "sec > unix_seconds t \<longleftrightarrow> t div second < sec + unix_epoch" by (auto simp: unix_seconds_def)
  also have "\<dots> \<longleftrightarrow> t < (sec + unix_epoch) * second" by (rule div_less_mult) simp
  finally show ?thesis by (simp add: time_unix_def)
qed

section \<open>Texts\<close>

definition pad :: "nat \<Rightarrow> nat \<Rightarrow> string" where
  "pad width n = (let d = decimal n in replicate (width - length d) (CHR ''0'') @ d)"

text \<open>
  The civil date of a number of days since 0001-01-01, counted in 400-year eras that
  begin on a first of March.
\<close>

definition civil :: "int \<Rightarrow> int \<times> int \<times> int" where
  "civil days =
     (let z = days + 306;
          era = z div 146097; doe = z mod 146097;
          yoe = (doe - doe div 1460 + doe div 36524 - doe div 146096) div 365;
          doy = doe - (365 * yoe + yoe div 4 - yoe div 100);
          mp = (5 * doy + 2) div 153;
          m = (if mp < 10 then mp + 3 else mp - 9)
      in (yoe + era * 400 + (if m \<le> 2 then 1 else 0), m, doy - (153 * mp + 2) div 5 + 1))"

text \<open>\<^verbatim>\<open>t.UTC().Format(time.RFC3339)\<close> of an instant at or after the zero time.\<close>

definition rfc3339 :: "time \<Rightarrow> string" where
  "rfc3339 t =
     (let s = t div second; (y, m, d) = civil (s div 86400); r = s mod 86400 in
      pad 4 (nat y) @ ''-'' @ pad 2 (nat m) @ ''-'' @ pad 2 (nat d) @ ''T''
      @ pad 2 (nat (r div 3600)) @ '':'' @ pad 2 (nat (r mod 3600 div 60)) @ '':'' @ pad 2 (nat (r mod 60)) @ ''Z'')"

text \<open>
  \<^verbatim>\<open>d.Round(time.Second).String()\<close> of a duration that is not negative. Rounding past the
  largest duration gives the largest one.
\<close>

definition seconds_text :: "duration \<Rightarrow> string" where
  "seconds_text d =
     (let s = (if 2 * (d mod second) < second then d div second else d div second + 1) in
      if s * second > 2 ^ 63 - 1 then ''2562047h47m16.854775807s''
      else if s \<ge> 3600 then decimal (nat (s div 3600)) @ ''h'' @ decimal (nat (s mod 3600 div 60)) @ ''m''
        @ decimal (nat (s mod 60)) @ ''s''
      else if s \<ge> 60 then decimal (nat (s div 60)) @ ''m'' @ decimal (nat (s mod 60)) @ ''s''
      else decimal (nat s) @ ''s'')"

text \<open>
  \<^verbatim>\<open>strings.ToLower\<close>: ASCII letters, and the two other runes whose lower case is ASCII
  (U+0130 and U+212A). Other runes are kept; the results are only compared with and
  searched for ASCII text, which they never become.
\<close>

definition lower_char :: "char \<Rightarrow> char" where
  "lower_char c = (let n = of_char c :: nat in if 65 \<le> n \<and> n \<le> 90 then char_of (n + 32) else c)"

fun to_lower :: "string \<Rightarrow> string" where
  "to_lower [] = []"
| "to_lower (c # s) =
     (case s of
        d # s1 \<Rightarrow>
          if c = CHR 0xC4 \<and> d = CHR 0xB0 then CHR ''i'' # to_lower s1
          else (case s1 of
             e # s2 \<Rightarrow> if c = CHR 0xE2 \<and> d = CHR 0x84 \<and> e = CHR 0xAA then CHR ''k'' # to_lower s2
               else lower_char c # to_lower s
           | [] \<Rightarrow> lower_char c # to_lower s)
      | [] \<Rightarrow> [lower_char c])"

text \<open>\<^verbatim>\<open>math.Round\<close> (halves away from zero), and \<^verbatim>\<open>%+.0f\<close> of its result.\<close>

definition round_away :: "rat \<Rightarrow> int" where
  "round_away x = (if x < 0 then - \<lfloor>- x + 1 / 2\<rfloor> else \<lfloor>x + 1 / 2\<rfloor>)"

definition pacePoints :: "float64 \<Rightarrow> string" where
  "pacePoints delta =
     (let r = round_away delta in
      if r = 0 then ''+0'' else if r < 0 then ''-'' @ decimal (nat (- r)) else ''+'' @ decimal (nat r))"

section \<open>Rounding of floating-point operations\<close>

text \<open>
  What the code relies on of IEEE 754 rounding (to nearest): it is monotone, a rounded
  value is its own rounding, and small integers are exact.
\<close>

definition rounds :: "(rat \<Rightarrow> rat) \<Rightarrow> bool" where
  "rounds fl \<longleftrightarrow> mono fl \<and> (\<forall>x. fl (fl x) = fl x) \<and> (\<forall>n. \<bar>n\<bar> \<le> 2 ^ 53 \<longrightarrow> fl (of_int n) = of_int n)"

lemma roundsD:
  assumes "rounds fl"
  shows "x \<le> y \<Longrightarrow> fl x \<le> fl y" and "fl (fl x) = fl x"
    and "fl 0 = 0" and "fl 1 = 1" and "fl 100 = 100" and "fl (- 100) = - 100"
proof -
  have small: "fl (of_int n) = of_int n" if "\<bar>n\<bar> \<le> 2 ^ 53" for n
    using that assms unfolding rounds_def by blast
  show "fl 0 = 0" "fl 1 = 1" "fl 100 = 100" "fl (- 100) = - 100"
    using small [of 0] small [of 1] small [of 100] small [of "- 100"] by simp_all
qed (use assms in \<open>auto simp: rounds_def mono_def\<close>)

lemma rounds_id: "rounds (\<lambda>x. x)"
  by (simp add: rounds_def mono_def)

end
