(* ===== verification/Harness_Usage.thy ===== *)
theory Harness_Usage
  imports Go_Time FileSystem
begin

text \<open>
  Provider usage windows: which window a native reading describes and how its use compares
  with the time that has passed (\<^verbatim>\<open>harness/usage.go\<close>), what a native failure says about a usage
  cap and which reset a reading promises (\<^verbatim>\<open>usageCapFailure\<close>, \<^verbatim>\<open>observedCappedReset\<close>,
  \<^verbatim>\<open>cappedNativeReset\<close> of \<^verbatim>\<open>cmd/gang/usage_state.go\<close>, \<^verbatim>\<open>recentNativeReset\<close> of \<^verbatim>\<open>auto_cap.go\<close>,
  \<^verbatim>\<open>snoozeReset\<close> of \<^verbatim>\<open>snooze.go\<close>).
\<close>

section \<open>Windows and pace (harness/usage.go)\<close>

definition UsageWindowKind :: "string \<Rightarrow> int \<Rightarrow> string" where
  "UsageWindowKind label minutes =
     (if minutes = 300 then ''five_hour''
      else if minutes = 10080 then ''weekly''
      else if minutes \<noteq> 0 then ''''
      else let l = to_lower (TrimSpace label) in
        if l \<in> {''five_hour'', ''current session'', ''5h limit'', ''5-hour'', ''5-hour limit''} then ''five_hour''
        else if l \<in> {''seven_day'', ''current week'', ''weekly'', ''weekly limit'', ''7d limit''} then ''weekly''
        else '''')"

record pace =
  pace_elapsed :: float64
  pace_delta :: float64
  pace_exhausts :: time

definition pace_minutes :: "string \<Rightarrow> int \<Rightarrow> int option" where
  "pace_minutes label minutes =
     (if minutes > 0 then Some minutes
      else if UsageWindowKind label 0 = ''five_hour'' then Some 300
      else if UsageWindowKind label 0 = ''weekly'' then Some 10080
      else None)"

text \<open>
  \<^verbatim>\<open>used\<close> is a float; every operation on floats is rounded by \<^theory_text>\<open>fl\<close>. The conversion of the
  span to a duration truncates.
\<close>

definition UsagePace :: "(float64 \<Rightarrow> float64) \<Rightarrow> float64 \<Rightarrow> time \<Rightarrow> string \<Rightarrow> int \<Rightarrow> time \<Rightarrow> pace option" where
  "UsagePace fl used reset label minutes t =
     (case pace_minutes label minutes of
        None \<Rightarrow> None
      | Some m \<Rightarrow>
          let length = wrap64 (m * minute); start = reset - length;
              elapsed = min (max (sub_time t start) 0) length;
              percent = fl (fl (fl (of_int elapsed) / fl (of_int length)) * 100);
              span = fl (fl (fl (of_int elapsed) * 100) / used)
          in Some \<lparr>pace_elapsed = percent, pace_delta = fl (used - percent),
               pace_exhausts =
                 (if used \<ge> 100 then t
                  else if used > 0 \<and> elapsed > 0 \<and> span < fl (of_int length) then start + \<lfloor>span\<rfloor>
                  else zero_time)\<rparr>)"

section \<open>Usage caps (cmd/gang)\<close>

text \<open>Whether a failure names a usage cap, and whether it may be one.\<close>

definition cap_phrases :: "string list" where
  "cap_phrases = [''usage limit'', ''usage_limit'', ''five-hour limit'', ''5-hour limit'', ''weekly limit'',
     ''hit your limit'', ''reached your limit'']"

definition usageCapFailure :: "string \<Rightarrow> bool \<times> bool" where
  "usageCapFailure reason =
     (let r = to_lower reason in
      if list_ex (contains r) cap_phrases then (True, False)
      else (False, contains r ''rate limit'' \<or> contains r ''rate_limit'' \<or> contains r ''quota''))"

definition capped :: "time \<Rightarrow> limit_window \<Rightarrow> bool" where
  "capped t w \<longleftrightarrow> UsageWindowKind (lim_label w) (lim_window_minutes w) \<noteq> ''''
     \<and> lim_used_percent w \<ge> 99 \<and> lim_reset_at w > unix_seconds t"

definition earlier_reset :: "time \<Rightarrow> limit_window \<Rightarrow> time \<Rightarrow> time" where
  "earlier_reset t w reset =
     (if capped t w then
        let candidate = time_unix (lim_reset_at w) in
        if reset = zero_time \<or> candidate < reset then candidate else reset
      else reset)"

text \<open>A reset and whether there is one; without one the reset is the zero time.\<close>

definition cappedNativeReset :: "limit_window list \<Rightarrow> time \<Rightarrow> time \<times> bool" where
  "cappedNativeReset limits t =
     (let reset = fold (earlier_reset t) limits zero_time in (reset, reset \<noteq> zero_time))"

definition observedCappedReset :: "reading \<Rightarrow> time \<Rightarrow> time \<Rightarrow> time \<times> bool" where
  "observedCappedReset r submittedAt t =
     (case rd_at r of
        None \<Rightarrow> (zero_time, False)
      | Some u \<Rightarrow>
          if rd_status r \<noteq> ''observed'' \<or> submittedAt = zero_time \<or> \<not> u > submittedAt \<or> u > t
             \<or> sub_time t u > 5 * minute
          then (zero_time, False)
          else cappedNativeReset (rd_limits r) t)"

definition usable_limit :: "time \<Rightarrow> limit_window \<Rightarrow> bool" where
  "usable_limit t w \<longleftrightarrow> UsageWindowKind (lim_label w) (lim_window_minutes w) \<noteq> ''''
     \<and> lim_reset_at w > unix_seconds t \<and> 0 \<le> lim_used_percent w \<and> lim_used_percent w \<le> 100"

definition fuller_limit :: "time \<Rightarrow> limit_window \<Rightarrow> limit_window option \<Rightarrow> limit_window option" where
  "fuller_limit t w selected =
     (if \<not> usable_limit t w then selected
      else case selected of
        None \<Rightarrow> Some w
      | Some s \<Rightarrow>
          if lim_used_percent w > lim_used_percent s
             \<or> lim_used_percent w = lim_used_percent s \<and> lim_reset_at w > lim_reset_at s
          then Some w else Some s)"

definition snoozeReset :: "limit_window list \<Rightarrow> time \<Rightarrow> err + time" where
  "snoozeReset limits t =
     (case fold (fuller_limit t) limits None of
        None \<Rightarrow> Inl (Fail ''native provider limits have no future five-hour or weekly reset; use --at for an explicit wake'')
      | Some w \<Rightarrow> Inr (time_unix (lim_reset_at w)))"

definition recentNativeReset :: "reading \<Rightarrow> time \<Rightarrow> time \<times> bool" where
  "recentNativeReset r t =
     (case rd_at r of
        None \<Rightarrow> (zero_time, False)
      | Some u \<Rightarrow>
          if rd_status r \<noteq> ''observed'' \<or> u > t \<or> sub_time t u > 5 * minute then (zero_time, False)
          else (case cappedNativeReset (rd_limits r) t of
              (reset, True) \<Rightarrow> (reset, True)
            | (_, False) \<Rightarrow> (case snoozeReset (rd_limits r) t of Inl _ \<Rightarrow> (zero_time, False) | Inr reset \<Rightarrow> (reset, True))))"

section \<open>Pace is a percentage\<close>

lemma pace_minutes_pos: "pace_minutes label minutes = Some m \<Longrightarrow> m > 0"
  by (auto simp: pace_minutes_def split: if_splits)

lemma pace_share:
  assumes "rounds fl" "0 \<le> elapsed" "elapsed \<le> len" "0 < len"
  shows "0 \<le> fl (fl (fl (of_int elapsed) / fl (of_int len)) * 100)
    \<and> fl (fl (fl (of_int elapsed) / fl (of_int len)) * 100) \<le> 100"
proof -
  note fl = roundsD [OF assms(1)]
  have e: "0 \<le> fl (of_int elapsed)" using fl(1) [of 0 "of_int elapsed"] fl(3) assms(2) by simp
  have l: "1 \<le> fl (of_int len)" using fl(1) [of 1 "of_int len"] fl(4) assms(4) by simp
  have "fl (of_int elapsed) \<le> fl (of_int len)" using fl(1) assms(3) by simp
  then have q: "0 \<le> fl (of_int elapsed) / fl (of_int len)" "fl (of_int elapsed) / fl (of_int len) \<le> 1"
    using e l by (simp_all add: divide_le_eq)
  have "0 \<le> fl (fl (of_int elapsed) / fl (of_int len))" "fl (fl (of_int elapsed) / fl (of_int len)) \<le> 1"
    using fl(1) [OF q(1)] fl(1) [OF q(2)] fl(3,4) by simp_all
  then show ?thesis
    using fl(1) [of 0 "fl (fl (of_int elapsed) / fl (of_int len)) * 100"]
      fl(1) [of "fl (fl (of_int elapsed) / fl (of_int len)) * 100" 100] fl(3,5) by simp
qed

text \<open>
  For every use between 0 and 100 percent of a window whose length fits a
  duration, whatever the measuring time and however floats round, the elapsed share lies
  between 0 and 100 percent and the pace between -100 and 100 points, and a projected
  exhaustion that the code reports lies inside the window, before its reset.
\<close>

theorem pace_bounds:
  assumes "rounds fl" "UsagePace fl used reset label minutes t = Some p" "0 \<le> used" "used \<le> 100"
    and "minutes < 153722867"
  shows "0 \<le> pace_elapsed p \<and> pace_elapsed p \<le> 100 \<and> - 100 \<le> pace_delta p \<and> pace_delta p \<le> 100
    \<and> (pace_exhausts p = zero_time \<or> used = 100 \<and> pace_exhausts p = t
       \<or> (\<exists>m. pace_minutes label minutes = Some m \<and> reset - m * minute \<le> pace_exhausts p \<and> pace_exhausts p < reset))"
proof -
  obtain m where m: "pace_minutes label minutes = Some m"
    using assms(2) by (auto simp: UsagePace_def split: option.splits)
  have m_le: "m < 153722867" using m assms(5) by (auto simp: pace_minutes_def split: if_splits)
  define len where "len = m * minute"
  have len: "0 < len" "wrap64 (m * minute) = len"
    using pace_minutes_pos [OF m] m_le by (auto simp: len_def intro!: wrap64_small)
  define el where "el = min (max (sub_time t (reset - len)) 0) len"
  define pc where "pc = fl (fl (fl (of_int el) / fl (of_int len)) * 100)"
  define span where "span = fl (fl (fl (of_int el) * 100) / used)"
  have p: "p = \<lparr>pace_elapsed = pc, pace_delta = fl (used - pc), pace_exhausts =
      (if used \<ge> 100 then t else if used > 0 \<and> el > 0 \<and> span < fl (of_int len) then reset - len + \<lfloor>span\<rfloor> else zero_time)\<rparr>"
    using assms(2) [symmetric] unfolding UsagePace_def m option.case Let_def len(2) el_def pc_def span_def
    by (simp only: option.inject conj_assoc)
  have el: "0 \<le> el" "el \<le> len" using len(1) by (auto simp: el_def)
  note fl = roundsD [OF assms(1)]
  have pc: "0 \<le> pc" "pc \<le> 100" unfolding pc_def using pace_share [OF assms(1) el len(1)] by simp_all
  have delta: "- 100 \<le> fl (used - pc)" "fl (used - pc) \<le> 100"
    using fl(1) [of "- 100" "used - pc"] fl(1) [of "used - pc" 100] fl(5,6) pc assms(3,4) by simp_all
  have inside: "reset - len \<le> reset - len + \<lfloor>span\<rfloor> \<and> reset - len + \<lfloor>span\<rfloor> < reset"
    if s: "span < fl (of_int len)" "used > 0"
  proof -
    have e: "0 \<le> fl (of_int el)" using fl(1) [of 0 "of_int el"] fl(3) el(1) by simp
    then have "0 \<le> fl (fl (of_int el) * 100)" using fl(1) [of 0 "fl (of_int el) * 100"] fl(3) by simp
    then have "0 \<le> fl (fl (of_int el) * 100) / used" using s(2) by simp
    then have "0 \<le> span" using fl(1) [of 0 "fl (fl (of_int el) * 100) / used"] fl(3) by (simp add: span_def)
    moreover have "span < of_int len"
    proof (rule ccontr)
      assume "\<not> span < of_int len"
      then have "fl (of_int len) \<le> fl span" by (intro fl(1)) simp
      then show False using s(1) fl(2) by (simp add: span_def)
    qed
    ultimately show ?thesis by (simp add: floor_less_iff)
  qed
  have "pace_exhausts p = zero_time \<or> used = 100 \<and> pace_exhausts p = t
       \<or> reset - len \<le> pace_exhausts p \<and> pace_exhausts p < reset"
    using inside assms(4) by (auto simp: p)
  then show ?thesis using pc delta m by (auto simp: p len_def)
qed

theorem pace_bounds_witness:
  "\<exists>p. UsagePace (\<lambda>x. x) 50 (time_unix 18000) '''' 300 (time_unix 9000) = Some p \<and> pace_delta p \<le> 100"
proof -
  obtain p where p: "UsagePace (\<lambda>x. x) 50 (time_unix 18000) '''' 300 (time_unix 9000) = Some p"
    by (auto simp: UsagePace_def pace_minutes_def Let_def)
  have "pace_delta p \<le> 100" using pace_bounds [OF rounds_id p] by simp
  with p show ?thesis by blast
qed

section \<open>The reset of a cap\<close>

lemma Min_insert_min: "finite S \<Longrightarrow> Min (insert (min a b) S) = Min (insert b (insert a (S :: int set)))"
  by (cases "S = {}") (simp_all add: min.left_commute min.assoc min.commute)

definition capped_resets :: "time \<Rightarrow> limit_window list \<Rightarrow> time set" where
  "capped_resets t ws = {time_unix (lim_reset_at w) |w. w \<in> set ws \<and> capped t w}"

lemma capped_resets_simps [simp]:
  "capped_resets t [] = {}"
  "capped_resets t (w # ws) = (if capped t w then {time_unix (lim_reset_at w)} else {}) \<union> capped_resets t ws"
  "finite (capped_resets t ws)"
  by (auto simp: capped_resets_def)

lemma capped_resets_later: "r \<in> capped_resets t ws \<Longrightarrow> r > t"
  using later_second by (auto simp: capped_resets_def capped_def)

lemma earlier_resets:
  assumes "t \<ge> zero_time"
  shows "fold (earlier_reset t) ws r =
    (let resets = (if r = zero_time then {} else {r}) \<union> capped_resets t ws in
     if resets = {} then zero_time else Min resets)"
proof (induction ws arbitrary: r)
  case (Cons w ws)
  show ?case
  proof (cases "capped t w \<and> r \<noteq> zero_time")
    case True
    let ?c = "time_unix (lim_reset_at w)"
    have c: "?c > t" by (rule capped_resets_later [of _ t "[w]"]) (use True in simp)
    have step: "earlier_reset t w r = min ?c r" "min ?c r \<noteq> zero_time"
      using True c assms by (auto simp: earlier_reset_def Let_def min_def)
    show ?thesis
      using True Min_insert_min [of "capped_resets t ws" ?c r]
      unfolding fold_simps(2) comp_def step(1) Cons.IH by (simp add: step(2) Let_def insert_commute)
  next
    case False
    have c: "time_unix (lim_reset_at w) > t" if "capped t w"
      by (rule capped_resets_later [of _ t "[w]"]) (use that in simp)
    have "(if earlier_reset t w r = zero_time then {} else {earlier_reset t w r}) \<union> capped_resets t ws
        = (if r = zero_time then {} else {r}) \<union> capped_resets t (w # ws)"
      using False c assms by (auto simp: earlier_reset_def Let_def)
    then show ?thesis unfolding fold_simps(2) comp_def Cons.IH by simp
  qed
qed simp

text \<open>
  The reset a capped reading promises is the earliest reset among
  the windows that are at least 99 percent used and have not reset yet; it lies in the
  future; and without such a window there is none.
\<close>

theorem capped_reset_exact:
  assumes "t \<ge> zero_time"
  shows "if capped_resets t limits = {} then cappedNativeReset limits t = (zero_time, False)
    else cappedNativeReset limits t = (Min (capped_resets t limits), True) \<and> Min (capped_resets t limits) > t"
proof -
  have run: "fold (earlier_reset t) limits zero_time
      = (if capped_resets t limits = {} then zero_time else Min (capped_resets t limits))"
    unfolding earlier_resets [OF assms] by (simp add: Let_def)
  show ?thesis
  proof (cases "capped_resets t limits = {}")
    case False
    then have "Min (capped_resets t limits) \<in> capped_resets t limits" by (intro Min_in) simp_all
    then have "Min (capped_resets t limits) > t" by (rule capped_resets_later)
    then have "Min (capped_resets t limits) \<noteq> zero_time" using assms by linarith
    with \<open>Min (capped_resets t limits) > t\<close> show ?thesis
      unfolding cappedNativeReset_def run Let_def using False by simp
  qed (simp add: cappedNativeReset_def run)
qed

theorem capped_reset_exact_witness:
  "cappedNativeReset [\<lparr>lim_label = ''weekly'', lim_used_percent = 99, lim_reset_at = 9, lim_window_minutes = 10080\<rparr>] 5
    = (time_unix 9, True)"
proof -
  let ?w = "\<lparr>lim_label = ''weekly'', lim_used_percent = 99, lim_reset_at = 9, lim_window_minutes = 10080\<rparr>"
  have "capped 5 ?w" by (simp add: capped_def UsageWindowKind_def unix_seconds_def unix_epoch_def)
  then show ?thesis using capped_reset_exact [of 5 "[?w]"] by simp
qed

end
