(* ===== verification/Usage_State.thy ===== *)
theory Usage_State
  imports Harness_Usage Harness_Queue Store_Inbox Store_Side Context_Bands
begin

text \<open>
  Account usage as the command layer keeps it (\<^verbatim>\<open>cmd/gang/usage_state.go\<close>,
  \<^verbatim>\<open>cmd/gang/auto_cap.go\<close>): the locked record and its changes. A change is a function on the
  record that may fail, and then nothing is saved; the effects on the log come after it.
  A loop over a Go map visits the keys the map has when the loop starts, in the order of
  its list; every body touches only the entry of its own key. What \<^verbatim>\<open>crypto/rand\<close> draws is an
  argument \<^theory_text>\<open>draws\<close>, by what the draw is for: an ID and a token, each of which may fail.
  The change itself is an action, since one caller removes an envelope inside it.
\<close>

section \<open>Changing the record under its lock\<close>

definition locking_usage :: "team_paths \<Rightarrow> 'a io \<Rightarrow> 'a io" where
  "locking_usage p body =
     and_then (LockUsage p) (\<lambda>_.
     and_then (attempt body) (\<lambda>r.
     and_then (attempt (UsageClose p)) (\<lambda>c.
       if errs_of r @ errs_of c = [] then lift r else raise (Joined (errs_of r @ errs_of c)))))"

definition usage_change :: "team_paths \<Rightarrow> (usage_state \<Rightarrow> (usage_state \<times> 'a) io) \<Rightarrow> 'a io" where
  "usage_change p change =
     and_then (UsageRead as_usage p no_usage) (\<lambda>state.
     and_then (change state) (\<lambda>(state', x).
     and_then (UsageSave p (CUsage state')) (\<lambda>_. ret x)))"

definition withUsageState :: "team_paths \<Rightarrow> (usage_state \<Rightarrow> (usage_state \<times> 'a) io) \<Rightarrow> 'a io" where
  "withUsageState p change = locking_usage p (usage_change p change)"

text \<open>The loop \<^verbatim>\<open>for _, x := range xs\<close> of a change, which stops at the first error.\<close>

fun fold_err :: "('a \<Rightarrow> 's \<Rightarrow> err + 's) \<Rightarrow> 'a list \<Rightarrow> 's \<Rightarrow> err + 's" where
  "fold_err f [] s = Inr s"
| "fold_err f (x # xs) s = (case f x s of Inl e \<Rightarrow> Inl e | Inr s' \<Rightarrow> fold_err f xs s')"

lemma fold_err_keeps:
  assumes "fold_err f xs s = Inr s'" "P s"
    and "\<And>x u v. x \<in> set xs \<Longrightarrow> P u \<Longrightarrow> f x u = Inr v \<Longrightarrow> P v"
  shows "P s'"
  using assms
proof (induction xs arbitrary: s)
  case (Cons x xs)
  then obtain u where u: "f x s = Inr u" "fold_err f xs u = Inr s'" by (auto split: sum.splits)
  have "P u" by (rule Cons.prems(3) [OF _ Cons.prems(2) u(1)]) simp
  then show ?case by (rule Cons.IH [OF u(2)]) (rule Cons.prems(3), simp_all)
qed simp

definition snooze_of :: "(string \<times> usage_snooze) list \<Rightarrow> string \<Rightarrow> usage_snooze" where
  "snooze_of m key = (case map_of m key of None \<Rightarrow> no_snooze | Some s \<Rightarrow> s)"

definition put_snooze :: "string \<Rightarrow> usage_snooze \<Rightarrow> usage_state \<Rightarrow> usage_state" where
  "put_snooze key s st = st\<lparr>us_snoozes := AList.update key s (us_snoozes st)\<rparr>"
definition drop_snooze :: "string \<Rightarrow> usage_state \<Rightarrow> usage_state" where
  "drop_snooze key st = st\<lparr>us_snoozes := AList.delete key (us_snoozes st)\<rparr>"
definition put_recent :: "string \<Rightarrow> usage_snooze \<Rightarrow> usage_state \<Rightarrow> usage_state" where
  "put_recent key s st = st\<lparr>us_recent := AList.update key s (us_recent st)\<rparr>"
definition drop_recent :: "string \<Rightarrow> usage_state \<Rightarrow> usage_state" where
  "drop_recent key st = st\<lparr>us_recent := AList.delete key (us_recent st)\<rparr>"

type_synonym draws = "string \<Rightarrow> (err + string) \<times> (err + string)"

definition randomID :: "string \<Rightarrow> err + string \<Rightarrow> err + envelope_id" where
  "randomID label drawn = (case drawn of Inl e \<Rightarrow> Inl e | Inr hex \<Rightarrow> Inr (label @ ''-'' @ hex))"

definition fresh_ids :: "string \<Rightarrow> (err + string) \<times> (err + string) \<Rightarrow> err + envelope_id \<times> string" where
  "fresh_ids label drawn =
     (case randomID label (fst drawn) of
        Inl e \<Rightarrow> Inl e
      | Inr i \<Rightarrow> (case snd drawn of Inl e \<Rightarrow> Inl e | Inr token \<Rightarrow> Inr (i, token)))"

definition wakeEvent :: "string \<Rightarrow> usage_snooze \<Rightarrow> time \<Rightarrow> string \<Rightarrow> event" where
  "wakeEvent kind s t reason =
     blank_event\<lparr>ev_type := kind, ev_at := t, ev_hitch_id := sn_caller_id s, ev_name := sn_caller_name s,
       ev_id := sn_id s, ev_deadline := sn_at s, ev_reason := reason\<rparr>"

definition appendEvents :: "team_paths \<Rightarrow> event list \<Rightarrow> unit io" where
  "appendEvents p events = for_each (Append p) events"

section \<open>Delivery outcomes\<close>

fun settle_notice :: "envelope_id \<Rightarrow> hitch_id \<Rightarrow> string \<Rightarrow> usage_notice list \<Rightarrow> usage_notice list" where
  "settle_notice i recipient outcome [] = []"
| "settle_notice i recipient outcome (n # ns) =
     (if un_id n = i \<and> un_recipient_id n = recipient
      then if outcome = ''delivered'' then ns
        else if outcome = ''accepted'' \<or> outcome = ''unverified'' then n\<lparr>un_submission := outcome\<rparr> # ns
        else n # ns
      else n # settle_notice i recipient outcome ns)"

definition settle_wake :: "agent \<Rightarrow> envelope \<Rightarrow> string \<Rightarrow> witness option \<Rightarrow> usage_state \<Rightarrow> usage_state" where
  "settle_wake a e outcome witnessed st =
     (case find (\<lambda>(_, s). sn_id s = env_id e \<and> sn_recipient_id s = ag_id a) (us_snoozes st) of
        None \<Rightarrow> st
      | Some (key, s) \<Rightarrow>
          if outcome = ''accepted'' \<or> outcome = ''unverified''
          then put_snooze key (s\<lparr>sn_submission := outcome, sn_input_text := msg_text (env_message e)\<rparr>) st
          else if outcome \<noteq> ''delivered'' then st
          else drop_snooze key (put_recent key
            (s\<lparr>sn_turn_id := (case witnessed of None \<Rightarrow> nat_turn_id (ag_native a) | Some w \<Rightarrow> wit_turn_id w),
               sn_submitted_at := (case witnessed of None \<Rightarrow> zero_time | Some w \<Rightarrow> wit_at w),
               sn_submission := '''', sn_input_text := ''''\<rparr>) st))"

definition acknowledge :: "agent \<Rightarrow> envelope \<Rightarrow> string \<Rightarrow> witness option \<Rightarrow> usage_state \<Rightarrow> usage_state" where
  "acknowledge a e outcome witnessed st =
     (if snd_name (env_from e) = ''usage-band''
      then st\<lparr>us_notices := settle_notice (env_id e) (ag_id a) outcome (us_notices st)\<rparr>
      else settle_wake a e outcome witnessed st)"

definition acknowledgeUsageDelivery :: "team_paths \<Rightarrow> agent \<Rightarrow> envelope \<Rightarrow> string \<Rightarrow> witness option \<Rightarrow> unit io" where
  "acknowledgeUsageDelivery p a e outcome witnessed =
     (if snd_kind (env_from e) \<noteq> SenderGangline
         \<or> snd_name (env_from e) \<noteq> ''snooze'' \<and> snd_name (env_from e) \<noteq> ''usage-band'' then ret ()
      else withUsageState p (\<lambda>st. ret (acknowledge a e outcome witnessed st, ())))"

text \<open>
  A submission that outlived its receipt is recognised by a later prompt witness. Whether
  a prompt carries an envelope is the collar's matter (\<^verbatim>\<open>receiptMatches\<close>) and the argument
  \<^theory_text>\<open>matches\<close>, as is the text about input outside the envelope; loading the collar may fail.
\<close>

type_synonym receipt_matcher = "envelope \<Rightarrow> string \<Rightarrow> err + bool \<times> string"

definition gangline_envelope :: "string \<Rightarrow> string \<Rightarrow> string \<Rightarrow> envelope" where
  "gangline_envelope token name text = blank_envelope\<lparr>env_token := token,
     env_from := blank_sender\<lparr>snd_kind := SenderGangline, snd_name := name\<rparr>, env_message := \<lparr>msg_text = text\<rparr>\<rparr>"

definition submission_seen :: "team_paths \<Rightarrow> receipt_matcher \<Rightarrow> (string \<Rightarrow> string) \<Rightarrow> agent \<Rightarrow> witness \<Rightarrow> envelope
    \<Rightarrow> envelope_id \<Rightarrow> bool io" where
  "submission_seen p matches outside_text a w e i =
     and_then (lift (matches e (wit_prompt w))) (\<lambda>(matched, outside).
       if \<not> matched then ret False
       else if outside = '''' then ret True
       else and_then (record_event p a (blank_event\<lparr>ev_type := ''native_hook'', ev_native_event := ''UserPromptSubmit'',
              ev_status := ''usage-submission'', ev_id := i, ev_reason := outside_text outside\<rparr>)) (\<lambda>_. ret True))"

text \<open>The notices, from the last one.\<close>

fun reconcile_notices :: "team_paths \<Rightarrow> receipt_matcher \<Rightarrow> (string \<Rightarrow> string) \<Rightarrow> agent \<Rightarrow> witness \<Rightarrow> usage_notice list
    \<Rightarrow> (usage_notice list \<times> bool) io" where
  "reconcile_notices p matches outside_text a w [] = ret ([], False)"
| "reconcile_notices p matches outside_text a w (n # ns) =
     and_then (reconcile_notices p matches outside_text a w ns) (\<lambda>(kept, changed).
       if un_recipient_id n \<noteq> ag_id a \<or> un_submission n = '''' \<or> wit_at w < un_created_at n then ret (n # kept, changed)
       else and_then (submission_seen p matches outside_text a w
              (gangline_envelope (un_token n) ''usage-band'' (un_text n)) (un_id n)) (\<lambda>seen.
         ret (if seen then (kept, True) else (n # kept, changed))))"

definition witnessed_wake :: "witness \<Rightarrow> usage_snooze \<Rightarrow> usage_snooze" where
  "witnessed_wake w s = s\<lparr>sn_submission := '''', sn_input_text := '''', sn_turn_id := wit_turn_id w, sn_submitted_at := wit_at w\<rparr>"

fun reconcile_wakes :: "team_paths \<Rightarrow> receipt_matcher \<Rightarrow> (string \<Rightarrow> string) \<Rightarrow> agent \<Rightarrow> witness \<Rightarrow> string list
    \<Rightarrow> usage_state \<times> bool \<Rightarrow> (usage_state \<times> bool) io" where
  "reconcile_wakes p matches outside_text a w [] acc = ret acc"
| "reconcile_wakes p matches outside_text a w (key # keys) acc =
     (case acc of (st, changed) \<Rightarrow>
      let s = snooze_of (us_snoozes st) key in
      if sn_recipient_id s \<noteq> ag_id a \<or> sn_submission s = '''' \<or> sn_input_text s = '''' \<or> wit_at w < sn_at s
      then reconcile_wakes p matches outside_text a w keys acc
      else and_then (submission_seen p matches outside_text a w
             (gangline_envelope (sn_token s) ''snooze'' (sn_input_text s)) (sn_id s)) (\<lambda>seen.
        reconcile_wakes p matches outside_text a w keys
          (if seen then (drop_snooze key (put_recent key (witnessed_wake w s) st), True) else acc)))"

definition reconcile_usage :: "team_paths \<Rightarrow> receipt_matcher \<Rightarrow> (string \<Rightarrow> string) \<Rightarrow> agent \<Rightarrow> witness \<Rightarrow> usage_state
    \<Rightarrow> (usage_state \<times> bool) io" where
  "reconcile_usage p matches outside_text a w st =
     and_then (reconcile_notices p matches outside_text a w (us_notices st)) (\<lambda>(kept, changed).
     reconcile_wakes p matches outside_text a w (map fst (us_snoozes st)) (st\<lparr>us_notices := kept\<rparr>, changed))"

definition reconcile_saved :: "team_paths \<Rightarrow> err + receipt_matcher \<Rightarrow> (string \<Rightarrow> string) \<Rightarrow> agent \<Rightarrow> witness \<Rightarrow> unit io" where
  "reconcile_saved p collar outside_text a w =
     and_then (UsageRead as_usage p no_usage) (\<lambda>st.
       if us_notices st = [] \<and> us_snoozes st = [] then ret ()
       else
         and_then (lift collar) (\<lambda>matches.
         and_then (reconcile_usage p matches outside_text a w st) (\<lambda>(st', changed).
           if changed then UsageSave p (CUsage st') else ret ())))"

definition reconcileUsageSubmission :: "team_paths \<Rightarrow> agent_paths \<Rightarrow> err + receipt_matcher \<Rightarrow> (string \<Rightarrow> string) \<Rightarrow> agent
    \<Rightarrow> unit io" where
  "reconcileUsageSubmission p ap collar outside_text a =
     and_then (attempt (ReadWitness ap)) (\<lambda>r. case r of
       Inl e \<Rightarrow> if errors_is e NotExist then ret () else raise e
     | Inr w \<Rightarrow>
         if nat_session_id (ag_native a) \<noteq> '''' \<and> wit_session_id w \<noteq> '''' \<and> wit_session_id w \<noteq> nat_session_id (ag_native a)
         then ret ()
         else locking_usage p (reconcile_saved p collar outside_text a w))"

section \<open>The end of a wake's turn\<close>

record hook_notice =
  hn_readings :: "reading list"
  hn_kind :: string
  hn_native_event :: string
  hn_at :: time
  hn_session_id :: string
  hn_turn_id :: string
  hn_transcript :: string
  hn_failure :: string

definition rune_start :: "char \<Rightarrow> bool" where
  "rune_start c \<longleftrightarrow> (of_char c :: nat) div 64 \<noteq> 2"

fun rune_boundary :: "string \<Rightarrow> nat \<Rightarrow> nat" where
  "rune_boundary s 0 = 0"
| "rune_boundary s (Suc n) = (if rune_start (s ! Suc n) then Suc n else rune_boundary s n)"

definition boundedFailureReason :: "string \<Rightarrow> string" where
  "boundedFailureReason reason =
     (if length reason \<le> 4096 then reason
      else take (rune_boundary reason (4096 - length '' [truncated]'')) reason @ '' [truncated]'')"

definition envelopeHead :: "string \<Rightarrow> string \<Rightarrow> string" where
  "envelopeHead sender nonce =
     (if sender = '''' then ''gang#'' @ nonce else ''gang:'' @ sender @ ''#'' @ nonce)"

definition envelopeOpening :: "string \<Rightarrow> string \<Rightarrow> string" where
  "envelopeOpening head marker =
     (if marker \<noteq> '''' then ''['' @ head @ '' '' @ marker @ '']'' else ''['' @ head @ '']'')"

definition TelemetryUsesTranscript :: "invocation \<Rightarrow> bool" where
  "TelemetryUsesTranscript iv \<longleftrightarrow> inv_name iv = ''codex-session-log''"

text \<open>
  The turns of a wake's prompt in the transcript; an unreadable transcript has none. The
  sender is named in the opening only by an earlier release.
\<close>

definition wake_turns :: "transcript_codec \<Rightarrow> (string \<Rightarrow> err + string) \<Rightarrow> invocation \<Rightarrow> string \<Rightarrow> string
    \<Rightarrow> string list \<times> bool \<times> bool" where
  "wake_turns c opens iv transcript token =
     (let ask = \<lambda>sender. case PromptTurn c opens iv transcript (envelopeOpening (envelopeHead sender token) '''') of
            Inl _ \<Rightarrow> ([], False, False) | Inr x \<Rightarrow> x
      in if ask '''' = ([], False, False) then ask ''snooze'' else ask '''')"

definition fail_wake :: "time \<Rightarrow> string \<Rightarrow> string \<Rightarrow> usage_snooze \<Rightarrow> usage_state \<times> event list
    \<Rightarrow> usage_state \<times> event list" where
  "fail_wake t key reason s = (\<lambda>(st, evs).
     if sn_turn_failed s then (st, evs)
     else (put_recent key (s\<lparr>sn_turn_failed := True\<rparr>) st, evs @ [wakeEvent ''snooze_failed'' s t reason]))"

definition native_error :: "agent \<Rightarrow> usage_snooze \<Rightarrow> bool" where
  "native_error a s \<longleftrightarrow> sn_submitted_at s \<noteq> zero_time \<and> \<not> nat_last_error_at (ag_native a) < sn_submitted_at s"

definition finish_wake :: "agent \<Rightarrow> bool \<Rightarrow> time \<Rightarrow> string \<Rightarrow> usage_snooze \<Rightarrow> usage_state \<times> event list
    \<Rightarrow> usage_state \<times> event list" where
  "finish_wake a providerBlocked t key s = (\<lambda>(st, evs).
     if \<not> providerBlocked \<and> \<not> native_error a s \<and> nat_turn_failure (ag_native a) = ''''
     then (drop_recent key st, evs @ [wakeEvent ''snooze_completed'' s t ''''])
     else fail_wake t key (boundedFailureReason
       (if providerBlocked then ''provider blocked the native turn''
        else if native_error a s then ''native error during the turn: '' @ nat_last_error (ag_native a)
        else nat_turn_failure (ag_native a))) s (st, evs))"

section \<open>Cap rejections\<close>

text \<open>The wake that replaces a rejected one waits for the reset, and names no turn yet.\<close>

definition rearmed :: "envelope_id \<times> string \<Rightarrow> time \<Rightarrow> usage_snooze \<Rightarrow> usage_snooze" where
  "rearmed ids reset s =
     s\<lparr>sn_id := fst ids, sn_token := snd ids, sn_at := reset, sn_recipient_id := '''', sn_recipient_name := '''',
       sn_turn_id := '''', sn_cap_rejected := False, sn_turn_failed := False, sn_cap_candidate := False,
       sn_cap_failed_at := zero_time, sn_submitted_at := zero_time, sn_submission := '''',
       sn_rearms := sn_rearms s + 1\<rparr>"

definition rearm_wake :: "agent \<Rightarrow> time \<Rightarrow> draws \<Rightarrow> string \<Rightarrow> time \<times> bool \<Rightarrow> usage_snooze
    \<Rightarrow> usage_state \<times> event list \<Rightarrow> err + usage_state \<times> event list" where
  "rearm_wake a t draws key observed s = (\<lambda>(st, evs).
     if sn_cap_rejected s \<and> sn_rearms s > 0 \<and> \<not> sn_auto s then Inr (st, evs)
     else
       let (reset, known) = (if sn_auto s \<and> sn_cap_rejected s \<and> \<not> snd observed
             then recentNativeReset (nat_limits (ag_native a)) t else observed);
           current = snooze_of (us_snoozes st) key
       in if \<not> sn_cap_rejected s \<or> \<not> known then Inr (st, evs)
          else if sn_id current \<noteq> ''''
          then Inr (drop_recent key st, evs @ [wakeEvent ''snooze_cleared'' s t (''superseded by '' @ sn_id current)])
          else (case fresh_ids ''snooze'' (draws key) of
              Inl e \<Rightarrow> Inl e
            | Inr ids \<Rightarrow>
                Inr (drop_recent key (put_snooze key (rearmed ids reset s) st),
                  evs @ [blank_event\<lparr>ev_type := ''snooze_rearmed'', ev_at := t, ev_hitch_id := ag_id a, ev_name := ag_name a,
                    ev_id := fst ids, ev_deadline := reset, ev_reason := ''attributable native usage-cap rejection''\<rparr>])))"

definition reject_wake :: "agent \<Rightarrow> time \<Rightarrow> draws \<Rightarrow> string \<Rightarrow> bool \<Rightarrow> string \<Rightarrow> time \<times> bool \<Rightarrow> usage_snooze
    \<Rightarrow> usage_state \<times> event list \<Rightarrow> err + usage_state \<times> event list" where
  "reject_wake a t draws key confirmed failure observed s = (\<lambda>(st, evs).
     if confirmed \<and> \<not> sn_cap_rejected s
     then
       let s1 = s\<lparr>sn_cap_rejected := True\<rparr>;
           reason = (if failure = '''' then ''native rate limit confirmed by fresh capped-window reading'' else failure)
             @ (if sn_rearms s > 0 \<and> \<not> sn_auto s then ''; no further wake scheduled'' else '''')
       in rearm_wake a t draws key observed s1
            (put_recent key s1 st, evs @ [blank_event\<lparr>ev_type := ''snooze_cap_rejected'', ev_at := t,
               ev_hitch_id := ag_id a, ev_name := ag_name a, ev_id := sn_id s, ev_reason := reason\<rparr>])
     else rearm_wake a t draws key observed s (st, evs))"

definition judge_cap :: "agent \<Rightarrow> time \<Rightarrow> draws \<Rightarrow> string \<Rightarrow> bool \<Rightarrow> string \<Rightarrow> time \<times> bool \<Rightarrow> usage_snooze
    \<Rightarrow> usage_state \<times> event list \<Rightarrow> err + usage_state \<times> event list" where
  "judge_cap a t draws key confirmed failure observed s = (\<lambda>(st, evs).
     if sn_cap_candidate s \<and> (sn_cap_failed_at s = zero_time \<or> sub_time t (sn_cap_failed_at s) > 5 * minute)
     then let s1 = s\<lparr>sn_cap_candidate := False\<rparr> in
       Inr (if sn_turn_failed s then (put_recent key s1 st, evs)
            else fail_wake t key ''rate limit unconfirmed by a fresh native usage reading'' s1 (st, evs))
     else
       let late = sn_cap_candidate s \<and> snd observed
             \<and> (case rd_at (nat_limits (ag_native a)) of None \<Rightarrow> False | Some u \<Rightarrow> \<not> u < sn_cap_failed_at s)
       in reject_wake a t draws key (confirmed \<or> late) failure observed
            (if late then s\<lparr>sn_cap_candidate := False\<rparr> else s) (st, evs))"

definition judge_failure :: "agent \<Rightarrow> invocation option \<Rightarrow> hook_notice \<Rightarrow> time \<Rightarrow> draws \<Rightarrow> string \<Rightarrow> bool
    \<Rightarrow> usage_snooze \<Rightarrow> usage_state \<times> event list \<Rightarrow> err + usage_state \<times> event list" where
  "judge_failure a telemetry notice t draws key adopted s = (\<lambda>(st, evs).
     let n = ag_native a;
         observed = observedCappedReset (nat_limits n) (sn_submitted_at s) t;
         reported = hn_turn_id notice = sn_turn_id s \<and> hn_kind notice = ''turn-failed''
           \<and> (adopted \<or> nat_failed_turn n = sn_turn_id s);
         transcribed = sn_auto s \<and> (case telemetry of None \<Rightarrow> False | Some iv \<Rightarrow> TelemetryUsesTranscript iv)
           \<and> nat_turn_id n = sn_turn_id s \<and> native_error a s;
         failed = reported \<or> transcribed;
         failure = (if transcribed then nat_last_error n else hn_failure notice);
         (explicit, generic) = usageCapFailure failure
     in if failed \<and> \<not> explicit \<and> \<not> generic
        then Inr (fail_wake t key (boundedFailureReason (''native turn failed: '' @ failure)) s (st, evs))
        else if failed \<and> generic \<and> \<not> snd observed
        then Inr (put_recent key (s\<lparr>sn_cap_candidate := True, sn_cap_failed_at := t\<rparr>) st, evs)
        else judge_cap a t draws key failed failure observed s (st, evs))"

definition judge_turn :: "agent \<Rightarrow> invocation option \<Rightarrow> hook_notice \<Rightarrow> bool \<Rightarrow> time \<Rightarrow> draws \<Rightarrow> string \<Rightarrow> bool
    \<Rightarrow> usage_snooze \<Rightarrow> usage_state \<times> event list \<Rightarrow> err + usage_state \<times> event list" where
  "judge_turn a telemetry notice providerBlocked t draws key adopted s acc =
     (if hn_turn_id notice = sn_turn_id s \<and> hn_kind notice = ''turn-finished''
      then Inr (finish_wake a providerBlocked t key s acc)
      else judge_failure a telemetry notice t draws key adopted s acc)"

text \<open>One wake of the loop: \<^theory_text>\<open>turns\<close> answers for its token when a turn has ended.\<close>

definition observe_wake :: "(string \<Rightarrow> string list \<times> bool \<times> bool) \<Rightarrow> agent \<Rightarrow> invocation option \<Rightarrow> hook_notice \<Rightarrow> bool
    \<Rightarrow> time \<Rightarrow> draws \<Rightarrow> string \<Rightarrow> usage_state \<times> event list \<Rightarrow> err + usage_state \<times> event list" where
  "observe_wake turns a telemetry notice providerBlocked t draws key = (\<lambda>(st, evs).
     case map_of (us_recent st) key of
       None \<Rightarrow> Inr (st, evs)
     | Some s \<Rightarrow>
         if sn_recipient_id s \<noteq> ag_id a \<or> sn_turn_id s = '''' then Inr (st, evs)
         else if hn_kind notice = ''turn-finished'' \<or> hn_kind notice = ''turn-failed''
         then (case turns (sn_token s) of (ids, pending, left) \<Rightarrow>
           if pending then Inr (st, evs)
           else if left
           then Inr (fail_wake t key ''wake left the native queue without a turn of its own'' s (st, evs))
           else if ids \<noteq> []
           then judge_turn a telemetry notice providerBlocked t draws key True
             (s\<lparr>sn_turn_id := (if hn_turn_id notice \<in> set ids then hn_turn_id notice else hd ids)\<rparr>) (st, evs)
           else judge_turn a telemetry notice providerBlocked t draws key False s (st, evs))
         else judge_turn a telemetry notice providerBlocked t draws key False s (st, evs))"

definition observe_wakes :: "(string \<Rightarrow> string list \<times> bool \<times> bool) \<Rightarrow> agent \<Rightarrow> invocation option \<Rightarrow> hook_notice \<Rightarrow> bool
    \<Rightarrow> time \<Rightarrow> draws \<Rightarrow> usage_state \<Rightarrow> err + usage_state \<times> event list" where
  "observe_wakes turns a telemetry notice providerBlocked t draws st =
     fold_err (observe_wake turns a telemetry notice providerBlocked t draws) (map fst (us_recent st)) (st, [])"

definition observeSnoozeTurn :: "team_paths \<Rightarrow> transcript_codec \<Rightarrow> (string \<Rightarrow> err + string) \<Rightarrow> draws \<Rightarrow> agent
    \<Rightarrow> invocation \<Rightarrow> invocation option \<Rightarrow> hook_notice \<Rightarrow> bool \<Rightarrow> unit io" where
  "observeSnoozeTurn p c opens draws a iv telemetry notice providerBlocked =
     (let transcript = (if hn_transcript notice = '''' then nat_transcript (ag_native a) else hn_transcript notice) in
      and_then (reads now) (\<lambda>t.
      and_then (withUsageState p (\<lambda>st.
        lift (observe_wakes (wake_turns c opens iv transcript) a telemetry notice providerBlocked t draws st))) (\<lambda>events.
      appendEvents p events)))"

end
