(* ===== verification/Usage_Work.thy ===== *)
theory Usage_Work
  imports Usage_State
begin

text \<open>
  The work on the usage record that readings and the clock start: usage bands that a
  reading crosses (\<^verbatim>\<open>observeUsageBands\<close>), wakes that a provider cap schedules
  (\<^verbatim>\<open>cmd/gang/auto_cap.go\<close>), and the publication of warnings and due wakes
  (\<^verbatim>\<open>flushUsageWork\<close>), all on the record of theory \<^theory_text>\<open>Usage_State\<close>.
\<close>

section \<open>Usage bands\<close>

record usage_band =
  ub_name :: string
  ub_ahead :: float64
  ub_message :: string
  ub_note :: string

record usage_collar =
  uc_name :: string
  uc_bands :: "(string \<times> usage_band list) list"

definition default_band_message :: string where
  "default_band_message = ''{{collar}} {{window}} usage: {{used_percent}}% used at {{elapsed_percent}}% of the window ''
     @ ''(pace {{pace_points}} points), projected exhaustion {{exhaustion_at}}, resets {{reset_at}}''"

definition renderUsageBand :: "(float64 \<Rightarrow> float64) \<Rightarrow> usage_band \<Rightarrow> string \<Rightarrow> string \<Rightarrow> float64 \<Rightarrow> int \<Rightarrow> pace \<Rightarrow> string" where
  "renderUsageBand fl band collar window used reset p =
     replace_tokens
       [(''{{band}}'', ub_name band),
        (''{{collar}}'', collar),
        (''{{window}}'', map (\<lambda>c. if c = CHR ''_'' then CHR ''-'' else c) window),
        (''{{threshold_percent}}'', format0 (fl (ub_ahead band * 100))),
        (''{{used_percent}}'', format0 used),
        (''{{elapsed_percent}}'', format0 (pace_elapsed p)),
        (''{{pace_points}}'', pacePoints (pace_delta p)),
        (''{{exhaustion_at}}'', if pace_exhausts p = zero_time then ''after the reset'' else rfc3339 (pace_exhausts p)),
        (''{{reset_at}}'', rfc3339 (time_unix reset)),
        (''{{snooze_command}}'', ''gang snooze --note '' @ [CHR 0x27] @ ''Resume from your saved state'' @ [CHR 0x27])]
       ((if ub_message band = '''' then default_band_message else ub_message band)
        @ (if ub_note band = '''' then '''' else '' '' @ ub_note band))"

text \<open>Per kind of window, the reading's limit with the greatest pace, then the latest reset.\<close>

definition pace_window :: "(float64 \<Rightarrow> float64) \<Rightarrow> time \<Rightarrow> time \<Rightarrow> limit_window
    \<Rightarrow> (string \<times> limit_window \<times> pace) list \<Rightarrow> (string \<times> limit_window \<times> pace) list" where
  "pace_window fl measured t w windows =
     (let kind = UsageWindowKind (lim_label w) (lim_window_minutes w) in
      if kind = '''' \<or> \<not> usable_limit t w then windows
      else case UsagePace fl (lim_used_percent w) (time_unix (lim_reset_at w)) (lim_label w) (lim_window_minutes w) measured of
          None \<Rightarrow> windows
        | Some p \<Rightarrow>
            (case map_of windows kind of
               None \<Rightarrow> AList.update kind (w, p) windows
             | Some (w0, p0) \<Rightarrow>
                 if pace_delta p > pace_delta p0 \<or> pace_delta p = pace_delta p0 \<and> lim_reset_at w > lim_reset_at w0
                 then AList.update kind (w, p) windows else windows))"

text \<open>One band: the notices, the fired names, and the messages of this reading so far.\<close>

definition fire_band :: "(float64 \<Rightarrow> float64) \<Rightarrow> time \<Rightarrow> draws \<Rightarrow> usage_collar \<Rightarrow> string \<Rightarrow> limit_window \<Rightarrow> pace
    \<Rightarrow> usage_band \<Rightarrow> usage_notice list \<times> string list \<times> string list
    \<Rightarrow> err + usage_notice list \<times> string list \<times> string list" where
  "fire_band fl t draws c kind w p band = (\<lambda>(notices, fired, messages).
     if pace_delta p < fl (ub_ahead band * 100) \<or> ub_name band \<in> set fired then Inr (notices, fired, messages)
     else
       let text = renderUsageBand fl band (uc_name c) kind (lim_used_percent w) (lim_reset_at w) p in
       if text \<in> set messages then Inr (notices, fired @ [ub_name band], messages)
       else (case fresh_ids ''usage-band'' (draws (kind @ ''/'' @ ub_name band)) of
           Inl e \<Rightarrow> Inl e
         | Inr (i, token) \<Rightarrow>
             Inr (notices @ [\<lparr>un_id = i, un_token = token, un_collar = uc_name c, un_window = kind,
                    un_band = ub_name band, un_reset_at = lim_reset_at w, un_text = text, un_created_at = t,
                    un_recipient_id = '''', un_recipient_name = '''', un_submission = ''''\<rparr>],
                  fired @ [ub_name band], text # messages)))"

text \<open>A reading that says nothing new about a window.\<close>

definition stale_window :: "usage_window \<Rightarrow> limit_window \<Rightarrow> time \<Rightarrow> bool" where
  "stale_window previous w measured \<longleftrightarrow>
     uw_reset_at previous > lim_reset_at w \<or> measured < uw_observed_at previous
     \<or> uw_reset_at previous \<noteq> lim_reset_at w \<and> \<not> measured > uw_observed_at previous
     \<or> uw_reset_at previous = lim_reset_at w \<and> measured = uw_observed_at previous \<and> lim_used_percent w \<le> uw_percent previous"

definition bands_of :: "usage_collar \<Rightarrow> string \<Rightarrow> usage_band list" where
  "bands_of c kind = (case map_of (uc_bands c) kind of None \<Rightarrow> [] | Some bs \<Rightarrow> bs)"

definition window_key :: "usage_collar \<Rightarrow> string \<Rightarrow> string" where
  "window_key c kind = uc_name c @ ''/'' @ kind"

definition window_of :: "usage_state \<Rightarrow> string \<Rightarrow> usage_window" where
  "window_of st key = (case map_of (us_windows st) key of None \<Rightarrow> no_window | Some u \<Rightarrow> u)"

definition observe_window :: "(float64 \<Rightarrow> float64) \<Rightarrow> time \<Rightarrow> time \<Rightarrow> draws \<Rightarrow> usage_collar
    \<Rightarrow> (string \<times> limit_window \<times> pace) list \<Rightarrow> string \<Rightarrow> usage_state \<Rightarrow> err + usage_state" where
  "observe_window fl measured t draws c windows kind st =
     (case map_of windows kind of
        None \<Rightarrow> Inr st
      | Some (w, p) \<Rightarrow>
          let key = window_key c kind; old = window_of st key in
          if stale_window old w measured then Inr st
          else
            let previous = (if uw_reset_at old \<noteq> lim_reset_at w then no_window\<lparr>uw_reset_at := lim_reset_at w\<rparr> else old) in
            (case fold_err (fire_band fl t draws c kind w p) (bands_of c kind) (us_notices st, uw_fired previous, []) of
               Inl e \<Rightarrow> Inl e
             | Inr (notices, fired, _) \<Rightarrow>
                 Inr (st\<lparr>us_notices := notices,
                         us_windows := AList.update key (previous\<lparr>uw_fired := fired, uw_observed_at := measured,
                           uw_percent := lim_used_percent w\<rparr>) (us_windows st)\<rparr>)))"

text \<open>
  The order in which Go ranges over the windows of the reading is the argument \<^theory_text>\<open>kinds\<close>.
\<close>

definition observe_windows :: "(float64 \<Rightarrow> float64) \<Rightarrow> time \<Rightarrow> time \<Rightarrow> draws \<Rightarrow> usage_collar \<Rightarrow> limit_window list
    \<Rightarrow> string list \<Rightarrow> usage_state \<Rightarrow> err + usage_state" where
  "observe_windows fl measured t draws c limits kinds st =
     fold_err (observe_window fl measured t draws c (fold (pace_window fl measured t) limits [])) kinds st"

definition observeUsageBands :: "(float64 \<Rightarrow> float64) \<Rightarrow> team_paths \<Rightarrow> draws \<Rightarrow> string list \<Rightarrow> agent \<Rightarrow> usage_collar \<Rightarrow> unit io" where
  "observeUsageBands fl p draws kinds a c =
     and_then (reads now) (\<lambda>t.
       case rd_at (nat_limits (ag_native a)) of
         None \<Rightarrow> ret ()
       | Some measured \<Rightarrow>
           if ag_status a \<noteq> Active \<or> rd_status (nat_limits (ag_native a)) \<noteq> ''observed'' \<or> measured > t then ret ()
           else withUsageState p (\<lambda>st.
             lift (case observe_windows fl measured t draws c (rd_limits (nat_limits (ag_native a))) kinds st of
               Inl e \<Rightarrow> Inl e | Inr st' \<Rightarrow> Inr (st', ()))))"

section \<open>Wakes that a provider cap schedules (auto_cap.go)\<close>

definition defaultSnoozeNote :: string where
  "defaultSnoozeNote = ''Re-read your assignment and durable state, then continue only if work remains.''"

definition scheduleAutomaticWake :: "agent \<Rightarrow> time \<Rightarrow> time \<Rightarrow> draws \<Rightarrow> usage_state \<times> event list
    \<Rightarrow> err + usage_state \<times> event list" where
  "scheduleAutomaticWake a reset t draws = (\<lambda>(st, evs).
     let key = ag_id a in
     if sn_id (snooze_of (us_snoozes st) key) \<noteq> '''' \<or> sn_id (snooze_of (us_recent st) key) \<noteq> '''' then Inr (st, evs)
     else (case fresh_ids ''snooze'' (draws key) of
         Inl e \<Rightarrow> Inl e
       | Inr (i, token) \<Rightarrow>
           let s = no_snooze\<lparr>sn_id := i, sn_token := token, sn_caller_id := ag_id a, sn_caller_name := ag_name a,
                 sn_at := reset, sn_note := defaultSnoozeNote, sn_auto := True\<rparr>
           in Inr (put_snooze key s st, evs @ [wakeEvent ''snooze_scheduled'' s t ''provider usage cap''])))"

text \<open>The failure a hook reports, or the one the transcript shows, and its time.\<close>

definition cap_failure :: "agent \<Rightarrow> invocation option \<Rightarrow> hook_notice \<Rightarrow> time \<Rightarrow> time \<times> string" where
  "cap_failure a telemetry notice t =
     (let n = ag_native a in
      if hn_kind notice = ''turn-failed'' \<and> hn_turn_id notice \<noteq> '''' \<and> hn_turn_id notice = nat_failed_turn n
      then (if hn_at notice = zero_time then t else hn_at notice, hn_failure notice)
      else if (case telemetry of None \<Rightarrow> False | Some iv \<Rightarrow> TelemetryUsesTranscript iv)
         \<and> nat_last_error_at n \<noteq> zero_time \<and> nat_submitted_at n \<noteq> zero_time \<and> \<not> nat_last_error_at n < nat_submitted_at n
      then (nat_last_error_at n, nat_last_error n)
      else (zero_time, ''''))"

definition auto_cap_of :: "usage_state \<Rightarrow> string \<Rightarrow> time" where
  "auto_cap_of st key = (case map_of (us_auto_caps st) key of None \<Rightarrow> zero_time | Some u \<Rightarrow> u)"

definition note_cap :: "agent \<Rightarrow> time \<Rightarrow> string \<Rightarrow> time \<Rightarrow> draws \<Rightarrow> usage_state \<times> event list
    \<Rightarrow> err + usage_state \<times> event list" where
  "note_cap a failureAt reason t draws = (\<lambda>(st, evs).
     let key = ag_id a; n = ag_native a;
         (explicit, generic) = usageCapFailure reason;
         (reset, is_capped) = observedCappedReset (nat_limits n) (nat_submitted_at n) t
     in if \<not> ((explicit \<or> generic) \<and> failureAt > auto_cap_of st key \<and> \<not> failureAt > t) then Inr (st, evs)
        else
          let st1 = st\<lparr>us_auto_caps := AList.update key failureAt (us_auto_caps st),
                us_auto_candidates := AList.delete key (us_auto_candidates st)\<rparr> in
          if generic \<and> \<not> is_capped
          then Inr (st1\<lparr>us_auto_candidates := AList.update key
                 \<lparr>acc_at = failureAt, acc_submitted_at = nat_submitted_at n\<rparr> (us_auto_candidates st1)\<rparr>, evs)
          else scheduleAutomaticWake a (if is_capped then reset else fst (recentNativeReset (nat_limits n) t)) t draws (st1, evs))"

definition settle_candidate :: "agent \<Rightarrow> time \<Rightarrow> draws \<Rightarrow> usage_state \<times> event list \<Rightarrow> err + usage_state \<times> event list" where
  "settle_candidate a t draws = (\<lambda>(st, evs).
     let key = ag_id a; r = nat_limits (ag_native a);
         forgotten = st\<lparr>us_auto_candidates := AList.delete key (us_auto_candidates st)\<rparr>
     in case map_of (us_auto_candidates st) key of
          None \<Rightarrow> Inr (st, evs)
        | Some candidate \<Rightarrow>
            if sub_time t (acc_at candidate) > 5 * minute then Inr (forgotten, evs)
            else if (case rd_at r of None \<Rightarrow> False | Some u \<Rightarrow> \<not> u < acc_at candidate)
            then (case observedCappedReset r (acc_submitted_at candidate) t of
                (reset, True) \<Rightarrow> scheduleAutomaticWake a reset t draws (forgotten, evs)
              | (_, False) \<Rightarrow> Inr (st, evs))
            else Inr (st, evs))"

text \<open>A wake that waits for its reset time takes it from a fresh reading.\<close>

definition date_wake :: "agent \<Rightarrow> time \<Rightarrow> usage_state \<times> event list \<Rightarrow> usage_state \<times> event list" where
  "date_wake a t = (\<lambda>(st, evs).
     let key = ag_id a; r = nat_limits (ag_native a); s = snooze_of (us_snoozes st) key in
     case rd_at r of
       None \<Rightarrow> (st, evs)
     | Some u \<Rightarrow>
         if \<not> (sn_id s \<noteq> '''' \<and> sn_auto s \<and> sn_at s = zero_time \<and> rd_status r = ''observed''
               \<and> \<not> u > t \<and> sub_time t u \<le> 5 * minute) then (st, evs)
         else
           let (reset, still) = cappedNativeReset (rd_limits r) t;
               due = (if still then reset else if \<not> u < auto_cap_of st key then t else zero_time);
               s1 = s\<lparr>sn_at := due\<rparr>
           in if due = zero_time then (st, evs)
              else (put_snooze key s1 st,
                evs @ [wakeEvent ''snooze_scheduled'' s1 t ''native reset observed for a provider cap'']))"

definition observe_auto_cap :: "agent \<Rightarrow> invocation option \<Rightarrow> hook_notice \<Rightarrow> time \<Rightarrow> draws \<Rightarrow> usage_state
    \<Rightarrow> err + usage_state \<times> event list" where
  "observe_auto_cap a telemetry notice t draws st =
     (let (failureAt, reason) = cap_failure a telemetry notice t in
      case note_cap a failureAt reason t draws (st, []) of
        Inl e \<Rightarrow> Inl e
      | Inr acc \<Rightarrow> (case settle_candidate a t draws acc of Inl e \<Rightarrow> Inl e | Inr acc' \<Rightarrow> Inr (date_wake a t acc')))"

definition observeAutoCap :: "team_paths \<Rightarrow> draws \<Rightarrow> agent \<Rightarrow> invocation option \<Rightarrow> hook_notice \<Rightarrow> unit io" where
  "observeAutoCap p draws a telemetry notice =
     and_then (reads now) (\<lambda>t.
     and_then (withUsageState p (\<lambda>st. lift (observe_auto_cap a telemetry notice t draws st))) (\<lambda>events.
     appendEvents p events))"

section \<open>Publication\<close>

definition isLead :: "agent \<Rightarrow> bool" where
  "isLead a \<longleftrightarrow> ag_role a = ''lead'' \<and> ag_hitched_by a = ''''"

definition currentLead :: "agent list \<Rightarrow> agent option" where
  "currentLead agents =
     (case filter (\<lambda>a. ag_status a = Active \<and> isLead a) agents of [a] \<Rightarrow> Some a | _ \<Rightarrow> None)"

definition snoozeWakeText :: "usage_snooze \<Rightarrow> time \<Rightarrow> string" where
  "snoozeWakeText s t =
     (let due = rfc3339 (sn_at s) in
      (if sn_auto s then ''Provider cap reset was due at '' @ due @ ''. Resume the interrupted work.''
       else ''Scheduled wake '' @ sn_id s @ '' for '' @ sn_caller_name s @ '' was due at '' @ due @ ''.'')
      @ (if t > sn_at s then '' It is overdue by '' @ seconds_text (sub_time t (sn_at s)) @ ''.'' else '''')
      @ (if sn_recipient_id s \<noteq> sn_caller_id s
         then '' Agent '' @ sn_caller_name s @ '' is no longer active; the lead is receiving its wake.'' else '''')
      @ '' '' @ sn_note s)"

text \<open>A wake whose recipient is gone is scheduled again, unless a newer one replaces it.\<close>

definition returned :: "envelope_id \<times> string \<Rightarrow> usage_snooze \<Rightarrow> usage_snooze" where
  "returned ids s =
     s\<lparr>sn_id := fst ids, sn_token := snd ids, sn_recipient_id := '''', sn_recipient_name := '''', sn_turn_id := '''',
       sn_cap_rejected := False, sn_cap_candidate := False, sn_turn_failed := False, sn_cap_failed_at := zero_time,
       sn_submission := '''', sn_submitted_at := zero_time\<rparr>"

definition reclaim_recent :: "(hitch_id \<times> agent) list \<Rightarrow> time \<Rightarrow> draws \<Rightarrow> string \<Rightarrow> usage_state \<times> event list
    \<Rightarrow> err + usage_state \<times> event list" where
  "reclaim_recent active t draws key = (\<lambda>(st, evs).
     case map_of (us_recent st) key of
       None \<Rightarrow> Inr (st, evs)
     | Some pending \<Rightarrow>
         if map_of active (sn_recipient_id pending) \<noteq> None then Inr (st, evs)
         else
           let gone = ''recipient '' @ sn_recipient_name pending @ '' is no longer active'';
               current = snooze_of (us_snoozes st) key in
           if sn_id current \<noteq> ''''
           then Inr (drop_recent key st,
             evs @ [wakeEvent ''snooze_cleared'' pending t (gone @ ''; superseded by '' @ sn_id current)])
           else (case fresh_ids ''snooze'' (draws (''recent/'' @ key)) of
               Inl e \<Rightarrow> Inl e
             | Inr ids \<Rightarrow>
                 Inr (drop_recent key (put_snooze key (returned ids pending) st),
                   evs @ [wakeEvent ''snooze_rearmed'' (returned ids pending) t (gone @ ''; replaces '' @ sn_id pending)])))"

text \<open>A notice goes to the lead; one in flight to an agent that is gone gets a new ID.\<close>

definition route_notice :: "(hitch_id \<times> agent) list \<Rightarrow> agent option \<Rightarrow> draws \<Rightarrow> usage_notice \<Rightarrow> err + usage_notice" where
  "route_notice active lead draws n =
     (let parted = (if map_of active (un_recipient_id n) \<noteq> None then Inr n
          else case (if un_recipient_id n \<noteq> '''' \<and> un_submission n \<noteq> ''''
                     then fresh_ids ''usage-band'' (draws (''notice/'' @ un_id n)) else Inr (un_id n, un_token n)) of
              Inl e \<Rightarrow> Inl e
            | Inr (i, token) \<Rightarrow> Inr (n\<lparr>un_id := i, un_token := token, un_recipient_id := '''', un_recipient_name := '''',
                un_submission := ''''\<rparr>)) in
      case parted of
        Inl e \<Rightarrow> Inl e
      | Inr m \<Rightarrow> Inr (case lead of
            Some l \<Rightarrow> if un_recipient_id m = '''' then m\<lparr>un_recipient_id := ag_id l, un_recipient_name := ag_name l\<rparr> else m
          | None \<Rightarrow> m))"

fun route_notices :: "(hitch_id \<times> agent) list \<Rightarrow> agent option \<Rightarrow> time \<Rightarrow> draws \<Rightarrow> usage_notice list
    \<Rightarrow> err + usage_notice list" where
  "route_notices active lead t draws [] = Inr []"
| "route_notices active lead t draws (n # ns) =
     (case route_notice active lead draws n of
        Inl e \<Rightarrow> Inl e
      | Inr m \<Rightarrow> (case route_notices active lead t draws ns of
            Inl e \<Rightarrow> Inl e
          | Inr ms \<Rightarrow> Inr (if un_submission m = '''' \<and> un_reset_at m \<le> unix_seconds t then ms else m # ms)))"

definition publishable_notice :: "usage_notice \<Rightarrow> bool" where
  "publishable_notice n \<longleftrightarrow> un_recipient_id n \<noteq> '''' \<and> un_submission n = ''''"

text \<open>A due wake: its recipient is its caller, or the lead when the caller is gone.\<close>

definition part_wake :: "(hitch_id \<times> agent) list \<Rightarrow> time \<Rightarrow> draws \<Rightarrow> string \<Rightarrow> usage_snooze
    \<Rightarrow> err + usage_snooze \<times> event list" where
  "part_wake active t draws key s =
     (if map_of active (sn_recipient_id s) \<noteq> None then Inr (s, [])
      else
        let parted = \<lambda>u. u\<lparr>sn_recipient_id := '''', sn_recipient_name := '''', sn_submission := ''''\<rparr> in
        if sn_recipient_id s \<noteq> '''' \<and> sn_submission s \<noteq> ''''
        then (case fresh_ids ''snooze'' (draws (''wake/'' @ key)) of
            Inl e \<Rightarrow> Inl e
          | Inr (i, token) \<Rightarrow>
              let s1 = s\<lparr>sn_id := i, sn_token := token\<rparr> in
              Inr (parted s1, [wakeEvent ''snooze_rearmed'' s1 t
                (''recipient '' @ sn_recipient_name s @ '' is no longer active; replaces '' @ sn_id s)]))
        else Inr (parted s, []))"

definition address_wake :: "(hitch_id \<times> agent) list \<Rightarrow> agent option \<Rightarrow> usage_snooze \<Rightarrow> usage_snooze" where
  "address_wake active lead s =
     (if sn_recipient_id s \<noteq> '''' then s
      else case map_of active (sn_caller_id s) of
          Some caller \<Rightarrow> s\<lparr>sn_recipient_id := ag_id caller, sn_recipient_name := ag_name caller\<rparr>
        | None \<Rightarrow> (case lead of
            Some l \<Rightarrow> s\<lparr>sn_recipient_id := ag_id l, sn_recipient_name := ag_name l\<rparr>
          | None \<Rightarrow> s))"

definition due_wake :: "(hitch_id \<times> agent) list \<Rightarrow> agent option \<Rightarrow> time \<Rightarrow> draws \<Rightarrow> string
    \<Rightarrow> usage_state \<times> event list \<times> usage_snooze list \<Rightarrow> err + usage_state \<times> event list \<times> usage_snooze list" where
  "due_wake active lead t draws key = (\<lambda>(st, evs, wakes).
     let s = snooze_of (us_snoozes st) key; recent = snooze_of (us_recent st) key in
     if sn_at s = zero_time \<or> sn_at s > t then Inr (st, evs, wakes)
     else if sn_id recent \<noteq> '''' \<and> \<not> sn_cap_rejected recent \<and> \<not> sn_turn_failed recent then Inr (st, evs, wakes)
     else
       let (st1, evs1) = (if sn_id recent \<noteq> ''''
             then (drop_recent key st, evs @ [wakeEvent ''snooze_cleared'' recent t (''superseded by '' @ sn_id s)])
             else (st, evs)) in
       case part_wake active t draws key s of
         Inl e \<Rightarrow> Inl e
       | Inr (s1, parted) \<Rightarrow>
           let s2 = address_wake active lead s1 in
           Inr (put_snooze key s2 st1, evs1 @ parted,
             if sn_recipient_id s2 \<noteq> '''' \<and> sn_submission s2 = '''' then wakes @ [s2] else wakes))"

definition active_agents :: "agent list \<Rightarrow> (hitch_id \<times> agent) list" where
  "active_agents agents = map (\<lambda>a. (ag_id a, a)) (filter (\<lambda>a. ag_status a = Active) agents)"

text \<open>The change of \<^verbatim>\<open>flushUsageWork\<close>: what to publish, and the events.\<close>

definition flush_plan :: "agent list \<Rightarrow> time \<Rightarrow> draws \<Rightarrow> usage_state
    \<Rightarrow> err + usage_state \<times> usage_notice list \<times> usage_snooze list \<times> event list" where
  "flush_plan agents t draws st =
     (let active = active_agents agents; lead = currentLead agents in
      case fold_err (reclaim_recent active t draws) (map fst (us_recent st)) (st, []) of
        Inl e \<Rightarrow> Inl e
      | Inr (st1, evs1) \<Rightarrow>
          (case route_notices active lead t draws (us_notices st1) of
             Inl e \<Rightarrow> Inl e
           | Inr kept \<Rightarrow>
               let st2 = st1\<lparr>us_notices := kept\<rparr> in
               (case fold_err (due_wake active lead t draws) (sort (map fst (us_snoozes st2))) (st2, evs1, []) of
                  Inl e \<Rightarrow> Inl e
                | Inr (st3, evs3, wakes) \<Rightarrow> Inr (st3, filter publishable_notice kept, wakes, evs3))))"

definition notice_envelope :: "usage_notice \<Rightarrow> envelope" where
  "notice_envelope n = blank_envelope\<lparr>env_id := un_id n, env_token := un_token n, env_recipient := un_recipient_id n,
     env_to := un_recipient_name n, env_from := blank_sender\<lparr>snd_kind := SenderGangline, snd_name := ''usage-band''\<rparr>,
     env_message := \<lparr>msg_text = un_text n\<rparr>, env_created_at := un_created_at n, env_not_after := time_unix (un_reset_at n)\<rparr>"

definition wake_envelope :: "time \<Rightarrow> usage_snooze \<Rightarrow> envelope" where
  "wake_envelope t s = blank_envelope\<lparr>env_id := sn_id s, env_token := sn_token s, env_recipient := sn_recipient_id s,
     env_to := sn_recipient_name s, env_from := blank_sender\<lparr>snd_kind := SenderGangline, snd_name := ''snooze''\<rparr>,
     env_message := \<lparr>msg_text = snoozeWakeText s t\<rparr>, env_created_at := t\<rparr>"

section \<open>Publishing an intent\<close>

definition published_in :: "agent_paths \<Rightarrow> envelope_id \<Rightarrow> string \<Rightarrow> bool io" where
  "published_in p i dir =
     and_then (attempt (ReadEnvelope p dir i)) (\<lambda>r. case r of
       Inr _ \<Rightarrow> ret True
     | Inl e \<Rightarrow> if errors_is e NotExist then ret False else raise e)"

definition envelopePublished :: "agent_paths \<Rightarrow> envelope_id \<Rightarrow> bool io" where
  "envelopePublished p i =
     and_then (published_in p i ''new'') (\<lambda>a. if a then ret True
       else and_then (published_in p i ''cur'') (\<lambda>b. if b then ret True else published_in p i ''failed''))"

definition publishOnceTo :: "team_paths \<Rightarrow> agent_paths \<Rightarrow> agent \<Rightarrow> envelope \<Rightarrow> unit io" where
  "publishOnceTo t p a e =
     and_then (envelopePublished p (env_id e)) (\<lambda>published.
       if published then ret ()
       else and_then (Publish p e) (\<lambda>_.
         record_event t a (blank_event\<lparr>ev_type := ''send_queued'', ev_envelope := Some e\<rparr>)))"

definition publish_wake :: "team_paths \<Rightarrow> agent_paths \<Rightarrow> agent \<Rightarrow> envelope \<Rightarrow> unit io" where
  "publish_wake t p a e =
     and_then (envelopePublished p (env_id e)) (\<lambda>published.
       if published then ret ()
       else and_then (attempt (PublishNew p e)) (\<lambda>r. case r of
           Inl x \<Rightarrow> if errors_is x EnvelopeQueued
             then record_event t a (blank_event\<lparr>ev_type := ''send_queued'', ev_envelope := Some e\<rparr>) else raise x
         | Inr _ \<Rightarrow> record_event t a (blank_event\<lparr>ev_type := ''send_queued'', ev_envelope := Some e\<rparr>)))"

text \<open>Whether the record still wants the envelope published, and whether it is an explicit wake.\<close>

definition intent_ready :: "agent \<Rightarrow> envelope \<Rightarrow> usage_state \<Rightarrow> bool \<times> bool" where
  "intent_ready a e st =
     (if snd_name (env_from e) = ''usage-band''
      then (list_ex (\<lambda>n. un_id n = env_id e \<and> un_recipient_id n = ag_id a \<and> un_submission n = '''') (us_notices st), False)
      else if snd_name (env_from e) = ''snooze''
      then (case find (\<lambda>(_, s). sn_id s = env_id e \<and> sn_recipient_id s = ag_id a \<and> sn_submission s = '''') (us_snoozes st) of
          None \<Rightarrow> (False, False)
        | Some (_, s) \<Rightarrow> (True, \<not> sn_auto s \<and> sn_rearms s = 0))
      else (False, False))"

text \<open>
  Taking the recipient's lock and draining its inbox belong to delivery: \<^theory_text>\<open>acquire\<close>, \<^theory_text>\<open>release\<close>
  and \<^theory_text>\<open>drain\<close> are arguments.
\<close>

definition publish_intent :: "team_paths \<Rightarrow> (agent_paths \<Rightarrow> agent \<Rightarrow> envelope_id \<Rightarrow> unit io) \<Rightarrow> agent_paths \<Rightarrow> agent
    \<Rightarrow> envelope \<Rightarrow> bool io" where
  "publish_intent t drain p a e =
     (if ag_status a \<noteq> Active then ret False
      else and_then (withUsageState t (\<lambda>st. ret (st, intent_ready a e st))) (\<lambda>(ready, explicit).
        if \<not> ready then ret False
        else
          and_then (if explicit then publish_wake t p a e else publishOnceTo t p a e) (\<lambda>_.
          and_then (drain p a (env_id e)) (\<lambda>_.
          and_then (attempt (ReadEnvelope p ''cur'' (env_id e))) (\<lambda>r. case r of
            Inl x \<Rightarrow> if errors_is x NotExist then ret False else raise x
          | Inr receipt \<Rightarrow> ret (env_outcome receipt = ''delivered''))))))"

definition publishUsageEnvelope :: "team_paths \<Rightarrow> (hitch_id \<Rightarrow> agent io) \<Rightarrow> (hitch_id \<Rightarrow> unit io)
    \<Rightarrow> (agent_paths \<Rightarrow> agent \<Rightarrow> envelope_id \<Rightarrow> unit io) \<Rightarrow> envelope \<Rightarrow> bool io" where
  "publishUsageEnvelope t acquire release drain e =
     and_then (attempt (and_then (Agent t (env_recipient e)) (\<lambda>p. and_then (acquire (env_recipient e)) (\<lambda>a. ret (p, a))))) (\<lambda>r.
       case r of
         Inl x \<Rightarrow> if errors_is x Locked \<or> errors_is x NotExist then ret False else raise x
       | Inr (p, a) \<Rightarrow>
           and_then (attempt (publish_intent t drain p a e)) (\<lambda>x.
           and_then (attempt (release (env_recipient e))) (\<lambda>_. lift x)))"

text \<open>A failure stops the later envelopes of the same recipient.\<close>

fun publish_each :: "(envelope \<Rightarrow> bool io) \<Rightarrow> hitch_id list \<Rightarrow> envelope list \<Rightarrow> err list io" where
  "publish_each publish failed [] = ret []"
| "publish_each publish failed (e # es) =
     (if env_recipient e \<in> set failed then publish_each publish failed es
      else and_then (attempt (publish e)) (\<lambda>r. case r of
          Inr _ \<Rightarrow> publish_each publish failed es
        | Inl x \<Rightarrow> and_then (publish_each publish (env_recipient e # failed) es) (\<lambda>xs. ret (x # xs))))"

definition flushUsageWork :: "team_paths \<Rightarrow> draws \<Rightarrow> (hitch_id \<Rightarrow> agent io) \<Rightarrow> (hitch_id \<Rightarrow> unit io)
    \<Rightarrow> (agent_paths \<Rightarrow> agent \<Rightarrow> envelope_id \<Rightarrow> unit io) \<Rightarrow> unit io" where
  "flushUsageWork p draws acquire release drain =
     and_then (ListAgents p) (\<lambda>agents.
     and_then (reads now) (\<lambda>t.
     and_then (withUsageState p (\<lambda>st. lift (flush_plan agents t draws st))) (\<lambda>(notices, wakes, events).
     and_then (appendEvents p events) (\<lambda>_.
     and_then (publish_each (publishUsageEnvelope p acquire release drain) []
       (map notice_envelope notices @ map (wake_envelope t) wakes)) (\<lambda>errs.
       if errs = [] then ret () else raise (Joined errs))))))"

end
