(* ===== verification/Usage_Snooze.thy ===== *)
theory Usage_Snooze
  imports Usage_Work Store_Inbox
begin

text \<open>
  The command \<^verbatim>\<open>gang snooze\<close> (\<^verbatim>\<open>cmd/gang/snooze.go\<close>) on the usage record: what it prints about
  wakes, and how it schedules, replaces and clears them. A wake that is queued in its
  recipient's inbox is withdrawn under the recipient's lock. Taking that lock runs the
  recovery of the delivery layer; it is the argument \<^theory_text>\<open>acquire\<close>, and giving it back the
  argument \<^theory_text>\<open>release\<close>.
\<close>

section \<open>Texts\<close>

definition snoozeStatusText :: "usage_snooze \<Rightarrow> bool \<Rightarrow> string" where
  "snoozeStatusText s submitted =
     (if submitted
      then (if sn_submission s = ''accepted'' then ''accepted in native queue; awaiting turn success''
            else ''native submission unverified; inspect recipient'')
      else if sn_auto s \<and> sn_at s = zero_time then ''provider cap confirmed; awaiting native reset time''
      else if sn_cap_candidate s then ''rate limit unconfirmed by native usage; inspect or clear''
      else if sn_cap_rejected s \<and> sn_rearms s > 0 \<and> \<not> sn_auto s
      then ''usage cap rejected the replacement; manual action needed''
      else if sn_cap_rejected s then ''waiting for native reset after cap rejection''
      else if sn_turn_failed s then ''native turn failed''
      else if sn_turn_id s = '''' then ''native turn identity unavailable''
      else ''awaiting successful native turn'')"

definition snoozeQueuedText :: "usage_snooze \<Rightarrow> string" where
  "snoozeQueuedText s =
     ''queued for '' @ sn_recipient_name s @ '', not yet submitted; due '' @ rfc3339 (sn_at s)"

text \<open>\<^verbatim>\<open>strings.Fields\<close> joined by single spaces.\<close>

fun take_word :: "string \<Rightarrow> string \<times> string" where
  "take_word [] = ([], [])"
| "take_word (c # s) =
     (if list_ex (has_prefix (c # s)) space_bytes then ([], c # s)
      else case take_word s of (w, r) \<Rightarrow> (c # w, r))"

lemma take_word_length: "length (snd (take_word s)) \<le> length s"
  by (induction s) (auto split: prod.splits)

lemma trim_front_length: "length (trim_front seqs s) \<le> length s"
proof (induction seqs s rule: trim_front.induct)
  case (1 seqs s)
  show ?case
  proof (cases "find (\<lambda>x. x \<noteq> [] \<and> has_prefix s x) seqs")
    case (Some x)
    then show ?thesis using "1.IH" [OF Some] by (subst trim_front.simps) simp
  qed (subst trim_front.simps, simp)
qed

function fields :: "string \<Rightarrow> string list" where
  "fields s =
     (case trim_front space_bytes s of
        [] \<Rightarrow> []
      | c # cs \<Rightarrow> (c # fst (take_word cs)) # fields (snd (take_word cs)))"
  by pat_completeness auto
termination
proof (relation "measure length", goal_cases)
  case (2 s c cs)
  then have "Suc (length cs) \<le> length s" using trim_front_length [of space_bytes s] by simp
  then show ?case using take_word_length [of cs] by simp
qed simp

declare fields.simps [simp del]

text \<open>A teammate's wake as the lead sees it.\<close>

definition wake_state_text :: "usage_snooze \<Rightarrow> bool \<Rightarrow> hitch_id \<Rightarrow> string" where
  "wake_state_text s recent lead =
     (let due = ''; due '' @ rfc3339 (sn_at s) in
      if recent \<and> sn_cap_candidate s \<and> sn_recipient_id s \<noteq> lead then ''rate limit unconfirmed by native usage'' @ due
      else if recent then snoozeStatusText s False @ due
      else if sn_submission s \<noteq> '''' then snoozeStatusText s True @ due
      else if sn_recipient_id s \<noteq> ''''
      then snoozeQueuedText s @ (if sn_recipient_id s = lead then ''; --clear ID withdraws it'' else '''')
      else if sn_at s = zero_time then snoozeStatusText s False
      else ''scheduled'' @ due)"

definition tab :: char where "tab = CHR 0x09"

definition teammateWakeRow :: "usage_snooze \<Rightarrow> bool \<Rightarrow> hitch_id \<Rightarrow> string" where
  "teammateWakeRow s recent lead =
     (let note = join_with '' '' (fields (sn_note s)) in
      sn_id s @ [tab] @ ''wake for '' @ sn_caller_name s @ ''; '' @ wake_state_text s recent lead
      @ (if note = '''' then '''' else ''; note: '' @ note))"

definition own_row :: "usage_snooze \<Rightarrow> string list" where
  "own_row s =
     (if sn_id s = '''' then []
      else if sn_submission s \<noteq> '''' then [sn_id s @ [tab] @ snoozeStatusText s True]
      else if sn_recipient_id s \<noteq> ''''
      then [sn_id s @ [tab] @ snoozeQueuedText s @ ''; --clear withdraws it, --at replaces it'']
      else if sn_at s = zero_time then [sn_id s @ [tab] @ snoozeStatusText s False]
      else [sn_id s @ [tab] @ rfc3339 (sn_at s)])"

definition notice_row :: "usage_notice \<Rightarrow> string" where
  "notice_row n = un_id n @ [tab] @ un_collar n @ '' '' @ un_window n @ '' '' @ un_band n
     @ '' notice; native '' @ un_submission n @ ''; inspect native input before clearing by ID''"

text \<open>The rows of \<^verbatim>\<open>--status\<close>, in the byte order in which they are printed.\<close>

definition status_rows :: "agent \<Rightarrow> usage_state \<Rightarrow> string list" where
  "status_rows a st =
     (let key = ag_id a; recent = snooze_of (us_recent st) key; others = filter (\<lambda>(caller, _). caller \<noteq> key) in
      sort (own_row (snooze_of (us_snoozes st) key)
        @ (if sn_id recent \<noteq> '''' then [sn_id recent @ [tab] @ snoozeStatusText recent False]
           else if sn_id (snooze_of (us_snoozes st) key) = ''''
              \<and> (case map_of (us_auto_candidates st) key of None \<Rightarrow> False | Some c \<Rightarrow> acc_at c \<noteq> zero_time)
           then [''provider cap unconfirmed; awaiting fresh native usage''] else [])
        @ (if isLead a
           then map notice_row (filter (\<lambda>n. un_recipient_id n = ag_id a \<and> un_submission n \<noteq> '''') (us_notices st))
             @ map (\<lambda>(_, s). teammateWakeRow s False (ag_id a)) (others (us_snoozes st))
             @ map (\<lambda>(_, s). teammateWakeRow s True (ag_id a)) (others (us_recent st))
           else [])))"

section \<open>Changing a wake that may be queued\<close>

definition queuedWakeRecipient :: "usage_snooze \<Rightarrow> hitch_id" where
  "queuedWakeRecipient s = (if sn_submission s \<noteq> '''' then '''' else sn_recipient_id s)"

text \<open>Withdrawing a wake from the inbox of the agent whose lock is held.\<close>

definition withdraw_wake :: "(agent_paths \<times> agent) option \<Rightarrow> usage_snooze \<Rightarrow> envelope_id list io" where
  "withdraw_wake lk s =
     (case lk of
        None \<Rightarrow> ret []
      | Some (ap, a) \<Rightarrow>
          if queuedWakeRecipient s \<noteq> ag_id a then ret []
          else and_then (attempt (Withdraw ap (sn_id s))) (\<lambda>r. case r of
              Inl e \<Rightarrow> if errors_is e NotExist then ret [] else raise e
            | Inr _ \<Rightarrow> ret [sn_id s]))"

type_synonym 'a wake_change =
  "usage_state \<Rightarrow> (usage_snooze \<Rightarrow> envelope_id list io) \<Rightarrow> (usage_state \<times> envelope_id list \<times> 'a) io"

definition queued_body :: "team_paths \<Rightarrow> hitch_id \<Rightarrow> (usage_state \<Rightarrow> hitch_id) \<Rightarrow> 'a wake_change
    \<Rightarrow> (agent_paths \<times> agent) option \<Rightarrow> 'a io" where
  "queued_body p i recipient change lk =
     and_then (withUsageState p (\<lambda>st.
       if recipient st \<noteq> i
       then raise (Fail ''wake delivery changed while it was being withdrawn; retry'')
       else change st (withdraw_wake lk))) (\<lambda>(cancelled, x).
     and_then (for_each (\<lambda>e. case lk of
         None \<Rightarrow> ret ()
       | Some (_, a) \<Rightarrow> record_event p a (blank_event\<lparr>ev_type := ''send_cancelled'', ev_id := e,
           ev_reason := ''wake withdrawn before native submission''\<rparr>)) cancelled) (\<lambda>_. ret x))"

definition withQueuedWake :: "team_paths \<Rightarrow> (hitch_id \<Rightarrow> agent io) \<Rightarrow> (hitch_id \<Rightarrow> unit io)
    \<Rightarrow> (usage_state \<Rightarrow> hitch_id) \<Rightarrow> 'a wake_change \<Rightarrow> 'a io" where
  "withQueuedWake p acquire release recipient change =
     and_then (withUsageState p (\<lambda>st. ret (st, recipient st))) (\<lambda>i.
       if i = '''' then queued_body p i recipient change None
       else
         and_then (Agent p i) (\<lambda>ap.
         and_then (attempt (os_stat (ap_state ap))) (\<lambda>present. case present of
           Inl e \<Rightarrow> if errors_is e NotExist then queued_body p i recipient change None else raise e
         | Inr _ \<Rightarrow>
             and_then (attempt (acquire i)) (\<lambda>r. case r of
               Inl e \<Rightarrow> raise (if errors_is e Locked
                 then Fail ''wake recipient is busy with an input operation; retry'' else e)
             | Inr a \<Rightarrow>
                 and_then (attempt (queued_body p i recipient change (Some (ap, a)))) (\<lambda>x.
                 and_then (attempt (release i)) (\<lambda>c.
                   if errs_of x @ errs_of c = [] then lift x else raise (Joined (errs_of x @ errs_of c))))))))"

section \<open>The changes\<close>

text \<open>\<^verbatim>\<open>--clear\<close> by the caller.\<close>

definition clear_own :: "hitch_id \<Rightarrow> time \<Rightarrow> event list wake_change" where
  "clear_own key t st withdraw =
     and_then (withdraw (snooze_of (us_snoozes st) key)) (\<lambda>cancelled.
     ret (let st1 = drop_recent key (drop_snooze key st) in
       st1\<lparr>us_auto_candidates := AList.delete key (us_auto_candidates st1)\<rparr>,
       cancelled,
       map (\<lambda>s. wakeEvent ''snooze_cleared'' s t ''cleared by its agent'')
         (filter (\<lambda>s. sn_id s \<noteq> '''') [snooze_of (us_snoozes st) key, snooze_of (us_recent st) key])))"

text \<open>\<^verbatim>\<open>--clear ID\<close> by the lead: a notice in flight, a wake, or a wake awaiting its turn.\<close>

definition routed_wake :: "envelope_id \<Rightarrow> hitch_id \<Rightarrow> (string \<times> usage_snooze) list \<Rightarrow> (string \<times> usage_snooze) option" where
  "routed_wake i recipient m = find (\<lambda>(_, s). sn_id s = i \<and> sn_recipient_id s = recipient) m"

fun remove_notice :: "envelope_id \<Rightarrow> hitch_id \<Rightarrow> usage_notice list \<Rightarrow> usage_notice list option" where
  "remove_notice i recipient [] = None"
| "remove_notice i recipient (n # ns) =
     (if un_id n = i \<and> un_recipient_id n = recipient \<and> un_submission n \<noteq> '''' then Some ns
      else map_option (Cons n) (remove_notice i recipient ns))"

definition clear_routed :: "agent \<Rightarrow> envelope_id \<Rightarrow> time \<Rightarrow> (bool \<times> event list) wake_change" where
  "clear_routed a i t st withdraw =
     (let cleared = \<lambda>s. wakeEvent ''snooze_cleared'' s t (''cleared by lead '' @ ag_name a) in
      case remove_notice i (ag_id a) (us_notices st) of
        Some ns \<Rightarrow> ret (st\<lparr>us_notices := ns\<rparr>, [], True, [])
      | None \<Rightarrow> (case routed_wake i (ag_id a) (us_snoozes st) of
          Some (caller, s) \<Rightarrow>
            and_then (withdraw s) (\<lambda>cancelled. ret (drop_snooze caller st, cancelled, True, [cleared s]))
        | None \<Rightarrow> (case routed_wake i (ag_id a) (us_recent st) of
            Some (caller, s) \<Rightarrow> ret (drop_recent caller st, [], True, [cleared s])
          | None \<Rightarrow> ret (st, [], False, []))))"

text \<open>Scheduling, which replaces a wake that is not in flight and a wake that failed.\<close>

definition schedule_wake :: "usage_snooze \<Rightarrow> time \<Rightarrow> string \<Rightarrow> event list wake_change" where
  "schedule_wake s t reason st withdraw =
     (let key = sn_caller_id s; current = snooze_of (us_snoozes st) key; recent = snooze_of (us_recent st) key in
      if sn_recipient_id current \<noteq> '''' \<and> sn_submission current \<noteq> ''''
      then raise (Fail ''previous wake is already submitted; inspect it with --status or clear it'')
      else
        and_then (withdraw current) (\<lambda>cancelled.
        let over = sn_cap_rejected recent \<or> sn_turn_failed recent;
            st1 = (if over then drop_recent key st else st);
            replaced = current # (if over then [recent] else [])
        in ret (put_snooze key s st1, cancelled,
             map (\<lambda>old. wakeEvent ''snooze_cleared'' old t (''replaced by '' @ sn_id s))
               (filter (\<lambda>old. sn_id old \<noteq> '''') replaced)
             @ [wakeEvent ''snooze_scheduled'' s t reason])))"

section \<open>The commands\<close>

definition snooze_clear :: "team_paths \<Rightarrow> (hitch_id \<Rightarrow> agent io) \<Rightarrow> (hitch_id \<Rightarrow> unit io) \<Rightarrow> agent \<Rightarrow> unit io" where
  "snooze_clear p acquire release a =
     and_then (reads now) (\<lambda>t.
     and_then (withQueuedWake p acquire release
       (\<lambda>st. queuedWakeRecipient (snooze_of (us_snoozes st) (ag_id a))) (clear_own (ag_id a) t)) (\<lambda>events.
     appendEvents p events))"

definition snooze_clear_id :: "team_paths \<Rightarrow> (hitch_id \<Rightarrow> agent io) \<Rightarrow> (hitch_id \<Rightarrow> unit io) \<Rightarrow> agent
    \<Rightarrow> envelope_id \<Rightarrow> unit io" where
  "snooze_clear_id p acquire release a i =
     (if \<not> isLead a then raise (Fail ''only the lead can clear another usage intent by ID'')
      else and_then (reads now) (\<lambda>t.
      and_then (withQueuedWake p acquire release
        (\<lambda>st. case routed_wake i (ag_id a) (us_snoozes st) of None \<Rightarrow> '''' | Some (_, s) \<Rightarrow> queuedWakeRecipient s)
        (clear_routed a i t)) (\<lambda>(known, events).
        if \<not> known then raise (Fail (''usage intent '' @ i @ '' is not awaiting review for this lead''))
        else appendEvents p events)))"

text \<open>
  The due time: an explicit one, or the reset of a fresh reading. \<^theory_text>\<open>check\<close> is the delivery
  layer's test that the text of a wake could be submitted.
\<close>

definition snooze_due :: "time option \<Rightarrow> reading \<Rightarrow> time \<Rightarrow> err + time \<times> string" where
  "snooze_due explicit r t =
     (case explicit of
        Some due \<Rightarrow> Inr (due, ''explicit time'')
      | None \<Rightarrow>
          if rd_status r \<noteq> ''observed'' \<or> (case rd_at r of None \<Rightarrow> True | Some u \<Rightarrow> u > t \<or> sub_time t u > 5 * minute)
          then Inl (Fail ''native provider limits are unavailable or stale; use gang limits or --at'')
          else (case snoozeReset (rd_limits r) t of Inl e \<Rightarrow> Inl e | Inr due \<Rightarrow> Inr (due, ''native usage reset'')))"

definition new_wake :: "agent \<Rightarrow> envelope_id \<times> string \<Rightarrow> time \<Rightarrow> string \<Rightarrow> usage_snooze" where
  "new_wake a ids due note =
     no_snooze\<lparr>sn_id := fst ids, sn_token := snd ids, sn_caller_id := ag_id a, sn_caller_name := ag_name a,
       sn_at := due, sn_note := (if TrimSpace note = '''' then defaultSnoozeNote else note)\<rparr>"

definition snooze_schedule :: "team_paths \<Rightarrow> (hitch_id \<Rightarrow> agent io) \<Rightarrow> (hitch_id \<Rightarrow> unit io) \<Rightarrow> (string \<Rightarrow> unit io)
    \<Rightarrow> draws \<Rightarrow> agent \<Rightarrow> time option \<Rightarrow> reading \<Rightarrow> string \<Rightarrow> unit io" where
  "snooze_schedule p acquire release check draws a explicit r note =
     and_then (reads now) (\<lambda>t.
     and_then (lift (snooze_due explicit r t)) (\<lambda>(due, reason).
       if \<not> due > t then raise (Fail ''snooze: wake time must be in the future'')
       else
         and_then (lift (fresh_ids ''snooze'' (draws (ag_id a)))) (\<lambda>ids.
         let s = new_wake a ids due note in
         and_then (check (snoozeWakeText (s\<lparr>sn_recipient_id := ''lead-fallback''\<rparr>) (due + (2 ^ 63 - 1)))) (\<lambda>_.
         and_then (withQueuedWake p acquire release
           (\<lambda>st. queuedWakeRecipient (snooze_of (us_snoozes st) (ag_id a))) (schedule_wake s t reason)) (\<lambda>events.
         appendEvents p events)))))"

end
