(* ===== verification/Usage_Runs.thy ===== *)
theory Usage_Runs
  imports Usage_Snooze
begin

text \<open>
  What every change of the usage record keeps, over runs of all of them: the invariant of
  the scheduled wakes and the account of wakes that leave the record; the invariant of the
  usage windows and notices; and what a flush publishes.
\<close>

section \<open>Lookups\<close>

lemma snoozes_simps [simp]:
  "map_of (us_snoozes (put_snooze k s st)) = (map_of (us_snoozes st))(k \<mapsto> s)"
  "map_of (us_snoozes (drop_snooze k st)) = (map_of (us_snoozes st))(k := None)"
  "us_snoozes (put_recent k s st) = us_snoozes st"
  "us_snoozes (drop_recent k st) = us_snoozes st"
  by (simp_all add: put_snooze_def drop_snooze_def put_recent_def drop_recent_def update_conv' delete_conv')

lemma recent_simps [simp]:
  "map_of (us_recent (put_recent k s st)) = (map_of (us_recent st))(k \<mapsto> s)"
  "map_of (us_recent (drop_recent k st)) = (map_of (us_recent st))(k := None)"
  "us_recent (put_snooze k s st) = us_recent st"
  "us_recent (drop_snooze k st) = us_recent st"
  by (simp_all add: put_snooze_def drop_snooze_def put_recent_def drop_recent_def update_conv' delete_conv')

lemma other_simps [simp]:
  "us_windows (put_snooze k s st) = us_windows st" "us_notices (put_snooze k s st) = us_notices st"
  "us_windows (drop_snooze k st) = us_windows st" "us_notices (drop_snooze k st) = us_notices st"
  "us_windows (put_recent k s st) = us_windows st" "us_notices (put_recent k s st) = us_notices st"
  "us_windows (drop_recent k st) = us_windows st" "us_notices (drop_recent k st) = us_notices st"
  by (simp_all add: put_snooze_def drop_snooze_def put_recent_def drop_recent_def)

lemma distinct_snoozes [simp]:
  "distinct (map fst (us_snoozes st)) \<Longrightarrow> distinct (map fst (us_snoozes (put_snooze k s st)))"
  "distinct (map fst (us_snoozes st)) \<Longrightarrow> distinct (map fst (us_snoozes (drop_snooze k st)))"
  "distinct (map fst (us_recent st)) \<Longrightarrow> distinct (map fst (us_recent (put_recent k s st)))"
  "distinct (map fst (us_recent st)) \<Longrightarrow> distinct (map fst (us_recent (drop_recent k st)))"
  by (simp_all add: put_snooze_def drop_snooze_def put_recent_def drop_recent_def distinct_update distinct_delete)

lemma fresh_ids_nonempty: "fresh_ids label drawn = Inr ids \<Longrightarrow> fst ids \<noteq> ''''"
  by (auto simp: fresh_ids_def randomID_def split: sum.splits)

section \<open>The invariant of the wakes\<close>

text \<open>
  Every entry is a wake of the caller it is filed under, and one scheduled by its caller is
  armed again at most once. A wake with a recipient never stands beside another one of its
  caller that awaits its turn, so the outcome slot of a caller is never overwritten.
\<close>

definition wake_ok :: "string \<Rightarrow> usage_snooze \<Rightarrow> bool" where
  "wake_ok k s \<longleftrightarrow> sn_id s \<noteq> '''' \<and> sn_caller_id s = k \<and> 0 \<le> sn_rearms s \<and> (sn_auto s \<or> sn_rearms s \<le> 1)"

text \<open>The two lists are maps: no key twice.\<close>

definition keys_ok :: "usage_state \<Rightarrow> bool" where
  "keys_ok st \<longleftrightarrow> distinct (map fst (us_snoozes st)) \<and> distinct (map fst (us_recent st))"

lemma keys_ok_upd [simp]:
  "keys_ok st \<Longrightarrow> keys_ok (put_snooze k s st)" "keys_ok st \<Longrightarrow> keys_ok (drop_snooze k st)"
  "keys_ok st \<Longrightarrow> keys_ok (put_recent k s st)" "keys_ok st \<Longrightarrow> keys_ok (drop_recent k st)"
  by (simp_all add: keys_ok_def)

definition wakes_ok :: "usage_state \<Rightarrow> bool" where
  "wakes_ok st \<longleftrightarrow> keys_ok st
     \<and> (\<forall>k s. map_of (us_snoozes st) k = Some s \<longrightarrow>
          wake_ok k s \<and> (sn_recipient_id s \<noteq> '''' \<longrightarrow> map_of (us_recent st) k = None))
     \<and> (\<forall>k s. map_of (us_recent st) k = Some s \<longrightarrow> wake_ok k s \<and> sn_recipient_id s \<noteq> '''')"

text \<open>The caller's wake is over, as the log tells it.\<close>

definition closing :: "string \<Rightarrow> event \<Rightarrow> bool" where
  "closing k ev \<longleftrightarrow> (ev_type ev = ''snooze_completed'' \<or> ev_type ev = ''snooze_cleared'') \<and> ev_hitch_id ev = k"

definition has_wake :: "usage_state \<Rightarrow> string \<Rightarrow> bool" where
  "has_wake st k \<longleftrightarrow> map_of (us_snoozes st) k \<noteq> None \<or> map_of (us_recent st) k \<noteq> None"

definition accounted :: "usage_state \<Rightarrow> event list \<Rightarrow> usage_state \<Rightarrow> bool" where
  "accounted st0 evs st \<longleftrightarrow> (\<forall>k. has_wake st0 k \<longrightarrow> has_wake st k \<or> list_ex (closing k) evs)"

text \<open>The wakes filed under a caller: the scheduled one, and the one that awaits its turn.\<close>

definition on_file :: "usage_state \<Rightarrow> string \<Rightarrow> usage_snooze \<Rightarrow> bool" where
  "on_file st k s \<longleftrightarrow> map_of (us_snoozes st) k = Some s \<or> map_of (us_recent st) k = Some s"

text \<open>The same wake: its ID, and what decides whether it may be armed again.\<close>

definition same_wake :: "usage_snooze \<Rightarrow> usage_snooze \<Rightarrow> bool" where
  "same_wake s s' \<longleftrightarrow> sn_id s' = sn_id s \<and> sn_auto s' = sn_auto s \<and> sn_rearms s' = sn_rearms s"

text \<open>
  Where a wake of a caller can come from, given the events reported since a record: from that
  record; scheduled, never armed again so far; or from another of these by an update; by being
  armed again for a cap rejection, which counts; or by a replacement when its recipient is gone,
  which does not count.
\<close>

inductive descends :: "usage_state \<Rightarrow> event list \<Rightarrow> string \<Rightarrow> usage_snooze \<Rightarrow> bool" for st0 evs k where
  there: "on_file st0 k s \<Longrightarrow> descends st0 evs k s"
| scheduled: "e \<in> set evs \<Longrightarrow> ev_type e = ''snooze_scheduled'' \<Longrightarrow> ev_hitch_id e = k \<Longrightarrow> ev_id e = sn_id s \<Longrightarrow>
    sn_rearms s = 0 \<Longrightarrow> descends st0 evs k s"
| updated: "descends st0 evs k s \<Longrightarrow> same_wake s s' \<Longrightarrow> descends st0 evs k s'"
| armed_again: "descends st0 evs k s \<Longrightarrow> e \<in> set evs \<Longrightarrow> ev_type e = ''snooze_rearmed'' \<Longrightarrow>
    ev_reason e = ''attributable native usage-cap rejection'' \<Longrightarrow> ev_id e = sn_id s' \<Longrightarrow>
    sn_auto s' = sn_auto s \<Longrightarrow> sn_rearms s' = sn_rearms s + 1 \<Longrightarrow> descends st0 evs k s'"
| replaced: "descends st0 evs k s \<Longrightarrow> e \<in> set evs \<Longrightarrow> ev_type e = ''snooze_rearmed'' \<Longrightarrow>
    ev_reason e = ''recipient '' @ who @ '' is no longer active; replaces '' @ sn_id s \<Longrightarrow> ev_id e = sn_id s' \<Longrightarrow>
    sn_auto s' = sn_auto s \<Longrightarrow> sn_rearms s' = sn_rearms s \<Longrightarrow> descends st0 evs k s'"

lemma same_wake_refl [simp]: "same_wake s s"
  by (simp add: same_wake_def)

lemma descends_mono: "descends st0 evs k s \<Longrightarrow> set evs \<subseteq> set evs' \<Longrightarrow> descends st0 evs' k s"
  by (induction rule: descends.induct) (auto intro: descends.intros)

lemma descends_more: "descends st0 evs k s \<Longrightarrow> descends st0 (evs @ es) k s"
  by (erule descends_mono) simp

lemma descends_trans:
  assumes "descends st evs' k s" "\<And>u. on_file st k u \<Longrightarrow> descends st0 evs k u"
  shows "descends st0 (evs @ evs') k s"
  using assms(1)
proof induction
  case (there s)
  then show ?case using assms(2) descends_more by blast
qed (auto intro: descends.intros)

definition traced :: "usage_state \<Rightarrow> event list \<Rightarrow> usage_state \<Rightarrow> bool" where
  "traced st0 evs st \<longleftrightarrow> (\<forall>k s. on_file st k s \<longrightarrow> descends st0 evs k s)"

lemma traced_refl: "traced st evs st"
  by (simp add: traced_def descends.there)

lemma traced_more: "traced st0 evs st \<Longrightarrow> traced st0 (evs @ es) st"
  by (auto simp: traced_def descends_more)

lemma traced_put:
  assumes "traced st0 evs st" "descends st0 (evs @ es) k s"
  shows "traced st0 (evs @ es) (put_snooze k s st)" "traced st0 (evs @ es) (put_recent k s st)"
  using traced_more [OF assms(1), of es] assms(2) by (auto simp: traced_def on_file_def split: if_splits)

lemma traced_drop:
  assumes "traced st0 evs st"
  shows "traced st0 evs (drop_snooze k st)" "traced st0 evs (drop_recent k st)"
  using assms by (auto simp: traced_def on_file_def split: if_splits)

definition kept :: "usage_state \<Rightarrow> usage_state \<times> event list \<Rightarrow> bool" where
  "kept st0 = (\<lambda>(st, evs). wakes_ok st \<and> accounted st0 evs st \<and> traced st0 evs st)"

lemma snooze_of_Some [simp]: "map_of m k = Some s \<Longrightarrow> snooze_of m k = s"
  and snooze_of_None [simp]: "map_of m k = None \<Longrightarrow> snooze_of m k = no_snooze"
  by (simp_all add: snooze_of_def)

lemma no_snooze_simps [simp]: "sn_id no_snooze = ''''" "sn_recipient_id no_snooze = ''''" "sn_at no_snooze = zero_time"
  "sn_submission no_snooze = ''''" "sn_rearms no_snooze = 0"
  by (simp_all add: no_snooze_def)

lemma wakes_ok_id:
  assumes "wakes_ok st"
  shows "sn_id (snooze_of (us_snoozes st) k) = '''' \<longleftrightarrow> map_of (us_snoozes st) k = None"
    and "sn_id (snooze_of (us_recent st) k) = '''' \<longleftrightarrow> map_of (us_recent st) k = None"
  using assms by (auto simp: wakes_ok_def wake_ok_def snooze_of_def split: option.split)

lemma kept_events: "kept st0 (st, evs) \<Longrightarrow> kept st0 (st, evs @ es)"
  by (auto simp: kept_def accounted_def traced_more)

lemma kept_put_recent:
  assumes "kept st0 (st, evs)" "map_of (us_recent st) k \<noteq> None" "wake_ok k s" "sn_recipient_id s \<noteq> ''''"
    and "descends st0 (evs @ es) k s"
  shows "kept st0 (put_recent k s st, evs @ es)"
proof -
  have "sn_recipient_id u = ''''" if "map_of (us_snoozes st) k = Some u" for u
    using assms(1,2) that unfolding kept_def wakes_ok_def by fastforce
  then show ?thesis using assms traced_put(2) [of st0 evs st es k s] by (auto simp: kept_def accounted_def wakes_ok_def has_wake_def)
qed

lemma kept_drop_recent:
  assumes "kept st0 (st, evs)" "closing k e"
  shows "kept st0 (drop_recent k st, evs @ [e])"
  using assms traced_drop(2) [OF traced_more [of st0 evs st "[e]"], of k] by (auto simp: kept_def accounted_def wakes_ok_def has_wake_def)

lemma kept_move:
  assumes "kept st0 (st, evs)" "wake_ok k s" "sn_recipient_id s = ''''" "descends st0 (evs @ es) k s"
  shows "kept st0 (drop_recent k (put_snooze k s st), evs @ es)"
  using assms traced_drop(2) [OF traced_put(1) [of st0 evs st es k s], of k] by (auto simp: kept_def accounted_def wakes_ok_def has_wake_def)

lemma kept_put_snooze:
  assumes "kept st0 (st, evs)" "wake_ok k s" "sn_recipient_id s \<noteq> '''' \<Longrightarrow> map_of (us_recent st) k = None"
    and "descends st0 (evs @ es) k s"
  shows "kept st0 (put_snooze k s st, evs @ es)"
  using assms traced_put(1) [of st0 evs st es k s] by (auto simp: kept_def accounted_def wakes_ok_def has_wake_def)

lemma kept_refl: "wakes_ok st \<Longrightarrow> kept st (st, evs)"
  by (simp add: kept_def accounted_def traced_refl)

lemma kept_descends: "kept st0 (st, evs) \<Longrightarrow> on_file st k u \<Longrightarrow> same_wake u s \<Longrightarrow> descends st0 (evs @ es) k s"
  unfolding kept_def traced_def by (auto intro: descends.updated descends_more)

text \<open>What a loop over the callers relies on of its body.\<close>

locale wake_loop =
  fixes body :: "string \<Rightarrow> usage_state \<times> event list \<Rightarrow> err + usage_state \<times> event list"
  assumes body_keeps: "kept st0 acc \<Longrightarrow> body k acc = Inr acc' \<Longrightarrow> kept st0 acc'"
begin

lemma loop_keeps: "wakes_ok st \<Longrightarrow> fold_err body ks (st, []) = Inr acc \<Longrightarrow> kept st acc"
  by (rule fold_err_keeps [of body ks "(st, [])" acc "kept st"]) (auto intro: kept_refl body_keeps)

end

section \<open>The turn of a wake\<close>

lemma closing_wake: "wake_ok k s \<Longrightarrow> closing k (wakeEvent ''snooze_completed'' s t r)"
  "wake_ok k s \<Longrightarrow> closing k (wakeEvent ''snooze_cleared'' s t r)"
  by (simp_all add: closing_def wakeEvent_def wake_ok_def)

lemma wake_ok_upd [simp]:
  "wake_ok k (s\<lparr>sn_turn_failed := b\<rparr>) = wake_ok k s" "wake_ok k (s\<lparr>sn_cap_candidate := b\<rparr>) = wake_ok k s"
  "wake_ok k (s\<lparr>sn_cap_rejected := b\<rparr>) = wake_ok k s" "wake_ok k (s\<lparr>sn_cap_failed_at := u\<rparr>) = wake_ok k s"
  "wake_ok k (s\<lparr>sn_turn_id := x\<rparr>) = wake_ok k s" "wake_ok k (s\<lparr>sn_submission := x\<rparr>) = wake_ok k s"
  "wake_ok k (s\<lparr>sn_input_text := x\<rparr>) = wake_ok k s" "wake_ok k (s\<lparr>sn_submitted_at := u\<rparr>) = wake_ok k s"
  "wake_ok k (s\<lparr>sn_recipient_id := x\<rparr>) = wake_ok k s" "wake_ok k (s\<lparr>sn_recipient_name := x\<rparr>) = wake_ok k s"
  "wake_ok k (s\<lparr>sn_at := u\<rparr>) = wake_ok k s" "wake_ok k (s\<lparr>sn_token := x\<rparr>) = wake_ok k s"
  by (simp_all add: wake_ok_def)

lemma kept_close:
  assumes "kept st0 (st, evs)" "wake_ok k s"
  shows "kept st0 (drop_recent k st, evs @ [wakeEvent ''snooze_completed'' s t r])"
    and "kept st0 (drop_recent k st, evs @ [wakeEvent ''snooze_cleared'' s t r])"
  using assms by (auto intro: kept_drop_recent closing_wake)

text \<open>The wake a body works on: filed in the outcome slot of the caller, with a recipient.\<close>

definition in_slot :: "string \<Rightarrow> usage_snooze \<Rightarrow> usage_state \<times> event list \<Rightarrow> bool" where
  "in_slot k s acc \<longleftrightarrow> (\<exists>u. map_of (us_recent (fst acc)) k = Some u \<and> same_wake u s) \<and> wake_ok k s \<and> sn_recipient_id s \<noteq> ''''"

lemma in_slot_upd [simp]:
  "in_slot k (s\<lparr>sn_turn_failed := b\<rparr>) = in_slot k s" "in_slot k (s\<lparr>sn_cap_candidate := b\<rparr>) = in_slot k s"
  "in_slot k (s\<lparr>sn_cap_rejected := b\<rparr>) = in_slot k s" "in_slot k (s\<lparr>sn_cap_failed_at := u\<rparr>) = in_slot k s"
  "in_slot k (s\<lparr>sn_turn_id := x\<rparr>) = in_slot k s"
  by (auto simp: in_slot_def fun_eq_iff same_wake_def)

lemma in_slot_put [simp]: "in_slot k s (put_recent k u st, evs') \<longleftrightarrow> same_wake u s \<and> wake_ok k s \<and> sn_recipient_id s \<noteq> ''''"
  by (simp add: in_slot_def)

lemma kept_put_slot:
  "kept st0 (st, evs) \<Longrightarrow> in_slot k s (st, evs) \<Longrightarrow> kept st0 (put_recent k s st, evs @ es)"
  "kept st0 (st, evs) \<Longrightarrow> in_slot k s (st, evs) \<Longrightarrow> kept st0 (put_recent k s st, evs)"
  using kept_put_recent [of st0 st evs k s es] kept_put_recent [of st0 st evs k s "[]"]
    kept_descends [of st0 st evs k _ s es] kept_descends [of st0 st evs k _ s "[]"]
  by (auto simp: in_slot_def on_file_def)

lemma in_slot_descends: "kept st0 (st, evs) \<Longrightarrow> in_slot k s (st, evs) \<Longrightarrow> descends st0 (evs @ es) k s"
  using kept_descends [of st0 st evs k _ s es] by (auto simp: in_slot_def on_file_def)

lemma kept_fail_wake: "kept st0 acc \<Longrightarrow> in_slot k s acc \<Longrightarrow> kept st0 (fail_wake t k r s acc)"
  by (cases acc) (auto simp: fail_wake_def intro: kept_put_slot)

lemma kept_finish_wake: "kept st0 acc \<Longrightarrow> in_slot k s acc \<Longrightarrow> kept st0 (finish_wake a blocked t k s acc)"
  by (cases acc) (auto simp: finish_wake_def in_slot_def intro: kept_close kept_fail_wake)

lemma rearmed_ok:
  assumes "wake_ok k s" "sn_auto s \<or> \<not> sn_rearms s > 0" "fst ids \<noteq> ''''"
  shows "wake_ok k (rearmed ids reset s)" "sn_recipient_id (rearmed ids reset s) = ''''"
  using assms by (auto simp: wake_ok_def rearmed_def)

lemma rearmed_descends:
  assumes "descends st0 (evs @ es) k s" "e \<in> set es" "ev_type e = ''snooze_rearmed''"
    and "ev_reason e = ''attributable native usage-cap rejection''" "ev_id e = fst ids"
  shows "descends st0 (evs @ es) k (rearmed ids reset s)"
  by (rule descends.armed_again [OF assms(1), of e]) (use assms in \<open>simp_all add: rearmed_def\<close>)

lemma kept_rearm_wake:
  assumes "rearm_wake a t draws k observed s acc = Inr acc'" "kept st0 acc" "in_slot k s acc"
  shows "kept st0 acc'"
proof -
  obtain st evs where acc: "acc = (st, evs)" by (cases acc)
  have wake: "wake_ok k s" using assms(3) by (simp add: in_slot_def)
  have line: "descends st0 (evs @ es) k s" for es using in_slot_descends assms(2,3) acc by blast
  show ?thesis
    using assms(1,2) wake
    by (auto simp: acc rearm_wake_def Let_def split: if_splits prod.splits sum.splits
        intro!: kept_close kept_move rearmed_ok rearmed_descends [OF line] dest: fresh_ids_nonempty)
qed

lemma kept_reject_wake:
  assumes "reject_wake a t draws k confirmed failure observed s acc = Inr acc'" "kept st0 acc" "in_slot k s acc"
  shows "kept st0 acc'"
proof -
  obtain st evs where acc: "acc = (st, evs)" by (cases acc)
  show ?thesis
  proof (cases "confirmed \<and> \<not> sn_cap_rejected s")
    case True
    let ?s = "s\<lparr>sn_cap_rejected := True\<rparr>"
    obtain es where run: "rearm_wake a t draws k observed ?s (put_recent k ?s st, evs @ es) = Inr acc'"
      using True assms(1) by (auto simp: acc reject_wake_def Let_def)
    have "kept st0 (put_recent k ?s st, evs @ es)" using assms(2,3) acc by (auto intro: kept_put_slot)
    then show ?thesis by (rule kept_rearm_wake [OF run]) (use assms(3) in \<open>simp add: in_slot_def same_wake_def\<close>)
  next
    case False
    then show ?thesis using assms by (auto simp: acc reject_wake_def intro: kept_rearm_wake)
  qed
qed

lemma kept_judge_cap:
  assumes "judge_cap a t draws k confirmed failure observed s acc = Inr acc'" "kept st0 acc" "in_slot k s acc"
  shows "kept st0 acc'"
  using assms
  by (cases acc) (auto simp: judge_cap_def Let_def split: if_splits
      intro: kept_put_slot kept_fail_wake kept_reject_wake)

lemma kept_judge_failure:
  assumes "judge_failure a tel n t draws k adopted s acc = Inr acc'" "kept st0 acc" "in_slot k s acc"
  shows "kept st0 acc'"
  using assms
  by (cases acc) (auto simp: judge_failure_def Let_def split: if_splits prod.splits
      intro: kept_put_slot kept_fail_wake kept_judge_cap)

lemma kept_judge_turn:
  assumes "judge_turn a tel n blocked t draws k adopted s acc = Inr acc'" "kept st0 acc" "in_slot k s acc"
  shows "kept st0 acc'"
  using assms by (auto simp: judge_turn_def split: if_splits intro: kept_finish_wake kept_judge_failure)

lemma kept_in_slot: "kept st0 (st, evs) \<Longrightarrow> map_of (us_recent st) k = Some s \<Longrightarrow> in_slot k s (st, evs)"
  by (auto simp: kept_def wakes_ok_def in_slot_def)

interpretation turn_loop: wake_loop "observe_wake turns a tel n blocked t draws" for turns a tel n blocked t draws
proof
  fix st0 acc k acc'
  assume keep: "kept st0 acc" and run: "observe_wake turns a tel n blocked t draws k acc = Inr acc'"
  obtain st evs where acc: "acc = (st, evs)" by (cases acc)
  show "kept st0 acc'"
  proof (cases "map_of (us_recent st) k")
    case (Some s)
    have slot: "in_slot k s (st, evs)" using keep Some by (auto simp: acc intro: kept_in_slot)
    show ?thesis
      using run keep slot Some
      by (auto simp: acc observe_wake_def split: if_splits prod.splits intro: kept_fail_wake kept_judge_turn)
  qed (use keep run in \<open>simp add: acc observe_wake_def\<close>)
qed

section \<open>Deliveries and flushes\<close>

lemma keys_ok_other [simp]:
  "keys_ok (st\<lparr>us_notices := ns\<rparr>) = keys_ok st" "keys_ok (st\<lparr>us_windows := ws\<rparr>) = keys_ok st"
  "keys_ok (st\<lparr>us_auto_caps := cs\<rparr>) = keys_ok st" "keys_ok (st\<lparr>us_auto_candidates := ds\<rparr>) = keys_ok st"
  by (simp_all add: keys_ok_def)

lemma kept_other [simp]:
  "kept st0 (st\<lparr>us_notices := ns\<rparr>, evs) = kept st0 (st, evs)"
  "kept st0 (st\<lparr>us_windows := ws\<rparr>, evs) = kept st0 (st, evs)"
  "kept st0 (st\<lparr>us_auto_caps := cs\<rparr>, evs) = kept st0 (st, evs)"
  "kept st0 (st\<lparr>us_auto_candidates := ds\<rparr>, evs) = kept st0 (st, evs)"
  by (simp_all add: kept_def wakes_ok_def accounted_def has_wake_def traced_def on_file_def)

lemma kept_deliver:
  assumes "kept st0 (st, evs)" "map_of (us_snoozes st) k = Some s" "sn_recipient_id s \<noteq> ''''"
    and "wake_ok k s \<Longrightarrow> wake_ok k s'" "sn_recipient_id s' = sn_recipient_id s" "same_wake s s'"
  shows "kept st0 (drop_snooze k (put_recent k s' st), evs)"
proof -
  have "descends st0 (evs @ []) k s'" using assms by (intro kept_descends) (auto simp: on_file_def)
  then have "traced st0 evs (drop_snooze k (put_recent k s' st))"
    using assms(1) traced_drop(1) [OF traced_put(2) [of st0 evs st "[]"]] by (simp add: kept_def)
  then show ?thesis using assms by (auto simp: kept_def accounted_def wakes_ok_def has_wake_def)
qed

lemma find_wake:
  assumes "keys_ok st" "find (\<lambda>(_, s). P s) (us_snoozes st) = Some (k, s)"
  shows "map_of (us_snoozes st) k = Some s" "P s"
  using assms by (auto simp: find_Some_iff keys_ok_def intro!: map_of_is_SomeI dest: nth_mem)

lemma kept_same_slot:
  assumes "kept st0 (st, evs)" "map_of (us_snoozes st) k = Some s"
    and "wake_ok k s \<Longrightarrow> wake_ok k s'" "sn_recipient_id s' = sn_recipient_id s" "same_wake s s'"
  shows "kept st0 (put_snooze k s' st, evs @ es)"
proof (rule kept_put_snooze [OF assms(1)])
  have "wakes_ok st" using assms(1) by (simp add: kept_def)
  then have s: "wake_ok k s" "sn_recipient_id s \<noteq> '''' \<Longrightarrow> map_of (us_recent st) k = None"
    using assms(2) unfolding wakes_ok_def by blast+
  show "wake_ok k s'" using assms(3) s(1) .
  show "map_of (us_recent st) k = None" if "sn_recipient_id s' \<noteq> ''''" using s(2) that assms(4) by simp
  show "descends st0 (evs @ es) k s'" using assms(2,5) by (intro kept_descends [OF assms(1)]) (auto simp: on_file_def)
qed

lemma kept_acknowledge:
  assumes "kept st0 (st, evs)" "ag_id a \<noteq> ''''"
  shows "kept st0 (acknowledge a e outcome w st, evs)"
proof (cases "snd_name (env_from e) = ''usage-band'' \<or>
    find (\<lambda>(_, s). sn_id s = env_id e \<and> sn_recipient_id s = ag_id a) (us_snoozes st) = None")
  case False
  then obtain k s where name: "snd_name (env_from e) \<noteq> ''usage-band''"
    and f: "find (\<lambda>(_, s). sn_id s = env_id e \<and> sn_recipient_id s = ag_id a) (us_snoozes st) = Some (k, s)" by auto
  have keys: "keys_ok st" using assms(1) by (simp add: kept_def wakes_ok_def)
  have k: "map_of (us_snoozes st) k = Some s" "sn_recipient_id s \<noteq> ''''"
    using find_wake [OF keys f] assms(2) by auto
  show ?thesis
    using name f kept_same_slot [OF assms(1) k(1), of _ "[]"] assms(1)
    by (auto simp: acknowledge_def settle_wake_def same_wake_def intro!: kept_deliver [OF assms(1) k])
qed (use assms(1) in \<open>auto simp: acknowledge_def settle_wake_def\<close>)

lemma kept_reconcile_wakes:
  assumes "reconcile_wakes p matches say a w ks (st, changed) v = (Inr (st', changed'), v')"
    and "kept st0 (st, evs)" "ag_id a \<noteq> ''''"
  shows "kept st0 (st', evs)"
  using assms(1,2)
proof (induction ks arbitrary: st changed v)
  case Nil
  then show ?case by (simp add: ret_def)
next
  case (Cons k ks)
  let ?s = "snooze_of (us_snoozes st) k"
  show ?case
  proof (cases "sn_recipient_id ?s \<noteq> ag_id a \<or> sn_submission ?s = '''' \<or> sn_input_text ?s = '''' \<or> wit_at w < sn_at ?s")
    case True
    then have "reconcile_wakes p matches say a w ks (st, changed) v = (Inr (st', changed'), v')"
      using Cons.prems(1) by (simp add: Let_def)
    then show ?thesis by (rule Cons.IH) (rule Cons.prems(2))
  next
    case False
    then have s: "map_of (us_snoozes st) k = Some ?s" "sn_recipient_id ?s \<noteq> ''''"
      using assms(3) by (auto simp: snooze_of_def split: option.splits)
    obtain st1 changed1 v1 where "reconcile_wakes p matches say a w ks (st1, changed1) v1 = (Inr (st', changed'), v')"
      and st1: "st1 = st \<or> st1 = drop_snooze k (put_recent k (witnessed_wake w ?s) st)"
      using Cons.prems(1) False by (auto simp: Let_def and_then_def split: prod.splits sum.splits if_splits)
    moreover have "kept st0 (drop_snooze k (put_recent k (witnessed_wake w ?s) st), evs)"
      by (rule kept_deliver [OF Cons.prems(2) s]) (auto simp: witnessed_wake_def same_wake_def)
    ultimately show ?thesis using Cons.IH Cons.prems(2) by blast
  qed
qed

lemma returned_ok:
  assumes "wake_ok k s" "fst ids \<noteq> ''''"
  shows "wake_ok k (returned ids s)" "sn_recipient_id (returned ids s) = ''''"
  using assms by (auto simp: wake_ok_def returned_def)

lemma returned_descends:
  assumes "descends st0 (evs @ es) k s" "e \<in> set es" "ev_type e = ''snooze_rearmed''"
    and "ev_reason e = ''recipient '' @ who @ '' is no longer active; replaces '' @ sn_id s" "ev_id e = fst ids"
  shows "descends st0 (evs @ es) k (returned ids s)"
  by (rule descends.replaced [OF assms(1), of e who]) (use assms in \<open>simp_all add: returned_def\<close>)

interpretation reclaim_loop: wake_loop "reclaim_recent active t draws" for active t draws
proof
  fix st0 acc k acc'
  assume keep: "kept st0 acc" and run: "reclaim_recent active t draws k acc = Inr acc'"
  obtain st evs where acc: "acc = (st, evs)" by (cases acc)
  show "kept st0 acc'"
  proof (cases "map_of (us_recent st) k")
    case (Some s)
    then have wake: "wake_ok k s" using keep by (auto simp: acc kept_def wakes_ok_def)
    have line: "descends st0 (evs @ es) k s" for es
      using keep Some by (intro kept_descends [of st0 st]) (auto simp: acc on_file_def)
    show ?thesis
    proof (cases "sn_id (snooze_of (us_snoozes st) k) \<noteq> '''' \<or> map_of active (sn_recipient_id s) \<noteq> None")
      case True
      then show ?thesis using run keep Some wake
        by (auto simp: acc reclaim_recent_def Let_def split: if_splits intro!: kept_close)
    next
      case False
      then obtain ids where ids: "fresh_ids ''snooze'' (draws (''recent/'' @ k)) = Inr ids"
        and acc': "acc' = (drop_recent k (put_snooze k (returned ids s) st),
          evs @ [wakeEvent ''snooze_rearmed'' (returned ids s) t (''recipient '' @ sn_recipient_name s @ '' is no longer active; replaces '' @ sn_id s)])"
        using run by (auto simp: acc reclaim_recent_def Let_def Some split: sum.splits)
      show ?thesis
        unfolding acc'
        by (rule kept_move, use keep in \<open>simp add: acc\<close>, rule returned_ok(1) [OF wake fresh_ids_nonempty [OF ids]],
            rule returned_ok(2) [OF wake fresh_ids_nonempty [OF ids]], rule returned_descends [OF line, where who = "sn_recipient_name s"])
          (auto simp: wakeEvent_def returned_def)
    qed
  qed (use keep run in \<open>simp add: acc reclaim_recent_def\<close>)
qed

lemma part_wake_ok:
  assumes "part_wake active t draws k s = Inr (s', es)" "wake_ok k s"
  shows "wake_ok k s'"
  using assms
  by (auto simp: part_wake_def Let_def wake_ok_def split: if_splits sum.splits dest: fresh_ids_nonempty)

lemma part_wake_descends:
  assumes "part_wake active t draws k s = Inr (s', es)" "\<And>es. descends st0 (evs @ es) k s"
  shows "descends st0 (evs @ es) k s'"
proof (cases "es = []")
  case True
  then have "same_wake s s'" using assms(1) by (auto simp: part_wake_def Let_def same_wake_def split: if_splits sum.splits prod.splits)
  then show ?thesis by (rule descends.updated [OF assms(2)])
next
  case False
  then obtain i token where s': "sn_id s' = i" "sn_auto s' = sn_auto s" "sn_rearms s' = sn_rearms s"
    and es: "es = [wakeEvent ''snooze_rearmed'' (s\<lparr>sn_id := i, sn_token := token\<rparr>) t
      (''recipient '' @ sn_recipient_name s @ '' is no longer active; replaces '' @ sn_id s)]"
    using assms(1) by (auto simp: part_wake_def Let_def split: if_splits sum.splits prod.splits)
  show ?thesis
    by (rule descends.replaced [OF assms(2), of "hd es" _ "sn_recipient_name s"]) (simp_all add: s' es wakeEvent_def)
qed

lemma address_wake_same: "same_wake s (address_wake active lead s)"
  by (auto simp: address_wake_def same_wake_def split: option.split)

lemma address_wake_ok: "wake_ok k s \<Longrightarrow> wake_ok k (address_wake active lead s)"
  by (auto simp: address_wake_def split: option.split)

lemma kept_due_wake:
  assumes "kept st0 (st, evs)" "due_wake active lead t draws k (st, evs, wakes) = Inr (st', evs', wakes')"
  shows "kept st0 (st', evs')"
proof (cases "map_of (us_snoozes st) k")
  case None
  then show ?thesis using assms by (simp add: due_wake_def Let_def)
next
  case (Some s)
  have s: "wake_ok k s" using assms(1) Some by (auto simp: kept_def wakes_ok_def)
  have ok: "wakes_ok st" using assms(1) by (simp add: kept_def)
  have line: "descends st0 (evs @ es) k s" for es
    using assms(1) Some by (intro kept_descends [of st0 st]) (auto simp: on_file_def)
  have due: "descends st0 (evs @ es) k (address_wake active lead u)" if "part_wake active t draws k s = Inr (u, es)" for u es
    by (rule descends.updated [OF part_wake_descends [OF that line] address_wake_same])
  show ?thesis
  proof (cases "map_of (us_recent st) k")
    case None
    then show ?thesis
      using assms Some s
      by (auto simp: due_wake_def Let_def split: if_splits sum.splits
          intro!: kept_put_snooze address_wake_ok due dest: part_wake_ok)
  next
    case (Some r)
    then have r: "wake_ok k r" "sn_id r \<noteq> ''''" using ok by (auto simp: wakes_ok_def wake_ok_def)
    have dropped: "kept st0 (drop_recent k st, evs @ [wakeEvent ''snooze_cleared'' r t x])" for x
      using assms(1) r(1) by (rule kept_close)
    have replaced: "kept st0 (put_snooze k u (drop_recent k st), evs @ wakeEvent ''snooze_cleared'' r t x # es)"
      if "wake_ok k u" "descends st0 (evs @ es) k u" for u x es
    proof -
      have "descends st0 ((evs @ [wakeEvent ''snooze_cleared'' r t x]) @ es) k u" by (rule descends_mono [OF that(2)]) auto
      from kept_put_snooze [OF dropped that(1) _ this] show ?thesis by simp
    qed
    show ?thesis
      using assms Some \<open>map_of (us_snoozes st) k = Some s\<close> s r(2)
      by (auto simp: due_wake_def Let_def split: if_splits sum.splits
          intro!: replaced address_wake_ok due dest: part_wake_ok)
  qed
qed

lemma kept_flush:
  assumes "flush_plan agents t draws st = Inr (st', notices, wakes, evs)" "wakes_ok st"
  shows "kept st (st', evs)"
proof -
  let ?active = "active_agents agents" and ?lead = "currentLead agents"
  obtain st1 evs1 ns where reclaim: "fold_err (reclaim_recent ?active t draws) (map fst (us_recent st)) (st, []) = Inr (st1, evs1)"
    and due: "fold_err (due_wake ?active ?lead t draws) (sort (map fst (us_snoozes (st1\<lparr>us_notices := ns\<rparr>))))
      (st1\<lparr>us_notices := ns\<rparr>, evs1, []) = Inr (st', evs, wakes)"
    using assms(1) by (auto simp: flush_plan_def Let_def split: sum.splits prod.splits)
  have "kept st (st1, evs1)" using reclaim_loop.loop_keeps [OF assms(2) reclaim] .
  then have start: "(\<lambda>(u, es, _). kept st (u, es)) (st1\<lparr>us_notices := ns\<rparr>, evs1, [])" by simp
  have "(\<lambda>(u, es, _). kept st (u, es)) (st', evs, wakes)"
    by (rule fold_err_keeps [where P = "\<lambda>(u, es, _). kept st (u, es)", OF due start]) (auto intro: kept_due_wake)
  then show ?thesis by simp
qed

section \<open>Caps, readings and commands\<close>

lemma new_auto_ok:
  "i \<noteq> '''' \<Longrightarrow> wake_ok (ag_id a) (no_snooze\<lparr>sn_id := i, sn_token := token, sn_caller_id := ag_id a,
     sn_caller_name := ag_name a, sn_at := reset, sn_note := remark, sn_auto := True\<rparr>)"
  by (simp add: wake_ok_def no_snooze_def)

lemma scheduled_descends:
  "sn_rearms s = 0 \<Longrightarrow> sn_caller_id s = k \<Longrightarrow> descends st0 (evs @ es @ [wakeEvent ''snooze_scheduled'' s t r]) k s"
  by (rule descends.scheduled [of "wakeEvent ''snooze_scheduled'' s t r"]) (simp_all add: wakeEvent_def)

lemma kept_automatic:
  assumes "scheduleAutomaticWake a reset t draws (st, evs) = Inr acc" "kept st0 (st, evs)"
  shows "kept st0 acc"
  using assms by (auto simp: scheduleAutomaticWake_def Let_def split: if_splits sum.splits
      intro!: kept_put_snooze new_auto_ok scheduled_descends [where es = "[]", simplified] dest: fresh_ids_nonempty)

lemma kept_note_cap:
  assumes "note_cap a failed reason t draws (st, evs) = Inr acc" "kept st0 (st, evs)"
  shows "kept st0 acc"
  using assms by (auto simp: note_cap_def Let_def split: if_splits prod.splits elim!: kept_automatic)

lemma kept_candidate:
  assumes "settle_candidate a t draws (st, evs) = Inr acc" "kept st0 (st, evs)"
  shows "kept st0 acc"
  using assms
  by (auto simp: settle_candidate_def Let_def split: if_splits option.splits prod.splits bool.splits elim!: kept_automatic)

lemma kept_date_wake:
  assumes "kept st0 (st, evs)"
  shows "kept st0 (date_wake a t (st, evs))"
proof (cases "map_of (us_snoozes st) (ag_id a)")
  case None
  then show ?thesis using assms by (auto simp: date_wake_def Let_def split: option.split)
next
  case (Some s)
  then show ?thesis using assms
    by (auto simp: date_wake_def Let_def same_wake_def split: option.split prod.split intro!: kept_same_slot)
qed

lemma kept_auto_cap:
  assumes "observe_auto_cap a tel n t draws st = Inr acc" "wakes_ok st"
  shows "kept st acc"
proof -
  obtain failed reason acc1 acc2 where
    1: "note_cap a failed reason t draws (st, []) = Inr acc1" and 2: "settle_candidate a t draws acc1 = Inr acc2"
    and 3: "acc = date_wake a t acc2"
    using assms(1) by (auto simp: observe_auto_cap_def split: prod.splits sum.splits)
  have "kept st acc1" using kept_note_cap [OF 1] kept_refl [OF assms(2)] by simp
  then have "kept st acc2" using 2 kept_candidate by (cases acc1) auto
  then show ?thesis unfolding 3 by (cases acc2) (simp add: kept_date_wake)
qed

lemma observe_window_wakes:
  assumes "observe_window fl m t draws c windows kind st = Inr st'"
  shows "us_snoozes st' = us_snoozes st \<and> us_recent st' = us_recent st"
  using assms by (auto simp: observe_window_def Let_def split: option.splits prod.splits sum.splits if_splits)

lemma observe_windows_wakes:
  assumes "observe_windows fl m t draws c limits kinds st = Inr st'"
  shows "us_snoozes st' = us_snoozes st \<and> us_recent st' = us_recent st"
  using assms unfolding observe_windows_def
  by (rule fold_err_keeps) (auto dest: observe_window_wakes)

lemma kept_windows:
  assumes "observe_windows fl m t draws c limits kinds st = Inr st'" "wakes_ok st"
  shows "kept st (st', [])"
  using observe_windows_wakes [OF assms(1)] assms(2)
  by (simp add: kept_def wakes_ok_def keys_ok_def accounted_def has_wake_def traced_def on_file_def descends.there)

lemma kept_clear_own:
  assumes "clear_own k t st withdraw w = (Inr (st', cancelled, evs), w')" "wakes_ok st"
  shows "kept st (st', evs)"
proof -
  let ?s = "snooze_of (us_snoozes st) k" and ?r = "snooze_of (us_recent st) k"
  let ?e = "\<lambda>s. wakeEvent ''snooze_cleared'' s t ''cleared by its agent''"
  have st': "st' = (drop_recent k (drop_snooze k st))\<lparr>us_auto_candidates :=
      AList.delete k (us_auto_candidates (drop_recent k (drop_snooze k st)))\<rparr>"
    and evs: "evs = map ?e (filter (\<lambda>s. sn_id s \<noteq> '''') [?s, ?r])"
    using assms(1) by (auto simp: clear_own_def Let_def and_then_def ret_def split: prod.splits sum.splits)
  have "list_ex (closing k) evs" if "has_wake st k"
  proof -
    have "sn_id ?s \<noteq> '''' \<or> sn_id ?r \<noteq> ''''" using that wakes_ok_id [OF assms(2)] by (auto simp: has_wake_def)
    moreover have "closing k (?e ?s)" if "sn_id ?s \<noteq> ''''"
      using that assms(2) wakes_ok_id(1) [OF assms(2)] by (auto simp: wakes_ok_def intro: closing_wake)
    moreover have "closing k (?e ?r)" if "sn_id ?r \<noteq> ''''"
      using that assms(2) wakes_ok_id(2) [OF assms(2)] by (auto simp: wakes_ok_def intro: closing_wake)
    ultimately show ?thesis unfolding evs by auto
  qed
  then have "accounted st evs (drop_recent k (drop_snooze k st))"
    by (auto simp: accounted_def has_wake_def)
  moreover have "wakes_ok (drop_recent k (drop_snooze k st))" using assms(2) by (auto simp: wakes_ok_def)
  moreover have "traced st evs (drop_recent k (drop_snooze k st))" by (intro traced_drop traced_refl)
  ultimately have "kept st (drop_recent k (drop_snooze k st), evs)" by (simp add: kept_def)
  then show ?thesis unfolding st' by simp
qed

lemma kept_drop_snooze:
  assumes "kept st0 (st, evs)" "closing k e"
  shows "kept st0 (drop_snooze k st, evs @ [e])"
  using assms traced_drop(1) [OF traced_more [of st0 evs st "[e]"], of k] by (auto simp: kept_def accounted_def wakes_ok_def has_wake_def)

lemma find_recent:
  assumes "keys_ok st" "routed_wake i r (us_recent st) = Some (k, s)"
  shows "map_of (us_recent st) k = Some s"
  using assms by (auto simp: routed_wake_def find_Some_iff keys_ok_def intro!: map_of_is_SomeI dest: nth_mem)

lemma find_snooze:
  assumes "keys_ok st" "routed_wake i r (us_snoozes st) = Some (k, s)"
  shows "map_of (us_snoozes st) k = Some s"
  using assms by (auto simp: routed_wake_def find_Some_iff keys_ok_def intro!: map_of_is_SomeI dest: nth_mem)

lemma kept_clear_routed:
  assumes "clear_routed a i t st withdraw w = (Inr (st', cancelled, known, evs), w')" "wakes_ok st"
  shows "kept st (st', evs)"
proof -
  have keys: "keys_ok st" using assms(2) by (simp add: wakes_ok_def)
  have start: "kept st (st, [])" by (rule kept_refl [OF assms(2)])
  show ?thesis
  proof (cases "remove_notice i (ag_id a) (us_notices st)")
    case (Some ns)
    then show ?thesis using assms(1) start by (auto simp: clear_routed_def Let_def ret_def)
  next
    case none: None
    show ?thesis
    proof (cases "routed_wake i (ag_id a) (us_snoozes st)")
      case (Some ks)
      obtain k s where ks: "ks = (k, s)" by (cases ks)
      have "wake_ok k s" using find_snooze [OF keys] Some ks assms(2) by (auto simp: wakes_ok_def)
      then show ?thesis using assms(1) none Some ks kept_drop_snooze [OF start]
        by (auto simp: clear_routed_def Let_def ret_def and_then_def split: prod.splits sum.splits intro: closing_wake)
    next
      case none2: None
      show ?thesis
      proof (cases "routed_wake i (ag_id a) (us_recent st)")
        case (Some ks)
        obtain k s where ks: "ks = (k, s)" by (cases ks)
        have "wake_ok k s" using find_recent [OF keys] Some ks assms(2) by (auto simp: wakes_ok_def)
        then show ?thesis using assms(1) none none2 Some ks kept_drop_recent [OF start]
          by (auto simp: clear_routed_def Let_def ret_def intro: closing_wake)
      qed (use assms(1) none none2 start in \<open>auto simp: clear_routed_def Let_def ret_def\<close>)
    qed
  qed
qed

lemma new_wake_ok: "fst ids \<noteq> '''' \<Longrightarrow> wake_ok (ag_id a) (new_wake a ids due remark)"
  and new_wake_simps: "sn_recipient_id (new_wake a ids due remark) = ''''" "sn_caller_id (new_wake a ids due remark) = ag_id a"
  by (simp_all add: wake_ok_def new_wake_def no_snooze_def)

lemma kept_schedule:
  assumes "schedule_wake (new_wake a ids due remark) t reason st withdraw w = (Inr (st', cancelled, evs), w')"
    and "wakes_ok st" "fst ids \<noteq> ''''"
  shows "kept st (st', evs)"
proof -
  let ?k = "ag_id a" and ?s = "new_wake a ids due remark"
  obtain st1 where st': "st' = put_snooze ?k ?s st1" and st1: "st1 = st \<or> st1 = drop_recent ?k st"
    using assms(1) new_wake_simps(2)
    by (auto simp: schedule_wake_def Let_def and_then_def ret_def raise_def split: prod.splits sum.splits if_splits)
  have "wakes_ok (put_snooze ?k ?s st1)"
    using assms(2) st1 new_wake_ok [OF assms(3), of a due remark] new_wake_simps(1) [of a ids due remark]
    by (auto simp: wakes_ok_def split: if_splits)
  moreover have "accounted st evs (put_snooze ?k ?s st1)"
    using st1 by (auto simp: accounted_def has_wake_def)
  moreover have "traced st evs (put_snooze ?k ?s st1)"
  proof -
    have "traced st [] st1" using st1 by (auto intro: traced_refl traced_drop)
    moreover have "descends st evs ?k ?s"
    proof (rule descends.scheduled [of "wakeEvent ''snooze_scheduled'' ?s t reason"])
      show "wakeEvent ''snooze_scheduled'' ?s t reason \<in> set evs"
        using assms(1) by (auto simp: schedule_wake_def Let_def and_then_def ret_def raise_def split: prod.splits sum.splits if_splits)
    qed (simp_all add: wakeEvent_def new_wake_def)
    ultimately show ?thesis using traced_put(1) [of st "[]" st1 evs ?k ?s] by simp
  qed
  ultimately show ?thesis by (simp add: st' kept_def)
qed

section \<open>Runs\<close>

text \<open>Every change of the record by the program, with the events it reports.\<close>

inductive usage_step :: "usage_state \<Rightarrow> event list \<Rightarrow> usage_state \<Rightarrow> bool" where
  delivery: "ag_id a \<noteq> '''' \<Longrightarrow> usage_step st [] (acknowledge a e outcome w st)"
| late_witness: "ag_id a \<noteq> '''' \<Longrightarrow> reconcile_usage p matches say a w st v = (Inr (st', changed), v') \<Longrightarrow>
    usage_step st [] st'"
| turn_end: "observe_wakes turns a tel n blocked t draws st = Inr (st', evs) \<Longrightarrow> usage_step st evs st'"
| usage_reading: "observe_windows fl m t draws c limits kinds st = Inr st' \<Longrightarrow> usage_step st [] st'"
| provider_cap: "observe_auto_cap a tel n t draws st = Inr (st', evs) \<Longrightarrow> usage_step st evs st'"
| flush: "flush_plan agents t draws st = Inr (st', notices, wakes, evs) \<Longrightarrow> usage_step st evs st'"
| schedule: "fresh_ids ''snooze'' d = Inr ids \<Longrightarrow>
    schedule_wake (new_wake a ids due remark) t reason st withdraw v = (Inr (st', cancelled, evs), v') \<Longrightarrow> usage_step st evs st'"
| clear: "clear_own k t st withdraw v = (Inr (st', cancelled, evs), v') \<Longrightarrow> usage_step st evs st'"
| clear_by_lead: "clear_routed a i t st withdraw v = (Inr (st', cancelled, known, evs), v') \<Longrightarrow> usage_step st evs st'"

inductive usage_run :: "usage_state \<Rightarrow> event list \<Rightarrow> usage_state \<Rightarrow> bool" where
  start: "usage_run st [] st"
| more: "usage_run st evs st1 \<Longrightarrow> usage_step st1 evs1 st2 \<Longrightarrow> usage_run st (evs @ evs1) st2"

lemma step_keeps: "usage_step st evs st' \<Longrightarrow> wakes_ok st \<Longrightarrow> kept st (st', evs)"
proof (induction rule: usage_step.induct)
  case (delivery a st e outcome w)
  then show ?case by (simp add: kept_acknowledge kept_refl)
next
  case (late_witness a p matches say w st v st' changed v')
  then obtain ns changed1 v1 where
    "reconcile_wakes p matches say a w (map fst (us_snoozes st)) (st\<lparr>us_notices := ns\<rparr>, changed1) v1 = (Inr (st', changed), v')"
    by (auto simp: reconcile_usage_def and_then_def split: prod.splits sum.splits)
  then show ?case by (rule kept_reconcile_wakes) (use late_witness in \<open>simp_all add: kept_refl\<close>)
next
  case (turn_end turns a tel n blocked t draws st st' evs)
  then show ?case by (auto simp: observe_wakes_def intro: turn_loop.loop_keeps)
next
  case usage_reading
  then show ?case by (rule kept_windows)
next
  case provider_cap
  then show ?case by (rule kept_auto_cap)
next
  case flush
  then show ?case by (rule kept_flush)
next
  case schedule
  then show ?case by (auto intro: kept_schedule dest: fresh_ids_nonempty)
next
  case clear
  then show ?case by (rule kept_clear_own)
next
  case clear_by_lead
  then show ?case by (rule kept_clear_routed)
qed

lemma accounted_trans:
  "accounted st evs st1 \<Longrightarrow> accounted st1 evs1 st2 \<Longrightarrow> accounted st (evs @ evs1) st2"
  by (auto simp: accounted_def)

lemma traced_trans: "traced st evs st1 \<Longrightarrow> traced st1 evs1 st2 \<Longrightarrow> traced st (evs @ evs1) st2"
  unfolding traced_def by (blast intro: descends_trans)

lemma run_keeps: "usage_run st evs st' \<Longrightarrow> wakes_ok st \<Longrightarrow> kept st (st', evs)"
proof (induction rule: usage_run.induct)
  case (more st evs st1 evs1 st2)
  then have first: "kept st (st1, evs)" by simp
  have "kept st1 (st2, evs1)" using step_keeps [OF more.hyps(2)] first by (simp add: kept_def)
  with first show ?case using accounted_trans traced_trans by (auto simp: kept_def)
qed (simp add: kept_refl)

lemma wakes_ok_empty: "wakes_ok no_usage"
  by (simp add: wakes_ok_def no_usage_def keys_ok_def)

text \<open>
  C13 (wakes_accounted): in every run of deliveries, turn ends, readings, caps, flushes and
  commands, whatever is drawn, each entry stays a wake of the caller it is filed under, and a wake
  with a recipient never stands beside another of its caller that awaits its turn. Every wake
  comes from one of its caller at the start, or from one an event reports as scheduled and not
  armed again yet: by updates, which keep its ID and its count of re-arms; by replacements for a
  recipient that is gone, which keep the count; and by re-arms after a cap rejection, which raise
  it by exactly one. The count of a wake its caller scheduled is at most one, so it is armed
  again at most once. A caller that had a wake still has one unless an event the changes report
  (for their callers to append to the log) names a wake of it as completed or cleared.
\<close>

theorem wakes_accounted:
  assumes "usage_run st evs st'" "wakes_ok st"
  shows "wakes_ok st' \<and> (\<forall>k s. on_file st' k s \<longrightarrow> descends st evs k s \<and> (\<not> sn_auto s \<longrightarrow> sn_rearms s \<le> 1))
    \<and> (\<forall>k. has_wake st k \<and> \<not> list_ex (closing k) evs \<longrightarrow> has_wake st' k)"
proof -
  have kept: "kept st (st', evs)" by (rule run_keeps [OF assms])
  then have "sn_rearms s \<le> 1" if "on_file st' k s" "\<not> sn_auto s" for k s
    using that unfolding kept_def on_file_def wakes_ok_def wake_ok_def by blast
  then show ?thesis using kept by (auto simp: kept_def accounted_def traced_def)
qed

definition demo_lead :: agent where
  "demo_lead = blank_agent\<lparr>ag_id := ''h1'', ag_name := ''ann'', ag_role := ''lead'', ag_status := Active\<rparr>"

definition demo_wake :: usage_snooze where
  "demo_wake = no_snooze\<lparr>sn_id := ''snooze-1'', sn_caller_id := ''h1'', sn_caller_name := ''ann'', sn_at := 5,
     sn_recipient_id := ''h1'', sn_recipient_name := ''ann''\<rparr>"

definition demo_wakes :: usage_state where
  "demo_wakes = no_usage\<lparr>us_snoozes := [(''h1'', demo_wake)]\<rparr>"

lemmas demo_usage = demo_lead_def demo_wake_def demo_wakes_def no_usage_def no_snooze_def blank_agent_def

lemma demo_wakes_ok: "wakes_ok demo_wakes"
  by (simp add: wakes_ok_def wake_ok_def keys_ok_def demo_usage)

theorem wakes_accounted_witness:
  "let st' = acknowledge demo_lead (blank_envelope\<lparr>env_id := ''snooze-1''\<rparr>) ''delivered'' None demo_wakes
   in has_wake st' ''h1'' \<and> us_snoozes st' = [] \<and> wakes_ok st'"
proof -
  let ?e = "blank_envelope\<lparr>env_id := ''snooze-1''\<rparr>"
  have "usage_step demo_wakes [] (acknowledge demo_lead ?e ''delivered'' None demo_wakes)"
    by (rule delivery) (simp add: demo_usage)
  from more [OF start this] have "usage_run demo_wakes [] (acknowledge demo_lead ?e ''delivered'' None demo_wakes)" by simp
  from wakes_accounted [OF this demo_wakes_ok]
  have "wakes_ok (acknowledge demo_lead ?e ''delivered'' None demo_wakes)"
    "has_wake demo_wakes ''h1'' \<longrightarrow> has_wake (acknowledge demo_lead ?e ''delivered'' None demo_wakes) ''h1''"
    by simp_all
  moreover have "has_wake demo_wakes ''h1''" by (simp add: has_wake_def demo_usage)
  ultimately show ?thesis
    by (simp add: acknowledge_def settle_wake_def demo_usage blank_envelope_def blank_sender_def put_recent_def drop_snooze_def)
qed

end
