(* ===== verification/Usage_Bands.thy ===== *)
theory Usage_Bands
  imports Usage_Runs
begin

text \<open>
  Usage warnings over runs of every change of the usage record: a window of an account
  never goes back, and no band warns twice about one window.
\<close>

section \<open>What a window has spent\<close>

definition notice_key :: "usage_notice \<Rightarrow> string" where
  "notice_key n = un_collar n @ ''/'' @ un_window n"

definition notice_ident :: "usage_notice \<Rightarrow> string \<times> int \<times> string" where
  "notice_ident n = (notice_key n, un_reset_at n, un_band n)"

text \<open>The band has fired for that reset of the window, or the window is past it.\<close>

definition spent :: "usage_state \<Rightarrow> string \<times> int \<times> string \<Rightarrow> bool" where
  "spent st = (\<lambda>(key, reset, band).
     case map_of (us_windows st) key of
       None \<Rightarrow> False
     | Some u \<Rightarrow> reset < uw_reset_at u \<or> reset = uw_reset_at u \<and> band \<in> set (uw_fired u))"

definition notices_ok :: "usage_state \<Rightarrow> bool" where
  "notices_ok st \<longleftrightarrow> distinct (map notice_ident (us_notices st))
     \<and> (\<forall>n \<in> set (us_notices st). spent st (notice_ident n))"

text \<open>A window moves only forward, and within one reset it only fires more bands.\<close>

definition windows_later :: "usage_state \<Rightarrow> usage_state \<Rightarrow> bool" where
  "windows_later st st' \<longleftrightarrow> (\<forall>k u. map_of (us_windows st) k = Some u \<longrightarrow>
     (\<exists>u'. map_of (us_windows st') k = Some u' \<and> uw_reset_at u \<le> uw_reset_at u' \<and> uw_observed_at u \<le> uw_observed_at u'
        \<and> (uw_reset_at u = uw_reset_at u' \<longrightarrow> prefix (uw_fired u) (uw_fired u'))))"

lemma windows_later_refl: "windows_later st st"
  and windows_later_same: "us_windows st' = us_windows st \<Longrightarrow> windows_later st st'"
  by (auto simp: windows_later_def)

lemma windows_later_trans: "windows_later st st1 \<Longrightarrow> windows_later st1 st2 \<Longrightarrow> windows_later st st2"
  unfolding windows_later_def by (fastforce dest: prefix_order.trans)

lemma spent_later:
  assumes "windows_later st st'" "spent st i"
  shows "spent st' i"
proof -
  obtain key reset band where i: "i = (key, reset, band)" by (cases i)
  obtain u where u: "map_of (us_windows st) key = Some u"
    and r: "reset < uw_reset_at u \<or> reset = uw_reset_at u \<and> band \<in> set (uw_fired u)"
    using assms(2) by (auto simp: spent_def i split: option.splits)
  obtain u' where "map_of (us_windows st') key = Some u'" "uw_reset_at u \<le> uw_reset_at u'"
    "uw_reset_at u = uw_reset_at u' \<longrightarrow> prefix (uw_fired u) (uw_fired u')"
    using assms(1) u unfolding windows_later_def by blast
  then show ?thesis using r by (auto simp: spent_def i dest: set_mono_prefix)
qed

text \<open>One change: the windows move forward and only bands not yet spent add notices.\<close>

definition warned_once :: "usage_state \<Rightarrow> usage_state \<Rightarrow> bool" where
  "warned_once st st' \<longleftrightarrow> notices_ok st' \<and> windows_later st st'
     \<and> (\<forall>n \<in> set (us_notices st'). spent st (notice_ident n) \<longrightarrow> notice_ident n \<in> notice_ident ` set (us_notices st))"

lemma warned_refl: "notices_ok st \<Longrightarrow> warned_once st st"
  by (auto simp: warned_once_def windows_later_refl)

lemma warned_trans:
  assumes "warned_once st st1" "warned_once st1 st2"
  shows "warned_once st st2"
proof -
  have later: "windows_later st st1" using assms(1) by (simp add: warned_once_def)
  have "notice_ident n \<in> notice_ident ` set (us_notices st)"
    if n: "n \<in> set (us_notices st2)" "spent st (notice_ident n)" for n
  proof -
    have "spent st1 (notice_ident n)" by (rule spent_later [OF later n(2)])
    then obtain m where m: "m \<in> set (us_notices st1)" "notice_ident n = notice_ident m"
      using assms(2) n(1) unfolding warned_once_def by auto
    then show ?thesis using assms(1) n(2) unfolding warned_once_def by auto
  qed
  then show ?thesis using assms windows_later_trans unfolding warned_once_def by blast
qed

text \<open>A change that keeps the windows and at most removes notices.\<close>

lemma subseq_subset: "subseq xs ys \<Longrightarrow> set xs \<subseteq> set ys"
  by (induction rule: list_emb.induct) auto

lemma distinct_subseq: "subseq xs ys \<Longrightarrow> distinct ys \<Longrightarrow> distinct xs"
  by (induction rule: list_emb.induct) (auto dest: subseq_subset)

lemma warned_fewer:
  assumes "notices_ok st" "us_windows st' = us_windows st"
    and "subseq (map notice_ident (us_notices st')) (map notice_ident (us_notices st))"
  shows "warned_once st st'"
proof -
  have sub: "notice_ident ` set (us_notices st') \<subseteq> notice_ident ` set (us_notices st)"
    using assms(3) using subseq_subset [OF assms(3)] by simp
  have "spent st' = spent st" using assms(2) by (auto simp: spent_def fun_eq_iff)
  then have "notices_ok st'"
    using assms(1,3) sub distinct_subseq unfolding notices_ok_def by fastforce
  then show ?thesis using sub windows_later_same [OF assms(2)] by (auto simp: warned_once_def)
qed

section \<open>Firing the bands of a reading\<close>

definition fired_by :: "usage_collar \<Rightarrow> string \<Rightarrow> limit_window \<Rightarrow> usage_notice list \<Rightarrow> string list
    \<Rightarrow> usage_notice list \<times> string list \<times> string list \<Rightarrow> bool" where
  "fired_by c kind w notices0 fired0 = (\<lambda>(notices, fired, messages).
     distinct fired \<and> prefix fired0 fired \<and> (\<exists>new. notices = notices0 @ new \<and> distinct (map un_band new)
       \<and> (\<forall>n \<in> set new. notice_key n = window_key c kind \<and> un_reset_at n = lim_reset_at w
            \<and> un_band n \<in> set fired \<and> un_band n \<notin> set fired0)))"

lemma prefix_snoc_right: "prefix xs ys \<Longrightarrow> prefix xs (ys @ zs)"
  by (auto simp: prefix_def)

lemma fire_band_fired:
  assumes "fire_band fl t draws c kind w p band acc = Inr acc'" "fired_by c kind w notices0 fired0 acc"
  shows "fired_by c kind w notices0 fired0 acc'"
proof -
  obtain notices fired messages where acc: "acc = (notices, fired, messages)" by (cases acc)
  obtain new where new: "notices = notices0 @ new" "distinct (map un_band new)" and f: "distinct fired" "prefix fired0 fired"
    and all: "\<And>n. n \<in> set new \<Longrightarrow> notice_key n = window_key c kind \<and> un_reset_at n = lim_reset_at w
      \<and> un_band n \<in> set fired \<and> un_band n \<notin> set fired0"
    using assms(2) by (auto simp: fired_by_def acc)
  have sub: "set fired0 \<subseteq> set fired" using f(2) by (rule set_mono_prefix)
  consider "acc' = acc" | "ub_name band \<notin> set fired" "acc' = (notices, fired @ [ub_name band], messages)"
    | n m where "ub_name band \<notin> set fired" "acc' = (notices @ [n], fired @ [ub_name band], m)"
        "notice_key n = window_key c kind" "un_reset_at n = lim_reset_at w" "un_band n = ub_name band"
    using assms(1)
    by (auto simp: fire_band_def acc Let_def notice_key_def window_key_def split: if_splits sum.splits prod.splits)
  then show ?thesis
  proof cases
    case 2
    then show ?thesis using new f all by (auto simp: fired_by_def intro: prefix_snoc_right)
  next
    case (3 n m)
    have "distinct (map un_band (new @ [n]))" using new(2) all 3 by auto
    then show ?thesis
      using 3 new f all sub unfolding 3(2) fired_by_def
      by (auto intro!: exI [of _ "new @ [n]"] intro: prefix_snoc_right)
  qed (use assms(2) in simp)
qed

lemma fired_loop:
  assumes "fold_err (fire_band fl t draws c kind w p) bands (notices0, fired0, []) = Inr acc" "distinct fired0"
  shows "fired_by c kind w notices0 fired0 acc"
proof (rule fold_err_keeps [where P = "fired_by c kind w notices0 fired0", OF assms(1)])
  show "fired_by c kind w notices0 fired0 (notices0, fired0, [])" using assms(2) by (simp add: fired_by_def)
qed (rule fire_band_fired)

definition fired_distinct :: "usage_state \<Rightarrow> bool" where
  "fired_distinct st \<longleftrightarrow> (\<forall>k u. map_of (us_windows st) k = Some u \<longrightarrow> distinct (uw_fired u))"

definition bands_ok :: "usage_state \<Rightarrow> bool" where
  "bands_ok st \<longleftrightarrow> notices_ok st \<and> fired_distinct st"

lemma window_of_distinct: "fired_distinct st \<Longrightarrow> distinct (uw_fired (window_of st k))"
  by (auto simp: fired_distinct_def window_of_def no_window_def split: option.split)

lemma observe_window_warned:
  assumes "observe_window fl measured t draws c windows kind st = Inr st'" "bands_ok st"
  shows "warned_once st st' \<and> bands_ok st'"
proof (cases "map_of windows kind = None \<or>
    (\<exists>w p. map_of windows kind = Some (w, p) \<and> stale_window (window_of st (window_key c kind)) w measured)")
  case True
  then have "st' = st" using assms(1) by (auto simp: observe_window_def)
  then show ?thesis using assms(2) by (simp add: warned_refl bands_ok_def)
next
  case False
  then obtain w p where wp: "map_of windows kind = Some (w, p)" by auto
  let ?key = "window_key c kind"
  let ?old = "window_of st ?key"
  let ?prev = "if uw_reset_at ?old \<noteq> lim_reset_at w then no_window\<lparr>uw_reset_at := lim_reset_at w\<rparr> else ?old"
  have fresh: "\<not> stale_window ?old w measured" using False wp by auto
  obtain notices fired m where
    run: "fold_err (fire_band fl t draws c kind w p) (bands_of c kind) (us_notices st, uw_fired ?prev, []) = Inr (notices, fired, m)"
    and st': "st' = st\<lparr>us_notices := notices, us_windows := AList.update ?key (?prev\<lparr>uw_fired := fired,
      uw_observed_at := measured, uw_percent := lim_used_percent w\<rparr>) (us_windows st)\<rparr>"
    using assms(1) wp fresh by (auto simp: observe_window_def Let_def split: sum.splits prod.splits)
  have prev: "distinct (uw_fired ?prev)" "uw_reset_at ?prev = lim_reset_at w"
    using window_of_distinct [of st ?key] assms(2) by (auto simp: bands_ok_def no_window_def)
  obtain new where new: "notices = us_notices st @ new" "distinct (map un_band new)" and f: "distinct fired" "prefix (uw_fired ?prev) fired"
    and all: "\<And>n. n \<in> set new \<Longrightarrow> notice_key n = ?key \<and> un_reset_at n = lim_reset_at w
      \<and> un_band n \<in> set fired \<and> un_band n \<notin> set (uw_fired ?prev)"
    using fired_loop [OF run prev(1)] by (auto simp: fired_by_def)
  have windows: "map_of (us_windows st') = (map_of (us_windows st))(?key \<mapsto>
      ?prev\<lparr>uw_fired := fired, uw_observed_at := measured, uw_percent := lim_used_percent w\<rparr>)"
    by (simp add: st' update_conv')
  have order: "uw_reset_at ?old \<le> lim_reset_at w" "uw_observed_at ?old \<le> measured"
    using fresh by (auto simp: stale_window_def)
  have later: "windows_later st st'"
  proof -
    have "\<exists>u'. map_of (us_windows st') k = Some u' \<and> uw_reset_at u \<le> uw_reset_at u' \<and> uw_observed_at u \<le> uw_observed_at u'
        \<and> (uw_reset_at u = uw_reset_at u' \<longrightarrow> prefix (uw_fired u) (uw_fired u'))" if u: "map_of (us_windows st) k = Some u" for k u
    proof (cases "k = ?key")
      case True
      then have "u = ?old" using u by (simp add: window_of_def)
      then show ?thesis using True order f(2) prev(2) by (auto simp: windows)
    qed (simp add: windows u)
    then show ?thesis unfolding windows_later_def by blast
  qed
  have unspent: "\<not> spent st (notice_ident n)" if mem: "n \<in> set new" for n
  proof
    assume s: "spent st (notice_ident n)"
    then obtain u where u: "map_of (us_windows st) ?key = Some u"
      and r: "lim_reset_at w < uw_reset_at u \<or> lim_reset_at w = uw_reset_at u \<and> un_band n \<in> set (uw_fired u)"
      using all [OF mem] by (auto simp: spent_def notice_ident_def split: option.splits)
    then have "u = ?old" by (simp add: window_of_def)
    then show False using r order(1) all [OF mem] by auto
  qed
  have "spent st' (notice_ident n)" if "n \<in> set new" for n
    using all [OF that] prev(2) by (auto simp: spent_def notice_ident_def windows)
  moreover have "spent st' (notice_ident n)" if "n \<in> set (us_notices st)" for n
    by (rule spent_later [OF later]) (use that assms(2) in \<open>simp add: bands_ok_def notices_ok_def\<close>)
  moreover have notices: "us_notices st' = us_notices st @ new" by (simp add: st' new(1))
  ultimately have spent: "\<forall>n \<in> set (us_notices st'). spent st' (notice_ident n)" by auto
  have "distinct (map notice_ident new)"
    using new(2) by (auto simp: distinct_map notice_ident_def inj_on_def)
  moreover have "notice_ident ` set new \<inter> notice_ident ` set (us_notices st) = {}"
    using unspent assms(2) by (fastforce simp: bands_ok_def notices_ok_def)
  ultimately have "distinct (map notice_ident (us_notices st'))"
    using assms(2) by (auto simp: bands_ok_def notices_ok_def notices)
  then have "warned_once st st'"
    using spent later unspent by (auto simp: warned_once_def notices_ok_def notices)
  moreover have "fired_distinct st'" using assms(2) f(1) by (auto simp: bands_ok_def fired_distinct_def windows)
  ultimately show ?thesis by (simp add: bands_ok_def warned_once_def)
qed

lemma windows_warned:
  assumes "observe_windows fl measured t draws c limits kinds st = Inr st'" "bands_ok st"
  shows "warned_once st st' \<and> bands_ok st'"
proof (rule fold_err_keeps [where P = "\<lambda>u. warned_once st u \<and> bands_ok u", OF assms(1) [unfolded observe_windows_def]])
  show "warned_once st st \<and> bands_ok st" using assms(2) by (simp add: warned_refl bands_ok_def)
next
  fix kind u v
  assume "warned_once st u \<and> bands_ok u"
    "observe_window fl measured t draws c (fold (pace_window fl measured t) limits []) kind u = Inr v"
  then show "warned_once st v \<and> bands_ok v" using observe_window_warned warned_trans by blast
qed

section \<open>The other changes remove notices at most\<close>

definition fewer :: "usage_state \<Rightarrow> usage_state \<Rightarrow> bool" where
  "fewer st st' \<longleftrightarrow> us_windows st' = us_windows st
     \<and> subseq (map notice_ident (us_notices st')) (map notice_ident (us_notices st))"

lemma fewer_same: "us_windows st' = us_windows st \<Longrightarrow> us_notices st' = us_notices st \<Longrightarrow> fewer st st'"
  and fewer_trans: "fewer st st1 \<Longrightarrow> fewer st1 st2 \<Longrightarrow> fewer st st2"
  by (auto simp: fewer_def intro: subseq_order.trans)

lemma fewer_warned:
  assumes "fewer st st'" "bands_ok st"
  shows "warned_once st st' \<and> bands_ok st'"
proof -
  have "warned_once st st'" using assms by (intro warned_fewer) (auto simp: fewer_def bands_ok_def)
  moreover have "fired_distinct st'" using assms by (simp add: fewer_def bands_ok_def fired_distinct_def)
  ultimately show ?thesis by (simp add: bands_ok_def warned_once_def)
qed

lemma ident_upd [simp]:
  "notice_ident (n\<lparr>un_submission := x\<rparr>) = notice_ident n"
  "notice_ident (n\<lparr>un_id := x\<rparr>) = notice_ident n" "notice_ident (n\<lparr>un_token := x\<rparr>) = notice_ident n"
  "notice_ident (n\<lparr>un_recipient_id := x\<rparr>) = notice_ident n" "notice_ident (n\<lparr>un_recipient_name := x\<rparr>) = notice_ident n"
  by (simp_all add: notice_ident_def notice_key_def)

lemma settle_notice_fewer: "subseq (map notice_ident (settle_notice i r outcome ns)) (map notice_ident ns)"
  by (induction ns) auto

lemma settle_wake_same:
  "us_windows (settle_wake a e outcome w st) = us_windows st \<and> us_notices (settle_wake a e outcome w st) = us_notices st"
  by (simp add: settle_wake_def split: option.split prod.split)

lemma acknowledge_fewer: "fewer st (acknowledge a e outcome w st)"
  using settle_wake_same [of a e outcome w st]
  by (simp add: acknowledge_def fewer_def settle_notice_fewer)

lemma reconcile_notices_fewer:
  "reconcile_notices p matches say a w ns v = (Inr (ns', changed), v') \<Longrightarrow>
     subseq (map notice_ident ns') (map notice_ident ns)"
proof (induction ns arbitrary: v ns' changed v')
  case (Cons n ns)
  then obtain kept c1 v1 where rest: "reconcile_notices p matches say a w ns v = (Inr (kept, c1), v1)"
    and ns': "ns' = n # kept \<or> ns' = kept"
    by (auto simp: and_then_def ret_def split: prod.splits sum.splits if_splits)
  then show ?case using Cons.IH [OF rest] by auto
qed (simp add: ret_def)

lemma reconcile_wakes_same:
  "reconcile_wakes p matches say a w ks (st, changed) v = (Inr (st', changed'), v') \<Longrightarrow>
     us_windows st' = us_windows st \<and> us_notices st' = us_notices st"
proof (induction ks arbitrary: st changed v)
  case (Cons k ks)
  then obtain st1 c1 v1 where run: "reconcile_wakes p matches say a w ks (st1, c1) v1 = (Inr (st', changed'), v')"
    and "us_windows st1 = us_windows st \<and> us_notices st1 = us_notices st"
    by (fastforce simp: Let_def and_then_def split: prod.splits sum.splits if_splits)
  then show ?case using Cons.IH [OF run] by simp
qed (simp add: ret_def)

text \<open>The judgement of a turn and the caps do not touch windows or notices.\<close>

definition untouched :: "usage_state \<Rightarrow> usage_state \<Rightarrow> bool" where
  "untouched st st' \<longleftrightarrow> us_windows st' = us_windows st \<and> us_notices st' = us_notices st"

lemma untouched_fewer: "untouched st st' \<Longrightarrow> fewer st st'"
  by (simp add: untouched_def fewer_same)

lemma untouched_fail: "untouched st0 (fst acc) \<Longrightarrow> untouched st0 (fst (fail_wake t k r s acc))"
  by (cases acc) (simp add: fail_wake_def untouched_def)

lemma untouched_finish: "untouched st0 (fst acc) \<Longrightarrow> untouched st0 (fst (finish_wake a b t k s acc))"
  using untouched_fail by (cases acc) (auto simp: finish_wake_def untouched_def)

lemma untouched_rearm:
  "rearm_wake a t draws k observed s acc = Inr acc' \<Longrightarrow> untouched st0 (fst acc) \<Longrightarrow> untouched st0 (fst acc')"
  by (cases acc) (auto simp: rearm_wake_def Let_def untouched_def split: if_splits prod.splits sum.splits)

lemma untouched_reject:
  "reject_wake a t draws k confirmed failure observed s acc = Inr acc' \<Longrightarrow> untouched st0 (fst acc) \<Longrightarrow> untouched st0 (fst acc')"
  by (cases acc) (auto simp: reject_wake_def Let_def untouched_def split: if_splits dest!: untouched_rearm [where ?st0.0 = st0])

lemma untouched_cap:
  "judge_cap a t draws k confirmed failure observed s acc = Inr acc' \<Longrightarrow> untouched st0 (fst acc) \<Longrightarrow> untouched st0 (fst acc')"
  by (cases acc) (auto simp: judge_cap_def Let_def untouched_def fail_wake_def split: if_splits dest!: untouched_reject [where ?st0.0 = st0])

lemma untouched_failure:
  "judge_failure a tel n t draws k adopted s acc = Inr acc' \<Longrightarrow> untouched st0 (fst acc) \<Longrightarrow> untouched st0 (fst acc')"
  by (cases acc) (auto simp: judge_failure_def Let_def untouched_def fail_wake_def split: if_splits prod.splits dest!: untouched_cap [where ?st0.0 = st0])

lemma untouched_turn:
  "judge_turn a tel n b t draws k adopted s acc = Inr acc' \<Longrightarrow> untouched st0 (fst acc) \<Longrightarrow> untouched st0 (fst acc')"
  by (auto simp: judge_turn_def split: if_splits dest: untouched_failure intro: untouched_finish)

lemma untouched_wake:
  "observe_wake turns a tel n b t draws k acc = Inr acc' \<Longrightarrow> untouched st0 (fst acc) \<Longrightarrow> untouched st0 (fst acc')"
  by (cases acc) (auto simp: observe_wake_def untouched_fail split: option.splits if_splits prod.splits
      dest: untouched_turn)

lemma untouched_turn_end:
  assumes "observe_wakes turns a tel n b t draws st = Inr (st', evs)"
  shows "untouched st st'"
proof -
  have "untouched st (fst (st', evs))"
    by (rule fold_err_keeps [where P = "\<lambda>acc. untouched st (fst acc)", OF assms [unfolded observe_wakes_def]])
      (auto simp: untouched_def dest: untouched_wake [where ?st0.0 = st, unfolded untouched_def])
  then show ?thesis by simp
qed

lemma untouched_auto_cap:
  assumes "observe_auto_cap a tel n t draws st = Inr (st', evs)"
  shows "untouched st st'"
proof -
  have auto: "untouched st0 (fst acc')" if "scheduleAutomaticWake a r t draws acc = Inr acc'" "untouched st0 (fst acc)" for st0 acc acc' r
    using that by (cases acc) (auto simp: scheduleAutomaticWake_def Let_def untouched_def split: if_splits sum.splits prod.splits)
  have cap: "untouched st (fst acc')" if "note_cap a f r t draws (st, []) = Inr acc'" for f r acc'
    using that by (auto simp: note_cap_def Let_def untouched_def split: if_splits prod.splits dest!: auto [where ?st0.0 = st])
  have candidate: "untouched st (fst acc')" if "settle_candidate a t draws acc = Inr acc'" "untouched st (fst acc)" for acc acc'
    using that by (cases acc) (auto simp: settle_candidate_def Let_def untouched_def
        split: option.splits if_splits prod.splits bool.splits dest!: auto [where ?st0.0 = st])
  have date: "untouched st (fst (date_wake a t acc))" if "untouched st (fst acc)" for acc
    using that by (cases acc) (auto simp: date_wake_def Let_def untouched_def split: option.split prod.split)
  show ?thesis
    using assms cap candidate date
    by (auto simp: observe_auto_cap_def split: prod.splits sum.splits) (metis fst_conv)
qed

lemma untouched_reclaim:
  assumes "fold_err (reclaim_recent active t draws) ks (st, evs) = Inr acc"
  shows "untouched st (fst acc)"
  by (rule fold_err_keeps [where P = "\<lambda>acc. untouched st (fst acc)", OF assms])
    (auto simp: untouched_def reclaim_recent_def Let_def split: option.splits if_splits sum.splits)

lemma untouched_due:
  assumes "fold_err (due_wake active lead t draws) ks (st, evs, ws) = Inr acc"
  shows "untouched st (fst acc)"
  by (rule fold_err_keeps [where P = "\<lambda>acc. untouched st (fst acc)", OF assms])
    (auto simp: untouched_def due_wake_def Let_def split: if_splits sum.splits prod.splits)

lemma route_notice_ident: "route_notice active lead draws n = Inr m \<Longrightarrow> notice_ident m = notice_ident n"
  by (auto simp: route_notice_def Let_def split: if_splits sum.splits option.splits prod.splits)

lemma route_notices_fewer:
  "route_notices active lead t draws ns = Inr ms \<Longrightarrow> subseq (map notice_ident ms) (map notice_ident ns)"
  by (induction ns arbitrary: ms) (auto split: sum.splits if_splits dest: route_notice_ident)

lemma flush_fewer:
  assumes "flush_plan agents t draws st = Inr (st', notices, wakes, evs)"
  shows "fewer st st'"
proof -
  let ?active = "active_agents agents" and ?lead = "currentLead agents"
  obtain st1 evs1 ns where reclaim: "fold_err (reclaim_recent ?active t draws) (map fst (us_recent st)) (st, []) = Inr (st1, evs1)"
    and route: "route_notices ?active ?lead t draws (us_notices st1) = Inr ns"
    and due: "fold_err (due_wake ?active ?lead t draws) (sort (map fst (us_snoozes (st1\<lparr>us_notices := ns\<rparr>))))
      (st1\<lparr>us_notices := ns\<rparr>, evs1, []) = Inr (st', evs, wakes)"
    using assms(1) by (auto simp: flush_plan_def Let_def split: sum.splits prod.splits)
  have "fewer st st1" using untouched_reclaim [OF reclaim] by (simp add: untouched_fewer)
  moreover have "fewer st1 (st1\<lparr>us_notices := ns\<rparr>)" using route_notices_fewer [OF route] by (simp add: fewer_def)
  moreover have "fewer (st1\<lparr>us_notices := ns\<rparr>) st'" using untouched_due [OF due] by (simp add: untouched_fewer)
  ultimately show ?thesis by (blast intro: fewer_trans)
qed

lemma remove_notice_fewer:
  "remove_notice i r ns = Some ms \<Longrightarrow> subseq (map notice_ident ms) (map notice_ident ns)"
  by (induction ns arbitrary: ms) (auto split: if_splits)

lemma untouched_command:
  "schedule_wake s t reason st withdraw v = (Inr (st', cancelled, evs), v') \<Longrightarrow> untouched st st'"
  "clear_own k t st withdraw v = (Inr (st', cancelled, evs), v') \<Longrightarrow> untouched st st'"
  by (auto simp: schedule_wake_def clear_own_def Let_def and_then_def ret_def raise_def untouched_def
      split: prod.splits sum.splits if_splits)

lemma clear_routed_fewer:
  "clear_routed a i t st withdraw v = (Inr (st', cancelled, known, evs), v') \<Longrightarrow> fewer st st'"
  by (auto simp: clear_routed_def Let_def and_then_def ret_def fewer_def
      split: prod.splits sum.splits option.splits intro: remove_notice_fewer)

lemma step_warned: "usage_step st evs st' \<Longrightarrow> bands_ok st \<Longrightarrow> warned_once st st' \<and> bands_ok st'"
proof (induction rule: usage_step.induct)
  case delivery
  then show ?case by (intro fewer_warned acknowledge_fewer)
next
  case (late_witness a p matches say w st v st' changed v')
  then obtain ns c1 v1 where
    notices: "reconcile_notices p matches say a w (us_notices st) v = (Inr (ns, c1), v1)"
    and wakes: "reconcile_wakes p matches say a w (map fst (us_snoozes st)) (st\<lparr>us_notices := ns\<rparr>, c1) v1 = (Inr (st', changed), v')"
    by (auto simp: reconcile_usage_def and_then_def split: prod.splits sum.splits)
  have "fewer st st'"
    using reconcile_notices_fewer [OF notices] reconcile_wakes_same [OF wakes] by (simp add: fewer_def)
  then show ?case using late_witness by (intro fewer_warned)
next
  case turn_end
  then show ?case by (intro fewer_warned untouched_fewer untouched_turn_end)
next
  case usage_reading
  then show ?case by (rule windows_warned)
next
  case provider_cap
  then show ?case by (intro fewer_warned untouched_fewer untouched_auto_cap)
next
  case flush
  then show ?case by (intro fewer_warned flush_fewer)
next
  case schedule
  then show ?case by (intro fewer_warned untouched_fewer untouched_command(1))
next
  case clear
  then show ?case by (intro fewer_warned untouched_fewer untouched_command(2))
next
  case clear_by_lead
  then show ?case by (intro fewer_warned clear_routed_fewer)
qed

lemma run_warned: "usage_run st evs st' \<Longrightarrow> bands_ok st \<Longrightarrow> warned_once st st' \<and> bands_ok st'"
proof (induction rule: usage_run.induct)
  case (start st)
  then show ?case by (simp add: warned_refl bands_ok_def)
next
  case (more st evs st1 evs1 st2)
  then show ?case using step_warned warned_trans by blast
qed

lemma bands_ok_empty: "bands_ok no_usage"
  by (simp add: bands_ok_def notices_ok_def fired_distinct_def no_usage_def)

text \<open>
  C14 (usage_band_fires_once): in every run of all changes of the usage record, whatever readings
  arrive in whatever order, no two notices name the same band of the same reset of a window;
  a band that has fired for a reset, or whose window has moved past it, never adds a notice
  again, also after its first notice was delivered and removed; and no window goes back to
  an earlier reset or an earlier observation.
\<close>

theorem usage_band_fires_once:
  assumes "usage_run st evs st'" "bands_ok st"
  shows "distinct (map notice_ident (us_notices st'))
    \<and> (\<forall>n \<in> set (us_notices st'). spent st (notice_ident n) \<longrightarrow> notice_ident n \<in> notice_ident ` set (us_notices st))
    \<and> windows_later st st'"
  using run_warned [OF assms] by (auto simp: warned_once_def notices_ok_def)

definition demo_warned :: usage_state where
  "demo_warned = no_usage\<lparr>
     us_windows := [(''claude/5h'', no_window\<lparr>uw_reset_at := 100, uw_fired := [''late'']\<rparr>)],
     us_notices := [\<lparr>un_id = ''usage-band-1'', un_token = ''t'', un_collar = ''claude'', un_window = ''5h'', un_band = ''late'',
       un_reset_at = 100, un_text = ''close out'', un_created_at = 5, un_recipient_id = ''h1'',
       un_recipient_name = ''ann'', un_submission = ''''\<rparr>]\<rparr>"

theorem usage_band_fires_once_witness:
  "let e = blank_envelope\<lparr>env_id := ''usage-band-1'', env_from := blank_sender\<lparr>snd_name := ''usage-band''\<rparr>\<rparr>;
       st' = acknowledge demo_lead e ''delivered'' None demo_warned
   in us_notices st' = [] \<and> spent st' (''claude/5h'', 100, ''late'') \<and> windows_later demo_warned st'"
proof -
  let ?e = "blank_envelope\<lparr>env_id := ''usage-band-1'', env_from := blank_sender\<lparr>snd_name := ''usage-band''\<rparr>\<rparr>"
  have "usage_step demo_warned [] (acknowledge demo_lead ?e ''delivered'' None demo_warned)"
    by (rule delivery) (simp add: demo_usage)
  from more [OF start this] have run: "usage_run demo_warned [] (acknowledge demo_lead ?e ''delivered'' None demo_warned)" by simp
  have ok: "bands_ok demo_warned"
    by (simp add: bands_ok_def notices_ok_def fired_distinct_def spent_def notice_ident_def notice_key_def demo_warned_def no_window_def
        demo_usage)
  show ?thesis
    using usage_band_fires_once [OF run ok]
    by (simp add: acknowledge_def demo_usage demo_warned_def blank_envelope_def blank_sender_def spent_def no_window_def)
qed

end
