(* ===== verification/Usage_Flush.thy ===== *)
theory Usage_Flush
  imports Usage_Bands
begin

text \<open>
  What a flush of the usage work hands to publication, that a due wake gets there, the
  order of publications, and the change of the usage record on disk under every failure.
\<close>

section \<open>Recipients\<close>

lemma active_agents_id: "map_of (active_agents agents) k = Some a \<Longrightarrow> ag_id a = k"
  by (auto simp: active_agents_def dest!: map_of_SomeD)

definition served :: "agent list \<Rightarrow> hitch_id \<Rightarrow> bool" where
  "served agents k \<longleftrightarrow> (\<exists>a \<in> set agents. ag_status a = Active \<and> ag_id a = k)"

lemma active_None: "map_of (active_agents agents) k = None \<longleftrightarrow> \<not> served agents k"
  by (force simp: active_agents_def map_of_eq_None_iff served_def)

lemma served_id: "map_of (active_agents agents) k = Some a \<Longrightarrow> served agents (ag_id a)"
  using active_None [of agents k] active_agents_id [of agents k a] by auto

lemma lead_served: "currentLead agents = Some l \<Longrightarrow> served agents (ag_id l)"
proof -
  assume "currentLead agents = Some l"
  then have "filter (\<lambda>a. ag_status a = Active \<and> isLead a) agents = [l]"
    by (auto simp: currentLead_def split: list.splits)
  then have "l \<in> set (filter (\<lambda>a. ag_status a = Active \<and> isLead a) agents)" by simp
  then show ?thesis by (auto simp: served_def)
qed

lemma part_wake_served:
  assumes "part_wake (active_agents agents) t draws k s = Inr (s1, es)" "sn_recipient_id s1 \<noteq> ''''"
  shows "served agents (sn_recipient_id s1)"
  using assms active_None [of agents "sn_recipient_id s"]
  by (auto simp: part_wake_def Let_def split: if_splits sum.splits prod.splits)

lemma address_wake_served:
  assumes "sn_recipient_id s \<noteq> '''' \<Longrightarrow> served agents (sn_recipient_id s)"
    and "sn_recipient_id (address_wake (active_agents agents) (currentLead agents) s) \<noteq> ''''"
  shows "served agents (sn_recipient_id (address_wake (active_agents agents) (currentLead agents) s))"
  using assms by (auto simp: address_wake_def served_id lead_served split: option.splits)

lemma part_wake_fields:
  assumes "part_wake active t draws k s = Inr (s1, es)"
  shows "sn_caller_id s1 = sn_caller_id s" "sn_at s1 = sn_at s" "sn_note s1 = sn_note s"
    "sn_submission s1 = (if map_of active (sn_recipient_id s) = None then '''' else sn_submission s)"
  using assms by (auto simp: part_wake_def Let_def split: if_splits sum.splits prod.splits)

lemma address_wake_fields [simp]:
  "sn_caller_id (address_wake active lead s) = sn_caller_id s" "sn_at (address_wake active lead s) = sn_at s"
  "sn_note (address_wake active lead s) = sn_note s" "sn_submission (address_wake active lead s) = sn_submission s"
  by (auto simp: address_wake_def split: option.split)

section \<open>One due wake\<close>

text \<open>A wake ready for publication: due, addressed to an active agent, filed, its slot free.\<close>

definition ready_wake :: "agent list \<Rightarrow> time \<Rightarrow> usage_state \<Rightarrow> string \<Rightarrow> usage_snooze \<Rightarrow> bool" where
  "ready_wake agents t st k s \<longleftrightarrow> sn_at s \<noteq> zero_time \<and> sn_at s \<le> t \<and> served agents (sn_recipient_id s)
     \<and> sn_submission s = '''' \<and> sn_caller_id s = k \<and> map_of (us_snoozes st) k = Some s \<and> map_of (us_recent st) k = None"

definition same_wakes :: "string \<Rightarrow> usage_state \<Rightarrow> usage_state \<Rightarrow> bool" where
  "same_wakes k st st' \<longleftrightarrow> map_of (us_snoozes st') k = map_of (us_snoozes st) k \<and> map_of (us_recent st') k = map_of (us_recent st) k"

lemma due_frame:
  assumes "due_wake active lead t draws k (st, evs, ws) = Inr (st', evs', ws')" "j \<noteq> k"
  shows "same_wakes j st st'"
  using assms by (auto simp: due_wake_def Let_def same_wakes_def split: if_splits sum.splits prod.splits)

definition behind :: "usage_snooze \<Rightarrow> bool" where
  "behind r \<longleftrightarrow> sn_id r \<noteq> '''' \<and> \<not> sn_cap_rejected r \<and> \<not> sn_turn_failed r"

lemma due_wake_skips:
  "sn_at (snooze_of (us_snoozes st) k) = zero_time \<or> sn_at (snooze_of (us_snoozes st) k) > t \<or> behind (snooze_of (us_recent st) k)
    \<Longrightarrow> due_wake active lead t draws k (st, evs, ws) = Inr (st, evs, ws)"
  unfolding due_wake_def Let_def behind_def by simp argo

lemma due_wake_runs:
  assumes "sn_at (snooze_of (us_snoozes st) k) \<noteq> zero_time" "\<not> sn_at (snooze_of (us_snoozes st) k) > t"
    and "\<not> behind (snooze_of (us_recent st) k)" "due_wake active lead t draws k (st, evs, ws) = Inr (st', evs', ws')"
  obtains s1 es where "part_wake active t draws k (snooze_of (us_snoozes st) k) = Inr (s1, es)"
    and "st' = put_snooze k (address_wake active lead s1) (if sn_id (snooze_of (us_recent st) k) \<noteq> '''' then drop_recent k st else st)"
    and "ws' = (if sn_recipient_id (address_wake active lead s1) \<noteq> '''' \<and> sn_submission s1 = ''''
      then ws @ [address_wake active lead s1] else ws)"
proof (cases "part_wake active t draws k (snooze_of (us_snoozes st) k)")
  case (Inl e)
  then show ?thesis using assms unfolding behind_def by (simp add: due_wake_def Let_def split_beta split: if_splits)
next
  case (Inr r)
  obtain s1 es where r: "r = (s1, es)" by (cases r)
  show ?thesis
  proof (rule that)
    show "part_wake active t draws k (snooze_of (us_snoozes st) k) = Inr (s1, es)" using Inr r by simp
  qed (use assms Inr r in \<open>auto simp: behind_def due_wake_def Let_def split: if_splits\<close>)
qed

lemma due_adds:
  assumes "due_wake (active_agents agents) (currentLead agents) t draws k (st, evs, ws) = Inr (st', evs', ws')" "wakes_ok st"
  shows "ws' = ws \<or> (\<exists>s. ws' = ws @ [s] \<and> ready_wake agents t st' k s)"
proof -
  let ?s = "snooze_of (us_snoozes st) k" and ?r = "snooze_of (us_recent st) k"
  consider "sn_at ?s = zero_time \<or> sn_at ?s > t \<or> behind ?r"
    | "sn_at ?s \<noteq> zero_time" "\<not> sn_at ?s > t" "\<not> behind ?r"
    by blast
  then show ?thesis
  proof cases
    case 1
    then show ?thesis using assms(1) due_wake_skips by simp
  next
    case 2
    obtain s1 es where part: "part_wake (active_agents agents) t draws k ?s = Inr (s1, es)"
      and step: "st' = put_snooze k (address_wake (active_agents agents) (currentLead agents) s1)
          (if sn_id ?r \<noteq> '''' then drop_recent k st else st)"
        "ws' = (if sn_recipient_id (address_wake (active_agents agents) (currentLead agents) s1) \<noteq> '''' \<and> sn_submission s1 = ''''
          then ws @ [address_wake (active_agents agents) (currentLead agents) s1] else ws)"
      using due_wake_runs [OF 2 assms(1)] .
    let ?s2 = "address_wake (active_agents agents) (currentLead agents) s1"
    have "sn_caller_id ?s = k"
    proof (cases "map_of (us_snoozes st) k")
      case None
      then show ?thesis using 2(1) by simp
    next
      case (Some s)
      then show ?thesis using assms(2) by (simp add: wakes_ok_def wake_ok_def)
    qed
    moreover have "map_of (us_recent st') k = None"
      using wakes_ok_id(2) [OF assms(2), of k] by (cases "map_of (us_recent st) k") (auto simp: step(1))
    moreover have "served agents (sn_recipient_id ?s2)" if "sn_recipient_id ?s2 \<noteq> ''''"
      by (rule address_wake_served [OF part_wake_served [OF part] that])
    ultimately have "ready_wake agents t st' k ?s2" if "sn_recipient_id ?s2 \<noteq> ''''" "sn_submission s1 = ''''"
      using that part_wake_fields [OF part] 2(1,2) by (simp add: ready_wake_def step(1))
    then show ?thesis using step(2) by simp
  qed
qed

lemma ready_frame: "ready_wake agents t st k s \<Longrightarrow> same_wakes k st st' \<Longrightarrow> ready_wake agents t st' k s"
  by (simp add: ready_wake_def same_wakes_def)

lemma wakes_ok_due:
  "due_wake active lead t draws k (st, evs, ws) = Inr (st', evs', ws') \<Longrightarrow> wakes_ok st \<Longrightarrow> wakes_ok st'"
  using kept_due_wake [of st st "[]" active lead t draws k ws]
    kept_due_wake [of st st evs active lead t draws k ws st' evs' ws'] kept_refl [of st]
  by (auto simp: kept_def accounted_def)

lemma due_loop:
  assumes "fold_err (due_wake (active_agents agents) (currentLead agents) t draws) ks (st, evs, ws) = Inr (st', evs', ws')"
    and "distinct ks" "wakes_ok st"
    and "distinct (map sn_caller_id ws)" "sn_caller_id ` set ws \<inter> set ks = {}"
    and "\<And>s. s \<in> set ws \<Longrightarrow> ready_wake agents t st (sn_caller_id s) s"
  shows "distinct (map sn_caller_id ws') \<and> (\<forall>s \<in> set ws'. ready_wake agents t st' (sn_caller_id s) s) \<and> set ws \<subseteq> set ws'"
  using assms
proof (induction ks arbitrary: st evs ws)
  case (Cons k ks)
  obtain st1 evs1 ws1 where step: "due_wake (active_agents agents) (currentLead agents) t draws k (st, evs, ws) = Inr (st1, evs1, ws1)"
    and rest: "fold_err (due_wake (active_agents agents) (currentLead agents) t draws) ks (st1, evs1, ws1) = Inr (st', evs', ws')"
    using Cons.prems(1) by (auto split: sum.splits)
  have ok: "wakes_ok st1" by (rule wakes_ok_due [OF step Cons.prems(3)])
  have old: "ready_wake agents t st1 (sn_caller_id s) s" if "s \<in> set ws" for s
    using that Cons.prems(5,6) due_frame [OF step, of "sn_caller_id s"] by (auto intro: ready_frame)
  have "ws1 = ws \<or> (\<exists>s. ws1 = ws @ [s] \<and> ready_wake agents t st1 k s)" by (rule due_adds [OF step Cons.prems(3)])
  then have new: "distinct (map sn_caller_id ws1) \<and> sn_caller_id ` set ws1 \<inter> set ks = {} \<and> set ws \<subseteq> set ws1
    \<and> (\<forall>s \<in> set ws1. ready_wake agents t st1 (sn_caller_id s) s)"
  proof
    assume "ws1 = ws"
    then show ?thesis using Cons.prems(4,5) old by auto
  next
    assume "\<exists>s. ws1 = ws @ [s] \<and> ready_wake agents t st1 k s"
    then obtain s where s: "ws1 = ws @ [s]" "ready_wake agents t st1 k s" by blast
    have "sn_caller_id s = k" using s(2) by (simp add: ready_wake_def)
    then show ?thesis using s Cons.prems(2,4,5) old by auto
  qed
  then have all: "\<And>s. s \<in> set ws1 \<Longrightarrow> ready_wake agents t st1 (sn_caller_id s) s" by blast
  have "distinct ks" using Cons.prems(2) by simp
  from Cons.IH [OF rest this ok _ _ all] new show ?case by blast
qed simp

section \<open>What a flush publishes\<close>

lemma route_notice_served:
  assumes "route_notice (active_agents agents) (currentLead agents) draws n = Inr m" "un_recipient_id m \<noteq> ''''"
  shows "served agents (un_recipient_id m)"
  using assms active_None [of agents "un_recipient_id n"]
  by (auto simp: route_notice_def Let_def lead_served split: if_splits sum.splits option.splits prod.splits)

lemma route_notices_served:
  assumes "route_notices (active_agents agents) (currentLead agents) t draws ns = Inr ms" "m \<in> set ms" "publishable_notice m"
  shows "served agents (un_recipient_id m) \<and> un_reset_at m > unix_seconds t"
  using assms
proof (induction ns arbitrary: ms)
  case (Cons n ns)
  then obtain m0 ms0 where "route_notice (active_agents agents) (currentLead agents) draws n = Inr m0"
    and "route_notices (active_agents agents) (currentLead agents) t draws ns = Inr ms0"
    and "ms = (if un_submission m0 = '''' \<and> un_reset_at m0 \<le> unix_seconds t then ms0 else m0 # ms0)"
    by (auto split: sum.splits)
  then show ?case using Cons.IH [of ms0] Cons.prems(2,3) route_notice_served [of agents draws n m0]
    by (auto simp: publishable_notice_def split: if_splits)
qed simp

lemma flushE:
  assumes "flush_plan agents t draws st = Inr (st', notices, wakes, evs)"
  obtains st1 evs1 ns where
    "fold_err (reclaim_recent (active_agents agents) t draws) (map fst (us_recent st)) (st, []) = Inr (st1, evs1)"
    "route_notices (active_agents agents) (currentLead agents) t draws (us_notices st1) = Inr ns"
    "fold_err (due_wake (active_agents agents) (currentLead agents) t draws) (sort (map fst (us_snoozes st1)))
      (st1\<lparr>us_notices := ns\<rparr>, evs1, []) = Inr (st', evs, wakes)"
    "notices = filter publishable_notice ns"
  using assms by (auto simp: flush_plan_def Let_def split: sum.splits prod.splits)

lemma wakes_ok_notices [simp]: "wakes_ok (st\<lparr>us_notices := ns\<rparr>) = wakes_ok st"
  by (simp add: wakes_ok_def)

text \<open>
  C19 (flush_publishes_ready): a flush hands to publication at most one wake of every caller;
  each is due, has an active recipient, is filed under its caller as it is published, and no
  earlier wake of that caller still awaits its turn. A usage warning is published only to an
  active agent and before its window resets.
\<close>

theorem flush_publishes_ready:
  assumes "flush_plan agents t draws st = Inr (st', notices, wakes, evs)" "wakes_ok st"
  shows "distinct (map sn_caller_id wakes) \<and> (\<forall>s \<in> set wakes. ready_wake agents t st' (sn_caller_id s) s)
    \<and> (\<forall>n \<in> set notices. served agents (un_recipient_id n) \<and> un_reset_at n > unix_seconds t)"
proof -
  obtain st1 evs1 ns where reclaim: "fold_err (reclaim_recent (active_agents agents) t draws) (map fst (us_recent st)) (st, []) = Inr (st1, evs1)"
    and route: "route_notices (active_agents agents) (currentLead agents) t draws (us_notices st1) = Inr ns"
    and due: "fold_err (due_wake (active_agents agents) (currentLead agents) t draws) (sort (map fst (us_snoozes st1)))
      (st1\<lparr>us_notices := ns\<rparr>, evs1, []) = Inr (st', evs, wakes)"
    and notices: "notices = filter publishable_notice ns"
    using flushE [OF assms(1)] .
  have ok: "wakes_ok st1" using reclaim_loop.loop_keeps [OF assms(2) reclaim] by (simp add: kept_def)
  then have "distinct (sort (map fst (us_snoozes st1)))" by (simp add: wakes_ok_def keys_ok_def)
  from due_loop [OF due this] ok have "distinct (map sn_caller_id wakes) \<and> (\<forall>s \<in> set wakes. ready_wake agents t st' (sn_caller_id s) s)"
    by simp
  then show ?thesis using route_notices_served [OF route] notices by auto
qed

section \<open>A due wake is published\<close>

lemma reclaim_keeps_snooze:
  assumes "fold_err (reclaim_recent active t draws) ks (st, es) = Inr (st1, evs1)"
    and "map_of (us_snoozes st) k = Some s" "sn_id s \<noteq> ''''"
  shows "map_of (us_snoozes st1) k = Some s
    \<and> (map_of (us_recent st1) k = None \<or> map_of (us_recent st1) k = map_of (us_recent st) k)"
proof -
  let ?P = "\<lambda>(u, _ :: event list). map_of (us_snoozes u) k = Some s
    \<and> (map_of (us_recent u) k = None \<or> map_of (us_recent u) k = map_of (us_recent st) k)"
  have "?P (st1, evs1)"
  proof (rule fold_err_keeps [where P = ?P, OF assms(1)])
    fix j u v assume u: "?P u" and step: "reclaim_recent active t draws j u = Inr v"
    obtain st2 evs2 where uv: "u = (st2, evs2)" by (cases u)
    have "snooze_of (us_snoozes st2) k = s" using u by (simp add: uv)
    then show "?P v" using u step assms(3)
      by (cases "j = k") (auto simp: uv reclaim_recent_def Let_def split: option.splits if_splits sum.splits)
  qed (use assms(2) in simp)
  then show ?thesis by simp
qed

lemma due_progress:
  assumes "due_wake (active_agents agents) (currentLead agents) t draws k (st, evs, ws) = Inr (st', evs', ws')"
    and "wakes_ok st" "map_of (us_snoozes st) k = Some s" "sn_at s \<noteq> zero_time" "sn_at s \<le> t"
    and "sn_submission s = '''' \<or> \<not> served agents (sn_recipient_id s)"
    and "\<And>r. map_of (us_recent st) k = Some r \<Longrightarrow> sn_cap_rejected r \<or> sn_turn_failed r"
    and "k \<noteq> ''''" "served agents k \<or> currentLead agents \<noteq> None" "\<And>a. a \<in> set agents \<Longrightarrow> ag_id a \<noteq> ''''"
  shows "\<exists>w \<in> set ws'. sn_caller_id w = k \<and> sn_at w = sn_at s \<and> sn_note w = sn_note s"
proof -
  have "sn_caller_id s = k" using assms(2,3) by (auto simp: wakes_ok_def wake_ok_def)
  have s: "snooze_of (us_snoozes st) k = s" using assms(3) by simp
  have run: "\<not> behind (snooze_of (us_recent st) k)"
    using assms(7) by (cases "map_of (us_recent st) k") (auto simp: behind_def)
  obtain s1 es where part: "part_wake (active_agents agents) t draws k s = Inr (s1, es)"
    and step: "ws' = (if sn_recipient_id (address_wake (active_agents agents) (currentLead agents) s1) \<noteq> '''' \<and> sn_submission s1 = ''''
      then ws @ [address_wake (active_agents agents) (currentLead agents) s1] else ws)"
    using due_wake_runs [OF _ _ run assms(1), unfolded s] assms(4,5) by (metis linorder_not_less)
  let ?s2 = "address_wake (active_agents agents) (currentLead agents) s1"
  note fields = part_wake_fields [OF part]
  have submission: "sn_submission s1 = ''''" using fields(4) assms(6) active_None [of agents "sn_recipient_id s"] by (auto split: if_splits)
  have "sn_recipient_id ?s2 \<noteq> ''''"
  proof (cases "sn_recipient_id s1 = ''''")
    case True
    have "ag_id a \<noteq> ''''" if "map_of (active_agents agents) k = Some a" for a
      using that active_agents_id assms(8) by auto
    moreover have "ag_id l \<noteq> ''''" if "currentLead agents = Some l" for l
      using lead_served [OF that] assms(10) by (auto simp: served_def)
    ultimately show ?thesis
      using True assms(9) fields(1) \<open>sn_caller_id s = k\<close> active_None [of agents k]
      by (auto simp: address_wake_def split: option.split)
  qed (simp add: address_wake_def)
  then have "ws' = ws @ [?s2]" using step submission by simp
  then show ?thesis using fields \<open>sn_caller_id s = k\<close> by auto
qed

lemma due_loop_progress:
  assumes "fold_err (due_wake (active_agents agents) (currentLead agents) t draws) ks (st, evs, ws) = Inr (st', evs', ws')"
    and "k \<in> set ks" "wakes_ok st" "map_of (us_snoozes st) k = Some s" "sn_at s \<noteq> zero_time" "sn_at s \<le> t"
    and "sn_submission s = '''' \<or> \<not> served agents (sn_recipient_id s)"
    and "\<And>r. map_of (us_recent st) k = Some r \<Longrightarrow> sn_cap_rejected r \<or> sn_turn_failed r"
    and "k \<noteq> ''''" "served agents k \<or> currentLead agents \<noteq> None" "\<And>a. a \<in> set agents \<Longrightarrow> ag_id a \<noteq> ''''"
  shows "\<exists>w \<in> set ws'. sn_caller_id w = k \<and> sn_at w = sn_at s \<and> sn_note w = sn_note s"
  using assms(1-4,8)
proof (induction ks arbitrary: st evs ws)
  case (Cons j ks)
  obtain st1 evs1 ws1 where step: "due_wake (active_agents agents) (currentLead agents) t draws j (st, evs, ws) = Inr (st1, evs1, ws1)"
    and rest: "fold_err (due_wake (active_agents agents) (currentLead agents) t draws) ks (st1, evs1, ws1) = Inr (st', evs', ws')"
    using Cons.prems(1) by (auto split: sum.splits)
  have grows: "set ws1 \<subseteq> set ws'"
    by (rule fold_err_keeps [where P = "\<lambda>(_, _, u). set ws1 \<subseteq> set u", OF rest, simplified])
      (auto simp: due_wake_def Let_def split: if_splits sum.splits prod.splits)
  show ?case
  proof (cases "j = k")
    case True
    then show ?thesis
      using due_progress [OF step [unfolded True] Cons.prems(3,4) assms(5,6,7) _ assms(9,10,11)] Cons.prems(5) grows by blast
  next
    case False
    have same: "same_wakes k st st1" by (rule due_frame [OF step]) (use False in simp)
    show ?thesis
    proof (rule Cons.IH [OF rest])
      show "wakes_ok st1" by (rule wakes_ok_due [OF step Cons.prems(3)])
    qed (use Cons.prems(2,4,5) False same in \<open>auto simp: same_wakes_def\<close>)
  qed
qed simp

text \<open>
  Every wake that is due, not in flight, and not behind an earlier
  wake of its caller that still awaits its turn is handed to publication by the next flush,
  with its due time and note, as long as its caller is active or the team has one lead.
\<close>

theorem due_wake_published:
  assumes "flush_plan agents t draws st = Inr (st', notices, wakes, evs)" "wakes_ok st"
    and "map_of (us_snoozes st) k = Some s" "sn_at s \<noteq> zero_time" "sn_at s \<le> t"
    and "sn_submission s = '''' \<or> \<not> served agents (sn_recipient_id s)"
    and "\<And>r. map_of (us_recent st) k = Some r \<Longrightarrow> sn_cap_rejected r \<or> sn_turn_failed r"
    and "k \<noteq> ''''" "served agents k \<or> currentLead agents \<noteq> None" "\<And>a. a \<in> set agents \<Longrightarrow> ag_id a \<noteq> ''''"
  shows "\<exists>w \<in> set wakes. sn_caller_id w = k \<and> sn_at w = sn_at s \<and> sn_note w = sn_note s"
proof -
  obtain st1 evs1 ns where reclaim: "fold_err (reclaim_recent (active_agents agents) t draws) (map fst (us_recent st)) (st, []) = Inr (st1, evs1)"
    and due: "fold_err (due_wake (active_agents agents) (currentLead agents) t draws) (sort (map fst (us_snoozes st1)))
      (st1\<lparr>us_notices := ns\<rparr>, evs1, []) = Inr (st', evs, wakes)"
    using flushE [OF assms(1)] .
  have ok: "wakes_ok st1" using reclaim_loop.loop_keeps [OF assms(2) reclaim] by (simp add: kept_def)
  have "sn_id s \<noteq> ''''" using assms(2,3) by (auto simp: wakes_ok_def wake_ok_def)
  note same = reclaim_keeps_snooze [OF reclaim assms(3) this]
  show ?thesis
  proof (rule due_loop_progress [OF due _ _ _ assms(4-6) _ assms(8-10)])
    show "k \<in> set (sort (map fst (us_snoozes st1)))" using same map_of_SomeD [of "us_snoozes st1" k s] by force
    show "wakes_ok (st1\<lparr>us_notices := ns\<rparr>)" using ok by simp
    show "map_of (us_snoozes (st1\<lparr>us_notices := ns\<rparr>)) k = Some s" using same by simp
    show "sn_cap_rejected r \<or> sn_turn_failed r" if "map_of (us_recent (st1\<lparr>us_notices := ns\<rparr>)) k = Some r" for r
      using that same assms(7) by auto
  qed
qed

definition demo_draws :: draws where
  "demo_draws = (\<lambda>_. (Inr ''1f'', Inr ''2e''))"

lemma demo_flush: "flush_plan [demo_lead] 10 demo_draws demo_wakes = Inr (demo_wakes, [], [demo_wake], [])"
  by (simp add: flush_plan_def active_agents_def currentLead_def isLead_def due_wake_def part_wake_def address_wake_def
      put_snooze_def snooze_of_def demo_usage Let_def)

theorem flush_publishes_ready_witness:
  "flush_plan [demo_lead] 10 demo_draws demo_wakes = Inr (demo_wakes, [], [demo_wake], [])
   \<and> ready_wake [demo_lead] 10 demo_wakes ''h1'' demo_wake"
  using flush_publishes_ready [OF demo_flush demo_wakes_ok] demo_flush by (simp add: demo_wake_def)

theorem due_wake_published_witness: "\<exists>w \<in> set [demo_wake]. sn_caller_id w = ''h1'' \<and> sn_at w = 5"
proof -
  have "\<exists>w \<in> set [demo_wake]. sn_caller_id w = ''h1'' \<and> sn_at w = sn_at demo_wake \<and> sn_note w = sn_note demo_wake"
    by (rule due_wake_published [OF demo_flush demo_wakes_ok]) (auto simp: demo_usage served_def)
  then show ?thesis by (simp add: demo_wake_def)
qed

end
