(* ===== verification/Usage_Disk.thy ===== *)
theory Usage_Disk
  imports Usage_Flush
begin

text \<open>
  The usage record on disk (\<^verbatim>\<open>withUsageState\<close> of \<^verbatim>\<open>cmd/gang/usage_state.go\<close> over the lock, the
  reader and the writer of \<^verbatim>\<open>store/team_usage.go\<close>), under every schedule of failures, and the
  order in which a flush publishes.
\<close>

section \<open>The lock and the record\<close>

interpretation usage_record: typed_file CUsage as_usage "\<lambda>x. x"
  by unfold_locales (simp add: as_usage_def)


lemma usage_paths [simp]: "usage_lock p \<noteq> usage_file p" "usage_file p \<noteq> usage_lock p"
  by (simp_all add: usage_lock_def usage_file_def)

text \<open>What a reader of the record finds; a missing file is the empty record.\<close>

definition recorded :: "team_paths \<Rightarrow> world \<Rightarrow> usage_state option" where
  "recorded p w = (case lookup w (usage_file p) of
     None \<Rightarrow> Some no_usage
   | Some (File (CUsage st)) \<Rightarrow> Some st
   | _ \<Rightarrow> None)"

lemma recorded_simps [simp]:
  "recorded p (w\<lparr>faults := bs\<rparr>) = recorded p w" "recorded p (w\<lparr>held := hs\<rparr>) = recorded p w"
  "recorded p (put (usage_file p) (File (CUsage st)) w) = Some st"
  "recorded p (put (usage_lock p) n w) = recorded p w"
  by (simp_all add: recorded_def)

lemma recorded_absent: "lookup w (usage_file p) = None \<Longrightarrow> recorded p w = Some no_usage"
  by (simp add: recorded_def)





section \<open>What a change touches\<close>

text \<open>
  The change runs under the lock. It may act on other files (a wake that is cleared or replaced is
  also withdrawn from the inbox); whatever fails, it changes only these, and holds no lock of its
  own afterwards.
\<close>

definition touches_only :: "path set \<Rightarrow> 'a io \<Rightarrow> bool" where
  "touches_only ps m \<longleftrightarrow> (\<forall>w r w'. m w = (r, w') \<longrightarrow> changed_only ps w w' \<and> held w' = held w)"

lemma touchesI:
  assumes "\<And>w. wp m (\<lambda>_ w'. changed_only ps w w' \<and> held w' = held w) (\<lambda>_ w'. changed_only ps w w' \<and> held w' = held w) w"
  shows "touches_only ps m"
  unfolding touches_only_def
proof (intro allI impI)
  fix w r w' assume "m w = (r, w')"
  then show "changed_only ps w w' \<and> held w' = held w" using assms [of w] by (cases r) (simp_all add: wp_def)
qed

lemma touches_pure [simp]: "touches_only ps (ret x)" "touches_only ps (raise e)" "touches_only ps (lift r)"
  by (simp_all add: touches_only_def ret_def raise_def lift_def split: sum.split)

lemma touches_then:
  assumes "touches_only ps m" "\<And>x. touches_only ps (f x)"
  shows "touches_only ps (and_then m f)"
  using assms unfolding touches_only_def and_then_def
  by (fastforce split: prod.splits sum.splits intro: changed_only_trans)

lemma touches_attempt: "touches_only ps m \<Longrightarrow> touches_only ps (attempt m)"
  by (auto simp: touches_only_def attempt_def split: prod.splits)

lemma touches_cases:
  "(b \<Longrightarrow> touches_only ps m) \<Longrightarrow> (\<not> b \<Longrightarrow> touches_only ps m') \<Longrightarrow> touches_only ps (if b then m else m')"
  "(\<And>x. touches_only ps (f x)) \<Longrightarrow> (\<And>y. touches_only ps (g y)) \<Longrightarrow> touches_only ps (case r of Inl x \<Rightarrow> f x | Inr y \<Rightarrow> g y)"
  "touches_only ps m \<Longrightarrow> (\<And>x. touches_only ps (h x)) \<Longrightarrow> touches_only ps (case opt of None \<Rightarrow> m | Some x \<Rightarrow> h x)"
  "(\<And>x y. touches_only ps (k x y)) \<Longrightarrow> touches_only ps (case pr of (x, y) \<Rightarrow> k x y)"
  by (auto split: sum.split option.split prod.split)

text \<open>Withdrawing takes the idle lock, settles the pending publication, and releases it again.\<close>

lemma touches_resolve:
  assumes lay: "team_layout (idleTeam p)"
  shows "touches_only (idle_files (idleTeam p)) (resolveIdlePublication p)"
proof (rule touchesI)
  fix w
  let ?t = "idleTeam p"
  let ?Q = "\<lambda>v. changed_only (idle_files ?t) w v \<and> held v = held w"
  have mine: "idle_lock ?t \<in> idle_files ?t" "idle_file ?t \<in> idle_files ?t" by simp_all
  have close: "wp (attempt (IdleClose ?t)) (\<lambda>_. wp (case r of Inl e \<Rightarrow> raise e | Inr _ \<Rightarrow> ret ()) (\<lambda>_. ?Q) (\<lambda>_. ?Q)) (\<lambda>_. ?Q) v"
    if v: "changed_only (idle_files ?t) w v" "held v = (idle_lock ?t, None) # held w" "idle_lock ?t \<notin> fst ` set (held w)" for r v
  proof -
    have gone: "AList.delete (idle_lock ?t) (held v) = held w" using v(2,3) by simp
    have "wp sys (\<lambda>_. ?Q) (\<lambda>_. ?Q) (v\<lparr>held := AList.delete (idle_lock ?t) (held v)\<rparr>)"
      by (rule wp_sys) (simp_all add: gone v(1))
    then have "wp (IdleClose ?t) (\<lambda>_. ?Q) (\<lambda>_. ?Q) v" using v(2) by (simp add: IdleClose_def)
    then show ?thesis unfolding wp_attempt by (rule wp_mono) (simp_all split: sum.split)
  qed
  have locked: "wp (attempt (IdleRead ?t)) (\<lambda>r. wp (attempt (IdleClose ?t)) (\<lambda>_. wp (case r of Inl e \<Rightarrow> raise e | Inr _ \<Rightarrow> ret ())
      (\<lambda>_. ?Q) (\<lambda>_. ?Q)) (\<lambda>_. ?Q)) (\<lambda>_. ?Q) v"
    if v: "changed_only (idle_files ?t) w v" "held v = (idle_lock ?t, None) # held w" "idle_lock ?t \<notin> fst ` set (held w)" for v
    unfolding wp_attempt
    by (intro wp_IdleRead [OF lay] close [unfolded wp_attempt])
      (use v mine in \<open>auto intro: changed_only_trans\<close>)
  have taken: "wp (act (\<lambda>w. if idle_lock ?t \<in> set (busy w) \<union> fst ` set (held w) then Inl WouldBlock else Inr w))
      (\<lambda>_. wp sys (\<lambda>_. wp (os_stat (idle_lock ?t)) (\<lambda>_. wp (os_stat (tp_state ?t))
        (\<lambda>_. wp (updates (\<lambda>w. w\<lparr>held := (idle_lock ?t, None) # held w\<rparr>)) (\<lambda>_. wp (attempt (IdleRead ?t))
          (\<lambda>r. wp (attempt (IdleClose ?t)) (\<lambda>_. wp (case r of Inl e \<Rightarrow> raise e | Inr _ \<Rightarrow> ret ()) (\<lambda>_. ?Q) (\<lambda>_. ?Q)) (\<lambda>_. ?Q)) (\<lambda>_. ?Q))
          (\<lambda>_. ?Q)) (\<lambda>_. ?Q)) (\<lambda>_. ?Q)) (\<lambda>_. ?Q)) (\<lambda>_. ?Q) v"
    if v: "changed_only (idle_files ?t) w v" "held v = held w" for v
  proof (rule wp_act, goal_cases)
    case (1 bs u)
    then have "u = v\<lparr>faults := bs\<rparr>" "idle_lock ?t \<notin> fst ` set (held w)" using v by (auto split: if_splits)
    then show ?case by (intro wp_sys wp_os_stat) (use v in \<open>auto intro!: locked [simplified]\<close>)
  qed (use v in auto)
  show "wp (resolveIdlePublication p) (\<lambda>_. ?Q) (\<lambda>_. ?Q) w"
    unfolding resolveIdlePublication_def Let_def LockIdle_def wp_simps(5)
    by (intro wp_os_open_create taken) (use mine in \<open>auto intro: changed_only_put\<close>)
qed

definition withdrawal_files :: "agent_paths \<Rightarrow> path set" where
  "withdrawal_files p = idle_files (idleTeam p) \<union> range (env_path p ''new'')"

lemma touches_mono: "touches_only ps m \<Longrightarrow> ps \<subseteq> qs \<Longrightarrow> touches_only qs m"
  by (auto simp: touches_only_def intro: changed_only_mono)

lemma touches_Withdraw:
  assumes "plain_segment h" "p = agent_of (team_of d) h"
  shows "touches_only (withdrawal_files p) (Withdraw p i)"
proof -
  have "touches_only (withdrawal_files p) (resolveIdlePublication p)"
    using touches_mono [OF touches_resolve [OF idle_paths(4) [OF assms]]] by (auto simp: withdrawal_files_def)
  moreover have "touches_only (withdrawal_files p) (and_then (EnvelopePath p ''new'' i) os_remove)"
    by (rule touchesI) (auto intro!: wp_EnvelopePath wp_os_remove changed_only_del simp: withdrawal_files_def)
  ultimately show ?thesis unfolding Withdraw_def by (rule touches_then)
qed

text \<open>The changes that the commands make under the recipient's lock.\<close>

lemma touches_wake_changes:
  assumes "plain_segment h" "lk = None \<or> lk = Some (agent_of (team_of d) h, a)"
  shows "touches_only (withdrawal_files (agent_of (team_of d) h)) (clear_own key t st (withdraw_wake lk))"
    and "touches_only (withdrawal_files (agent_of (team_of d) h)) (clear_routed b i t st (withdraw_wake lk))"
    and "touches_only (withdrawal_files (agent_of (team_of d) h)) (schedule_wake s t reason st (withdraw_wake lk))"
proof -
  have withdraw: "touches_only (withdrawal_files (agent_of (team_of d) h)) (withdraw_wake lk s)" for s
    using assms(2) unfolding withdraw_wake_def
    by (elim disjE) (auto intro!: touches_cases touches_then touches_attempt touches_Withdraw [OF assms(1) refl])
  show "touches_only (withdrawal_files (agent_of (team_of d) h)) (clear_own key t st (withdraw_wake lk))"
    unfolding clear_own_def by (intro touches_then withdraw touches_pure)
  show "touches_only (withdrawal_files (agent_of (team_of d) h)) (clear_routed b i t st (withdraw_wake lk))"
    unfolding clear_routed_def Let_def by (intro touches_cases touches_then withdraw touches_pure)
  show "touches_only (withdrawal_files (agent_of (team_of d) h)) (schedule_wake s t reason st (withdraw_wake lk))"
    unfolding schedule_wake_def Let_def by (intro touches_cases touches_then withdraw touches_pure)
qed

text \<open>None of these files is the usage record, so the next theorem applies to them.\<close>

lemma usage_apart:
  assumes "plain_segment h"
  shows "usage_file (team_of d) \<notin> withdrawal_files (agent_of (team_of d) h)"
proof -
  note paths = agent_of_plain [OF assms, of d] and idle = idle_paths [OF assms refl, of d]
  have "usage_file (team_of d) = d @ [''usage.json'']" by (simp add: usage_file_def team_of_def)
  then show ?thesis by (auto simp: withdrawal_files_def idle env_path_def join_path_def paths)
qed

section \<open>One change\<close>








text \<open>A change that also removes a file, the wake's envelope.\<close>

definition demo_usage_world :: world where
  "demo_usage_world = demo_world open_codec [([''t''], Dir), ([''t'', ''team.json''], File (CBytes '''')),
     ([''t'', ''usage.json''], File (CUsage demo_wakes)), ([''t'', ''wake''], File (CBytes ''''))]"




section \<open>The order of publication\<close>

lemma publish_each_set: "set f = set f' \<Longrightarrow> publish_each publish f es = publish_each publish f' es"
proof (induction es arbitrary: f f')
  case (Cons e es)
  have "publish_each publish (env_recipient e # f) es = publish_each publish (env_recipient e # f') es"
    by (rule Cons.IH) (simp add: Cons.prems)
  then show ?case using Cons.IH [OF Cons.prems] Cons.prems by (simp cong: sum.case_cong)
qed simp

lemma publish_each_filter:
  "publish_each publish g (filter (\<lambda>e. env_recipient e \<notin> set f) es) = publish_each publish (g @ f) es"
  by (induction es arbitrary: g) (simp_all cong: sum.case_cong)

text \<open>
  When publishing to a recipient fails, the flush reports the
  error and goes on exactly as if every later envelope of that recipient were not in the
  list: no wake overtakes the failed one on the way to its recipient, and no other
  recipient is held up.
\<close>

theorem failure_stops_recipient:
  assumes "publish e w = (Inl x, w1)" "env_recipient e \<notin> set failed"
  shows "publish_each publish failed (e # es) w
    = and_then (publish_each publish failed (filter (\<lambda>q. env_recipient q \<noteq> env_recipient e) es)) (\<lambda>xs. ret (x # xs)) w1"
proof -
  have "publish_each publish failed (filter (\<lambda>q. env_recipient q \<noteq> env_recipient e) es)
      = publish_each publish (failed @ [env_recipient e]) es"
    using publish_each_filter [of publish failed "[env_recipient e]" es] by simp
  also have "\<dots> = publish_each publish (env_recipient e # failed) es" by (rule publish_each_set) simp
  finally show ?thesis using assms by (simp add: and_then_def attempt_def)
qed

theorem failure_stops_recipient_witness:
  "fst (publish_each (\<lambda>e. if env_id e = ''a1'' then raise IOError else ret True) []
      [blank_envelope\<lparr>env_id := ''a1'', env_recipient := ''h1''\<rparr>, blank_envelope\<lparr>env_id := ''a2'', env_recipient := ''h1''\<rparr>]
      demo_usage_world) = Inr [IOError]"
proof -
  let ?p = "\<lambda>e. if env_id e = ''a1'' then raise IOError else ret True"
  let ?a = "blank_envelope\<lparr>env_id := ''a1'', env_recipient := ''h1''\<rparr>"
  have "?p ?a demo_usage_world = (Inl IOError, demo_usage_world)" by (simp add: raise_def blank_envelope_def)
  from failure_stops_recipient [where publish = ?p and failed = "[]", OF this,
      of "[blank_envelope\<lparr>env_id := ''a2'', env_recipient := ''h1''\<rparr>]"]
  show ?thesis by (simp add: and_then_def ret_def blank_envelope_def)
qed

end
