(* ===== verification/Idle_Sweep.thy ===== *)
theory Idle_Sweep
  imports Usage_Work Store_Outside
begin

text \<open>
  The notice that a team is idle (\<^verbatim>\<open>cmd/gang/team_idle.go\<close>): a sweep compares what it saw of
  every member with the state of the idle ledger, measures how long nothing moved, and
  reserves one notice for the lead. A worker that is seen busy arms the next notice.
\<close>

section \<open>Members and episodes\<close>

record idle_sweep =
  sw_start :: time
  sw_agents :: "agent list"
  sw_outside :: "outside_registration list"
  sw_work :: "(hitch_id \<times> uint64) list"
  sw_observed :: "hitch_id list"

definition statusHookFreshness :: duration where
  "statusHookFreshness = 30 * second"

definition heldInputEvidence :: string where
  "heldInputEvidence = ''native composer contains unsubmitted input''"

definition clearPending :: "agent \<Rightarrow> bool" where
  "clearPending a \<longleftrightarrow> (case ag_clear a of None \<Rightarrow> False | Some c \<Rightarrow> clr_status c \<noteq> ''completed'')"

definition idleMember :: "agent \<Rightarrow> uint64 \<Rightarrow> idle_member" where
  "idleMember a work = \<lparr>mem_id = ag_id a, mem_name = ag_name a, mem_generation = reg_generation (ag_registration a),
     mem_session = nat_session_id (ag_native a), mem_work = work\<rparr>"

definition sameIdleIdentity :: "idle_member \<Rightarrow> idle_member \<Rightarrow> bool" where
  "sameIdleIdentity a b \<longleftrightarrow> a\<lparr>mem_work := 0\<rparr> = b\<lparr>mem_work := 0\<rparr>"

definition advanceIdleEpisode :: "idle_state \<Rightarrow> idle_member \<Rightarrow> idle_member list \<Rightarrow> idle_state" where
  "advanceIdleEpisode s lead members =
     (let same = idle_initialized s \<and> sameIdleIdentity (idle_lead s) lead \<and> list_all2 sameIdleIdentity (idle_members s) members
      in s\<lparr>idle_armed := idle_armed s \<and> same, idle_initialized := True, idle_lead := lead, idle_members := members\<rparr>)"

text \<open>\<^term>\<open>None\<close>: nothing is armed and the state is unchanged.\<close>

definition armIdleActivity :: "idle_state \<Rightarrow> agent \<Rightarrow> time \<Rightarrow> idle_state option" where
  "armIdleActivity s a t =
     (if \<not> idle_initialized s \<or> ag_status a \<noteq> Active \<or> t = zero_time \<or> ag_id a = mem_id (idle_lead s)
         \<or> (case idle_notice_of s of None \<Rightarrow> False | Some n \<Rightarrow> \<not> t > env_created_at (ntc_envelope n)) then None
      else if list_ex (\<lambda>m. sameIdleIdentity m (idleMember a 0)) (idle_members s) then Some (s\<lparr>idle_armed := True\<rparr>)
      else None)"

section \<open>The lock of the ledger\<close>

text \<open>\<^verbatim>\<open>defer l.Close()\<close>: the error of closing is dropped.\<close>

definition locking_idle :: "team_paths \<Rightarrow> 'a io \<Rightarrow> 'a io" where
  "locking_idle p body =
     and_then (LockIdle p) (\<lambda>_.
     and_then (attempt body) (\<lambda>r.
     and_then (attempt (IdleClose p)) (\<lambda>_. lift r)))"

definition startIdleSweep :: "team_paths \<Rightarrow> agent list \<Rightarrow> idle_sweep io" where
  "startIdleSweep p agents =
     and_then (ListOutside p) (\<lambda>outside.
     locking_idle p (and_then (IdleRead p) (\<lambda>s.
       and_then (reads now) (\<lambda>t.
       ret \<lparr>sw_start = t, sw_agents = agents, sw_outside = outside, sw_work = idle_work s, sw_observed = []\<rparr>))))"

definition observedAgent :: "hitch_id \<Rightarrow> idle_sweep \<Rightarrow> idle_sweep" where
  "observedAgent i sweep = sweep\<lparr>sw_observed := i # sw_observed sweep\<rparr>"

definition noteIdleActivity :: "team_paths \<Rightarrow> agent \<Rightarrow> time \<Rightarrow> unit io" where
  "noteIdleActivity p a t =
     locking_idle p (and_then (IdleRead p) (\<lambda>s.
       case armIdleActivity s a t of
         None \<Rightarrow> ret ()
       | Some s' \<Rightarrow> and_then (SaveWindow p None) (\<lambda>_. IdleSave p s')))"

section \<open>What counts as quiet\<close>

definition idleObservation :: "agent \<Rightarrow> time \<Rightarrow> bool" where
  "idleObservation a t \<longleftrightarrow>
     ag_status a = Active \<and> ag_activity a = Idle \<and> ag_pane a \<noteq> '''' \<and> ag_input a = None \<and> ag_input_outage a = None
     \<and> ag_rehitch a = None \<and> \<not> reg_held (ag_registration a) \<and> nat_turn_failure (ag_native a) = ''''
     \<and> cap_fingerprint (ag_capacity a) = '''' \<and> ag_interrupt_deadline a = zero_time \<and> \<not> clearPending a
     \<and> (case ag_compaction a of None \<Rightarrow> True | Some c \<Rightarrow> cmp_status c = ''completed'')
     \<and> ag_evidence a \<noteq> heldInputEvidence
     \<and> (let seen = (if ag_status_probe_at a > nat_hook_at (ag_native a) then ag_status_probe_at a else nat_hook_at (ag_native a))
        in seen \<noteq> zero_time \<and> \<not> seen > t \<and> sub_time t seen < statusHookFreshness)"

definition receipt_certain :: "agent_paths \<Rightarrow> agent \<Rightarrow> bool io" where
  "receipt_certain p a =
     (if ag_last_failed a = '''' then ret True
      else and_then (ReadEnvelope p ''failed'' (ag_last_failed a)) (\<lambda>e. ret (env_outcome e \<noteq> ''unverified'')))"

text \<open>One worker; every reading is made, so that its failure is reported.\<close>

definition worker_ready :: "time \<Rightarrow> agent_paths \<times> agent \<Rightarrow> bool io" where
  "worker_ready t = (\<lambda>(p, a).
     and_then (ReadPermissionWitness p) (\<lambda>permission.
     and_then (ReadStatusHooks p) (\<lambda>hooks.
     and_then (receipt_certain p a) (\<lambda>certain.
     and_then (ListNew p) (\<lambda>pending.
     ret (idleObservation a t \<and> permission = None
       \<and> list_all (\<lambda>h. sh_sequence h \<le> nat_hook_sequence (ag_native a)) hooks
       \<and> ag_last_accepted a = '''' \<and> certain
       \<and> list_all (\<lambda>e. env_outcome e = '''' \<and> env_not_before e > t) pending))))))"

fun workers_ready :: "time \<Rightarrow> (agent_paths \<times> agent) list \<Rightarrow> bool io" where
  "workers_ready t [] = ret True"
| "workers_ready t (x # xs) = and_then (worker_ready t x) (\<lambda>b. and_then (workers_ready t xs) (\<lambda>c. ret (b \<and> c)))"

text \<open>Wakes of workers that are due, undated, in flight or awaiting an outcome.\<close>

definition usage_quiet :: "hitch_id \<Rightarrow> hitch_id list \<Rightarrow> time \<Rightarrow> usage_state \<Rightarrow> bool" where
  "usage_quiet lead active t u \<longleftrightarrow>
     (\<forall>(_, s) \<in> set (us_snoozes u). sn_caller_id s = lead \<or> sn_caller_id s \<notin> set active
        \<or> sn_submission s = '''' \<and> sn_at s \<noteq> zero_time \<and> sn_at s > t)
     \<and> (\<forall>(_, s) \<in> set (us_recent u). sn_caller_id s = lead \<or> sn_caller_id s \<notin> set active)
     \<and> (\<forall>(i, c) \<in> set (us_auto_candidates u). i = lead \<or> i \<notin> set active \<or> acc_at c = zero_time)"

definition idleNoticeSettled :: "idle_notice option \<Rightarrow> bool" where
  "idleNoticeSettled n \<longleftrightarrow> (case n of None \<Rightarrow> True
     | Some m \<Rightarrow> ntc_outcome m \<in> {''delivered'', ''failed'', ''recipient-gone'', ''recipient-changed''})"

section \<open>The window\<close>

definition same_window_member :: "idle_window_member \<Rightarrow> idle_window_member \<Rightarrow> bool" where
  "same_window_member a b \<longleftrightarrow> iwm_member a = iwm_member b \<and> iwm_hook_sequence a = iwm_hook_sequence b
     \<and> iwm_changed_at a = iwm_changed_at b \<and> iwm_screen_since a = iwm_screen_since b"

definition continues_window :: "idle_window \<Rightarrow> idle_window \<Rightarrow> bool" where
  "continues_window previous current \<longleftrightarrow>
     win_since previous \<noteq> zero_time \<and> \<not> win_last previous < win_since previous \<and> \<not> win_last current < win_last previous
     \<and> sub_time (win_last current) (win_last previous) < statusHookFreshness
     \<and> win_minimum previous = win_minimum current \<and> win_lead previous = win_lead current
     \<and> list_all2 same_window_member (win_members current) (win_members previous)"

definition advanceIdleWindow :: "idle_window option \<Rightarrow> idle_window \<Rightarrow> bool \<Rightarrow> idle_window option \<times> bool" where
  "advanceIdleWindow previous current ready =
     (if \<not> ready then (None, False)
      else case previous of
          None \<Rightarrow> (Some current, False)
        | Some before \<Rightarrow>
            if \<not> continues_window before current then (Some current, False)
            else let u = current\<lparr>win_since := win_since before\<rparr>
              in (Some u, win_minimum u > 0 \<and> sub_time (win_last u) (win_since u) \<ge> win_minimum u))"

definition idleNoticeText :: "idle_member list \<Rightarrow> time \<Rightarrow> string" where
  "idleNoticeText members since =
     ''All '' @ decimal (length members) @ (if length members = 1 then '' worker'' else '' workers'') @ '' idle since ''
     @ rfc3339 since @ '': '' @ join_with '', '' (map mem_name members) @ ''.''"

section \<open>Reserving a notice\<close>

definition sweep_members :: "idle_state \<Rightarrow> agent \<Rightarrow> agent list \<Rightarrow> outside_registration list \<Rightarrow> idle_member list" where
  "sweep_members s lead agents outside =
     map (\<lambda>a. idleMember a (work_of s (ag_id a))) (filter (\<lambda>a. ag_id a \<noteq> ag_id lead) agents)
     @ map (\<lambda>r. \<lparr>mem_id = out_id r, mem_name = out_name r, mem_generation = ''mailbox'', mem_session = '''', mem_work = 0\<rparr>) outside"

definition arm_busy :: "time \<Rightarrow> agent \<Rightarrow> idle_state \<Rightarrow> idle_state" where
  "arm_busy t a s =
     (if ag_activity a = Busy then (case armIdleActivity s a t of None \<Rightarrow> s | Some s' \<Rightarrow> s') else s)"

text \<open>The ledger after the membership of the sweep: its episode, what it arms, its counters.\<close>

definition swept :: "time \<Rightarrow> agent \<Rightarrow> agent list \<Rightarrow> outside_registration list \<Rightarrow> idle_state \<Rightarrow> idle_state" where
  "swept t lead agents outside s =
     (let s1 = fold (arm_busy t) agents (advanceIdleEpisode s (idleMember lead 0) (sweep_members s lead agents outside))
      in s1\<lparr>idle_work := filter (\<lambda>(i, _). i \<in> ag_id ` set agents) (idle_work s1)\<rparr>)"

definition notice_due :: "idle_state \<Rightarrow> outside_registration list \<Rightarrow> bool" where
  "notice_due s outside \<longleftrightarrow> idle_members s \<noteq> [] \<and> outside = [] \<and> idle_armed s \<and> idleNoticeSettled (idle_notice_of s)"

definition window_member :: "idle_state \<Rightarrow> agent \<Rightarrow> idle_window_member" where
  "window_member s a = \<lparr>iwm_member = idleMember a (work_of s (ag_id a)),
     iwm_hook_sequence = nat_hook_sequence (ag_native a), iwm_changed_at = ag_changed_at a,
     iwm_screen_since = ag_screen_since a\<rparr>"

definition sweep_window :: "idle_state \<Rightarrow> time \<Rightarrow> duration \<Rightarrow> agent \<Rightarrow> agent list \<Rightarrow> idle_window" where
  "sweep_window s t minimum lead agents = \<lparr>win_since = t, win_last = t, win_minimum = minimum,
     win_lead = idleMember lead 0,
     win_members = map (window_member s) (filter (\<lambda>a. ag_id a \<noteq> ag_id lead) agents)\<rparr>"

definition idle_notice_for :: "agent \<Rightarrow> idle_member list \<Rightarrow> time \<Rightarrow> time \<Rightarrow> envelope_id \<times> string \<Rightarrow> idle_notice" where
  "idle_notice_for lead members since t ids =
     \<lparr>ntc_envelope = blank_envelope\<lparr>env_id := fst ids, env_token := snd ids, env_recipient := ag_id lead,
        env_to := ag_name lead, env_from := blank_sender\<lparr>snd_kind := SenderGangline, snd_name := ''team-idle''\<rparr>,
        env_created_at := t, env_message := \<lparr>msg_text = idleNoticeText members since\<rparr>\<rparr>,
      ntc_generation = reg_generation (ag_registration lead), ntc_session = nat_session_id (ag_native lead),
      ntc_outcome = ''''\<rparr>"

text \<open>The state and the window to save: a mature window reserves the notice and disarms.\<close>

definition sweep_result :: "time \<Rightarrow> draws \<Rightarrow> agent \<Rightarrow> idle_window option \<times> bool \<Rightarrow> idle_state
    \<Rightarrow> err + idle_state \<times> idle_window option" where
  "sweep_result t draws lead observed s =
     (case observed of
        (Some u, True) \<Rightarrow>
          (case fresh_ids ''team-idle'' (draws ''team-idle'') of
             Inl e \<Rightarrow> Inl e
           | Inr ids \<Rightarrow> Inr (s\<lparr>idle_notice_of := Some (idle_notice_for lead (idle_members s) (win_since u) t ids),
                               idle_armed := False\<rparr>, None))
      | (window, _) \<Rightarrow> Inr (s, window))"

definition evaluate_sweep :: "team_paths \<Rightarrow> duration \<Rightarrow> draws \<Rightarrow> idle_sweep \<Rightarrow> agent \<Rightarrow> outside_registration list
    \<Rightarrow> usage_state \<Rightarrow> (agent_paths \<times> agent) list \<Rightarrow> unit io" where
  "evaluate_sweep p minimum draws sweep lead outside usage locked =
     (let agents = map snd locked in
      and_then (IdleRead p) (\<lambda>s0.
        if \<exists>a \<in> set agents. ag_id a \<noteq> ag_id lead
            \<and> work_of s0 (ag_id a) \<noteq> (case map_of (sw_work sweep) (ag_id a) of None \<Rightarrow> 0 | Some n \<Rightarrow> n) then ret ()
        else
          and_then (reads now) (\<lambda>t.
          let s = swept t lead agents outside s0 in
          and_then (workers_ready t (filter (\<lambda>(_, a). ag_id a \<noteq> ag_id lead) locked)) (\<lambda>quiet.
          and_then (ReadWindow p) (\<lambda>previous.
          let ready = notice_due s outside \<and> \<not> t < sw_start sweep \<and> quiet
                \<and> usage_quiet (ag_id lead) (map ag_id agents) t usage in
          and_then (lift (sweep_result t draws lead
              (advanceIdleWindow previous (sweep_window s t minimum lead agents) ready) s)) (\<lambda>(s', window).
          and_then (IdleSave p s') (\<lambda>_. SaveWindow p window)))))))"

text \<open>
  Every agent of the sweep is locked and read again. The locks taken so far are returned
  with the result, since they are closed on every path.
\<close>

fun lock_members :: "team_paths \<Rightarrow> idle_sweep \<Rightarrow> (agent \<times> agent) list \<Rightarrow> (agent_paths \<times> agent) list
    \<Rightarrow> agent_paths list \<Rightarrow> (agent_paths list \<times> (err + (agent_paths \<times> agent) list option)) io" where
  "lock_members p sweep [] locked locks = ret (locks, Inr (Some locked))"
| "lock_members p sweep ((a, old) # rest) locked locks =
     (if \<not> sameIdleIdentity (idleMember a 0) (idleMember old 0) \<or> ag_id a \<notin> set (sw_observed sweep) then ret (locks, Inr None)
      else
        and_then (attempt (Agent p (ag_id a))) (\<lambda>r. case r of Inl e \<Rightarrow> ret (locks, Inl e) | Inr ap \<Rightarrow>
        and_then (attempt (TryLock ap)) (\<lambda>l. case l of
          Inl e \<Rightarrow> ret (locks, if errors_is e Locked \<or> errors_is e NotExist then Inr None else Inl e)
        | Inr _ \<Rightarrow>
            and_then (attempt (ReadAgent ap)) (\<lambda>f. case f of
              Inl e \<Rightarrow> ret (locks @ [ap], Inl e)
            | Inr fresh \<Rightarrow>
                if \<not> sameIdleIdentity (idleMember a 0) (idleMember fresh 0) then ret (locks @ [ap], Inr None)
                else lock_members p sweep rest (locked @ [(ap, fresh)]) (locks @ [ap])))))"

definition with_members :: "team_paths \<Rightarrow> idle_sweep \<Rightarrow> agent list \<Rightarrow> ((agent_paths \<times> agent) list \<Rightarrow> unit io) \<Rightarrow> unit io" where
  "with_members p sweep agents body =
     and_then (lock_members p sweep (zip agents (sw_agents sweep)) [] []) (\<lambda>(locks, r).
     and_then (attempt (case r of Inl e \<Rightarrow> raise e | Inr None \<Rightarrow> ret () | Inr (Some locked) \<Rightarrow> body locked)) (\<lambda>x.
     and_then (for_each (\<lambda>ap. and_then (attempt (LockClose ap)) (\<lambda>_. ret ())) locks) (\<lambda>_. lift x)))"

text \<open>A name that resolves to no listed agent or participant is an unknown worker.\<close>

fun claims_known :: "team_paths \<Rightarrow> (string \<times> hitch_id) list \<Rightarrow> (string \<times> bool) list \<Rightarrow> bool io" where
  "claims_known p known [] = ret True"
| "claims_known p known (claim # claims) =
     and_then (ResolveName p (fst claim)) (\<lambda>i.
       if \<not> IsSenderID i \<and> (case map_of known (fst claim) of None \<Rightarrow> '''' | Some k \<Rightarrow> k) \<noteq> i then ret False
       else claims_known p known claims)"

definition locking_usage_read :: "team_paths \<Rightarrow> (usage_state \<Rightarrow> unit io) \<Rightarrow> unit io" where
  "locking_usage_read p body =
     and_then (LockUsage p) (\<lambda>_.
     and_then (attempt (and_then (UsageRead as_usage p no_usage) body)) (\<lambda>r.
     and_then (attempt (UsageClose p)) (\<lambda>_. lift r)))"

definition sweep_team :: "team_paths \<Rightarrow> duration \<Rightarrow> draws \<Rightarrow> idle_sweep \<Rightarrow> unit io" where
  "sweep_team p minimum draws sweep =
     and_then (ListAgents p) (\<lambda>agents.
       if length agents \<noteq> length (sw_agents sweep) then ret ()
       else and_then (ListOutside p) (\<lambda>outside.
         if \<not> list_all2 (\<lambda>o1 o2. out_id o1 = out_id o2 \<and> out_name o1 = out_name o2) outside (sw_outside sweep) then ret ()
         else
           and_then (os_read_dir (tp_names p)) (\<lambda>claims.
           and_then (claims_known p (rev (map (\<lambda>a. (ag_name a, ag_id a)) agents @ map (\<lambda>r. (out_name r, out_id r)) outside)) claims) (\<lambda>known.
             if \<not> known then ret ()
             else with_members p sweep agents (\<lambda>locked.
               case currentLead (map snd locked) of
                 None \<Rightarrow> ret ()
               | Some lead \<Rightarrow>
                   locking_usage_read p (\<lambda>usage.
                   locking_idle p (evaluate_sweep p minimum draws sweep lead outside usage locked)))))))"

definition reserveIdleNotice :: "paths \<Rightarrow> string \<Rightarrow> team_paths \<Rightarrow> duration \<Rightarrow> draws \<Rightarrow> idle_sweep \<Rightarrow> unit io" where
  "reserveIdleNotice root_paths name p minimum draws sweep =
     and_then (attempt (LockTeam root_paths name)) (\<lambda>l. case l of
       Inl e \<Rightarrow> if errors_is e Locked then ret () else raise e
     | Inr _ \<Rightarrow>
         and_then (attempt (sweep_team p minimum draws sweep)) (\<lambda>r.
         and_then (UnlockTeam root_paths name) (\<lambda>_. lift r)))"

section \<open>Publishing and settling the notice\<close>

definition is_idle_notice :: "envelope \<Rightarrow> bool" where
  "is_idle_notice e \<longleftrightarrow> snd_kind (env_from e) = SenderGangline \<and> snd_name (env_from e) = ''team-idle''"

definition readIdleNotice :: "team_paths \<Rightarrow> idle_notice option io" where
  "readIdleNotice p = locking_idle p (and_then (IdleRead p) (\<lambda>s. ret (idle_notice_of s)))"

definition settle_idle :: "envelope \<Rightarrow> string \<Rightarrow> idle_state \<Rightarrow> idle_state option" where
  "settle_idle e outcome s = (case idle_notice_of s of
       None \<Rightarrow> None
     | Some n \<Rightarrow>
         if env_id (ntc_envelope n) \<noteq> env_id e \<or> env_recipient (ntc_envelope n) \<noteq> env_recipient e
            \<or> env_token (ntc_envelope n) \<noteq> env_token e then None
         else Some (s\<lparr>idle_notice_of := Some (n\<lparr>ntc_outcome := outcome\<rparr>)\<rparr>))"

definition settleIdleNotice :: "team_paths \<Rightarrow> envelope \<Rightarrow> string \<Rightarrow> unit io" where
  "settleIdleNotice p e outcome =
     (if \<not> is_idle_notice e then ret ()
      else locking_idle p (and_then (IdleRead p) (\<lambda>s. case settle_idle e outcome s of
        None \<Rightarrow> ret () | Some s' \<Rightarrow> IdleSave p s')))"

definition idle_notice_current :: "idle_notice \<Rightarrow> agent \<Rightarrow> bool" where
  "idle_notice_current n a \<longleftrightarrow> isLead a \<and> ntc_generation n = reg_generation (ag_registration a)
     \<and> ntc_session n = nat_session_id (ag_native a)"

text \<open>
  The lead's lock, released when the notice has been handed on; \<^theory_text>\<open>acquire\<close>, \<^theory_text>\<open>release\<close> and
  \<^theory_text>\<open>drain\<close> belong to delivery.
\<close>

definition flush_idle_locked :: "team_paths \<Rightarrow> (agent_paths \<Rightarrow> agent \<Rightarrow> envelope_id \<Rightarrow> unit io) \<Rightarrow> idle_notice
    \<Rightarrow> agent_paths \<Rightarrow> agent \<Rightarrow> unit io" where
  "flush_idle_locked p drain n ap a =
     and_then (readIdleNotice p) (\<lambda>current. case current of
       None \<Rightarrow> ret ()
     | Some c \<Rightarrow>
         if env_id (ntc_envelope c) \<noteq> env_id (ntc_envelope n) then ret ()
         else if ag_status a \<noteq> Active \<or> \<not> idle_notice_current n a then settleIdleNotice p (ntc_envelope n) ''recipient-changed''
         else if ntc_outcome c \<noteq> '''' then ret ()
         else and_then (publishOnceTo p ap a (ntc_envelope n)) (\<lambda>_. drain ap a (env_id (ntc_envelope n))))"

definition flushIdleNotice :: "team_paths \<Rightarrow> (hitch_id \<Rightarrow> (agent_paths \<times> agent) io) \<Rightarrow> (hitch_id \<Rightarrow> unit io)
    \<Rightarrow> (agent_paths \<Rightarrow> agent \<Rightarrow> envelope_id \<Rightarrow> unit io) \<Rightarrow> unit io" where
  "flushIdleNotice p acquire release drain =
     and_then (readIdleNotice p) (\<lambda>n0. case n0 of
       None \<Rightarrow> ret ()
     | Some n \<Rightarrow>
         if idleNoticeSettled (Some n) then ret ()
         else
           let i = env_recipient (ntc_envelope n) in
           and_then (attempt (acquire i)) (\<lambda>r. case r of
             Inl e \<Rightarrow> if errors_is e Locked then ret ()
               else if errors_is e NotExist then settleIdleNotice p (ntc_envelope n) ''recipient-gone'' else raise e
           | Inr (ap, a) \<Rightarrow>
               and_then (attempt (flush_idle_locked p drain n ap a)) (\<lambda>x.
               and_then (attempt (release i)) (\<lambda>_. lift x))))"

definition retireIdleEnvelope :: "team_paths \<Rightarrow> agent_paths \<Rightarrow> agent \<Rightarrow> envelope \<Rightarrow> bool io" where
  "retireIdleEnvelope p ap a e =
     (if \<not> is_idle_notice e then ret False
      else and_then (readIdleNotice p) (\<lambda>n.
        let match = (case n of None \<Rightarrow> False | Some m \<Rightarrow>
              env_id (ntc_envelope m) = env_id e \<and> env_token (ntc_envelope m) = env_token e \<and> env_recipient (ntc_envelope m) = ag_id a);
            open = match \<and> ntc_outcome (the n) = '''' in
        if open \<and> idle_notice_current (the n) a then ret False
        else if ag_input a \<noteq> None then raise (Fail ''idle notice has unreconciled input intent'')
        else
          and_then (if open then settleIdleNotice p e ''recipient-changed'' else ret ()) (\<lambda>_.
          and_then (Withdraw ap (env_id e)) (\<lambda>_.
          and_then (record_event p a (blank_event\<lparr>ev_type := ''send_cancelled'', ev_id := env_id e,
            ev_reason := ''idle notice no longer belongs to this lead observation intent''\<rparr>)) (\<lambda>_. ret True)))))"

end
