(* ===== verification/Idle_Runs.thy ===== *)
theory Idle_Runs
  imports Idle_Sweep
begin

text \<open>
  What the idle notice promises: a window matures exactly when nothing moved for the
  minimum time, a second notice needs new activity and a settled first one, and every write
  of the ledger is a step of that state machine whatever fails around it.
\<close>

section \<open>The observation window as a fold\<close>

text \<open>The window after a sequence of evaluations, each with its verdict that the team is quiet.\<close>

definition window_after :: "(idle_window \<times> bool) list \<Rightarrow> idle_window option \<times> bool" where
  "window_after obs = foldl (\<lambda>(previous, _) (current, ready). advanceIdleWindow previous current ready) (None, False) obs"

lemma window_after_simps [simp]:
  "window_after [] = (None, False)"
  "window_after (obs @ [(c, ready)]) = advanceIdleWindow (fst (window_after obs)) c ready"
  by (auto simp: window_after_def split_beta)

text \<open>Between two evaluations: time went on less than the freshness, and nobody changed.\<close>

definition unmoved :: "idle_window \<Rightarrow> idle_window \<Rightarrow> bool" where
  "unmoved b c \<longleftrightarrow> win_last b \<le> win_last c \<and> sub_time (win_last c) (win_last b) < statusHookFreshness
     \<and> win_minimum b = win_minimum c \<and> win_lead b = win_lead c
     \<and> list_all2 same_window_member (win_members c) (win_members b)"

text \<open>Every evaluation from the \<^theory_text>\<open>k\<close>-th on found the team quiet and unmoved since the one before.\<close>

definition quiet_since :: "(idle_window \<times> bool) list \<Rightarrow> nat \<Rightarrow> bool" where
  "quiet_since obs k \<longleftrightarrow> k < length obs \<and> (\<forall>j < length obs. k \<le> j \<longrightarrow> snd (obs ! j)
     \<and> (k < j \<longrightarrow> unmoved (fst (obs ! (j - 1))) (fst (obs ! j))))"

definition fresh_windows :: "(idle_window \<times> bool) list \<Rightarrow> bool" where
  "fresh_windows obs \<longleftrightarrow> (\<forall>(c, _) \<in> set obs. win_since c = win_last c \<and> win_last c \<noteq> zero_time)"

lemma quiet_since_snoc:
  "quiet_since (obs @ [(c, ready)]) k \<longleftrightarrow> ready \<and> (k = length obs \<or> quiet_since obs k \<and> unmoved (fst (last obs)) c)"
proof (cases "k < length obs")
  case True
  then have "obs \<noteq> []" by auto
  then have last: "obs ! (length obs - 1) = last obs" by (simp add: last_conv_nth)
  have split: "(\<forall>j < Suc (length obs). P j) \<longleftrightarrow> (\<forall>j < length obs. P j) \<and> P (length obs)" for P
    by (auto simp: less_Suc_eq)
  show ?thesis
    using True last by (auto simp: quiet_since_def split nth_append)
next
  case False
  then show ?thesis by (auto simp: quiet_since_def nth_append less_Suc_eq)
qed

lemma unmoved_times: "quiet_since obs k \<Longrightarrow> k \<le> j \<Longrightarrow> j < length obs \<Longrightarrow> win_last (fst (obs ! k)) \<le> win_last (fst (obs ! j))"
proof (induction j)
  case (Suc j)
  show ?case
  proof (cases "k = Suc j")
    case False
    then have "unmoved (fst (obs ! j)) (fst (obs ! Suc j))"
      using Suc.prems unfolding quiet_since_def by (metis diff_Suc_1 le_neq_implies_less)
    then show ?thesis using Suc False by (auto simp: unmoved_def)
  qed simp
qed simp

definition window_invariant :: "(idle_window \<times> bool) list \<Rightarrow> bool" where
  "window_invariant obs \<longleftrightarrow> (case fst (window_after obs) of
     None \<Rightarrow> \<forall>k. \<not> quiet_since obs k
   | Some u \<Rightarrow> \<exists>k. quiet_since obs k \<and> (\<forall>j. quiet_since obs j \<longrightarrow> k \<le> j)
       \<and> u = (fst (last obs))\<lparr>win_since := win_last (fst (obs ! k))\<rparr>)"

lemma continues_iff:
  assumes "u = b\<lparr>win_since := s\<rparr>" "s \<noteq> zero_time" "s \<le> win_last b"
  shows "continues_window u c \<longleftrightarrow> unmoved b c"
  using assms by (auto simp: continues_window_def unmoved_def not_less)

lemma window_step:
  assumes "window_invariant obs" "fresh_windows (obs @ [(c, ready)])"
  shows "window_invariant (obs @ [(c, ready)])"
    and "snd (advanceIdleWindow (fst (window_after obs)) c ready) \<longleftrightarrow> win_minimum c > 0
      \<and> (\<exists>k < length obs. quiet_since (obs @ [(c, ready)]) k \<and> sub_time (win_last c) (win_last (fst (obs ! k))) \<ge> win_minimum c)"
proof -
  have c: "win_since c = win_last c" using assms(2) by (simp add: fresh_windows_def)
  have restart: "c = c\<lparr>win_since := win_last c\<rparr>" using c by simp
  have "window_invariant (obs @ [(c, ready)]) \<and> (snd (advanceIdleWindow (fst (window_after obs)) c ready) \<longleftrightarrow> win_minimum c > 0
      \<and> (\<exists>k < length obs. quiet_since (obs @ [(c, ready)]) k \<and> sub_time (win_last c) (win_last (fst (obs ! k))) \<ge> win_minimum c))"
  proof (cases "ready")
    case False
    then show ?thesis by (simp add: window_invariant_def advanceIdleWindow_def quiet_since_snoc)
  next
    case ready: True
    show ?thesis
    proof (cases "fst (window_after obs)")
      case None
      then have "\<not> quiet_since obs k" for k using assms(1) by (simp add: window_invariant_def)
      then have only: "quiet_since (obs @ [(c, ready)]) k \<longleftrightarrow> k = length obs" for k by (simp add: quiet_since_snoc ready)
      show ?thesis using None ready restart only
        by (simp add: window_invariant_def advanceIdleWindow_def)
    next
      case (Some u)
      then obtain k where k: "quiet_since obs k" "\<forall>j. quiet_since obs j \<longrightarrow> k \<le> j"
        and u: "u = (fst (last obs))\<lparr>win_since := win_last (fst (obs ! k))\<rparr>"
        using assms(1) by (auto simp: window_invariant_def)
      have len: "k < length obs" using k(1) by (simp add: quiet_since_def)
      then have "obs \<noteq> []" by auto
      then have last: "last obs = obs ! (length obs - 1)" by (simp add: last_conv_nth)
      have start: "win_last (fst (obs ! k)) \<noteq> zero_time"
        using assms(2) len by (auto simp: fresh_windows_def split_beta dest!: bspec [of _ _ "obs ! k"])
      have "win_last (fst (obs ! k)) \<le> win_last (fst (last obs))"
        unfolding last by (rule unmoved_times [OF k(1)]) (use len in auto)
      then have cont: "continues_window u c \<longleftrightarrow> unmoved (fst (last obs)) c"
        by (rule continues_iff [OF u start])
      show ?thesis
      proof (cases "unmoved (fst (last obs)) c")
        case True
        have earliest: "quiet_since (obs @ [(c, ready)]) j \<Longrightarrow> k \<le> j" for j
          using k(2) len by (auto simp: quiet_since_snoc)
        have mine: "quiet_since (obs @ [(c, ready)]) k" using k(1) True ready by (simp add: quiet_since_snoc)
        have later: "sub_time (win_last c) (win_last (fst (obs ! j))) \<le> sub_time (win_last c) (win_last (fst (obs ! k)))"
          if "quiet_since (obs @ [(c, ready)]) j" "j < length obs" for j
          using unmoved_times [OF k(1), of j] earliest [OF that(1)] that(2) by (simp add: sub_time_def)
        have "snd (advanceIdleWindow (Some u) c ready) \<longleftrightarrow> win_minimum c > 0
            \<and> sub_time (win_last c) (win_last (fst (obs ! k))) \<ge> win_minimum c"
          using ready True cont u by (simp add: advanceIdleWindow_def Let_def)
        also have "\<dots> \<longleftrightarrow> win_minimum c > 0 \<and> (\<exists>j < length obs. quiet_since (obs @ [(c, ready)]) j
            \<and> sub_time (win_last c) (win_last (fst (obs ! j))) \<ge> win_minimum c)"
          using mine len later by (meson order_trans)
        moreover have "window_invariant (obs @ [(c, ready)])"
          using Some ready True cont u earliest mine len
          by (auto simp: window_invariant_def advanceIdleWindow_def Let_def nth_append intro!: exI [of _ k])
        ultimately show ?thesis using Some by simp
      next
        case False
        then have only: "quiet_since (obs @ [(c, ready)]) j \<longleftrightarrow> j = length obs" for j by (simp add: quiet_since_snoc ready)
        show ?thesis using Some ready False cont restart only
          by (simp add: window_invariant_def advanceIdleWindow_def)
      qed
    qed
  qed
  then show "window_invariant (obs @ [(c, ready)])"
    and "snd (advanceIdleWindow (fst (window_after obs)) c ready) \<longleftrightarrow> win_minimum c > 0
      \<and> (\<exists>k < length obs. quiet_since (obs @ [(c, ready)]) k \<and> sub_time (win_last c) (win_last (fst (obs ! k))) \<ge> win_minimum c)"
    by simp_all
qed

lemma window_invariant_all: "fresh_windows obs \<Longrightarrow> window_invariant obs"
proof (induction obs rule: rev_induct)
  case (snoc x obs)
  then show ?case using window_step(1) [of obs "fst x" "snd x"] by (auto simp: fresh_windows_def)
qed (simp add: window_invariant_def quiet_since_def)

text \<open>
  C16 (idle_window_exact): an evaluation matures the window exactly when there is a minimum time
  and some earlier evaluation at least that long ago since which every evaluation, that one
  and the last included, found the team quiet, each less than the freshness after the one
  before, with the same lead, the same minimum and the same unmoved members.
\<close>

theorem idle_window_exact:
  assumes "fresh_windows (obs @ [(c, ready)])"
  shows "snd (window_after (obs @ [(c, ready)])) \<longleftrightarrow> win_minimum c > 0
    \<and> (\<exists>k < length obs. quiet_since (obs @ [(c, ready)]) k \<and> sub_time (win_last c) (win_last (fst (obs ! k))) \<ge> win_minimum c)"
proof -
  have "window_invariant obs" by (rule window_invariant_all) (use assms in \<open>simp add: fresh_windows_def\<close>)
  from window_step(2) [OF this assms] show ?thesis by simp
qed

definition demo_window :: "time \<Rightarrow> idle_window" where
  "demo_window t = \<lparr>win_since = t, win_last = t, win_minimum = 15 * second, win_lead = no_member, win_members = []\<rparr>"

theorem idle_window_exact_witness:
  "snd (window_after [(demo_window second, True), (demo_window (11 * second), True), (demo_window (16 * second), True)])
   \<and> \<not> snd (window_after [(demo_window second, True), (demo_window (11 * second), False), (demo_window (16 * second), True)])"
proof -
  let ?w = "\<lambda>n. demo_window (n * second)"
  have fresh: "fresh_windows [(?w 1, True), (?w 11, b), (?w 16, True)]" for b
    by (simp add: fresh_windows_def demo_window_def)
  have two: "(\<exists>k < Suc (Suc 0). P k) \<longleftrightarrow> P 0 \<or> P (Suc 0)" for P by (auto simp: less_Suc_eq)
  have less: "(\<forall>j < Suc (Suc (Suc 0)). P j) \<longleftrightarrow> P 0 \<and> P (Suc 0) \<and> P (Suc (Suc 0))" for P by (auto simp: less_Suc_eq)
  have iff: "snd (window_after [(?w 1, True), (?w 11, b), (?w 16, True)]) \<longleftrightarrow> b" for b
    using idle_window_exact [of "[(?w 1, True), (?w 11, b)]" "?w 16" True] fresh
    by (simp add: two less quiet_since_def unmoved_def demo_window_def sub_time_def statusHookFreshness_def)
  show ?thesis using iff [of True] iff [of False] by simp
qed

section \<open>Notices need activity\<close>

datatype idle_label = Arm time | Reserve idle_notice | Settled envelope_id string

text \<open>Every change of the ledger: activity, a sweep, an outcome, and the publication counters.\<close>

inductive idle_step :: "idle_state \<Rightarrow> idle_label list \<Rightarrow> idle_state \<Rightarrow> bool" where
  activity: "armIdleActivity s a t = Some s' \<Longrightarrow> idle_step s [Arm t] s'"
| sweep: "s1 = swept t lead agents outside s \<Longrightarrow> (ready \<longrightarrow> notice_due s1 outside) \<Longrightarrow>
    observed = advanceIdleWindow previous current ready \<Longrightarrow> sweep_result t draws lead observed s1 = Inr (s', window) \<Longrightarrow>
    idle_step s ((if idle_armed s1 \<and> \<not> idle_armed s then [Arm t] else [])
      @ (if snd observed then [Reserve (the (idle_notice_of s'))] else [])) s'"
| outcome: "settle_idle e result s = Some s' \<Longrightarrow> idle_step s [Settled (env_id e) result] s'"
| counters: "idle_step s [] (s\<lparr>idle_work := x, idle_pending := y\<rparr>)"

inductive idle_run :: "idle_state \<Rightarrow> idle_label list \<Rightarrow> idle_state \<Rightarrow> bool" where
  start: "idle_run s [] s"
| more: "idle_run s tr s1 \<Longrightarrow> idle_step s1 ls s2 \<Longrightarrow> idle_run s (tr @ ls) s2"

text \<open>The notice reserved last and what happened since; whether every reservation was due.\<close>

definition noticed_at :: "idle_notice \<Rightarrow> time" where
  "noticed_at n = env_created_at (ntc_envelope n)"

definition ended :: "string \<Rightarrow> bool" where
  "ended outcome \<longleftrightarrow> outcome \<in> {''delivered'', ''failed'', ''recipient-gone'', ''recipient-changed''}"

definition renewed :: "idle_notice \<Rightarrow> idle_label list \<Rightarrow> bool" where
  "renewed n ls \<longleftrightarrow> (\<exists>t. Arm t \<in> set ls \<and> t > noticed_at n)
     \<and> (\<exists>result. Settled (env_id (ntc_envelope n)) result \<in> set ls \<and> ended result)"

fun watch :: "idle_label \<Rightarrow> (idle_notice \<times> idle_label list) option \<times> bool \<Rightarrow> (idle_notice \<times> idle_label list) option \<times> bool" where
  "watch (Reserve n) (prior, ok) = (Some (n, []), ok \<and> (case prior of None \<Rightarrow> True | Some (m, ls) \<Rightarrow> renewed m ls))"
| "watch l (prior, ok) = (map_option (\<lambda>(m, ls). (m, ls @ [l])) prior, ok)"

definition watched :: "idle_label list \<Rightarrow> (idle_notice \<times> idle_label list) option \<times> bool" where
  "watched tr = fold watch tr (None, True)"

definition since_notice :: "idle_notice \<Rightarrow> idle_label list \<Rightarrow> idle_state \<Rightarrow> bool" where
  "since_notice n ls s \<longleftrightarrow> (\<exists>m. idle_notice_of s = Some m \<and> ntc_envelope m = ntc_envelope n
     \<and> (idle_armed s \<longrightarrow> (\<exists>t. Arm t \<in> set ls \<and> t > noticed_at n))
     \<and> (ntc_outcome m \<noteq> '''' \<longrightarrow> Settled (env_id (ntc_envelope n)) (ntc_outcome m) \<in> set ls))"

definition in_order :: "(idle_notice \<times> idle_label list) option \<times> bool \<Rightarrow> idle_state \<Rightarrow> bool" where
  "in_order = (\<lambda>(prior, ok) s. ok \<and> (case prior of None \<Rightarrow> True | Some (n, ls) \<Rightarrow> since_notice n ls s))"

lemma arm_fields:
  assumes "armIdleActivity s a t = Some s'"
  shows "s' = s\<lparr>idle_armed := True\<rparr>" "idle_notice_of s = Some n \<Longrightarrow> t > noticed_at n"
  using assms by (auto simp: armIdleActivity_def noticed_at_def split: if_splits option.splits)

definition only_armed :: "time \<Rightarrow> idle_state \<Rightarrow> idle_state \<Rightarrow> bool" where
  "only_armed t s s' \<longleftrightarrow> idle_notice_of s' = idle_notice_of s
     \<and> (idle_armed s' \<and> \<not> idle_armed s \<longrightarrow> (\<forall>n. idle_notice_of s = Some n \<longrightarrow> t > noticed_at n))"

lemma fold_arm_busy: "only_armed t s (fold (arm_busy t) agents s)"
proof (induction agents arbitrary: s)
  case (Cons a agents)
  have "only_armed t s (arm_busy t a s)"
    using arm_fields [of s a t] by (auto simp: only_armed_def arm_busy_def split: option.splits)
  then show ?case using Cons.IH [of "arm_busy t a s"] by (auto simp: only_armed_def)
qed (simp add: only_armed_def)

lemma swept_armed: "only_armed t s (swept t lead agents outside s)"
  using fold_arm_busy [of t "advanceIdleEpisode s (idleMember lead 0) (sweep_members s lead agents outside)" agents]
  by (auto simp: only_armed_def swept_def Let_def advanceIdleEpisode_def)

lemma in_order_arm:
  assumes "in_order (prior, ok) s" "only_armed t s s'"
  shows "in_order (watch (Arm t) (prior, ok)) s'"
    and "idle_armed s \<or> \<not> idle_armed s' \<Longrightarrow> in_order (prior, ok) s'"
proof -
  show "in_order (watch (Arm t) (prior, ok)) s'"
  proof (cases prior)
    case (Some nl)
    obtain n ls where nl: "nl = (n, ls)" by (cases nl)
    then obtain m where m: "idle_notice_of s = Some m" "ntc_envelope m = ntc_envelope n"
      "idle_armed s \<longrightarrow> (\<exists>t. Arm t \<in> set ls \<and> t > noticed_at n)"
      "ntc_outcome m \<noteq> '''' \<longrightarrow> Settled (env_id (ntc_envelope n)) (ntc_outcome m) \<in> set ls"
      using assms(1) Some by (auto simp: in_order_def since_notice_def)
    have "noticed_at m = noticed_at n" using m(2) by (simp add: noticed_at_def)
    then have "\<exists>u. Arm u \<in> set (ls @ [Arm t]) \<and> u > noticed_at n" if "idle_armed s'"
      using that m(1,3) assms(2) by (cases "idle_armed s") (auto simp: only_armed_def)
    then show ?thesis using assms Some nl m by (auto simp: in_order_def since_notice_def only_armed_def)
  qed (use assms(1) in \<open>simp add: in_order_def\<close>)
  show "in_order (prior, ok) s'" if "idle_armed s \<or> \<not> idle_armed s'"
    using that assms by (auto simp: in_order_def since_notice_def only_armed_def split: option.splits)
qed

lemma in_order_settled:
  assumes "in_order (prior, ok) s" "settle_idle e result s = Some s'"
  shows "in_order (watch (Settled (env_id e) result) (prior, ok)) s'"
proof -
  obtain m where m: "idle_notice_of s = Some m" "env_id (ntc_envelope m) = env_id e"
    "s' = s\<lparr>idle_notice_of := Some (m\<lparr>ntc_outcome := result\<rparr>)\<rparr>"
    using assms(2) by (auto simp: settle_idle_def split: option.splits if_splits)
  show ?thesis
  proof (cases prior)
    case (Some nl)
    then show ?thesis using assms(1) m by (cases nl) (auto simp: in_order_def since_notice_def)
  qed (use assms(1) in \<open>simp add: in_order_def\<close>)
qed

lemma in_order_reserve:
  assumes "in_order (prior, ok) s" "notice_due s outside" "idle_notice_of s' = Some n" "ntc_outcome n = ''''" "\<not> idle_armed s'"
  shows "in_order (watch (Reserve n) (prior, ok)) s'"
proof -
  have "case prior of None \<Rightarrow> True | Some (m, ls) \<Rightarrow> renewed m ls"
    using assms(1,2) by (auto simp: in_order_def since_notice_def notice_due_def idleNoticeSettled_def renewed_def ended_def
        split: option.splits)
  then show ?thesis using assms by (simp add: in_order_def since_notice_def)
qed

lemma sweep_reserves:
  assumes "sweep_result t draws lead (advanceIdleWindow previous current ready) s = Inr (s', window)"
  shows "if snd (advanceIdleWindow previous current ready)
    then ready \<and> (\<exists>n. idle_notice_of s' = Some n \<and> ntc_outcome n = '''') \<and> \<not> idle_armed s' else s' = s"
  using assms by (auto simp: sweep_result_def advanceIdleWindow_def idle_notice_for_def Let_def
      split: if_splits option.splits sum.splits)

lemma step_in_order: "idle_step s ls s' \<Longrightarrow> in_order w s \<Longrightarrow> in_order (fold watch ls w) s'"
proof (induction rule: idle_step.induct)
  case (activity s a t s')
  have "only_armed t s s'" using arm_fields [OF activity.hyps] by (simp add: only_armed_def)
  then show ?case using in_order_arm(1) [of "fst w" "snd w" s t s'] activity.prems by simp
next
  case (sweep s1 t lead agents outside s ready observed previous current draws s' window)
  have armed: "only_armed t s s1" unfolding sweep.hyps(1) by (rule swept_armed)
  let ?w1 = "fold watch (if idle_armed s1 \<and> \<not> idle_armed s then [Arm t] else []) w"
  have one: "in_order ?w1 s1"
    using in_order_arm [of "fst w" "snd w" s t s1] armed sweep.prems by auto
  have res: "if snd observed then ready \<and> (\<exists>n. idle_notice_of s' = Some n \<and> ntc_outcome n = '''') \<and> \<not> idle_armed s' else s' = s1"
    using sweep_reserves sweep.hyps(3,4) by blast
  show ?case
  proof (cases "snd observed")
    case True
    then obtain n where "ready" "idle_notice_of s' = Some n" "ntc_outcome n = ''''" "\<not> idle_armed s'" using res by auto
    then have "in_order (watch (Reserve n) (fst ?w1, snd ?w1)) s'"
      using in_order_reserve [of "fst ?w1" "snd ?w1" s1] one sweep.hyps(2) by simp
    then show ?thesis using True \<open>idle_notice_of s' = Some n\<close> by simp
  next
    case False
    then show ?thesis using one res by simp
  qed
next
  case (outcome e result s s')
  then show ?case using in_order_settled [of "fst w" "snd w" s e result s'] by simp
next
  case (counters s x y)
  then show ?case by (fastforce simp: in_order_def since_notice_def split: option.splits)
qed

lemma run_in_order: "idle_run s tr s' \<Longrightarrow> in_order (watched tr) s'"
proof (induction rule: idle_run.induct)
  case (more s tr s1 ls s2)
  then show ?case using step_in_order by (simp add: watched_def)
qed (simp add: in_order_def watched_def)

lemma watch_keeps:
  "fold watch ls (Some (n, ks), True) = (Some (n, ks @ ls), True)" if "\<forall>l \<in> set ls. \<forall>m. l \<noteq> Reserve m"
  using that
proof (induction ls arbitrary: ks)
  case (Cons l ls)
  then show ?case by (cases l) auto
qed simp

lemma watch_refused: "\<not> snd w \<Longrightarrow> \<not> snd (fold watch ls w)"
proof (induction ls arbitrary: w)
  case (Cons l ls)
  have "\<not> snd (watch l w)" using Cons.prems by (cases l; cases w) auto
  then show ?case using Cons.IH by simp
qed simp

text \<open>
  C15 (idle_notice_needs_activity): in every run of activity reports, sweeps, outcomes and
  publications, between two successive idle notices a worker was seen active later than the
  first notice was created, and that first notice was delivered, failed or lost its
  recipient: one quiet period is reported once, and no open notice is replaced.
\<close>

theorem idle_notice_needs_activity:
  assumes "idle_run s (xs @ Reserve n # ls @ Reserve n' # zs) s'" "\<forall>l \<in> set ls. \<forall>m. l \<noteq> Reserve m"
  shows "(\<exists>t. Arm t \<in> set ls \<and> t > noticed_at n)
    \<and> (\<exists>result. Settled (env_id (ntc_envelope n)) result \<in> set ls \<and> ended result)"
proof -
  let ?w = "fold watch xs (None, True)"
  have ok: "snd (watched (xs @ Reserve n # ls @ Reserve n' # zs))"
    using run_in_order [OF assms(1)] by (simp add: in_order_def split_beta)
  then have "snd ?w" using watch_refused [of ?w "Reserve n # ls @ Reserve n' # zs"] by (auto simp: watched_def)
  then have "watch (Reserve n) ?w = (Some (n, []), True) \<or> \<not> snd (watch (Reserve n) ?w)"
    by (cases ?w) (auto split: option.splits)
  moreover have "snd (watch (Reserve n) ?w)"
    using ok watch_refused [of "watch (Reserve n) ?w" "ls @ Reserve n' # zs"] by (auto simp: watched_def)
  ultimately have "fold watch (xs @ Reserve n # ls) (None, True) = (Some (n, ls), True)"
    using watch_keeps [OF assms(2), of n "[]"] by simp
  then have "snd (fold watch zs (watch (Reserve n') (Some (n, ls), True)))" using ok by (simp add: watched_def)
  then have "snd (watch (Reserve n') (Some (n, ls), True))" using watch_refused by blast
  then show ?thesis by (simp add: renewed_def)
qed

text \<open>A run with two notices: quiet, delivered, active again, quiet again.\<close>

definition demo_boss :: agent where
  "demo_boss = blank_agent\<lparr>ag_id := ''h1'', ag_name := ''ann'', ag_role := ''lead'', ag_status := Active\<rparr>"

definition demo_worker :: agent where
  "demo_worker = blank_agent\<lparr>ag_id := ''h2'', ag_name := ''bob'', ag_status := Active, ag_activity := Idle\<rparr>"

definition demo_idle :: "bool \<Rightarrow> idle_notice option \<Rightarrow> idle_state" where
  "demo_idle armed n = no_idle\<lparr>idle_initialized := True, idle_lead := idleMember demo_boss 0,
     idle_members := [idleMember demo_worker 0], idle_armed := armed, idle_notice_of := n\<rparr>"

lemma demo_idle_simps [simp]:
  "idle_notice_of (demo_idle armed n) = n" "idle_armed (demo_idle armed n) = armed"
  "idle_members (demo_idle armed n) = [idleMember demo_worker 0]" "idle_initialized (demo_idle armed n)"
  "(demo_idle armed n)\<lparr>idle_armed := b\<rparr> = demo_idle b n" "(demo_idle armed n)\<lparr>idle_notice_of := m\<rparr> = demo_idle armed m"
  "(demo_idle armed n)\<lparr>idle_notice_of := m, idle_armed := b\<rparr> = demo_idle b m"
  by (simp_all add: demo_idle_def no_idle_def)

definition demo_notice :: "time \<Rightarrow> idle_notice" where
  "demo_notice t = idle_notice_for demo_boss [idleMember demo_worker 0] second t (''team-idle-1f'', ''2e'')"

lemma demo_swept: "swept t demo_boss [demo_boss, demo_worker] [] (demo_idle True n) = demo_idle True n"
  by (simp add: swept_def advanceIdleEpisode_def arm_busy_def sweep_members_def sameIdleIdentity_def demo_idle_def no_idle_def
      work_of_def demo_boss_def demo_worker_def blank_agent_def idleMember_def)

lemma demo_reserve:
  assumes "idleNoticeSettled n"
  shows "idle_step (demo_idle True n) [Reserve (demo_notice t)] (demo_idle False (Some (demo_notice t)))"
proof -
  let ?obs = "advanceIdleWindow (Some (demo_window second)) (demo_window (17 * second)) True"
  have obs: "?obs = (Some ((demo_window (17 * second))\<lparr>win_since := second\<rparr>), True)"
    by (simp add: advanceIdleWindow_def continues_window_def demo_window_def sub_time_def statusHookFreshness_def)
  have since: "win_since ((demo_window (17 * second))\<lparr>win_since := second\<rparr>) = second" by simp
  have "sweep_result t (\<lambda>_. (Inr ''1f'', Inr ''2e'')) demo_boss ?obs (demo_idle True n)
      = Inr (demo_idle False (Some (demo_notice t)), None)"
    unfolding obs by (simp add: sweep_result_def fresh_ids_def randomID_def demo_notice_def)
  from sweep [OF demo_swept [symmetric] _ refl this] assms obs show ?thesis
    by (simp add: notice_due_def)
qed

lemma demo_settle_notice:
  "idle_step (demo_idle False (Some (demo_notice t))) [Settled ''team-idle-1f'' ''delivered'']
    (demo_idle False (Some ((demo_notice t)\<lparr>ntc_outcome := ''delivered''\<rparr>)))"
proof -
  have "settle_idle (ntc_envelope (demo_notice t)) ''delivered'' (demo_idle False (Some (demo_notice t)))
      = Some (demo_idle False (Some ((demo_notice t)\<lparr>ntc_outcome := ''delivered''\<rparr>)))"
    by (simp add: settle_idle_def)
  from outcome [OF this] show ?thesis by (simp add: demo_notice_def idle_notice_for_def blank_envelope_def)
qed

lemma demo_arm:
  assumes "t > noticed_at n" "t \<noteq> zero_time"
  shows "idle_step (demo_idle False (Some n)) [Arm t] (demo_idle True (Some n))"
proof (rule activity)
  show "armIdleActivity (demo_idle False (Some n)) demo_worker t = Some (demo_idle True (Some n))"
    using assms by (simp add: armIdleActivity_def noticed_at_def sameIdleIdentity_def)
      (simp add: demo_idle_def no_idle_def idleMember_def demo_worker_def demo_boss_def blank_agent_def)
qed

theorem idle_notice_needs_activity_witness:
  "let n = demo_notice (17 * second); ls = [Settled ''team-idle-1f'' ''delivered'', Arm (20 * second)] in
   idle_run (demo_idle True None) (Reserve n # ls @ [Reserve (demo_notice (40 * second))])
     (demo_idle False (Some (demo_notice (40 * second))))
   \<and> (\<exists>t. Arm t \<in> set ls \<and> t > noticed_at n)"
proof -
  let ?n = "demo_notice (17 * second)" and ?m = "demo_notice (40 * second)"
  let ?d = "?n\<lparr>ntc_outcome := ''delivered''\<rparr>"
  have "noticed_at ?d < 20 * second" by (simp add: noticed_at_def demo_notice_def idle_notice_for_def)
  then have arm: "idle_step (demo_idle False (Some ?d)) [Arm (20 * second)] (demo_idle True (Some ?d))"
    by (intro demo_arm) simp_all
  have again: "idle_step (demo_idle True (Some ?d)) [Reserve ?m] (demo_idle False (Some ?m))"
    by (rule demo_reserve) (simp add: idleNoticeSettled_def)
  have first: "idle_step (demo_idle True None) [Reserve ?n] (demo_idle False (Some ?n))"
    by (rule demo_reserve) (simp add: idleNoticeSettled_def)
  from more [OF more [OF more [OF more [OF start first] demo_settle_notice] arm] again]
  have run: "idle_run (demo_idle True None) ([] @ Reserve ?n # [Settled ''team-idle-1f'' ''delivered'', Arm (20 * second)] @ Reserve ?m # [])
      (demo_idle False (Some ?m))"
    by simp
  from idle_notice_needs_activity [OF this] run show ?thesis by (simp add: Let_def)
qed

end
