(* ===== verification/Idle_Disk.thy ===== *)
theory Idle_Disk
  imports Idle_Runs
begin

text \<open>
  The idle notice on disk: every write of the ledger is a step of the machine \<^theory_text>\<open>idle_step\<close>,
  whatever fails, and a notice is reserved only over files in which every worker is quiet.
\<close>

section \<open>Reading the ledger moves only its counters\<close>

definition counters_only :: "idle_state \<Rightarrow> idle_state \<Rightarrow> bool" where
  "counters_only s s' \<longleftrightarrow> (\<exists>x y. s' = s\<lparr>idle_work := x, idle_pending := y\<rparr>)"

lemma counters_only_refl [simp]: "counters_only s s"
  unfolding counters_only_def by (rule exI [of _ "idle_work s"], rule exI [of _ "idle_pending s"]) simp

lemma counters_only_trans: "counters_only s s1 \<Longrightarrow> counters_only s1 s2 \<Longrightarrow> counters_only s s2"
  by (fastforce simp: counters_only_def)

lemma counters_only_upd [simp]:
  "counters_only s (s1\<lparr>idle_pending := y\<rparr>) = counters_only s s1" "counters_only s (s1\<lparr>idle_work := x\<rparr>) = counters_only s s1"
  "counters_only s (add_work s1 i) = counters_only s s1"
  by (cases s; cases s1; simp add: counters_only_def add_work_def)+

lemma counters_run: "counters_only s s' \<Longrightarrow> idle_run s [] s'"
  using more [OF start counters] by (fastforce simp: counters_only_def)

lemma ledger_put [simp]: "ledger p (put (idle_file p) (File (CIdle s)) w) = s"
  by (simp add: ledger_def)

definition read_ledger :: "team_paths \<Rightarrow> world \<Rightarrow> world \<Rightarrow> bool" where
  "read_ledger p w w' \<longleftrightarrow> changed_only {idle_file p} w w' \<and> counters_only (ledger p w) (ledger p w')"

lemma read_ledger_simps [simp]:
  "read_ledger p w w" "read_ledger p w (w'\<lparr>faults := bs\<rparr>) = read_ledger p w w'"
  "read_ledger p (w\<lparr>faults := bs\<rparr>) w' = read_ledger p w w'"
  by (simp_all add: read_ledger_def)

lemma read_ledger_put:
  "read_ledger p w w' \<Longrightarrow> counters_only (ledger p w) s \<Longrightarrow> read_ledger p w (put (idle_file p) (File (CIdle s)) w')"
  by (simp add: read_ledger_def changed_only_put)

lemma wp_resolve_counters:
  assumes "\<And>s' w'. read_ledger p w w' \<Longrightarrow> ledger p w' = s' \<Longrightarrow> Q s' w'" "\<And>e w'. read_ledger p w w' \<Longrightarrow> E e w'"
  shows "wp (resolve_pending p (ledger p w)) Q E w"
proof (cases "idle_pending (ledger p w)")
  case None
  then show ?thesis using assms(1) [of w "ledger p w"] by (simp add: resolve_pending_def)
next
  case (Some pub)
  show ?thesis
    unfolding resolve_pending_def Some option.case wp_simps Let_def
    by (intro wp_Agent wp_count_pending wp_IdleSave) (auto intro!: assms read_ledger_put)
qed

lemma wp_keep_work_quiet:
  assumes "\<And>kept bs. Q kept (w\<lparr>faults := bs\<rparr>)" "\<And>bs e. E e (w\<lparr>faults := bs\<rparr>)"
  shows "wp (collect (keep_work p) xs) Q E w"
  by (rule wp_keep_work) (rule assms)+

lemma wp_IdleRead_counters:
  assumes "\<And>s w'. read_ledger p w w' \<Longrightarrow> ledger p w' = s \<Longrightarrow> Q s w'" "\<And>e w'. read_ledger p w w' \<Longrightarrow> E e w'"
  shows "wp (IdleRead p) Q E w"
proof -
  let ?prune = "\<lambda>s. and_then (collect (keep_work p) (idle_work s)) (\<lambda>kept.
       if kept = idle_work s then ret s
       else let s' = s\<lparr>idle_work := kept\<rparr> in and_then (IdleSave p s') (\<lambda>_. ret s'))"
  have prune: "wp (?prune (ledger p v)) Q E v" if v: "read_ledger p w v" for v
    unfolding wp_simps Let_def
  proof (rule wp_keep_work_quiet, goal_cases)
    case (1 kept bs)
    have only: "counters_only (ledger p w) (ledger p v)" using v by (simp add: read_ledger_def)
    have "wp (IdleSave p ((ledger p v)\<lparr>idle_work := kept\<rparr>)) (\<lambda>_. Q ((ledger p v)\<lparr>idle_work := kept\<rparr>)) E (v\<lparr>faults := bs\<rparr>)"
      by (rule wp_IdleSave [where Q = "\<lambda>_. Q ((ledger p v)\<lparr>idle_work := kept\<rparr>)"])
        (auto intro!: assms read_ledger_put simp: v only)
    then show ?case using assms(1) [of "v\<lparr>faults := bs\<rparr>" "ledger p v"] v by simp
  qed (use v in \<open>auto intro: assms(2)\<close>)
  have resolve: "wp (resolve_pending p s) (\<lambda>s. wp (?prune s) Q E) E (w\<lparr>faults := bs\<rparr>)" if "s = ledger p w" for s bs
  proof -
    have "wp (resolve_pending p (ledger p (w\<lparr>faults := bs\<rparr>))) (\<lambda>s. wp (?prune s) Q E) E (w\<lparr>faults := bs\<rparr>)"
    proof (rule wp_resolve_counters, goal_cases)
      case (1 s' v)
      then have "read_ledger p w v" "ledger p v = s'" by simp_all
      from prune [OF this(1), unfolded this(2)] show ?case .
    next
      case (2 e v)
      then show ?case by (intro assms(2)) simp
    qed
    then show ?thesis using that by simp
  qed
  show ?thesis
    unfolding IdleRead_def wp_partial
  proof (rule wp_readJSON, goal_cases)
    case (1 bs c s)
    have "ledger p w = s" using 1 by (cases c) (simp_all add: as_idle_def ledger_def)
    then show ?case using resolve [of s bs, OF sym] by simp
  next
    case (2 bs e)
    show ?case
    proof (cases "errors_is e NotExist")
      case True
      then have "no_idle = ledger p w" using 2 by (simp add: ledger_def)
      from resolve [OF this, of bs] True show ?thesis by simp
    next
      case False
      then show ?thesis using assms(2) [of "w\<lparr>faults := bs\<rparr>"] by simp
    qed
  qed
qed

section \<open>Writing the ledger\<close>

text \<open>The files other than the ledger, its lock and its window are untouched.\<close>

definition idle_only :: "team_paths \<Rightarrow> world \<Rightarrow> world \<Rightarrow> bool" where
  "idle_only p w w' \<longleftrightarrow> changed_only {idle_lock p, idle_file p, window_file p} w w'"

lemma window_paths [simp]: "window_file p \<noteq> idle_file p" "idle_file p \<noteq> window_file p"
  "idle_lock p \<noteq> idle_file p" "idle_file p \<noteq> idle_lock p"
  by (simp_all add: window_file_def idle_file_def idle_lock_def)

lemma wp_SaveWindow:
  assumes "\<And>r w'. changed_only {window_file p} w w' \<Longrightarrow> ledger p w' = ledger p w \<Longrightarrow> R r w'"
  shows "wp (SaveWindow p window) (\<lambda>x. R (Inr x)) (\<lambda>e. R (Inl e)) w"
proof -
  have "R (Inl e) w" for e by (rule assms) simp_all
  moreover have ledger: "ledger p (put (window_file p) n v) = ledger p v" "ledger p (del (window_file p) v) = ledger p v" for n v
    by (simp_all add: ledger_def)
  have "wp (removeIfPresent (window_file p)) (\<lambda>x. R (Inr x)) (\<lambda>e. R (Inl e)) w"
    by (rule wp_removeIfPresent) (auto intro!: assms changed_only_del simp: ledger)
  moreover have "wp (atomicJSON (window_file p) c) (\<lambda>x. R (Inr x)) (\<lambda>e. R (Inl e)) w" for c
    by (rule wp_atomicJSON) (auto intro!: assms changed_only_put simp: ledger)
  ultimately show ?thesis by (simp add: SaveWindow_def split: option.split)
qed

lemma wp_locking_idle:
  assumes "\<And>v. changed_only {idle_lock p} w v \<Longrightarrow> ledger p v = ledger p w \<Longrightarrow>
      wp body (\<lambda>x. R (Inr x)) (\<lambda>e. R (Inl e)) v"
    and "\<And>e v. changed_only {idle_lock p} w v \<Longrightarrow> ledger p v = ledger p w \<Longrightarrow> R (Inl e) v"
    and "\<And>r v hs bs. R r v \<Longrightarrow> R r (v\<lparr>held := hs, faults := bs\<rparr>)"
  shows "wp (locking_idle p body) (\<lambda>x. R (Inr x)) (\<lambda>e. R (Inl e)) w"
proof -
  have lifted: "wp (lift r) (\<lambda>x. R (Inr x)) (\<lambda>e. R (Inl e)) v \<longleftrightarrow> R r v" for r v by (cases r) simp_all
  have close: "wp (IdleClose p) (\<lambda>_. wp (lift r) (\<lambda>x. R (Inr x)) (\<lambda>e. R (Inl e)))
      (\<lambda>_. wp (lift r) (\<lambda>x. R (Inr x)) (\<lambda>e. R (Inl e))) v" if "R r v" for r v
    by (rule wp_IdleClose) (simp_all only: lifted assms(3) [OF that])
  have same: "changed_only {idle_lock p} w v \<Longrightarrow> ledger p v = ledger p w" for v
    by (simp add: ledger_def changed_only_def)
  show ?thesis
    unfolding locking_idle_def wp_simps(5) wp_attempt
  proof (rule wp_LockIdle, goal_cases)
    case (1 v)
    show ?case by (rule wp_mono [OF assms(1) [OF 1(1) same [OF 1(1)]]]) (rule close, assumption)+
  next
    case (2 e v)
    show ?case by (rule assms(2) [OF 2(1) same [OF 2(1)]])
  qed
qed

text \<open>The ledger afterwards is reached by a run of the machine.\<close>

definition ledger_runs :: "team_paths \<Rightarrow> world \<Rightarrow> world \<Rightarrow> bool" where
  "ledger_runs p w w' \<longleftrightarrow> idle_only p w w' \<and> (\<exists>tr. idle_run (ledger p w) tr (ledger p w'))"

lemma ledger_runs_simps [simp]:
  "ledger_runs p w (w'\<lparr>faults := bs\<rparr>) = ledger_runs p w w'" "ledger_runs p w (w'\<lparr>held := hs\<rparr>) = ledger_runs p w w'"
  by (simp_all add: ledger_runs_def idle_only_def)

lemma ledger_runs_read:
  assumes "changed_only {idle_lock p} w v" "ledger p v = ledger p w" "read_ledger p v u"
  shows "ledger_runs p w u"
proof -
  have "idle_only p w u" using assms(1,3) by (auto simp: idle_only_def read_ledger_def intro: changed_only_trans)
  moreover have "idle_run (ledger p w) [] (ledger p u)"
    using assms(2,3) counters_run by (simp add: read_ledger_def)
  ultimately show ?thesis by (auto simp: ledger_runs_def)
qed

lemma ledger_runs_step:
  assumes "ledger_runs p w u" "idle_step (ledger p u) ls s"
  shows "ledger_runs p w (put (idle_file p) (File (CIdle s)) u)"
proof -
  obtain tr where "idle_run (ledger p w) tr (ledger p u)" using assms(1) by (auto simp: ledger_runs_def)
  from more [OF this assms(2)] show ?thesis
    using assms(1) by (auto simp: ledger_runs_def idle_only_def intro: changed_only_put)
qed

lemma ledger_runs_window:
  assumes "ledger_runs p w u" "changed_only {window_file p} u v" "ledger p v = ledger p u"
  shows "ledger_runs p w v"
  using assms by (auto simp: ledger_runs_def idle_only_def intro: changed_only_trans)

lemma wp_save_step:
  assumes "ledger_runs p w u" "idle_step (ledger p u) ls s"
    and "\<And>r v. ledger_runs p w v \<Longrightarrow> R r v"
  shows "wp (IdleSave p s) (\<lambda>x. R (Inr x)) (\<lambda>e. R (Inl e)) u"
  by (rule wp_IdleSave) (auto intro!: assms(3) ledger_runs_step [OF assms(1,2)] simp: assms(1))

lemma wp_noteIdleActivity: "wp (noteIdleActivity p a t) (\<lambda>_. ledger_runs p w) (\<lambda>_. ledger_runs p w) w"
  unfolding noteIdleActivity_def
proof (rule wp_locking_idle [where R = "\<lambda>_. ledger_runs p w"])
  fix v assume v: "changed_only {idle_lock p} w v" "ledger p v = ledger p w"
  show "wp (and_then (IdleRead p) (\<lambda>s. case armIdleActivity s a t of
      None \<Rightarrow> ret () | Some s' \<Rightarrow> and_then (SaveWindow p None) (\<lambda>_. IdleSave p s')))
    (\<lambda>_. ledger_runs p w) (\<lambda>_. ledger_runs p w) v"
    unfolding wp_simps
  proof (rule wp_IdleRead_counters, goal_cases)
    case (1 s u)
    have u: "ledger_runs p w u" by (rule ledger_runs_read [OF v 1(1)])
    show ?case
    proof (cases "armIdleActivity s a t")
      case (Some s')
      have "wp (SaveWindow p None) (\<lambda>_. wp (IdleSave p s') (\<lambda>_. ledger_runs p w) (\<lambda>_. ledger_runs p w)) (\<lambda>_. ledger_runs p w) u"
      proof (rule wp_SaveWindow [where R = "\<lambda>r. case r of Inl _ \<Rightarrow> ledger_runs p w
          | Inr _ \<Rightarrow> wp (IdleSave p s') (\<lambda>_. ledger_runs p w) (\<lambda>_. ledger_runs p w)", unfolded sum.case], goal_cases)
        case (1 r x)
        have x: "ledger_runs p w x" by (rule ledger_runs_window [OF u 1])
        have "idle_step (ledger p x) [Arm t] s'"
          using activity [OF Some] 1(2) \<open>ledger p u = s\<close> by simp
        from wp_save_step [OF x this, where R = "\<lambda>_. ledger_runs p w"] x show ?case by (cases r) simp_all
      qed
      then show ?thesis using Some by simp
    qed (simp add: u)
  qed (rule ledger_runs_read [OF v])
qed (use start in \<open>auto simp: ledger_runs_def idle_only_def intro: changed_only_mono\<close>)

lemma wp_settleIdleNotice: "wp (settleIdleNotice p e result) (\<lambda>_. ledger_runs p w) (\<lambda>_. ledger_runs p w) w"
proof (cases "is_idle_notice e")
  case True
  have "wp (locking_idle p (and_then (IdleRead p) (\<lambda>s. case settle_idle e result s of None \<Rightarrow> ret () | Some s' \<Rightarrow> IdleSave p s')))
      (\<lambda>_. ledger_runs p w) (\<lambda>_. ledger_runs p w) w"
  proof (rule wp_locking_idle [where R = "\<lambda>_. ledger_runs p w"])
    fix v assume v: "changed_only {idle_lock p} w v" "ledger p v = ledger p w"
    show "wp (and_then (IdleRead p) (\<lambda>s. case settle_idle e result s of None \<Rightarrow> ret () | Some s' \<Rightarrow> IdleSave p s'))
        (\<lambda>_. ledger_runs p w) (\<lambda>_. ledger_runs p w) v"
      unfolding wp_simps
    proof (rule wp_IdleRead_counters, goal_cases)
      case (1 s u)
      have u: "ledger_runs p w u" by (rule ledger_runs_read [OF v 1(1)])
      show ?case
      proof (cases "settle_idle e result s")
        case (Some s')
        have "idle_step (ledger p u) [Settled (env_id e) result] s'" using outcome [OF Some] 1(2) by simp
        from wp_save_step [OF u this, where R = "\<lambda>_. ledger_runs p w"] Some show ?thesis by simp
      qed (simp add: u)
    qed (rule ledger_runs_read [OF v])
  qed (use start in \<open>auto simp: ledger_runs_def idle_only_def intro: changed_only_mono\<close>)
  then show ?thesis using True by (simp add: settleIdleNotice_def)
next
  case False
  have "ledger_runs p w w" using start by (auto simp: ledger_runs_def idle_only_def)
  then show ?thesis using False by (simp add: settleIdleNotice_def)
qed

section \<open>A sweep\<close>

definition hooks_in :: "agent_paths \<Rightarrow> world \<Rightarrow> status_hook list" where
  "hooks_in p w = (case lookup w (side_file p ''status-hooks'') of Some (File (CHooks hs)) \<Rightarrow> hs | _ \<Rightarrow> [])"

text \<open>What the files say of a worker with nothing to do and nothing in flight.\<close>

definition quiet_worker :: "time \<Rightarrow> agent_paths \<times> agent \<Rightarrow> world \<Rightarrow> bool" where
  "quiet_worker t = (\<lambda>(p, a) w. idleObservation a t \<and> lookup w (ap_permission p) = None
     \<and> (\<forall>h \<in> set (hooks_in p w). sh_sequence h \<le> nat_hook_sequence (ag_native a))
     \<and> ag_last_accepted a = ''''
     \<and> (ag_last_failed a \<noteq> '''' \<longrightarrow> (\<exists>e. stored_envelope p w ''failed'' (ag_last_failed a) e \<and> env_outcome e \<noteq> ''unverified''))
     \<and> (\<forall>e \<in> envelopes_in w (ap_inbox p @ [''new'']). env_outcome e = '''' \<and> env_not_before e > t))"

lemma quiet_worker_cong: "lookup w' = lookup w \<Longrightarrow> quiet_worker t x w' = quiet_worker t x w"
  by (simp add: quiet_worker_def hooks_in_def stored_envelope_def envelopes_in_def split_beta)

lemma wp_ReadPermissionWitness:
  assumes "\<And>x bs. (x = None \<Longrightarrow> lookup w (ap_permission p) = None) \<Longrightarrow> Q x (w\<lparr>faults := bs\<rparr>)" "\<And>bs e. E e (w\<lparr>faults := bs\<rparr>)"
  shows "wp (ReadPermissionWitness p) Q E w"
  unfolding ReadPermissionWitness_def wp_simps wp_attempt
  by (rule wp_readJSON) (auto intro!: assms)

lemma wp_ReadStatusHooks:
  assumes "\<And>bs. Q (hooks_in p w) (w\<lparr>faults := bs\<rparr>)" "\<And>bs e. E e (w\<lparr>faults := bs\<rparr>)"
  shows "wp (ReadStatusHooks p) Q E w"
proof -
  have hooks: "hooks_in p w = hs" if "lookup w (side_file p ''status-hooks'') = Some (File c)" "as_hooks c = Some hs" for c hs
    using that by (cases c) (simp_all add: hooks_in_def as_hooks_def)
  have none: "hooks_in p w = []" if "lookup w (side_file p ''status-hooks'') = None" using that by (simp add: hooks_in_def)
  show ?thesis
    unfolding ReadStatusHooks_def wp_simps wp_attempt
  proof (rule wp_readJSON, goal_cases)
    case (1 bs c x)
    then show ?case using assms(1) [of bs] hooks by simp
  next
    case (2 bs e)
    then show ?case using assms(1) [of bs] assms(2) [of e bs] none by (cases "errors_is e NotExist") simp_all
  qed
qed

lemma wp_receipt_certain:
  assumes "\<And>b bs. (b \<Longrightarrow> ag_last_failed a \<noteq> '''' \<Longrightarrow> \<exists>e. stored_envelope p w ''failed'' (ag_last_failed a) e \<and> env_outcome e \<noteq> ''unverified'') \<Longrightarrow>
      Q b (w\<lparr>faults := bs\<rparr>)" "\<And>bs e. E e (w\<lparr>faults := bs\<rparr>)"
  shows "wp (receipt_certain p a) Q E w"
proof (cases "ag_last_failed a = ''''")
  case True
  then show ?thesis using assms(1) [of True "faults w"] by (simp add: receipt_certain_def)
next
  case False
  have "wp (ReadEnvelope p ''failed'' (ag_last_failed a)) (\<lambda>e. Q (env_outcome e \<noteq> ''unverified'')) E w"
    by (rule wp_ReadEnvelope) (auto intro!: assms)
  then show ?thesis using False by (simp add: receipt_certain_def)
qed

lemma unchanged_lookup: "changed_only {} w v \<Longrightarrow> lookup v = lookup w"
  by (simp add: changed_only_def fun_eq_iff)

lemma read_entry_unchanged:
  "changed_only {} w u \<Longrightarrow> wp (read_entry d x) (\<lambda>_. changed_only {} w) (\<lambda>_. changed_only {} w) u"
proof -
  assume u: "changed_only {} w u"
  obtain n b where x: "x = (n, b)" by (cases x)
  have "wp (readJSON as_envelope (d @ [n]))
      (\<lambda>e. wp (if n \<noteq> env_id e @ ''.json'' then raise (Fail m) else ret (Some e))
        (\<lambda>_. changed_only {} w) (\<lambda>_. changed_only {} w))
      (\<lambda>e. wp (if errors_is e NotExist then ret None else raise e)
        (\<lambda>_. changed_only {} w) (\<lambda>_. changed_only {} w)) u" for m
    by (rule wp_readJSON) (simp_all add: u)
  then show ?thesis by (cases b) (simp_all add: x read_entry_def wp_partial u)
qed

lemma wp_ListNew_unchanged:
  assumes "\<And>es w'. set es = envelopes_in w (ap_inbox p @ [''new'']) \<Longrightarrow> changed_only {} w w' \<Longrightarrow> Q es w'"
    and "\<And>e w'. changed_only {} w w' \<Longrightarrow> E e w'"
  shows "wp (ListNew p) Q E w"
proof (rule wpI)
  have pure: "wp (ListNew p) (\<lambda>_. changed_only {} w) (\<lambda>_. changed_only {} w) w"
    unfolding ListNew_def list_dir_def Let_def wp_simps
    by (rule wp_os_read_dir, rule wp_collect [where I = "changed_only {} w"], rule read_entry_unchanged) simp_all
  show "Q es w'" if "ListNew p w = (Inr es, w')" for es w'
    using assms(1) ListNew_exact [OF that] wp_okD [OF pure that] by blast
  show "E e w'" if "ListNew p w = (Inl e, w')" for e w'
    by (rule assms(2)) (rule wp_errD [OF pure that])
qed

lemma wp_worker_ready:
  assumes "\<And>b w'. changed_only {} w w' \<Longrightarrow> (b \<Longrightarrow> quiet_worker t x w) \<Longrightarrow> Q b w'"
    and "\<And>e w'. changed_only {} w w' \<Longrightarrow> E e w'"
  shows "wp (worker_ready t x) Q E w"
proof -
  obtain p a where x: "x = (p, a)" by (cases x)
  let ?verdict = "\<lambda>permission hooks certain pending. idleObservation a t \<and> permission = None
       \<and> list_all (\<lambda>h. sh_sequence h \<le> nat_hook_sequence (ag_native a)) hooks
       \<and> ag_last_accepted a = '''' \<and> certain \<and> list_all (\<lambda>e. env_outcome e = '''' \<and> env_not_before e > t) pending"
  let ?certain = "ag_last_failed a \<noteq> '''' \<longrightarrow> (\<exists>e. stored_envelope p w ''failed'' (ag_last_failed a) e \<and> env_outcome e \<noteq> ''unverified'')"
  let ?asked = "lookup w (ap_permission p) = None"
  have listed: "wp (ListNew p) (\<lambda>pending. Q (?verdict permission (hooks_in p w) certain pending)) E v"
    if v: "changed_only {} w v" and perm: "permission = None \<longrightarrow> ?asked" and cert: "certain \<longrightarrow> ?certain" for v permission certain
  proof (rule wp_ListNew_unchanged)
    fix es u assume u: "set es = envelopes_in v (ap_inbox p @ [''new''])" "changed_only {} v u"
    have "set es = envelopes_in w (ap_inbox p @ [''new''])" using u(1) unchanged_lookup [OF v] by (simp add: envelopes_in_def)
    moreover have "changed_only {} w u" using changed_only_trans [OF v u(2)] by simp
    ultimately show "Q (?verdict permission (hooks_in p w) certain es) u"
      by (intro assms(1)) (use perm cert in \<open>auto simp: x quiet_worker_def list_all_iff\<close>)
  next
    fix e u assume "changed_only {} v u"
    from changed_only_trans [OF v this] show "E e u" by (intro assms(2)) simp
  qed
  have certain: "wp (receipt_certain p a) (\<lambda>certain. wp (ListNew p) (\<lambda>pending. Q (?verdict permission (hooks_in p w) certain pending)) E) E v"
    if v: "changed_only {} w v" and perm: "permission = None \<longrightarrow> ?asked" for v permission
  proof (rule wp_receipt_certain)
    fix b bs assume "b \<Longrightarrow> ag_last_failed a \<noteq> '''' \<Longrightarrow> \<exists>e. stored_envelope p v ''failed'' (ag_last_failed a) e \<and> env_outcome e \<noteq> ''unverified''"
    then have "b \<longrightarrow> ?certain" using unchanged_lookup [OF v] by (simp add: stored_envelope_def)
    then show "wp (ListNew p) (\<lambda>pending. Q (?verdict permission (hooks_in p w) b pending)) E (v\<lparr>faults := bs\<rparr>)"
      by (intro listed perm) (simp_all add: v)
  qed (use v in \<open>auto intro: assms(2)\<close>)
  have hooks: "wp (ReadStatusHooks p) (\<lambda>hooks. wp (receipt_certain p a) (\<lambda>certain. wp (ListNew p)
      (\<lambda>pending. Q (?verdict permission hooks certain pending)) E) E) E v"
    if v: "changed_only {} w v" and perm: "permission = None \<longrightarrow> ?asked" for v permission
  proof (rule wp_ReadStatusHooks)
    fix bs
    have "hooks_in p v = hooks_in p w" using unchanged_lookup [OF v] by (simp add: hooks_in_def)
    then show "wp (receipt_certain p a) (\<lambda>certain. wp (ListNew p)
        (\<lambda>pending. Q (?verdict permission (hooks_in p v) certain pending)) E) E (v\<lparr>faults := bs\<rparr>)"
      using certain [OF _ perm, of "v\<lparr>faults := bs\<rparr>"] v by simp
  qed (use v in \<open>auto intro: assms(2)\<close>)
  have "wp (ReadPermissionWitness p) (\<lambda>permission. wp (ReadStatusHooks p) (\<lambda>hooks. wp (receipt_certain p a) (\<lambda>certain. wp (ListNew p)
      (\<lambda>pending. Q (?verdict permission hooks certain pending)) E) E) E) E w"
    by (rule wp_ReadPermissionWitness) (auto intro!: hooks assms(2))
  then show ?thesis unfolding worker_ready_def x prod.case wp_simps .
qed

lemma wp_workers_ready:
  assumes "\<And>b w'. changed_only {} w w' \<Longrightarrow> (b \<Longrightarrow> \<forall>x \<in> set xs. quiet_worker t x w) \<Longrightarrow> Q b w'"
    and "\<And>e w'. changed_only {} w w' \<Longrightarrow> E e w'"
  shows "wp (workers_ready t xs) Q E w"
  using assms
proof (induction xs arbitrary: w Q)
  case (Cons x xs)
  show ?case
    unfolding workers_ready.simps wp_simps
  proof (rule wp_worker_ready, goal_cases)
    case (1 b v)
    note first = this
    have same: "quiet_worker t y v = quiet_worker t y w" for y
      by (rule quiet_worker_cong) (rule unchanged_lookup [OF 1(1)])
    show ?case
    proof (rule Cons.IH, goal_cases)
      case (1 u c)
      have "changed_only {} w u" using changed_only_trans [OF first(1) 1(1)] by simp
      then show ?case by (rule Cons.prems(1)) (use 1(2) first(2) same in auto)
    next
      case (2 u e)
      have "changed_only {} w u" using changed_only_trans [OF first(1) 2] by simp
      then show ?case by (rule Cons.prems(2))
    qed
  qed (rule Cons.prems(2))
qed simp

text \<open>The verdict under which a notice may be reserved.\<close>

definition quiet_team :: "time \<Rightarrow> agent \<Rightarrow> outside_registration list \<Rightarrow> usage_state \<Rightarrow> (agent_paths \<times> agent) list \<Rightarrow> world \<Rightarrow> bool" where
  "quiet_team t lead outside usage locked v \<longleftrightarrow> outside = [] \<and> usage_quiet (ag_id lead) (map (ag_id \<circ> snd) locked) t usage
     \<and> (\<forall>x \<in> set locked. ag_id (snd x) \<noteq> ag_id lead \<longrightarrow> quiet_worker t x v)"

definition swept_run :: "team_paths \<Rightarrow> (world \<Rightarrow> bool) \<Rightarrow> world \<Rightarrow> world \<Rightarrow> bool" where
  "swept_run p calm w w' \<longleftrightarrow> idle_only p w w' \<and> (\<exists>tr. idle_run (ledger p w) tr (ledger p w')
     \<and> ((\<exists>n. Reserve n \<in> set tr) \<longrightarrow> (\<exists>v. idle_only p w v \<and> calm v)))"

lemma swept_run_simps [simp]:
  "swept_run p calm w (w'\<lparr>faults := bs\<rparr>) = swept_run p calm w w'" "swept_run p calm w (w'\<lparr>held := hs\<rparr>) = swept_run p calm w w'"
  by (simp_all add: swept_run_def idle_only_def)

lemma idle_only_trans: "idle_only p u v \<Longrightarrow> idle_only p v w \<Longrightarrow> idle_only p u w"
  and idle_only_read: "read_ledger p v u \<Longrightarrow> idle_only p v u"
  and idle_only_lock: "changed_only {idle_lock p} w v \<Longrightarrow> idle_only p w v"
  and idle_only_none: "changed_only {} w v \<Longrightarrow> idle_only p w v"
  and idle_only_window: "changed_only {window_file p} w v \<Longrightarrow> idle_only p w v"
  unfolding idle_only_def read_ledger_def
  by ((erule (1) changed_only_trans; simp) | (erule conjE, erule changed_only_mono; simp) | (erule changed_only_mono; simp))+

text \<open>Before the save the run is silent; the save is one step of the machine.\<close>

lemma swept_run_silent:
  assumes "idle_only p w u" "counters_only (ledger p w) (ledger p u)"
  shows "swept_run p calm w u"
  using assms counters_run [OF assms(2)] by (auto simp: swept_run_def intro!: exI [of _ "[]"])

lemma swept_run_save:
  assumes "idle_only p w u" "counters_only (ledger p w) (ledger p u)" "idle_step (ledger p u) ls s"
    and "(\<exists>n. Reserve n \<in> set ls) \<longrightarrow> (\<exists>v. idle_only p w v \<and> calm v)"
  shows "swept_run p calm w (put (idle_file p) (File (CIdle s)) u)"
proof -
  have "idle_run (ledger p w) ([] @ ls) s" by (rule more [OF counters_run [OF assms(2)] assms(3)])
  moreover have "idle_only p w (put (idle_file p) (File (CIdle s)) u)"
    using assms(1) by (auto simp: idle_only_def intro: changed_only_put)
  ultimately show ?thesis using assms(4) by (auto simp: swept_run_def)
qed

lemma swept_run_window:
  assumes "swept_run p calm w u" "changed_only {window_file p} u v" "ledger p v = ledger p u"
  shows "swept_run p calm w v"
  using assms idle_only_trans idle_only_window by (auto simp: swept_run_def)

lemma wp_ReadWindow: "(\<And>x bs. Q x (w\<lparr>faults := bs\<rparr>)) \<Longrightarrow> wp (ReadWindow p) Q E w"
  unfolding ReadWindow_def wp_simps wp_attempt by (rule wp_readJSON) auto

lemma wp_save_both:
  assumes "swept_run p calm w u" "swept_run p calm w (put (idle_file p) (File (CIdle s)) u)"
  shows "wp (and_then (IdleSave p s) (\<lambda>_. SaveWindow p window)) (\<lambda>_. swept_run p calm w) (\<lambda>_. swept_run p calm w) u"
proof -
  have window: "wp (SaveWindow p window) (\<lambda>_. swept_run p calm w) (\<lambda>_. swept_run p calm w) v" if "swept_run p calm w v" for v
    by (rule wp_SaveWindow [where R = "\<lambda>_. swept_run p calm w"]) (rule swept_run_window [OF that])
  show ?thesis
    unfolding wp_simps
    by (rule wp_IdleSave [where Q = "\<lambda>_. wp (SaveWindow p window) (\<lambda>_. swept_run p calm w) (\<lambda>_. swept_run p calm w)"])
      (use assms window in auto)
qed

lemma sweep_labels:
  assumes "(if b then [Arm t] else []) @ (if snd observed then [Reserve n] else []) = ls"
    and "observed = advanceIdleWindow previous current ready" "Reserve m \<in> set ls"
  shows ready
  using assms by (auto simp: advanceIdleWindow_def split: if_splits)

lemma wp_evaluate_sweep:
  assumes "idle_only p w v0" "ledger p v0 = ledger p w"
  shows "wp (evaluate_sweep p minimum draws sweep lead outside usage locked)
    (\<lambda>_. swept_run p (quiet_team (now w) lead outside usage locked) w)
    (\<lambda>_. swept_run p (quiet_team (now w) lead outside usage locked) w) v0"
    (is "wp _ (\<lambda>_. ?ok) (\<lambda>_. ?ok) v0")
proof -
  let ?agents = "map snd locked" and ?workers = "filter (\<lambda>(_, a). ag_id a \<noteq> ag_id lead) locked"
  have decide: "wp (lift (sweep_result t draws lead (advanceIdleWindow previous (sweep_window s t minimum lead ?agents) ready) s))
      (\<lambda>(s', window). wp (and_then (IdleSave p s') (\<lambda>_. SaveWindow p window)) (\<lambda>_. ?ok) (\<lambda>_. ?ok)) (\<lambda>_. ?ok) u"
    if u: "idle_only p w u" "counters_only (ledger p w) (ledger p u)"
      and s: "s = swept t lead ?agents outside (ledger p u)" and due: "ready \<longrightarrow> notice_due s outside"
      and calm: "ready \<longrightarrow> (\<exists>v. idle_only p w v \<and> quiet_team (now w) lead outside usage locked v)"
    for u s t ready previous
  proof (cases "sweep_result t draws lead (advanceIdleWindow previous (sweep_window s t minimum lead ?agents) ready) s")
    case (Inl e)
    then show ?thesis using swept_run_silent [OF u] by simp
  next
    case (Inr r)
    obtain s' window where r: "r = (s', window)" by (cases r)
    let ?obs = "advanceIdleWindow previous (sweep_window s t minimum lead ?agents) ready"
    let ?ls = "(if idle_armed s \<and> \<not> idle_armed (ledger p u) then [Arm t] else [])
      @ (if snd ?obs then [Reserve (the (idle_notice_of s'))] else [])"
    have "idle_step (ledger p u) ?ls s'" by (rule sweep [OF s due refl Inr [unfolded r]])
    moreover have "(\<exists>n. Reserve n \<in> set ?ls) \<longrightarrow> (\<exists>v. idle_only p w v \<and> quiet_team (now w) lead outside usage locked v)"
      using sweep_labels [OF refl refl] calm by blast
    ultimately have "?ok (put (idle_file p) (File (CIdle s')) u)" by (rule swept_run_save [OF u])
    then show ?thesis unfolding Inr r using wp_save_both [OF swept_run_silent [OF u]] by simp
  qed
  show ?thesis
    unfolding evaluate_sweep_def Let_def wp_simps
  proof (rule wp_IdleRead_counters, goal_cases)
    case (1 s0 u)
    have u: "idle_only p w u" "counters_only (ledger p w) (ledger p u)"
      using idle_only_trans [OF assms(1) idle_only_read [OF 1(1)]] 1(1) assms(2) by (simp_all add: read_ledger_def)
    have nows: "now u = now w" using u(1) by (simp add: idle_only_def changed_only_def)
    let ?s = "swept (now u) lead ?agents outside s0"
    have checked: "wp (workers_ready (now u) ?workers) (\<lambda>quiet. wp (ReadWindow p) (\<lambda>previous.
        wp (lift (sweep_result (now u) draws lead (advanceIdleWindow previous (sweep_window ?s (now u) minimum lead ?agents)
            (notice_due ?s outside \<and> \<not> now u < sw_start sweep \<and> quiet \<and> usage_quiet (ag_id lead) (map ag_id ?agents) (now u) usage)) ?s))
          (\<lambda>(s', window). wp (and_then (IdleSave p s') (\<lambda>_. SaveWindow p window)) (\<lambda>_. ?ok) (\<lambda>_. ?ok)) (\<lambda>_. ?ok)) (\<lambda>_. ?ok)) (\<lambda>_. ?ok) u"
    proof (rule wp_workers_ready, goal_cases)
      case (1 b x)
      show ?case
      proof (rule wp_ReadWindow, rule decide, goal_cases)
        case (1 previous bs)
        show ?case using idle_only_trans [OF u(1) idle_only_none [OF \<open>changed_only {} u x\<close>]] by (simp add: idle_only_def)
      next
        case (2 previous bs)
        show ?case using u(2) unchanged_lookup [OF \<open>changed_only {} u x\<close>] by (simp add: ledger_def)
      next
        case (3 previous bs)
        show ?case using unchanged_lookup [OF \<open>changed_only {} u x\<close>] \<open>ledger p u = s0\<close> by (simp add: ledger_def)
      next
        case (5 previous bs)
        show ?case
          using u(1) \<open>b \<Longrightarrow> \<forall>x \<in> set ?workers. quiet_worker (now u) x u\<close> nows
          by (auto simp: quiet_team_def notice_due_def comp_def)
      qed simp
    next
      case (2 e x)
      have "idle_only p w x" using idle_only_trans [OF u(1) idle_only_none [OF 2]] .
      then show ?case using swept_run_silent [of p w x] u(2) unchanged_lookup [OF 2] by (simp add: ledger_def)
    qed
    show ?case
    proof (cases "\<exists>a \<in> set ?agents. ag_id a \<noteq> ag_id lead
        \<and> work_of s0 (ag_id a) \<noteq> (case map_of (sw_work sweep) (ag_id a) of None \<Rightarrow> 0 | Some n \<Rightarrow> n)")
      case True
      show ?thesis unfolding if_P [OF True] wp_simps by (rule swept_run_silent [OF u])
    next
      case False
      show ?thesis unfolding if_not_P [OF False] wp_simps split_beta using checked unfolding split_beta wp_simps .
    qed
  next
    case (2 e u)
    have "idle_only p w u" using idle_only_trans [OF assms(1) idle_only_read [OF 2]] .
    then show ?case using swept_run_silent [of p w u] 2 assms(2) by (simp add: read_ledger_def)
  qed
qed

section \<open>The four entry points\<close>

lemma ledger_runs_swept: "swept_run p calm w v \<Longrightarrow> ledger_runs p w v"
  by (auto simp: swept_run_def ledger_runs_def)

lemma wp_locked_sweep:
  "wp (locking_idle p (evaluate_sweep p minimum draws sweep lead outside usage locked))
    (\<lambda>_. swept_run p (quiet_team (now w) lead outside usage locked) w)
    (\<lambda>_. swept_run p (quiet_team (now w) lead outside usage locked) w) w"
proof (rule wp_locking_idle [where R = "\<lambda>_. swept_run p (quiet_team (now w) lead outside usage locked) w"], goal_cases)
  case (1 v)
  show ?case by (rule wp_evaluate_sweep) (use 1 idle_only_lock in auto)
next
  case (2 e v)
  show ?case by (rule swept_run_silent) (use 2 idle_only_lock in auto)
qed simp

text \<open>
  C17 (idle_ledger_refines): whatever fails, the ledger that \<^verbatim>\<open>noteIdleActivity\<close>, \<^verbatim>\<open>settleIdleNotice\<close>
  and the evaluation of a sweep leave on disk is reached from the ledger before by a run of the
  idle machine, and no file but the ledger, its lock and its window is touched. The trace
  properties of the machine are thus properties of the disk.
\<close>

theorem idle_ledger_refines:
  "ledger_runs p w (snd (noteIdleActivity p a t w))
   \<and> ledger_runs p w (snd (settleIdleNotice p e result w))
   \<and> ledger_runs p w (snd (locking_idle p (evaluate_sweep p minimum draws sweep lead outside usage locked) w))"
  using wp_noteIdleActivity [of p a t w] wp_settleIdleNotice [of p e result w]
    wp_locked_sweep [of p minimum draws sweep lead outside usage locked w]
  by (auto simp: wp_def ledger_runs_swept split: prod.splits sum.splits)

text \<open>Only a reservation changes the envelope of the notice.\<close>

definition noticed :: "idle_state \<Rightarrow> envelope option" where
  "noticed s = map_option ntc_envelope (idle_notice_of s)"

lemma idle_step_noticed: "idle_step s ls s' \<Longrightarrow> (\<exists>n. Reserve n \<in> set ls) \<or> noticed s' = noticed s"
proof (induction rule: idle_step.induct)
  case (activity s a t s')
  then show ?case using arm_fields(1) [OF activity] by (simp add: noticed_def)
next
  case (sweep s1 t lead agents outside s ready observed previous current draws s' window)
  have "idle_notice_of s1 = idle_notice_of s"
    using swept_armed [of t s lead agents outside] sweep.hyps(1) by (simp add: only_armed_def)
  moreover have "\<not> snd observed \<Longrightarrow> s' = s1" using sweep_reserves sweep.hyps(3,4) by fastforce
  ultimately show ?case by (cases "snd observed") (auto simp: noticed_def)
next
  case (outcome e result s s')
  then show ?case by (auto simp: settle_idle_def noticed_def split: option.splits if_splits)
qed (simp add: noticed_def)

lemma idle_run_noticed: "idle_run s tr s' \<Longrightarrow> (\<exists>n. Reserve n \<in> set tr) \<or> noticed s' = noticed s"
  by (induction rule: idle_run.induct) (use idle_step_noticed in fastforce)+

text \<open>
  An evaluation of a sweep leaves the notice on disk as
  it was, or it read files (the ledger, its lock and its window apart, the files before it)
  in which the team was quiet: no outside participant, no wake due or in flight, and of every
  worker no permission request, no newer hook, no accepted or unverified envelope, nothing
  queued but scheduled envelopes, and a fresh idle observation. This holds whatever fails,
  during the evaluation and after the ledger is saved.
\<close>

theorem idle_reserved_only_when_quiet:
  "noticed (ledger p (snd (locking_idle p (evaluate_sweep p minimum draws sweep lead outside usage locked) w))) = noticed (ledger p w)
   \<or> (\<exists>v. idle_only p w v \<and> quiet_team (now w) lead outside usage locked v)"
proof -
  have "swept_run p (quiet_team (now w) lead outside usage locked) w
      (snd (locking_idle p (evaluate_sweep p minimum draws sweep lead outside usage locked) w))"
    using wp_locked_sweep [of p minimum draws sweep lead outside usage locked w]
    by (auto simp: wp_def split: prod.splits sum.splits)
  then show ?thesis using idle_run_noticed by (auto simp: swept_run_def)
qed

end
