(* ===== verification/Go_Runes.thy ===== *)
theory Go_Runes
  imports Go_Format
begin

text \<open>
  A byte string as the sequence of its UTF-8 encoded runes, which is what \<^verbatim>\<open>range\<close> over a
  Go string visits. A piece is the bytes of one rune; the pieces of a valid string do not
  depend on what follows them, so cutting at their boundaries and joining keeps them.
\<close>

section \<open>Pieces\<close>

lemma decode_width: "s \<noteq> [] \<Longrightarrow> 0 < snd (decode_rune s) \<and> snd (decode_rune s) \<le> length s"
  by (cases s; cases "tl s"; cases "tl (tl s)"; cases "tl (tl (tl s))") (auto simp: decode_rune_def)

function pieces :: "string \<Rightarrow> string list" where
  "pieces s = (if s = [] then [] else take (snd (decode_rune s)) s # pieces (drop (snd (decode_rune s)) s))"
  by pat_completeness auto
termination by (relation "measure length") (use decode_width in fastforce)+

declare pieces.simps [simp del]

definition rune_of :: "string \<Rightarrow> nat" where
  "rune_of p = fst (decode_rune p)"

definition runes :: "string \<Rightarrow> nat list" where
  "runes s = map rune_of (pieces s)"

definition wf_piece :: "string \<Rightarrow> bool" where
  "wf_piece p \<longleftrightarrow> p \<noteq> [] \<and> snd (decode_rune p) = length p \<and> decode_rune p \<noteq> (65533, 1)"

text \<open>\<^verbatim>\<open>utf8.ValidString\<close>.\<close>

definition valid_utf8 :: "string \<Rightarrow> bool" where
  "valid_utf8 s \<longleftrightarrow> list_all wf_piece (pieces s)"

lemma pieces_Nil [simp]: "pieces [] = []"
  by (simp add: pieces.simps)

lemma concat_pieces [simp]: "concat (pieces s) = s"
proof (induction s rule: pieces.induct)
  case (1 s)
  then show ?case by (cases "s = []") (simp_all add: pieces.simps [of s])
qed

lemma decode_self_delimiting:
  assumes "wf_piece p" shows "decode_rune (p @ s) = decode_rune p"
proof -
  have len: "snd (decode_rune p) \<le> 4" for p
    by (cases p; cases "tl p"; cases "tl (tl p)"; cases "tl (tl (tl p))") (auto simp: decode_rune_def)
  consider a where "p = [a]" | a b where "p = [a, b]" | a b c where "p = [a, b, c]" | a b c d where "p = [a, b, c, d]"
  proof -
    have "length p \<le> 4" "p \<noteq> []" using assms len [of p] by (auto simp: wf_piece_def)
    then show thesis using that
      by (cases p; cases "tl p"; cases "tl (tl p)"; cases "tl (tl (tl p))") auto
  qed
  then show ?thesis
    by cases (use assms in \<open>auto simp: decode_rune_def wf_piece_def split: if_splits list.split\<close>)
qed

lemma pieces_append: "wf_piece p \<Longrightarrow> pieces (p @ s) = p # pieces s"
  by (subst pieces.simps) (auto simp: decode_self_delimiting wf_piece_def)

lemma pieces_concat: "\<forall>p \<in> set ps. wf_piece p \<Longrightarrow> pieces (concat ps) = ps"
  by (induction ps) (simp_all add: pieces_append)

lemma pieces_concat_append: "\<forall>p \<in> set ps. wf_piece p \<Longrightarrow> pieces (concat ps @ s) = ps @ pieces s"
  by (induction ps) (simp_all add: pieces_append)

lemma pieces_valid: "valid_utf8 s \<Longrightarrow> pieces (s @ t) = pieces s @ pieces t"
  using pieces_concat_append [of "pieces s" t] by (auto simp: valid_utf8_def list_all_iff)

lemma valid_append: "valid_utf8 s \<Longrightarrow> valid_utf8 (s @ t) = valid_utf8 t"
  by (simp add: valid_utf8_def pieces_valid)

lemma valid_concat: "\<forall>p \<in> set ps. wf_piece p \<Longrightarrow> valid_utf8 (concat ps)"
  by (simp add: valid_utf8_def pieces_concat list_all_iff)

lemma runes_append: "valid_utf8 s \<Longrightarrow> runes (s @ t) = runes s @ runes t"
  by (simp add: runes_def pieces_valid)

section \<open>ASCII\<close>

definition ascii :: "string \<Rightarrow> bool" where
  "ascii s \<longleftrightarrow> (\<forall>c \<in> set s. of_char c < (128 :: nat))"

lemma decode_ascii: "of_char c < (128 :: nat) \<Longrightarrow> decode_rune (c # s) = (of_char c, 1)"
  by (simp add: decode_rune_def)

lemma wf_ascii: "of_char c < (128 :: nat) \<Longrightarrow> wf_piece [c]"
  by (simp add: wf_piece_def decode_ascii)

lemma pieces_ascii: "ascii s \<Longrightarrow> pieces (s @ t) = map (\<lambda>c. [c]) s @ pieces t"
proof (induction s)
  case (Cons c s)
  then have c: "of_char c < (128 :: nat)" "ascii s" by (simp_all add: ascii_def)
  have "pieces ([c] @ s @ t) = [c] # pieces (s @ t)" by (rule pieces_append) (rule wf_ascii [OF c(1)])
  then show ?case using Cons.IH [OF c(2)] by simp
qed simp

lemma runes_ascii: "ascii s \<Longrightarrow> runes s = map of_char s"
  using pieces_ascii [of s "[]"] by (auto simp: runes_def rune_of_def decode_ascii ascii_def)

lemma valid_ascii: "ascii s \<Longrightarrow> valid_utf8 s"
  using pieces_ascii [of s "[]"] by (auto simp: valid_utf8_def list_all_iff wf_ascii ascii_def)

lemma ascii_append [simp]: "ascii (s @ t) \<longleftrightarrow> ascii s \<and> ascii t"
  and ascii_Cons [simp]: "ascii (c # s) \<longleftrightarrow> of_char c < (128 :: nat) \<and> ascii s"
  and ascii_Nil [simp]: "ascii []"
  by (auto simp: ascii_def)

section \<open>Classes of runes\<close>

text \<open>
  The tables of the \<^verbatim>\<open>unicode\<close> package and the normal form of \<^verbatim>\<open>golang.org/x/text/unicode/norm\<close>:
  opening and closing punctuation, marks, letters, format characters, the lower case of a
  rune and \<^verbatim>\<open>NFKC\<close> on the runes of a valid string.
\<close>

record unicode =
  is_ps :: "nat \<Rightarrow> bool"
  is_pe :: "nat \<Rightarrow> bool"
  is_mark :: "nat \<Rightarrow> bool"
  is_letter :: "nat \<Rightarrow> bool"
  is_cf :: "nat \<Rightarrow> bool"
  is_concat_mark :: "nat \<Rightarrow> bool"
  lower_rune :: "nat \<Rightarrow> nat"
  nfkc :: "nat list \<Rightarrow> nat list"

definition is_space :: "nat \<Rightarrow> bool" where
  "is_space r \<longleftrightarrow> 9 \<le> r \<and> r \<le> 13 \<or> 8192 \<le> r \<and> r \<le> 8202
     \<or> r \<in> {32, 133, 160, 5760, 8232, 8233, 8239, 8287, 12288}"

definition is_control :: "nat \<Rightarrow> bool" where
  "is_control r \<longleftrightarrow> r < 32 \<or> 127 \<le> r \<and> r < 160"

definition trim_left :: "nat list \<Rightarrow> nat list" where
  "trim_left = dropWhile is_space"

definition trim_both :: "nat list \<Rightarrow> nat list" where
  "trim_both rs = rev (trim_left (rev (trim_left rs)))"

text \<open>\<^verbatim>\<open>strings.Fields\<close> on the pieces of a string.\<close>

function rune_fields :: "string list \<Rightarrow> string list list" where
  "rune_fields ps =
     (case dropWhile (\<lambda>p. is_space (rune_of p)) ps of
        [] \<Rightarrow> []
      | q # qs \<Rightarrow> (q # takeWhile (\<lambda>p. \<not> is_space (rune_of p)) qs) # rune_fields (dropWhile (\<lambda>p. \<not> is_space (rune_of p)) qs))"
  by pat_completeness auto
termination
proof (relation "measure length", goal_cases)
  case (2 ps q qs)
  have "Suc (length qs) \<le> length ps" using 2 length_dropWhile_le [of _ ps] by (metis length_Cons)
  then show ?case using length_dropWhile_le [of "\<lambda>p. \<not> is_space (rune_of p)" qs] by simp
qed simp

declare rune_fields.simps [simp del]

lemma rune_fields_parts: "w \<in> set (rune_fields ps) \<Longrightarrow> set w \<subseteq> set ps"
proof (induction ps rule: rune_fields.induct)
  case (1 ps)
  show ?case
  proof (cases "dropWhile (\<lambda>p. is_space (rune_of p)) ps")
    case Nil
    then have "rune_fields ps = []" by (subst rune_fields.simps) (simp only: list.case)
    then show ?thesis using "1.prems" by simp
  next
    case (Cons q qs)
    have sub: "set (q # qs) \<subseteq> set ps" using set_dropWhileD [of _ _ ps] Cons by (metis subsetI)
    have "w = q # takeWhile (\<lambda>p. \<not> is_space (rune_of p)) qs \<or> w \<in> set (rune_fields (dropWhile (\<lambda>p. \<not> is_space (rune_of p)) qs))"
      using "1.prems" Cons by (subst (asm) rune_fields.simps) simp
    then show ?thesis
    proof
      assume "w = q # takeWhile (\<lambda>p. \<not> is_space (rune_of p)) qs"
      then show ?thesis using sub set_takeWhileD by fastforce
    next
      assume "w \<in> set (rune_fields (dropWhile (\<lambda>p. \<not> is_space (rune_of p)) qs))"
      from "1.IH" [OF Cons this] show ?thesis using sub set_dropWhileD by fastforce
    qed
  qed
qed

end
