(* ===== verification/Envelope_Tags.thy ===== *)
theory Envelope_Tags
  imports Go_Runes Usage_State
begin

text \<open>
  The tags that frame a message (\<^verbatim>\<open>cmd/gang/input.go\<close>): what text a message may hold, the
  removal of brackets that would read as a tag, and the rendering of an envelope.
\<close>

section \<open>Message text\<close>

definition openingEnvelopeBracket :: "unicode \<Rightarrow> nat \<Rightarrow> bool" where
  "openingEnvelopeBracket u r \<longleftrightarrow> is_ps u r \<or> r \<in> {9121, 9122, 9123}"

definition envelopeBracket :: "unicode \<Rightarrow> nat \<Rightarrow> bool" where
  "envelopeBracket u r \<longleftrightarrow> openingEnvelopeBracket u r \<or> is_pe u r \<or> r \<in> {9124, 9125, 9126}"

definition invisibleMessageRune :: "unicode \<Rightarrow> nat \<Rightarrow> bool" where
  "invisibleMessageRune u r \<longleftrightarrow> is_cf u r \<or> r = 8232 \<or> r = 8233"

text \<open>\<^verbatim>\<open>%04X\<close>.\<close>

definition hex_digit :: "nat \<Rightarrow> char" where
  "hex_digit d = (if d < 10 then char_of (48 + d) else char_of (55 + d))"

function hex_upper :: "nat \<Rightarrow> string" where
  "hex_upper n = (if n < 16 then [hex_digit n] else hex_upper (n div 16) @ [hex_digit (n mod 16)])"
  by pat_completeness auto
termination by (relation "measure id") auto

declare hex_upper.simps [simp del]

definition hex4 :: "nat \<Rightarrow> string" where
  "hex4 n = replicate (4 - length (hex_upper n)) CHR ''0'' @ hex_upper n"

text \<open>The first rune that a message may not hold, with the reason; marks may not touch a bracket.\<close>

fun check_runes :: "unicode \<Rightarrow> bool \<Rightarrow> bool \<Rightarrow> nat list \<Rightarrow> err option" where
  "check_runes u previousBracket marks [] = None"
| "check_runes u previousBracket marks (r # rs) =
     (if invisibleMessageRune u r
      then Some (Fail (''message body contains U+'' @ hex4 r @ ''; remove invisible format characters and line and paragraph separators''))
      else if is_mark u r then
        (if previousBracket then Some (Fail ''message body contains combining marks adjacent to a bracket'')
         else check_runes u previousBracket True rs)
      else if envelopeBracket u r \<and> marks then Some (Fail ''message body contains combining marks adjacent to a bracket'')
      else check_runes u (envelopeBracket u r) False rs)"

definition validateMessageText :: "unicode \<Rightarrow> string \<Rightarrow> err option" where
  "validateMessageText u body =
     (if \<not> valid_utf8 body \<or> list_ex (\<lambda>r. is_control r \<and> r \<noteq> 10 \<and> r \<noteq> 9) (runes body)
      then Some (Fail ''message body must be UTF-8 text without terminal controls other than newline and tab'')
      else check_runes u False False (runes body))"

section \<open>Tag-shaped text\<close>

text \<open>\<^verbatim>\<open>canonicalEnvelopeText\<close>, as the runes of its result.\<close>

definition canonical_rune :: "unicode \<Rightarrow> nat \<Rightarrow> nat option" where
  "canonical_rune u r =
     (if is_mark u r \<or> r \<in> {4447, 4448, 10240} then None
      else if is_space r then Some 32
      else if r \<in> {8725, 8260, 10744} then Some 47
      else if r \<in> {42889, 8758, 1417, 720, 760} then Some 58
      else Some (lower_rune u r))"

definition canonicalEnvelopeText :: "unicode \<Rightarrow> nat list \<Rightarrow> nat list" where
  "canonicalEnvelopeText u text = List.map_filter (canonical_rune u) (nfkc u text)"

text \<open>Each expected letter, or a letter outside ASCII in its place; what follows them.\<close>

fun keyword_letters :: "unicode \<Rightarrow> nat list \<Rightarrow> nat list \<Rightarrow> nat list option" where
  "keyword_letters u [] text = Some text"
| "keyword_letters u (e # expected) [] = None"
| "keyword_letters u (e # expected) (r # text) =
     (if r \<noteq> e \<and> \<not> (r > 127 \<and> is_letter u r) then None else keyword_letters u expected text)"

definition gang_letters :: "nat list" where
  "gang_letters = [103, 97, 110, 103]"

definition trim_slash :: "nat list \<Rightarrow> nat list" where
  "trim_slash text = (case text of r # rs \<Rightarrow> if r = 47 then rs else text | [] \<Rightarrow> [])"

definition envelopeKeywordBefore :: "unicode \<Rightarrow> nat list \<Rightarrow> nat list \<Rightarrow> bool" where
  "envelopeKeywordBefore u separators text =
     (case keyword_letters u gang_letters (trim_left (trim_slash (trim_left text))) of
        None \<Rightarrow> False
      | Some rest \<Rightarrow> (case trim_left rest of [] \<Rightarrow> False | r # _ \<Rightarrow> r \<in> set separators))"

definition envelopeKeyword :: "unicode \<Rightarrow> nat list \<Rightarrow> bool" where
  "envelopeKeyword u = envelopeKeywordBefore u [58, 35]"

definition legacyKeyword :: "unicode \<Rightarrow> nat list \<Rightarrow> bool" where
  "legacyKeyword u = envelopeKeywordBefore u [58]"

section \<open>Removing the brackets of tags\<close>

text \<open>
  Positions count the runes of the body. A prefix is an opening bracket followed by nothing
  or a slash up to the next bracket: its start, the position after it, and its slashes. The
  prefixes still pending are kept innermost first.
\<close>

type_synonym tag_prefix = "nat \<times> nat \<times> nat"

definition between :: "nat \<Rightarrow> nat \<Rightarrow> 'a list \<Rightarrow> 'a list" where
  "between i j xs = take (j - i) (drop i xs)"

fun enclosing :: "nat \<Rightarrow> tag_prefix list \<Rightarrow> tag_prefix list" where
  "enclosing slash [] = []"
| "enclosing slash ((s, e, k) # ps) = (if slash + k \<le> 1 then (s, e, k) # enclosing (slash + k) ps else [])"

definition tag_candidate :: "unicode \<Rightarrow> string list \<Rightarrow> nat list" where
  "tag_candidate u ps = canonicalEnvelopeText u (map rune_of (takeWhile (\<lambda>q. \<not> envelopeBracket u (rune_of q)) ps))"

definition leading_slash :: "nat list \<Rightarrow> nat" where
  "leading_slash text = (case trim_both text of r # _ \<Rightarrow> if r = 47 then 1 else 0 | [] \<Rightarrow> 0)"

definition blank_prefix :: "nat list \<Rightarrow> bool" where
  "blank_prefix text \<longleftrightarrow> trim_both text = [] \<or> trim_both text = [47]"

definition cut_prefix :: "string list \<Rightarrow> tag_prefix \<Rightarrow> string list \<times> nat \<Rightarrow> string list \<times> nat" where
  "cut_prefix body = (\<lambda>(s, e, k) (result, copied). (result @ between copied s body, e))"

fun defang_loop :: "unicode \<Rightarrow> (nat list \<Rightarrow> bool) \<Rightarrow> string list \<Rightarrow> nat \<Rightarrow> string list \<Rightarrow> tag_prefix list
    \<Rightarrow> string list \<times> nat \<Rightarrow> string list \<times> nat" where
  "defang_loop u keyword body i [] pending out = out"
| "defang_loop u keyword body i (p # ps) pending out =
     (if \<not> envelopeBracket u (rune_of p) then defang_loop u keyword body (Suc i) ps pending out
      else if \<not> openingEnvelopeBracket u (rune_of p) then defang_loop u keyword body (Suc i) ps [] out
      else
        let candidate = tag_candidate u ps; slash = leading_slash candidate in
        if keyword candidate then
          let (result, copied) = fold (cut_prefix body) (rev (enclosing slash pending)) out in
          defang_loop u keyword body (Suc i) ps [] (result @ between copied i body, Suc i)
        else if blank_prefix candidate then defang_loop u keyword body (Suc i) ps ((i, Suc i, slash) # pending) out
        else defang_loop u keyword body (Suc i) ps [] out)"

definition defangTagsWith :: "unicode \<Rightarrow> (nat list \<Rightarrow> bool) \<Rightarrow> string \<Rightarrow> string" where
  "defangTagsWith u keyword body =
     (case defang_loop u keyword (pieces body) 0 (pieces body) [] ([], 0) of
        (result, copied) \<Rightarrow> if copied = 0 then body else concat (result @ drop copied (pieces body)))"

definition defangEnvelopeTags :: "unicode \<Rightarrow> string \<Rightarrow> string" where
  "defangEnvelopeTags u = defangTagsWith u (envelopeKeyword u)"

section \<open>Rendering\<close>

definition alnum :: "char \<Rightarrow> bool" where
  "alnum c \<longleftrightarrow> (let n = of_char c :: nat in 48 \<le> n \<and> n \<le> 57 \<or> 65 \<le> n \<and> n \<le> 90 \<or> 97 \<le> n \<and> n \<le> 122)"

definition lowercase :: "char \<Rightarrow> bool" where
  "lowercase c \<longleftrightarrow> (let n = of_char c :: nat in 97 \<le> n \<and> n \<le> 122)"

definition envelopeTokenPattern :: "string \<Rightarrow> bool" where
  "envelopeTokenPattern s =
     (case s of [] \<Rightarrow> False | c # cs \<Rightarrow> alnum c \<and> list_all (\<lambda>d. alnum d \<or> d \<in> set ''._:-'') cs)"

definition envelopeMarkerPattern :: "string \<Rightarrow> bool" where
  "envelopeMarkerPattern s =
     (case s of [] \<Rightarrow> False | c # cs \<Rightarrow> lowercase c \<and> list_all (\<lambda>d. lowercase d \<or> d = CHR ''-'') cs)"

text \<open>\<^verbatim>\<open>%q\<close> of a text without characters to escape.\<close>

definition quoted :: "string \<Rightarrow> string" where
  "quoted s = CHR 0x22 # s @ [CHR 0x22]"

text \<open>\<^verbatim>\<open>encoding/json\<close> escapes quotes, backslashes, controls, angle brackets, ampersands and separators.\<close>

definition json_width :: "string \<Rightarrow> nat" where
  "json_width p =
     (let r = rune_of p in
      if \<not> wf_piece p then 6
      else if r \<in> {34, 92, 8, 9, 10, 12, 13} then 2
      else if r < 32 \<or> r \<in> {38, 60, 62, 8232, 8233} then 6
      else length p)"

definition json_length :: "string \<Rightarrow> nat" where
  "json_length s = 2 + sum_list (map json_width (pieces s))"

definition maximumMessageBytes :: nat where
  "maximumMessageBytes = 1048576"

definition errEnvelopeBudget :: err where
  "errEnvelopeBudget = Fail (''message exceeds the '' @ decimal maximumMessageBytes
     @ ''-byte encoded envelope budget; put details in a state file and send its path'')"

definition checkEnvelopeBudget :: "string \<Rightarrow> err option" where
  "checkEnvelopeBudget wire = (if json_length wire > maximumMessageBytes then Some errEnvelopeBudget else None)"

definition budgeted :: "string \<Rightarrow> err + string" where
  "budgeted wire = (case checkEnvelopeBudget wire of None \<Rightarrow> Inr wire | Some e \<Rightarrow> Inl e)"

definition frame :: "string \<Rightarrow> string \<Rightarrow> string \<Rightarrow> string" where
  "frame head marker body = envelopeOpening head marker @ '' '' @ body @ ''[/'' @ head @ '']''"

definition renderEnvelopeTag :: "unicode \<Rightarrow> string \<Rightarrow> string \<Rightarrow> string \<Rightarrow> err + string" where
  "renderEnvelopeTag u head marker body =
     (case validateMessageText u body of
        Some e \<Rightarrow> Inl e
      | None \<Rightarrow>
          if marker \<noteq> '''' \<and> \<not> envelopeMarkerPattern marker then Inl (Fail (''envelope marker '' @ quoted marker @ '' is invalid''))
          else
            let text = defangEnvelopeTags u body in
            budgeted (frame head marker (if text = '''' then '''' else text @ '' '')))"

definition renderEnvelopeHead :: "unicode \<Rightarrow> string \<Rightarrow> string \<Rightarrow> string \<Rightarrow> string \<Rightarrow> err + string" where
  "renderEnvelopeHead u sender nonce marker body =
     (if \<not> envelopeTokenPattern nonce then Inl (Fail (''envelope nonce '' @ quoted nonce @ '' is invalid''))
      else renderEnvelopeTag u (envelopeHead sender nonce) marker body)"

definition renderEnvelope :: "unicode \<Rightarrow> string \<Rightarrow> string \<Rightarrow> string \<Rightarrow> string \<Rightarrow> err + string" where
  "renderEnvelope u sender nonce marker body =
     (if \<not> envelopeTokenPattern sender then Inl (Fail (''envelope sender '' @ quoted sender @ '' is invalid''))
      else renderEnvelopeHead u sender nonce marker body)"

definition renderGanglineEnvelope :: "unicode \<Rightarrow> string \<Rightarrow> string \<Rightarrow> string \<Rightarrow> err + string" where
  "renderGanglineEnvelope u nonce marker body = renderEnvelopeHead u '''' nonce marker body"

text \<open>The earlier renderer.\<close>

definition legacyRenderEnvelope :: "unicode \<Rightarrow> string \<Rightarrow> string \<Rightarrow> string \<Rightarrow> string \<Rightarrow> err + string" where
  "legacyRenderEnvelope u sender nonce marker body =
     (if \<not> envelopeTokenPattern sender \<or> \<not> envelopeTokenPattern nonce
      then Inl (Fail (''envelope sender '' @ quoted sender @ '' or nonce '' @ quoted nonce @ '' is invalid''))
      else case validateMessageText u body of
        Some e \<Rightarrow> Inl e
      | None \<Rightarrow>
          if marker \<noteq> '''' \<and> \<not> envelopeMarkerPattern marker then Inl (Fail (''envelope marker '' @ quoted marker @ '' is invalid''))
          else
            let head = envelopeHead sender nonce in
            Inr (envelopeOpening head marker @ '' '' @ defangTagsWith u (legacyKeyword u) body @ '' [/'' @ head @ '']''))"

end
