(* ===== verification/Envelope_Defang.thy ===== *)
theory Envelope_Defang
  imports Envelope_Tags
begin

text \<open>
  What the removal of tag-shaped brackets achieves: no opening bracket of the result is
  followed by tag text, although removing one bracket joins the texts around it. Keywords are
  recognised by an automaton, and the loop over positions is related to a stack of the
  brackets kept so far with the text that follows each.
\<close>

section \<open>Keywords as an automaton\<close>

datatype scan = Lead | Slashed | Letter1 | Letter2 | Letter3 | Word | Found | Off

definition fits :: "unicode \<Rightarrow> nat \<Rightarrow> nat \<Rightarrow> bool" where
  "fits u e r \<longleftrightarrow> r = e \<or> r > 127 \<and> is_letter u r"

fun scan_step :: "unicode \<Rightarrow> nat list \<Rightarrow> scan \<Rightarrow> nat \<Rightarrow> scan" where
  "scan_step u seps Lead r = (if is_space r then Lead else if r = 47 then Slashed else if fits u 103 r then Letter1 else Off)"
| "scan_step u seps Slashed r = (if is_space r then Slashed else if fits u 103 r then Letter1 else Off)"
| "scan_step u seps Letter1 r = (if fits u 97 r then Letter2 else Off)"
| "scan_step u seps Letter2 r = (if fits u 110 r then Letter3 else Off)"
| "scan_step u seps Letter3 r = (if fits u 103 r then Word else Off)"
| "scan_step u seps Word r = (if is_space r then Word else if r \<in> set seps then Found else Off)"
| "scan_step u seps Found r = Found"
| "scan_step u seps Off r = Off"

abbreviation scans :: "unicode \<Rightarrow> nat list \<Rightarrow> scan \<Rightarrow> nat list \<Rightarrow> scan" where
  "scans u seps \<equiv> foldl (scan_step u seps)"

lemma scans_absorbing [simp]: "scans u seps Found xs = Found" "scans u seps Off xs = Off"
  by (induction xs) simp_all

lemma scans_Word: "scans u seps Word xs = Found \<longleftrightarrow> (case trim_left xs of [] \<Rightarrow> False | r # _ \<Rightarrow> r \<in> set seps)"
  by (induction xs) (auto simp: trim_left_def)

lemma scans_Slashed:
  "scans u seps Slashed xs = Found \<longleftrightarrow>
     (case keyword_letters u gang_letters (trim_left xs) of None \<Rightarrow> False
      | Some rest \<Rightarrow> (case trim_left rest of [] \<Rightarrow> False | r # _ \<Rightarrow> r \<in> set seps))"
proof (induction xs)
  case (Cons x xs)
  show ?case
  proof (cases "is_space x")
    case False
    then have left: "trim_left (x # xs) = x # xs" by (simp add: trim_left_def)
    show ?thesis
      unfolding left gang_letters_def using False
      by (cases xs; cases "tl xs"; cases "tl (tl xs)") (auto simp: fits_def scans_Word)
  qed (use Cons in \<open>simp add: trim_left_def\<close>)
qed (simp add: trim_left_def gang_letters_def)

lemma not_space [simp]: "\<not> is_space 47" "\<not> is_space 103" "\<not> is_space 97" "\<not> is_space 110"
  by (simp_all add: is_space_def)

lemma fits_slash [simp]: "\<not> fits u 103 47"
  by (simp add: fits_def)

lemma scans_Lead: "scans u seps Lead xs = Found \<longleftrightarrow> scans u seps Slashed (trim_slash (trim_left xs)) = Found"
proof (induction xs)
  case (Cons x xs)
  show ?case
  proof (cases "is_space x")
    case False
    then have left: "trim_left (x # xs) = x # xs" by (simp add: trim_left_def)
    show ?thesis using False by (simp add: left trim_slash_def)
  qed (use Cons in \<open>simp add: trim_left_def\<close>)
qed (simp add: trim_left_def trim_slash_def)

lemma keyword_scans: "envelopeKeywordBefore u seps xs \<longleftrightarrow> scans u seps Lead xs = Found"
  by (simp add: envelopeKeywordBefore_def scans_Lead scans_Slashed)

section \<open>Blank prefixes\<close>

lemma scans_leave_Lead: "q \<noteq> Lead \<Longrightarrow> scans u seps q xs \<noteq> Lead"
proof (induction xs arbitrary: q)
  case (Cons y ys)
  have "scan_step u seps q y \<noteq> Lead" using Cons.prems by (cases q) simp_all
  then show ?case using Cons.IH by simp
qed simp

lemma scans_Lead_Lead: "scans u seps Lead xs = Lead \<longleftrightarrow> list_all is_space xs"
proof (induction xs)
  case (Cons x xs)
  show ?case
  proof (cases "is_space x")
    case False
    then have "scan_step u seps Lead x \<noteq> Lead" by simp
    then show ?thesis using scans_leave_Lead False by simp
  qed (use Cons in simp)
qed simp

lemma scans_spaces: "list_all is_space ws \<Longrightarrow> scans u seps Lead ws = Lead" "list_all is_space ws \<Longrightarrow> scans u seps Slashed ws = Slashed"
  by (induction ws) simp_all

lemma scans_leave_Slashed: "q \<noteq> Slashed \<Longrightarrow> q \<noteq> Lead \<Longrightarrow> scans u seps q xs \<noteq> Slashed"
proof (induction xs arbitrary: q)
  case (Cons y ys)
  have "scan_step u seps q y \<noteq> Slashed" "scan_step u seps q y \<noteq> Lead" using Cons.prems by (cases q; simp)+
  then show ?case using Cons.IH by simp
qed simp

lemma scans_Slashed_Slashed: "scans u seps Slashed xs = Slashed \<longleftrightarrow> list_all is_space xs"
proof (induction xs)
  case (Cons x xs)
  show ?case
  proof (cases "is_space x")
    case False
    then have "scan_step u seps Slashed x \<noteq> Slashed" "scan_step u seps Slashed x \<noteq> Lead" by simp_all
    then show ?thesis using scans_leave_Slashed False by simp
  qed (use Cons in simp)
qed simp

lemma trim_left_space: "list_all is_space xs \<Longrightarrow> trim_left (xs @ ys) = trim_left ys"
  by (induction xs) (simp_all add: trim_left_def)

lemma trim_left_nonspace: "\<not> is_space x \<Longrightarrow> trim_left (x # ys) = x # ys"
  by (simp add: trim_left_def)

lemma trim_left_hd: "trim_left xs = r # rs \<Longrightarrow> \<not> is_space r"
  by (auto simp: trim_left_def dropWhile_eq_Cons_conv)

lemma trim_left_split: "\<exists>ws. xs = ws @ trim_left xs \<and> list_all is_space ws"
  by (rule exI [of _ "takeWhile is_space xs"]) (auto simp: trim_left_def list_all_iff dest: set_takeWhileD)

lemma trim_both_space: "list_all is_space ws \<Longrightarrow> trim_both ws = []"
  by (auto simp: trim_both_def trim_left_def list_all_iff dest: set_dropWhileD)

lemma trim_right_keep:
  assumes "\<not> is_space r"
  shows "\<exists>zs ws. rev (trim_left (rev (r # xs))) = r # zs \<and> r # xs = (r # zs) @ ws \<and> list_all is_space ws"
proof -
  obtain ws where ws: "rev (r # xs) = ws @ trim_left (rev (r # xs))" "list_all is_space ws" using trim_left_split by blast
  define t where "t = rev (trim_left (rev (r # xs)))"
  have eq: "r # xs = t @ rev ws" using arg_cong [OF ws(1), of rev] by (simp only: t_def rev_append rev_rev_ident)
  show ?thesis
  proof (cases t)
    case Nil
    then have "r \<in> set ws" using eq by (metis append_Nil list.set_intros(1) set_rev)
    then show ?thesis using ws(2) assms by (simp add: list_all_iff)
  next
    case (Cons a zs)
    then have a: "a = r" "r # xs = (r # zs) @ rev ws" using eq by simp_all
    have "rev (trim_left (rev (r # xs))) = r # zs" using Cons unfolding a(1) t_def .
    then show ?thesis using a(2) ws(2) by (metis list_all_rev)
  qed
qed

lemma trim_both_cases:
  obtains (space) "list_all is_space xs" "trim_both xs = []"
    | (nonspace) ws r zs ws' where "xs = ws @ (r # zs) @ ws'" "list_all is_space ws" "list_all is_space ws'" "\<not> is_space r"
      "trim_both xs = r # zs"
proof -
  obtain ws where ws: "xs = ws @ trim_left xs" "list_all is_space ws" using trim_left_split by blast
  show thesis
  proof (cases "trim_left xs")
    case Nil
    then show thesis using space ws trim_both_space by simp
  next
    case (Cons r ys)
    have r: "\<not> is_space r" using trim_left_hd Cons by blast
    from trim_right_keep [OF r, of ys] obtain zs ws' where zs: "rev (trim_left (rev (r # ys))) = r # zs" "r # ys = (r # zs) @ ws'" "list_all is_space ws'"
      by blast
    have "trim_both xs = r # zs" using zs(1) Cons by (simp add: trim_both_def)
    then show thesis using nonspace [of ws r zs ws'] ws Cons zs r by simp
  qed
qed

text \<open>The state after a blank prefix tells its slash, and only blank prefixes lead there.\<close>

lemma blank_states: "blank_prefix xs \<longleftrightarrow> scans u seps Lead xs \<in> {Lead, Slashed}"
proof (cases xs rule: trim_both_cases)
  case space
  then show ?thesis using scans_spaces by (simp add: blank_prefix_def)
next
  case (nonspace ws r zs ws')
  have run: "scans u seps Lead xs = scans u seps (scan_step u seps Lead r) (zs @ ws')"
    using nonspace scans_spaces(1) [OF nonspace(2)] by simp
  show ?thesis
  proof (cases "r = 47")
    case True
    have "scans u seps Lead xs \<noteq> Lead" using run True scans_leave_Lead by simp
    moreover have "scans u seps Slashed (zs @ ws') = Slashed \<longleftrightarrow> zs = []"
    proof -
      have "zs \<noteq> [] \<Longrightarrow> \<not> list_all is_space zs"
      proof
        assume zs: "zs \<noteq> []" "list_all is_space zs"
        have "trim_both xs = [47]"
          using nonspace(1,2,3) zs True by (simp add: trim_both_def trim_left_def list_all_iff dropWhile_append)
        then show False using nonspace(5) zs(1) by simp
      qed
      then show ?thesis using nonspace(3) scans_Slashed_Slashed [of u seps "zs @ ws'"] by auto
    qed
    ultimately show ?thesis using run True nonspace(5) by (simp add: blank_prefix_def)
  next
    case False
    have "scan_step u seps Lead r \<noteq> Lead" "scan_step u seps Lead r \<noteq> Slashed" using False nonspace(4) by simp_all
    then show ?thesis using run scans_leave_Lead scans_leave_Slashed nonspace(5) False by (simp add: blank_prefix_def)
  qed
qed

lemma leading_slash_states: "blank_prefix xs \<Longrightarrow> leading_slash xs = (if scans u seps Lead xs = Slashed then 1 else 0)"
proof (cases xs rule: trim_both_cases)
  case space
  then show ?thesis using scans_spaces by (simp add: leading_slash_def)
next
  case (nonspace ws r zs ws')
  assume "blank_prefix xs"
  then have "scans u seps Lead xs \<in> {Lead, Slashed}" "trim_both xs = [47]" using blank_states nonspace(5) by (auto simp: blank_prefix_def)
  moreover have "\<not> list_all is_space xs" using nonspace(1,4) by simp
  then have "scans u seps Lead xs \<noteq> Lead" using scans_Lead_Lead by blast
  ultimately show ?thesis by (simp add: leading_slash_def)
qed

lemma leading_slash_append:
  assumes "\<not> list_all is_space xs" shows "leading_slash (xs @ ys) = leading_slash xs"
proof (cases xs rule: trim_both_cases)
  case (nonspace ws r zs ws')
  then obtain zs' where "trim_both (xs @ ys) = r # zs'"
    using trim_right_keep [of r "zs @ ws' @ ys"] trim_left_space [OF nonspace(2), of "r # zs @ ws' @ ys"]
    by (auto simp: trim_both_def trim_left_nonspace)
  then show ?thesis using nonspace(5) by (simp add: leading_slash_def)
qed (use assms in simp)

lemma leading_slash_space: "list_all is_space ws \<Longrightarrow> leading_slash (ws @ ys) = leading_slash ys"
  by (simp add: leading_slash_def trim_both_def trim_left_space)

lemma leading_slash_cons: "\<not> is_space r \<Longrightarrow> leading_slash (r # ys) = (if r = 47 then 1 else 0)"
  using trim_right_keep [of r ys] by (auto simp: leading_slash_def trim_both_def trim_left_nonspace)

section \<open>Joining texts\<close>

text \<open>
  A keyword that follows text which is neither blank nor a keyword is none any more; after a
  slash, a keyword with a slash of its own is none.
\<close>

definition tables_ok :: "unicode \<Rightarrow> bool" where
  "tables_ok u \<longleftrightarrow> (\<forall>r. is_letter u r \<longrightarrow> \<not> is_space r)"

definition plain_seps :: "nat list \<Rightarrow> bool" where
  "plain_seps seps \<longleftrightarrow> (\<forall>r \<in> set seps. r \<le> 127 \<and> \<not> is_space r \<and> r \<notin> {47, 103, 97, 110})"

definition lagging :: "scan \<Rightarrow> scan \<Rightarrow> bool" where
  "lagging a b \<longleftrightarrow> a = Off \<or> b = Off \<or> (a, b) \<in> {(Word, Lead), (Letter1, Lead), (Letter2, Lead), (Letter3, Lead),
     (Letter2, Letter1), (Letter3, Letter2), (Word, Letter3), (Letter3, Letter1), (Word, Letter2), (Word, Letter1)}"

lemma fits_ok: "tables_ok u \<Longrightarrow> fits u e r \<Longrightarrow> e \<in> {103, 97, 110} \<Longrightarrow> \<not> is_space r"
  unfolding tables_ok_def fits_def by (elim disjE conjE insertE emptyE) simp_all

lemma fits_sep: "plain_seps seps \<Longrightarrow> fits u e r \<Longrightarrow> e \<in> {103, 97, 110} \<Longrightarrow> r \<notin> set seps"
  unfolding plain_seps_def fits_def by (elim disjE conjE insertE emptyE) (force dest: bspec)+

lemma lagging_cases:
  assumes "lagging a b"
  obtains "a = Off" | "b = Off" | "a = Word" "b \<in> {Lead, Letter1, Letter2, Letter3}" | "a = Letter1" "b = Lead"
    | "a = Letter2" "b \<in> {Lead, Letter1}" | "a = Letter3" "b \<in> {Lead, Letter1, Letter2}"
  using assms unfolding lagging_def by blast

lemma lagging_step:
  assumes ok: "tables_ok u" "plain_seps seps" and lag: "lagging a b"
  shows "lagging (scan_step u seps a r) (scan_step u seps b r)"
proof -
  have fits: "\<not> fits u 103 r \<and> \<not> fits u 97 r \<and> \<not> fits u 110 r" if "is_space r \<or> r = 47 \<or> r \<in> set seps"
  proof -
    have "\<not> fits u e r" if e: "e \<in> {103, 97, 110}" for e
      using \<open>is_space r \<or> r = 47 \<or> r \<in> set seps\<close>
    proof (elim disjE)
      assume "r = 47" then show ?thesis using e by (auto simp: fits_def)
    qed (use e fits_ok [OF ok(1)] fits_sep [OF ok(2)] in blast)+
    then show ?thesis by simp
  qed
  have sep: "r \<in> set seps \<Longrightarrow> \<not> is_space r \<and> r \<noteq> 47" using ok(2) by (auto simp: plain_seps_def)
  note lagging_def [simp]
  show ?thesis
  proof (cases "is_space r \<or> r = 47 \<or> r \<in> set seps")
    case True
    from lag show ?thesis by (cases rule: lagging_cases) (use fits [OF True] sep in auto)
  next
    case False
    from lag show ?thesis by (cases rule: lagging_cases) (use False in \<open>auto split: if_splits\<close>)
  qed
qed

lemma lagging_scans:
  "tables_ok u \<Longrightarrow> plain_seps seps \<Longrightarrow> lagging a b \<Longrightarrow> lagging (scans u seps a xs) (scans u seps b xs)"
  by (induction xs arbitrary: a b) (simp_all add: lagging_step)

lemma joined_off:
  assumes "tables_ok u" "plain_seps seps" "scans u seps Lead xs \<notin> {Lead, Slashed, Found}" "scans u seps Lead ys = Found"
  shows "scans u seps Lead (xs @ ys) = Off"
proof -
  have "lagging (scans u seps Lead xs) Lead" using assms(3) by (cases "scans u seps Lead xs") (auto simp: lagging_def)
  from lagging_scans [OF assms(1,2) this, of ys] show ?thesis using assms(4) by (auto simp: lagging_def)
qed

lemma keyword_shape:
  assumes "scans u seps Lead ys = Found"
  obtains ws r zs where "ys = ws @ r # zs" "list_all is_space ws" "\<not> is_space r" "scans u seps (scan_step u seps Lead r) zs = Found"
    "leading_slash ys = (if r = 47 then 1 else 0)"
proof -
  obtain ws where ws: "ys = ws @ trim_left ys" "list_all is_space ws" using trim_left_split by blast
  show thesis
  proof (cases "trim_left ys")
    case Nil
    then show ?thesis using assms ws scans_spaces(1) [OF ws(2), of u seps] by simp
  next
    case (Cons r zs)
    have r: "\<not> is_space r" using trim_left_hd Cons by blast
    have "scans u seps Lead (ws @ r # zs) = Found" using assms ws(1) Cons by simp
    then have "scans u seps (scan_step u seps Lead r) zs = Found" using scans_spaces(1) [OF ws(2), of u seps] by simp
    then show ?thesis using that [of ws r zs] ws Cons r leading_slash_space [OF ws(2)] leading_slash_cons [OF r] by simp
  qed
qed

lemma joined_slashes:
  assumes "scans u seps Lead xs = Slashed" "scans u seps Lead ys = Found" "leading_slash ys = 1"
  shows "scans u seps Lead (xs @ ys) = Off"
proof -
  obtain ws r zs where ys: "ys = ws @ r # zs" "list_all is_space ws" "\<not> is_space r"
    "scans u seps (scan_step u seps Lead r) zs = Found" "leading_slash ys = (if r = 47 then 1 else 0)"
    by (rule keyword_shape [OF assms(2)])
  then have "r = 47" using assms(3) by (simp split: if_splits)
  then show ?thesis using assms(1) ys(1) scans_spaces(2) [OF ys(2), of u seps] by simp
qed

lemma joined_keyword:
  assumes "scans u seps Lead xs \<in> {Lead, Slashed}" "scans u seps Lead ys = Found" "leading_slash xs + leading_slash ys \<le> 1"
  shows "scans u seps Lead (xs @ ys) = Found" "leading_slash (xs @ ys) = leading_slash xs + leading_slash ys"
proof -
  have blank: "blank_prefix xs" using assms(1) blank_states by blast
  show "scans u seps Lead (xs @ ys) = Found"
  proof (cases "scans u seps Lead xs = Lead")
    case False
    then have xs: "scans u seps Lead xs = Slashed" using assms(1) by simp
    then have "leading_slash ys = 0" using assms(3) leading_slash_states [OF blank, of u seps] by simp
    obtain ws r zs where ys: "ys = ws @ r # zs" "list_all is_space ws" "\<not> is_space r"
      "scans u seps (scan_step u seps Lead r) zs = Found" "leading_slash ys = (if r = 47 then 1 else 0)"
      by (rule keyword_shape [OF assms(2)])
    then have "r \<noteq> 47" using \<open>leading_slash ys = 0\<close> by (simp split: if_splits)
    then show ?thesis using xs ys(1,3,4) scans_spaces(2) [OF ys(2), of u seps] by simp
  qed (use assms(2) in simp)
  show "leading_slash (xs @ ys) = leading_slash xs + leading_slash ys"
  proof (cases "list_all is_space xs")
    case True
    have "leading_slash (xs @ []) = leading_slash []" using leading_slash_space [OF True] .
    then show ?thesis using leading_slash_space [OF True, of ys] by (simp add: leading_slash_def trim_both_def trim_left_def)
  next
    case False
    then have "leading_slash xs = 1" using leading_slash_states [OF blank, of u seps] scans_Lead_Lead [of u seps xs] assms(1) by auto
    then show ?thesis using leading_slash_append [OF False] assms(3) by simp
  qed
qed

lemma joined_space:
  assumes "plain_seps seps" "scans u seps Lead (xs @ [32]) = Found"
  shows "scans u seps Lead xs = Found"
proof -
  have "is_space 32" by (simp add: is_space_def)
  moreover have "32 \<notin> set seps" using assms(1) \<open>is_space 32\<close> by (auto simp: plain_seps_def)
  ultimately show ?thesis using assms(2) by (cases "scans u seps Lead xs") (auto simp: fits_def split: if_splits)
qed

section \<open>The brackets kept so far\<close>

text \<open>Normalisation that acts on each rune of a set by itself, as on all of ASCII.\<close>

definition rune_by_rune :: "unicode \<Rightarrow> nat set \<Rightarrow> bool" where
  "rune_by_rune u R \<longleftrightarrow> (\<forall>xs. set xs \<subseteq> R \<longrightarrow> nfkc u xs = concat (map (\<lambda>r. nfkc u [r]) xs))"

definition canon :: "unicode \<Rightarrow> string list \<Rightarrow> nat list" where
  "canon u g = canonicalEnvelopeText u (map rune_of g)"

lemma map_filter_append: "List.map_filter f (xs @ ys) = List.map_filter f xs @ List.map_filter f ys"
  by (simp add: List.map_filter_def)

lemma canon_append:
  assumes "rune_by_rune u R" "rune_of ` set (g @ h) \<subseteq> R"
  shows "canon u (g @ h) = canon u g @ canon u h"
proof -
  have each: "nfkc u (map rune_of k) = concat (map (\<lambda>r. nfkc u [r]) (map rune_of k))" if "rune_of ` set k \<subseteq> R" for k
    using assms(1) that by (simp add: rune_by_rune_def)
  have "rune_of ` set g \<subseteq> R" "rune_of ` set h \<subseteq> R" using assms(2) by auto
  then have "nfkc u (map rune_of (g @ h)) = nfkc u (map rune_of g) @ nfkc u (map rune_of h)"
    using each [of g] each [of h] each [OF assms(2)] by simp
  then show ?thesis by (simp add: canon_def canonicalEnvelopeText_def map_filter_append)
qed

definition bracket :: "unicode \<Rightarrow> string \<Rightarrow> bool" where
  "bracket u p \<longleftrightarrow> envelopeBracket u (rune_of p)"

definition opens :: "unicode \<Rightarrow> string \<Rightarrow> bool" where
  "opens u p \<longleftrightarrow> openingEnvelopeBracket u (rune_of p)"

lemma opens_bracket: "opens u p \<Longrightarrow> bracket u p"
  by (simp add: opens_def bracket_def envelopeBracket_def)

definition gap :: "unicode \<Rightarrow> string list \<Rightarrow> string list \<Rightarrow> bool" where
  "gap u body g \<longleftrightarrow> (\<forall>q \<in> set g. \<not> bracket u q \<and> q \<in> set body)"

lemma gap_append [simp]: "gap u body (g @ h) \<longleftrightarrow> gap u body g \<and> gap u body h" and gap_Nil [simp]: "gap u body []"
  by (auto simp: gap_def)

type_synonym tag_segment = "string \<times> string list"

definition laid :: "tag_segment list \<Rightarrow> string list" where
  "laid segs = concat (map (\<lambda>(b, g). b # g) segs)"

lemma laid_simps [simp]: "laid [] = []" "laid ((b, g) # segs) = b # g @ laid segs" "laid (xs @ ys) = laid xs @ laid ys"
  by (simp_all add: laid_def)

definition segments :: "unicode \<Rightarrow> string list \<Rightarrow> tag_segment list \<Rightarrow> bool" where
  "segments u body segs \<longleftrightarrow> (\<forall>(b, g) \<in> set segs. bracket u b \<and> b \<in> set body \<and> gap u body g)"

lemma segments_simps [simp]:
  "segments u body []" "segments u body ((b, g) # segs) \<longleftrightarrow> bracket u b \<and> b \<in> set body \<and> gap u body g \<and> segments u body segs"
  "segments u body (xs @ ys) \<longleftrightarrow> segments u body xs \<and> segments u body ys"
  by (auto simp: segments_def)

lemma segmentation:
  "set ps \<subseteq> set body \<Longrightarrow> \<exists>pre segs. ps = pre @ laid segs \<and> gap u body pre \<and> segments u body segs"
proof (induction ps)
  case Nil
  show ?case by (rule exI [of _ "[]"], rule exI [of _ "[]"]) simp
next
  case (Cons p ps)
  then obtain pre segs where ps: "ps = pre @ laid segs" "gap u body pre" "segments u body segs" by auto
  show ?case
  proof (cases "bracket u p")
    case True
    then show ?thesis using ps Cons.prems by (intro exI [of _ "[]"] exI [of _ "(p, pre) # segs"]) simp
  next
    case False
    then show ?thesis using ps Cons.prems by (intro exI [of _ "p # pre"] exI [of _ segs]) (simp add: gap_def)
  qed
qed

text \<open>The stack, innermost first, with the pending prefixes on top of it at their positions.\<close>

definition laid_out :: "string list \<Rightarrow> tag_segment list \<Rightarrow> string list" where
  "laid_out pre out = pre @ laid (rev out)"

fun linked :: "unicode \<Rightarrow> string list \<Rightarrow> string list \<Rightarrow> string list \<times> nat \<Rightarrow> nat \<Rightarrow> tag_prefix list \<Rightarrow> tag_segment list \<Rightarrow> bool" where
  "linked u body pre (result, copied) i [] out \<longleftrightarrow> copied \<le> i \<and> result @ between copied i body = laid_out pre out"
| "linked u body pre rc i (p # pending) [] \<longleftrightarrow> False"
| "linked u body pre rc i ((s, e, k) # pending) ((b, g) # out) \<longleftrightarrow>
     s < i \<and> e = Suc s \<and> opens u b \<and> blank_prefix (canon u g) \<and> k = leading_slash (canon u g) \<and> between s i body = b # g
     \<and> linked u body pre rc s pending out"

lemma between_append: "i \<le> j \<Longrightarrow> j \<le> k \<Longrightarrow> between i j xs @ between j k xs = between i k xs"
  using take_add [of "j - i" "k - j" "drop i xs"] by (simp add: between_def)

lemma between_tl: "i < j \<Longrightarrow> between i j xs = b # g \<Longrightarrow> between (Suc i) j xs = g"
  by (cases "drop i xs") (auto simp: between_def Suc_diff_Suc drop_Suc tl_drop [symmetric] take_Cons' split: if_splits)

lemma between_drop: "i \<le> length xs \<Longrightarrow> between i (length xs) xs = drop i xs"
  by (simp add: between_def)

lemma between_take: "drop i xs = ys @ zs \<Longrightarrow> between i (i + length ys) xs = ys"
  by (simp add: between_def)

lemma linked_laid:
  "linked u body pre rc i pending out \<Longrightarrow> snd rc \<le> i \<and> fst rc @ between (snd rc) i body = laid_out pre out"
proof (induction u body pre rc i pending out rule: linked.induct)
  case (3 u body pre rc i s e k pending b g out)
  then have IH: "snd rc \<le> s" "fst rc @ between (snd rc) s body = laid_out pre out" by simp_all
  have "between (snd rc) s body @ between s i body = between (snd rc) i body" using IH(1) 3 by (intro between_append) simp_all
  then have "fst rc @ between (snd rc) i body = (fst rc @ between (snd rc) s body) @ between s i body" by simp
  then have "fst rc @ between (snd rc) i body = laid_out pre out @ b # g" using IH(2) 3 by simp
  then show ?case using IH(1) 3 by (simp add: laid_out_def)
qed simp_all

text \<open>Text appended to what follows the innermost bracket.\<close>

fun extended :: "string list \<Rightarrow> tag_segment list \<Rightarrow> string list \<Rightarrow> string list \<times> tag_segment list" where
  "extended pre [] v = (pre @ v, [])"
| "extended pre ((b, g) # out) v = (pre, (b, g @ v) # out)"

lemma laid_extended: "laid_out (fst (extended pre out v)) (snd (extended pre out v)) = laid_out pre out @ v"
  by (cases out) (auto simp: laid_out_def)

text \<open>
  What the stack keeps: no kept opening bracket is followed by tag text, and the first one
  below the pending prefixes is not followed by blank text.
\<close>

definition harmless :: "unicode \<Rightarrow> nat list \<Rightarrow> tag_segment \<Rightarrow> bool" where
  "harmless u seps = (\<lambda>(b, g). opens u b \<longrightarrow> scans u seps Lead (canon u g) \<noteq> Found)"

definition settled_top :: "unicode \<Rightarrow> tag_segment list \<Rightarrow> bool" where
  "settled_top u out \<longleftrightarrow> (case out of [] \<Rightarrow> True | (b, g) # _ \<Rightarrow> opens u b \<longrightarrow> \<not> blank_prefix (canon u g))"

definition stack_ok :: "unicode \<Rightarrow> nat list \<Rightarrow> string list \<Rightarrow> string list \<Rightarrow> tag_prefix list \<Rightarrow> tag_segment list \<Rightarrow> bool" where
  "stack_ok u seps body pre pending out \<longleftrightarrow> gap u body pre \<and> segments u body out \<and> list_all (harmless u seps) out
     \<and> settled_top u (drop (length pending) out)"

lemma gap_runes: "gap u body g \<Longrightarrow> rune_of ` set g \<subseteq> rune_of ` set body"
  by (auto simp: gap_def)

lemma leading_slash_le: "leading_slash xs \<le> 1"
  by (auto simp: leading_slash_def split: list.split)

text \<open>Cutting the enclosing prefixes of a tag leaves a top that the joined text cannot turn into a tag.\<close>

definition defused :: "unicode \<Rightarrow> nat list \<Rightarrow> tag_segment list \<Rightarrow> bool" where
  "defused u v out \<longleftrightarrow> (case out of [] \<Rightarrow> True | (b, g) # _ \<Rightarrow>
     opens u b \<longrightarrow> \<not> blank_prefix (canon u g) \<or> blank_prefix (canon u g) \<and> leading_slash (canon u g) = 1 \<and> leading_slash v = 1)"

lemma cut_enclosing:
  assumes "linked u body pre rc i pending out" "stack_ok u seps body pre pending out"
    and "rune_by_rune u (rune_of ` set body)" "gap u body inner"
    and "scans u seps Lead (canon u inner) = Found" "k0 = leading_slash (canon u inner)"
  shows "\<exists>out' v. snd (fold (cut_prefix body) (rev (enclosing k0 pending)) rc) \<le> i
    \<and> fst (fold (cut_prefix body) (rev (enclosing k0 pending)) rc)
        @ between (snd (fold (cut_prefix body) (rev (enclosing k0 pending)) rc)) i body = laid_out pre out' @ v
    \<and> gap u body v \<and> segments u body out' \<and> list_all (harmless u seps) out'
    \<and> scans u seps Lead (canon u (v @ inner)) = Found \<and> defused u (canon u (v @ inner)) out'"
  using assms
proof (induction u body pre rc i pending out arbitrary: k0 inner rule: linked.induct)
  case (1 u body pre result copied i out)
  then show ?case
    by (intro exI [of _ out] exI [of _ "[]"])
      (auto simp: stack_ok_def settled_top_def defused_def split: list.splits)
next
  case (3 u body pre rc i s e k pending b g out)
  note nfkc = "3.prems"(3) and inner = "3.prems"(4) and tag = "3.prems"(5) and k0 = "3.prems"(6)
  have lk: "s < i" "e = Suc s" "opens u b" "blank_prefix (canon u g)" "k = leading_slash (canon u g)" "between s i body = b # g"
    "linked u body pre rc s pending out" using "3.prems"(1) by simp_all
  have ok: "gap u body g" "stack_ok u seps body pre pending out" "segments u body ((b, g) # out)" "list_all (harmless u seps) ((b, g) # out)"
    using "3.prems"(2) by (simp_all add: stack_ok_def)
  have runes: "rune_of ` set (g @ inner) \<subseteq> rune_of ` set body" using gap_runes ok(1) inner by fastforce
  have joined: "canon u (g @ inner) = canon u g @ canon u inner" by (rule canon_append [OF nfkc runes])
  have blank: "scans u seps Lead (canon u g) \<in> {Lead, Slashed}" using lk(4) blank_states by blast
  show ?case
  proof (cases "k0 + k \<le> 1")
    case True
    have slashes: "leading_slash (canon u g) + leading_slash (canon u inner) \<le> 1" using True lk(5) k0 by simp
    have keyword: "scans u seps Lead (canon u (g @ inner)) = Found"
      unfolding joined by (rule joined_keyword(1) [OF blank tag slashes])
    have count: "k0 + k = leading_slash (canon u (g @ inner))"
      using joined_keyword(2) [OF blank tag slashes] k0 lk(5) unfolding joined by simp
    have "gap u body (g @ inner)" using ok(1) inner by simp
    from "3.IH" [OF lk(7) ok(2) nfkc this keyword count] obtain out' v where
      IH: "snd (fold (cut_prefix body) (rev (enclosing (k0 + k) pending)) rc) \<le> s"
        "fst (fold (cut_prefix body) (rev (enclosing (k0 + k) pending)) rc)
          @ between (snd (fold (cut_prefix body) (rev (enclosing (k0 + k) pending)) rc)) s body = laid_out pre out' @ v"
      "gap u body v" "segments u body out'" "list_all (harmless u seps) out'"
      "scans u seps Lead (canon u (v @ g @ inner)) = Found" "defused u (canon u (v @ g @ inner)) out'"
      by blast
    define rc' where "rc' = fold (cut_prefix body) (rev (enclosing (k0 + k) pending)) rc"
    have fold: "fold (cut_prefix body) (rev (enclosing k0 ((s, e, k) # pending))) rc = (fst rc' @ between (snd rc') s body, e)"
      using True by (simp add: cut_prefix_def split_beta rc'_def)
    have out: "fst rc' @ between (snd rc') s body = laid_out pre out' @ v" using IH(2) unfolding rc'_def .
    have rest: "between e i body = g" using between_tl [OF lk(1,6)] lk(2) by simp
    show ?thesis
      unfolding fold fst_conv snd_conv out rest using IH(3-7) lk(1,2) ok(1)
      by (intro exI [of _ out'] exI [of _ "v @ g"]) simp
  next
    case False
    have one: "leading_slash (canon u g) = 1" "leading_slash (canon u inner) = 1"
      using False lk(5) k0 leading_slash_le [of "canon u g"] leading_slash_le [of "canon u inner"] by simp_all
    have none: "enclosing k0 ((s, e, k) # pending) = []" using False by simp
    have laid: "snd rc \<le> i \<and> fst rc @ between (snd rc) i body = laid_out pre ((b, g) # out)"
      by (rule linked_laid) (rule "3.prems"(1))
    have "defused u (canon u inner) ((b, g) # out)" using one lk(4) by (simp add: defused_def)
    then show ?thesis
      unfolding none using laid ok(3,4) tag
      by (intro exI [of _ "(b, g) # out"] exI [of _ "[]"]) simp
  qed
qed simp

text \<open>Joining the tag's text to the top of the stack.\<close>

lemma extend_ok:
  assumes "tables_ok u" "plain_seps seps" "rune_by_rune u (rune_of ` set body)"
    and "gap u body pre" "segments u body out" "list_all (harmless u seps) out"
    and "gap u body v" "scans u seps Lead (canon u v) = Found" "defused u (canon u v) out"
  shows "stack_ok u seps body (fst (extended pre out v)) [] (snd (extended pre out v))"
proof (cases out)
  case Nil
  then show ?thesis using assms by (simp add: stack_ok_def settled_top_def)
next
  case (Cons x rest)
  obtain b g where x: "x = (b, g)" by (cases x)
  have g: "gap u body g" using assms(5) Cons x by simp
  have runes: "rune_of ` set (g @ v) \<subseteq> rune_of ` set body" using gap_runes g assms(7) by fastforce
  have off: "scans u seps Lead (canon u (g @ v)) = Off" if "opens u b"
  proof -
    have top: "\<not> blank_prefix (canon u g) \<or> blank_prefix (canon u g) \<and> leading_slash (canon u g) = 1 \<and> leading_slash (canon u v) = 1"
      using assms(9) that Cons x by (simp add: defused_def)
    have fine: "scans u seps Lead (canon u g) \<noteq> Found" using assms(6) that Cons x by (simp add: harmless_def)
    show ?thesis
      unfolding canon_append [OF assms(3) runes]
    proof (cases "blank_prefix (canon u g)")
      case True
      then have one: "leading_slash (canon u g) = 1" "leading_slash (canon u v) = 1" using top by simp_all
      have "scans u seps Lead (canon u g) = Slashed"
        using leading_slash_states [OF True, of u seps] one(1) by (metis zero_neq_one)
      from joined_slashes [OF this assms(8) one(2)] show "scans u seps Lead (canon u g @ canon u v) = Off" .
    next
      case False
      then have "scans u seps Lead (canon u g) \<notin> {Lead, Slashed, Found}" using fine blank_states [of "canon u g" u seps] by blast
      from joined_off [OF assms(1,2) this assms(8)] show "scans u seps Lead (canon u g @ canon u v) = Off" .
    qed
  qed
  then have "opens u b \<Longrightarrow> \<not> blank_prefix (canon u (g @ v))" using blank_states [of "canon u (g @ v)" u seps] by simp
  then show ?thesis using off assms(4-7) Cons x by (auto simp: stack_ok_def settled_top_def harmless_def)
qed

section \<open>The loop\<close>

lemma defang_loop_gap:
  "\<forall>q \<in> set g. \<not> bracket u q \<Longrightarrow> defang_loop u kw body i (g @ ps) pending out = defang_loop u kw body (i + length g) ps pending out"
  by (induction g arbitrary: i) (simp_all add: bracket_def)

lemma tag_candidate_gap:
  assumes "\<forall>q \<in> set g. \<not> bracket u q" "segments u body segs"
  shows "tag_candidate u (g @ laid segs) = canon u g"
proof -
  have "takeWhile (\<lambda>q. \<not> envelopeBracket u (rune_of q)) (laid segs) = []"
    using assms(2) by (cases segs) (auto simp: bracket_def)
  then have "takeWhile (\<lambda>q. \<not> envelopeBracket u (rune_of q)) (g @ laid segs) = g"
    using assms(1) by (simp add: bracket_def takeWhile_append)
  then show ?thesis by (simp add: tag_candidate_def canon_def)
qed

lemma linked_push:
  assumes "linked u body pre rc i pending out" "drop i body = b # g @ rest"
  shows "linked u body pre rc (Suc i + length g) [] ((b, g) # out)"
    and "between i (Suc i + length g) body = b # g"
proof -
  show cut: "between i (Suc i + length g) body = b # g" using between_take [of i body "b # g" rest] assms(2) by simp
  have "snd rc \<le> i \<and> fst rc @ between (snd rc) i body = laid_out pre out" by (rule linked_laid) (rule assms(1))
  moreover have "between (snd rc) i body @ between i (Suc i + length g) body = between (snd rc) (Suc i + length g) body"
    using calculation by (intro between_append) simp_all
  ultimately show "linked u body pre rc (Suc i + length g) [] ((b, g) # out)"
    using cut by (cases rc) (simp add: laid_out_def, metis append.assoc)
qed

lemma defang_loop_ok:
  assumes "tables_ok u" "plain_seps seps" "rune_by_rune u (rune_of ` set body)" "segments u body segs"
    and "i \<le> length body" "drop i body = laid segs" "linked u body pre rc i pending out" "stack_ok u seps body pre pending out"
  shows "\<exists>pre' out'. fst (defang_loop u (envelopeKeywordBefore u seps) body i (laid segs) pending rc)
      @ drop (snd (defang_loop u (envelopeKeywordBefore u seps) body i (laid segs) pending rc)) body = laid_out pre' out'
    \<and> gap u body pre' \<and> segments u body out' \<and> list_all (harmless u seps) out'"
  using assms(4-)
proof (induction segs arbitrary: i pre rc pending out)
  case Nil
  then have "i = length body" by simp
  then have "fst rc @ drop (snd rc) body = laid_out pre out"
    using linked_laid [OF Nil.prems(4)] between_drop [of "snd rc" body] by simp
  then show ?case using Nil.prems(5) by (auto simp: stack_ok_def)
next
  case (Cons x segs)
  obtain b g where x: "x = (b, g)" by (cases x)
  have seg: "bracket u b" "gap u body g" "segments u body segs" "b \<in> set body" using Cons.prems(1) x by simp_all
  have here: "drop i body = b # g @ laid segs" using Cons.prems(3) x by simp
  let ?j = "Suc i + length g" and ?kw = "envelopeKeywordBefore u seps"
  have j: "?j \<le> length body" using arg_cong [OF here, of length] by simp
  have rest: "drop ?j body = laid segs" using here by (metis add_Suc append_eq_conv_conj drop_Suc_Cons drop_drop length_Cons add.commute)
  have skip: "defang_loop u ?kw body (Suc i) (g @ laid segs) P r = defang_loop u ?kw body ?j (laid segs) P r" for P r
    using defang_loop_gap [of g u ?kw body "Suc i"] seg(2) by (simp add: gap_def)
  have cand: "tag_candidate u (g @ laid segs) = canon u g" using tag_candidate_gap seg(2,3) by (simp add: gap_def)
  have push: "linked u body pre rc ?j [] ((b, g) # out)" "between i ?j body = b # g"
    using linked_push [OF Cons.prems(4) here] by simp_all
  have stack: "gap u body pre" "segments u body out" "list_all (harmless u seps) out" "settled_top u (drop (length pending) out)"
    using Cons.prems(5) by (simp_all add: stack_ok_def)
  have plain: ?case if "\<not> opens u b \<or> \<not> blank_prefix (canon u g) \<and> \<not> ?kw (canon u g)"
    and "defang_loop u ?kw body i (b # g @ laid segs) pending rc = defang_loop u ?kw body ?j (laid segs) [] rc"
  proof -
    have "stack_ok u seps body pre [] ((b, g) # out)"
      using stack seg that(1) by (auto simp: stack_ok_def settled_top_def harmless_def keyword_scans)
    from Cons.IH [OF seg(3) j rest push(1) this] show ?thesis unfolding x laid_simps that(2) by blast
  qed
  show ?case
  proof (cases "opens u b")
    case False
    then have "defang_loop u ?kw body i (b # g @ laid segs) pending rc = defang_loop u ?kw body ?j (laid segs) [] rc"
      using seg(1) skip by (simp add: bracket_def opens_def)
    with plain False show ?thesis by blast
  next
    case True
    note opens = True
    show ?thesis
    proof (cases "?kw (canon u g)")
      case True
      then have tag: "scans u seps Lead (canon u g) = Found" by (simp add: keyword_scans)
      define rc' where "rc' = fold (cut_prefix body) (rev (enclosing (leading_slash (canon u g)) pending)) rc"
      have step: "defang_loop u ?kw body i (b # g @ laid segs) pending rc
          = defang_loop u ?kw body ?j (laid segs) [] (fst rc' @ between (snd rc') i body, Suc i)"
        using opens True seg(1) skip cand by (simp add: bracket_def opens_def rc'_def split_beta Let_def)
      obtain out' v where cut: "snd rc' \<le> i" "fst rc' @ between (snd rc') i body = laid_out pre out' @ v" "gap u body v"
        "segments u body out'" "list_all (harmless u seps) out'" "scans u seps Lead (canon u (v @ g)) = Found" "defused u (canon u (v @ g)) out'"
        using cut_enclosing [OF Cons.prems(4,5) assms(3) seg(2) tag refl] unfolding rc'_def by blast
      let ?pre = "fst (extended pre out' (v @ g))" and ?out = "snd (extended pre out' (v @ g))"
      have ok: "stack_ok u seps body ?pre [] ?out"
        using extend_ok [OF assms(1-3) stack(1) cut(4,5) _ cut(6,7)] cut(3) seg(2) by simp
      have "between (Suc i) ?j body = g" using between_tl [OF _ push(2)] by simp
      then have "linked u body ?pre (fst rc' @ between (snd rc') i body, Suc i) ?j [] ?out"
        using laid_extended [of pre out' "v @ g"] cut(2) by simp
      from Cons.IH [OF seg(3) j rest this ok] show ?thesis unfolding x laid_simps step by blast
    next
      case False
      show ?thesis
      proof (cases "blank_prefix (canon u g)")
        case True
        have step: "defang_loop u ?kw body i (b # g @ laid segs) pending rc
            = defang_loop u ?kw body ?j (laid segs) ((i, Suc i, leading_slash (canon u g)) # pending) rc"
          using opens False True seg(1) skip cand by (simp add: bracket_def opens_def)
        have "linked u body pre rc ?j ((i, Suc i, leading_slash (canon u g)) # pending) ((b, g) # out)"
          using Cons.prems(4) opens True push(2) by simp
        moreover have "stack_ok u seps body pre ((i, Suc i, leading_slash (canon u g)) # pending) ((b, g) # out)"
          using stack seg False by (simp add: stack_ok_def harmless_def keyword_scans)
        ultimately show ?thesis unfolding x laid_simps step by (rule Cons.IH [OF seg(3) j rest])
      next
        case blank: False
        have "defang_loop u ?kw body i (b # g @ laid segs) pending rc = defang_loop u ?kw body ?j (laid segs) [] rc"
          using opens False blank seg(1) skip cand by (simp add: bracket_def opens_def)
        with plain False blank show ?thesis by blast
      qed
    qed
  qed
qed

section \<open>No tag is left\<close>

text \<open>The canonical text after each opening bracket, up to the next bracket.\<close>

fun candidates :: "unicode \<Rightarrow> string list \<Rightarrow> nat list list" where
  "candidates u [] = []"
| "candidates u (p # ps) = (if openingEnvelopeBracket u (rune_of p) then [tag_candidate u ps] else []) @ candidates u ps"

definition tag_texts :: "unicode \<Rightarrow> (nat list \<Rightarrow> bool) \<Rightarrow> string \<Rightarrow> nat list list" where
  "tag_texts u keyword s = filter keyword (candidates u (pieces s))"

lemma candidates_gap: "\<forall>q \<in> set g. \<not> bracket u q \<Longrightarrow> candidates u (g @ ps) = candidates u ps"
  by (induction g) (auto simp: bracket_def envelopeBracket_def)

lemma candidates_laid:
  "segments u body segs \<Longrightarrow> candidates u (laid segs) = map (\<lambda>(b, g). canon u g) (filter (\<lambda>(b, g). opens u b) segs)"
proof (induction segs)
  case (Cons x segs)
  obtain b g where x: "x = (b, g)" by (cases x)
  then have seg: "\<forall>q \<in> set g. \<not> bracket u q" "segments u body segs" using Cons.prems by (simp_all add: gap_def)
  then show ?case using Cons.IH x candidates_gap [OF seg(1)] tag_candidate_gap [OF seg] by (simp add: opens_def)
qed simp

lemma defang_untouched: "snd (defang_loop u kw body i ps pending rc) = 0 \<Longrightarrow> defang_loop u kw body i ps pending rc = rc"
proof (induction ps arbitrary: i pending rc)
  case (Cons p ps)
  show ?case
  proof (cases "envelopeBracket u (rune_of p) \<and> openingEnvelopeBracket u (rune_of p) \<and> kw (tag_candidate u ps)")
    case True
    let ?rc = "fold (cut_prefix body) (rev (enclosing (leading_slash (tag_candidate u ps)) pending)) rc"
    have "defang_loop u kw body i (p # ps) pending rc
        = defang_loop u kw body (Suc i) ps [] (fst ?rc @ between (snd ?rc) i body, Suc i)"
      using True by (simp add: split_beta Let_def)
    with Cons show ?thesis by (metis Zero_not_Suc snd_conv)
  next
    case False
    with Cons show ?thesis by (auto simp: Let_def split: if_splits)
  qed
qed simp

lemma defang_pieces:
  assumes "tables_ok u" "plain_seps seps" "valid_utf8 body" "rune_by_rune u (set (runes body))"
  obtains pre segs where "defangTagsWith u (envelopeKeywordBefore u seps) body = concat (pre @ laid segs)"
    "gap u (pieces body) pre" "segments u (pieces body) segs" "list_all (harmless u seps) segs"
proof -
  obtain pre0 segs0 where split: "pieces body = pre0 @ laid segs0" "gap u (pieces body) pre0" "segments u (pieces body) segs0"
    using segmentation [of "pieces body" "pieces body" u] by blast
  let ?kw = "envelopeKeywordBefore u seps"
  let ?loop = "defang_loop u ?kw (pieces body) 0 (pieces body) [] ([], 0)"
  have start: "?loop = defang_loop u ?kw (pieces body) (length pre0) (laid segs0) [] ([], 0)"
  proof -
    have "\<forall>q \<in> set pre0. \<not> bracket u q" using split(2) by (simp add: gap_def)
    from defang_loop_gap [OF this, of ?kw "pieces body" 0 "laid segs0"] show ?thesis using split(1) by simp
  qed
  have laid: "between 0 (length pre0) (pieces body) = pre0" using split(1) by (simp add: between_def)
  have "\<exists>pre' out'. fst ?loop @ drop (snd ?loop) (pieces body) = laid_out pre' out'
      \<and> gap u (pieces body) pre' \<and> segments u (pieces body) out' \<and> list_all (harmless u seps) out'"
    unfolding start
  proof (rule defang_loop_ok [OF assms(1,2) _ split(3)])
    show "rune_by_rune u (rune_of ` set (pieces body))" using assms(4) by (simp add: runes_def)
    show "length pre0 \<le> length (pieces body)" "drop (length pre0) (pieces body) = laid segs0" using split(1) by simp_all
    show "linked u (pieces body) pre0 ([], 0) (length pre0) [] []" using laid by (simp add: laid_out_def)
    show "stack_ok u seps (pieces body) pre0 [] []" using split(2) by (simp add: stack_ok_def settled_top_def)
  qed
  then obtain pre' out' where out: "fst ?loop @ drop (snd ?loop) (pieces body) = pre' @ laid (rev out')"
    "gap u (pieces body) pre'" "segments u (pieces body) out'" "list_all (harmless u seps) out'"
    unfolding laid_out_def by blast
  show thesis
  proof (cases "snd ?loop = 0")
    case True
    have "?loop = ([], 0)" by (rule defang_untouched) (rule True)
    then have "pieces body = pre' @ laid (rev out')" "defangTagsWith u ?kw body = body"
      using out(1) by (simp_all add: defangTagsWith_def)
    then have "defangTagsWith u ?kw body = concat (pre' @ laid (rev out'))" by (metis concat_pieces)
    then show ?thesis using that [of pre' "rev out'"] out by (auto simp: segments_def)
  next
    case False
    then have "defangTagsWith u ?kw body = concat (pre' @ laid (rev out'))"
      using out(1) by (simp add: defangTagsWith_def split_beta)
    then show ?thesis using that [of pre' "rev out'"] out by (auto simp: segments_def)
  qed
qed

lemma plain_separators: "plain_seps [58, 35]" "plain_seps [58]"
  by (simp_all add: plain_seps_def is_space_def)

lemma candidates_pieces:
  assumes "gap u body pre" "segments u body segs" "list_all (harmless u seps) segs"
  shows "filter (envelopeKeywordBefore u seps) (candidates u (pre @ laid segs)) = []"
proof -
  have "candidates u (pre @ laid segs) = map (\<lambda>(b, g). canon u g) (filter (\<lambda>(b, g). opens u b) segs)"
    using candidates_gap [of pre u "laid segs"] candidates_laid [OF assms(2)] assms(1) by (simp add: gap_def)
  then show ?thesis using assms(3) by (auto simp: filter_empty_conv list_all_iff harmless_def keyword_scans)
qed

lemma valid_parts:
  assumes "valid_utf8 body" "gap u (pieces body) pre" "segments u (pieces body) segs"
  shows "\<forall>p \<in> set (pre @ laid segs). wf_piece p"
  using assms by (fastforce simp: valid_utf8_def list_all_iff gap_def segments_def laid_def)

text \<open>The result is made of runes of the body and holds no tag.\<close>

lemma defang_result:
  assumes "tables_ok u" "plain_seps seps" "valid_utf8 body" "rune_by_rune u (set (runes body))"
  shows "valid_utf8 (defangTagsWith u (envelopeKeywordBefore u seps) body)"
    and "set (runes (defangTagsWith u (envelopeKeywordBefore u seps) body)) \<subseteq> set (runes body)"
    and "tag_texts u (envelopeKeywordBefore u seps) (defangTagsWith u (envelopeKeywordBefore u seps) body) = []"
proof -
  obtain pre segs where out: "defangTagsWith u (envelopeKeywordBefore u seps) body = concat (pre @ laid segs)"
    "gap u (pieces body) pre" "segments u (pieces body) segs" "list_all (harmless u seps) segs"
    by (rule defang_pieces [OF assms])
  have wf: "\<forall>p \<in> set (pre @ laid segs). wf_piece p" by (rule valid_parts [OF assms(3) out(2,3)])
  have sub: "set (pre @ laid segs) \<subseteq> set (pieces body)" using out(2,3) by (fastforce simp: gap_def segments_def laid_def)
  show "valid_utf8 (defangTagsWith u (envelopeKeywordBefore u seps) body)" unfolding out(1) by (rule valid_concat [OF wf])
  show "set (runes (defangTagsWith u (envelopeKeywordBefore u seps) body)) \<subseteq> set (runes body)"
    unfolding out(1) runes_def pieces_concat [OF wf] using sub by auto
  show "tag_texts u (envelopeKeywordBefore u seps) (defangTagsWith u (envelopeKeywordBefore u seps) body) = []"
    unfolding out(1) tag_texts_def pieces_concat [OF wf] by (rule candidates_pieces [OF out(2,3,4)])
qed

text \<open>
  C12 (defang_leaves_no_tag): after \<^verbatim>\<open>defangEnvelopeTags\<close> no opening bracket of a message is
  followed, up to the next bracket, by text that reads as an envelope tag, in lookalike
  letters and signs too; the same holds of the earlier renderer and its own tags. Removing
  a bracket joins the texts around it, and the loop also removes the enclosing brackets that
  would then open a tag. The normal form is assumed to act on each rune of the body by
  itself, as it does on ASCII.
\<close>

theorem defang_leaves_no_tag:
  assumes "tables_ok u" "valid_utf8 body" "rune_by_rune u (set (runes body))"
  shows "tag_texts u (envelopeKeyword u) (defangEnvelopeTags u body) = []
    \<and> tag_texts u (legacyKeyword u) (defangTagsWith u (legacyKeyword u) body) = []"
  using defang_result(3) [OF assms(1) _ assms(2,3)] plain_separators
  by (simp add: defangEnvelopeTags_def envelopeKeyword_def legacyKeyword_def)

text \<open>A tag inside a bracket with a slash: both brackets go.\<close>

definition ascii_unicode :: unicode where
  "ascii_unicode = \<lparr>is_ps = (\<lambda>r. r \<in> {40, 91, 123}), is_pe = (\<lambda>r. r \<in> {41, 93, 125}), is_mark = (\<lambda>_. False),
     is_letter = (\<lambda>r. 65 \<le> r \<and> r \<le> 90 \<or> 97 \<le> r \<and> r \<le> 122), is_cf = (\<lambda>_. False), is_concat_mark = (\<lambda>_. False),
     lower_rune = (\<lambda>r. if 65 \<le> r \<and> r \<le> 90 then r + 32 else r), nfkc = (\<lambda>rs. rs)\<rparr>"

lemma ascii_unicode_ok: "tables_ok ascii_unicode" "rune_by_rune ascii_unicode R"
  by (auto simp: tables_ok_def rune_by_rune_def ascii_unicode_def is_space_def concat_map_singleton)


lemmas eval_tags = List.map_filter_simps canonicalEnvelopeText_def canonical_rune_def is_space_def ascii_unicode_def
  envelopeKeyword_def envelopeKeywordBefore_def trim_left_def trim_slash_def gang_letters_def rune_of_def decode_ascii
  envelopeBracket_def openingEnvelopeBracket_def tag_candidate_def leading_slash_def blank_prefix_def cut_prefix_def
  between_def trim_both_def

theorem defang_leaves_no_tag_witness:
  "defangEnvelopeTags ascii_unicode ''[/[gang:x'' = ''/gang:x''
   \<and> tag_texts ascii_unicode (envelopeKeyword ascii_unicode) (defangEnvelopeTags ascii_unicode ''[/[gang:x'') = []
   \<and> tag_texts ascii_unicode (envelopeKeyword ascii_unicode) ''[/[gang:x'' = [[103, 97, 110, 103, 58, 120]]"
proof -
  have plain: "ascii ''[/[gang:x''" by (simp add: ascii_def)
  have split: "pieces ''[/[gang:x'' = [''['', ''/'', ''['', ''g'', ''a'', ''n'', ''g'', '':'', ''x'']"
    using pieces_ascii [OF plain, of "[]"] by simp
  have "defangEnvelopeTags ascii_unicode ''[/[gang:x'' = ''/gang:x''"
    unfolding defangEnvelopeTags_def defangTagsWith_def split by (simp add: eval_tags)
  moreover have "tag_texts ascii_unicode (envelopeKeyword ascii_unicode) ''[/[gang:x'' = [[103, 97, 110, 103, 58, 120]]"
    unfolding tag_texts_def split by (simp add: eval_tags)
  ultimately show ?thesis
    using defang_leaves_no_tag [OF ascii_unicode_ok(1) valid_ascii [OF plain] ascii_unicode_ok(2)] by simp
qed

end
