(* ===== verification/Envelope_Text.thy ===== *)
theory Envelope_Text
  imports Envelope_Defang Harness_Queue
begin

text \<open>
  The wire of an envelope (\<^verbatim>\<open>cmd/gang/delivery.go\<close>), its context stamp
  (\<^verbatim>\<open>context_stamp.go\<close>) and the wires an earlier release may have typed
  (\<^verbatim>\<open>envelope_legacy.go\<close>).
\<close>

section \<open>Kinds of envelopes\<close>

definition isContextBandNotice :: "envelope \<Rightarrow> bool" where
  "isContextBandNotice e \<longleftrightarrow> snd_kind (env_from e) = SenderGangline \<and> snd_name (env_from e) = ''context-band''"

definition isResumeEnvelope :: "envelope \<Rightarrow> bool" where
  "isResumeEnvelope e \<longleftrightarrow> env_purpose e = ''resume''
     \<or> snd_name (env_from e) = ''compact'' \<and> has_prefix (env_id e) ''resume-''"

definition isStartupEnvelope :: "envelope \<Rightarrow> bool" where
  "isStartupEnvelope e \<longleftrightarrow> env_purpose e = ''startup'' \<or> env_purpose e = ''assignment'' \<or> env_purpose e = ''clear''"

definition capacityEnvelope :: "envelope \<Rightarrow> bool" where
  "capacityEnvelope e \<longleftrightarrow> snd_kind (env_from e) = SenderGangline \<and> snd_name (env_from e) = ''capacity-recovery''"

definition withdrawable :: "envelope \<Rightarrow> bool" where
  "withdrawable e \<longleftrightarrow> snd_kind (env_from e) \<noteq> SenderGangline \<and> \<not> isStartupEnvelope e \<and> \<not> isResumeEnvelope e"

definition senderLabel :: "sender \<Rightarrow> string" where
  "senderLabel s =
     (if snd_kind s = SenderSelfDeclared then ''self-declared:'' @ snd_name s
      else if snd_kind s = SenderRegistered then ''registered:'' @ snd_name s
      else if snd_kind s = SenderPeer then
        (if snd_peer_class s = SenderRegistered then snd_host s @ '':registered:'' @ snd_name s
         else snd_host s @ '':'' @ snd_name s)
      else snd_name s)"

section \<open>The context stamp\<close>

text \<open>Integer division truncates toward zero; sums wrap around at 64 bits.\<close>

definition quot :: "int \<Rightarrow> int \<Rightarrow> int" where
  "quot a b = (if a < 0 then - ((- a) div b) else a div b)"

definition tokenUnits :: "int \<Rightarrow> string" where
  "tokenUnits n =
     (let k = quot (wrap64 (n + 500)) 1000; tenths = quot (wrap64 (n + 50000)) 100000 in
      if k < 1000 then show_int k @ ''k''
      else if tenths mod 10 = 0 then show_int (quot tenths 10) @ ''M''
      else show_int (quot tenths 10) @ ''.'' @ show_int (tenths - 10 * quot tenths 10) @ ''M'')"

definition contextStampText :: "reading \<Rightarrow> string" where
  "contextStampText r =
     (case (rd_used r, rd_limit r, rd_percent r) of
        (Some used, Some limit, Some _) \<Rightarrow>
          if rd_status r = ''observed'' then ''ctx='' @ tokenUnits used @ ''/'' @ tokenUnits limit else ''ctx=unknown''
      | _ \<Rightarrow> ''ctx=unknown'')"

text \<open>\<^verbatim>\<open>01-02T15:04:05Z\<close>: RFC 3339 without the year.\<close>

definition stamp_time :: "time \<Rightarrow> string" where
  "stamp_time t =
     (let s = t div second; (y, m, d) = civil (s div 86400); r = s mod 86400 in
      pad 2 (nat m) @ ''-'' @ pad 2 (nat d) @ ''T''
      @ pad 2 (nat (r div 3600)) @ '':'' @ pad 2 (nat (r mod 3600 div 60)) @ '':'' @ pad 2 (nat (r mod 60)) @ ''Z'')"

definition envelopeStampText :: "time \<Rightarrow> reading \<Rightarrow> string \<Rightarrow> string" where
  "envelopeStampText t r crossed =
     contextStampText r @ '' at='' @ stamp_time t @ (if crossed = '''' then '''' else '' crossed='' @ crossed)"

definition stampLine :: "string \<Rightarrow> string" where
  "stampLine stamp = ''[gang '' @ stamp @ '' /]''"

section \<open>The wire\<close>

definition line_end :: string where "line_end = [CHR 0x0A]"

fun render_sections :: "unicode \<Rightarrow> string \<Rightarrow> (string \<times> string) list \<Rightarrow> err + string list" where
  "render_sections u token [] = Inr []"
| "render_sections u token ((name, body) # rest) =
     (if body = '''' then render_sections u token rest
      else case renderGanglineEnvelope u (token @ ''-'' @ name) ''startup'' body of
        Inl e \<Rightarrow> Inl e
      | Inr part \<Rightarrow> (case render_sections u token rest of Inl e \<Rightarrow> Inl e | Inr parts \<Rightarrow> Inr (part # parts)))"

definition section_list :: "startup_sections \<Rightarrow> (string \<times> string) list" where
  "section_list s = [(''contract'', sec_contract s), (''doctrine'', sec_doctrine s), (''role'', sec_role s)]"

definition startupEnvelopeText :: "unicode \<Rightarrow> startup_sections \<Rightarrow> string \<Rightarrow> bool \<Rightarrow> string \<Rightarrow> string \<Rightarrow> string \<Rightarrow> err + string" where
  "startupEnvelopeText u sections sender system token purpose message =
     (if sec_contract sections = '''' \<or> message = '''' \<or> purpose \<notin> {''assignment'', ''startup'', ''clear''}
      then Inl (Fail ''invalid startup sections'')
      else case render_sections u token (section_list sections) of
        Inl e \<Rightarrow> Inl e
      | Inr parts \<Rightarrow>
          (case (if system \<or> purpose = ''startup'' then renderGanglineEnvelope u token purpose message
                 else renderEnvelope u sender token purpose message) of
             Inl e \<Rightarrow> Inl e
           | Inr part \<Rightarrow> budgeted (join_with (line_end @ line_end) (parts @ [part]))))"

definition stamp_of :: "envelope \<Rightarrow> string" where
  "stamp_of e = (case env_context_stamp e of None \<Rightarrow> '''' | Some c \<Rightarrow> stamp_text c)"

definition body_of :: "envelope \<Rightarrow> string" where
  "body_of e = (if env_context_stamp e \<noteq> None \<and> isContextBandNotice e then '''' else msg_text (env_message e))"

definition unstamped_text :: "unicode \<Rightarrow> envelope \<Rightarrow> err + string" where
  "unstamped_text u e =
     (let system = (snd_kind (env_from e) = SenderGangline); sender = senderLabel (env_from e) in
      case env_startup e of
        Some sections \<Rightarrow> startupEnvelopeText u sections sender system (env_token e) (env_purpose e) (body_of e)
      | None \<Rightarrow>
          if system then renderGanglineEnvelope u (env_token e) (env_purpose e) (body_of e)
          else renderEnvelope u sender (env_token e) (env_purpose e) (body_of e))"

text \<open>One line without brackets: brackets are dropped and the words joined by single spaces.\<close>

definition stamp_words :: "unicode \<Rightarrow> string \<Rightarrow> string" where
  "stamp_words u stamp =
     join_with '' '' (map concat (rune_fields (filter (\<lambda>p. \<not> envelopeBracket u (rune_of p)) (pieces stamp))))"

definition envelopeText :: "unicode \<Rightarrow> envelope \<Rightarrow> err + string" where
  "envelopeText u e =
     (case unstamped_text u e of
        Inl err \<Rightarrow> Inl err
      | Inr wire \<Rightarrow>
          if stamp_of e = '''' then Inr wire
          else (case validateMessageText u (stamp_of e) of
              Some err \<Rightarrow> Inl err
            | None \<Rightarrow> budgeted (wire @ line_end @ stampLine (stamp_words u (stamp_of e)))))"

text \<open>The longest stamp is reserved for when a message is queued.\<close>

definition longestStampReading :: reading where
  "longestStampReading = blank_reading\<lparr>rd_kind := ''context'', rd_status := ''observed'', rd_used := Some 999900000,
     rd_limit := Some 999900000, rd_percent := Some 100\<rparr>"

definition queuedEnvelopeText :: "unicode \<Rightarrow> envelope \<Rightarrow> err + string" where
  "queuedEnvelopeText u e =
     (case envelopeText u e of
        Inl err \<Rightarrow> Inl err
      | Inr wire \<Rightarrow>
          if env_context_stamp e \<noteq> None then Inr wire
          else (case envelopeText u (e\<lparr>env_context_stamp := Some \<lparr>stamp_text = envelopeStampText zero_time longestStampReading (env_crossed e),
                  stamp_crossings = []\<rparr>\<rparr>) of
              Inl err \<Rightarrow> Inl err
            | Inr _ \<Rightarrow> Inr wire))"

section \<open>The wires of an earlier release\<close>

definition legacyStampedBody :: "string \<Rightarrow> string \<Rightarrow> string" where
  "legacyStampedBody stamp body = (if stamp = '''' \<or> body = '''' then stamp @ body else stamp @ '' '' @ body)"

fun legacy_sections :: "unicode \<Rightarrow> string \<Rightarrow> string \<Rightarrow> (string \<times> string) list \<Rightarrow> err + string list" where
  "legacy_sections u token occupancy [] = Inr []"
| "legacy_sections u token occupancy ((name, body) # rest) =
     (if body = '''' then legacy_sections u token occupancy rest
      else case legacyRenderEnvelope u name (token @ ''-'' @ name) ''startup'' (legacyStampedBody occupancy body) of
        Inl e \<Rightarrow> Inl e
      | Inr part \<Rightarrow> (case legacy_sections u token occupancy rest of Inl e \<Rightarrow> Inl e | Inr parts \<Rightarrow> Inr (part # parts)))"

definition legacyEnvelopeText :: "unicode \<Rightarrow> envelope \<Rightarrow> err + string" where
  "legacyEnvelopeText u e =
     (let sender = senderLabel (env_from e); stamp = stamp_of e; message = body_of e in
      case env_startup e of
        None \<Rightarrow> legacyRenderEnvelope u sender (env_token e) (env_purpose e) (legacyStampedBody stamp message)
      | Some sections \<Rightarrow>
          (case legacy_sections u (env_token e) (fst (cut stamp '';'')) (section_list sections) of
             Inl err \<Rightarrow> Inl err
           | Inr parts \<Rightarrow>
               (case legacyRenderEnvelope u (if env_purpose e = ''startup'' then ''startup'' else sender) (env_token e)
                   (env_purpose e) (legacyStampedBody stamp message) of
                  Inl err \<Rightarrow> Inl err
                | Inr part \<Rightarrow> Inr (join_with (line_end @ line_end) (parts @ [part])))))"

text \<open>\<^verbatim>\<open>at=01-02T15:04:05Z\<close>: what follows it, if the text starts with it.\<close>

definition clock_digit :: "char \<Rightarrow> bool" where
  "clock_digit c \<longleftrightarrow> CHR ''0'' \<le> c \<and> c \<le> CHR ''9''"

fun shape :: "string \<Rightarrow> string \<Rightarrow> string option" where
  "shape [] s = Some s"
| "shape (p # ps) [] = None"
| "shape (p # ps) (c # s) = (if (if p = CHR ''#'' then clock_digit c else c = p) then shape ps s else None)"

definition blank_char :: "char \<Rightarrow> bool" where
  "blank_char c \<longleftrightarrow> c \<in> {CHR 0x09, CHR 0x0A, CHR 0x0C, CHR 0x0D, CHR '' ''}"

text \<open>What follows \<^verbatim>\<open>ctx=\S+ at=...Z\<close>.\<close>

definition after_stamp :: "string \<Rightarrow> string option" where
  "after_stamp s =
     (if \<not> has_prefix s ''ctx='' then None
      else let r = drop 4 s in
        if takeWhile (\<lambda>c. \<not> blank_char c) r = '''' then None
        else shape '' at=##-##T##:##:##Z'' (dropWhile (\<lambda>c. \<not> blank_char c) r))"

definition currentStamp :: "string \<Rightarrow> bool" where
  "currentStamp s = (case after_stamp s of None \<Rightarrow> False
     | Some r \<Rightarrow> (case r of [] \<Rightarrow> True | c # _ \<Rightarrow> c = CHR '' '' \<or> c = CHR '';''))"

definition strip_stamp_line :: "string \<Rightarrow> string" where
  "strip_stamp_line s =
     (let t = trim_prefix s line_end in
      if \<not> has_prefix t ''[gang '' then s
      else case after_stamp (drop 6 t) of
          None \<Rightarrow> s
        | Some r \<Rightarrow>
            (case cut r '']'' of (inside, after, ended) \<Rightarrow>
               if ended \<and> CHR 0x0A \<notin> set inside \<and> has_suffix inside '' /'' then after else s))"

end
