(* ===== verification/Envelope_Wires.thy ===== *)
theory Envelope_Wires
  imports Envelope_Text
begin

text \<open>
  A wire holds exactly the tags Gangline writes: one opening and one closing tag per message
  and per startup section, in order. No text of a sender, of a section or of a stamp adds one.
\<close>

section \<open>ASCII text under the tables\<close>

definition ascii_tables :: "unicode \<Rightarrow> bool" where
  "ascii_tables u \<longleftrightarrow> (\<forall>r \<in> {..<128}. is_ps u r = (r \<in> {40, 91, 123}) \<and> is_pe u r = (r \<in> {41, 93, 125})
     \<and> \<not> is_mark u r \<and> \<not> is_cf u r \<and> nfkc u [r] = [r] \<and> lower_rune u r = (if 65 \<le> r \<and> r \<le> 90 then r + 32 else r))"

definition chars :: "string \<Rightarrow> string list" where
  "chars s = map (\<lambda>c. [c]) s"

lemma chars_simps [simp]: "chars [] = []" "chars (c # s) = [c] # chars s" "chars (s @ t) = chars s @ chars t"
  by (simp_all add: chars_def)

lemma pieces_chars: "ascii s \<Longrightarrow> pieces (s @ t) = chars s @ pieces t"
  by (simp add: pieces_ascii chars_def)

lemma rune_of_char: "of_char c < (128 :: nat) \<Longrightarrow> rune_of [c] = of_char c"
  by (simp add: rune_of_def decode_ascii)

definition plain_char :: "char \<Rightarrow> bool" where
  "plain_char c \<longleftrightarrow> of_char c < (128 :: nat) \<and> (of_char c :: nat) \<notin> {40, 41, 91, 93, 123, 125}"

lemma ascii_brackets:
  assumes "ascii_tables u" "r < 128"
  shows "openingEnvelopeBracket u r \<longleftrightarrow> r \<in> {40, 91, 123}" "envelopeBracket u r \<longleftrightarrow> r \<in> {40, 91, 123, 41, 93, 125}"
proof -
  have "is_ps u r = (r \<in> {40, 91, 123}) \<and> is_pe u r = (r \<in> {41, 93, 125})" using assms by (simp add: ascii_tables_def)
  then show "openingEnvelopeBracket u r \<longleftrightarrow> r \<in> {40, 91, 123}" "envelopeBracket u r \<longleftrightarrow> r \<in> {40, 91, 123, 41, 93, 125}"
    using assms(2) by (auto simp: openingEnvelopeBracket_def envelopeBracket_def)
qed

lemma plain_chars:
  assumes "ascii_tables u" "list_all plain_char s" "q \<in> set (chars s)"
  shows "\<not> bracket u q"
proof -
  obtain c where c: "q = [c]" "plain_char c" using assms(2,3) by (auto simp: chars_def list_all_iff)
  then show ?thesis
    using ascii_brackets(2) [OF assms(1), of "of_char c"] by (auto simp: bracket_def plain_char_def rune_of_char)
qed

lemma canon_char:
  assumes "ascii_tables u" "of_char c < (128 :: nat)"
  shows "canon u [[c]] = (let r = of_char c in
    if is_space r then [32] else if 65 \<le> r \<and> r \<le> 90 then [r + 32] else [r])"
proof -
  have "nfkc u [of_char c] = [of_char c]" "\<not> is_mark u (of_char c)"
    "lower_rune u (of_char c) = (if 65 \<le> (of_char c :: nat) \<and> of_char c \<le> (90 :: nat) then of_char c + 32 else of_char c)"
    using assms by (simp_all add: ascii_tables_def)
  then show ?thesis
    using assms(2) by (auto simp: canon_def canonicalEnvelopeText_def canonical_rune_def rune_of_char List.map_filter_simps Let_def)
qed

lemma canon_chars:
  assumes "ascii_tables u" "rune_by_rune u R" "{..<128} \<subseteq> R" "ascii s" "rune_of ` set g \<subseteq> R"
  shows "canon u (chars s @ g) = concat (map (\<lambda>c. canon u [[c]]) s) @ canon u g"
  using assms(4)
proof (induction s)
  case (Cons c s)
  have "rune_of ` set ([[c]] @ chars s @ g) \<subseteq> R"
    using Cons.prems assms(3,5) by (auto simp: chars_def ascii_def rune_of_char subset_eq)
  from canon_append [OF assms(2) this] show ?case using Cons by simp
qed simp

section \<open>Tags of joined texts\<close>

abbreviation tags_in :: "unicode \<Rightarrow> string list \<Rightarrow> nat list list" where
  "tags_in u ps \<equiv> filter (envelopeKeyword u) (candidates u ps)"

lemma tag_candidate_stop: "\<exists>q \<in> set xs. bracket u q \<Longrightarrow> tag_candidate u (xs @ ys) = tag_candidate u xs"
  by (auto simp: tag_candidate_def bracket_def takeWhile_append1)

lemma tag_candidate_open: "\<forall>q \<in> set xs. \<not> bracket u q \<Longrightarrow> tag_candidate u xs = canon u xs"
  by (simp add: tag_candidate_def canon_def bracket_def takeWhile_eq_all_conv [THEN iffD2])

lemma tag_candidate_next: "ys = [] \<or> bracket u (hd ys) \<Longrightarrow> tag_candidate u (xs @ ys) = tag_candidate u xs"
proof (cases "\<exists>q \<in> set xs. bracket u q")
  case False
  assume "ys = [] \<or> bracket u (hd ys)"
  then have "takeWhile (\<lambda>q. \<not> envelopeBracket u (rune_of q)) ys = []" by (cases ys) (auto simp: bracket_def)
  moreover have "takeWhile (\<lambda>q. \<not> envelopeBracket u (rune_of q)) xs = xs"
    using False by (simp add: takeWhile_eq_all_conv bracket_def)
  ultimately show ?thesis using False by (simp add: tag_candidate_def bracket_def takeWhile_append del: takeWhile_eq_all_conv)
qed (rule tag_candidate_stop)

lemma candidates_before: "ys = [] \<or> bracket u (hd ys) \<Longrightarrow> candidates u (xs @ ys) = candidates u xs @ candidates u ys"
  by (induction xs) (simp_all add: tag_candidate_next)

lemma candidates_closed:
  assumes "bracket u b" "\<not> opens u b"
  shows "candidates u ((xs @ [b]) @ ys) = candidates u (xs @ [b]) @ candidates u ys"
proof (induction xs)
  case Nil
  then show ?case using assms by (simp add: opens_def)
next
  case (Cons x xs)
  have "tag_candidate u ((xs @ [b]) @ ys) = tag_candidate u (xs @ [b])" by (rule tag_candidate_stop) (use assms in simp)
  then show ?case using Cons by simp
qed

lemma canon_space:
  assumes "ascii_tables u" "rune_by_rune u R" "{..<128} \<subseteq> R" "rune_of ` set g \<subseteq> R"
  shows "canon u (g @ ['' '']) = canon u g @ [32]"
proof -
  have "rune_of ` set (g @ ['' '']) \<subseteq> R" using assms(3,4) by (auto simp: rune_of_char)
  from canon_append [OF assms(2) this] show ?thesis
    using canon_char [OF assms(1), of "CHR '' ''"] by (simp add: is_space_def)
qed

text \<open>A space at the end adds no tag.\<close>

lemma tags_space:
  assumes "ascii_tables u" "rune_by_rune u R" "{..<128} \<subseteq> R" "rune_of ` set ps \<subseteq> R" "tags_in u ps = []"
  shows "tags_in u (ps @ ['' '']) = []"
  using assms(4,5)
proof (induction ps)
  case Nil
  have "\<not> openingEnvelopeBracket u 32" using ascii_brackets(1) [OF assms(1), of 32] by simp
  then show ?case by (simp add: rune_of_char)
next
  case (Cons p ps)
  have "\<not> envelopeKeyword u (tag_candidate u (ps @ ['' '']))" if "openingEnvelopeBracket u (rune_of p)"
  proof (cases "\<exists>q \<in> set ps. bracket u q")
    case True
    then show ?thesis using tag_candidate_stop [OF True, of "['' '']"] Cons.prems(2) that by (simp split: if_splits)
  next
    case False
    have "\<not> bracket u '' ''" using ascii_brackets(2) [OF assms(1), of 32] by (simp add: bracket_def rune_of_char)
    then have "tag_candidate u (ps @ ['' '']) = canon u (ps @ ['' ''])" using False by (intro tag_candidate_open) auto
    moreover have "tag_candidate u ps = canon u ps" using False by (intro tag_candidate_open) auto
    moreover have "canon u (ps @ ['' '']) = canon u ps @ [32]" by (rule canon_space [OF assms(1-3)]) (use Cons.prems in auto)
    ultimately show ?thesis
      using Cons.prems(2) that joined_space [OF plain_separators(1)] by (auto simp: envelopeKeyword_def keyword_scans)
  qed
  then show ?case using Cons by (auto split: if_splits)
qed

section \<open>One frame\<close>

definition tag_head :: "string \<Rightarrow> bool" where
  "tag_head s \<longleftrightarrow> list_all plain_char s \<and> (has_prefix s ''gang:'' \<or> has_prefix s ''gang#'')"

definition tag_name :: "unicode \<Rightarrow> string \<Rightarrow> nat list" where
  "tag_name u s = canonicalEnvelopeText u (runes s)"

lemma plain_ascii: "list_all plain_char s \<Longrightarrow> ascii s"
  by (auto simp: ascii_def plain_char_def list_all_iff)

lemma tag_name_chars: "ascii s \<Longrightarrow> tag_name u s = canon u (chars s)"
  using pieces_chars [of s "[]"] by (simp add: tag_name_def canon_def runes_def)

lemma head_keyword:
  assumes "ascii_tables u" "rune_by_rune u R" "{..<128} \<subseteq> R" "has_prefix s ''gang:'' \<or> has_prefix s ''gang#''" "ascii s"
  shows "envelopeKeyword u (tag_name u s)" "envelopeKeyword u (tag_name u (''/'' @ s))"
proof -
  obtain sep rest where s: "s = ''gang'' @ sep # rest" "sep = CHR '':'' \<or> sep = CHR ''#''"
    using assms(4) by (auto simp: has_prefix_iff)
  have each: "canon u [[c]] = [of_char c]" if "c \<in> set ''gang:#/''" for c
    using that canon_char [OF assms(1), of c] by (auto simp: is_space_def)
  have rest: "rune_of ` set (chars rest) \<subseteq> R" using assms(3,5) s by (auto simp: chars_def ascii_def rune_of_char subset_eq)
  have "canon u (chars (''gang'' @ [sep]) @ chars rest) = concat (map (\<lambda>c. canon u [[c]]) (''gang'' @ [sep])) @ canon u (chars rest)"
    by (rule canon_chars [OF assms(1-3) _ rest]) (use s(2) in auto)
  moreover have "canon u (chars (''/gang'' @ [sep]) @ chars rest) = concat (map (\<lambda>c. canon u [[c]]) (''/gang'' @ [sep])) @ canon u (chars rest)"
    by (rule canon_chars [OF assms(1-3) _ rest]) (use s(2) in auto)
  ultimately have names: "tag_name u s = [103, 97, 110, 103, of_char sep] @ canon u (chars rest)"
    "tag_name u (''/'' @ s) = [47, 103, 97, 110, 103, of_char sep] @ canon u (chars rest)"
    using s each assms(5) by (auto simp: tag_name_chars)
  have "\<not> is_space 58" "\<not> is_space 35" by (simp_all add: is_space_def)
  then show "envelopeKeyword u (tag_name u s)" "envelopeKeyword u (tag_name u (''/'' @ s))"
    unfolding names envelopeKeyword_def keyword_scans using s(2) by (auto simp: fits_def)
qed

lemma framed_tags:
  assumes "ascii_tables u" "rune_by_rune u R" "{..<128} \<subseteq> R" "list_all plain_char label" "tag_head label" "tag_head head"
    and "tags_in u ps = []" "rune_of ` set ps \<subseteq> R"
  shows "tags_in u (chars (''['' @ label @ '']'' @ '' '') @ ps @ chars (''[/'' @ head @ '']'')) = [tag_name u label, tag_name u (''/'' @ head)]"
proof -
  have brackets: "bracket u ''['' \<and> opens u ''[''" "bracket u '']'' \<and> \<not> opens u '']''" "\<not> openingEnvelopeBracket u 32"
    using ascii_brackets [OF assms(1), of 91] ascii_brackets [OF assms(1), of 93] ascii_brackets [OF assms(1), of 32]
    by (simp_all add: bracket_def opens_def rune_of_char)
  have plain: "\<forall>q \<in> set (chars s). \<not> bracket u q" if "list_all plain_char s" for s
    using plain_chars [OF assms(1) that] by blast
  have one: "candidates u (chars (''['' @ s @ '']'')) = [tag_name u s]" if s: "list_all plain_char s" for s
  proof -
    have "candidates u (chars s @ ['']'']) = []"
      using candidates_gap [OF plain [OF s], of "['']'']"] brackets(2) by (simp add: opens_def)
    moreover have "tag_candidate u (chars s @ ['']'']) = canon u (chars s)"
      using tag_candidate_next [of "['']'']" u "chars s"] brackets(2) tag_candidate_open [OF plain [OF s]] by simp
    ultimately show ?thesis using brackets(1) tag_name_chars [OF plain_ascii [OF s]] by (simp add: opens_def)
  qed
  have slash: "list_all plain_char (''/'' @ head)" using assms(6) by (simp add: tag_head_def plain_char_def)
  have first: "candidates u (chars (''['' @ label @ '']'' @ '' '') @ ps @ chars (''[/'' @ head @ '']''))
      = [tag_name u label] @ candidates u (('' '' # ps) @ chars (''[/'' @ head @ '']''))"
    using candidates_closed [of u "'']''" "chars (''['' @ label)" "('' '' # ps) @ chars (''[/'' @ head @ '']'')"] brackets(2) one [OF assms(4)]
    by simp
  have last: "candidates u (('' '' # ps) @ chars (''[/'' @ head @ '']'')) = candidates u ('' '' # ps) @ [tag_name u (''/'' @ head)]"
    using candidates_before [of "chars (''[/'' @ head @ '']'')" u "'' '' # ps"] brackets(1) one [OF slash] by simp
  have "candidates u ('' '' # ps) = candidates u ps" using brackets(3) by (simp add: rune_of_char)
  moreover have "envelopeKeyword u (tag_name u label)" "envelopeKeyword u (tag_name u (''/'' @ head))"
    using head_keyword [OF assms(1-3)] assms(4-6) plain_ascii by (auto simp: tag_head_def)
  ultimately show ?thesis unfolding first last using assms(7) by simp
qed

section \<open>Rendered tags\<close>

definition tag_label :: "string \<Rightarrow> string \<Rightarrow> string" where
  "tag_label head marker = (if marker = '''' then head else head @ '' '' @ marker)"

definition frame_tags :: "unicode \<Rightarrow> string \<Rightarrow> string \<Rightarrow> nat list list" where
  "frame_tags u head marker = [tag_name u (tag_label head marker), tag_name u (''/'' @ head)]"

text \<open>A text that ends with a closing bracket and holds these tags.\<close>

definition framed :: "unicode \<Rightarrow> nat list list \<Rightarrow> string \<Rightarrow> bool" where
  "framed u tags s \<longleftrightarrow> valid_utf8 s \<and> (\<exists>xs. pieces s = xs @ ['']'']) \<and> tags_in u (pieces s) = tags"

lemma alnum_plain: "alnum c \<or> c \<in> set ''._:-'' \<Longrightarrow> plain_char c"
  by (auto simp: alnum_def plain_char_def Let_def)

lemma lowercase_plain: "lowercase c \<or> c = CHR ''-'' \<Longrightarrow> plain_char c"
  by (auto simp: lowercase_def plain_char_def Let_def)

lemma token_plain:
  assumes "envelopeTokenPattern s" shows "list_all plain_char s"
proof -
  obtain c cs where s: "s = c # cs" "alnum c" "\<forall>d \<in> set cs. alnum d \<or> d \<in> set ''._:-''"
    using assms by (auto simp: envelopeTokenPattern_def list_all_iff split: list.splits)
  then show ?thesis using alnum_plain by (simp add: list_all_iff)
qed

lemma marker_plain:
  assumes "envelopeMarkerPattern s" shows "list_all plain_char s"
proof -
  obtain c cs where s: "s = c # cs" "lowercase c" "\<forall>d \<in> set cs. lowercase d \<or> d = CHR ''-''"
    using assms by (auto simp: envelopeMarkerPattern_def list_all_iff split: list.splits)
  then show ?thesis using lowercase_plain by (simp add: list_all_iff)
qed

lemma head_ok:
  assumes "sender = '''' \<or> envelopeTokenPattern sender" "envelopeTokenPattern nonce"
  shows "tag_head (envelopeHead sender nonce)"
  using assms token_plain [of sender] token_plain [of nonce]
  by (auto simp: tag_head_def envelopeHead_def has_prefix_iff plain_char_def)

lemma rendered_valid: "renderEnvelopeTag u head marker body = Inr wire \<Longrightarrow>
    valid_utf8 body \<and> (marker = '''' \<or> envelopeMarkerPattern marker)
    \<and> wire = frame head marker (if defangEnvelopeTags u body = '''' then '''' else defangEnvelopeTags u body @ '' '')"
  by (auto simp: renderEnvelopeTag_def validateMessageText_def budgeted_def checkEnvelopeBudget_def Let_def
      split: option.splits if_splits)

lemma rendered_framed:
  assumes "ascii_tables u" "tables_ok u" "rune_by_rune u R" "{..<128} \<subseteq> R" "tag_head head" "set (runes body) \<subseteq> R"
    and "renderEnvelopeTag u head marker body = Inr wire"
  shows "framed u (frame_tags u head marker) wire"
proof -
  note rend = rendered_valid [OF assms(7)]
  have plain_head: "list_all plain_char head" using assms(5) by (simp add: tag_head_def)
  have label: "tag_head (tag_label head marker)" "list_all plain_char (tag_label head marker)"
    using assms(5) rend marker_plain [of marker] by (auto simp: tag_head_def tag_label_def has_prefix_iff plain_char_def)
  define body' where "body' = defangEnvelopeTags u body"
  have nfkc: "rune_by_rune u (set (runes body))" using assms(3,6) by (auto simp: rune_by_rune_def)
  have res: "valid_utf8 body'" "set (runes body') \<subseteq> R" "tags_in u (pieces body') = []"
    using defang_result [OF assms(2) plain_separators(1) _ nfkc] rend assms(6)
    by (auto simp: body'_def defangEnvelopeTags_def envelopeKeyword_def tag_texts_def)
  define ps where "ps = (if body' = '''' then [] else pieces body' @ ['' ''])"
  have runes: "rune_of ` set (pieces body') \<subseteq> R" using res(2) by (simp add: runes_def)
  have ps: "tags_in u ps = []" "rune_of ` set ps \<subseteq> R"
    using tags_space [OF assms(1,3,4) runes res(3)] runes assms(4) by (auto simp: ps_def rune_of_char)
  have space: "pieces (body' @ '' '') = pieces body' @ ['' '']"
    using pieces_valid [OF res(1), of "'' ''"] pieces_ascii [of "'' ''" "[]"] by simp
  have body: "\<forall>p \<in> set ps. wf_piece p" "concat ps = (if body' = '''' then '''' else body' @ '' '')"
    using res(1) by (auto simp: ps_def valid_utf8_def list_all_iff wf_ascii)
  have ascii: "ascii (''['' @ tag_label head marker @ '']'' @ '' '')" "ascii (''[/'' @ head @ '']'')"
    using plain_ascii [OF label(2)] plain_ascii [OF plain_head] by simp_all
  have wire: "wire = (''['' @ tag_label head marker @ '']'' @ '' '') @ concat ps @ ''[/'' @ head @ '']'' @ []"
    using rend body(2) by (simp add: frame_def envelopeOpening_def tag_label_def body'_def)
  have pieces: "pieces wire = chars (''['' @ tag_label head marker @ '']'' @ '' '') @ ps @ chars (''[/'' @ head @ '']'')"
    unfolding wire pieces_chars [OF ascii(1)] pieces_concat_append [OF body(1)]
    using pieces_chars [OF ascii(2), of "[]"] by simp
  have "valid_utf8 wire"
    using wire valid_append [OF valid_ascii [OF ascii(1)]] valid_append [OF valid_concat [OF body(1)]] valid_ascii [OF ascii(2)] by simp
  moreover have "tags_in u (pieces wire) = frame_tags u head marker"
    unfolding pieces frame_tags_def by (rule framed_tags [OF assms(1,3,4) label(2,1) assms(5) ps])
  moreover have "pieces wire = (chars (''['' @ tag_label head marker @ '']'' @ '' '') @ ps @ chars (''[/'' @ head)) @ ['']'']"
    unfolding pieces by simp
  ultimately show ?thesis unfolding framed_def by blast
qed

lemma framed_join:
  assumes "ascii_tables u" "framed u ss s" "framed u ts t"
  shows "framed u (ss @ ts) (s @ line_end @ line_end @ t)"
proof -
  obtain xs ys where parts: "valid_utf8 s" "valid_utf8 t" "pieces s = xs @ ['']'']" "pieces t = ys @ ['']'']"
    "tags_in u (pieces s) = ss" "tags_in u (pieces t) = ts" using assms(2,3) by (auto simp: framed_def)
  have br: "bracket u '']''" "\<not> opens u '']''" "\<not> openingEnvelopeBracket u 10"
    using ascii_brackets [OF assms(1), of 93] ascii_brackets [OF assms(1), of 10] by (simp_all add: bracket_def opens_def rune_of_char)
  have nl: "pieces (line_end @ line_end @ t) = line_end # line_end # pieces t"
    using pieces_ascii [of "line_end @ line_end" t] by (simp add: line_end_def)
  have pieces: "pieces (s @ line_end @ line_end @ t) = pieces s @ line_end # line_end # pieces t"
    using pieces_valid [OF parts(1)] nl by simp
  have "valid_utf8 (s @ line_end @ line_end @ t)"
    using parts(1,2) valid_append [OF parts(1)] valid_append [OF valid_ascii, of "line_end @ line_end" t] by (simp add: line_end_def)
  moreover have "tags_in u (pieces (s @ line_end @ line_end @ t)) = ss @ ts"
    unfolding pieces parts(3) using candidates_closed [OF br(1,2), of xs "line_end # line_end # pieces t"] br(3) parts(3,5,6)
    by (simp add: line_end_def rune_of_char)
  moreover have "pieces (s @ line_end @ line_end @ t) = (pieces s @ line_end # line_end # ys) @ ['']'']"
    unfolding pieces parts(4) by simp
  ultimately show ?thesis unfolding framed_def by blast
qed

lemma framed_join_all:
  assumes "ascii_tables u"
  shows "list_all2 (framed u) tags parts \<Longrightarrow> framed u ts s \<Longrightarrow>
    framed u (concat tags @ ts) (join_with (line_end @ line_end) (parts @ [s]))"
proof (induction rule: list_all2_induct)
  case (Cons t tags p parts)
  have "framed u (t @ concat tags @ ts) (p @ line_end @ line_end @ join_with (line_end @ line_end) (parts @ [s]))"
    by (rule framed_join [OF assms Cons(1)]) (rule Cons(3) [OF Cons(4)])
  then show ?case by (cases parts) simp_all
qed simp

section \<open>The stamp line\<close>

lemma join_fields: "\<exists>qs. join_with '' '' (map concat ws) = concat qs \<and> set qs \<subseteq> insert '' '' (\<Union> (set ` set ws))
    \<and> (ws \<noteq> [] \<longrightarrow> hd ws \<noteq> [] \<longrightarrow> qs \<noteq> [] \<and> hd qs = hd (hd ws))"
proof (induction ws rule: induct_list012)
  case (2 w)
  show ?case by (rule exI [of _ w]) auto
next
  case 1
  show ?case by (rule exI [of _ "[]"]) simp
next
  case (3 w w' ws)
  then obtain qs where qs: "join_with '' '' (map concat (w' # ws)) = concat qs" "set qs \<subseteq> insert '' '' (\<Union> (set ` set (w' # ws)))" by blast
  show ?case by (rule exI [of _ "w @ '' '' # qs"]) (use qs in auto)
qed

lemma stamp_words_parts:
  assumes "ascii_tables u" "valid_utf8 stamp" "has_prefix stamp ''c''"
  shows "\<exists>qs. stamp_words u stamp = concat (''c'' # qs) \<and> (\<forall>q \<in> set qs. wf_piece q \<and> \<not> bracket u q \<and> rune_of q \<in> insert 32 (set (runes stamp)))"
proof -
  obtain rest where rest: "stamp = ''c'' @ rest" using assms(3) by (auto simp: has_prefix_iff)
  let ?ps = "filter (\<lambda>p. \<not> envelopeBracket u (rune_of p)) (pieces stamp)"
  have c: "\<not> envelopeBracket u (rune_of ''c'')" "\<not> is_space (rune_of ''c'')"
    using ascii_brackets(2) [OF assms(1), of 99] by (simp_all add: rune_of_char is_space_def)
  have "pieces stamp = ''c'' # pieces rest" using rest pieces_ascii [of "''c''" rest] by simp
  then have fields: "rune_fields ?ps \<noteq> []" "hd (rune_fields ?ps) \<noteq> []" "hd (hd (rune_fields ?ps)) = ''c''"
    using c by (simp_all add: rune_fields.simps [of "''c'' # _"])
  obtain qs where qs: "join_with '' '' (map concat (rune_fields ?ps)) = concat qs"
    "set qs \<subseteq> insert '' '' (\<Union> (set ` set (rune_fields ?ps)))" "qs \<noteq> []" "hd qs = hd (hd (rune_fields ?ps))"
    using join_fields [of "rune_fields ?ps"] fields by blast
  have sub: "set qs \<subseteq> insert '' '' (set ?ps)" using qs(2) rune_fields_parts [of _ ?ps] by blast
  have "wf_piece q \<and> \<not> bracket u q \<and> rune_of q \<in> insert 32 (set (runes stamp))" if "q \<in> set qs" for q
    using sub that assms(2) ascii_brackets(2) [OF assms(1), of 32]
    by (auto simp: valid_utf8_def list_all_iff bracket_def runes_def wf_ascii rune_of_char)
  moreover have "qs = ''c'' # tl qs" using qs(3,4) fields(3) by (cases qs) simp_all
  ultimately show ?thesis using qs(1) unfolding stamp_words_def by (metis list.set_intros(2))
qed

lemma stamp_line_tags:
  assumes "ascii_tables u" "rune_by_rune u R" "{..<128} \<subseteq> R" "valid_utf8 stamp" "has_prefix stamp ''c''" "set (runes stamp) \<subseteq> R"
  shows "tags_in u (pieces (stampLine (stamp_words u stamp))) = []"
proof -
  obtain qs where qs: "stamp_words u stamp = concat (''c'' # qs)"
    "\<forall>q \<in> set qs. wf_piece q \<and> \<not> bracket u q \<and> rune_of q \<in> insert 32 (set (runes stamp))"
    using stamp_words_parts [OF assms(1,4,5)] by blast
  have runes: "rune_of ` set qs \<subseteq> R" using qs(2) assms(3,6) by fastforce
  let ?in = "chars ''gang c'' @ qs @ chars '' /''"
  have br: "bracket u '']''" "\<not> opens u '']''" "opens u ''[''"
    using ascii_brackets [OF assms(1), of 93] ascii_brackets [OF assms(1), of 91] by (simp_all add: bracket_def opens_def rune_of_char)
  have plain: "\<forall>q \<in> set ?in. \<not> bracket u q"
    using plain_chars [OF assms(1), of "''gang c''"] plain_chars [OF assms(1), of "'' /''"] qs(2) by (auto simp: plain_char_def)
  have "stampLine (stamp_words u stamp) = ''[gang c'' @ concat qs @ '' /]''" using qs(1) by (simp add: stampLine_def)
  moreover have "pieces (''[gang c'' @ concat qs @ '' /]'') = chars ''[gang c'' @ pieces (concat qs @ '' /]'')"
    by (rule pieces_chars) simp
  moreover have "pieces (concat qs @ '' /]'') = qs @ pieces '' /]''" by (rule pieces_concat_append) (use qs(2) in blast)
  moreover have "pieces '' /]'' = chars '' /]''" using pieces_chars [of "'' /]''" "[]"] by simp
  ultimately have pieces: "pieces (stampLine (stamp_words u stamp)) = ''['' # ?in @ ['']'']" by simp
  have cand: "tag_candidate u (?in @ ['']'']) = canon u ?in"
    using tag_candidate_next [of "['']'']" u ?in] br(1) tag_candidate_open [OF plain] by simp
  have lead: "canon u ?in = concat (map (\<lambda>c. canon u [[c]]) ''gang c'') @ canon u (qs @ chars '' /'')"
    by (rule canon_chars [OF assms(1-3)]) (use runes assms(3) in \<open>auto simp: rune_of_char\<close>)
  have gang: "concat (map (\<lambda>c. canon u [[c]]) ''gang c'') = [103, 97, 110, 103, 32, 99]"
    using canon_char [OF assms(1)] by (simp add: is_space_def)
  have "\<not> envelopeKeyword u (tag_candidate u (?in @ ['']'']))"
    unfolding cand lead gang by (simp add: envelopeKeyword_def keyword_scans fits_def is_space_def)
  moreover have "candidates u (?in @ ['']'']) = []" using candidates_gap [OF plain, of "['']'']"] br(2) by (simp add: opens_def)
  ultimately show ?thesis unfolding pieces using br(3) by (simp add: opens_def)
qed

section \<open>The tags of a wire\<close>

text \<open>The head and the marker of each part: the startup sections, then the message.\<close>

definition wire_parts :: "envelope \<Rightarrow> (string \<times> string) list" where
  "wire_parts e =
     (case env_startup e of None \<Rightarrow> []
      | Some s \<Rightarrow> map (\<lambda>(name, body). (envelopeHead '''' (env_token e @ ''-'' @ name), ''startup''))
          (filter (\<lambda>(name, body). body \<noteq> '''') (section_list s)))
     @ [(envelopeHead (if snd_kind (env_from e) = SenderGangline \<or> env_startup e \<noteq> None \<and> env_purpose e = ''startup'' then ''''
           else senderLabel (env_from e)) (env_token e), env_purpose e)]"

definition wire_tags :: "unicode \<Rightarrow> envelope \<Rightarrow> nat list list" where
  "wire_tags u e = concat (map (\<lambda>(head, marker). frame_tags u head marker) (wire_parts e))"

definition wire_runes :: "envelope \<Rightarrow> nat set" where
  "wire_runes e = {..<128} \<union> set (runes (body_of e)) \<union> set (runes (stamp_of e))
     \<union> (case env_startup e of None \<Rightarrow> {} | Some s \<Rightarrow> (\<Union>(name, body) \<in> set (section_list s). set (runes body)))"

lemma budgeted_wire: "budgeted s = Inr wire \<Longrightarrow> wire = s"
  by (simp add: budgeted_def split: option.splits)

lemma gangline_framed:
  assumes tables: "ascii_tables u" "tables_ok u" "rune_by_rune u R" "{..<128} \<subseteq> R"
    and "set (runes body) \<subseteq> R" "renderGanglineEnvelope u nonce marker body = Inr wire"
  shows "framed u (frame_tags u (envelopeHead '''' nonce) marker) wire"
proof -
  have "envelopeTokenPattern nonce" "renderEnvelopeTag u (envelopeHead '''' nonce) marker body = Inr wire"
    using assms(6) by (simp_all add: renderGanglineEnvelope_def renderEnvelopeHead_def split: if_splits)
  then show ?thesis using rendered_framed [OF tables head_ok assms(5)] by simp
qed

lemma sender_framed:
  assumes tables: "ascii_tables u" "tables_ok u" "rune_by_rune u R" "{..<128} \<subseteq> R"
    and "set (runes body) \<subseteq> R" "renderEnvelope u sender nonce marker body = Inr wire"
  shows "framed u (frame_tags u (envelopeHead sender nonce) marker) wire"
proof -
  have "envelopeTokenPattern sender" "envelopeTokenPattern nonce" "renderEnvelopeTag u (envelopeHead sender nonce) marker body = Inr wire"
    using assms(6) by (simp_all add: renderEnvelope_def renderEnvelopeHead_def split: if_splits)
  then show ?thesis using rendered_framed [OF tables head_ok assms(5)] by simp
qed

lemma sections_framed:
  assumes "ascii_tables u" "tables_ok u" "rune_by_rune u R" "{..<128} \<subseteq> R"
  shows "render_sections u token ss = Inr parts \<Longrightarrow> \<forall>(name, body) \<in> set ss. set (runes body) \<subseteq> R \<Longrightarrow>
   list_all2 (framed u) (map (\<lambda>(name, body). frame_tags u (envelopeHead '''' (token @ ''-'' @ name)) ''startup'')
     (filter (\<lambda>(name, body). body \<noteq> '''') ss)) parts"
proof (induction ss arbitrary: parts)
  case (Cons x ss)
  obtain name body where x: "x = (name, body)" by (cases x)
  show ?case
  proof (cases "body = ''''")
    case False
    then obtain part rest where parts: "renderGanglineEnvelope u (token @ ''-'' @ name) ''startup'' body = Inr part"
      "render_sections u token ss = Inr rest" "parts = part # rest" using Cons.prems(1) x by (auto split: sum.splits)
    have "set (runes body) \<subseteq> R" using Cons.prems(2) x by simp
    from gangline_framed [OF assms this parts(1)] show ?thesis using Cons.IH [OF parts(2)] Cons.prems(2) parts(3) x False by simp
  qed (use Cons x in simp)
qed simp

lemma unstamped_framed:
  assumes tables: "ascii_tables u" "tables_ok u" "rune_by_rune u R" "{..<128} \<subseteq> R"
    and "wire_runes e \<subseteq> R" "unstamped_text u e = Inr wire"
  shows "framed u (wire_tags u e) wire"
proof (cases "env_startup e")
  case None
  have body: "set (runes (body_of e)) \<subseteq> R" using assms(5) by (simp add: wire_runes_def)
  show ?thesis
    using assms(6) gangline_framed [OF tables body] sender_framed [OF tables body] None
    by (auto simp: unstamped_text_def wire_tags_def wire_parts_def Let_def split: if_splits)
next
  case (Some s)
  have body: "set (runes (body_of e)) \<subseteq> R" "\<forall>(name, body) \<in> set (section_list s). set (runes body) \<subseteq> R"
    using assms(5) Some by (auto simp: wire_runes_def)
  let ?gang = "snd_kind (env_from e) = SenderGangline \<or> env_purpose e = ''startup''"
  from assms(6) obtain parts part where parts: "render_sections u (env_token e) (section_list s) = Inr parts"
    "(if ?gang then renderGanglineEnvelope u (env_token e) (env_purpose e) (body_of e)
      else renderEnvelope u (senderLabel (env_from e)) (env_token e) (env_purpose e) (body_of e)) = Inr part"
    "budgeted (join_with (line_end @ line_end) (parts @ [part])) = Inr wire"
    unfolding unstamped_text_def startupEnvelopeText_def Some Let_def option.case by (auto split: if_splits sum.splits)
  have "framed u (frame_tags u (envelopeHead (if ?gang then '''' else senderLabel (env_from e)) (env_token e)) (env_purpose e)) part"
    using parts(2) gangline_framed [OF tables body(1)] sender_framed [OF tables body(1)] by (auto split: if_splits)
  from framed_join_all [OF tables(1) sections_framed [OF tables parts(1) body(2)] this] show ?thesis
    unfolding budgeted_wire [OF parts(3)] wire_tags_def wire_parts_def using Some by (simp add: comp_def split_def)
qed

lemma stamped_tags:
  assumes tables: "ascii_tables u" "tables_ok u" "rune_by_rune u R" "{..<128} \<subseteq> R"
    and "wire_runes e \<subseteq> R" "stamp_of e = '''' \<or> has_prefix (stamp_of e) ''ctx=''" "envelopeText u e = Inr wire"
  shows "tags_in u (pieces wire) = wire_tags u e"
proof -
  obtain w where w: "unstamped_text u e = Inr w" using assms(7) by (cases "unstamped_text u e") (simp_all add: envelopeText_def)
  have fr: "framed u (wire_tags u e) w" by (rule unstamped_framed [OF tables assms(5) w])
  show ?thesis
  proof (cases "stamp_of e = ''''")
    case True
    then show ?thesis using assms(7) w fr by (simp add: envelopeText_def framed_def)
  next
    case False
    let ?line = "stampLine (stamp_words u (stamp_of e))"
    have valid: "valid_utf8 (stamp_of e)" and wire: "wire = w @ line_end @ ?line"
      using assms(7) w False budgeted_wire by (auto simp: envelopeText_def validateMessageText_def split: option.splits if_splits)
    have "has_prefix (stamp_of e) ''c''" using assms(6) False by (auto simp: has_prefix_iff)
    moreover have "set (runes (stamp_of e)) \<subseteq> R" using assms(5) by (simp add: wire_runes_def)
    ultimately have none: "tags_in u (pieces ?line) = []" by (rule stamp_line_tags [OF tables(1,3,4) valid])
    obtain xs where xs: "valid_utf8 w" "pieces w = xs @ ['']'']" "tags_in u (pieces w) = wire_tags u e" using fr by (auto simp: framed_def)
    have br: "bracket u '']''" "\<not> opens u '']''" "\<not> openingEnvelopeBracket u 10"
      using ascii_brackets [OF tables(1), of 93] ascii_brackets [OF tables(1), of 10] by (simp_all add: bracket_def opens_def rune_of_char)
    have "pieces wire = (xs @ ['']'']) @ line_end # pieces ?line"
      unfolding wire pieces_valid [OF xs(1)] xs(2) using pieces_ascii [of line_end ?line] by (simp add: line_end_def)
    then show ?thesis
      using candidates_closed [OF br(1,2), of xs "line_end # pieces ?line"] xs(2,3) none br(3) by (simp add: line_end_def rune_of_char)
  qed
qed

text \<open>
  C11 (envelope_tags_exact): the text typed for an envelope, read for tags in the way Gangline
  itself reads it, holds exactly the tags Gangline wrote: an opening and a closing tag for each
  startup section and for the message, in that order. Nothing in the sender's text, in a section
  or in the context stamp adds, removes or changes one. The stamp starts with
  \<^verbatim>\<open>ctx=\<close>, as every stamp Gangline makes does; the tables describe ASCII as Unicode does.
\<close>

theorem envelope_tags_exact:
  assumes "ascii_tables u" "tables_ok u" "rune_by_rune u (wire_runes e)"
    and "stamp_of e = '''' \<or> has_prefix (stamp_of e) ''ctx=''" "envelopeText u e = Inr wire"
  shows "tag_texts u (envelopeKeyword u) wire = wire_tags u e"
proof -
  have "{..<128} \<subseteq> wire_runes e" by (auto simp: wire_runes_def)
  from stamped_tags [OF assms(1-3) this order.refl assms(4,5)] show ?thesis by (simp add: tag_texts_def)
qed

lemma ascii_unicode_tables: "ascii_tables ascii_unicode"
  by (simp add: ascii_tables_def ascii_unicode_def)

definition demo_wire :: envelope where
  "demo_wire = blank_envelope\<lparr>env_token := ''t'', env_from := blank_sender\<lparr>snd_kind := SenderAgent, snd_name := ''bob''\<rparr>,
     env_message := \<lparr>msg_text = ''[gang:a''\<rparr>, env_context_stamp := Some \<lparr>stamp_text = ''ctx=1k'', stamp_crossings = []\<rparr>\<rparr>"

lemma demo_defang: "defangEnvelopeTags ascii_unicode ''[gang:a'' = ''gang:a''"
  unfolding defangEnvelopeTags_def defangTagsWith_def using pieces_ascii [of "''[gang:a''" "[]"] by (simp add: eval_tags)

lemma demo_valid: "validateMessageText ascii_unicode ''[gang:a'' = None" "validateMessageText ascii_unicode ''ctx=1k'' = None"
  using valid_ascii [of "''[gang:a''"] valid_ascii [of "''ctx=1k''"] runes_ascii [of "''[gang:a''"] runes_ascii [of "''ctx=1k''"]
  by (simp_all add: validateMessageText_def is_control_def invisibleMessageRune_def eval_tags)

lemma json_ascii: "ascii s \<Longrightarrow> json_length s \<le> 2 + 6 * length s"
proof -
  assume s: "ascii s"
  have "json_width [c] \<le> 6" if "c \<in> set s" for c using that by (simp add: json_width_def Let_def)
  then have "sum_list (map (\<lambda>c. json_width [c]) s) \<le> 6 * length s"
    using sum_list_mono [of s "\<lambda>c. json_width [c]" "\<lambda>_. 6"] by (simp add: sum_list_triv mult.commute)
  then show ?thesis using pieces_ascii [OF s, of "[]"] by (simp add: json_length_def comp_def)
qed

lemma demo_budget: "ascii s \<Longrightarrow> length s \<le> 100 \<Longrightarrow> budgeted s = Inr s"
  using json_ascii [of s] by (simp add: budgeted_def checkEnvelopeBudget_def maximumMessageBytes_def)

lemma demo_words: "stamp_words ascii_unicode ''ctx=1k'' = ''ctx=1k''"
  unfolding stamp_words_def using pieces_ascii [of "''ctx=1k''" "[]"] by (simp add: eval_tags rune_fields.simps)

lemma demo_stamp: "stamp_of demo_wire = ''ctx=1k''"
  by (simp add: demo_wire_def stamp_of_def)

lemma demo_text: "envelopeText ascii_unicode demo_wire
    = Inr (''[gang:bob#t] gang:a [/gang:bob#t]'' @ line_end @ ''[gang ctx=1k /]'')"
proof -
  have "renderEnvelope ascii_unicode ''bob'' ''t'' '''' ''[gang:a'' = Inr ''[gang:bob#t] gang:a [/gang:bob#t]''"
    using demo_budget [of "''[gang:bob#t] gang:a [/gang:bob#t]''"]
    by (simp add: renderEnvelope_def renderEnvelopeHead_def renderEnvelopeTag_def demo_valid demo_defang frame_def
        envelopeHead_def envelopeOpening_def envelopeTokenPattern_def alnum_def)
  moreover have "budgeted (''[gang:bob#t] gang:a [/gang:bob#t]'' @ line_end @ stampLine ''ctx=1k'')
      = Inr (''[gang:bob#t] gang:a [/gang:bob#t]'' @ line_end @ ''[gang ctx=1k /]'')"
    by (subst demo_budget) (simp_all add: line_end_def stampLine_def)
  ultimately show ?thesis
    unfolding envelopeText_def demo_stamp demo_words demo_valid
    by (simp add: demo_wire_def unstamped_text_def body_of_def senderLabel_def sender_kinds isContextBandNotice_def blank_envelope_def)
qed

theorem envelope_tags_exact_witness:
  "envelopeText ascii_unicode demo_wire = Inr (''[gang:bob#t] gang:a [/gang:bob#t]'' @ line_end @ ''[gang ctx=1k /]'')
   \<and> tag_texts ascii_unicode (envelopeKeyword ascii_unicode) (''[gang:bob#t] gang:a [/gang:bob#t]'' @ line_end @ ''[gang ctx=1k /]'')
     = wire_tags ascii_unicode demo_wire \<and> length (wire_tags ascii_unicode demo_wire) = 2"
proof -
  have "length (wire_tags ascii_unicode demo_wire) = 2"
    by (simp add: wire_tags_def wire_parts_def frame_tags_def demo_wire_def blank_envelope_def)
  moreover have "has_prefix (stamp_of demo_wire) ''ctx=''" by (simp add: demo_stamp has_prefix_iff)
  ultimately show ?thesis
    using envelope_tags_exact [OF ascii_unicode_tables ascii_unicode_ok _ demo_text] demo_text by blast
qed

end
