(* ===== verification/Envelope_Stamp.thy ===== *)
theory Envelope_Stamp
  imports Envelope_Wires Context_Bands Store_Inbox
begin

text \<open>
  Stamping an envelope for delivery (\<^verbatim>\<open>cmd/gang/context_stamp.go\<close>): the reading of the
  recipient's context and the band actions that still fit, and why a message accepted into
  the queue cannot be refused when it is typed.
\<close>

section \<open>Widths of numbers\<close>

definition stamp_char :: "char \<Rightarrow> bool" where
  "stamp_char c \<longleftrightarrow> plain_char c \<and> \<not> is_space (of_char c) \<and> \<not> is_control (of_char c) \<and> json_width [c] = 1"

lemma digit_stamp: "stamp_char (digit_char d)"
proof -
  obtain m where m: "m = d mod 10" "m < 10" by simp
  have n: "(of_char (digit_char d) :: nat) = 48 + m" using m by (simp add: digit_char_def)
  then have "wf_piece [digit_char d]" "rune_of [digit_char d] = 48 + m" using m by (simp_all add: wf_ascii rune_of_char)
  then show ?thesis using n m(2) by (simp add: stamp_char_def plain_char_def is_space_def is_control_def json_width_def Let_def)
qed

lemma decimal_stamp: "list_all stamp_char (decimal n)"
proof (induction n rule: decimal.induct)
  case (1 n)
  then show ?case by (subst decimal.simps) (simp add: digit_stamp)
qed

lemma decimal_length: "n < 10 ^ Suc k \<Longrightarrow> length (decimal n) \<le> Suc k"
proof (induction k arbitrary: n)
  case 0
  then show ?case by (subst decimal.simps) simp
next
  case (Suc k)
  have "length (decimal (n div 10)) \<le> Suc k" by (rule Suc.IH) (use Suc.prems in simp)
  then show ?case by (subst decimal.simps) simp
qed

lemma pad_length: "n < 100 \<Longrightarrow> length (pad 2 n) = 2" "2 \<le> length (pad 2 n)"
  using decimal_length [of n 1] by (simp_all add: pad_def Let_def)

lemma pad_stamp: "list_all stamp_char (pad k n)"
proof -
  have "(of_char (digit_char 0) :: nat) = of_char (CHR ''0'')" by (simp add: digit_char_def)
  then have "digit_char 0 = CHR ''0''" by (simp only: of_char_eq_iff)
  then have "stamp_char (CHR ''0'')" using digit_stamp [of 0] by simp
  then show ?thesis using decimal_stamp [of n] by (auto simp: pad_def Let_def list_all_iff)
qed

lemma div_bounds: "0 < k \<Longrightarrow> k * (x div k) \<le> x \<and> x < k * (x div k) + k" for x k :: int
  using pos_mod_bound [of k x] pos_mod_sign [of k x] mult_div_mod_eq [of k x] by linarith

lemma civil_bounds:
  assumes "civil days = (y, m, d)" shows "m < 100 \<and> d < 100"
proof -
  define doe where "doe = (days + 306) mod 146097"
  define i where "i = doe div 1460"
  define j where "j = doe div 36524"
  define k where "k = doe div 146096"
  define yoe where "yoe = (doe - i + j - k) div 365"
  define q where "q = yoe div 4"
  define c where "c = yoe div 100"
  define doy where "doy = doe - (365 * yoe + q - c)"
  define mp where "mp = (5 * doy + 2) div 153"
  define f where "f = (153 * mp + 2) div 5"
  have eq: "m = (if mp < 10 then mp + 3 else mp - 9)" "d = doy - f + 1"
    using assms [unfolded civil_def Let_def, folded doe_def, folded i_def j_def k_def, folded yoe_def, folded q_def c_def,
        folded doy_def, folded mp_def, folded f_def] by (simp_all only: prod.inject)
  have doe: "0 \<le> doe" "doe \<le> 146096" by (simp_all add: doe_def)
  have i: "1460 * i \<le> doe \<and> doe < 1460 * i + 1460" unfolding i_def by (rule div_bounds) simp
  have j: "36524 * j \<le> doe \<and> doe < 36524 * j + 36524" unfolding j_def by (rule div_bounds) simp
  have k: "146096 * k \<le> doe \<and> doe < 146096 * k + 146096" unfolding k_def by (rule div_bounds) simp
  have yoe: "365 * yoe \<le> doe - i + j - k \<and> doe - i + j - k < 365 * yoe + 365" unfolding yoe_def by (rule div_bounds) simp
  have q: "4 * q \<le> yoe \<and> yoe < 4 * q + 4" unfolding q_def by (rule div_bounds) simp
  have c: "100 * c \<le> yoe \<and> yoe < 100 * c + 100" unfolding c_def by (rule div_bounds) simp
  have mp: "153 * mp \<le> 5 * doy + 2 \<and> 5 * doy + 2 < 153 * mp + 153" unfolding mp_def by (rule div_bounds) simp
  have f: "5 * f \<le> 153 * mp + 2 \<and> 153 * mp + 2 < 5 * f + 5" unfolding f_def by (rule div_bounds) simp
  have "0 \<le> i" "i \<le> 100" "0 \<le> j" "j \<le> 4" "0 \<le> k" "k \<le> 1" using doe i j k by linarith+
  then have "yoe \<le> 400" "- 2 \<le> yoe" using doe yoe by linarith+
  then have "c \<le> 4" "- 2 \<le> q" using q c by linarith+
  then have "doy \<le> 2000" using doy_def yoe \<open>i \<le> 100\<close> \<open>0 \<le> j\<close> \<open>0 \<le> k\<close> \<open>j \<le> 4\<close> k doe by linarith
  then have "mp \<le> 70" using mp by linarith
  moreover have "d < 100" using eq(2) mp f by linarith
  ultimately show ?thesis using eq(1) by simp
qed

lemma clock_bounds: "0 \<le> r \<Longrightarrow> r < 86400 \<Longrightarrow> r div 3600 < 100 \<and> r mod 3600 div 60 < 100 \<and> r mod 60 < 100" for r :: int
proof -
  assume r: "0 \<le> r" "r < 86400"
  have "3600 * (r div 3600) \<le> r" using div_bounds [of 3600 r] by simp
  moreover have m: "r mod 3600 < 3600" "r mod 60 < 60" by simp_all
  have "60 * (r mod 3600 div 60) \<le> r mod 3600" using div_bounds [of 60 "r mod 3600"] by simp
  then have "60 * (r mod 3600 div 60) < 3600" using m(1) by (rule le_less_trans)
  ultimately show ?thesis using r m(2) by simp
qed

definition clock :: "nat \<Rightarrow> nat \<Rightarrow> nat \<Rightarrow> nat \<Rightarrow> nat \<Rightarrow> string" where
  "clock m d h n s = pad 2 m @ ''-'' @ pad 2 d @ ''T'' @ pad 2 h @ '':'' @ pad 2 n @ '':'' @ pad 2 s @ ''Z''"

lemma clock_length: "15 \<le> length (clock m d h n s)"
  using pad_length(2) [of m] pad_length(2) [of d] pad_length(2) [of h] pad_length(2) [of n] pad_length(2) [of s]
  by (simp add: clock_def)

lemma clock_two: "m < 100 \<Longrightarrow> d < 100 \<Longrightarrow> h < 100 \<Longrightarrow> n < 100 \<Longrightarrow> s < 100 \<Longrightarrow> length (clock m d h n s) = 15"
  by (simp add: clock_def pad_length)

lemma clock_stamp: "list_all stamp_char (clock m d h n s)"
proof -
  have "list_all stamp_char ''-T:Z''"
    by (simp add: stamp_char_def plain_char_def is_space_def is_control_def json_width_def Let_def wf_ascii rune_of_char)
  then show ?thesis by (simp add: clock_def pad_stamp)
qed

lemma stamp_clock: "\<exists>m d h n s. stamp_time t = clock m d h n s \<and> m < 100 \<and> d < 100 \<and> h < 100 \<and> n < 100 \<and> s < 100"
proof -
  obtain y m d where c: "civil (t div second div 86400) = (y, m, d)" by (cases "civil (t div second div 86400)") auto
  define r where "r = t div second mod 86400"
  have "stamp_time t = clock (nat m) (nat d) (nat (r div 3600)) (nat (r mod 3600 div 60)) (nat (r mod 60))"
    unfolding stamp_time_def Let_def c prod.case clock_def r_def ..
  moreover have small: "nat x < 100" if "x < 100" for x :: int using that by linarith
  moreover have "m < 100 \<and> d < 100" by (rule civil_bounds [OF c])
  moreover have "r div 3600 < 100 \<and> r mod 3600 div 60 < 100 \<and> r mod 60 < 100" by (rule clock_bounds) (simp_all add: r_def)
  ultimately show ?thesis by blast
qed

lemma stamp_time_length: "length (stamp_time t) = 15" "list_all stamp_char (stamp_time t)"
proof -
  obtain m d h n s where "stamp_time t = clock m d h n s" "m < 100" "d < 100" "h < 100" "n < 100" "s < 100" using stamp_clock by blast
  then show "length (stamp_time t) = 15" "list_all stamp_char (stamp_time t)" by (simp_all only: clock_two clock_stamp)
qed

section \<open>Stamping\<close>

text \<open>Band actions that would carry the envelope past its budget wait, with those after them.\<close>

definition stamp_action :: "context_band_note \<Rightarrow> string" where
  "stamp_action n = (if msg_text (env_message (note_envelope n)) = '''' then note_band n @ '' crossed: save state and compact/clear''
     else msg_text (env_message (note_envelope n)))"

fun stamp_notes :: "unicode \<Rightarrow> envelope \<Rightarrow> context_stamp \<Rightarrow> context_band_note list \<Rightarrow> err + context_stamp" where
  "stamp_notes u e stamp [] = Inr stamp"
| "stamp_notes u e stamp (n # ns) =
     (let trial = \<lparr>stamp_text = stamp_text stamp @ ''; '' @ stamp_action n,
          stamp_crossings = stamp_crossings stamp @ [env_id (note_envelope n)]\<rparr> in
      case envelopeText u (e\<lparr>env_context_stamp := Some trial\<rparr>) of
        Inl err \<Rightarrow> if err = errEnvelopeBudget then Inr stamp else Inl err
      | Inr _ \<Rightarrow> stamp_notes u e trial ns)"

definition own_clear :: "agent \<Rightarrow> envelope \<Rightarrow> agent" where
  "own_clear a e = (case ag_clear a of
     Some c \<Rightarrow> if env_id (clr_envelope c) = env_id e then a\<lparr>ag_clear := Some (c\<lparr>clr_envelope := e\<rparr>)\<rparr> else a
   | None \<Rightarrow> a)"

definition screen_reading :: "bool \<Rightarrow> time \<Rightarrow> reading \<Rightarrow> reading" where
  "screen_reading telemetry t r =
     (if \<not> telemetry \<and> rd_status r = ''observed'' then r\<lparr>rd_at := Some t, rd_source := ''screen''\<rparr> else r)"

text \<open>
  The readings of the recipient's transcript or screen (\<^verbatim>\<open>deliveryReadings\<close>) are an argument.
  The agent in the result is the one the caller's pointer holds afterwards.
\<close>

definition stamp_fresh :: "(float64 \<Rightarrow> float64) \<Rightarrow> unicode \<Rightarrow> team_paths \<Rightarrow> agent_paths \<Rightarrow> (uint64 \<Rightarrow> string) \<Rightarrow> band_map \<Rightarrow> bool
    \<Rightarrow> reading \<times> reading list \<Rightarrow> agent \<Rightarrow> envelope \<Rightarrow> (err option \<times> agent \<times> envelope) io" where
  "stamp_fresh fl u tp p draws collar telemetry readings a e =
     and_then (acceptContextReadings fl tp draws a collar (snd readings)) (\<lambda>(x, a1). case x of
       Some err \<Rightarrow> ret (Some err, a1, e)
     | None \<Rightarrow>
     and_then (reads now) (\<lambda>t.
     let r = screen_reading telemetry t (fst readings) in
     and_then (if rd_kind r = ''context'' then acceptContextReadings fl tp draws a1 collar [r] else ret (None, a1)) (\<lambda>(x, a2). case x of
       Some err \<Rightarrow> ret (Some err, a2, e)
     | None \<Rightarrow>
     case stamp_notes u e \<lparr>stamp_text = envelopeStampText t r (env_crossed e), stamp_crossings = []\<rparr> (band_pending (ag_context_bands a2)) of
       Inl err \<Rightarrow> ret (Some err, a2, e)
     | Inr stamp \<Rightarrow>
     let e1 = e\<lparr>env_context_stamp := Some stamp\<rparr> in
     and_then (attempt (Publish p e1)) (\<lambda>out. case out of
       Inl err \<Rightarrow> ret (Some err, a2, e1)
     | Inr _ \<Rightarrow>
     let a3 = own_clear a2 e1 in
     and_then (attempt (Save p a3)) (\<lambda>out. ret (case out of Inl err \<Rightarrow> Some err | Inr _ \<Rightarrow> None, a3, e1))))))"

definition stampEnvelope :: "(float64 \<Rightarrow> float64) \<Rightarrow> unicode \<Rightarrow> team_paths \<Rightarrow> agent_paths \<Rightarrow> (uint64 \<Rightarrow> string) \<Rightarrow> band_map \<Rightarrow> bool
    \<Rightarrow> reading \<times> reading list \<Rightarrow> agent \<Rightarrow> envelope \<Rightarrow> (err option \<times> agent \<times> envelope) io" where
  "stampEnvelope fl u tp p draws collar telemetry readings a e0 =
     and_then (attempt (ReadEnvelope p ''new'' (env_id e0))) (\<lambda>stored.
       let e = (case stored of Inr s \<Rightarrow> if env_context_stamp s \<noteq> None then s else e0 | Inl _ \<Rightarrow> e0);
           step = (if env_context_stamp e \<noteq> None then ret (None, a, e)
             else stamp_fresh fl u tp p draws collar telemetry readings a e) in
       case stored of
         Inl x \<Rightarrow> if \<not> errors_is x NotExist then ret (Some x, a, e) else step
       | Inr _ \<Rightarrow> step)"

text \<open>
  The kept notes overwrite the front of the pending ones: after a failed withdrawal the
  caller's list has its old length and the kept notes first.
\<close>

fun settle_notes :: "agent_paths \<Rightarrow> envelope \<Rightarrow> context_stamp \<Rightarrow> context_band_note list \<Rightarrow> context_band_note list
    \<Rightarrow> (err option \<times> context_band_note list) io" where
  "settle_notes p e stamp kept [] = ret (None, kept)"
| "settle_notes p e stamp kept (n # ns) =
     (if env_id (note_envelope n) \<notin> set (stamp_crossings stamp) then settle_notes p e stamp (kept @ [n]) ns
      else if env_id (note_envelope n) = env_id e then settle_notes p e stamp kept ns
      else and_then (attempt (Withdraw p (env_id (note_envelope n)))) (\<lambda>out. case out of
          Inl err \<Rightarrow> if \<not> errors_is err NotExist then ret (Some err, kept) else settle_notes p e stamp kept ns
        | Inr _ \<Rightarrow> settle_notes p e stamp kept ns))"

definition with_pending :: "agent \<Rightarrow> context_band_note list \<Rightarrow> agent" where
  "with_pending a ns = a\<lparr>ag_context_bands := (ag_context_bands a)\<lparr>band_pending := ns\<rparr>\<rparr>"

definition settleContextStamp :: "agent_paths \<Rightarrow> agent \<Rightarrow> envelope \<Rightarrow> string \<Rightarrow> (err option \<times> agent) io" where
  "settleContextStamp p a e outcome =
     (case env_context_stamp e of
        None \<Rightarrow> ret (None, a)
      | Some stamp \<Rightarrow>
          if outcome \<noteq> ''delivered'' then ret (None, a)
          else
            let pending = band_pending (ag_context_bands a) in
            and_then (settle_notes p e stamp [] pending) (\<lambda>(x, kept). case x of
              Some err \<Rightarrow> ret (Some err, with_pending a (kept @ drop (length kept) pending))
            | None \<Rightarrow> and_then (attempt (Save p (with_pending a kept)))
                (\<lambda>out. ret (case out of Inl err \<Rightarrow> Some err | Inr _ \<Rightarrow> None, with_pending a kept))))"

fun find_resume :: "agent_paths \<Rightarrow> envelope_id \<Rightarrow> string list \<Rightarrow> envelope option io" where
  "find_resume p i [] = ret None"
| "find_resume p i (d # ds) =
     and_then (attempt (ReadEnvelope p d i)) (\<lambda>r. case r of
       Inr e \<Rightarrow> ret (Some e)
     | Inl x \<Rightarrow> if \<not> errors_is x NotExist then raise x else find_resume p i ds)"

text \<open>The callers hold an agent with a compaction; Go panics otherwise.\<close>

definition retainedResume :: "team_paths \<Rightarrow> agent \<Rightarrow> envelope io" where
  "retainedResume tp a =
     (case ag_compaction a of
        None \<Rightarrow> raise (Fail ''nil pointer dereference'')
      | Some c \<Rightarrow>
          let i = ''resume-'' @ cmp_id c in
          and_then (Agent tp (ag_id a)) (\<lambda>p.
          and_then (find_resume p i [''new'', ''cur'', ''failed'']) (\<lambda>r.
            ret (case r of Some e \<Rightarrow> e
              | None \<Rightarrow> blank_envelope\<lparr>env_id := i, env_token := cmp_resume_token c, env_from := cmp_resume_from c,
                  env_message := cmp_resume c, env_purpose := ''resume''\<rparr>))))"

section \<open>Widths of wires\<close>

lemma decode_before: "s \<noteq> [] \<Longrightarrow> of_char c < (128 :: nat) \<Longrightarrow> decode_rune (s @ c # r) = decode_rune s"
proof -
  assume s: "s \<noteq> []" "of_char c < (128 :: nat)"
  then have c: "\<not> continuation (of_char c)" by (simp add: continuation_def)
  show ?thesis
    using s c by (cases s; cases "tl s"; cases "tl (tl s)"; cases "tl (tl (tl s))") (simp_all add: decode_rune_def split: list.split)
qed

lemma pieces_before: "of_char c < (128 :: nat) \<Longrightarrow> pieces (s @ c # r) = pieces s @ pieces (c # r)"
proof (induction s rule: pieces.induct)
  case (1 s)
  show ?case
  proof (cases "s = []")
    case False
    have dec: "decode_rune (s @ c # r) = decode_rune s" by (rule decode_before [OF False "1.prems"])
    have n: "snd (decode_rune s) \<le> length s" using decode_width [OF False] by simp
    have "pieces (s @ c # r) = take (snd (decode_rune s)) s # pieces (drop (snd (decode_rune s)) s @ c # r)"
      using n by (subst pieces.simps) (simp add: dec)
    also have "\<dots> = take (snd (decode_rune s)) s # pieces (drop (snd (decode_rune s)) s) @ pieces (c # r)"
      using "1.IH" [OF False "1.prems"] by simp
    also have "\<dots> = pieces s @ pieces (c # r)" using False by (subst (3) pieces.simps) simp
    finally show ?thesis .
  qed simp
qed

definition width :: "string \<Rightarrow> nat" where
  "width s = sum_list (map json_width (pieces s))"

lemma json_width_sum: "json_length s = 2 + width s"
  by (simp add: json_length_def width_def)

lemma width_line: "width (s @ line_end @ r) = width s + 2 + width r"
  using pieces_before [of "CHR 0x0A" s r] pieces_ascii [of line_end r]
  by (simp add: width_def line_end_def json_width_def wf_ascii rune_of_char)

lemma width_ascii: "ascii s \<Longrightarrow> width (s @ r) = width s + width r"
  using pieces_ascii [of s r] pieces_ascii [of s "[]"] by (simp add: width_def)

lemma stamp_ascii: "list_all stamp_char s \<Longrightarrow> ascii s"
  by (auto simp: ascii_def stamp_char_def plain_char_def list_all_iff)

lemma width_stamp: "list_all stamp_char s \<Longrightarrow> width s = length s"
proof -
  assume s: "list_all stamp_char s"
  have "sum_list (map (\<lambda>c. json_width [c]) s) = length s" using s by (induction s) (simp_all add: stamp_char_def)
  then show ?thesis using pieces_ascii [OF stamp_ascii [OF s], of "[]"] by (simp add: width_def comp_def)
qed

lemma rune_fields_space: "is_space (rune_of p) \<Longrightarrow> rune_fields (p # ps) = rune_fields ps"
  by (simp add: rune_fields.simps [of "p # ps"] rune_fields.simps [of ps])

lemma rune_fields_word:
  assumes "w \<noteq> []" "\<forall>p \<in> set w. \<not> is_space (rune_of p)" "ps = [] \<or> is_space (rune_of (hd ps))"
  shows "rune_fields (w @ ps) = w # rune_fields ps"
proof -
  obtain q qs where w: "w = q # qs" using assms(1) by (cases w) auto
  have keep: "takeWhile (\<lambda>p. \<not> is_space (rune_of p)) (qs @ ps) = qs" "dropWhile (\<lambda>p. \<not> is_space (rune_of p)) (qs @ ps) = ps"
    using assms(2,3) w by (cases ps; simp add: takeWhile_append dropWhile_append)+
  show ?thesis using assms(2) keep w by (subst rune_fields.simps) simp
qed

lemma join_tail: "join_with sep (x # xs) = x @ concat (map (\<lambda>y. sep @ y) xs)"
  by (induction xs arbitrary: x) simp_all

definition kept_pieces :: "unicode \<Rightarrow> string \<Rightarrow> string list" where
  "kept_pieces u s = filter (\<lambda>p. \<not> envelopeBracket u (rune_of p)) (pieces s)"

lemma kept_ascii: "ascii_tables u \<Longrightarrow> list_all plain_char s \<Longrightarrow> kept_pieces u (s @ t) = chars s @ kept_pieces u t"
proof -
  assume s: "ascii_tables u" "list_all plain_char s"
  have "filter (\<lambda>p. \<not> envelopeBracket u (rune_of p)) (chars s) = chars s"
    using plain_chars [OF s] by (simp add: bracket_def filter_id_conv)
  then show ?thesis using pieces_chars [OF plain_ascii [OF s(2)], of t] by (simp add: kept_pieces_def)
qed

lemma stamp_plain: "list_all stamp_char s \<Longrightarrow> list_all plain_char s"
  by (auto simp: stamp_char_def list_all_iff)

lemma concat_chars [simp]: "concat (chars s) = s"
  by (induction s) simp_all

definition words_tail :: "unicode \<Rightarrow> string \<Rightarrow> string" where
  "words_tail u t = concat (map (\<lambda>f. '' '' @ concat f) (rune_fields (kept_pieces u t)))"

lemma stamp_words_split:
  assumes "ascii_tables u" "list_all stamp_char a" "a \<noteq> []" "list_all stamp_char b" "b \<noteq> []" "t = [] \<or> has_prefix t '' ''"
  shows "stamp_words u (a @ '' '' @ b @ t) = a @ '' '' @ b @ words_tail u t"
proof -
  have space: "list_all plain_char '' ''" "is_space (rune_of '' '')" by (simp_all add: plain_char_def rune_of_char is_space_def)
  have word: "chars s \<noteq> []" "\<forall>p \<in> set (chars s). \<not> is_space (rune_of p)" if "list_all stamp_char s" "s \<noteq> []" for s
    using that by (auto simp: chars_def stamp_char_def list_all_iff rune_of_char plain_char_def)
  have pieces: "kept_pieces u (a @ '' '' @ b @ t) = chars a @ '' '' # chars b @ kept_pieces u t"
    using kept_ascii [OF assms(1) space(1), of "b @ t"] kept_ascii [OF assms(1) stamp_plain] assms(2,4) by simp
  have rest: "kept_pieces u t = [] \<or> is_space (rune_of (hd (kept_pieces u t)))"
    using assms(6) kept_ascii [OF assms(1) space(1)] space(2) by (auto simp: has_prefix_iff kept_pieces_def)
  have "rune_fields (chars a @ '' '' # chars b @ kept_pieces u t) = chars a # chars b # rune_fields (kept_pieces u t)"
    using rune_fields_word [OF word [OF assms(2,3)], of "'' '' # chars b @ kept_pieces u t"] rune_fields_space [OF space(2)]
      rune_fields_word [OF word [OF assms(4,5)] rest] space(2) by simp
  then show ?thesis
    unfolding stamp_words_def pieces [unfolded kept_pieces_def, folded kept_pieces_def]
    using pieces by (simp add: kept_pieces_def [symmetric] join_tail words_tail_def comp_def)
qed

lemma dash_stamp: "stamp_char (CHR ''-'')" "stamp_char (CHR ''k'')" "stamp_char (CHR ''M'')" "stamp_char (CHR ''.'')" "stamp_char (CHR ''/'')"
  by (simp_all add: stamp_char_def plain_char_def is_space_def is_control_def json_width_def Let_def wf_ascii rune_of_char)

lemma units_stamp: "list_all stamp_char (tokenUnits n)"
  by (simp add: tokenUnits_def Let_def show_int_def decimal_stamp dash_stamp)

lemma show_length: "0 \<le> i \<Longrightarrow> i < 10 ^ Suc k \<Longrightarrow> length (show_int i) \<le> Suc k"
  using decimal_length [of "nat i" k] by (simp add: show_int_def nat_less_iff)

lemma quot_bounds: "0 \<le> a \<Longrightarrow> 0 < k \<Longrightarrow> k * quot a k \<le> a \<and> a < k * quot a k + k \<and> 0 \<le> quot a k"
  using div_bounds [of k a] by (simp add: quot_def pos_imp_zdiv_nonneg_iff)

lemma units_length:
  assumes "0 \<le> n" "n < 999950000"
  shows "length (tokenUnits n) \<le> 6"
proof -
  define k where "k = quot (n + 500) 1000"
  define j where "j = quot (n + 50000) 100000"
  define m where "m = quot j 10"
  have j: "0 \<le> j" "j \<le> 9999" using quot_bounds [of "n + 50000" 100000] assms by (auto simp: j_def)
  have m: "0 \<le> m" "m < 1000" "0 \<le> j - 10 * m" "j - 10 * m < 10" using quot_bounds [of j 10] j by (auto simp: m_def)
  have k: "0 \<le> k" using quot_bounds [of "n + 500" 1000] assms by (auto simp: k_def)
  have wrap: "wrap64 (n + 500) = n + 500" "wrap64 (n + 50000) = n + 50000" using assms by (simp_all add: wrap64_small)
  have units: "tokenUnits n = (if k < 1000 then show_int k @ ''k'' else if j mod 10 = 0 then show_int m @ ''M''
      else show_int m @ ''.'' @ show_int (j - 10 * m) @ ''M'')"
    unfolding tokenUnits_def Let_def wrap k_def [symmetric] j_def [symmetric] m_def [symmetric] ..
  have "k < 1000 \<Longrightarrow> length (show_int k) \<le> 3" "length (show_int m) \<le> 3" "length (show_int (j - 10 * m)) \<le> 1"
    using show_length [of k 2] show_length [of m 2] show_length [of "j - 10 * m" 0] k m by auto
  then show ?thesis unfolding units by auto
qed

text \<open>Token counts below those of the longest stamp.\<close>

definition small_count :: "int option \<Rightarrow> bool" where
  "small_count c \<longleftrightarrow> (case c of None \<Rightarrow> True | Some n \<Rightarrow> 0 \<le> n \<and> n < 999950000)"

lemma context_stamp_long: "length (contextStampText longestStampReading) = 17"
proof -
  have "(of_char (digit_char 9) :: nat) = of_char (CHR ''9'')" by (simp add: digit_char_def)
  then have "digit_char 9 = CHR ''9''" by (simp only: of_char_eq_iff)
  then have "decimal 999 = ''999''" "decimal 9 = ''9''" by (simp_all add: decimal.simps)
  then have "tokenUnits 999900000 = ''999.9M''" by (simp add: tokenUnits_def wrap64_def quot_def show_int_def Let_def)
  then show ?thesis by (simp add: contextStampText_def longestStampReading_def blank_reading_def)
qed

lemma context_stamp:
  assumes "small_count (rd_used r)" "small_count (rd_limit r)"
  shows "list_all stamp_char (contextStampText r)" "contextStampText r \<noteq> []"
    "length (contextStampText r) \<le> length (contextStampText longestStampReading)"
proof -
  have ctx: "list_all stamp_char ''ctx=unknown''"
    by (simp add: stamp_char_def plain_char_def is_space_def is_control_def json_width_def Let_def wf_ascii rune_of_char)
  then show "list_all stamp_char (contextStampText r)" "contextStampText r \<noteq> []"
    by (auto simp: contextStampText_def units_stamp dash_stamp split: option.split)
  show "length (contextStampText r) \<le> length (contextStampText longestStampReading)"
    unfolding context_stamp_long using assms units_length
    by (auto simp: contextStampText_def small_count_def split: option.split) (metis add_mono numeral_Bit0)
qed

section \<open>A queued message can be typed\<close>

lemma check_runes_plain:
  assumes "ascii_tables u" "list_all plain_char s"
  shows "check_runes u False False (map of_char s @ rs) = check_runes u False False rs"
  using assms(2)
proof (induction s)
  case (Cons c s)
  define r where "r = (of_char c :: nat)"
  have r: "r < 128" "r \<notin> {40, 41, 91, 93, 123, 125}" using Cons.prems by (simp_all add: plain_char_def r_def)
  have "\<not> is_mark u r" "\<not> is_cf u r" using assms(1) r(1) by (simp_all add: ascii_tables_def)
  moreover have "\<not> envelopeBracket u r" using ascii_brackets(2) [OF assms(1) r(1)] r(2) by simp
  ultimately show ?case using Cons r(1) by (simp add: r_def [symmetric] invisibleMessageRune_def)
qed simp

lemma stamp_controls: "list_all stamp_char s \<Longrightarrow> \<not> list_ex (\<lambda>r. is_control r \<and> r \<noteq> 10 \<and> r \<noteq> 9) (map of_char s)"
  by (auto simp: list_ex_iff list_all_iff stamp_char_def)

lemma validate_stamp:
  assumes "ascii_tables u" "list_all stamp_char a" "list_all stamp_char b"
  shows "validateMessageText u (a @ '' '' @ b @ t) = validateMessageText u t"
proof -
  have plain: "list_all plain_char (a @ '' '' @ b)" using stamp_plain assms(2,3) by (simp add: plain_char_def)
  have pre: "valid_utf8 (a @ '' '' @ b)" by (rule valid_ascii [OF plain_ascii [OF plain]])
  have runes: "runes ((a @ '' '' @ b) @ t) = map of_char (a @ '' '' @ b) @ runes t"
    unfolding runes_append [OF pre] runes_ascii [OF plain_ascii [OF plain]] ..
  have control: "list_ex (\<lambda>r. is_control r \<and> r \<noteq> 10 \<and> r \<noteq> 9) (map of_char (a @ '' '' @ b) @ runes t)
      \<longleftrightarrow> list_ex (\<lambda>r. is_control r \<and> r \<noteq> 10 \<and> r \<noteq> 9) (runes t)"
    using stamp_controls assms(2,3) by (auto simp: is_control_def)
  have valid: "valid_utf8 ((a @ '' '' @ b) @ t) = valid_utf8 t" by (rule valid_append [OF pre])
  have "validateMessageText u ((a @ '' '' @ b) @ t) = validateMessageText u t"
    unfolding validateMessageText_def runes valid control check_runes_plain [OF assms(1) plain] ..
  then show ?thesis by simp
qed

lemma width_stamp_line:
  assumes "list_all stamp_char a" "list_all stamp_char b"
  shows "width (stampLine (a @ '' '' @ b @ t)) = 7 + length a + length b + width (t @ '' /]'')"
proof -
  have "width ''[gang '' = 6" "width '' '' = 1"
    using pieces_ascii [of "''[gang ''" "[]"] pieces_ascii [of "'' ''" "[]"]
    by (simp_all add: width_def json_width_def Let_def wf_ascii rune_of_char)
  then show ?thesis
    using width_ascii [of "''[gang ''" "a @ '' '' @ b @ t @ '' /]''"] width_ascii [OF stamp_ascii [OF assms(1)], of "'' '' @ b @ t @ '' /]''"]
      width_ascii [of "'' ''" "b @ t @ '' /]''"] width_ascii [OF stamp_ascii [OF assms(2)], of "t @ '' /]''"] width_stamp assms
    by (simp add: stampLine_def)
qed

definition stamp_tail :: "string \<Rightarrow> string" where
  "stamp_tail crossed = (if crossed = '''' then '''' else '' crossed='' @ crossed)"

lemma stamp_text_parts: "envelopeStampText t r crossed = contextStampText r @ '' '' @ (''at='' @ stamp_time t) @ stamp_tail crossed"
  by (simp add: envelopeStampText_def stamp_tail_def)

lemma at_stamp: "list_all stamp_char (''at='' @ stamp_time t)"
  using stamp_time_length(2) [of t]
  by (simp add: stamp_char_def plain_char_def is_space_def is_control_def json_width_def Let_def wf_ascii rune_of_char)

lemma tail_space: "stamp_tail crossed = [] \<or> has_prefix (stamp_tail crossed) '' ''"
  by (simp add: stamp_tail_def has_prefix_def)

lemma stamped_text:
  "stamp \<noteq> '''' \<Longrightarrow> envelopeText u (e\<lparr>env_context_stamp := Some \<lparr>stamp_text = stamp, stamp_crossings = cs\<rparr>\<rparr>)
   = (case unstamped_text u (e\<lparr>env_context_stamp := Some \<lparr>stamp_text = '''', stamp_crossings = []\<rparr>\<rparr>) of
        Inl err \<Rightarrow> Inl err
      | Inr wire \<Rightarrow> (case validateMessageText u stamp of Some err \<Rightarrow> Inl err
        | None \<Rightarrow> budgeted (wire @ line_end @ stampLine (stamp_words u stamp))))"
  by (simp add: envelopeText_def unstamped_text_def body_of_def stamp_of_def isContextBandNotice_def
      cong: option.case_cong sum.case_cong if_cong)

lemma budgeted_iff: "(\<exists>w. budgeted s = Inr w) \<longleftrightarrow> json_length s \<le> maximumMessageBytes"
  by (simp add: budgeted_def checkEnvelopeBudget_def)

lemma shorter_stamp_fits:
  assumes "ascii_tables u" "small_count (rd_used r)" "small_count (rd_limit r)"
    and "envelopeText u (e\<lparr>env_context_stamp := Some \<lparr>stamp_text = envelopeStampText t0 longestStampReading crossed, stamp_crossings = cs0\<rparr>\<rparr>) = Inr w0"
  shows "\<exists>w. envelopeText u (e\<lparr>env_context_stamp := Some \<lparr>stamp_text = envelopeStampText t r crossed, stamp_crossings = cs\<rparr>\<rparr>) = Inr w"
proof -
  have long: "small_count (rd_used longestStampReading)" "small_count (rd_limit longestStampReading)"
    by (simp_all add: small_count_def longestStampReading_def blank_reading_def)
  note ctx = context_stamp [OF assms(2,3)] context_stamp [OF long]
  have words: "stamp_words u (envelopeStampText t' q crossed)
      = contextStampText q @ '' '' @ (''at='' @ stamp_time t') @ words_tail u (stamp_tail crossed)"
    if "small_count (rd_used q)" "small_count (rd_limit q)" for q t'
    unfolding stamp_text_parts
    by (rule stamp_words_split [OF assms(1) context_stamp(1,2) [OF that] at_stamp _ tail_space]) simp
  have wire: "width (stampLine (stamp_words u (envelopeStampText t' q crossed)))
      = 7 + length (contextStampText q) + 18 + width (words_tail u (stamp_tail crossed) @ '' /]'')"
    if "small_count (rd_used q)" "small_count (rd_limit q)" for q t'
    unfolding words [OF that] using width_stamp_line [OF context_stamp(1) [OF that] at_stamp] stamp_time_length(1) by simp
  have valid: "validateMessageText u (envelopeStampText t' q crossed) = validateMessageText u (stamp_tail crossed)"
    if "small_count (rd_used q)" "small_count (rd_limit q)" for q t'
    unfolding stamp_text_parts by (rule validate_stamp [OF assms(1) context_stamp(1) [OF that] at_stamp])
  have nonempty: "envelopeStampText t' q crossed \<noteq> ''''" for t' q by (simp add: stamp_text_parts)
  obtain wire where w: "unstamped_text u (e\<lparr>env_context_stamp := Some \<lparr>stamp_text = '''', stamp_crossings = []\<rparr>\<rparr>) = Inr wire"
    "validateMessageText u (stamp_tail crossed) = None"
    "budgeted (wire @ line_end @ stampLine (stamp_words u (envelopeStampText t0 longestStampReading crossed))) = Inr w0"
    using assms(4) unfolding stamped_text [OF nonempty] valid [OF long] by (auto split: sum.splits option.splits)
  have "json_length (wire @ line_end @ stampLine (stamp_words u (envelopeStampText t r crossed)))
      \<le> json_length (wire @ line_end @ stampLine (stamp_words u (envelopeStampText t0 longestStampReading crossed)))"
    unfolding json_width_sum width_line
    using wire [OF assms(2,3)] wire [OF long] ctx(3) by simp
  also have "\<dots> \<le> maximumMessageBytes" using w(3) budgeted_iff by blast
  finally show ?thesis
    unfolding stamped_text [OF nonempty] valid [OF assms(2,3)] using w(1,2) budgeted_iff by simp
qed

lemma notes_fit:
  assumes "\<exists>w. envelopeText u (e\<lparr>env_context_stamp := Some s\<rparr>) = Inr w" "stamp_notes u e s ns = Inr s'"
  shows "(\<exists>w. envelopeText u (e\<lparr>env_context_stamp := Some s'\<rparr>) = Inr w)
    \<and> (\<exists>k. stamp_crossings s' = stamp_crossings s @ map (\<lambda>n. env_id (note_envelope n)) (take k ns))"
  using assms
proof (induction ns arbitrary: s)
  case Nil
  then show ?case by simp
next
  case (Cons n ns)
  let ?trial = "\<lparr>stamp_text = stamp_text s @ ''; '' @ stamp_action n, stamp_crossings = stamp_crossings s @ [env_id (note_envelope n)]\<rparr>"
  show ?case
  proof (cases "envelopeText u (e\<lparr>env_context_stamp := Some ?trial\<rparr>)")
    case (Inl err)
    then have "s' = s" using Cons.prems(2) by (auto simp: Let_def split: if_splits)
    then show ?thesis using Cons.prems(1) by (metis append_Nil2 list.simps(8) take0)
  next
    case (Inr w)
    then have "stamp_notes u e ?trial ns = Inr s'" using Cons.prems(2) by (simp add: Let_def)
    from Cons.IH [OF _ this] Inr obtain k where
      "\<exists>w. envelopeText u (e\<lparr>env_context_stamp := Some s'\<rparr>) = Inr w"
      "stamp_crossings s' = stamp_crossings ?trial @ map (\<lambda>n. env_id (note_envelope n)) (take k ns)" by blast
    then show ?thesis by (intro conjI exI [of _ "Suc k"]) simp_all
  qed
qed

lemma notes_over_budget: "stamp_notes u e s ns = Inl err \<Longrightarrow> err \<noteq> errEnvelopeBudget"
  by (induction ns arbitrary: s) (auto simp: Let_def split: sum.splits if_splits)

text \<open>
  C9 (queued_fits_when_typed): a message accepted into the queue (\<^verbatim>\<open>queuedEnvelopeText\<close>) is
  never refused for its size when it is typed: stamped with any reading of fewer than
  999.95 million tokens and at any time it has a wire, and the band actions then added never
  carry it past the budget; those added are the first of the pending crossings, in order. Only a
  band action that is itself no message text can still be refused.
\<close>

theorem queued_fits_when_typed:
  assumes "ascii_tables u" "small_count (rd_used r)" "small_count (rd_limit r)"
    and "queuedEnvelopeText u e = Inr wire" "env_context_stamp e = None"
  shows "let stamp = \<lparr>stamp_text = envelopeStampText t r (env_crossed e), stamp_crossings = []\<rparr> in
    (\<exists>w. envelopeText u (e\<lparr>env_context_stamp := Some stamp\<rparr>) = Inr w)
    \<and> (case stamp_notes u e stamp notes of
         Inl err \<Rightarrow> err \<noteq> errEnvelopeBudget
       | Inr stamp' \<Rightarrow> (\<exists>w. envelopeText u (e\<lparr>env_context_stamp := Some stamp'\<rparr>) = Inr w)
           \<and> (\<exists>k. stamp_crossings stamp' = map (\<lambda>n. env_id (note_envelope n)) (take k notes)))"
proof -
  obtain w0 where "envelopeText u (e\<lparr>env_context_stamp := Some \<lparr>stamp_text = envelopeStampText zero_time longestStampReading (env_crossed e),
      stamp_crossings = []\<rparr>\<rparr>) = Inr w0"
    using assms(4,5) by (auto simp: queuedEnvelopeText_def split: sum.splits)
  from shorter_stamp_fits [OF assms(1-3) this]
  have fits: "\<exists>w. envelopeText u (e\<lparr>env_context_stamp := Some \<lparr>stamp_text = envelopeStampText t r (env_crossed e), stamp_crossings = []\<rparr>\<rparr>) = Inr w" .
  then show ?thesis using notes_fit [OF fits] notes_over_budget by (simp add: Let_def split: sum.split)
qed

definition demo_queued :: envelope where
  "demo_queued = demo_wire\<lparr>env_context_stamp := None\<rparr>"

lemma demo_queued_text:
  "queuedEnvelopeText ascii_unicode demo_queued = Inr ''[gang:bob#t] gang:a [/gang:bob#t]''"
proof -
  let ?wire = "''[gang:bob#t] gang:a [/gang:bob#t]''"
  let ?stamp = "envelopeStampText zero_time longestStampReading ''''"
  have rendered: "renderEnvelope ascii_unicode ''bob'' ''t'' '''' ''[gang:a'' = Inr ?wire"
    using demo_budget [of ?wire]
    by (simp add: renderEnvelope_def renderEnvelopeHead_def renderEnvelopeTag_def demo_valid demo_defang frame_def
        envelopeHead_def envelopeOpening_def envelopeTokenPattern_def alnum_def)
  have plain: "unstamped_text ascii_unicode (demo_queued\<lparr>env_context_stamp := c\<rparr>) = Inr ?wire" for c
    using rendered by (simp add: demo_queued_def demo_wire_def unstamped_text_def body_of_def senderLabel_def sender_kinds
        isContextBandNotice_def blank_envelope_def)
  have same: "demo_queued\<lparr>env_context_stamp := None\<rparr> = demo_queued" by (simp add: demo_queued_def)
  have first: "envelopeText ascii_unicode demo_queued = Inr ?wire"
    using plain [of None] unfolding same by (simp add: envelopeText_def stamp_of_def demo_queued_def)
  have long: "small_count (rd_used longestStampReading)" "small_count (rd_limit longestStampReading)"
    by (simp_all add: small_count_def longestStampReading_def blank_reading_def)
  have parts: "?stamp = contextStampText longestStampReading @ '' '' @ (''at='' @ stamp_time zero_time) @ []"
    unfolding stamp_text_parts by (simp add: stamp_tail_def)
  note ctx = context_stamp [OF long] at_stamp [of zero_time]
  have words: "stamp_words ascii_unicode ?stamp = contextStampText longestStampReading @ '' '' @ (''at='' @ stamp_time zero_time) @ []"
    unfolding parts using stamp_words_split [OF ascii_unicode_tables ctx(1,2,4), of "[]"]
    by (simp add: words_tail_def kept_pieces_def rune_fields.simps)
  have valid: "validateMessageText ascii_unicode ?stamp = None"
    unfolding parts validate_stamp [OF ascii_unicode_tables ctx(1,4)]
    by (simp add: validateMessageText_def valid_utf8_def runes_def)
  have len: "length (contextStampText longestStampReading) = 17" using context_stamp_long by simp
  have "ascii (?wire @ line_end @ stampLine (stamp_words ascii_unicode ?stamp))
      \<and> length (?wire @ line_end @ stampLine (stamp_words ascii_unicode ?stamp)) \<le> 100"
    unfolding words using stamp_ascii [OF ctx(1)] stamp_ascii [OF ctx(4)] stamp_time_length(1) [of zero_time] len
    by (simp add: line_end_def stampLine_def)
  then have "\<exists>w. budgeted (?wire @ line_end @ stampLine (stamp_words ascii_unicode ?stamp)) = Inr w"
    using demo_budget by blast
  then obtain w where w: "budgeted (?wire @ line_end @ stampLine (stamp_words ascii_unicode ?stamp)) = Inr w" by blast
  have nonempty: "?stamp \<noteq> ''''" unfolding parts by simp
  have "envelopeText ascii_unicode (demo_queued\<lparr>env_context_stamp := Some \<lparr>stamp_text = ?stamp, stamp_crossings = []\<rparr>\<rparr>) = Inr w"
    unfolding stamped_text [OF nonempty] plain valid using w by simp
  moreover have "env_crossed demo_queued = ''''" "env_context_stamp demo_queued = None"
    by (simp_all add: demo_queued_def demo_wire_def blank_envelope_def)
  ultimately show ?thesis using first by (simp add: queuedEnvelopeText_def)
qed

theorem queued_fits_when_typed_witness:
  "\<exists>w. envelopeText ascii_unicode (demo_queued\<lparr>env_context_stamp :=
     Some \<lparr>stamp_text = envelopeStampText 5 blank_reading (env_crossed demo_queued), stamp_crossings = []\<rparr>\<rparr>) = Inr w"
  using queued_fits_when_typed [OF ascii_unicode_tables _ _ demo_queued_text, of blank_reading 5]
  by (simp add: small_count_def blank_reading_def demo_queued_def Let_def)

end
