(* ===== verification/Harness_Witness.thy ===== *)
theory Harness_Witness
  imports Go_Runes Envelope_Text
begin

text \<open>
  The witness of a submitted prompt (\<^verbatim>\<open>harness/hooks.go\<close>): what a native hook reports of a
  text that was pasted, with the rewriting Claude Code applies to a paste, and the texts that
  cannot be pasted unchanged.
\<close>

section \<open>The text of a paste\<close>

text \<open>Claude Code writes \<^verbatim>\<open><\\<close> for an opener of its own tag, ASCII or a lookalike.\<close>

definition escape :: string where
  "escape = ''<'' @ [CHR 0x5C]"

function consumePastedBody :: "string \<Rightarrow> string \<Rightarrow> string option" where
  "consumePastedBody body sent =
     (if sent = '''' then Some body
      else let r = fst (decode_rune sent); width = snd (decode_rune sent) in
        if has_prefix body escape \<and> \<not> has_prefix sent escape \<and> (r = 60 \<or> r \<ge> 128)
        then consumePastedBody (drop 2 body) (drop width sent)
        else if \<not> has_prefix body (take width sent) then None
        else consumePastedBody (drop width body) (drop width sent))"
  by pat_completeness auto
termination by (relation "measure (length \<circ> snd)") (auto dest: decode_width)

declare consumePastedBody.simps [simp del]

text \<open>What precedes the last occurrence of a separator, and the rest from it on.\<close>

fun cut_last :: "string \<Rightarrow> string \<Rightarrow> (string \<times> string) option" where
  "cut_last [] sep = None"
| "cut_last (c # s) sep =
     (case cut_last s sep of
        Some (before, rest) \<Rightarrow> Some (c # before, rest)
      | None \<Rightarrow> if has_prefix (c # s) sep then Some ([], c # s) else None)"

definition joinStampLine :: "string \<Rightarrow> string option" where
  "joinStampLine sent =
     (case cut_last sent (line_end @ ''[gang '') of
        None \<Rightarrow> None
      | Some (before, rest) \<Rightarrow>
          if \<not> has_suffix sent '' /]'' \<or> CHR 0x0A \<in> set (tl rest) \<or> \<not> has_suffix before '']'' then None
          else Some (before @ tl rest))"

definition pasted_open :: string where
  "pasted_open = ''<pasted_content id='' @ [CHR 0x22]"

definition pasted_close :: "string \<Rightarrow> string" where
  "pasted_close identifier = line_end @ ''</pasted_content id='' @ CHR 0x22 # identifier @ [CHR 0x22, CHR ''>'']"

text \<open>The identifier of a paste's wrapper and what follows its opening line.\<close>

definition paste_frame :: "string \<Rightarrow> (string \<times> string) option" where
  "paste_frame witnessed =
     (let framed = (if has_prefix witnessed (line_end @ line_end) then drop 2 witnessed else trim_prefix witnessed line_end) in
      if \<not> has_prefix framed pasted_open then None
      else case cut (trim_prefix framed pasted_open) [CHR 0x22, CHR ''>'', CHR 0x0A] of
        (identifier, wrapped, seen) \<Rightarrow>
          if \<not> seen \<or> identifier = '''' \<or> list_ex (\<lambda>c. c \<in> {CHR 0x22, CHR 0x0D, CHR 0x0A, CHR ''<'', CHR ''>''}) identifier then None
          else Some (identifier, wrapped))"

definition matchClaudePaste :: "string \<Rightarrow> string \<Rightarrow> string option" where
  "matchClaudePaste sent witnessed =
     (case consumePastedBody witnessed sent of
        Some rest \<Rightarrow> Some rest
      | None \<Rightarrow>
          (case paste_frame witnessed of
             None \<Rightarrow> None
           | Some (identifier, wrapped) \<Rightarrow>
               (case consumePastedBody wrapped sent of
                  None \<Rightarrow> None
                | Some rest \<Rightarrow>
                    (case cut rest (pasted_close identifier) of
                       (inside, after, ended) \<Rightarrow>
                         if \<not> ended then None else Some (inside @ trim_prefix after line_end)))))"

section \<open>Submitted prompts and envelopes\<close>

definition unknown_witness :: "invocation \<Rightarrow> err" where
  "unknown_witness primitive = Fail (''unknown submit-witness primitive '' @ quoted (inv_name primitive))"

definition prompt_matches :: "invocation \<Rightarrow> string \<Rightarrow> string \<Rightarrow> err + bool" where
  "prompt_matches primitive sent witnessed =
     (if inv_name primitive = ''exact-prompt'' then Inr (witnessed = sent)
      else if inv_name primitive = ''claude-pasted-content'' then
        (if consumePastedBody witnessed sent = Some '''' then Inr True
         else case paste_frame witnessed of
           None \<Rightarrow> Inr False
         | Some (identifier, wrapped0) \<Rightarrow>
             let suffix = pasted_close identifier; wrapped = trim_suffix wrapped0 line_end in
             if \<not> has_suffix wrapped suffix then Inr False
             else Inr (consumePastedBody (trim_suffix wrapped suffix) sent = Some ''''))
      else Inl (unknown_witness primitive))"

definition SubmittedPromptMatches :: "invocation \<Rightarrow> string \<Rightarrow> string \<Rightarrow> err + bool" where
  "SubmittedPromptMatches primitive sent witnessed =
     (case if inv_name primitive = ''claude-pasted-content'' then joinStampLine sent else None of
        None \<Rightarrow> prompt_matches primitive sent witnessed
      | Some joined \<Rightarrow>
          (case prompt_matches primitive joined witnessed of
             Inl e \<Rightarrow> Inl e
           | Inr matched \<Rightarrow> if matched then Inr True else prompt_matches primitive sent witnessed))"

text \<open>Claude Code turns each tab of a paste into four spaces.\<close>

definition spread_tabs :: "string \<Rightarrow> string" where
  "spread_tabs s = concat (map (\<lambda>c. if c = CHR 0x09 then ''    '' else [c]) s)"

definition paste_variants :: "string \<Rightarrow> string list" where
  "paste_variants sent =
     concat (map (\<lambda>variant. [variant, spread_tabs variant]) (sent # (case joinStampLine sent of None \<Rightarrow> [] | Some joined \<Rightarrow> [joined])))"

fun first_match :: "(string \<Rightarrow> string option) \<Rightarrow> string list \<Rightarrow> string option" where
  "first_match f [] = None"
| "first_match f (x # xs) = (case f x of Some r \<Rightarrow> Some r | None \<Rightarrow> first_match f xs)"

definition SubmittedEnvelopeMatches :: "invocation \<Rightarrow> string \<Rightarrow> string \<Rightarrow> err + bool \<times> string" where
  "SubmittedEnvelopeMatches primitive sent witnessed =
     (if inv_name primitive = ''exact-prompt'' then
        Inr (has_prefix witnessed sent, trim_prefix witnessed sent)
      else if inv_name primitive = ''claude-pasted-content'' then
        (case first_match (\<lambda>text. matchClaudePaste text witnessed) (paste_variants sent) of
           Some rest \<Rightarrow> Inr (True, rest)
         | None \<Rightarrow> Inr (False, ''''))
      else Inl (unknown_witness primitive))"

definition SubmittedPromptStartsWith :: "invocation \<Rightarrow> string \<Rightarrow> string \<Rightarrow> err + bool" where
  "SubmittedPromptStartsWith primitive sent witnessed =
     (case SubmittedEnvelopeMatches primitive sent witnessed of Inl e \<Rightarrow> Inl e | Inr (matched, _) \<Rightarrow> Inr matched)"

section \<open>Texts that cannot be pasted unchanged\<close>

definition literal :: "string \<Rightarrow> string \<Rightarrow> string option" where
  "literal p s = (if has_prefix s p then Some (drop (length p) s) else None)"

definition some_digits :: "string \<Rightarrow> string option" where
  "some_digits s = (let r = dropWhile clock_digit s in if r = s then None else Some r)"

text \<open>\<^verbatim>\<open>(?: \+\d+ lines)?\<close>, then dots and the closing bracket.\<close>

definition line_count :: "string \<Rightarrow> string" where
  "line_count s = (case Option.bind (Option.bind (literal '' +'' s) some_digits) (literal '' lines'') of None \<Rightarrow> s | Some r \<Rightarrow> r)"

definition placeholder_at :: "string \<Rightarrow> bool" where
  "placeholder_at s =
     list_ex (\<lambda>label. case Option.bind (literal (''['' @ label @ '' #'') s) some_digits of
         None \<Rightarrow> False
       | Some r \<Rightarrow> has_prefix (dropWhile (\<lambda>c. c = CHR ''.'') (line_count r)) '']'')
       [''Pasted text'', ''Image'', ''...Truncated text'']"

fun pastePlaceholder :: "string \<Rightarrow> bool" where
  "pastePlaceholder [] = False"
| "pastePlaceholder (c # s) = (placeholder_at (c # s) \<or> pastePlaceholder s)"

definition heldByClaudePaste :: "unicode \<Rightarrow> nat \<Rightarrow> bool" where
  "heldByClaudePaste u r \<longleftrightarrow> r = 8232 \<or> r = 8233 \<or> is_cf u r \<and> \<not> is_concat_mark u r"

fun held_names :: "unicode \<Rightarrow> nat list \<Rightarrow> string list \<Rightarrow> string list" where
  "held_names u [] names = names"
| "held_names u (r # rs) names =
     held_names u rs (if heldByClaudePaste u r \<and> ''U+'' @ hex4 r \<notin> set names then names @ [''U+'' @ hex4 r] else names)"

definition PasteHazard :: "unicode \<Rightarrow> invocation \<Rightarrow> string \<Rightarrow> err + string" where
  "PasteHazard u primitive text =
     (if inv_name primitive = ''exact-prompt'' then Inr ''''
      else if inv_name primitive = ''claude-pasted-content'' then
        (if pastePlaceholder text
         then Inr ''text contains a numbered paste placeholder in brackets, for pasted text, an image, or truncated text; Claude Code can replace it with the content of an earlier paste, so describe it in words''
         else let names = held_names u (runes text) [] in
           if names \<noteq> [] then Inr (''text contains '' @ join_with '', '' names @ '', which Claude Code drops or turns into a newline, and it then leaves the paste unsubmitted; remove these invisible format characters or line and paragraph separators'')
           else Inr '''')
      else Inl (unknown_witness primitive))"

definition submitWitnessPrimitives :: "string list" where
  "submitWitnessPrimitives = [''exact-prompt'', ''claude-pasted-content'']"

fun any_hazard :: "unicode \<Rightarrow> string list \<Rightarrow> string \<Rightarrow> err + string" where
  "any_hazard u [] text = Inr ''''"
| "any_hazard u (name # rest) text =
     (case PasteHazard u \<lparr>inv_name = name, inv_params = []\<rparr> text of
        Inl e \<Rightarrow> Inl e
      | Inr reason \<Rightarrow> if reason \<noteq> '''' then Inr reason else any_hazard u rest text)"

definition AnyPasteHazard :: "unicode \<Rightarrow> string \<Rightarrow> err + string" where
  "AnyPasteHazard u = any_hazard u submitWitnessPrimitives"

section \<open>A paste is recognised exactly\<close>

text \<open>What Claude Code may report of a text: each opener may be escaped, unless it reads as escaped already.\<close>

inductive escaped :: "string \<Rightarrow> string \<Rightarrow> bool" where
  escaped_Nil: "escaped [] []"
| escaped_keep: "s \<noteq> [] \<Longrightarrow> escaped (drop (snd (decode_rune s)) s) t \<Longrightarrow> escaped s (take (snd (decode_rune s)) s @ t)"
| escaped_pair: "s \<noteq> [] \<Longrightarrow> \<not> has_prefix s escape \<Longrightarrow> fst (decode_rune s) = 60 \<or> fst (decode_rune s) \<ge> 128 \<Longrightarrow>
    escaped (drop (snd (decode_rune s)) s) t \<Longrightarrow> escaped s (escape @ t)"

lemma escape_prefix: "has_prefix (escape @ t) escape" "drop 2 (escape @ t) = t" "has_prefix s escape \<Longrightarrow> s = escape @ drop 2 s"
  by (auto simp: escape_def has_prefix_iff)

lemma consume_sound: "consumePastedBody body sent = Some rest \<Longrightarrow> \<exists>t. escaped sent t \<and> body = t @ rest"
proof (induction body sent arbitrary: rest rule: consumePastedBody.induct)
  case (1 body sent)
  show ?case
  proof (cases "sent = ''''")
    case True
    then show ?thesis using "1.prems" escaped_Nil by (auto simp: consumePastedBody.simps)
  next
    case False
    let ?r = "fst (decode_rune sent)" and ?n = "snd (decode_rune sent)"
    show ?thesis
    proof (cases "has_prefix body escape \<and> \<not> has_prefix sent escape \<and> (?r = 60 \<or> ?r \<ge> 128)")
      case True
      then have "consumePastedBody (drop 2 body) (drop ?n sent) = Some rest"
        using "1.prems" False by (subst (asm) consumePastedBody.simps) (simp add: Let_def)
      from "1.IH"(1) [OF False refl refl True this] obtain t where t: "escaped (drop ?n sent) t" "drop 2 body = t @ rest" by blast
      have "body = escape @ drop 2 body" using True escape_prefix(3) by blast
      then show ?thesis using escaped_pair [OF False _ _ t(1)] True t(2) by (metis append_assoc)
    next
      case keep: False
      then have step: "has_prefix body (take ?n sent)" "consumePastedBody (drop ?n body) (drop ?n sent) = Some rest"
        using "1.prems" False by (subst (asm) consumePastedBody.simps, auto simp: Let_def split: if_splits)+
      from "1.IH"(2) [OF False refl refl keep _ step(2)] step(1) obtain t where t: "escaped (drop ?n sent) t" "drop ?n body = t @ rest" by blast
      have "?n \<le> length sent" using decode_width [OF False] by simp
      then have "body = take ?n sent @ drop ?n body" using step(1) by (auto simp: has_prefix_iff)
      then show ?thesis using escaped_keep [OF False t(1)] t(2) by (metis append_assoc)
    qed
  qed
qed

lemma escaped_hd:
  assumes "escaped s t" "s \<noteq> []"
  obtains t' where "t = hd s # t'" | t' where "t = escape @ t'"
  using assms
proof (cases rule: escaped.cases)
  case (escaped_keep t')
  obtain n where "snd (decode_rune s) = Suc n" using decode_width [OF assms(2)] by (cases "snd (decode_rune s)") auto
  then show ?thesis using that(1) escaped_keep assms(2) by (cases s) auto
qed (use assms that in auto)

lemma consume_complete: "escaped sent t \<Longrightarrow> sent = [] \<or> last sent \<noteq> CHR ''<'' \<Longrightarrow> consumePastedBody (t @ rest) sent = Some rest"
proof (induction rule: escaped.induct)
  case (escaped_keep s t)
  let ?n = "snd (decode_rune s)"
  have n: "0 < ?n" "?n \<le> length s" using decode_width [OF escaped_keep(1)] by auto
  have rest: "drop ?n s = [] \<or> last (drop ?n s) \<noteq> CHR ''<''" using escaped_keep.prems escaped_keep(1) by (auto simp: last_drop)
  have no: "\<not> (has_prefix ((take ?n s @ t) @ rest) escape \<and> \<not> has_prefix s escape)"
  proof
    assume both: "has_prefix ((take ?n s @ t) @ rest) escape \<and> \<not> has_prefix s escape"
    have lt: "hd s = CHR ''<''" using both n escaped_keep(1) by (cases s; cases ?n) (auto simp: escape_def has_prefix_iff)
    then have one: "?n = 1" "s = CHR ''<'' # tl s" using decode_ascii [of "CHR ''<''" "tl s"] escaped_keep(1) by (cases s; simp)+
    then have tail: "has_prefix (t @ rest) [CHR 0x5C]" "tl s \<noteq> []"
      using both escaped_keep.prems by (cases s; auto simp: escape_def has_prefix_iff)+
    have "escaped (tl s) t" using escaped_keep(2) one by (metis One_nat_def drop0 drop_Suc)
    from escaped_hd [OF this tail(2)] have "hd (tl s) = CHR 0x5C" using tail(1)
      by cases (auto simp: escape_def has_prefix_iff)
    then have "has_prefix s escape" using one(2) tail(2) by (cases s; cases "tl s") (auto simp: escape_def has_prefix_iff)
    with both show False by blast
  qed
  have "drop ?n ((take ?n s @ t) @ rest) = t @ rest" "has_prefix ((take ?n s @ t) @ rest) (take ?n s)"
    using n by (simp_all add: has_prefix_iff)
  then show ?case using escaped_keep.IH [OF rest] no escaped_keep(1) by (subst consumePastedBody.simps) (auto simp: Let_def)
next
  case (escaped_pair s t)
  let ?n = "snd (decode_rune s)"
  have rest: "drop ?n s = [] \<or> last (drop ?n s) \<noteq> CHR ''<''" using escaped_pair.prems escaped_pair(1) by (auto simp: last_drop)
  have "has_prefix ((escape @ t) @ rest) escape" "drop 2 ((escape @ t) @ rest) = t @ rest" by (simp_all add: escape_prefix has_prefix_iff escape_def)
  then show ?case using escaped_pair.IH [OF rest] escaped_pair(1-3) by (subst consumePastedBody.simps) (simp add: Let_def)
qed (simp add: consumePastedBody.simps)

text \<open>
  C10 (paste_consume_exact): \<^verbatim>\<open>consumePastedBody\<close> recognises exactly the reports of a paste:
  it accepts a prompt for a sent text, with the rest of the prompt, if and only if the prompt
  is that rest after a form of the text in which any openers of a tag are escaped. Its single
  pass without backtracking misses none. The text does not end with an opener, as no
  envelope does.
\<close>

theorem paste_consume_exact:
  assumes "last sent \<noteq> CHR ''<''"
  shows "consumePastedBody body sent = Some rest \<longleftrightarrow> (\<exists>t. escaped sent t \<and> body = t @ rest)"
  using consume_sound [of body sent rest] consume_complete [of sent _ rest] assms by auto

theorem paste_consume_exact_witness:
  "(\<exists>t. escaped ''a<b'' t \<and> ''a'' @ escape @ ''bc'' = t @ ''c'') \<and> (\<exists>t. escaped ''a<b'' t \<and> ''a<bc'' = t @ ''c'')
   \<and> \<not> (\<exists>t. escaped ''a<b'' t \<and> ''ab'' = t @ '''')"
  using paste_consume_exact [of "''a<b''" "''a'' @ escape @ ''bc''" "''c''"] paste_consume_exact [of "''a<b''" "''a<bc''" "''c''"]
    paste_consume_exact [of "''a<b''" "''ab''" "''''"]
  by (simp add: consumePastedBody.simps decode_ascii escape_def has_prefix_def)

end
