(* ===== verification/Envelope_Receipt.thy ===== *)
theory Envelope_Receipt
  imports Harness_Witness Envelope_Wires
begin

text \<open>
  Whether a native witness is the receipt of an envelope (\<^verbatim>\<open>cmd/gang/envelope_legacy.go\<close>):
  the witness must start with one of the wires the envelope may have been typed as. A witness
  names the token of at most one envelope.
\<close>

section \<open>Receipts\<close>

definition peer_open :: string where
  "peer_open = ''<cross-session-message>'' @ line_end"

definition claudePeerBody :: "string \<Rightarrow> string" where
  "claudePeerBody wire = peer_open @ wire @ line_end @ ''</cross-session-message>''"

definition anyReceiptWire :: "unicode \<Rightarrow> envelope \<Rightarrow> (string \<Rightarrow> err + bool \<times> string) \<Rightarrow> err + bool \<times> string" where
  "anyReceiptWire u e matches =
     (case envelopeText u e of
        Inl err \<Rightarrow> Inl err
      | Inr wire \<Rightarrow>
          (case matches wire of
             Inl err \<Rightarrow> Inl err
           | Inr (matched, outside) \<Rightarrow>
               if matched then Inr (True, outside)
               else if env_context_stamp e \<noteq> None \<and> currentStamp (stamp_of e) then Inr (False, '''')
               else (case legacyEnvelopeText u e of
                   Inl _ \<Rightarrow> Inr (False, '''')
                 | Inr legacy \<Rightarrow> if legacy = wire then Inr (False, '''') else matches legacy)))"

definition wire_receipt :: "invocation \<Rightarrow> string \<Rightarrow> string \<Rightarrow> err + bool \<times> string" where
  "wire_receipt primitive witnessed wire =
     (if inv_name primitive = ''claude-pasted-content'' \<and> witnessed = claudePeerBody wire then Inr (True, '''')
      else SubmittedEnvelopeMatches primitive wire witnessed)"

definition receiptMatches :: "unicode \<Rightarrow> invocation \<Rightarrow> envelope \<Rightarrow> string \<Rightarrow> err + bool \<times> string" where
  "receiptMatches u primitive e witnessed =
     (case anyReceiptWire u e (wire_receipt primitive witnessed) of
        Inl err \<Rightarrow> Inl err
      | Inr (matched, outside) \<Rightarrow>
          if \<not> matched then Inr (False, '''')
          else Inr (True, if env_context_stamp e = None then strip_stamp_line outside else outside))"

section \<open>The token a text names\<close>

text \<open>A text that opens with the tag of a token: \<^verbatim>\<open>[gang:SENDER#TOKEN\<close> or \<^verbatim>\<open>[gang#TOKEN\<close>, and the end of the token.\<close>

definition opening_of :: "string \<Rightarrow> string \<Rightarrow> bool" where
  "opening_of token a \<longleftrightarrow> (\<exists>who c. a = ''[gang'' @ who @ ''#'' @ token @ [c] \<and> list_all (\<lambda>c. alnum c \<or> c \<in> set ''._:-'') who
     \<and> c \<in> {CHR ''-'', CHR '' '', CHR '']''} \<and> list_all alnum token)"

definition names_token :: "string \<Rightarrow> string \<Rightarrow> bool" where
  "names_token token s \<longleftrightarrow> (\<exists>a rest. opening_of token a \<and> s = a @ rest)"

lemma openers:
  assumes "opening_of token a" "c \<in> set a"
  shows "of_char c < (128 :: nat) \<and> c \<notin> {CHR ''<'', CHR 0x09, CHR 0x0A}"
proof -
  have letter: "of_char c < (128 :: nat) \<and> c \<notin> {CHR ''<'', CHR 0x09, CHR 0x0A}" if "alnum c"
  proof -
    have "\<not> alnum (CHR ''<'')" "\<not> alnum (CHR 0x09)" "\<not> alnum (CHR 0x0A)" by (simp_all add: alnum_def)
    moreover have "of_char c < (128 :: nat)" using \<open>alnum c\<close> by (auto simp: alnum_def Let_def)
    ultimately show ?thesis using \<open>alnum c\<close> by auto
  qed
  have "alnum c \<or> c \<in> set ''._:-[gan# ]''" using assms unfolding opening_of_def list_all_iff by (elim exE conjE) auto
  then show ?thesis
  proof
    assume "c \<in> set ''._:-[gan# ]''"
    then show ?thesis by (simp, elim disjE) simp_all
  qed (rule letter)
qed

lemma alnum_stop: "c \<in> {CHR ''-'', CHR '' '', CHR '']''} \<Longrightarrow> \<not> alnum c"
  by (auto simp: alnum_def)

lemma until_eq: "P a \<Longrightarrow> P b \<Longrightarrow> \<forall>c \<in> set xs. \<not> P c \<Longrightarrow> \<forall>c \<in> set ys. \<not> P c \<Longrightarrow> xs @ a # s = ys @ b # t \<Longrightarrow> xs = ys"
proof (induction xs arbitrary: ys)
  case Nil
  then show ?case by (cases ys) auto
next
  case (Cons x xs)
  then show ?case by (cases ys) auto
qed

lemma names_unique:
  assumes "names_token t s" "names_token t' s"
  shows "t = t'"
proof -
  have sharp: "\<not> (alnum (CHR ''#'') \<or> CHR ''#'' \<in> set ''._:-'')" by (simp add: alnum_def)
  obtain who c r where s: "s = ''[gang'' @ who @ ''#'' @ t @ c # r" "\<forall>d \<in> set who. alnum d \<or> d \<in> set ''._:-''" "\<not> alnum c" "list_all alnum t"
    using assms(1) alnum_stop by (auto simp: names_token_def opening_of_def list_all_iff)
  obtain who' c' r' where s': "s = ''[gang'' @ who' @ ''#'' @ t' @ c' # r'" "\<forall>d \<in> set who'. alnum d \<or> d \<in> set ''._:-''" "\<not> alnum c'" "list_all alnum t'"
    using assms(2) alnum_stop by (auto simp: names_token_def opening_of_def list_all_iff)
  have eq: "who @ CHR ''#'' # (t @ c # r) = who' @ CHR ''#'' # (t' @ c' # r')" using s(1) s'(1) by simp
  have "who = who'" by (rule until_eq [OF _ _ _ _ eq, of "\<lambda>c. c = CHR ''#''"]) (use s(2) s'(2) sharp in auto)
  then have "t @ c # r = t' @ c' # r'" using eq by simp
  then show ?thesis using until_eq [of "\<lambda>c. \<not> alnum c"] s(3,4) s'(3,4) by (auto simp: list_all_iff)
qed

section \<open>Every wire names its envelope\<close>

lemma head_opening:
  assumes "sender = '''' \<or> envelopeTokenPattern sender" "list_all alnum token" "part_name = '''' \<or> has_prefix part_name ''-''"
  shows "names_token token (envelopeOpening (envelopeHead sender (token @ part_name)) marker @ rest)"
proof -
  let ?who = "if sender = '''' then '''' else '':'' @ sender"
  have plain: "list_all (\<lambda>c. alnum c \<or> c \<in> set ''._:-'') ?who"
    using assms(1) by (auto simp: envelopeTokenPattern_def split: list.splits)
  define tail where "tail = part_name @ (if marker = '''' then '']'' else '' '' @ marker @ '']'') @ rest"
  have "tail \<noteq> [] \<and> hd tail \<in> {CHR ''-'', CHR '' '', CHR '']''}" using assms(3) by (auto simp: tail_def has_prefix_iff)
  then obtain c r where tail: "tail = c # r" "c \<in> {CHR ''-'', CHR '' '', CHR '']''}" by (cases tail) auto
  have "envelopeOpening (envelopeHead sender (token @ part_name)) marker @ rest = (''[gang'' @ ?who @ ''#'' @ token @ [c]) @ r"
    using tail(1) by (auto simp: envelopeOpening_def envelopeHead_def tail_def)
  moreover have "opening_of token (''[gang'' @ ?who @ ''#'' @ token @ [c])"
    unfolding opening_of_def using plain tail(2) assms(2) by blast
  ultimately show ?thesis unfolding names_token_def by blast
qed

lemma names_append: "names_token t s \<Longrightarrow> names_token t (s @ r)"
  by (auto simp: names_token_def)

lemma tag_names:
  assumes "renderEnvelopeTag u (envelopeHead sender (token @ part_name)) marker body = Inr wire"
    and "sender = '''' \<or> envelopeTokenPattern sender" "list_all alnum token" "part_name = '''' \<or> has_prefix part_name ''-''"
  shows "names_token token wire"
proof -
  obtain b where "wire = frame (envelopeHead sender (token @ part_name)) marker b" using rendered_valid [OF assms(1)] by blast
  then show ?thesis using head_opening [OF assms(2-4)] by (simp add: frame_def)
qed

lemma gangline_names:
  "renderGanglineEnvelope u (token @ part_name) marker body = Inr wire \<Longrightarrow> list_all alnum token \<Longrightarrow> part_name = '''' \<or> has_prefix part_name ''-''
   \<Longrightarrow> names_token token wire"
  using tag_names [of u "''''" token part_name marker body wire]
  by (simp add: renderGanglineEnvelope_def renderEnvelopeHead_def split: if_splits)

lemma sender_names:
  "renderEnvelope u sender token marker body = Inr wire \<Longrightarrow> list_all alnum token \<Longrightarrow> names_token token wire"
  using tag_names [of u sender token "''''" marker body wire]
  by (simp add: renderEnvelope_def renderEnvelopeHead_def split: if_splits)

lemma legacy_names:
  "legacyRenderEnvelope u sender (token @ part_name) marker body = Inr wire \<Longrightarrow> list_all alnum token \<Longrightarrow> part_name = '''' \<or> has_prefix part_name ''-''
   \<Longrightarrow> names_token token wire"
  using head_opening [of sender token part_name marker]
  by (auto simp: legacyRenderEnvelope_def Let_def split: if_splits option.splits)

lemma join_hd: "join_with sep (x # xs) = x @ (if xs = [] then [] else sep @ join_with sep xs)"
  by (cases xs) simp_all

lemma sections_name:
  "render_sections u token ss = Inr parts \<Longrightarrow> list_all alnum token \<Longrightarrow> \<forall>x \<in> set parts. names_token token x"
proof (induction ss arbitrary: parts)
  case (Cons x ss)
  then show ?case using gangline_names [of u token "''-'' @ fst x" "''startup''" "snd x"]
    by (cases x) (auto simp: has_prefix_def split: if_splits sum.splits)
qed simp

lemma legacy_sections_name:
  "legacy_sections u token occupancy ss = Inr parts \<Longrightarrow> list_all alnum token \<Longrightarrow> \<forall>x \<in> set parts. names_token token x"
proof (induction ss arbitrary: parts)
  case (Cons x ss)
  then show ?case using legacy_names [of u "fst x" token "''-'' @ fst x" "''startup''" "legacyStampedBody occupancy (snd x)"]
    by (cases x) (auto simp: has_prefix_def split: if_splits sum.splits)
qed simp

lemma join_names: "\<forall>x \<in> set (parts @ [part]). names_token t x \<Longrightarrow> names_token t (join_with sep (parts @ [part]))"
  by (cases parts) (auto simp: join_hd names_append)

lemma unstamped_names:
  assumes "unstamped_text u e = Inr wire" "list_all alnum (env_token e)"
  shows "names_token (env_token e) wire"
proof (cases "env_startup e")
  case None
  then show ?thesis
    using assms gangline_names [of u "env_token e" "''''" "env_purpose e" "body_of e" wire] sender_names [of u "senderLabel (env_from e)" "env_token e" "env_purpose e" "body_of e" wire]
    by (auto simp: unstamped_text_def Let_def split: if_splits)
next
  case (Some s)
  let ?gang = "snd_kind (env_from e) = SenderGangline \<or> env_purpose e = ''startup''"
  from assms(1) obtain parts part where parts: "render_sections u (env_token e) (section_list s) = Inr parts"
    "(if ?gang then renderGanglineEnvelope u (env_token e) (env_purpose e) (body_of e)
      else renderEnvelope u (senderLabel (env_from e)) (env_token e) (env_purpose e) (body_of e)) = Inr part"
    "budgeted (join_with (line_end @ line_end) (parts @ [part])) = Inr wire"
    unfolding unstamped_text_def startupEnvelopeText_def Some Let_def option.case by (auto split: if_splits sum.splits)
  have "names_token (env_token e) part"
    using parts(2) assms(2) gangline_names [of u "env_token e" "''''" "env_purpose e" "body_of e" part] sender_names by (auto split: if_splits)
  then show ?thesis using sections_name [OF parts(1) assms(2)] join_names [of parts part] budgeted_wire [OF parts(3)] by simp
qed

lemma text_names:
  assumes "envelopeText u e = Inr wire" "list_all alnum (env_token e)"
  shows "names_token (env_token e) wire"
  using assms unstamped_names [of u e]
  by (auto simp: envelopeText_def names_append dest: budgeted_wire split: sum.splits if_splits option.splits)

lemma legacy_text_names:
  assumes "legacyEnvelopeText u e = Inr wire" "list_all alnum (env_token e)"
  shows "names_token (env_token e) wire"
proof (cases "env_startup e")
  case None
  then show ?thesis
    using assms legacy_names [of u "senderLabel (env_from e)" "env_token e" "''''" "env_purpose e" _ wire] by (simp add: legacyEnvelopeText_def Let_def)
next
  case (Some s)
  from assms(1) obtain parts part where parts:
    "legacy_sections u (env_token e) (fst (cut (stamp_of e) '';'')) (section_list s) = Inr parts"
    "legacyRenderEnvelope u (if env_purpose e = ''startup'' then ''startup'' else senderLabel (env_from e)) (env_token e)
       (env_purpose e) (legacyStampedBody (stamp_of e) (body_of e)) = Inr part" "wire = join_with (line_end @ line_end) (parts @ [part])"
    unfolding legacyEnvelopeText_def Some Let_def option.case by (auto split: sum.splits)
  have "names_token (env_token e) part" using legacy_names [of u _ "env_token e" "''''"] parts(2) assms(2) by simp
  then show ?thesis using legacy_sections_name [OF parts(1) assms(2)] join_names [of parts part] parts(3) by simp
qed

section \<open>A witness names one envelope\<close>

lemma opening_plain: "opening_of token a \<Longrightarrow> c \<in> set a \<Longrightarrow> of_char c < (128 :: nat) \<and> c \<notin> {CHR ''<'', CHR 0x09, CHR 0x0A}"
  using openers [of token a] by blast

lemma escaped_prefix:
  assumes "escaped (a @ s) t" "\<forall>c \<in> set a. of_char c < (128 :: nat) \<and> c \<noteq> CHR ''<''"
  shows "\<exists>t'. t = a @ t'"
  using assms
proof (induction a arbitrary: t)
  case (Cons c a)
  have dec: "decode_rune ((c # a) @ s) = (of_char c, 1)" using Cons.prems(2) by (simp add: decode_ascii)
  have "(of_char c :: nat) \<noteq> 60"
  proof
    assume "(of_char c :: nat) = 60"
    then have "(of_char c :: nat) = of_char (CHR ''<'')" by simp
    then have "c = CHR ''<''" by (simp only: of_char_eq_iff)
    then show False using Cons.prems(2) by simp
  qed
  with Cons.prems(1) dec obtain t' where t': "escaped (a @ s) t'" "t = c # t'"
    using Cons.prems(2) by (cases rule: escaped.cases) auto
  then show ?case using Cons.IH [OF t'(1)] Cons.prems(2) by auto
qed simp

lemma names_escaped:
  assumes "names_token token s" "escaped s t" shows "names_token token (t @ r)"
proof -
  obtain a rest where a: "opening_of token a" "s = a @ rest" using assms(1) by (auto simp: names_token_def)
  then show ?thesis using escaped_prefix [of a rest t] assms(2) opening_plain [OF a(1)] by (auto simp: names_token_def)
qed

lemma names_spread: "names_token token s \<Longrightarrow> names_token token (spread_tabs s)"
proof -
  assume "names_token token s"
  then obtain a rest where a: "opening_of token a" "s = a @ rest" by (auto simp: names_token_def)
  have "concat (map (\<lambda>c. if c = CHR 0x09 then ''    '' else [c]) x) = x" if "\<forall>c \<in> set x. c \<noteq> CHR 0x09" for x
    using that by (induction x) auto
  then have "spread_tabs s = a @ spread_tabs rest" using a opening_plain [OF a(1)] by (auto simp: spread_tabs_def)
  then show ?thesis using a(1) by (auto simp: names_token_def)
qed

lemma cut_last_parts: "cut_last s sep = Some (b, r) \<Longrightarrow> s = b @ r \<and> has_prefix r sep"
  by (induction s arbitrary: b r) (auto split: option.splits if_splits)

lemma names_joined:
  assumes "names_token token s" "joinStampLine s = Some j" shows "names_token token j"
proof -
  obtain a rest where a: "opening_of token a" "s = a @ rest" using assms(1) by (auto simp: names_token_def)
  obtain b r where c: "cut_last s (line_end @ ''[gang '') = Some (b, r)" "j = b @ tl r"
    using assms(2) by (auto simp: joinStampLine_def split: option.splits if_splits)
  have parts: "s = b @ r" "has_prefix r (line_end @ ''[gang '')" using cut_last_parts [OF c(1)] by simp_all
  then obtain r' where r: "r = CHR 0x0A # r'" by (auto simp: has_prefix_iff line_end_def)
  have "length a \<le> length b"
  proof (rule ccontr)
    assume "\<not> length a \<le> length b"
    then have "(a @ rest) ! length b \<in> set a" by (simp add: nth_append)
    moreover have "(a @ rest) ! length b = CHR 0x0A" using a(2) parts(1) r by (metis nth_append_length)
    ultimately show False using opening_plain [OF a(1)] by auto
  qed
  moreover have "a @ rest = b @ r" using a(2) parts(1) by simp
  ultimately obtain b' where "b = a @ b'" by (metis append_eq_append_conv_if append_take_drop_id)
  then show ?thesis using a(1) c(2) by (auto simp: names_token_def)
qed

text \<open>The part of a witness that starts with the pasted text.\<close>

definition submitted_text :: "string \<Rightarrow> string" where
  "submitted_text witnessed =
     (if has_prefix witnessed peer_open then trim_prefix witnessed peer_open
      else case paste_frame witnessed of Some (_, wrapped) \<Rightarrow> wrapped | None \<Rightarrow> witnessed)"

lemma names_hd: "names_token token s \<Longrightarrow> \<exists>r. s = CHR ''['' # r"
  by (auto simp: names_token_def opening_of_def)

lemma direct_text: "names_token token witnessed \<Longrightarrow> submitted_text witnessed = witnessed"
  using names_hd [of token witnessed] by (auto simp: submitted_text_def paste_frame_def has_prefix_def trim_prefix_def line_end_def pasted_open_def peer_open_def)

lemma framed_text: "paste_frame witnessed = Some (i, wrapped) \<Longrightarrow> submitted_text witnessed = wrapped"
proof -
  assume some: "paste_frame witnessed = Some (i, wrapped)"
  have "\<not> has_prefix witnessed peer_open"
  proof
    assume "has_prefix witnessed peer_open"
    then have "paste_frame witnessed = None"
      by (auto simp: has_prefix_iff paste_frame_def trim_prefix_def line_end_def pasted_open_def peer_open_def has_prefix_def)
    then show False using some by simp
  qed
  then show ?thesis using some by (simp add: submitted_text_def)
qed

lemma paste_names:
  assumes "names_token token sent" "matchClaudePaste sent witnessed = Some rest"
  shows "names_token token (submitted_text witnessed)"
proof -
  have direct: "names_token token body" if "consumePastedBody body sent = Some r" for body r
    using consume_sound [OF that] names_escaped [OF assms(1)] by blast
  show ?thesis
  proof (cases "consumePastedBody witnessed sent")
    case (Some r)
    from direct [OF this] show ?thesis using direct_text by simp
  next
    case None
    then obtain i wrapped r where "paste_frame witnessed = Some (i, wrapped)" "consumePastedBody wrapped sent = Some r"
      using assms(2) by (auto simp: matchClaudePaste_def split: option.splits)
    then show ?thesis using direct framed_text by simp
  qed
qed

lemma first_match_some: "first_match f xs = Some r \<Longrightarrow> \<exists>x \<in> set xs. f x = Some r"
  by (induction xs) (auto split: option.splits)

lemma wire_receipt_names:
  assumes "names_token token wire" "wire_receipt primitive witnessed wire = Inr (True, rest)"
  shows "names_token token (submitted_text witnessed)"
proof (cases "inv_name primitive = ''claude-pasted-content'' \<and> witnessed = claudePeerBody wire")
  case True
  then have "submitted_text witnessed = wire @ line_end @ ''</cross-session-message>''"
    by (simp add: submitted_text_def claudePeerBody_def)
  then show ?thesis using names_append [OF assms(1)] by simp
next
  case False
  then have sub: "SubmittedEnvelopeMatches primitive wire witnessed = Inr (True, rest)"
    using assms(2) unfolding wire_receipt_def by (auto split: if_splits)
  show ?thesis
  proof (cases "inv_name primitive = ''exact-prompt''")
    case True
    then have "has_prefix witnessed wire" using sub by (simp add: SubmittedEnvelopeMatches_def)
    then have "names_token token witnessed" using names_append [OF assms(1)] by (auto simp: has_prefix_iff)
    then show ?thesis using direct_text by simp
  next
    case False
    then have "first_match (\<lambda>text. matchClaudePaste text witnessed) (paste_variants wire) = Some rest"
      using sub by (auto simp: SubmittedEnvelopeMatches_def split: if_splits option.splits)
    then obtain v where v: "v \<in> set (paste_variants wire)" "matchClaudePaste v witnessed = Some rest" using first_match_some by blast
    have "names_token token v"
      using v(1) assms(1) names_joined [OF assms(1)] names_spread by (auto simp: paste_variants_def split: option.splits)
    then show ?thesis using paste_names v(2) by blast
  qed
qed

lemma receipt_names:
  assumes "receiptMatches u primitive e witnessed = Inr (True, rest)" "list_all alnum (env_token e)"
  shows "names_token (env_token e) (submitted_text witnessed)"
proof -
  obtain outside where "anyReceiptWire u e (wire_receipt primitive witnessed) = Inr (True, outside)"
    using assms(1) by (auto simp: receiptMatches_def split: sum.splits if_splits)
  then obtain wire where "wire_receipt primitive witnessed wire = Inr (True, outside)" "names_token (env_token e) wire"
    using text_names [OF _ assms(2)] legacy_text_names [OF _ assms(2)]
    by (auto simp: anyReceiptWire_def split: sum.splits if_splits prod.splits)
  then show ?thesis using wire_receipt_names by blast
qed

text \<open>
  C8 (receipt_names_one_envelope): a native witness is the receipt of at most one envelope. If
  \<^verbatim>\<open>receiptMatches\<close> accepts the same prompt for two envelopes, whichever of their wires it
  matched (stamped or not, of this release or the earlier one, pasted, wrapped, escaped or with
  tabs spread out), the envelopes carry the same token. Tokens are alphanumeric, as
  \<^verbatim>\<open>randomEnvelopeToken\<close> makes them.
\<close>

theorem receipt_names_one_envelope:
  assumes "receiptMatches u primitive e witnessed = Inr (True, rest)" "receiptMatches u primitive' e' witnessed = Inr (True, rest')"
    and "list_all alnum (env_token e)" "list_all alnum (env_token e')"
  shows "env_token e = env_token e'"
  using names_unique receipt_names [OF assms(1,3)] receipt_names [OF assms(2,4)] by blast

theorem receipt_names_one_envelope_witness:
  "receiptMatches ascii_unicode \<lparr>inv_name = ''exact-prompt'', inv_params = []\<rparr> demo_wire
     (''[gang:bob#t] gang:a [/gang:bob#t]'' @ line_end @ ''[gang ctx=1k /]'') = Inr (True, '''')
   \<and> env_token demo_wire = env_token (demo_wire\<lparr>env_id := ''other''\<rparr>)"
proof -
  have same: "envelopeText ascii_unicode (demo_wire\<lparr>env_id := ''other''\<rparr>) = envelopeText ascii_unicode demo_wire"
    by (simp add: envelopeText_def unstamped_text_def body_of_def stamp_of_def isContextBandNotice_def
        cong: option.case_cong sum.case_cong if_cong)
  have got: "receiptMatches ascii_unicode \<lparr>inv_name = ''exact-prompt'', inv_params = []\<rparr> e
      (''[gang:bob#t] gang:a [/gang:bob#t]'' @ line_end @ ''[gang ctx=1k /]'') = Inr (True, '''')"
    if "e \<in> {demo_wire, demo_wire\<lparr>env_id := ''other''\<rparr>}" for e
    using that demo_text same by (auto simp: receiptMatches_def anyReceiptWire_def wire_receipt_def SubmittedEnvelopeMatches_def
        demo_wire_def has_prefix_def trim_prefix_def)
  have "list_all alnum (env_token demo_wire)" by (simp add: demo_wire_def alnum_def)
  then show ?thesis using receipt_names_one_envelope [OF got got, of demo_wire "demo_wire\<lparr>env_id := ''other''\<rparr>"] got by simp
qed

end
