(* ===== verification/Delivery_Ledger.thy ===== *)
theory Delivery_Ledger
  imports Core_Step Envelope_Receipt Envelope_Stamp Usage_Work Idle_Sweep
begin

text \<open>
  The ledger of delivery (\<^verbatim>\<open>cmd/gang/runtime.go\<close>, \<^verbatim>\<open>late_witness.go\<close>, \<^verbatim>\<open>delivery.go\<close>,
  \<^verbatim>\<open>authority.go\<close>, \<^verbatim>\<open>clear.go\<close>): how an event is applied to a saved agent, how typed input is
  settled, how the input of a process that died is recovered, and the notices about both.
  The agent of a result is what the caller's pointer holds afterwards. Which agents to wake
  once the lock is released is not part of the model.
\<close>

section \<open>What the operations take from outside\<close>

text \<open>
  The state directory of the team, the Unicode tables, the submit-witness primitive of the
  agent's collar (loading it may fail), whether a native session moved to another one, the
  tokens \<^verbatim>\<open>crypto/rand\<close> draws, the operator's names in a text, the text about input outside an
  envelope, the agent this command is hitching, the text of an error, and writing a warning to the operator.
\<close>

record env =
  rt_team :: team_paths
  rt_unicode :: unicode
  rt_witness :: "agent \<Rightarrow> err + invocation"
  rt_moved :: "agent \<Rightarrow> string \<Rightarrow> string \<Rightarrow> err + bool"
  rt_token :: "envelope_id \<Rightarrow> err + string"
  rt_operator_text :: "string \<Rightarrow> string"
  rt_outside_text :: "string \<Rightarrow> string"
  rt_hitching :: hitch_id
  rt_error_text :: "err \<Rightarrow> string"
  rt_warn :: "string \<Rightarrow> err option"

type_synonym agent_io = "(err option \<times> agent) io"

text \<open>\<^verbatim>\<open>if err := op(l, a); err != nil { return err }\<close> before the rest, and \<^verbatim>\<open>return op()\<close>.\<close>

definition then_agent :: "agent_io \<Rightarrow> (agent \<Rightarrow> agent_io) \<Rightarrow> agent_io" where
  "then_agent m f = and_then m (\<lambda>(x, a). case x of Some err \<Rightarrow> ret (Some err, a) | None \<Rightarrow> f a)"

definition checked :: "agent \<Rightarrow> 'a io \<Rightarrow> ('a \<Rightarrow> agent_io) \<Rightarrow> agent_io" where
  "checked a m f = and_then (attempt m) (\<lambda>r. case r of Inl err \<Rightarrow> ret (Some err, a) | Inr x \<Rightarrow> f x)"

definition proceed :: "agent \<Rightarrow> agent_io" where
  "proceed a = ret (None, a)"

definition finally_io :: "agent \<Rightarrow> unit io \<Rightarrow> agent_io" where
  "finally_io a m = checked a m (\<lambda>_. proceed a)"

definition join_errors :: "err option list \<Rightarrow> err option" where
  "join_errors xs = (case List.map_filter id xs of [] \<Rightarrow> None | es \<Rightarrow> Some (Joined es))"

section \<open>Notices\<close>

definition sendHitcherNotice :: "env \<Rightarrow> agent \<Rightarrow> envelope_id \<Rightarrow> string \<Rightarrow> bool io" where
  "sendHitcherNotice rt a i text =
     and_then (Agent (rt_team rt) (ag_hitched_by a)) (\<lambda>p.
     and_then (envelopePublished p i) (\<lambda>published.
       if published then ret False
       else and_then (attempt (ReadAgent p)) (\<lambda>r. case r of
           Inl err \<Rightarrow> if errors_is err NotExist then ret False else raise err
         | Inr hitcher \<Rightarrow>
             if ag_status hitcher \<noteq> Active then ret False
             else and_then (lift (rt_token rt i)) (\<lambda>token.
               and_then (reads now) (\<lambda>t.
               and_then (publishOnceTo (rt_team rt) p hitcher
                 (blank_envelope\<lparr>env_id := i, env_token := token, env_recipient := ag_id hitcher, env_to := ag_name hitcher,
                    env_from := blank_sender\<lparr>snd_kind := SenderGangline, snd_name := ''hitch''\<rparr>,
                    env_message := \<lparr>msg_text = rt_operator_text rt text\<rparr>, env_created_at := t\<rparr>)) (\<lambda>_. ret True))))))"

definition warned :: "env \<Rightarrow> string \<Rightarrow> unit io" where
  "warned rt text = (case rt_warn rt text of Some err \<Rightarrow> raise err | None \<Rightarrow> ret ())"

definition notice_failed :: "env \<Rightarrow> agent \<Rightarrow> string \<Rightarrow> err \<Rightarrow> string \<Rightarrow> unit io" where
  "notice_failed rt a i err about =
     and_then (record_event (rt_team rt) a (blank_event\<lparr>ev_type := ''notice_failed'', ev_id := i, ev_reason := rt_error_text rt err\<rparr>)) (\<lambda>_.
       warned rt (''warning: could not tell '' @ about @ '': '' @ rt_error_text rt err))"

definition noticeHitcher :: "env \<Rightarrow> agent \<Rightarrow> envelope_id \<Rightarrow> string \<Rightarrow> bool io" where
  "noticeHitcher rt a i text =
     (if ag_hitched_by a = '''' \<or> ag_hitched_by a = ag_id a \<or> ag_id a = rt_hitching rt then ret False
      else and_then (attempt (sendHitcherNotice rt a i text)) (\<lambda>r. case r of
          Inr published \<Rightarrow> ret published
        | Inl err \<Rightarrow> and_then (notice_failed rt a i err (''the agent that hitched '' @ ag_name a)) (\<lambda>_. ret False)))"

definition notifyHitcher :: "env \<Rightarrow> agent \<Rightarrow> envelope_id \<Rightarrow> string \<Rightarrow> unit io" where
  "notifyHitcher rt a i text = and_then (noticeHitcher rt a i text) (\<lambda>_. ret ())"

text \<open>\<^verbatim>\<open>Time.UnixNano\<close>, which wraps around at 64 bits.\<close>

definition unix_nano :: "time \<Rightarrow> int" where
  "unix_nano t = wrap64 (t - unix_epoch * second)"

definition notifyHitcherFailed :: "env \<Rightarrow> agent \<Rightarrow> string \<Rightarrow> unit io" where
  "notifyHitcherFailed rt a reason =
     notifyHitcher rt a (''hitch-failed-'' @ ag_id a @ ''-'' @ show_int (unix_nano (ag_changed_at a)))
       (ag_name a @ '' failed at '' @ rfc3339 (ag_changed_at a) @ '': '' @ reason @ ''.'')"

definition notice_text :: "agent \<Rightarrow> envelope \<Rightarrow> string \<Rightarrow> string \<Rightarrow> string" where
  "notice_text a e outcome settled_reason =
     ''Message '' @ env_id e @ '' to '' @ ag_name a @ '' '' @
     (if outcome = ''delivered'' then
        ''is delivered: Gangline confirmed delivery after recording it unverified; do not send it again.''
        @ (if settled_reason = '''' then '''' else '' '' @ settled_reason)
      else if outcome = ''unverified'' then
        ''is unverified: Gangline could not confirm delivery and may still confirm it later. Inspect '' @ ag_name a
        @ '' before sending again; gang log has the reason.''
      else if outcome = ''dropped'' then ''was not delivered: '' @ ag_name a @ '' was dropped.''
      else ''failed and was not delivered; gang log has the reason.'')"

definition sendNotice :: "env \<Rightarrow> agent \<Rightarrow> envelope \<Rightarrow> string \<Rightarrow> unit io" where
  "sendNotice rt a e outcome =
     and_then (Agent (rt_team rt) (snd_hitch_id (env_from e))) (\<lambda>p.
     and_then (attempt (ReadAgent p)) (\<lambda>r. case r of
       Inl err \<Rightarrow> if errors_is err NotExist then ret () else raise err
     | Inr sender \<Rightarrow>
         if ag_status sender \<noteq> Active then ret ()
         else
           let i = (if outcome = ''delivered'' then ''delivered-'' else ''outcome-'') @ env_id e in
           and_then (lift (rt_token rt i)) (\<lambda>token.
           and_then (if outcome = ''delivered''
               then and_then (Agent (rt_team rt) (ag_id a)) (\<lambda>q. and_then (ReadEnvelope q ''cur'' (env_id e)) (\<lambda>s. ret (env_reason s)))
               else ret '''') (\<lambda>settled_reason.
           and_then (reads now) (\<lambda>t.
             publishOnceTo (rt_team rt) p sender
               (blank_envelope\<lparr>env_id := i, env_token := token, env_recipient := ag_id sender, env_to := ag_name sender,
                  env_from := blank_sender\<lparr>snd_kind := SenderGangline, snd_name := ''delivery''\<rparr>,
                  env_message := \<lparr>msg_text = rt_operator_text rt (notice_text a e outcome settled_reason)\<rparr>, env_created_at := t\<rparr>))))))"

definition notifySender :: "env \<Rightarrow> agent \<Rightarrow> envelope \<Rightarrow> string \<Rightarrow> unit io" where
  "notifySender rt a e outcome =
     (if snd_kind (env_from e) \<noteq> SenderAgent \<or> snd_hitch_id (env_from e) = ag_id a then ret ()
      else and_then (attempt (sendNotice rt a e outcome)) (\<lambda>r. case r of
          Inr _ \<Rightarrow> ret ()
        | Inl err \<Rightarrow> notice_failed rt a (env_id e) err (snd_name (env_from e) @ '' about message '' @ env_id e)))"

section \<open>Applying an event\<close>

definition stamped_event :: "agent \<Rightarrow> time \<Rightarrow> event \<Rightarrow> event" where
  "stamped_event a t e = (if ev_at e = zero_time then e\<lparr>ev_at := t\<rparr> else e)\<lparr>ev_hitch_id := ag_id a, ev_name := ag_name a\<rparr>"

definition failure_of :: "'a + 'b \<Rightarrow> 'a option" where
  "failure_of r = (case r of Inl err \<Rightarrow> Some err | Inr _ \<Rightarrow> None)"

definition run_apply :: "env \<Rightarrow> agent_paths \<Rightarrow> agent \<Rightarrow> event \<Rightarrow> agent_io" where
  "run_apply rt p a e0 =
     and_then (reads now) (\<lambda>t.
     let e = stamped_event a t e0; (next_a, effects) = Step a e in
     case find (\<lambda>f. eff_kind f = ''reject'') effects of
       Some f \<Rightarrow> ret (Some (Fail (eff_reason f)), a)
     | None \<Rightarrow>
         checked a (if ev_type e = ''activity_observed'' \<and> ev_activity e = Busy \<and> ag_status next_a = Active
             then noteIdleActivity (rt_team rt) next_a (ev_at e) else ret ()) (\<lambda>_.
         checked a (Save p next_a) (\<lambda>_.
         and_then (attempt (Append (rt_team rt) e)) (\<lambda>appended.
           if ag_status a \<noteq> Failed \<and> ag_status next_a = Failed
           then and_then (attempt (notifyHitcherFailed rt next_a (if ev_reason e = '''' then ag_evidence next_a else ev_reason e)))
             (\<lambda>told. ret (join_errors [failure_of appended, failure_of told], next_a))
           else ret (failure_of appended, next_a)))))"

section \<open>Clear requests\<close>

definition clear_event :: "string \<Rightarrow> string" where
  "clear_event status = (if status = ''completed'' then ''clear_completed''
     else if status = ''unverified'' then ''clear_unverified'' else ''clear_waiting'')"

text \<open>Only for an agent with a clear request; Go panics otherwise.\<close>

definition clearState :: "env \<Rightarrow> agent_paths \<Rightarrow> agent \<Rightarrow> string \<Rightarrow> string \<Rightarrow> agent_io" where
  "clearState rt p a status reason =
     (case ag_clear a of
        None \<Rightarrow> ret (Some (Fail ''nil pointer dereference''), a)
      | Some c \<Rightarrow>
          if clr_status c = status \<and> clr_reason c = reason then proceed a
          else
            let a1 = a\<lparr>ag_clear := Some (c\<lparr>clr_status := status, clr_reason := reason\<rparr>)\<rparr> in
            checked a1 (Save p a1) (\<lambda>_. finally_io a1 (record_event (rt_team rt) a1
              (blank_event\<lparr>ev_type := clear_event status, ev_id := env_id (clr_envelope c), ev_status := status, ev_reason := reason\<rparr>))))"

definition clearReceiptBlocker :: "agent_paths \<Rightarrow> agent \<Rightarrow> string io" where
  "clearReceiptBlocker p a =
     (if ag_input a \<noteq> None then ret ''native input is unresolved''
      else if ag_last_accepted a \<noteq> '''' then ret (''native accepted receipt '' @ ag_last_accepted a @ '' is unconfirmed'')
      else if ag_last_failed a \<noteq> '''' then
        and_then (ReadEnvelope p ''failed'' (ag_last_failed a)) (\<lambda>e.
          ret (if env_outcome e = ''unverified'' then ''native receipt '' @ env_id e @ '' is unverified'' else ''''))
      else ret '''')"

definition watchdogTimeout :: duration where
  "watchdogTimeout = 5 * second"

definition reset_stamp :: "envelope \<Rightarrow> bool" where
  "reset_stamp e \<longleftrightarrow> (case env_context_stamp e of None \<Rightarrow> False | Some s \<Rightarrow> stamp_crossings s \<noteq> []) \<and> env_paste_only e = None"

definition discard_note :: "env \<Rightarrow> agent_paths \<Rightarrow> agent \<Rightarrow> envelope \<Rightarrow> unit io" where
  "discard_note rt p a e =
     (if \<not> isContextBandNotice e then (if reset_stamp e then Publish p (e\<lparr>env_context_stamp := None\<rparr>) else ret ())
      else and_then (Withdraw p (env_id e)) (\<lambda>_. record_event (rt_team rt) a
        (blank_event\<lparr>ev_type := ''send_cancelled'', ev_id := env_id e, ev_reason := ''context band was queued before the native context reset''\<rparr>)))"

definition publishContextNotes :: "env \<Rightarrow> agent_paths \<Rightarrow> agent \<Rightarrow> agent_io" where
  "publishContextNotes rt p a =
     then_agent
       (if \<not> band_discard_queued (ag_context_bands a) then proceed a
        else checked a (Save p a) (\<lambda>_. checked a (ListNew p) (\<lambda>queued. checked a (for_each (discard_note rt p a) queued) (\<lambda>_.
          let a1 = a\<lparr>ag_context_bands := (ag_context_bands a)\<lparr>band_discard_queued := False\<rparr>\<rparr> in
          finally_io a1 (Save p a1))))) (\<lambda>a1.
     and_then (reads now) (\<lambda>t. finally_io a1
       (for_each (\<lambda>n. if sub_time t (env_created_at (note_envelope n)) < watchdogTimeout then ret ()
          else publishOnceTo (rt_team rt) p a1 (note_envelope n)) (band_pending (ag_context_bands a1)))))"

text \<open>The agent in its new native session: what belonged to the old one is gone.\<close>

definition cleared_agent :: "agent \<Rightarrow> session_start \<Rightarrow> agent" where
  "cleared_agent a n =
     a\<lparr>ag_native := blank_native\<lparr>nat_session_id := ss_session_id n, nat_transcript := ss_transcript n,
          nat_bound_session := nat_bound_session (ag_native a), nat_hook_sequence := nat_hook_sequence (ag_native a), nat_hook_at := ss_at n\<rparr>,
       ag_compaction := None, ag_capacity := no_capacity,
       ag_context_bands := blank_bands\<lparr>band_sequence := band_sequence (ag_context_bands a), band_discard_queued := True\<rparr>,
       ag_native_title := None, ag_activity := Idle, ag_screen_fingerprint := '''', ag_screen_since := zero_time,
       ag_evidence := '''', ag_status_probe_at := zero_time\<rparr>"

definition proves_clear :: "agent \<Rightarrow> clear_request \<Rightarrow> session_start \<Rightarrow> bool" where
  "proves_clear a c n \<longleftrightarrow> ss_source n = ''clear'' \<and> ss_clear_id n = env_id (clr_envelope c)
     \<and> ss_registration n = reg_generation (ag_registration a) \<and> ss_session_id n \<noteq> clr_previous_session c
     \<and> ss_session_id n \<noteq> '''' \<and> \<not> ss_at n < clr_started_at c"

definition settle_clear :: "env \<Rightarrow> agent_paths \<Rightarrow> clear_request \<Rightarrow> agent \<Rightarrow> agent_io" where
  "settle_clear rt p c a =
     and_then (attempt (ReadEnvelope p ''cur'' (env_id (clr_envelope c)))) (\<lambda>r.
       case r of
         Inl err \<Rightarrow> if \<not> errors_is err NotExist then ret (Some err, a)
           else if clr_status c = ''submitted'' then clearState rt p a ''continuing'' ''native clear confirmed; continuation pending'' else proceed a
       | Inr receipt \<Rightarrow>
           if env_outcome receipt = ''delivered''
           then clearState rt p a ''completed'' (''new native session '' @ nat_session_id (ag_native a) @ ''; exact continuation receipt retained'')
           else if clr_status c = ''submitted'' then clearState rt p a ''continuing'' ''native clear confirmed; continuation pending'' else proceed a)"

definition reconcileClear :: "env \<Rightarrow> agent_paths \<Rightarrow> agent \<Rightarrow> agent_io" where
  "reconcileClear rt p a =
     (case ag_clear a of
        None \<Rightarrow> proceed a
      | Some c \<Rightarrow>
          if \<not> clearPending a \<or> clr_started_at c = zero_time then proceed a
          else and_then (attempt (ReadSessionStart p)) (\<lambda>r. case r of
              Inl err \<Rightarrow> if errors_is err NotExist then proceed a else ret (Some err, a)
            | Inr n \<Rightarrow>
                if \<not> proves_clear a c n then proceed a
                else then_agent (if nat_session_id (ag_native a) = clr_previous_session c
                    then (let a1 = cleared_agent a n in finally_io a1 (Save p a1)) else proceed a) (\<lambda>a1.
                  then_agent (if band_discard_queued (ag_context_bands a1) then publishContextNotes rt p a1 else proceed a1) (\<lambda>a2.
                    settle_clear rt p c a2))))"

section \<open>Settling input\<close>

definition startup_turn :: "agent \<Rightarrow> witness \<Rightarrow> agent" where
  "startup_turn a w =
     (if nat_startup_session_id (ag_native a) \<noteq> wit_session_id w \<or> nat_startup_turn_id (ag_native a) \<noteq> wit_turn_id w
      then a\<lparr>ag_native := (ag_native a)\<lparr>nat_startup_session_id := wit_session_id w, nat_startup_turn_id := wit_turn_id w,
             nat_startup_failure_noticed := ''''\<rparr>\<rparr>
      else a)"

definition delivery_event :: "string \<Rightarrow> string" where
  "delivery_event outcome =
     (if outcome = ''accepted'' then ''delivery_accepted'' else if outcome = ''delivered'' then ''delivery_succeeded''
      else if outcome = ''failed'' then ''delivery_failed'' else if outcome = ''unverified'' then ''delivery_unverified'' else '''')"

definition settleReceipt :: "env \<Rightarrow> agent_paths \<Rightarrow> agent \<Rightarrow> envelope \<Rightarrow> string \<Rightarrow> string \<Rightarrow> witness option \<Rightarrow> agent_io" where
  "settleReceipt rt p a e outcome reason witnessed =
     checked a (acknowledgeUsageDelivery (rt_team rt) a e outcome witnessed) (\<lambda>_.
     checked a (settleIdleNotice (rt_team rt) e outcome) (\<lambda>_.
     let a1 = (case witnessed of
         Some w \<Rightarrow> if outcome = ''delivered'' \<and> isStartupEnvelope e then startup_turn a w else a
       | None \<Rightarrow> a) in
     then_agent (Settle p a1 e outcome reason) (\<lambda>a2.
     then_agent (settleContextStamp p a2 e outcome) (\<lambda>a3.
       finally_io a3 (record_event (rt_team rt) a3
         (blank_event\<lparr>ev_type := delivery_event outcome, ev_id := env_id e, ev_reason := reason\<rparr>))))))"

definition outside_reason :: "env \<Rightarrow> agent \<Rightarrow> envelope \<Rightarrow> string \<Rightarrow> string \<Rightarrow> witness option \<Rightarrow> err + string" where
  "outside_reason rt a e outcome reason witnessed =
     (case witnessed of
        None \<Rightarrow> Inr reason
      | Some w \<Rightarrow>
          if outcome \<noteq> ''delivered'' \<or> wit_prompt w = '''' then Inr reason
          else (case rt_witness rt a of
              Inl err \<Rightarrow> Inl err
            | Inr primitive \<Rightarrow>
                (case receiptMatches (rt_unicode rt) primitive e (wit_prompt w) of
                   Inl err \<Rightarrow> Inl err
                 | Inr (matched, outside) \<Rightarrow>
                     Inr (if matched \<and> outside \<noteq> '''' then (if reason = '''' then '''' else reason @ ''; '') @ rt_outside_text rt outside else reason))))"

definition settle_clear_outcome :: "env \<Rightarrow> agent_paths \<Rightarrow> agent \<Rightarrow> envelope \<Rightarrow> string \<Rightarrow> string \<Rightarrow> agent_io" where
  "settle_clear_outcome rt p a e outcome reason =
     (case ag_clear a of
        None \<Rightarrow> proceed a
      | Some c \<Rightarrow>
          if env_id (clr_envelope c) \<noteq> env_id e then proceed a
          else if outcome = ''delivered''
            then clearState rt p a ''completed'' (''continuation delivered in native session '' @ nat_session_id (ag_native a))
            else clearState rt p a ''unverified'' (if reason = '''' then ''clear continuation outcome '' @ outcome else reason))"

definition finishInput :: "env \<Rightarrow> agent_paths \<Rightarrow> agent \<Rightarrow> envelope \<Rightarrow> string \<Rightarrow> string \<Rightarrow> witness option \<Rightarrow> agent_io" where
  "finishInput rt p a e outcome reason0 witnessed =
     (case outside_reason rt a e outcome reason0 witnessed of
        Inl err \<Rightarrow> ret (Some err, a)
      | Inr reason \<Rightarrow>
          then_agent (settleReceipt rt p a e outcome reason witnessed) (\<lambda>a1.
          then_agent (run_apply rt p a1 (blank_event\<lparr>ev_type := ''input_finished'', ev_id := env_id e, ev_status := outcome, ev_reason := reason\<rparr>)) (\<lambda>a2.
          then_agent (settle_clear_outcome rt p a2 e outcome reason) (\<lambda>a3.
            if outcome = ''delivered'' \<and> cap_fingerprint (ag_capacity a3) \<noteq> ''''
               \<and> env_id e \<noteq> ''capacity-'' @ cap_fingerprint (ag_capacity a3)
            then run_apply rt p a3 (blank_event\<lparr>ev_type := ''capacity_cleared''\<rparr>)
            else proceed a3))))"

section \<open>Recovering input\<close>

text \<open>A settled envelope whose intent is still open goes back to the queue directory under that intent.\<close>

fun reclaim_input :: "agent_paths \<Rightarrow> envelope_id \<Rightarrow> string list \<Rightarrow> envelope io" where
  "reclaim_input p i [] = raise NotExist"
| "reclaim_input p i (dir # dirs) =
     and_then (attempt (ReadEnvelope p dir i)) (\<lambda>r. case r of
       Inr e \<Rightarrow>
         and_then (attempt (EnvelopePath p dir i)) (\<lambda>source.
         and_then (attempt (EnvelopePath p ''new'' i)) (\<lambda>target.
         and_then (os_rename (path_or_empty source) (path_or_empty target)) (\<lambda>_. ret e)))
     | Inl err \<Rightarrow> if \<not> errors_is err NotExist then raise err else reclaim_input p i dirs)"

definition find_input :: "agent_paths \<Rightarrow> envelope_id \<Rightarrow> envelope io" where
  "find_input p i =
     and_then (attempt (ReadEnvelope p ''new'' i)) (\<lambda>r. case r of
       Inr e \<Rightarrow> ret e
     | Inl err \<Rightarrow> if errors_is err NotExist then reclaim_input p i [''cur'', ''failed''] else raise err)"

definition forget_receipts :: "agent \<Rightarrow> envelope_id \<Rightarrow> agent" where
  "forget_receipts a i =
     a\<lparr>ag_last_accepted := if ag_last_accepted a = i then '''' else ag_last_accepted a,
       ag_last_delivered := if ag_last_delivered a = i then '''' else ag_last_delivered a,
       ag_last_failed := if ag_last_failed a = i then '''' else ag_last_failed a\<rparr>"

definition owner_exited :: string where
  "owner_exited = ''input owner exited before recording the outcome''"

definition recover_envelope :: "env \<Rightarrow> agent_paths \<Rightarrow> agent \<Rightarrow> envelope_id \<Rightarrow> agent_io" where
  "recover_envelope rt p a i =
     checked a (find_input p i) (\<lambda>e.
       let a1 = forget_receipts a i in
       if env_outcome e = ''accepted'' then finishInput rt p a1 e ''accepted'' (env_reason e) None
       else then_agent (finishInput rt p a1 e ''unverified'' owner_exited None)
         (\<lambda>a2. finally_io a2 (notifySender rt a2 e ''unverified'')))"

definition recoverInput :: "env \<Rightarrow> agent_paths \<Rightarrow> agent \<Rightarrow> agent_io" where
  "recoverInput rt p a =
     (case ag_input a of
        None \<Rightarrow> proceed a
      | Some k \<Rightarrow>
          if int_kind k = ''compaction''
          then run_apply rt p a (blank_event\<lparr>ev_type := ''compaction_unverified'', ev_id := int_id k, ev_reason := owner_exited\<rparr>)
          else if int_kind k = ''compaction-recovery''
          then run_apply rt p a (blank_event\<lparr>ev_type := ''compaction_unverified'', ev_id := int_id k, ev_status := ''recovery'',
                 ev_reason := ''recovery owner exited before recording the outcome''\<rparr>)
          else if int_kind k \<noteq> ''envelope''
          then (let a1 = a\<lparr>ag_input := None, ag_activity := Unknown, ag_evidence := owner_exited\<rparr> in finally_io a1 (Save p a1))
          else recover_envelope rt p a (int_id k))"

section \<open>Late receipts\<close>

definition reopenReceipt :: "env \<Rightarrow> agent_paths \<Rightarrow> agent \<Rightarrow> envelope \<Rightarrow> string \<Rightarrow> agent_io" where
  "reopenReceipt rt p a e directory =
     then_agent (run_apply rt p a (blank_event\<lparr>ev_type := ''input_started'', ev_id := env_id e, ev_status := ''envelope''\<rparr>)) (\<lambda>a1.
     checked a1 (and_then (attempt (EnvelopePath p directory (env_id e))) (\<lambda>source.
         and_then (attempt (EnvelopePath p ''new'' (env_id e))) (\<lambda>target.
         os_rename (path_or_empty source) (path_or_empty target)))) (\<lambda>_.
       let a2 = (if directory = ''cur'' then a1\<lparr>ag_last_accepted := ''''\<rparr> else a1\<lparr>ag_last_failed := ''''\<rparr>) in
       finally_io a2 (Save p a2)))"

definition reopenUnverified :: "env \<Rightarrow> agent_paths \<Rightarrow> agent \<Rightarrow> envelope \<Rightarrow> agent_io" where
  "reopenUnverified rt p a e = reopenReceipt rt p a e ''failed''"

text \<open>An error keeps the agent as it was.\<close>

definition followNativeSession :: "env \<Rightarrow> agent \<Rightarrow> string \<Rightarrow> string \<Rightarrow> err + bool \<times> agent" where
  "followNativeSession rt a session transcript =
     (if nat_session_id (ag_native a) = '''' \<or> session = nat_session_id (ag_native a) then Inr (True, a)
      else case rt_moved rt a session transcript of
          Inl err \<Rightarrow> Inl err
        | Inr moved \<Rightarrow>
            if \<not> moved then Inr (False, a)
            else Inr (True, a\<lparr>ag_native := (ag_native a)\<lparr>nat_session_id := session, nat_transcript := transcript, nat_offset := 0\<rparr>\<rparr>))"

definition witnessed_turn :: "agent \<Rightarrow> witness \<Rightarrow> agent" where
  "witnessed_turn a w = a\<lparr>ag_native := (ag_native a)\<lparr>nat_session_id := wit_session_id w, nat_turn_id := wit_turn_id w,
     nat_transcript := wit_transcript w\<rparr>\<rparr>"

fun reconcile_receipts :: "env \<Rightarrow> agent_paths \<Rightarrow> invocation \<Rightarrow> witness \<Rightarrow> agent \<Rightarrow> (envelope_id \<times> string) list \<Rightarrow> agent_io" where
  "reconcile_receipts rt p primitive w a [] = proceed a"
| "reconcile_receipts rt p primitive w a ((i, dir) # rest) =
     (if i = '''' then reconcile_receipts rt p primitive w a rest
      else checked a (ReadEnvelope p dir i) (\<lambda>e.
        if env_outcome e \<noteq> ''unverified'' \<and> env_outcome e \<noteq> ''accepted'' \<or> wit_at w < env_created_at e
        then reconcile_receipts rt p primitive w a rest
        else case receiptMatches (rt_unicode rt) primitive e (wit_prompt w) of
            Inl err \<Rightarrow> ret (Some err, a)
          | Inr (matched, _) \<Rightarrow>
              if \<not> matched then reconcile_receipts rt p primitive w a rest
              else then_agent (reopenReceipt rt p a e dir) (\<lambda>a1.
                then_agent (finishInput rt p (witnessed_turn a1 w) e ''delivered'' '''' (Some w)) (\<lambda>a2.
                  if env_outcome e = ''unverified'' then finally_io a2 (notifySender rt a2 e ''delivered'') else proceed a2))))"

text \<open>The pending attempts of the native channel (\<^verbatim>\<open>reconcileNativePending\<close>) are an argument.\<close>

definition reconcileDelivery :: "env \<Rightarrow> (agent \<Rightarrow> agent_io) \<Rightarrow> agent_paths \<Rightarrow> agent \<Rightarrow> agent_io" where
  "reconcileDelivery rt native_pending p a0 =
     then_agent (reconcileClear rt p a0) (\<lambda>a1. then_agent (native_pending a1) (\<lambda>a.
       if ag_last_failed a = '''' \<and> ag_last_accepted a = '''' \<or> ag_input a \<noteq> None then proceed a
       else and_then (attempt (ReadWitness p)) (\<lambda>r. case r of
           Inl err \<Rightarrow> if errors_is err NotExist then proceed a else ret (Some err, a)
         | Inr w \<Rightarrow>
             (case rt_witness rt a of
                Inl err \<Rightarrow> ret (Some err, a)
              | Inr primitive \<Rightarrow>
                  (case followNativeSession rt a (wit_session_id w) (wit_transcript w) of
                     Inl _ \<Rightarrow> proceed a
                   | Inr (same, a2) \<Rightarrow>
                       if \<not> same then proceed a2
                       else reconcile_receipts rt p primitive w a2 [(ag_last_failed a2, ''failed''), (ag_last_accepted a2, ''cur'')])))))"

end
