(* ===== verification/Delivery_Frame.thy ===== *)
theory Delivery_Frame
  imports Core_Runs Delivery_Ledger
begin

text \<open>
  Which files an action leaves alone, whatever fails in it. The rules of \<^theory_text>\<open>spares_intro\<close>
  follow the structure of an action down to its system calls; each operation of another
  component that delivery calls gets one rule, in terms of the files it writes.
\<close>

section \<open>Files an action spares\<close>

definition spares :: "path set \<Rightarrow> 'a io \<Rightarrow> bool" where
  "spares ps m \<longleftrightarrow> (\<forall>w q. q \<in> ps \<longrightarrow> lookup (snd (m w)) q = lookup w q)"

named_theorems spares_intro \<open>rules showing that an action leaves files alone\<close>

lemma sparesI: "(\<And>w q. q \<in> ps \<Longrightarrow> lookup (snd (m w)) q = lookup w q) \<Longrightarrow> spares ps m"
  by (simp add: spares_def)

lemma sparesD: "spares ps m \<Longrightarrow> m w = (r, w') \<Longrightarrow> q \<in> ps \<Longrightarrow> lookup w' q = lookup w q"
  unfolding spares_def by (metis snd_conv)

lemma wp_spares:
  assumes "spares ps m"
    and "\<And>x w'. (\<And>q. q \<in> ps \<Longrightarrow> lookup w' q = lookup w q) \<Longrightarrow> Q x w'"
    and "\<And>e w'. (\<And>q. q \<in> ps \<Longrightarrow> lookup w' q = lookup w q) \<Longrightarrow> E e w'"
  shows "wp m Q E w"
  by (rule wpI) (use sparesD [OF assms(1)] assms(2,3) in blast)+

lemma spares_pure [spares_intro]:
  "spares ps (ret x)" "spares ps (raise e)" "spares ps (lift r)" "spares ps (reads f)"
  by (simp_all add: spares_def ret_def raise_def lift_def reads_def)

lemma spares_updates [spares_intro]: "(\<And>w. lookup (h w) = lookup w) \<Longrightarrow> spares ps (updates h)"
  by (simp add: spares_def updates_def)

lemma spares_attempt [spares_intro]: "spares ps m \<Longrightarrow> spares ps (attempt m)"
  by (auto simp: spares_def attempt_def split: prod.split) (metis snd_conv)

lemma spares_and_then [spares_intro]:
  assumes "spares ps m" "\<And>x. spares ps (f x)"
  shows "spares ps (and_then m f)"
proof (rule sparesI)
  fix w q
  assume q: "q \<in> ps"
  obtain r v where m: "m w = (r, v)" by force
  have v: "lookup v q = lookup w q" using sparesD [OF assms(1) m q] .
  show "lookup (snd (and_then m f w)) q = lookup w q"
  proof (cases r)
    case (Inr x)
    have "lookup (snd (f x v)) q = lookup v q" using assms(2) q by (simp add: spares_def)
    then show ?thesis by (simp add: and_then_def m Inr v)
  qed (simp add: and_then_def m v)
qed

lemma spares_branches [spares_intro]:
  "(b \<Longrightarrow> spares ps m) \<Longrightarrow> (\<not> b \<Longrightarrow> spares ps n) \<Longrightarrow> spares ps (if b then m else n)"
  "(x = None \<Longrightarrow> spares ps m) \<Longrightarrow> (\<And>y. x = Some y \<Longrightarrow> spares ps (f y)) \<Longrightarrow>
     spares ps (case x of None \<Rightarrow> m | Some y \<Rightarrow> f y)"
  "(\<And>e. r = Inl e \<Longrightarrow> spares ps (g e)) \<Longrightarrow> (\<And>y. r = Inr y \<Longrightarrow> spares ps (h y)) \<Longrightarrow>
     spares ps (case r of Inl e \<Rightarrow> g e | Inr y \<Rightarrow> h y)"
  "(\<And>a b. z = (a, b) \<Longrightarrow> spares ps (k a b)) \<Longrightarrow> spares ps (case z of (a, b) \<Rightarrow> k a b)"
  by (auto split: option.split sum.split prod.split)

lemma spares_for_each [spares_intro]:
  assumes "\<And>x. x \<in> set xs \<Longrightarrow> spares ps (f x)"
  shows "spares ps (for_each f xs)"
  using assms by (induction xs) (auto intro!: spares_intro)

lemma spares_collect [spares_intro]:
  assumes "\<And>x. x \<in> set xs \<Longrightarrow> spares ps (f x)"
  shows "spares ps (collect f xs)"
  using assms by (induction xs) (auto intro!: spares_intro)

section \<open>System calls\<close>

lemma spares_sys [spares_intro]: "spares ps sys"
  by (rule sparesI) (auto simp: sys_def split: list.split)

lemma spares_act:
  assumes "\<And>w w' q. f w = Inr w' \<Longrightarrow> q \<in> ps \<Longrightarrow> lookup w' q = lookup w q"
  shows "spares ps (act f)"
  unfolding act_def
proof (rule spares_and_then [OF spares_sys], rule sparesI)
  fix u :: unit and w q
  assume "q \<in> ps"
  then show "lookup (snd (case f w of Inl e \<Rightarrow> (Inl e, w) | Inr w' \<Rightarrow> (Inr (), w'))) q = lookup w q"
    using assms by (simp split: sum.split)
qed

lemma spares_check [spares_intro]: "(\<And>w w'. f w = Inr w' \<Longrightarrow> w' = w) \<Longrightarrow> spares ps (act f)"
  by (rule spares_act) auto

lemma spares_after_sys: "(\<And>w. snd (f w) = w) \<Longrightarrow> spares ps (and_then sys (\<lambda>_. f))"
  by (rule spares_and_then [OF spares_sys], rule sparesI) simp

lemma spares_reading [spares_intro]:
  "spares ps (os_stat q)" "spares ps (os_readlink q)" "spares ps (os_read_dir q)" "spares ps (os_read_file q)"
proof -
  show "spares ps (os_stat q)" unfolding os_stat_def by (rule spares_check) (simp split: if_splits)
  show "spares ps (os_readlink q)" "spares ps (os_read_dir q)" "spares ps (os_read_file q)"
    unfolding os_readlink_def os_read_dir_def os_read_file_def
    by (rule spares_after_sys, simp split: option.split node.split)+
qed

lemma spares_readJSON [spares_intro]: "spares ps (readJSON prj q)"
  unfolding readJSON_def by (intro spares_intro)

lemma spares_jsonTemp [spares_intro]: "spares ps (jsonTemp q)"
  unfolding jsonTemp_def by (intro spares_intro) (auto split: if_splits)

lemma spares_writing [spares_intro]:
  assumes "q \<notin> ps"
  shows "spares ps (os_open_create q)" "spares ps (os_link_new c q)" "spares ps (os_rename_temp c q)" "spares ps (os_remove q)"
  unfolding os_open_create_def os_link_new_def os_rename_temp_def os_remove_def
  using assms by (auto intro!: spares_act split: if_splits option.splits)

lemma spares_atomicJSON [spares_intro]: "q \<notin> ps \<Longrightarrow> spares ps (atomicJSON q c)"
  unfolding atomicJSON_def by (intro spares_intro)

lemma spares_removeIfPresent [spares_intro]: "q \<notin> ps \<Longrightarrow> spares ps (removeIfPresent q)"
  unfolding removeIfPresent_def by (intro spares_intro)

lemma spares_os_append [spares_intro]: "q \<notin> ps \<Longrightarrow> spares ps (os_append q data)"
  unfolding os_append_def
  by (rule spares_and_then [OF spares_sys], rule sparesI)
    (auto simp: Let_def split: option.split node.split content.split)

lemma spares_os_rename [spares_intro]:
  assumes "\<And>q. q \<in> ps \<Longrightarrow> \<not> prefix s q \<and> \<not> prefix t q"
  shows "spares ps (os_rename s t)"
  unfolding os_rename_def
  by (rule spares_act) (use assms in \<open>auto simp: lookup_relabel split: option.splits if_splits\<close>)

section \<open>The log\<close>

lemma spares_appendEvent [spares_intro]: "q \<notin> ps \<Longrightarrow> spares ps (appendEvent q e)"
  unfolding appendEvent_def by (intro spares_intro) (auto intro!: spares_intro)

lemma spares_Append [spares_intro]: "tp_log t \<notin> ps \<Longrightarrow> spares ps (Append t e)"
  unfolding Append_def by (rule spares_appendEvent)

lemma spares_record_event [spares_intro]: "tp_log t \<notin> ps \<Longrightarrow> spares ps (record_event t a e)"
  unfolding record_event_def by (intro spares_intro)


section \<open>Other components\<close>

lemma spares_check_segment [spares_intro]: "spares ps (check_segment v)"
  unfolding check_segment_def by (intro spares_intro)

lemma spares_Agent [spares_intro]: "spares ps (Agent t i)"
  unfolding Agent_def by (intro spares_intro)

lemma spares_EnvelopePath [spares_intro]: "spares ps (EnvelopePath p dir i)"
  unfolding EnvelopePath_def by (intro spares_intro)

lemma spares_ReadEnvelope [spares_intro]: "spares ps (ReadEnvelope p dir i)"
  unfolding ReadEnvelope_def by (intro spares_intro)

lemma spares_ReadAgent [spares_intro]: "spares ps (ReadAgent p)"
  unfolding ReadAgent_def readModelMetadata_def Let_def by (intro spares_intro)

lemma spares_envelopePublished [spares_intro]: "spares ps (envelopePublished p i)"
  unfolding envelopePublished_def published_in_def by (intro spares_intro)

lemma spares_usage [spares_intro]:
  assumes "usage_lock t \<notin> ps" "usage_file t \<notin> ps"
  shows "spares ps (LockUsage t)" "spares ps (UsageRead prj t value)" "spares ps (UsageSave t c)" "spares ps (UsageClose t)"
  unfolding LockUsage_def UsageRead_def UsageSave_def UsageClose_def
  by (intro spares_intro; use assms in \<open>auto simp: lookup_def split: if_splits\<close>)+

lemma spares_withUsageState [spares_intro]:
  assumes "usage_lock t \<notin> ps" "usage_file t \<notin> ps" "\<And>st. spares ps (change st)"
  shows "spares ps (withUsageState t change)"
  unfolding withUsageState_def locking_usage_def usage_change_def by (intro spares_intro assms)

lemma spares_acknowledgeUsageDelivery [spares_intro]:
  "usage_lock t \<notin> ps \<Longrightarrow> usage_file t \<notin> ps \<Longrightarrow> spares ps (acknowledgeUsageDelivery t a e outcome witnessed)"
  unfolding acknowledgeUsageDelivery_def by (intro spares_intro)

lemma spares_idle_lock [spares_intro]:
  assumes "idle_lock t \<notin> ps"
  shows "spares ps (LockIdle t)" "spares ps (IdleClose t)"
  unfolding LockIdle_def IdleClose_def
  by (intro spares_intro; use assms in \<open>auto simp: lookup_def split: if_splits\<close>)+

lemma spares_IdleSave [spares_intro]: "idle_file t \<notin> ps \<Longrightarrow> spares ps (IdleSave t s)"
  unfolding IdleSave_def by (intro spares_intro)

lemma spares_count_pending [spares_intro]: "spares ps (count_pending ap pub dirs s)"
  by (induction dirs) (auto intro!: spares_intro)

lemma spares_IdleRead [spares_intro]: "idle_file t \<notin> ps \<Longrightarrow> spares ps (IdleRead t)"
  unfolding IdleRead_def resolve_pending_def keep_work_def Let_def by (intro spares_intro)

lemma spares_settleIdleNotice [spares_intro]:
  "idle_lock t \<notin> ps \<Longrightarrow> idle_file t \<notin> ps \<Longrightarrow> spares ps (settleIdleNotice t e outcome)"
  unfolding settleIdleNotice_def locking_idle_def by (intro spares_intro)

lemma spares_Publish [spares_intro]:
  assumes "\<And>dir. dir \<in> set inbox_dirs \<Longrightarrow> env_path p dir (env_id e) \<notin> ps"
  shows "spares ps (Publish p e)"
proof -
  have away: "env_path p ''new'' (env_id e) \<notin> ps" by (rule assms) (simp add: inbox_dirs_def)
  have rest: "spares ps (and_then (jsonTemp (ap_inbox p @ [''tmp''])) (\<lambda>_. os_rename_temp (CEnvelope e) (env_path p ''new'' (env_id e))))"
    by (intro spares_intro away)
  show ?thesis
    by (rule sparesI) (use rest in \<open>auto simp: Publish_def EnvelopePath_def check_segment_def env_path_def and_then_def ret_def
      raise_def spares_def\<close>)
qed

lemma spares_publishOnceTo [spares_intro]:
  assumes "\<And>dir j. dir \<in> set inbox_dirs \<Longrightarrow> env_path p dir j \<notin> ps" "tp_log t \<notin> ps"
  shows "spares ps (publishOnceTo t p a e)"
  unfolding publishOnceTo_def by (intro spares_intro assms)

section \<open>What belongs to an agent\<close>

definition own_paths :: "agent_paths \<Rightarrow> path set" where
  "own_paths p = insert (ap_state p) {env_path p dir i |dir i. segment i \<and> dir \<in> set inbox_dirs}"

text \<open>No other agent's inbox, and no file of the team, is one of them.\<close>

lemma other_inbox:
  assumes "plain_segment h" "p = agent_of (team_of d) h" "segment k" "k \<noteq> h" "dir \<in> set inbox_dirs"
  shows "env_path (agent_of (team_of d) k) dir j \<notin> own_paths p"
proof
  assume own: "env_path (agent_of (team_of d) k) dir j \<in> own_paths p"
  note paths = agent_of_plain [OF assms(1), of d, folded assms(2)]
  have dir: "dir \<noteq> ''inbox''" "hd (components dir) \<in> {''new'', ''cur'', ''failed'', ''tmp''}" "components dir \<noteq> []"
    using assms(5) by (auto simp: inbox_dirs_def)
  show False
  proof (cases "k = ''/''")
    case True
    have "ap_inbox (agent_of (team_of d) k) = d @ [''agents'', ''inbox'']"
      by (simp add: True agent_of_def team_of_def Let_def join_path_def components_def separator_def)
    then show False
      using own dir by (cases "components dir") (auto simp: own_paths_def paths env_path_def join_path_def)
  next
    case False
    then have "plain_segment k" using assms(3) by (simp add: segment_iff)
    from agent_of_plain(4) [OF this, of d] show False
      using own assms(4) by (auto simp: own_paths_def paths env_path_def join_path_def)
  qed
qed

lemma own_paths_below: "plain_segment h \<Longrightarrow> p = agent_of (team_of d) h \<Longrightarrow> q \<in> own_paths p \<Longrightarrow> \<exists>k. q = d @ ''agents'' # k"
  by (auto simp: own_paths_def agent_of_plain env_path_def join_path_def)

lemma team_files_apart:
  assumes "plain_segment h" "p = agent_of (team_of d) h"
  shows "tp_log (team_of d) \<notin> own_paths p" "usage_lock (team_of d) \<notin> own_paths p" "usage_file (team_of d) \<notin> own_paths p"
    "idle_lock (team_of d) \<notin> own_paths p" "idle_file (team_of d) \<notin> own_paths p"
  using own_paths_below [OF assms]
  by (fastforce simp: team_of_def usage_lock_def usage_file_def idle_lock_def idle_file_def)+


section \<open>Notices leave the agent they are about alone\<close>

lemma spares_with_agent:
  "(segment k \<Longrightarrow> spares ps (f (agent_of t k))) \<Longrightarrow> spares ps (and_then (Agent t k) f)"
  by (auto simp: Agent_def check_segment_def spares_def and_then_def ret_def raise_def)

lemma spares_combinators [spares_intro]:
  "spares ps m \<Longrightarrow> (\<And>x. spares ps (f x)) \<Longrightarrow> spares ps (checked a m f)"
  "spares ps n \<Longrightarrow> spares ps (finally_io a n)"
  "spares ps k \<Longrightarrow> (\<And>a. spares ps (g a)) \<Longrightarrow> spares ps (then_agent k g)"
  "spares ps (proceed a)"
  unfolding finally_io_def checked_def then_agent_def proceed_def by (intro spares_intro; assumption)+

lemma spares_notice_failed [spares_intro]:
  "tp_log (rt_team rt) \<notin> ps \<Longrightarrow> spares ps (notice_failed rt a i err about)"
  unfolding notice_failed_def warned_def by (intro spares_intro)

lemma spares_publish_other:
  assumes "plain_segment h" "p = agent_of (team_of d) h" "segment k" "k \<noteq> h"
  shows "spares (own_paths p) (publishOnceTo (team_of d) (agent_of (team_of d) k) a e)"
  by (intro spares_intro team_files_apart [OF assms(1,2)] other_inbox [OF assms])

lemma spares_notices:
  assumes "plain_segment h" "p = agent_of (team_of d) h" "rt_team rt = team_of d" "ag_id a = h"
  shows "spares (own_paths p) (notifySender rt a e outcome)" "spares (own_paths p) (notifyHitcher rt a i text)"
proof -
  note log = team_files_apart(1) [OF assms(1,2), folded assms(3)]
  note other = spares_publish_other [OF assms(1,2), folded assms(3)]
  have "spares (own_paths p) (sendNotice rt a e outcome)" if "snd_hitch_id (env_from e) \<noteq> h"
    unfolding sendNotice_def Let_def by (rule spares_with_agent) (intro spares_intro other that; assumption)
  then show "spares (own_paths p) (notifySender rt a e outcome)"
    unfolding notifySender_def by (intro spares_intro log) (use assms(4) in auto)
  have "spares (own_paths p) (sendHitcherNotice rt a i text)" if "ag_hitched_by a \<noteq> h"
    unfolding sendHitcherNotice_def by (rule spares_with_agent) (intro spares_intro other that; assumption)
  then show "spares (own_paths p) (notifyHitcher rt a i text)"
    unfolding notifyHitcher_def noticeHitcher_def by (intro spares_intro log) (use assms(4) in auto)
qed

section \<open>Applying an event\<close>

lemma Step_id: "ag_id (fst (Step a e)) = ag_id a"
  using Step_identity [of a e] by (simp add: same_identity_fields_def)

lemma own_files_within: "plain_segment h \<Longrightarrow> p = agent_of (team_of d) h \<Longrightarrow> q \<in> own_paths p \<Longrightarrow> q \<in> own_files p \<Longrightarrow> q = ap_state p"
  using inbox_apart(1) [of h p d] in_below unfolding own_paths_def by blast

definition unchanged_on :: "path set \<Rightarrow> world \<Rightarrow> world \<Rightarrow> bool" where
  "unchanged_on ps w w' \<longleftrightarrow> (\<forall>q \<in> ps. lookup w' q = lookup w q)"

lemma unchanged_on_refl [simp]: "unchanged_on ps w w"
  by (simp add: unchanged_on_def)

lemma unchanged_on_trans: "unchanged_on ps u v \<Longrightarrow> unchanged_on qs v w \<Longrightarrow> rs \<subseteq> ps \<inter> qs \<Longrightarrow> unchanged_on rs u w"
  unfolding unchanged_on_def by (metis Int_iff subsetD)

lemma unchanged_on_mono: "unchanged_on ps u v \<Longrightarrow> rs \<subseteq> ps \<Longrightarrow> unchanged_on rs u v"
  by (auto simp: unchanged_on_def)

lemma unchanged_onD: "unchanged_on ps w w' \<Longrightarrow> q \<in> ps \<Longrightarrow> lookup w' q = lookup w q"
  by (simp add: unchanged_on_def)

lemma wp_unchanged:
  assumes "spares ps m" "\<And>x w'. unchanged_on ps w w' \<Longrightarrow> Q x w'" "\<And>e w'. unchanged_on ps w w' \<Longrightarrow> E e w'"
  shows "wp m Q E w"
  by (rule wp_spares [OF assms(1)]) (use assms(2,3) in \<open>simp_all add: unchanged_on_def\<close>)

text \<open>Saving an agent changes of its own paths at most the state file.\<close>

abbreviation state_is :: "agent_paths \<Rightarrow> agent \<Rightarrow> world \<Rightarrow> bool" where
  "state_is p a w \<equiv> \<exists>b. lookup w (ap_state p) = Some (File (CAgent (persist_agent (with_bound a b))))"

lemma wp_Save_own:
  fixes a :: agent
  assumes "plain_segment h" "p = agent_of (team_of d) h"
    and "\<And>w'. unchanged_on (own_paths p - {ap_state p}) w w' \<Longrightarrow> state_is p a w' \<Longrightarrow> Q () w'"
    and "\<And>e w'. unchanged_on (own_paths p) w w' \<Longrightarrow> E e w'"
  shows "wp (Save p a) Q E w"
proof (rule wp_Save_frame [OF own_files_proper(1) [OF assms(1,2)]], goal_cases)
  case (1 b w')
  show ?case
    by (rule assms(3)) (use 1 own_files_within [OF assms(1,2)] in \<open>auto simp: unchanged_on_def changed_only_def\<close>)
next
  case (2 e w')
  show ?case
    by (rule assms(4)) (use 2 own_files_within [OF assms(1,2)] in \<open>auto simp: unchanged_on_def changed_only_def\<close>)
qed

lemma wp_run_apply:
  fixes a :: agent
  assumes lay: "plain_segment h" "p = agent_of (team_of d) h" "rt_team rt = team_of d" "ag_id a = h"
    and other: "ev_type e0 \<noteq> ''activity_observed''"
    and refused: "\<And>x w'. unchanged_on (own_paths p) w w' \<Longrightarrow> Q (Some x, a) w'"
    and moved: "\<And>x w' e. e = stamped_event a (now w) e0 \<Longrightarrow> find (\<lambda>f. eff_kind f = ''reject'') (snd (Step a e)) = None \<Longrightarrow>
      state_is p (fst (Step a e)) w' \<Longrightarrow> unchanged_on (own_paths p - {ap_state p}) w w' \<Longrightarrow> Q (x, fst (Step a e)) w'"
  shows "wp (run_apply rt p a e0) Q E w"
proof -
  let ?e = "stamped_event a (now w) e0"
  obtain next_a effects where step: "Step a ?e = (next_a, effects)" by force
  have type: "ev_type ?e = ev_type e0" by (simp add: stamped_event_def)
  have id: "ag_id next_a = h" using Step_id [of a ?e] step lay(4) by simp
  note log = team_files_apart(1) [OF lay(1,2), folded lay(3)]
  have told: "spares (own_paths p) (notifyHitcherFailed rt next_a reason)" for reason
    unfolding notifyHitcherFailed_def by (rule spares_notices(2) [OF lay(1-3) id])
  define rest where "rest = and_then (attempt (Append (rt_team rt) ?e)) (\<lambda>appended.
           if ag_status a \<noteq> Failed \<and> ag_status next_a = Failed
           then and_then (attempt (notifyHitcherFailed rt next_a (if ev_reason ?e = '''' then ag_evidence next_a else ev_reason ?e)))
             (\<lambda>told. ret (join_errors [failure_of appended, failure_of told], next_a))
           else ret (failure_of appended, next_a))"
  have ok: "Q (x, next_a) u"
    if "find (\<lambda>f. eff_kind f = ''reject'') effects = None" "state_is p next_a v"
      "unchanged_on (own_paths p - {ap_state p}) w v" "unchanged_on (own_paths p) v u" for x v u
  proof -
    have "lookup u (ap_state p) = lookup v (ap_state p)" using that(4) by (simp add: unchanged_on_def own_paths_def)
    moreover have "unchanged_on (own_paths p - {ap_state p}) w u" by (rule unchanged_on_trans [OF that(3,4)]) auto
    ultimately show ?thesis using moved [OF refl, of u x] step that(1,2) by simp
  qed
  have tell: "wp (notifyHitcherFailed rt next_a reason) Q' E' u"
    if "\<And>x u'. unchanged_on (own_paths p) u u' \<Longrightarrow> Q' x u'" "\<And>x u'. unchanged_on (own_paths p) u u' \<Longrightarrow> E' x u'"
    for Q' E' u reason
    by (rule wp_unchanged [OF told]) (use that in auto)
  have rest: "wp rest Q E v" if v: "find (\<lambda>f. eff_kind f = ''reject'') effects = None" "state_is p next_a v"
      "unchanged_on (own_paths p - {ap_state p}) w v" for v
    unfolding rest_def wp_simps(5) wp_attempt
  proof (rule wp_unchanged [OF spares_Append [OF log]], goal_cases)
    case (1 x u)
    have "Q (y, next_a) u'" if "unchanged_on (own_paths p) u u'" for y u'
      by (rule ok [OF v unchanged_on_trans [OF 1 that]]) simp
    then show ?case by (auto intro!: tell)
  next
    case (2 x u)
    have "Q (y, next_a) u'" if "unchanged_on (own_paths p) u u'" for y u'
      by (rule ok [OF v unchanged_on_trans [OF 2 that]]) simp
    then show ?case by (auto intro!: tell)
  qed
  have save: "wp (Save p next_a) (\<lambda>_. wp rest Q E) (\<lambda>e. Q (Some e, a)) w"
    if "find (\<lambda>f. eff_kind f = ''reject'') effects = None"
    by (rule wp_Save_own [OF lay(1,2)]) (use rest that refused in auto)
  have "run_apply rt p a e0 w = (case find (\<lambda>f. eff_kind f = ''reject'') effects of
       Some f \<Rightarrow> ret (Some (Fail (eff_reason f)), a)
     | None \<Rightarrow> checked a (ret ()) (\<lambda>_. checked a (Save p next_a) (\<lambda>_. rest))) w"
    using other unfolding run_apply_def rest_def
    by (simp add: and_then_def reads_def Let_def step type cong: option.case_cong)
  then show ?thesis
    using refused [of w] save unfolding wp_def [of "run_apply rt p a e0"]
    by (simp add: wp_def [symmetric] checked_def split: option.split)
qed

end
