(* ===== verification/Delivery_Recovery.thy ===== *)
theory Delivery_Recovery
  imports Delivery_Frame
begin

text \<open>
  Recovery of interrupted input: the intent in the state file and the queue entry are never
  both given up before the receipt is filed, whatever fails and wherever it fails.
\<close>

section \<open>The intent and the receipt\<close>

definition input_saved :: "agent_paths \<Rightarrow> input_intent \<Rightarrow> world \<Rightarrow> bool" where
  "input_saved p k w \<longleftrightarrow> (\<exists>s. lookup w (ap_state p) = Some (File (CAgent s)) \<and> ag_input s = Some k)"

definition input_settled :: "agent_paths \<Rightarrow> envelope_id \<Rightarrow> string \<Rightarrow> world \<Rightarrow> bool" where
  "input_settled p i outcome w \<longleftrightarrow> segment i \<and> lookup w (env_path p ''new'' i) = None
     \<and> (\<exists>e. stored_envelope p w (result_dir outcome) i e \<and> env_outcome e = outcome)"

definition input_closed :: "agent_paths \<Rightarrow> world \<Rightarrow> bool" where
  "input_closed p w \<longleftrightarrow> (\<exists>s. lookup w (ap_state p) = Some (File (CAgent s)) \<and> ag_input s = None)"

lemma state_is_input: "state_is p a w \<Longrightarrow> ag_input a = Some k \<Longrightarrow> input_saved p k w"
    "state_is p a w \<Longrightarrow> ag_input a = None \<Longrightarrow> input_closed p w"
  by (auto simp: input_saved_def input_closed_def persist_agent_def with_bound_def)

lemma unchanged_input:
  assumes "unchanged_on ps w w'" "ap_state p \<in> ps"
  shows "input_saved p k w' = input_saved p k w" "input_closed p w' = input_closed p w"
  using unchanged_onD [OF assms] by (simp_all add: input_saved_def input_closed_def)

lemma own_in [simp]: "ap_state p \<in> own_paths p" "segment i \<Longrightarrow> dir \<in> set inbox_dirs \<Longrightarrow> env_path p dir i \<in> own_paths p"
  by (auto simp: own_paths_def)

lemma unchanged_settled:
  assumes "plain_segment h" "p = agent_of (team_of d) h" "unchanged_on (own_paths p - {ap_state p}) w w'" "input_settled p i outcome w"
  shows "input_settled p i outcome w'"
proof -
  have seg: "segment i" using assms(4) by (simp add: input_settled_def)
  have same: "lookup w' (env_path p dir i) = lookup w (env_path p dir i)" if "dir \<in> set inbox_dirs" for dir
  proof (rule unchanged_onD [OF assms(3)])
    have "env_path p dir i \<noteq> ap_state p"
      by (simp add: assms(2) agent_of_plain [OF assms(1)] env_path_def join_path_def)
    then show "env_path p dir i \<in> own_paths p - {ap_state p}" using seg that by simp
  qed
  have "result_dir outcome \<in> set inbox_dirs" using result_dir_cases [of outcome] by (auto simp: inbox_dirs_def)
  then show ?thesis using assms(4) same [of "''new''"] same [of "result_dir outcome"]
    by (simp add: input_settled_def stored_envelope_def inbox_dirs_def)
qed

section \<open>Settling keeps the intent until it is done\<close>

text \<open>An action that returns an agent, at every failure: the intent is still saved and the agent still carries it.\<close>

lemma wp_Save_input:
  fixes a :: agent
  assumes "plain_segment h" "p = agent_of (team_of d) h" "ag_input a = Some k" "input_saved p k w"
    and "\<And>r w'. input_saved p k w' \<Longrightarrow> R r w'"
  shows "wp (Save p a) (\<lambda>_. R (Inr ())) (\<lambda>e. R (Inl e)) w"
  by (rule wp_Save_own [OF assms(1,2)])
    (use assms(3-5) state_is_input(1) unchanged_input(1) in \<open>blast intro: own_in\<close>)+

lemma spares_with_path:
  "(segment i \<Longrightarrow> dir \<in> set inbox_dirs \<Longrightarrow> spares ps (f (env_path p dir i))) \<Longrightarrow> spares ps (and_then (EnvelopePath p dir i) f)"
  by (rule sparesI) (auto simp: EnvelopePath_def check_segment_def spares_def and_then_def ret_def raise_def env_path_def inbox_dirs_def)

lemma state_apart:
  assumes "plain_segment h" "p = agent_of (team_of d) h"
  shows "env_path p dir j \<noteq> ap_state p" "\<not> prefix (env_path p dir j) (ap_state p)"
    "idle_lock (idleTeam p) \<noteq> ap_state p" "idle_file (idleTeam p) \<noteq> ap_state p"
  using inbox_apart(1) [OF assms, of dir j] in_below idle_paths [OF assms]
  by (auto simp: own_files_def below_def assms(2) agent_of_plain [OF assms(1)])

lemma spares_resolve [spares_intro]:
  "idle_lock (idleTeam p) \<notin> ps \<Longrightarrow> idle_file (idleTeam p) \<notin> ps \<Longrightarrow> spares ps (resolveIdlePublication p)"
  unfolding resolveIdlePublication_def Let_def by (intro spares_intro)

lemma wp_try: "wp m (\<lambda>x. wp (f (Inr x)) Q E) (\<lambda>e. wp (f (Inl e)) Q E) w \<Longrightarrow> wp (and_then (attempt m) f) Q E w"
  by simp

lemma wp_CleanResult_input:
  fixes a :: agent
  assumes lay: "plain_segment h" "p = agent_of (team_of d) h" and k: "ag_input a = Some k" "input_saved p k w"
    and Q: "\<And>x a' w'. ag_input a' = Some k \<Longrightarrow> input_saved p k w' \<Longrightarrow> Q (x, a') w'"
  shows "wp (CleanResult p a) Q E w"
proof (cases "ag_cleanup a")
  case None
  then show ?thesis using k Q by (simp add: CleanResult_def)
next
  case (Some c)
  note apart = state_apart [OF lay]
  have clean: "spares {ap_state p} (and_then (resolveIdlePublication p) (\<lambda>_.
      and_then (EnvelopePath p (ref_directory c) (ref_id c)) removeIfPresent))"
    by (intro spares_intro spares_with_path) (use apart in auto)
  have saved: "wp (Save p (a\<lparr>ag_cleanup := None\<rparr>)) (\<lambda>_. Q (None, a\<lparr>ag_cleanup := None\<rparr>))
      (\<lambda>e. Q (Some e, a\<lparr>ag_cleanup := None\<rparr>)) v" if "input_saved p k v" for v
    by (rule wp_Save_input [OF lay _ that, where R = "\<lambda>r. Q (case r of Inl e \<Rightarrow> Some e | Inr _ \<Rightarrow> None, a\<lparr>ag_cleanup := None\<rparr>)", simplified])
      (use k Q in auto)
  show ?thesis
    unfolding CleanResult_def Some option.case
    by (rule wp_try, rule wp_unchanged [OF clean])
      (use k Q saved unchanged_input(1) [of "{ap_state p}"] in \<open>auto simp: Let_def\<close>)
qed

lemma wp_fileResult_input:
  assumes lay: "plain_segment h" "p = agent_of (team_of d) h" and k: "input_saved p k w"
    and "\<And>w'. input_saved p k w' \<Longrightarrow> Q () w'" "\<And>x w'. input_saved p k w' \<Longrightarrow> E x w'"
  shows "wp (fileResult p e (result_dir outcome) outcome reason) Q E w"
proof -
  have keeps: "input_saved p k w'" if "changed_only ps w w'" "ap_state p \<notin> ps" for ps w'
    using k changed_onlyD [OF that] by (simp add: input_saved_def)
  note apart = state_apart(1,2) [OF lay] state_apart(1) [OF lay, THEN not_sym]
  show ?thesis
  proof (rule wp_fileResult [OF lay result_dir_cases], goal_cases)
    case (1 w')
    show ?case by (rule assms(4), rule keeps [OF 1(1)]) (simp add: below_def apart)
  next
    case (2 x w')
    show ?case by (rule assms(5), rule keeps [OF 2(1)]) (simp add: apart)
  qed
qed

lemma with_receipt_input [simp]: "ag_input (with_receipt a i outcome) = ag_input a" "ag_id (with_receipt a i outcome) = ag_id a"
  "ag_clear (with_receipt a i outcome) = ag_clear a"
  by (simp_all add: with_receipt_def Let_def)

lemma wp_Settle_input:
  fixes a :: agent
  assumes lay: "plain_segment h" "p = agent_of (team_of d) h" and k: "ag_input a = Some k" "input_saved p k w"
  shows "wp (Settle p a e outcome reason) (\<lambda>_. input_saved p k) (\<lambda>_ _. False) w"
proof -
  note apart = state_apart [OF lay]
  have resolve: "spares {ap_state p} (resolveIdlePublication p)" by (intro spares_intro) (use apart in auto)
  have finish: "wp (CleanResult p b) (\<lambda>_. input_saved p k) (\<lambda>_ _. False) v"
    if "ag_input b = Some k" "input_saved p k v" for b v
    by (rule wp_CleanResult_input [OF lay that])
  have save: "wp (Save p b) (\<lambda>_. wp (CleanResult p b) (\<lambda>_. input_saved p k) (\<lambda>_ _. False)) (\<lambda>_. input_saved p k) v"
    if "ag_input b = Some k" "input_saved p k v" for b v
    by (rule wp_Save_input [OF lay that, where R = "\<lambda>r. case r of Inl e \<Rightarrow> input_saved p k
        | Inr _ \<Rightarrow> wp (CleanResult p b) (\<lambda>_. input_saved p k) (\<lambda>_ _. False)", simplified])
      (use finish that in \<open>auto split: sum.split\<close>)
  have file_it: "wp (fileResult p e (result_dir outcome) outcome reason) Q' (\<lambda>_. input_saved p k) v"
    if "input_saved p k v" "\<And>u. input_saved p k u \<Longrightarrow> Q' () u" for v Q'
    by (rule wp_fileResult_input [OF lay that(1)]) (use that(2) in auto)
  have clean: "wp (CleanResult p a) Q' (\<lambda>_ _. False) v"
    if "input_saved p k v" "\<And>x a' u. ag_input a' = Some k \<Longrightarrow> input_saved p k u \<Longrightarrow> Q' (x, a') u" for v Q'
    by (rule wp_CleanResult_input [OF lay k(1) that(1)]) (use that(2) in auto)
  show ?thesis
    unfolding Settle_def
    by (rule wp_try, rule wp_unchanged [OF resolve])
      (use k unchanged_input(1) [of "{ap_state p}"] in \<open>auto intro!: clean file_it save simp: Let_def split: option.split\<close>)
qed


lemma wp_both: "wp m Q E w \<Longrightarrow> wp m R F w \<Longrightarrow> wp m (\<lambda>x w'. Q x w' \<and> R x w') (\<lambda>e w'. E e w' \<and> F e w') w"
  by (auto simp: wp_def split: sum.splits prod.splits)

lemma wp_Settle_open:
  fixes a :: agent
  assumes lay: "plain_segment h" "p = agent_of (team_of d) h" and k: "ag_input a = Some k" "input_saved p k w"
    and cleanup: "\<forall>c. ag_cleanup a = Some c \<longrightarrow> ref_directory c \<in> {''cur'', ''failed''}"
    and queued: "stored_envelope p w ''new'' (env_id e) q"
    and ok: "\<And>a' w'. settled p a e outcome reason a' w' \<Longrightarrow> Q (None, a') w'"
    and failed: "\<And>x a' w'. input_saved p k w' \<Longrightarrow> Q (Some x, a') w'"
  shows "wp (Settle p a e outcome reason) Q E w"
proof -
  have "wp (Settle p a e outcome reason) (\<lambda>(x, a') w'. x = None \<longrightarrow> settled p a e outcome reason a' w') (\<lambda>_ _. True) w"
    by (rule wp_Settle [OF lay cleanup queued]) auto
  from wp_both [OF this wp_Settle_input [OF lay k]] show ?thesis
    by (rule wp_mono) (use ok failed in \<open>auto split: prod.splits\<close>, metis option.exhaust)
qed

section \<open>Finishing the input\<close>

lemma settled_input:
  assumes "settled p a e outcome reason a' w" "segment (env_id e)"
  shows "input_settled p (env_id e) outcome w" "state_is p a' w" "ag_input a' = ag_input a" "ag_id a' = ag_id a"
  using assms by (auto simp: settled_def input_settled_def filed_def)

lemma wp_then_agent: "wp m (\<lambda>(x, a). case x of Some err \<Rightarrow> Q (Some err, a) | None \<Rightarrow> wp (f a) Q E) E w \<Longrightarrow> wp (then_agent m f) Q E w"
  unfolding then_agent_def wp_simps(5) by (erule wp_mono) (auto split: option.splits prod.splits)

lemma wp_checked: "wp m (\<lambda>x. wp (f x) Q E) (\<lambda>err. Q (Some err, a)) w \<Longrightarrow> wp (checked a m f) Q E w"
  by (simp add: checked_def)

lemma wp_finally: "wp m (\<lambda>_. Q (None, a)) (\<lambda>err. Q (Some err, a)) w \<Longrightarrow> wp (finally_io a m) Q E w"
  by (simp add: finally_io_def checked_def proceed_def)

lemma wp_settleReceipt:
  fixes a :: agent
  assumes lay: "plain_segment h" "p = agent_of (team_of d) h" "rt_team rt = team_of d"
    and k: "ag_input a = Some k" "input_saved p k w"
    and cleanup: "\<forall>c. ag_cleanup a = Some c \<longrightarrow> ref_directory c \<in> {''cur'', ''failed''}"
    and queued: "stored_envelope p w ''new'' (env_id e) q" "segment (env_id e)" and outcome: "outcome \<noteq> ''delivered''"
    and ok: "\<And>a' w'. input_settled p (env_id e) outcome w' \<Longrightarrow> state_is p a' w' \<Longrightarrow> ag_input a' = Some k \<Longrightarrow>
      ag_id a' = ag_id a \<Longrightarrow> Q (None, a') w'"
    and failed: "\<And>x a' w'. input_saved p k w' \<Longrightarrow> Q (Some x, a') w'"
  shows "wp (settleReceipt rt p a e outcome reason witnessed) Q E w"
proof -
  note files = team_files_apart [OF lay(1,2), folded lay(3)]
  have usage: "spares (own_paths p) (acknowledgeUsageDelivery (rt_team rt) a e outcome witnessed)"
    and idle: "spares (own_paths p) (settleIdleNotice (rt_team rt) e outcome)"
    by (intro spares_intro files)+
  have queue_path: "env_path p ''new'' (env_id e) \<in> own_paths p" using queued(2) by (simp add: inbox_dirs_def)
  have same: "a = (case witnessed of Some w \<Rightarrow> if outcome = ''delivered'' \<and> isStartupEnvelope e then startup_turn a w else a | None \<Rightarrow> a)"
    using outcome by (simp split: option.split)
  have finish: "wp (then_agent (settleContextStamp p b e outcome) (\<lambda>a3. finally_io a3 (record_event (rt_team rt) a3 (ev a3)))) Q E v"
    if v: "settled p a e outcome reason b v" for b v ev
  proof -
    have stamp: "settleContextStamp p b e outcome = ret (None, b)"
      using outcome by (simp add: settleContextStamp_def split: option.split)
    note s = settled_input [OF v queued(2)]
    have after: "input_settled p (env_id e) outcome u \<and> state_is p b u" if "unchanged_on (own_paths p) v u" for u
    proof
      show "input_settled p (env_id e) outcome u"
        by (rule unchanged_settled [OF lay(1,2) _ s(1)], rule unchanged_on_mono [OF that]) auto
      show "state_is p b u" using s(2) unchanged_onD [OF that own_in(1)] by simp
    qed
    have input: "ag_input b = Some k" "ag_id b = ag_id a" using s(3,4) k(1) by simp_all
    show ?thesis
      unfolding stamp
      by (rule wp_then_agent, simp, rule wp_finally, rule wp_unchanged [OF spares_record_event [OF files(1)]])
        (use after input in \<open>auto intro!: ok failed state_is_input(1)\<close>)
  qed
  have settle: "wp (then_agent (Settle p a e outcome reason) (\<lambda>a2. then_agent (settleContextStamp p a2 e outcome) (\<lambda>a3.
       finally_io a3 (record_event (rt_team rt) a3 (ev a3))))) Q E v"
    if v: "unchanged_on (own_paths p) w v" for v ev
  proof (rule wp_then_agent, rule wp_Settle_open [OF lay(1,2) k(1) _ cleanup])
    show "input_saved p k v" using k(2) unchanged_input(1) [OF v own_in(1)] by simp
    show "stored_envelope p v ''new'' (env_id e) q" using queued(1) unchanged_onD [OF v queue_path] by (simp add: stored_envelope_def)
  qed (use failed finish in simp_all)
  have start: "input_saved p k v" if "unchanged_on (own_paths p) w v" for v
    using k(2) unchanged_input(1) [OF that own_in(1)] by simp
  have twice: "unchanged_on (own_paths p) w u" if "unchanged_on (own_paths p) w v" "unchanged_on (own_paths p) v u" for v u
    by (rule unchanged_on_trans [OF that]) simp
  show ?thesis
    unfolding settleReceipt_def same [symmetric] Let_def
    by (rule wp_checked, rule wp_unchanged [OF usage], rule wp_checked, rule wp_unchanged [OF idle], rule settle)
      (auto intro!: failed start intro: twice)
qed


text \<open>What recovery reports and leaves: the disjunction holds at every failure, the rest without one.\<close>

definition recovered :: "agent_paths \<Rightarrow> input_intent \<Rightarrow> string \<Rightarrow> err option \<times> agent \<Rightarrow> world \<Rightarrow> bool" where
  "recovered p k outcome = (\<lambda>(x, a') w.
     (input_saved p k w \<or> input_settled p (int_id k) outcome w)
     \<and> (x = None \<longrightarrow> ag_input a' = None \<and> ag_id a' = last (ap_directory p) \<and> input_closed p w \<and> input_settled p (int_id k) outcome w))"

lemma finished_event:
  assumes "ag_input a = Some k" "ev_type e = ''input_finished''" "ev_id e = int_id k" "snd (Step a e) = [] \<or> find (\<lambda>f. eff_kind f = ''reject'') (snd (Step a e)) = None"
  shows "ag_input (fst (Step a e)) = None"
  using assms by (auto simp: Step_def dispatch_def handlers_def on_input_finished_def reject_def Let_def split: if_splits)

lemma recovered_failure: "input_saved p k w \<or> input_settled p (int_id k) outcome w \<Longrightarrow> recovered p k outcome (Some x, a) w"
  by (simp add: recovered_def)

lemma wp_clearState_recovered:
  fixes a :: agent
  assumes lay: "plain_segment h" "p = agent_of (team_of d) h" "rt_team rt = team_of d" "ag_id a = h" "ag_input a = None"
    and w: "input_settled p (int_id k) outcome w" "input_closed p w"
  shows "wp (clearState rt p a status reason) (recovered p k outcome) E w"
proof (cases "ag_clear a")
  case None
  then show ?thesis using w by (simp add: clearState_def recovered_def)
next
  case (Some c)
  let ?a1 = "a\<lparr>ag_clear := Some (c\<lparr>clr_status := status, clr_reason := reason\<rparr>)\<rparr>"
  note log = team_files_apart(1) [OF lay(1,2), folded lay(3)]
  have last: "last (ap_directory p) = h" using lay(1,2) by (simp add: agent_of_plain)
  have settled: "input_settled p (int_id k) outcome v" if "unchanged_on (own_paths p - {ap_state p}) w v" for v
    by (rule unchanged_settled [OF lay(1,2) that w(1)])
  have tail: "wp (finally_io ?a1 (record_event (rt_team rt) ?a1 ev)) (recovered p k outcome) E v"
    if v: "unchanged_on (own_paths p - {ap_state p}) w v" "state_is p ?a1 v" for v ev
  proof -
    have "input_settled p (int_id k) outcome u \<and> input_closed p u" if u: "unchanged_on (own_paths p) v u" for u
    proof
      show "input_settled p (int_id k) outcome u"
        by (rule settled, rule unchanged_on_trans [OF v(1) u]) auto
      show "input_closed p u"
        using state_is_input(2) [OF v(2)] lay(5) unchanged_input(2) [OF u own_in(1)] by simp
    qed
    then show ?thesis
      by (intro wp_finally wp_unchanged [OF spares_record_event [OF log]]) (use lay(4,5) last in \<open>auto simp: recovered_def\<close>)
  qed
  have fails: "recovered p k outcome (Some x, ?a1) v" if "unchanged_on (own_paths p) w v" for x v
    by (rule recovered_failure, rule disjI2, rule settled, rule unchanged_on_mono [OF that]) auto
  have save: "wp (checked ?a1 (Save p ?a1) (\<lambda>_. finally_io ?a1 (record_event (rt_team rt) ?a1 ev))) (recovered p k outcome) E w" for ev
    by (rule wp_checked, rule wp_Save_own [OF lay(1,2)]) (use tail fails in auto)
  show ?thesis
    using save w last lay(4,5) by (auto simp: clearState_def Some Let_def proceed_def recovered_def)
qed

lemma wp_finishInput:
  fixes a :: agent
  assumes lay: "plain_segment h" "p = agent_of (team_of d) h" "rt_team rt = team_of d" "ag_id a = h"
    and k: "ag_input a = Some k" "input_saved p k w"
    and cleanup: "\<forall>c. ag_cleanup a = Some c \<longrightarrow> ref_directory c \<in> {''cur'', ''failed''}"
    and queued: "stored_envelope p w ''new'' (int_id k) e" "segment (int_id k)" and outcome: "outcome \<noteq> ''delivered''"
  shows "wp (finishInput rt p a e outcome reason None) (recovered p k outcome) E w"
proof -
  have id: "env_id e = int_id k" using queued(1) by (simp add: stored_envelope_def)
  have last: "last (ap_directory p) = h" using lay(1,2) by (simp add: agent_of_plain)
  let ?ev = "blank_event\<lparr>ev_type := ''input_finished'', ev_id := env_id e, ev_status := outcome, ev_reason := reason\<rparr>"
  have finished: "wp (settle_clear_outcome rt p b e outcome reason) (recovered p k outcome) E v"
    if "ag_input b = None" "ag_id b = h" "state_is p b v" "input_settled p (int_id k) outcome v" for b v
  proof -
    have closed: "input_closed p v" by (rule state_is_input(2)) (use that in auto)
    have "wp (clearState rt p b s r) (recovered p k outcome) E v" for s r
      by (rule wp_clearState_recovered [OF lay(1-3) that(2,1,4) closed])
    then show ?thesis
      using that closed last outcome by (auto simp: settle_clear_outcome_def proceed_def recovered_def split: option.split)
  qed
  have "wp (then_agent (run_apply rt p b ?ev) (\<lambda>a2. then_agent (settle_clear_outcome rt p a2 e outcome reason) (\<lambda>a3.
            if outcome = ''delivered'' \<and> cap_fingerprint (ag_capacity a3) \<noteq> ''''
               \<and> env_id e \<noteq> ''capacity-'' @ cap_fingerprint (ag_capacity a3)
            then run_apply rt p a3 (blank_event\<lparr>ev_type := ''capacity_cleared''\<rparr>)
            else proceed a3))) (recovered p k outcome) E v"
    if v: "input_settled p (env_id e) outcome v" "state_is p b v" "ag_input b = Some k" "ag_id b = h" for b v
  proof (rule wp_then_agent, rule wp_run_apply [OF lay(1-3) v(4)], goal_cases)
    case 1
    show ?case by simp
  next
    case (2 x u)
    have "input_saved p k u" using state_is_input(1) [OF v(2,3)] unchanged_input(1) [OF 2 own_in(1)] by simp
    then show ?case by (simp add: recovered_failure)
  next
    case (3 x u e')
    let ?b = "fst (Step b e')"
    have type: "ev_type e' = ''input_finished''" "ev_id e' = int_id k"
      using 3(1) id by (simp_all add: stamped_event_def)
    have input: "ag_input ?b = None" by (rule finished_event [OF v(3) type]) (use 3(2) in simp)
    have settled: "input_settled p (int_id k) outcome u" using unchanged_settled [OF lay(1,2) 3(4) v(1)] id by simp
    have "wp (then_agent (settle_clear_outcome rt p ?b e outcome reason) proceed) (recovered p k outcome) E u"
      by (rule wp_then_agent, rule wp_mono [OF finished [OF input _ 3(3) settled]])
        (use v(4) in \<open>auto simp: Step_id proceed_def recovered_def split: option.split\<close>)
    then show ?case
      using outcome settled by (simp add: recovered_failure then_agent_def split: option.split)
  qed
  then show ?thesis
    unfolding finishInput_def outside_reason_def option.case sum.case
    by (intro wp_then_agent wp_settleReceipt [OF lay(1-3) k cleanup _ _ outcome])
      (use lay(4) queued id in \<open>auto simp: recovered_failure\<close>)
qed


section \<open>Finding the envelope\<close>

lemma wp_ReadEnvelope_named:
  assumes "\<And>bs e. segment i \<Longrightarrow> stored_envelope p w dir i e \<Longrightarrow> Q e (w\<lparr>faults := bs\<rparr>)"
    and "\<And>bs e. E e (w\<lparr>faults := bs\<rparr>)"
  shows "wp (ReadEnvelope p dir i) Q E w"
proof (cases "segment i")
  case True
  then show ?thesis by (intro wp_ReadEnvelope assms)
next
  case False
  have "E x w" for x using assms(2) [of x "faults w"] by simp
  then show ?thesis using False by (simp add: ReadEnvelope_def EnvelopePath_def check_segment_def)
qed

lemma input_saved_faults [simp]: "input_saved p k (w\<lparr>faults := bs\<rparr>) = input_saved p k w"
    "stored_envelope p (w\<lparr>faults := bs\<rparr>) dir i e = stored_envelope p w dir i e"
  by (simp_all add: input_saved_def stored_envelope_def)

lemma wp_reclaim_input:
  assumes lay: "plain_segment h" "p = agent_of (team_of d) h" and k: "input_saved p k w"
    and dirs: "set dirs \<subseteq> {''cur'', ''failed''}"
    and ok: "\<And>e w'. segment i \<Longrightarrow> stored_envelope p w' ''new'' i e \<Longrightarrow> input_saved p k w' \<Longrightarrow> Q e w'"
    and failed: "\<And>x w'. input_saved p k w' \<Longrightarrow> E x w'"
  shows "wp (reclaim_input p i dirs) Q E w"
  using k dirs
proof (induction dirs arbitrary: w)
  case Nil
  then show ?case using failed by simp
next
  case (Cons dir dirs)
  have dir: "dir \<in> {''cur'', ''failed''}" using Cons.prems(2) by simp
  have paths: "EnvelopePath p d' i v = (Inr (env_path p d' i), v)" if "segment i" "d' \<in> {dir, ''new''}" for d' v
    using that dir by (auto simp: EnvelopePath_def check_segment_def env_path_def and_then_def ret_def)
  have move: "wp (and_then (attempt (EnvelopePath p dir i)) (\<lambda>source.
       and_then (attempt (EnvelopePath p ''new'' i)) (\<lambda>target.
       and_then (os_rename (path_or_empty source) (path_or_empty target)) (\<lambda>_. ret e)))) Q E v"
    if v: "segment i" "stored_envelope p v dir i e" "input_saved p k v" for e v
  proof -
    let ?s = "env_path p dir i" and ?t = "env_path p ''new'' i"
    have differ: "?s \<noteq> ?t" using new_path_differs(1) [OF lay dir, of i i] by simp
    have moved: "stored_envelope p (relabel ?s ?t v) ''new'' i e" "input_saved p k (relabel ?s ?t v)"
      if "\<not> prefix ?s ?t" "\<not> prefix ?t ?s"
    proof -
      show "stored_envelope p (relabel ?s ?t v) ''new'' i e"
        using changed_only_relabel(3) [OF that, of v] v(2) by (simp add: stored_envelope_def)
      have "lookup (relabel ?s ?t v) (ap_state p) = lookup v (ap_state p)"
        by (rule changed_onlyD [OF changed_only_relabel(1) [OF that]]) (simp add: below_def state_apart(2) [OF lay])
      then show "input_saved p k (relabel ?s ?t v)" using v(3) by (simp add: input_saved_def)
    qed
    have "wp (os_rename ?s ?t) (\<lambda>_. Q e) E v"
      by (rule wp_os_rename) (use differ moved v in \<open>auto intro!: ok failed\<close>)
    then show ?thesis
      using v(1) by (simp add: wp_def [of "EnvelopePath p _ i"] paths path_or_empty_def)
  qed
  have rest: "wp (reclaim_input p i dirs) Q E (w\<lparr>faults := bs\<rparr>)" for bs
    by (rule Cons.IH) (use Cons.prems in auto)
  show ?case
    unfolding reclaim_input.simps
    by (rule wp_try, rule wp_ReadEnvelope_named)
      (use move rest failed Cons.prems(1) in \<open>auto\<close>)
qed

lemma wp_find_input:
  assumes lay: "plain_segment h" "p = agent_of (team_of d) h" and k: "input_saved p k w"
    and ok: "\<And>e w'. segment i \<Longrightarrow> stored_envelope p w' ''new'' i e \<Longrightarrow> input_saved p k w' \<Longrightarrow> Q e w'"
    and failed: "\<And>x w'. input_saved p k w' \<Longrightarrow> E x w'"
  shows "wp (find_input p i) Q E w"
proof -
  have reclaim: "wp (reclaim_input p i [''cur'', ''failed'']) Q E (w\<lparr>faults := bs\<rparr>)" for bs
    by (rule wp_reclaim_input [OF lay, of k]) (use k ok failed in auto)
  show ?thesis
    unfolding find_input_def
    by (rule wp_try, rule wp_ReadEnvelope_named) (use k ok failed reclaim in auto)
qed

section \<open>Recovery\<close>

text \<open>The agent \<^theory_text>\<open>a\<close> the recovery works on is the caller's; it carries the intent the state file has.\<close>

lemma wp_recoverInput:
  fixes a :: agent
  assumes lay: "plain_segment h" "p = agent_of (team_of d) h" "rt_team rt = team_of d" "ag_id a = h"
    and k: "ag_input a = Some k" "int_kind k = ''envelope''" "input_saved p k w"
    and cleanup: "\<forall>c. ag_cleanup a = Some c \<longrightarrow> ref_directory c \<in> {''cur'', ''failed''}"
  shows "wp (recoverInput rt p a) (\<lambda>out v. \<exists>outcome \<in> {''accepted'', ''unverified''}. recovered p k outcome out v) (\<lambda>_ _. False) w"
proof -
  let ?G = "\<lambda>out v. \<exists>outcome \<in> {''accepted'', ''unverified''}. recovered p k outcome out v"
  let ?a = "forget_receipts a (int_id k)"
  have a: "ag_id ?a = h" "ag_input ?a = Some k" "\<forall>c. ag_cleanup ?a = Some c \<longrightarrow> ref_directory c \<in> {''cur'', ''failed''}"
    using lay(4) k(1) cleanup by (simp_all add: forget_receipts_def)
  have finish: "wp (finishInput rt p ?a e outcome reason None) (recovered p k outcome) (\<lambda>_ _. False) v"
    if "segment (int_id k)" "stored_envelope p v ''new'' (int_id k) e" "input_saved p k v" "outcome \<noteq> ''delivered''" for e v outcome reason
    by (rule wp_finishInput [OF lay(1-3) a(1,2) that(3) a(3) that(2,1,4)])
  have tell: "wp (finally_io b (notifySender rt b e ''unverified'')) (recovered p k ''unverified'') (\<lambda>_ _. False) v"
    if v: "recovered p k ''unverified'' (None, b) v" for b e v
  proof -
    have b: "ag_id b = h" using v agent_of_plain(1) [OF lay(1), of d, folded lay(2)] by (simp add: recovered_def)
    have "recovered p k ''unverified'' (x, b) u" if u: "unchanged_on (own_paths p) v u" for x u
    proof -
      have "input_settled p (int_id k) ''unverified'' u"
        by (rule unchanged_settled [OF lay(1,2) unchanged_on_mono [OF u]]) (use v in \<open>auto simp: recovered_def\<close>)
      then show ?thesis using v unchanged_input(2) [OF u own_in(1)] by (simp add: recovered_def)
    qed
    then show ?thesis by (intro wp_finally wp_unchanged [OF spares_notices(1) [OF lay(1-3) b]])
  qed
  have unverified: "wp (then_agent (finishInput rt p ?a e ''unverified'' owner_exited None)
         (\<lambda>a2. finally_io a2 (notifySender rt a2 e ''unverified''))) (recovered p k ''unverified'') (\<lambda>_ _. False) v"
    if "segment (int_id k)" "stored_envelope p v ''new'' (int_id k) e" "input_saved p k v" for e v
    by (rule wp_then_agent, rule wp_mono [OF finish [OF that]]) (use tell in \<open>auto split: option.split\<close>)
  have "wp (recover_envelope rt p a (int_id k)) ?G (\<lambda>_ _. False) w"
    unfolding recover_envelope_def Let_def
  proof (rule wp_checked, rule wp_find_input [OF lay(1,2) k(3)], goal_cases)
    case (1 e v)
    have "wp (finishInput rt p ?a e ''accepted'' (env_reason e) None) ?G (\<lambda>_ _. False) v"
      by (rule wp_mono [OF finish [OF 1]]) auto
    moreover have "wp (then_agent (finishInput rt p ?a e ''unverified'' owner_exited None)
         (\<lambda>a2. finally_io a2 (notifySender rt a2 e ''unverified''))) ?G (\<lambda>_ _. False) v"
      by (rule wp_mono [OF unverified [OF 1]]) auto
    ultimately show ?case by simp
  next
    case (2 x v)
    then show ?case by (auto intro: recovered_failure)
  qed
  then show ?thesis using k(1,2) by (simp add: recoverInput_def)
qed


text \<open>
  C3 (recovery_keeps_intent_or_receipt): the input of a process that died while typing an
  envelope is never given back to the queue. Whatever fails during \<^verbatim>\<open>recoverInput\<close>, afterwards the
  state file still carries the intent, or the queue entry is gone and the envelope is filed
  with the outcome accepted or unverified. When \<^verbatim>\<open>recoverInput\<close> returns no error, the envelope is
  filed and neither the caller's agent nor the state file has an intent left.
\<close>

theorem recovery_keeps_intent_or_receipt:
  fixes a :: agent
  assumes "plain_segment h" "p = agent_of (team_of d) h" "rt_team rt = team_of d" "ag_id a = h"
    and "ag_input a = Some k" "int_kind k = ''envelope''" "input_saved p k w"
    and "\<forall>c. ag_cleanup a = Some c \<longrightarrow> ref_directory c \<in> {''cur'', ''failed''}"
  shows "case recoverInput rt p a w of
      (Inr out, w') \<Rightarrow> \<exists>outcome \<in> {''accepted'', ''unverified''}. recovered p k outcome out w'
    | (Inl _, _) \<Rightarrow> False"
  using wp_recoverInput [OF assms] by (auto simp: wp_def split: sum.splits prod.splits)

definition demo_intent :: input_intent where
  "demo_intent = \<lparr>int_id = ''m1'', int_kind = ''envelope'', int_at = 0\<rparr>"

definition demo_typing :: agent where
  "demo_typing = demo_hitch\<lparr>ag_input := Some demo_intent\<rparr>"

definition demo_typing_world :: world where
  "demo_typing_world = put (ap_state demo_paths) (File (CAgent demo_typing)) demo_settle_world"

definition demo_env :: env where
  "demo_env = \<lparr>rt_team = team_of [''t''], rt_unicode = ascii_unicode, rt_witness = (\<lambda>_. Inl NotExist),
     rt_moved = (\<lambda>_ _ _. Inr False), rt_token = (\<lambda>_. Inl IOError), rt_operator_text = (\<lambda>s. s), rt_outside_text = (\<lambda>s. s),
     rt_hitching = '''', rt_error_text = (\<lambda>_. ''''), rt_warn = (\<lambda>_. None)\<rparr>"

theorem recovery_keeps_intent_or_receipt_witness:
  "case recoverInput demo_env demo_paths demo_typing demo_typing_world of
      (Inr out, w') \<Rightarrow> \<exists>outcome \<in> {''accepted'', ''unverified''}. recovered demo_paths demo_intent outcome out w'
    | (Inl _, _) \<Rightarrow> False"
  by (rule recovery_keeps_intent_or_receipt [OF plain_h1 demo_paths_def])
    (simp_all add: demo_env_def demo_typing_def demo_typing_world_def demo_intent_def input_saved_def demo_hitch_def blank_agent_def)

end
