(* ===== verification/Delivery_Reopen.thy ===== *)
theory Delivery_Reopen
  imports Delivery_Recovery
begin

text \<open>
  The other direction of the ledger: a filed receipt that later proof confirms goes back to
  the queue directory only after its intent is on disk, and every agent the ledger's
  operations hand back names a receipt directory.
\<close>

section \<open>Reopening a receipt\<close>

definition envelope_intent :: "agent_paths \<Rightarrow> envelope_id \<Rightarrow> world \<Rightarrow> bool" where
  "envelope_intent p i w \<longleftrightarrow> (\<exists>k. int_id k = i \<and> int_kind k = ''envelope'' \<and> input_saved p k w)"

definition reopened :: "agent_paths \<Rightarrow> string \<Rightarrow> envelope \<Rightarrow> err option \<times> agent \<Rightarrow> world \<Rightarrow> bool" where
  "reopened p dir e = (\<lambda>(x, a') w.
     (envelope_intent p (env_id e) w \<or> lookup w (env_path p ''new'' (env_id e)) = None)
     \<and> (x = None \<longrightarrow> envelope_intent p (env_id e) w \<and> lookup w (env_path p dir (env_id e)) = None
          \<and> (\<exists>k. ag_input a' = Some k \<and> int_id k = env_id e)))"

lemma started_event:
  assumes "ev_type e = ''input_started''" "find (\<lambda>f. eff_kind f = ''reject'') (snd (Step a e)) = None"
  shows "ag_input (fst (Step a e)) = Some \<lparr>int_id = ev_id e, int_kind = ev_status e, int_at = ev_at e\<rparr>"
  using assms by (auto simp: Step_def dispatch_def handlers_def on_input_started_def reject_def split: if_splits)

lemma wp_reopenReceipt:
  fixes a :: agent
  assumes lay: "plain_segment h" "p = agent_of (team_of d) h" "rt_team rt = team_of d" "ag_id a = h"
    and dir: "dir \<in> {''cur'', ''failed''}" and e: "segment (env_id e)" "lookup w (env_path p ''new'' (env_id e)) = None"
  shows "wp (reopenReceipt rt p a e dir) (reopened p dir e) (\<lambda>_ _. False) w"
proof -
  let ?i = "env_id e" and ?s = "env_path p dir (env_id e)" and ?t = "env_path p ''new'' (env_id e)"
  let ?ev = "blank_event\<lparr>ev_type := ''input_started'', ev_id := ?i, ev_status := ''envelope''\<rparr>"
  have paths: "EnvelopePath p d' ?i v = (Inr (env_path p d' ?i), v)" if "d' \<in> {dir, ''new''}" for d' v
    using that dir e(1) by (auto simp: EnvelopePath_def check_segment_def env_path_def and_then_def ret_def)
  have differ: "?s \<noteq> ?t" using new_path_differs(1) [OF lay(1,2) dir, of ?i ?i] by simp
  have own: "?t \<in> own_paths p" using e(1) by (simp add: inbox_dirs_def)
  have failure: "reopened p dir e (Some x, b) v" if "input_saved p k v" "int_id k = ?i" "int_kind k = ''envelope''" for x b v k
    using that by (auto simp: reopened_def envelope_intent_def)
  have move: "wp (and_then (attempt (EnvelopePath p dir ?i)) (\<lambda>source.
         and_then (attempt (EnvelopePath p ''new'' ?i)) (\<lambda>target.
         os_rename (path_or_empty source) (path_or_empty target)))) Q E v"
    if v: "input_saved p k v" and Q: "\<And>u. input_saved p k u \<Longrightarrow> lookup u ?s = None \<Longrightarrow> Q () u"
      and E: "\<And>x u. input_saved p k u \<Longrightarrow> E x u" for Q E v k
  proof -
    have moved: "input_saved p k (relabel ?s ?t v)" "lookup (relabel ?s ?t v) ?s = None" if "\<not> prefix ?s ?t" "\<not> prefix ?t ?s"
    proof -
      have "lookup (relabel ?s ?t v) (ap_state p) = lookup v (ap_state p)"
        by (rule changed_onlyD [OF changed_only_relabel(1) [OF that]]) (simp add: below_def state_apart(2) [OF lay(1,2)])
      then show "input_saved p k (relabel ?s ?t v)" using v by (simp add: input_saved_def)
      show "lookup (relabel ?s ?t v) ?s = None" by (rule changed_only_relabel(2) [OF that])
    qed
    have "wp (os_rename ?s ?t) Q E v"
      by (rule wp_os_rename) (use differ moved v in \<open>auto intro!: Q E\<close>)
    then show ?thesis by (simp add: wp_def [of "EnvelopePath p _ ?i"] paths path_or_empty_def)
  qed
  have save: "wp (finally_io b (Save p b)) (reopened p dir e) (\<lambda>_ _. False) v"
    if v: "input_saved p k v" "lookup v ?s = None" "int_id k = ?i" "int_kind k = ''envelope''" "ag_input b = Some k" for b v k
  proof (rule wp_finally, rule wp_Save_own [OF lay(1,2)], goal_cases)
    case (1 u)
    have "?s \<in> own_paths p - {ap_state p}"
      using e(1) dir state_apart(1) [OF lay(1,2)] by (auto simp: inbox_dirs_def)
    then have "lookup u ?s = None" using unchanged_onD [OF 1(1)] v(2) by simp
    then show ?case using state_is_input(1) [OF 1(2) v(5)] v(3-5) by (auto simp: reopened_def envelope_intent_def)
  next
    case (2 x u)
    then show ?case using v unchanged_input(1) [OF 2 own_in(1)] by (auto intro!: failure)
  qed
  show ?thesis
    unfolding reopenReceipt_def
  proof (rule wp_then_agent, rule wp_run_apply [OF lay], goal_cases)
    case 1
    show ?case by simp
  next
    case (2 x u)
    have "lookup u ?t = None" using unchanged_onD [OF 2 own] e(2) by simp
    then show ?case by (simp add: reopened_def)
  next
    case (3 x u ev)
    let ?b = "fst (Step a ev)" and ?k = "\<lparr>int_id = ev_id ev, int_kind = ev_status ev, int_at = ev_at ev\<rparr>"
    have ev: "ev_type ev = ''input_started''" "ev_id ev = ?i" "ev_status ev = ''envelope''"
      using 3(1) by (simp_all add: stamped_event_def)
    have input: "ag_input ?b = Some ?k" by (rule started_event [OF ev(1) 3(2)])
    have saved: "input_saved p ?k u" by (rule state_is_input(1) [OF 3(3) input])
    let ?a2 = "if dir = ''cur'' then ?b\<lparr>ag_last_accepted := ''''\<rparr> else ?b\<lparr>ag_last_failed := ''''\<rparr>"
    have "wp (finally_io ?a2 (Save p ?a2)) (reopened p dir e) (\<lambda>_ _. False) v" if "input_saved p ?k v" "lookup v ?s = None" for v
      by (rule save [OF that]) (use ev input in simp_all)
    then have "wp (checked ?b (and_then (attempt (EnvelopePath p dir ?i)) (\<lambda>source.
         and_then (attempt (EnvelopePath p ''new'' ?i)) (\<lambda>target.
         os_rename (path_or_empty source) (path_or_empty target)))) (\<lambda>_.
       let a2 = ?a2 in finally_io a2 (Save p a2))) (reopened p dir e) (\<lambda>_ _. False) u"
      unfolding Let_def by (intro wp_checked move [OF saved]) (use ev failure in auto)
    then show ?case
      using failure [OF saved] ev by (auto split: option.split)
  qed
qed

text \<open>
  C4 (reopened_receipt_has_intent): late proof reopens a receipt only under an intent. Whatever fails in
  \<^verbatim>\<open>reopenReceipt\<close>, the envelope is not in the queue directory unless the state file carries the
  intent to have typed it, so no drain types it again. Without an error the intent is saved, the
  receipt's directory no longer has it, and the caller's agent carries the intent.
\<close>

theorem reopened_receipt_has_intent:
  fixes a :: agent
  assumes "plain_segment h" "p = agent_of (team_of d) h" "rt_team rt = team_of d" "ag_id a = h"
    and "dir \<in> {''cur'', ''failed''}" "segment (env_id e)" "lookup w (env_path p ''new'' (env_id e)) = None"
  shows "case reopenReceipt rt p a e dir w of (Inr out, w') \<Rightarrow> reopened p dir e out w' | (Inl _, _) \<Rightarrow> False"
  using wp_reopenReceipt [OF assms] by (auto simp: wp_def split: sum.splits prod.splits)

definition demo_receipt_world :: world where
  "demo_receipt_world = put (env_path demo_paths ''failed'' ''m2'') (File (CEnvelope (demo_envelope ''m2''))) demo_settle_world"

theorem reopened_receipt_has_intent_witness:
  "case reopenReceipt demo_env demo_paths demo_hitch (demo_envelope ''m2'') ''failed'' demo_receipt_world of
     (Inr out, w') \<Rightarrow> reopened demo_paths ''failed'' (demo_envelope ''m2'') out w' | (Inl _, _) \<Rightarrow> False"
proof (rule reopened_receipt_has_intent [OF plain_h1 demo_paths_def])
  show "segment (env_id (demo_envelope ''m2''))" by (simp add: segment_iff plain_segment_def separator_def)
  show "lookup demo_receipt_world (env_path demo_paths ''new'' (env_id (demo_envelope ''m2''))) = None"
    by (simp add: demo_receipt_world_def env_path_def join_path_def components_def separator_def demo_inbox_def demo_tree_def)
qed (simp_all add: demo_env_def demo_hitch_def)

section \<open>Receipts to clean up\<close>

text \<open>An action that hands back an agent with a property, whatever happens in it.\<close>

definition yields :: "(agent \<Rightarrow> bool) \<Rightarrow> agent_io \<Rightarrow> bool" where
  "yields P m \<longleftrightarrow> (\<forall>w x a' w'. m w = (Inr (x, a'), w') \<longrightarrow> P a')"

named_theorems yields_intro \<open>rules showing a property of the agent an action hands back\<close>

lemma yields_ret [yields_intro]: "P a \<Longrightarrow> yields P (ret (x, a))" "P a \<Longrightarrow> yields P (proceed a)"
  by (simp_all add: yields_def ret_def proceed_def)

lemma yields_raise [yields_intro]: "yields P (raise err)"
  by (simp add: yields_def raise_def)

lemma yields_bind [yields_intro]: "(\<And>x. yields P (f x)) \<Longrightarrow> yields P (and_then m f)"
  by (auto simp: yields_def and_then_def split: prod.splits sum.splits)

lemma yields_then [yields_intro]:
  assumes "yields P m" "\<And>a. P a \<Longrightarrow> yields P (f a)"
  shows "yields P (then_agent m f)"
  unfolding yields_def
proof (intro allI impI)
  fix w x a' w'
  assume run: "then_agent m f w = (Inr (x, a'), w')"
  then obtain y b v where m: "m w = (Inr (y, b), v)"
    by (auto simp: then_agent_def and_then_def split: prod.splits sum.splits)
  have b: "P b" using assms(1) m by (auto simp: yields_def)
  show "P a'"
  proof (cases y)
    case None
    then have "f b v = (Inr (x, a'), w')" using run m by (simp add: then_agent_def and_then_def)
    then show ?thesis using assms(2) [OF b] by (auto simp: yields_def)
  next
    case (Some err)
    then show ?thesis using run m b by (simp add: then_agent_def and_then_def ret_def)
  qed
qed

lemma yields_checked [yields_intro]: "P a \<Longrightarrow> (\<And>x. yields P (f x)) \<Longrightarrow> yields P (checked a m f)"
  unfolding checked_def by (intro yields_bind) (auto intro: yields_intro split: sum.split)

lemma yields_finally [yields_intro]: "P a \<Longrightarrow> yields P (finally_io a m)"
  unfolding finally_io_def by (intro yields_intro)

lemma yields_case [yields_intro]:
  "(b \<Longrightarrow> yields P m) \<Longrightarrow> (\<not> b \<Longrightarrow> yields P n) \<Longrightarrow> yields P (if b then m else n)"
  "(z = None \<Longrightarrow> yields P m) \<Longrightarrow> (\<And>y. z = Some y \<Longrightarrow> yields P (g y)) \<Longrightarrow> yields P (case z of None \<Rightarrow> m | Some y \<Rightarrow> g y)"
  "(\<And>e. r = Inl e \<Longrightarrow> yields P (f e)) \<Longrightarrow> (\<And>y. r = Inr y \<Longrightarrow> yields P (k y)) \<Longrightarrow> yields P (case r of Inl e \<Rightarrow> f e | Inr y \<Rightarrow> k y)"
  "(\<And>u v. q = (u, v) \<Longrightarrow> yields P (l u v)) \<Longrightarrow> yields P (case q of (u, v) \<Rightarrow> l u v)"
  by (auto split: option.split sum.split prod.split)

definition receipt_typed :: "agent \<Rightarrow> bool" where
  "receipt_typed a \<longleftrightarrow> (\<forall>c. ag_cleanup a = Some c \<longrightarrow> ref_directory c \<in> {''cur'', ''failed''})"

lemma receipt_typed_upd [simp]:
  "receipt_typed (a\<lparr>ag_input := k\<rparr>) = receipt_typed a" "receipt_typed (a\<lparr>ag_activity := y\<rparr>) = receipt_typed a"
  "receipt_typed (a\<lparr>ag_evidence := s\<rparr>) = receipt_typed a" "receipt_typed (a\<lparr>ag_native := n\<rparr>) = receipt_typed a"
  "receipt_typed (a\<lparr>ag_last_accepted := i\<rparr>) = receipt_typed a" "receipt_typed (a\<lparr>ag_last_delivered := i\<rparr>) = receipt_typed a"
  "receipt_typed (a\<lparr>ag_last_failed := i\<rparr>) = receipt_typed a" "receipt_typed (a\<lparr>ag_clear := c\<rparr>) = receipt_typed a"
  "receipt_typed (a\<lparr>ag_context_bands := b\<rparr>) = receipt_typed a" "receipt_typed (a\<lparr>ag_cleanup := None\<rparr>)"
  by (simp_all add: receipt_typed_def)

lemma Step_typed: "receipt_typed (fst (Step a e)) = receipt_typed a"
  using Step_identity [of a e] by (simp add: same_identity_fields_def receipt_typed_def)

lemma with_receipt_typed: "receipt_typed a \<Longrightarrow> receipt_typed (with_receipt a i outcome)"
  by (auto simp: receipt_typed_def cleanup_after result_dir_def split: if_splits)

lemma yields_run_apply [yields_intro]: "receipt_typed a \<Longrightarrow> yields receipt_typed (run_apply rt p a e)"
proof -
  assume a: "receipt_typed a"
  have next_a: "receipt_typed n" if "Step a e' = (n, fx)" for n fx e' using Step_typed [of a e'] that a by simp
  show ?thesis
    unfolding run_apply_def Let_def by (intro yields_intro a; rule next_a)
qed


lemma yields_CleanResult [yields_intro]: "receipt_typed a \<Longrightarrow> yields receipt_typed (CleanResult p a)"
  unfolding CleanResult_def Let_def by (intro yields_intro) simp_all

lemma yields_Settle [yields_intro]: "receipt_typed a \<Longrightarrow> yields receipt_typed (Settle p a e outcome reason)"
proof -
  assume a: "receipt_typed a"
  have clean: "yields receipt_typed (and_then (CleanResult p a) f)"
    if "\<And>x b. receipt_typed b \<Longrightarrow> yields receipt_typed (f (x, b))" for f
    unfolding yields_def
  proof (intro allI impI)
    fix w x a' w'
    assume run: "and_then (CleanResult p a) f w = (Inr (x, a'), w')"
    then obtain y b v where m: "CleanResult p a w = (Inr (y, b), v)" "f (y, b) v = (Inr (x, a'), w')"
      by (auto simp: and_then_def split: prod.splits sum.splits)
    have "receipt_typed b" using yields_CleanResult [OF a, of p] m(1) by (auto simp: yields_def)
    then show "receipt_typed a'" using that [of b y] m(2) unfolding yields_def by blast
  qed
  show ?thesis
    unfolding Settle_def Let_def
    by (intro yields_bind yields_case clean yields_intro with_receipt_typed a) (auto intro!: yields_intro with_receipt_typed)
qed

lemma yields_settleContextStamp [yields_intro]: "receipt_typed a \<Longrightarrow> yields receipt_typed (settleContextStamp p a e outcome)"
  unfolding settleContextStamp_def Let_def with_pending_def by (intro yields_intro) simp_all

lemma startup_typed: "receipt_typed a \<Longrightarrow> receipt_typed (startup_turn a w)"
  by (simp add: startup_turn_def)

lemma yields_settleReceipt [yields_intro]:
  assumes "receipt_typed a"
  shows "yields receipt_typed (settleReceipt rt p a e outcome reason witnessed)"
proof -
  have startup: "receipt_typed (case witnessed of Some w \<Rightarrow> if outcome = ''delivered'' \<and> isStartupEnvelope e then startup_turn a w else a | None \<Rightarrow> a)"
    using assms startup_typed by (simp split: option.split)
  show ?thesis
    unfolding settleReceipt_def Let_def by (intro yields_intro assms startup; assumption)
qed

lemma yields_clearState [yields_intro]: "receipt_typed a \<Longrightarrow> yields receipt_typed (clearState rt p a status reason)"
  unfolding clearState_def Let_def by (intro yields_intro) simp_all

lemma yields_finishInput [yields_intro]: "receipt_typed a \<Longrightarrow> yields receipt_typed (finishInput rt p a e outcome reason witnessed)"
  unfolding finishInput_def settle_clear_outcome_def by (intro yields_intro; assumption)

lemma yields_recoverInput [yields_intro]: "receipt_typed a \<Longrightarrow> yields receipt_typed (recoverInput rt p a)"
  unfolding recoverInput_def recover_envelope_def Let_def forget_receipts_def by (intro yields_intro; simp)

lemma yields_publishContextNotes [yields_intro]: "receipt_typed a \<Longrightarrow> yields receipt_typed (publishContextNotes rt p a)"
  unfolding publishContextNotes_def Let_def by (intro yields_intro; simp)

lemma cleared_typed: "receipt_typed a \<Longrightarrow> receipt_typed (cleared_agent a n)"
  by (simp add: receipt_typed_def cleared_agent_def)

lemma yields_reconcileClear [yields_intro]: "receipt_typed a \<Longrightarrow> yields receipt_typed (reconcileClear rt p a)"
  unfolding reconcileClear_def settle_clear_def Let_def by (intro yields_intro cleared_typed; assumption)

lemma yields_reopenReceipt [yields_intro]: "receipt_typed a \<Longrightarrow> yields receipt_typed (reopenReceipt rt p a e dir)"
  unfolding reopenReceipt_def Let_def by (intro yields_intro; simp)

lemma yields_reconcile_receipts [yields_intro]: "receipt_typed a \<Longrightarrow> yields receipt_typed (reconcile_receipts rt p primitive w a rs)"
  by (induction rs arbitrary: a rule: list.induct)
    (auto intro!: yields_intro simp: witnessed_turn_def)

lemma follow_typed: "followNativeSession rt a s t = Inr (same, b) \<Longrightarrow> receipt_typed a \<Longrightarrow> receipt_typed b"
  by (auto simp: followNativeSession_def split: if_splits sum.splits)

text \<open>
  Every operation of the ledger keeps the record of a replaced receipt well
  formed. When the agent it is given names a receipt directory (or nothing) to clean up, so does the
  agent it hands back, on every path: settling, finishing, recovery, reopening and reconciliation
  with late proof (given that the pending attempts of the native channel keep it).
\<close>

theorem receipts_stay_typed:
  fixes a :: agent
  assumes "receipt_typed a" "\<And>b. receipt_typed b \<Longrightarrow> yields receipt_typed (native_pending b)"
    and "m \<in> {settleReceipt rt p a e outcome reason witnessed, finishInput rt p a e outcome reason witnessed,
       recoverInput rt p a, reopenReceipt rt p a e dir, reconcileDelivery rt native_pending p a}"
  shows "yields receipt_typed m"
proof -
  have "yields receipt_typed (reconcileDelivery rt native_pending p a)"
    unfolding reconcileDelivery_def
    by (intro yields_intro assms(1,2)) (auto dest: follow_typed)
  then show ?thesis using assms(1,3) by (auto intro: yields_intro)
qed


definition demo_replaced :: agent where
  "demo_replaced = demo_hitch\<lparr>ag_cleanup := Some \<lparr>ref_id = ''m0'', ref_directory = ''failed''\<rparr>\<rparr>"

theorem receipts_stay_typed_witness: "yields receipt_typed (reconcileDelivery demo_env proceed demo_paths demo_replaced)"
  by (rule receipts_stay_typed [of demo_replaced proceed _ demo_env demo_paths "demo_envelope ''m2''" "''failed''" "''''" None])
    (simp_all add: receipt_typed_def yields_def proceed_def ret_def demo_replaced_def)

end
