(* ===== verification/Delivery_Queue.thy ===== *)
theory Delivery_Queue
  imports Delivery_Reopen Store_Outside
begin

text \<open>
  Which queued envelope a drain types next (\<^verbatim>\<open>drainLocked\<close> in \<^verbatim>\<open>cmd/gang/delivery.go\<close>): the
  continuation of a clear, a startup or a compaction's resume first, then the first due one;
  an expired one is withdrawn when the drain comes to it, and a synthetic capacity
  continuation gives way to any due message. The queue is the list \<^verbatim>\<open>ListNew\<close> returned.
\<close>

section \<open>The choice\<close>

definition completedResume :: "agent \<Rightarrow> envelope \<Rightarrow> bool" where
  "completedResume a e = (case ag_compaction a of
       None \<Rightarrow> False
     | Some c \<Rightarrow> cmp_status c = ''completed'' \<and> cmp_started_at c < cmp_completed_at c
         \<and> cmp_continuation c \<and> \<not> cmp_resume_admitted c \<and> cmp_resume_token c \<noteq> ''''
         \<and> env_id e = ''resume-'' @ cmp_id c \<and> env_token e = cmp_resume_token c
         \<and> env_recipient e = ag_id a \<and> env_to e = ag_name a \<and> env_from e = cmp_resume_from c
         \<and> env_message e = cmp_resume c \<and> env_purpose e = ''resume'' \<and> env_outcome e = '''' \<and> env_reason e = ''''
         \<and> env_startup e = None \<and> env_paste_only e = None \<and> env_measured_at e = None
         \<and> env_not_before e = zero_time \<and> env_not_after e = zero_time)"

definition rehitchReady :: "agent \<Rightarrow> bool" where
  "rehitchReady a \<longleftrightarrow> ag_rehitch a \<noteq> None \<and> ag_status a = Active \<and> ag_activity a = Idle \<and> ag_input a = None
     \<and> nat_finished_at (ag_native a) \<noteq> zero_time \<and> \<not> nat_finished_at (ag_native a) < nat_submitted_at (ag_native a)
     \<and> (case ag_compaction a of None \<Rightarrow> True | Some c \<Rightarrow> cmp_status c = ''failed'' \<or> cmp_resume_admitted c)"

definition envelope_expired :: "time \<Rightarrow> envelope \<Rightarrow> bool" where
  "envelope_expired t e \<longleftrightarrow> env_not_after e \<noteq> zero_time \<and> \<not> t < env_not_after e"

definition envelope_due :: "time \<Rightarrow> envelope \<Rightarrow> bool" where
  "envelope_due t e \<longleftrightarrow> \<not> t < env_not_before e"

definition withdraw_expired :: "team_paths \<Rightarrow> agent_paths \<Rightarrow> agent \<Rightarrow> envelope \<Rightarrow> unit io" where
  "withdraw_expired tp p a e =
     and_then (Withdraw p (env_id e)) (\<lambda>_. record_event tp a
       (blank_event\<lparr>ev_type := ''send_cancelled'', ev_id := env_id e, ev_reason := ''expired before delivery''\<rparr>))"

fun next_due :: "team_paths \<Rightarrow> agent_paths \<Rightarrow> agent \<Rightarrow> envelope list \<Rightarrow> envelope option io" where
  "next_due tp p a [] = ret None"
| "next_due tp p a (e # es) =
     and_then (reads now) (\<lambda>t.
       if envelope_expired t e then and_then (withdraw_expired tp p a e) (\<lambda>_. next_due tp p a es)
       else if envelope_due t e then ret (Some e) else next_due tp p a es)"

text \<open>A capacity continuation must not outrank newly due work.\<close>

definition outranked :: "time \<Rightarrow> envelope list \<Rightarrow> envelope \<Rightarrow> envelope" where
  "outranked t pending e =
     (if \<not> capacityEnvelope e then e
      else case find (\<lambda>x. \<not> capacityEnvelope x \<and> envelope_due t x \<and> \<not> envelope_expired t x) pending of
          None \<Rightarrow> e | Some x \<Rightarrow> x)"

definition clear_continuation :: "agent \<Rightarrow> envelope \<Rightarrow> bool" where
  "clear_continuation a e = (case ag_clear a of None \<Rightarrow> False | Some c \<Rightarrow> env_id e = env_id (clr_envelope c))"

definition reserved_input :: "agent \<Rightarrow> envelope \<Rightarrow> bool" where
  "reserved_input a e \<longleftrightarrow> completedResume a e \<or> isStartupEnvelope e"

definition next_envelope :: "team_paths \<Rightarrow> agent_paths \<Rightarrow> agent \<Rightarrow> envelope list \<Rightarrow> envelope option io" where
  "next_envelope tp p a pending =
     and_then (if clearPending a then ret (find (clear_continuation a) pending)
       else case find (reserved_input a) pending of
           Some e \<Rightarrow> ret (Some e)
         | None \<Rightarrow> next_due tp p a pending) (\<lambda>chosen.
     and_then (reads now) (\<lambda>t. ret (map_option (outranked t pending) chosen)))"

section \<open>The choice is exact\<close>

text \<open>
  What a drain should type next, stated of the queue, the time and the agent alone. The first of
  the queue that has a property, or none when none has it:
\<close>

definition earliest :: "(envelope \<Rightarrow> bool) \<Rightarrow> envelope list \<Rightarrow> envelope option \<Rightarrow> bool" where
  "earliest P xs c \<longleftrightarrow> (case c of
       None \<Rightarrow> \<forall>x \<in> set xs. \<not> P x
     | Some x \<Rightarrow> \<exists>ys zs. xs = ys @ x # zs \<and> P x \<and> (\<forall>y \<in> set ys. \<not> P y))"

text \<open>An envelope is deliverable from its first instant up to, but not at, its last; then it has run out.\<close>

definition deliverable :: "time \<Rightarrow> envelope \<Rightarrow> bool" where
  "deliverable t e \<longleftrightarrow> env_not_before e \<le> t \<and> (env_not_after e = zero_time \<or> t < env_not_after e)"

definition run_out :: "time \<Rightarrow> envelope \<Rightarrow> bool" where
  "run_out t e \<longleftrightarrow> env_not_after e \<noteq> zero_time \<and> env_not_after e \<le> t"

text \<open>
  The resume of a completed compaction that has not admitted it yet: the envelope has exactly the
  fields the compaction fixed, with no time bounds and no result.
\<close>

definition resume_of :: "agent \<Rightarrow> compaction \<Rightarrow> envelope \<Rightarrow> envelope" where
  "resume_of a c e = e\<lparr>env_id := ''resume-'' @ cmp_id c, env_token := cmp_resume_token c, env_from := cmp_resume_from c,
     env_to := ag_name a, env_recipient := ag_id a, env_message := cmp_resume c, env_startup := None, env_paste_only := None,
     env_purpose := ''resume'', env_measured_at := None, env_not_before := zero_time, env_not_after := zero_time,
     env_outcome := '''', env_reason := ''''\<rparr>"

definition goes_first :: "agent \<Rightarrow> envelope \<Rightarrow> bool" where
  "goes_first a e \<longleftrightarrow> env_purpose e \<in> {''startup'', ''assignment'', ''clear''}
     \<or> (\<exists>c. ag_compaction a = Some c \<and> cmp_status c = ''completed'' \<and> cmp_started_at c < cmp_completed_at c
          \<and> cmp_continuation c \<and> \<not> cmp_resume_admitted c \<and> cmp_resume_token c \<noteq> '''' \<and> e = resume_of a c e)"

definition in_turn :: "time \<Rightarrow> agent \<Rightarrow> envelope list \<Rightarrow> envelope option \<Rightarrow> bool" where
  "in_turn t a pending c \<longleftrightarrow>
     (if \<exists>k. ag_clear a = Some k \<and> clr_status k \<noteq> ''completed''
      then earliest (\<lambda>e. \<exists>k. ag_clear a = Some k \<and> env_id e = env_id (clr_envelope k)) pending c
      else if \<exists>e \<in> set pending. goes_first a e then earliest (goes_first a) pending c
      else earliest (deliverable t) pending c)"

text \<open>The synthetic continuation after a capacity failure, which gives way to any other deliverable message.\<close>

definition synthetic :: "envelope \<Rightarrow> bool" where
  "synthetic e \<longleftrightarrow> snd_kind (env_from e) = ''gangline'' \<and> snd_name (env_from e) = ''capacity-recovery''"

definition picked :: "time \<Rightarrow> agent \<Rightarrow> envelope list \<Rightarrow> envelope option \<Rightarrow> bool" where
  "picked t a pending c \<longleftrightarrow> (\<exists>b. in_turn t a pending b
     \<and> (if (\<exists>x. b = Some x \<and> synthetic x) \<and> (\<exists>y \<in> set pending. \<not> synthetic y \<and> deliverable t y)
        then earliest (\<lambda>y. \<not> synthetic y \<and> deliverable t y) pending c else c = b))"

text \<open>The envelopes that have run out, of those before the first deliverable one.\<close>

definition passed_over :: "time \<Rightarrow> agent \<Rightarrow> envelope list \<Rightarrow> envelope list" where
  "passed_over t a pending =
     (if (\<exists>k. ag_clear a = Some k \<and> clr_status k \<noteq> ''completed'') \<or> (\<exists>e \<in> set pending. goes_first a e) then []
      else filter (run_out t) (takeWhile (\<lambda>e. \<not> deliverable t e) pending))"

text \<open>The code's tests are these.\<close>

lemma earliest_find: "earliest P xs (find P xs)"
proof (induction xs)
  case (Cons x xs)
  show ?case
  proof (cases "P x")
    case False
    show ?thesis
    proof (cases "find P xs")
      case (Some y)
      then obtain ys zs where "xs = ys @ y # zs" "P y" "\<forall>z \<in> set ys. \<not> P z" using Cons.IH by (auto simp: earliest_def)
      then show ?thesis
        using Some False unfolding earliest_def by (simp, intro exI [of _ "x # ys"]) simp
    qed (use Cons.IH False in \<open>simp add: earliest_def\<close>)
  qed (auto simp: earliest_def intro: exI [of _ "[]"])
qed (simp add: earliest_def)

lemma tests_agree:
  "envelope_expired t e = run_out t e" "(envelope_due t e \<and> \<not> envelope_expired t e) = deliverable t e"
  "capacityEnvelope e = synthetic e" "clearPending a = (\<exists>k. ag_clear a = Some k \<and> clr_status k \<noteq> ''completed'')"
  by (auto simp: envelope_expired_def envelope_due_def run_out_def deliverable_def capacityEnvelope_def synthetic_def
    SenderGangline_def clearPending_def split: option.split)

lemma continuation_agrees: "clear_continuation a = (\<lambda>e. \<exists>k. ag_clear a = Some k \<and> env_id e = env_id (clr_envelope k))"
  by (auto simp: clear_continuation_def fun_eq_iff split: option.split)

lemma resume_agrees:
  "e = resume_of a c e \<longleftrightarrow> env_id e = ''resume-'' @ cmp_id c \<and> env_token e = cmp_resume_token c
     \<and> env_recipient e = ag_id a \<and> env_to e = ag_name a \<and> env_from e = cmp_resume_from c
     \<and> env_message e = cmp_resume c \<and> env_purpose e = ''resume'' \<and> env_outcome e = '''' \<and> env_reason e = ''''
     \<and> env_startup e = None \<and> env_paste_only e = None \<and> env_measured_at e = None
     \<and> env_not_before e = zero_time \<and> env_not_after e = zero_time"
  unfolding resume_of_def by (cases e) auto

lemma reserved_agrees: "reserved_input a = goes_first a"
  unfolding fun_eq_iff reserved_input_def completedResume_def isStartupEnvelope_def goes_first_def resume_agrees
  by (auto split: option.split)

definition dequeued :: "agent_paths \<Rightarrow> envelope list \<Rightarrow> world \<Rightarrow> bool" where
  "dequeued p es w \<longleftrightarrow> (\<forall>e \<in> set es. lookup w (env_path p ''new'' (env_id e)) = None)"

definition drained :: "agent_paths \<Rightarrow> envelope list \<Rightarrow> world \<Rightarrow> world \<Rightarrow> bool" where
  "drained p es w w' \<longleftrightarrow> now w' = now w \<and> dequeued p es w'
     \<and> (\<forall>j. lookup w (env_path p ''new'' j) = None \<longrightarrow> lookup w' (env_path p ''new'' j) = None)
     \<and> (\<forall>j. segment j \<and> j \<notin> env_id ` set es \<longrightarrow> lookup w' (env_path p ''new'' j) = lookup w (env_path p ''new'' j))"

lemma drained_refl [simp]: "drained p [] w w"
  by (simp add: drained_def dequeued_def)

lemma drained_trans: "drained p xs u v \<Longrightarrow> drained p ys v w \<Longrightarrow> drained p (xs @ ys) u w"
  by (auto simp: drained_def dequeued_def image_Un)

lemma wp_withdraw_expired:
  assumes lay: "plain_segment h" "p = agent_of (team_of d) h"
    and ok: "\<And>w'. drained p [e] w w' \<Longrightarrow> Q () w'" and failed: "\<And>x w'. E x w'"
  shows "wp (withdraw_expired (team_of d) p a e) Q E w"
proof -
  have log: "ap_log p = tp_log (team_of d)" by (simp add: lay(2) agent_of_def Let_def)
  have "env_path p ''new'' j \<notin> own_files p" for j
    using inbox_apart(1) [OF lay, of "''new''" j] in_below [of "env_path p ''new'' j"] by blast
  then have away: "env_path p ''new'' j \<notin> idle_files (idleTeam p)" "env_path p ''new'' j \<noteq> tp_log (team_of d)" for j
    unfolding log [symmetric] by (auto simp: own_files_def)
  have named: "tp_log (team_of d) = d @ [''log.jsonl'']" by (simp add: team_of_def)
  have gone: "drained p [e] w u" if "changed_only (idle_files (idleTeam p)) w v"
      "changed_only {tp_log (team_of d)} (del (env_path p ''new'' (env_id e)) v) u" "segment (env_id e)" for u v
    using that away by (auto simp: drained_def dequeued_def changed_only_def dest: env_path_inj)
  show ?thesis
    unfolding withdraw_expired_def Withdraw_def record_event_def wp_simps(5)
    by (rule wp_resolveIdlePublication [OF idle_paths(4) [OF lay]])
      (auto intro!: wp_EnvelopePath wp_os_remove wp_Append ok failed, (erule gone [unfolded named], assumption, assumption)+)
qed

lemma wp_next_due:
  assumes lay: "plain_segment h" "p = agent_of (team_of d) h"
    and ok: "\<And>w'. drained p (filter (run_out (now w)) (takeWhile (\<lambda>e. \<not> deliverable (now w) e) es)) w w' \<Longrightarrow>
      Q (find (deliverable (now w)) es) w'"
    and failed: "\<And>x w'. E x w'"
  shows "wp (next_due (team_of d) p a es) Q E w"
  using ok
proof (induction es arbitrary: w)
  case Nil
  then show ?case by simp
next
  case (Cons e es)
  show ?case
  proof (cases "run_out (now w) e")
    case True
    then have skip: "\<not> deliverable (now w) e" by (auto simp: deliverable_def run_out_def)
    have "wp (next_due (team_of d) p a es) Q E v" if v: "drained p [e] w v" for v
    proof (rule Cons.IH)
      fix u
      assume u: "drained p (filter (run_out (now v)) (takeWhile (\<lambda>e. \<not> deliverable (now v) e) es)) v u"
      have same: "now v = now w" using v by (simp add: drained_def)
      show "Q (find (deliverable (now v)) es) u"
        using Cons.prems [of u] drained_trans [OF v u] True skip by (simp add: same)
    qed
    then show ?thesis
      using True by (simp add: tests_agree(1), intro wp_withdraw_expired [OF lay]) (simp_all add: failed)
  next
    case False
    then have same: "deliverable (now w) e = envelope_due (now w) e" using tests_agree(1,2) by blast
    have "wp (next_due (team_of d) p a es) Q E w" if "\<not> envelope_due (now w) e"
      by (rule Cons.IH) (use Cons.prems that same False in auto)
    then show ?thesis using Cons.prems [of w] False same by (cases "envelope_due (now w) e") (simp_all add: tests_agree(1))
  qed
qed

lemma outranked_agrees:
  "outranked t pending e = (if synthetic e then case find (\<lambda>y. \<not> synthetic y \<and> deliverable t y) pending of None \<Rightarrow> e | Some y \<Rightarrow> y else e)"
  by (simp add: outranked_def tests_agree(2,3) flip: conj_assoc)

lemma picked_outranked:
  assumes "in_turn t a pending b"
  shows "picked t a pending (map_option (outranked t pending) b)"
proof -
  let ?P = "\<lambda>y. \<not> synthetic y \<and> deliverable t y"
  have found: "(\<exists>y \<in> set pending. ?P y) = (find ?P pending \<noteq> None)" by (auto simp: find_None_iff)
  show ?thesis
    unfolding picked_def
    by (rule exI [of _ b], cases b) (use assms earliest_find [of ?P pending] found in \<open>auto simp: outranked_agrees split: option.split\<close>)
qed

text \<open>
  C5 (drain_picks_exactly): a drain types next exactly what the queue, the time and the agent
  determine. When choosing succeeds, the choice is the continuation of a pending clear; otherwise
  the first startup, or resume of a completed compaction; otherwise the first envelope from its
  first instant up to its last; and a synthetic capacity continuation gives way to the first other
  message that is deliverable. The envelopes that have run out before the first deliverable one
  are out of the queue, every other stays, and nothing was put into it.
\<close>

theorem drain_picks_exactly:
  assumes "plain_segment h" "p = agent_of (team_of d) h"
    and "next_envelope (team_of d) p a pending w = (Inr chosen, w')"
  shows "picked (now w) a pending chosen \<and> drained p (passed_over (now w) a pending) w w'"
proof -
  let ?Q = "\<lambda>c v. picked (now w) a pending c \<and> drained p (passed_over (now w) a pending) w v"
  let ?last = "\<lambda>c. wp (reads now) (\<lambda>t. wp (ret (map_option (outranked t pending) c)) ?Q (\<lambda>_ _. True)) (\<lambda>_ _. True)"
  have finish: "?last c v" if "in_turn (now w) a pending c" "drained p (passed_over (now w) a pending) w v" for c v
    using picked_outranked [OF that(1)] that(2) by (auto simp: drained_def)
  have found: "(find (goes_first a) pending = None) = (\<not> (\<exists>e \<in> set pending. goes_first a e))" by (auto simp: find_None_iff)
  have "wp (next_envelope (team_of d) p a pending) ?Q (\<lambda>_ _. True) w"
    unfolding next_envelope_def wp_simps(5) reserved_agrees
  proof (cases "clearPending a \<or> (\<exists>e \<in> set pending. goes_first a e)")
    case True
    have none: "passed_over (now w) a pending = []" using True by (simp add: passed_over_def tests_agree(4))
    show "wp (if clearPending a then ret (find (clear_continuation a) pending)
       else case find (goes_first a) pending of None \<Rightarrow> next_due (team_of d) p a pending | Some e \<Rightarrow> ret (Some e)) ?last (\<lambda>_ _. True) w"
    proof (cases "clearPending a")
      case True
      then have "in_turn (now w) a pending (find (clear_continuation a) pending)"
        using earliest_find [of "clear_continuation a" pending] by (simp add: in_turn_def tests_agree(4) continuation_agrees)
      from finish [OF this, of w] show ?thesis using True none by simp
    next
      case False
      then obtain e where e: "find (goes_first a) pending = Some e" using True found by (cases "find (goes_first a) pending") auto
      then have "in_turn (now w) a pending (Some e)"
        using earliest_find [of "goes_first a" pending] False True by (auto simp: in_turn_def tests_agree(4))
      from finish [OF this, of w] show ?thesis using False e none by simp
    qed
  next
    case False
    have "in_turn (now w) a pending (find (deliverable (now w)) pending)"
      using False earliest_find [of "deliverable (now w)" pending] unfolding in_turn_def tests_agree(4) [symmetric] by simp
    moreover have "passed_over (now w) a pending = filter (run_out (now w)) (takeWhile (\<lambda>e. \<not> deliverable (now w) e) pending)"
      using False unfolding passed_over_def tests_agree(4) [symmetric] by simp
    ultimately have "wp (next_due (team_of d) p a pending) ?last (\<lambda>_ _. True) w"
      using finish by (intro wp_next_due [OF assms(1,2)]) simp_all
    then show "wp (if clearPending a then ret (find (clear_continuation a) pending)
       else case find (goes_first a) pending of None \<Rightarrow> next_due (team_of d) p a pending | Some e \<Rightarrow> ret (Some e)) ?last (\<lambda>_ _. True) w"
      using False found by simp
  qed
  then show ?thesis using assms(3) by (auto simp: wp_def)
qed

definition demo_expired :: envelope where
  "demo_expired = (demo_envelope ''m1'')\<lparr>env_not_after := second\<rparr>"

text \<open>A startup is typed before an expired message, which the drain has not come to.\<close>

definition demo_startup :: envelope where
  "demo_startup = (demo_envelope ''m2'')\<lparr>env_purpose := ''startup''\<rparr>"

theorem drain_picks_exactly_witness:
  "picked (now demo_settle_world) demo_hitch [demo_expired, demo_startup] (Some demo_startup)
   \<and> drained demo_paths (passed_over (now demo_settle_world) demo_hitch [demo_expired, demo_startup]) demo_settle_world demo_settle_world"
proof (rule drain_picks_exactly [OF plain_h1 demo_paths_def])
  have a: "\<not> clearPending demo_hitch" "ag_compaction demo_hitch = None"
    by (simp_all add: clearPending_def demo_hitch_def blank_agent_def)
  have kinds: "env_purpose demo_startup = ''startup''" "env_purpose demo_expired = ''''" "snd_kind (env_from demo_startup) \<noteq> SenderGangline"
    by (simp_all add: demo_startup_def demo_expired_def demo_envelope_def blank_envelope_def blank_sender_def SenderGangline_def)
  have reserved: "\<not> reserved_input demo_hitch demo_expired" "reserved_input demo_hitch demo_startup"
    by (simp_all add: reserved_input_def completedResume_def isStartupEnvelope_def kinds a)
  show "next_envelope (team_of [''t'']) demo_paths demo_hitch [demo_expired, demo_startup] demo_settle_world
      = (Inr (Some demo_startup), demo_settle_world)"
    by (simp add: next_envelope_def a reserved and_then_def ret_def reads_def outranked_def capacityEnvelope_def kinds)
qed

end
