(* ===== verification/Delivery_Typing.thy ===== *)
theory Delivery_Typing
  imports Delivery_Queue
begin

text \<open>
  Typing an envelope into the recipient's pane (\<^verbatim>\<open>deliver\<close> in \<^verbatim>\<open>cmd/gang/delivery.go\<close>, with
  \<^verbatim>\<open>withdrawPaste\<close>, \<^verbatim>\<open>awaitReceipt\<close> of \<^verbatim>\<open>witness.go\<close>, \<^verbatim>\<open>clearComposerDraft\<close> of \<^verbatim>\<open>compaction.go\<close>,
  \<^verbatim>\<open>startupSubmitPossible\<close> and \<^verbatim>\<open>capacityTurn\<close>). The terminal is a record of actions, which may
  change the world: while they run, the harness may submit, and its hooks write the witness file.
\<close>

section \<open>The terminal and the collar\<close>

record keystrokes =
  key_text :: string
  key_names :: "string list"
  key_submit :: bool

text \<open>What the readers of the harness report of one captured screen.\<close>

record screen_view =
  view_blocked :: "err + string option"
  view_compacting :: "err + bool"
  view_composer :: "err + string \<times> string"
  view_idle :: "err + bool"
  view_print :: string

text \<open>
  The registered pane of the agent: whether it is there, what its screen shows, whether the
  harness is in its foreground, sending keys, whether its own queue shows an opener,
  waiting for a paste to settle, watching the witness file, waiting for a change of it (or for
  the next look at the queue; an error when the deadline passed), closing the watch, waiting for a
  repaint, and titling the pane. \<^theory_text>\<open>tm_patience\<close> bounds how many receipts, and how many looks at one,
  fit before the deadline.
\<close>

record terminal =
  tm_recipient :: "agent \<Rightarrow> unit io"
  tm_view :: "screen_view io"
  tm_foreground :: "unit io"
  tm_keys :: "keystrokes \<Rightarrow> unit io"
  tm_queued :: "string \<Rightarrow> bool io"
  tm_settle :: "string \<Rightarrow> string \<Rightarrow> unit io"
  tm_watch :: "unit io"
  tm_wait :: "unit io"
  tm_close :: "unit io"
  tm_repaint :: "string \<Rightarrow> unit io"
  tm_mark :: "agent \<Rightarrow> unit io"
  tm_patience :: nat

text \<open>The parts of the loaded collar that typing uses, and what stamping takes from outside.\<close>

record typing_collar =
  col_submit :: "string \<Rightarrow> err + keystrokes"
  col_bracketed :: bool
  col_midturn :: bool
  col_queue :: bool
  col_witness :: invocation
  col_clear :: "keystrokes option"

record stamping =
  st_round :: "float64 \<Rightarrow> float64"
  st_draws :: "uint64 \<Rightarrow> string"
  st_bands :: band_map
  st_telemetry :: bool
  st_readings :: "reading \<times> reading list"

definition ErrComposerReplaced :: err where
  "ErrComposerReplaced = Fail ''native composer holds other text before submission''"

definition ErrComposerEmptied :: err where
  "ErrComposerEmptied = Fail ''native composer emptied before submission''"

definition deadline_exceeded :: err where
  "deadline_exceeded = Fail ''context deadline exceeded''"

definition no_witness :: witness where
  "no_witness = \<lparr>wit_id = '''', wit_at = zero_time, wit_prompt = '''', wit_session_id = '''', wit_turn_id = '''', wit_transcript = ''''\<rparr>"

definition sendHarnessKeys :: "terminal \<Rightarrow> keystrokes \<Rightarrow> unit io" where
  "sendHarnessKeys tm keys = and_then (tm_foreground tm) (\<lambda>_. tm_keys tm keys)"

definition refuseNativePrompt :: "terminal \<Rightarrow> unit io" where
  "refuseNativePrompt tm =
     and_then (tm_view tm) (\<lambda>v. case view_blocked v of
         Inl err \<Rightarrow> raise err
       | Inr (Some prompt) \<Rightarrow> raise (Fail (''native prompt needs attention after paste: '' @ prompt))
       | Inr None \<Rightarrow> ret ())"

definition submit_key :: keystrokes where
  "submit_key = \<lparr>key_text = '''', key_names = [], key_submit = True\<rparr>"

definition startupPasteSafe :: "keystrokes \<Rightarrow> string \<Rightarrow> bool" where
  "startupPasteSafe input wire \<longleftrightarrow> \<not> key_submit input \<and> key_names input = []
     \<and> key_text input = CHR 0x1B # ''[200~'' @ wire @ CHR 0x1B # ''[201~''"

text \<open>\<^verbatim>\<open>wire[:strings.Index(wire, "]")+1]\<close>.\<close>

definition opener_of :: "string \<Rightarrow> string" where
  "opener_of wire = (if CHR '']'' \<in> set wire then takeWhile (\<lambda>c. c \<noteq> CHR '']'') wire @ '']'' else '''')"

definition midTurnMessage :: "typing_collar \<Rightarrow> envelope \<Rightarrow> bool" where
  "midTurnMessage col e \<longleftrightarrow> col_midturn col \<and> env_purpose e = '''' \<and> \<not> isContextBandNotice e \<and> \<not> isResumeEnvelope e"

definition queue_seen :: "terminal \<Rightarrow> string \<Rightarrow> bool io" where
  "queue_seen tm opener = and_then (tm_foreground tm) (\<lambda>_. tm_queued tm opener)"

section \<open>Startup pastes and capacity turns\<close>

definition sync_file :: "path \<Rightarrow> unit io" where
  "sync_file q =
     and_then (os_stat q) (\<lambda>_.
     and_then (attempt sys) (\<lambda>s. and_then (attempt sys) (\<lambda>c.
       case errs_of s @ errs_of c of [] \<Rightarrow> ret () | es \<Rightarrow> raise (Joined es))))"

text \<open>The envelope loses its paste-only record also when this fails.\<close>

definition startupSubmitPossible :: "agent_paths \<Rightarrow> envelope \<Rightarrow> unit io" where
  "startupSubmitPossible p e =
     (if env_paste_only e = None then ret ()
      else and_then (Publish p (e\<lparr>env_paste_only := None\<rparr>)) (\<lambda>_.
        and_then (EnvelopePath p ''new'' (env_id e)) (\<lambda>path.
        and_then (EnvelopePath p ''failed'' (env_id e)) (\<lambda>failed_path.
          for_each sync_file [path, butlast path, butlast failed_path]))))"

record capacity_turn =
  turn_session :: string
  turn_id :: string
  turn_failure :: string
  turn_prompt :: string

definition turn_fingerprint :: "codec \<Rightarrow> capacity_turn \<Rightarrow> string" where
  "turn_fingerprint c t =
     (if turn_session t = '''' \<or> turn_id t = '''' then ''''
      else sha256_hex c (''native'' @ [CHR 0x00] @ turn_session t @ [CHR 0x00] @ turn_id t))"

definition capacityTurn :: "agent_paths \<Rightarrow> agent \<Rightarrow> capacity_turn io" where
  "capacityTurn p a =
     and_then (attempt (ReadWitness p)) (\<lambda>r.
       let t0 = \<lparr>turn_session = nat_session_id (ag_native a), turn_id = nat_turn_id (ag_native a), turn_failure = '''', turn_prompt = ''''\<rparr>;
           judged = (\<lambda>t. if turn_session t = nat_session_id (ag_native a) \<and> turn_id t = nat_failed_turn (ag_native a)
             then t\<lparr>turn_failure := nat_turn_failure (ag_native a)\<rparr> else t)
       in case r of
         Inl x \<Rightarrow> if \<not> errors_is x NotExist then raise x else ret (judged t0)
       | Inr w \<Rightarrow> ret (judged (t0\<lparr>turn_session := wit_session_id w, turn_id := wit_turn_id w, turn_prompt := wit_prompt w\<rparr>)))"

definition capacity_still_due :: "agent_paths \<Rightarrow> agent \<Rightarrow> envelope \<Rightarrow> unit io" where
  "capacity_still_due p a e =
     (if \<not> capacityEnvelope e then ret ()
      else and_then (capacityTurn p a) (\<lambda>turn.
        and_then (reads codec_of) (\<lambda>c.
        and_then (reads now) (\<lambda>t.
          if turn_fingerprint c turn \<noteq> '''' \<and> env_id e \<noteq> ''capacity-'' @ turn_fingerprint c turn
          then raise (Fail ''capacity continuation withheld after another native turn submitted; pasted input may remain in the composer'')
          else if \<not> t < cap_deadline (ag_capacity a)
          then raise (Fail ''capacity continuation withheld at its deadline; pasted input may remain in the composer'')
          else ret ()))))"

section \<open>Waiting for the receipt\<close>

definition receipt_wait :: "terminal \<Rightarrow> string option \<Rightarrow> (witness \<times> bool) io \<Rightarrow> (witness \<times> bool) io" where
  "receipt_wait tm queue again =
     (let waited = and_then (attempt (tm_wait tm)) (\<lambda>v. and_then (attempt (tm_close tm)) (\<lambda>c.
          case v of Inl x \<Rightarrow> raise x | Inr _ \<Rightarrow> (case c of Inl y \<Rightarrow> raise y | Inr _ \<Rightarrow> again)))
      in case queue of
        None \<Rightarrow> waited
      | Some opener \<Rightarrow> and_then (attempt (queue_seen tm opener)) (\<lambda>q.
          if q = Inr False then waited
          else and_then (attempt (tm_close tm)) (\<lambda>c.
            case errs_of q @ errs_of c of [] \<Rightarrow> ret (no_witness, True) | es \<Rightarrow> raise (Joined es))))"

fun awaitReceipt :: "terminal \<Rightarrow> agent_paths \<Rightarrow> string option \<Rightarrow> string \<Rightarrow> nat \<Rightarrow> (witness \<times> bool) io" where
  "awaitReceipt tm p queue before 0 = raise deadline_exceeded"
| "awaitReceipt tm p queue before (Suc n) =
     and_then (tm_watch tm) (\<lambda>_.
     and_then (attempt (ReadWitness p)) (\<lambda>r. case r of
       Inr w \<Rightarrow>
         if wit_id w \<noteq> before then and_then (attempt (tm_close tm)) (\<lambda>_. ret (w, False))
         else receipt_wait tm queue (awaitReceipt tm p queue before n)
     | Inl x \<Rightarrow>
         if \<not> errors_is x NotExist then and_then (attempt (tm_close tm)) (\<lambda>_. raise x)
         else receipt_wait tm queue (awaitReceipt tm p queue before n)))"

definition hook_proof :: "agent_paths \<Rightarrow> envelope \<Rightarrow> string \<Rightarrow> (witness \<times> bool) io" where
  "hook_proof p e old =
     (let unproved = raise (Fail (if isResumeEnvelope e then ''native continuation submitted; awaiting exact hook proof''
          else ''context-band submit hook is not yet available''))
      in and_then (attempt (ReadWitness p)) (\<lambda>r. case r of
           Inl x \<Rightarrow> if errors_is x NotExist then unproved else raise x
         | Inr w \<Rightarrow> if wit_id w = old then unproved else ret (w, False)))"

definition late_receipt :: "env \<Rightarrow> err \<Rightarrow> err" where
  "late_receipt rt x = (if errors_is x deadline_exceeded
     then Fail (''submit key sent; no submit hook confirmed this message in time: '' @ rt_error_text rt x) else x)"

text \<open>One receipt: the error, whether the native queue accepted, the witness, the agent and the envelope.\<close>

type_synonym receipt_proof = "err option \<times> bool \<times> witness \<times> agent \<times> envelope"

definition judge_receipt :: "env \<Rightarrow> typing_collar \<Rightarrow> string \<Rightarrow> (string \<Rightarrow> agent \<Rightarrow> envelope \<Rightarrow> receipt_proof io) \<Rightarrow> witness \<Rightarrow> agent \<Rightarrow> envelope
    \<Rightarrow> receipt_proof io" where
  "judge_receipt rt col wire again w a e =
     (case SubmittedPromptStartsWith (col_witness col) wire (wit_prompt w) of
        Inl x \<Rightarrow> ret (Some x, False, w, a, e)
      | Inr matched \<Rightarrow>
          if matched then ret (None, False, w, a, e)
          else
            let e1 = e\<lparr>env_witnessed := wit_prompt w\<rparr>;
                mismatch = Fail ''submit witness does not match the message text and one-time token''
            in if midTurnMessage col e
               then (case followNativeSession rt a (wit_session_id w) (wit_transcript w) of
                   Inl x \<Rightarrow> ret (Some x, False, w, a, e1)
                 | Inr (same, a1) \<Rightarrow> if same then again (wit_id w) a1 e1 else ret (Some mismatch, False, w, a1, e1))
               else ret (Some mismatch, False, w, a, e1))"

definition await_round :: "env \<Rightarrow> terminal \<Rightarrow> typing_collar \<Rightarrow> agent_paths \<Rightarrow> string \<Rightarrow> string option \<Rightarrow> string
    \<Rightarrow> (string \<Rightarrow> agent \<Rightarrow> envelope \<Rightarrow> receipt_proof io) \<Rightarrow> string \<Rightarrow> agent \<Rightarrow> envelope \<Rightarrow> receipt_proof io" where
  "await_round rt tm col p wire queue old again before a e =
     (let by_hook = isContextBandNotice e \<or> isResumeEnvelope e in
      and_then (attempt (if by_hook then hook_proof p e old else awaitReceipt tm p queue before (tm_patience tm))) (\<lambda>r. case r of
        Inl x \<Rightarrow> ret (Some (if by_hook then x else late_receipt rt x), False, no_witness, a, e)
      | Inr (w, accepted) \<Rightarrow> if accepted then ret (None, True, w, a, e) else judge_receipt rt col wire again w a e))"

fun await_input :: "env \<Rightarrow> terminal \<Rightarrow> typing_collar \<Rightarrow> agent_paths \<Rightarrow> string \<Rightarrow> string option \<Rightarrow> string \<Rightarrow> nat
    \<Rightarrow> string \<Rightarrow> agent \<Rightarrow> envelope \<Rightarrow> receipt_proof io" where
  "await_input rt tm col p wire queue old 0 before a e = ret (Some deadline_exceeded, False, no_witness, a, e)"
| "await_input rt tm col p wire queue old (Suc n) before a e =
     await_round rt tm col p wire queue old (await_input rt tm col p wire queue old n) before a e"

section \<open>Withdrawing a paste\<close>

fun clear_rounds :: "terminal \<Rightarrow> keystrokes \<Rightarrow> nat \<Rightarrow> string \<Rightarrow> unit io" where
  "clear_rounds tm keys 0 shown = raise (Fail ''the composer still holds the unsubmitted input after clearing'')"
| "clear_rounds tm keys (Suc n) shown =
     and_then (sendHarnessKeys tm keys) (\<lambda>_.
     and_then (tm_repaint tm shown) (\<lambda>_.
     and_then (tm_view tm) (\<lambda>v. case view_composer v of
         Inl x \<Rightarrow> raise x
       | Inr (text, owner) \<Rightarrow> if text = '''' then ret () else clear_rounds tm keys n text)))"

definition clearComposerDraft :: "terminal \<Rightarrow> typing_collar \<Rightarrow> string \<Rightarrow> unit io" where
  "clearComposerDraft tm col draft =
     (case col_clear col of
        None \<Rightarrow> raise (Fail ''the collar declares no compact clear keys; the composer still holds the unsubmitted input'')
      | Some keys \<Rightarrow> clear_rounds tm keys (2 * (length (filter (\<lambda>c. c = CHR 0x0A) draft) + 1)) draft)"

definition paste_remains :: string where
  "paste_remains = ''; the pasted input may remain in the composer''"

definition withdrawPaste :: "env \<Rightarrow> terminal \<Rightarrow> typing_collar \<Rightarrow> string \<Rightarrow> (string \<times> string \<times> bool) io" where
  "withdrawPaste rt tm col reason =
     (let unread = (\<lambda>x. ret (''unverified'', reason @ paste_remains @ ''; composer unread: '' @ rt_error_text rt x, True)) in
      if \<not> col_bracketed col then ret (''unverified'', reason, False)
      else and_then (attempt (tm_view tm)) (\<lambda>r. case r of
          Inl x \<Rightarrow> unread x
        | Inr v \<Rightarrow>
            (case view_blocked v of
               Inl x \<Rightarrow> unread x
             | Inr (Some _) \<Rightarrow> ret (''unverified'', reason @ paste_remains @ '' behind a native prompt'', True)
             | Inr None \<Rightarrow>
                 (case view_composer v of
                    Inl x \<Rightarrow> unread x
                  | Inr (text, owner) \<Rightarrow>
                      if text = '''' then ret (''unverified'', reason, False)
                      else if col_clear col = None
                      then ret (''unverified'', reason @ ''; the pasted input remains in the composer and the collar declares no clear keys'', True)
                      else and_then (attempt (clearComposerDraft tm col text)) (\<lambda>c. case c of
                          Inl x \<Rightarrow> ret (''unverified'', reason @ paste_remains @ ''; '' @ rt_error_text rt x, True)
                        | Inr _ \<Rightarrow> ret (''failed'', reason @ ''; the pasted input was withdrawn from the composer'', False))))))"

section \<open>Typing\<close>

definition paste_input :: "terminal \<Rightarrow> agent_paths \<Rightarrow> keystrokes \<Rightarrow> string \<Rightarrow> string \<Rightarrow> agent \<Rightarrow> envelope \<Rightarrow> (err option \<times> envelope) io" where
  "paste_input tm p input wire owner a e =
     and_then (attempt (and_then (sendHarnessKeys tm input) (\<lambda>_. and_then (tm_settle tm wire owner) (\<lambda>_. refuseNativePrompt tm)))) (\<lambda>r. case r of
       Inl x \<Rightarrow> ret (Some x, e)
     | Inr _ \<Rightarrow>
         let e1 = e\<lparr>env_paste_only := None\<rparr> in
         and_then (attempt (and_then (startupSubmitPossible p e) (\<lambda>_. capacity_still_due p a e))) (\<lambda>r. ret (failure_of r, e1)))"

text \<open>The error, whether the submit key was sent, and the proof.\<close>

definition type_keys :: "env \<Rightarrow> terminal \<Rightarrow> typing_collar \<Rightarrow> agent_paths \<Rightarrow> string \<Rightarrow> string \<Rightarrow> keystrokes \<Rightarrow> string option \<Rightarrow> string
    \<Rightarrow> agent \<Rightarrow> envelope \<Rightarrow> (bool \<times> receipt_proof) io" where
  "type_keys rt tm col p wire owner input queue old a e =
     and_then (paste_input tm p input wire owner a e) (\<lambda>(x, e1). case x of
       Some err \<Rightarrow> ret (False, Some err, False, no_witness, a, e1)
     | None \<Rightarrow> and_then (attempt (sendHarnessKeys tm submit_key)) (\<lambda>s. case s of
         Inl err \<Rightarrow> ret (True, Some err, False, no_witness, a, e1)
       | Inr _ \<Rightarrow> and_then (await_input rt tm col p wire queue old (tm_patience tm) old a e1) (\<lambda>answer. ret (True, answer))))"

text \<open>Outcome, reason, whether the composer may hold the input, whether it was withdrawn, the agent and the envelope.\<close>

type_synonym verdict = "err option \<times> string \<times> string \<times> bool \<times> bool \<times> agent \<times> envelope"

definition judge_input :: "env \<Rightarrow> terminal \<Rightarrow> typing_collar \<Rightarrow> agent_paths \<Rightarrow> bool \<times> receipt_proof \<Rightarrow> verdict io" where
  "judge_input rt tm col p = (\<lambda>(submitted, x, accepted, w, a, e).
     case x of
       Some err \<Rightarrow>
         let reason = rt_error_text rt err in
         if errors_is err ErrComposerReplaced then ret (None, ''unverified'', reason, True, False, a, e)
         else if \<not> submitted \<and> withdrawable e \<and> \<not> errors_is err ErrComposerEmptied
         then and_then (withdrawPaste rt tm col reason) (\<lambda>(outcome, why, holding). ret (None, outcome, why, holding, outcome = ''failed'', a, e))
         else ret (None, ''unverified'', reason, False, False, a, e)
     | None \<Rightarrow>
         if accepted
         then ret (None, ''accepted'', ''native queue shows sender and one-time token; do not resend'', False, False, a, e\<lparr>env_witnessed := ''''\<rparr>)
         else and_then (reconcileClear rt p a) (\<lambda>(y, a1). case y of
             Some err \<Rightarrow> ret (Some err, ''unverified'', '''', False, False, a1, e)
           | None \<Rightarrow>
               (case followNativeSession rt a1 (wit_session_id w) (wit_transcript w) of
                  Inl err \<Rightarrow> ret (None, ''unverified'', rt_error_text rt err, False, False, a1, e)
                | Inr (same, a2) \<Rightarrow>
                    if \<not> same then ret (None, ''unverified'', ''submit witness belongs to another native session'', False, False, a2, e)
                    else ret (None, ''delivered'', '''', False, False, witnessed_turn a2 w, e\<lparr>env_witnessed := ''''\<rparr>))))"

type_synonym delivery = "err option \<times> agent \<times> string \<times> bool"

definition withdrawn_notice :: "agent \<Rightarrow> envelope \<Rightarrow> string \<Rightarrow> string" where
  "withdrawn_notice a e reason = ''A message from '' @ senderLabel (env_from e) @ '' to '' @ ag_name a
     @ '', which you hitched, was withdrawn from its composer and not delivered: '' @ reason @ ''.''"

definition held_notice :: "agent \<Rightarrow> string \<Rightarrow> string" where
  "held_notice a reason = ''A message to '' @ ag_name a @ '', which you hitched, is unverified: '' @ reason @ ''. Messages to '' @ ag_name a
     @ '' wait while its composer holds input; gang capture --composer '' @ ag_name a @ '' shows it.''"

definition conclude :: "env \<Rightarrow> terminal \<Rightarrow> (agent \<Rightarrow> agent_io) \<Rightarrow> agent_paths \<Rightarrow> witness \<Rightarrow> verdict \<Rightarrow> delivery io" where
  "conclude rt tm native_pending p w = (\<lambda>(x, outcome, reason, holding, withdrawn, a, e).
     case x of
       Some err \<Rightarrow> ret (Some err, a, outcome, False)
     | None \<Rightarrow>
     and_then (finishInput rt p a e outcome reason (Some w)) (\<lambda>(x, a1). case x of
       Some err \<Rightarrow> ret (Some err, a1, outcome, withdrawn)
     | None \<Rightarrow>
     and_then (if outcome = ''unverified'' then reconcileDelivery rt native_pending p a1 else proceed a1) (\<lambda>(x, a2). case x of
       Some err \<Rightarrow> ret (Some err, a2, outcome, withdrawn)
     | None \<Rightarrow>
     let final = (if outcome = ''unverified'' \<and> ag_last_delivered a2 = env_id e then ''delivered'' else outcome) in
     and_then (attempt (if withdrawn then notifyHitcher rt a2 (''withdrawn-'' @ env_id e) (withdrawn_notice a2 e reason)
         else if holding \<and> final = ''unverified'' then notifyHitcher rt a2 (''held-input-'' @ env_id e) (held_notice a2 reason)
         else ret ())) (\<lambda>told. case told of
       Inl err \<Rightarrow> ret (Some err, a2, final, withdrawn)
     | Inr _ \<Rightarrow> and_then (attempt (tm_mark tm a2)) (\<lambda>m. ret (failure_of m, a2, final, withdrawn))))))"

definition refuse_hazard :: "env \<Rightarrow> terminal \<Rightarrow> agent_paths \<Rightarrow> agent \<Rightarrow> envelope \<Rightarrow> string \<Rightarrow> delivery io" where
  "refuse_hazard rt tm p a e reason =
     and_then (finishInput rt p a e ''failed'' reason None) (\<lambda>(x, a1). case x of
       Some err \<Rightarrow> ret (Some err, a1, ''failed'', False)
     | None \<Rightarrow> and_then (attempt (tm_mark tm a1)) (\<lambda>m. ret (failure_of m, a1, ''failed'', False)))"

text \<open>What follows the intent.\<close>

definition type_input :: "env \<Rightarrow> terminal \<Rightarrow> typing_collar \<Rightarrow> (agent \<Rightarrow> agent_io) \<Rightarrow> agent_paths \<Rightarrow> string \<Rightarrow> string \<Rightarrow> keystrokes
    \<Rightarrow> string option \<Rightarrow> string \<Rightarrow> agent \<Rightarrow> envelope \<Rightarrow> delivery io" where
  "type_input rt tm col native_pending p wire owner input queue old a e =
     (let hazard = (case PasteHazard (rt_unicode rt) (col_witness col) wire of Inl x \<Rightarrow> Some (rt_error_text rt x)
          | Inr reason \<Rightarrow> if reason = '''' then None else Some reason);
          startup = isStartupEnvelope e \<and> startupPasteSafe input wire;
          e1 = (if startup then e\<lparr>env_paste_only := Some \<lparr>paste_witness_id = old\<rparr>\<rparr> else e)
      in case hazard of
        Some reason \<Rightarrow> refuse_hazard rt tm p a e reason
      | None \<Rightarrow>
          and_then (attempt (if startup then Publish p e1 else ret ())) (\<lambda>r. case r of
            Inl x \<Rightarrow> ret (Some x, a, '''', False)
          | Inr _ \<Rightarrow>
              and_then (type_keys rt tm col p wire owner input queue old a e1) (\<lambda>typed.
              and_then (judge_input rt tm col p typed) (\<lambda>verdict.
                conclude rt tm native_pending p (fst (snd (snd (snd typed)))) verdict))))"

definition fresh_in_queue :: "terminal \<Rightarrow> string option \<Rightarrow> unit io" where
  "fresh_in_queue tm queue =
     (case queue of
        None \<Rightarrow> ret ()
      | Some opener \<Rightarrow> and_then (queue_seen tm opener) (\<lambda>seen.
          if seen then raise (Fail ''message already appears in native queue before input; inspect the recipient; do not resend'') else ret ()))"

text \<open>The witness before input; a missing one has the empty ID.\<close>

definition earlier_witness :: "agent_paths \<Rightarrow> string io" where
  "earlier_witness p =
     and_then (attempt (ReadWitness p)) (\<lambda>r. case r of
       Inr w \<Rightarrow> ret (wit_id w)
     | Inl x \<Rightarrow> if errors_is x NotExist then ret '''' else raise x)"

definition deliver_stamped :: "env \<Rightarrow> terminal \<Rightarrow> typing_collar \<Rightarrow> (agent \<Rightarrow> agent_io) \<Rightarrow> agent_paths \<Rightarrow> string \<Rightarrow> agent \<Rightarrow> envelope \<Rightarrow> delivery io" where
  "deliver_stamped rt tm col native_pending p owner a e =
     (case envelopeText (rt_unicode rt) e of
        Inl x \<Rightarrow> ret (Some x, a, '''', False)
      | Inr wire \<Rightarrow> (case col_submit col wire of
            Inl x \<Rightarrow> ret (Some x, a, '''', False)
          | Inr input \<Rightarrow>
              let queue = (if col_queue col \<and> midTurnMessage col e then Some (opener_of wire) else None) in
              and_then (attempt (and_then (fresh_in_queue tm queue) (\<lambda>_. earlier_witness p))) (\<lambda>r. case r of
                Inl x \<Rightarrow> ret (Some x, a, '''', False)
              | Inr old \<Rightarrow>
                  and_then (run_apply rt p a (blank_event\<lparr>ev_type := ''input_started'', ev_id := env_id e, ev_status := ''envelope''\<rparr>)) (\<lambda>(x, a1). case x of
                    Some err \<Rightarrow> ret (Some err, a1, '''', False)
                  | None \<Rightarrow> type_input rt tm col native_pending p wire owner input queue old a1 e))))"

definition deliver :: "env \<Rightarrow> terminal \<Rightarrow> typing_collar \<Rightarrow> stamping \<Rightarrow> (agent \<Rightarrow> agent_io) \<Rightarrow> agent_paths \<Rightarrow> string \<Rightarrow> agent \<Rightarrow> envelope \<Rightarrow> delivery io" where
  "deliver rt tm col st native_pending p owner a e =
     and_then (attempt (tm_recipient tm a)) (\<lambda>r. case r of
       Inl x \<Rightarrow> ret (Some x, a, '''', False)
     | Inr _ \<Rightarrow>
         and_then (stampEnvelope (st_round st) (rt_unicode rt) (rt_team rt) p (st_draws st) (st_bands st) (st_telemetry st) (st_readings st) a e)
           (\<lambda>(x, a1, e1). case x of
             Some err \<Rightarrow> ret (Some err, a1, '''', False)
           | None \<Rightarrow> deliver_stamped rt tm col native_pending p owner a1 e1))"

section \<open>Whether the composer takes input\<close>

definition operationTimeout :: duration where
  "operationTimeout = 30 * second"

text \<open>The text of a status, as \<^verbatim>\<open>core/agent.go\<close> declares it.\<close>

fun status_text :: "status \<Rightarrow> string" where
  "status_text Starting = ''starting''"
| "status_text Booting = ''booting''"
| "status_text Active = ''active''"
| "status_text Dropping = ''dropping''"
| "status_text Failed = ''failed''"
| "status_text (StatusOther s) = s"

definition continuationQueued :: "compaction \<Rightarrow> time \<Rightarrow> bool" where
  "continuationQueued c t \<longleftrightarrow> cmp_status c = ''completed'' \<and> cmp_continuation c \<and> \<not> cmp_resume_admitted c
     \<and> t < cmp_completed_at c + operationTimeout"

definition activityBasis :: "agent \<Rightarrow> string \<Rightarrow> string \<Rightarrow> activity_basis" where
  "activityBasis a screen rule = \<lparr>bas_screen = screen, bas_rule = rule,
     bas_compaction = (case ag_compaction a of None \<Rightarrow> '''' | Some c \<Rightarrow> cmp_status c)\<rparr>"

record input_verdict =
  inp_free :: bool
  inp_blocker :: string
  inp_reason :: string
  inp_owner :: string

definition refused_input :: "string \<Rightarrow> input_verdict" where
  "refused_input reason = \<lparr>inp_free = False, inp_blocker = '''', inp_reason = reason, inp_owner = ''''\<rparr>"

text \<open>A resume note that waits in the harness's own queue ahead of this input, unless it is still in ours.\<close>

definition resume_ahead :: "typing_collar \<Rightarrow> agent_paths \<Rightarrow> agent \<Rightarrow> bool io" where
  "resume_ahead col p a =
     (case ag_compaction a of
        None \<Rightarrow> ret False
      | Some c \<Rightarrow> and_then (reads now) (\<lambda>t.
          if col_queue col \<or> \<not> continuationQueued c t then ret False
          else and_then (attempt (ReadEnvelope p ''new'' (''resume-'' @ cmp_id c))) (\<lambda>r. case r of
              Inl x \<Rightarrow> if \<not> errors_is x NotExist then raise x else ret True
            | Inr e \<Rightarrow> ret (\<not> completedResume a e))))"

type_synonym input_result = "err option \<times> agent \<times> input_verdict"

definition note_blocked :: "env \<Rightarrow> agent_paths \<Rightarrow> agent \<Rightarrow> screen_view \<Rightarrow> string \<Rightarrow> agent_io" where
  "note_blocked rt p a v prompt =
     (if ag_activity a \<noteq> Blocked \<or> ag_evidence a \<noteq> prompt
      then run_apply rt p a (blank_event\<lparr>ev_type := ''activity_observed'', ev_activity := Blocked, ev_reason := prompt,
        ev_fingerprint := view_print v, ev_basis := Some (activityBasis a ''blocked'' ''screen'')\<rparr>)
      else proceed a)"

definition composer_state :: "terminal \<Rightarrow> typing_collar \<Rightarrow> screen_view \<Rightarrow> input_verdict io" where
  "composer_state tm col v =
     and_then (lift (view_compacting v)) (\<lambda>compacting.
       if compacting then ret (refused_input ''recipient is compacting; its harness defers queued input'')
       else and_then (lift (view_composer v)) (\<lambda>(text, owner).
         if text \<noteq> '''' then ret (refused_input ''composer holds unsent input'')
         else and_then (if col_midturn col then ret True else lift (view_idle v)) (\<lambda>idle.
           if \<not> idle then ret (refused_input ''recipient is mid-turn and its harness takes input only when idle'')
           else and_then (tm_foreground tm) (\<lambda>_.
             ret \<lparr>inp_free = True, inp_blocker = '''', inp_reason = '''', inp_owner = owner\<rparr>))))"

definition screen_state :: "env \<Rightarrow> terminal \<Rightarrow> typing_collar \<Rightarrow> agent_paths \<Rightarrow> agent \<Rightarrow> input_result io" where
  "screen_state rt tm col p a =
     and_then (attempt (tm_view tm)) (\<lambda>r. case r of
       Inl x \<Rightarrow> ret (Some x, a, refused_input '''')
     | Inr v \<Rightarrow> (case view_blocked v of
           Inl x \<Rightarrow> ret (Some x, a, refused_input '''')
         | Inr (Some prompt) \<Rightarrow> and_then (note_blocked rt p a v prompt) (\<lambda>(x, a1).
             ret (case x of Some err \<Rightarrow> (Some err, a1, refused_input '''')
               | None \<Rightarrow> (None, a1, (refused_input prompt)\<lparr>inp_blocker := prompt\<rparr>)))
         | Inr None \<Rightarrow> and_then (attempt (composer_state tm col v)) (\<lambda>s.
             ret (case s of Inl x \<Rightarrow> (Some x, a, refused_input '''') | Inr verdict \<Rightarrow> (None, a, verdict)))))"

definition inputState :: "env \<Rightarrow> terminal \<Rightarrow> typing_collar \<Rightarrow> agent_paths \<Rightarrow> agent \<Rightarrow> input_result io" where
  "inputState rt tm col p a =
     and_then (attempt (tm_recipient tm a)) (\<lambda>r. case r of
       Inl x \<Rightarrow> ret (Some x, a, refused_input '''')
     | Inr _ \<Rightarrow>
         if ag_status a \<noteq> Active then ret (None, a, refused_input (''recipient is '' @ status_text (ag_status a)))
         else if ag_activity a = Interrupting then ret (None, a, refused_input ''recipient is being interrupted'')
         else if (case ag_compaction a of None \<Rightarrow> False | Some c \<Rightarrow> cmp_status c = ''submitted'')
         then ret (None, a, refused_input ''compaction request awaits the harness'')
         else and_then (attempt (resume_ahead col p a)) (\<lambda>q. case q of
             Inl x \<Rightarrow> ret (Some x, a, refused_input '''')
           | Inr ahead \<Rightarrow>
               if ahead then ret (None, a, refused_input ''compaction continuation waits in the harness's queue ahead of this input'')
               else screen_state rt tm col p a))"

definition available :: "env \<Rightarrow> terminal \<Rightarrow> typing_collar \<Rightarrow> agent_paths \<Rightarrow> agent \<Rightarrow> (err option \<times> agent \<times> bool \<times> string) io" where
  "available rt tm col p a =
     and_then (inputState rt tm col p a) (\<lambda>(x, a1, v). ret (x, a1, inp_free v, inp_blocker v))"

end
