(* ===== verification/Delivery_Intent.thy ===== *)
theory Delivery_Intent
  imports Delivery_Typing
begin

text \<open>
  Keys reach the recipient's pane only under an intent on disk: refusing every key press for
  which the state file does not carry the intent to type that envelope changes no delivery.
\<close>

section \<open>Actions that agree under an invariant\<close>

definition agrees :: "(world \<Rightarrow> bool) \<Rightarrow> 'a io \<Rightarrow> 'a io \<Rightarrow> bool" where
  "agrees I m m' \<longleftrightarrow> (\<forall>w. I w \<longrightarrow> m w = m' w)"

definition keeps :: "(world \<Rightarrow> bool) \<Rightarrow> 'a io \<Rightarrow> bool" where
  "keeps I m \<longleftrightarrow> (\<forall>w. I w \<longrightarrow> I (snd (m w)))"

named_theorems agrees_intro \<open>rules showing that two actions agree, or keep an invariant\<close>

lemma agrees_refl [agrees_intro]: "agrees I m m"
  by (simp add: agrees_def)

lemma agrees_then [agrees_intro]:
  assumes "agrees I m m'" "keeps I m" "\<And>x. agrees I (f x) (f' x)"
  shows "agrees I (and_then m f) (and_then m' f')"
  unfolding agrees_def
proof (intro allI impI)
  fix w
  assume w: "I w"
  obtain r v where m: "m w = (r, v)" by force
  have "m' w = (r, v)" "I v" using assms(1,2) w m by (auto simp: agrees_def keeps_def)
  then show "and_then m f w = and_then m' f' w"
    using m assms(3) by (auto simp: and_then_def agrees_def split: sum.split)
qed

lemma agrees_before: "agrees I m m' \<Longrightarrow> agrees I (and_then m f) (and_then m' f)"
  by (simp add: agrees_def and_then_def)

lemma agrees_attempt [agrees_intro]: "agrees I m m' \<Longrightarrow> agrees I (attempt m) (attempt m')"
  by (simp add: agrees_def attempt_def)

lemma agrees_cases [agrees_intro]:
  "(b \<Longrightarrow> agrees I m m') \<Longrightarrow> (\<not> b \<Longrightarrow> agrees I n n') \<Longrightarrow> agrees I (if b then m else n) (if b then m' else n')"
  "agrees I m m' \<Longrightarrow> (\<And>y. agrees I (f y) (f' y)) \<Longrightarrow>
     agrees I (case x of None \<Rightarrow> m | Some y \<Rightarrow> f y) (case x of None \<Rightarrow> m' | Some y \<Rightarrow> f' y)"
  "(\<And>e. agrees I (g e) (g' e)) \<Longrightarrow> (\<And>y. agrees I (h y) (h' y)) \<Longrightarrow>
     agrees I (case r of Inl e \<Rightarrow> g e | Inr y \<Rightarrow> h y) (case r of Inl e \<Rightarrow> g' e | Inr y \<Rightarrow> h' y)"
  "(\<And>u v. agrees I (k u v) (k' u v)) \<Longrightarrow> agrees I (case z of (u, v) \<Rightarrow> k u v) (case z of (u, v) \<Rightarrow> k' u v)"
  by (auto split: option.split sum.split prod.split)

lemma and_then_cong_wp:
  assumes "wp m (\<lambda>x v. f x v = f' x v) (\<lambda>_ _. True) w"
  shows "and_then m f w = and_then m f' w"
  using assms by (auto simp: wp_def and_then_def split: sum.splits prod.splits)

section \<open>The guarded terminal\<close>

definition under :: "(world \<Rightarrow> bool) \<Rightarrow> unit io \<Rightarrow> unit io" where
  "under I m = and_then (reads I) (\<lambda>ok. if ok then m else raise (Fail ''refused by the guard''))"

definition guarded :: "(world \<Rightarrow> bool) \<Rightarrow> terminal \<Rightarrow> terminal" where
  "guarded I tm = tm\<lparr>tm_keys := (\<lambda>keys. under I (tm_keys tm keys))\<rparr>"

text \<open>
  No action of the terminal writes the state file: the harness and its hooks leave it to the
  process that holds the agent's lock.
\<close>

definition leaves_state :: "agent_paths \<Rightarrow> terminal \<Rightarrow> bool" where
  "leaves_state p tm \<longleftrightarrow> spares {ap_state p} (tm_view tm) \<and> spares {ap_state p} (tm_foreground tm)
     \<and> (\<forall>k. spares {ap_state p} (tm_keys tm k)) \<and> (\<forall>s. spares {ap_state p} (tm_queued tm s))
     \<and> (\<forall>s t. spares {ap_state p} (tm_settle tm s t)) \<and> spares {ap_state p} (tm_watch tm)
     \<and> spares {ap_state p} (tm_wait tm) \<and> spares {ap_state p} (tm_close tm) \<and> (\<forall>s. spares {ap_state p} (tm_repaint tm s))"

lemma guarded_simps [simp]:
  "tm_recipient (guarded I tm) = tm_recipient tm" "tm_view (guarded I tm) = tm_view tm"
  "tm_foreground (guarded I tm) = tm_foreground tm" "tm_queued (guarded I tm) = tm_queued tm"
  "tm_settle (guarded I tm) = tm_settle tm" "tm_watch (guarded I tm) = tm_watch tm"
  "tm_wait (guarded I tm) = tm_wait tm" "tm_close (guarded I tm) = tm_close tm"
  "tm_repaint (guarded I tm) = tm_repaint tm" "tm_mark (guarded I tm) = tm_mark tm"
  "tm_patience (guarded I tm) = tm_patience tm" "tm_keys (guarded I tm) k = under I (tm_keys tm k)"
  by (simp_all add: guarded_def)

lemma agrees_keys: "agrees I (tm_keys tm k) (under I (tm_keys tm k))"
  by (simp add: agrees_def under_def and_then_def reads_def)

text \<open>Everything that sends no key is the same action.\<close>

lemma same_queue: "queue_seen (guarded I tm) = queue_seen tm"
  by (simp add: fun_eq_iff queue_seen_def)

lemma same_prompt: "refuseNativePrompt (guarded I tm) = refuseNativePrompt tm"
  by (simp add: refuseNativePrompt_def)

lemma same_wait: "receipt_wait (guarded I tm) = receipt_wait tm"
  unfolding fun_eq_iff receipt_wait_def same_queue guarded_simps by simp

lemma same_fresh: "fresh_in_queue (guarded I tm) = fresh_in_queue tm"
  unfolding fun_eq_iff fresh_in_queue_def same_queue guarded_simps by simp

lemmas same_reading = same_queue same_prompt same_wait same_fresh

lemma same_awaitReceipt: "awaitReceipt (guarded I tm) p queue before n = awaitReceipt tm p queue before n"
proof (induction n)
  case (Suc n)
  show ?case unfolding awaitReceipt.simps guarded_simps same_wait Suc.IH by (rule refl)
qed simp

lemma same_await_input:
  "await_input rt (guarded I tm) col p wire queue old n = await_input rt tm col p wire queue old n"
proof (induction n)
  case (Suc n)
  show ?case
    unfolding fun_eq_iff await_input.simps await_round_def guarded_simps same_awaitReceipt Suc.IH by simp
qed (simp add: fun_eq_iff)

lemma same_endings: "conclude rt (guarded I tm) = conclude rt tm" "refuse_hazard rt (guarded I tm) = refuse_hazard rt tm"
  unfolding fun_eq_iff conclude_def refuse_hazard_def guarded_simps by simp_all

section \<open>Key presses\<close>

lemma send_spares: "leaves_state p tm \<Longrightarrow> spares {ap_state p} (sendHarnessKeys tm k)"
  unfolding sendHarnessKeys_def by (intro spares_intro) (auto simp: leaves_state_def)

lemma prompt_spares: "leaves_state p tm \<Longrightarrow> spares {ap_state p} (refuseNativePrompt tm)"
  unfolding refuseNativePrompt_def by (intro spares_intro) (auto simp: leaves_state_def)

lemma spares_list [spares_intro]:
  "spares ps m \<Longrightarrow> (\<And>x ys. spares ps (f x ys)) \<Longrightarrow> spares ps (case xs of [] \<Rightarrow> m | x # ys \<Rightarrow> f x ys)"
  by (simp split: list.split)

lemma spares_startup [spares_intro]:
  assumes "\<And>dir. dir \<in> set inbox_dirs \<Longrightarrow> env_path p dir (env_id e) \<notin> ps"
  shows "spares ps (startupSubmitPossible p e)"
  unfolding startupSubmitPossible_def sync_file_def by (intro spares_intro) (use assms in simp_all)

lemma spares_capacity [spares_intro]: "spares ps (capacity_still_due p a e)"
proof -
  have "spares ps (capacityTurn p a)"
    unfolding capacityTurn_def ReadWitness_def by (simp only: Let_def, intro spares_intro)
  then show ?thesis
    unfolding capacity_still_due_def by (intro spares_intro)
qed

lemma paste_spares:
  assumes tm: "leaves_state p tm" and away: "\<And>dir j. env_path p dir j \<noteq> ap_state p"
  shows "spares {ap_state p} (paste_input tm p input wire owner a e)"
proof -
  have settle: "spares {ap_state p} (tm_settle tm s t)" for s t
    using tm by (simp add: leaves_state_def)
  have "spares {ap_state p} (startupSubmitPossible p x)" for x
    by (intro spares_startup) (use away in auto)
  then show ?thesis
    unfolding paste_input_def
    by (simp only: Let_def, intro spares_intro send_spares [OF tm] settle prompt_spares [OF tm]) (use away in simp)
qed

lemma spares_await:
  assumes "leaves_state p tm"
  shows "spares {ap_state p} (awaitReceipt tm q queue before n)"
proof (induction n)
  case (Suc n)
  note view = assms [unfolded leaves_state_def]
  have seen: "spares {ap_state p} (queue_seen tm s)" for s
    unfolding queue_seen_def by (intro spares_intro) (use view in auto)
  have wait: "spares {ap_state p} (receipt_wait tm queue (awaitReceipt tm q queue before n))"
    unfolding receipt_wait_def Let_def by (intro spares_intro seen Suc.IH) (use view in auto)
  show ?case
    unfolding awaitReceipt.simps ReadWitness_def by (intro spares_intro wait) (use view in auto)
qed (simp add: spares_intro)

lemma spares_await_input:
  assumes "leaves_state p tm"
  shows "spares {ap_state p} (await_input rt tm col q wire queue old n before a e)"
proof (induction n arbitrary: before a e)
  case (Suc n)
  have judged: "spares {ap_state p} (judge_receipt rt col wire (await_input rt tm col q wire queue old n) w a e)" for w
    unfolding judge_receipt_def by (simp only: Let_def, intro spares_intro Suc.IH)
  have hook: "spares {ap_state p} (hook_proof q e old)"
    unfolding hook_proof_def ReadWitness_def by (simp only: Let_def, intro spares_intro)
  show ?case
    unfolding await_input.simps await_round_def
    by (simp only: Let_def, intro spares_intro judged hook spares_await [OF assms])
qed (simp add: spares_intro)

text \<open>A guard that reads the state file only: what leaves that file alone keeps it.\<close>

locale state_guard =
  fixes p :: agent_paths and I :: "world \<Rightarrow> bool"
  assumes on_state: "lookup v (ap_state p) = lookup w (ap_state p) \<Longrightarrow> I v = I w"
begin

lemma keeps_spares:
  assumes "spares {ap_state p} m"
  shows "keeps I m"
  unfolding keeps_def
proof (intro allI impI)
  fix w
  assume "I w"
  moreover have "lookup (snd (m w)) (ap_state p) = lookup w (ap_state p)" using assms by (simp add: spares_def)
  then have "I (snd (m w)) = I w" by (rule on_state)
  ultimately show "I (snd (m w))" by simp
qed

lemma send_agrees: "leaves_state p tm \<Longrightarrow>
    agrees I (sendHarnessKeys tm k) (sendHarnessKeys (guarded I tm) k)"
  unfolding sendHarnessKeys_def by (intro agrees_intro) (auto simp: agrees_keys agrees_refl leaves_state_def intro: keeps_spares)

lemma clear_agrees:
  assumes "leaves_state p tm"
  shows "agrees I (clear_rounds tm keys n shown) (clear_rounds (guarded I tm) keys n shown)"
proof (induction n arbitrary: shown)
  case 0
  show ?case by (simp add: agrees_refl)
next
  case (Suc n)
  have view: "spares {ap_state p} (tm_view tm)" "spares {ap_state p} (tm_repaint tm s)" for s
    using assms by (simp_all add: leaves_state_def)
  show ?case
    unfolding clear_rounds.simps guarded_simps
    by (intro agrees_intro Suc.IH send_agrees [OF assms] keeps_spares send_spares [OF assms] view)
qed

lemma withdraw_agrees:
  assumes "leaves_state p tm"
  shows "agrees I (withdrawPaste rt tm col reason) (withdrawPaste rt (guarded I tm) col reason)"
proof -
  have view: "spares {ap_state p} (attempt (tm_view tm))"
    by (intro spares_intro) (use assms in \<open>simp add: leaves_state_def\<close>)
  have clear: "agrees I (clearComposerDraft tm col draft) (clearComposerDraft (guarded I tm) col draft)" for draft
    unfolding clearComposerDraft_def by (intro agrees_intro clear_agrees [OF assms])
  show ?thesis
    unfolding withdrawPaste_def Let_def guarded_simps
    by (intro agrees_cases agrees_then [OF agrees_refl keeps_spares [OF view]] agrees_before agrees_attempt agrees_refl clear)
qed

lemma paste_agrees:
  assumes tm: "leaves_state p tm" and away: "\<And>dir j. env_path p dir j \<noteq> ap_state p"
  shows "agrees I (paste_input tm p input wire owner a e) (paste_input (guarded I tm) p input wire owner a e)"
    "keeps I (paste_input tm p input wire owner a e)"
proof -
  have settle: "spares {ap_state p} (tm_settle tm s t)" for s t
    using tm by (simp add: leaves_state_def)
  have sent: "spares {ap_state p} (attempt (and_then (sendHarnessKeys tm input) (\<lambda>_. and_then (tm_settle tm wire owner) (\<lambda>_. refuseNativePrompt tm))))"
    by (intro spares_intro send_spares [OF tm] settle prompt_spares [OF tm])
  show "keeps I (paste_input tm p input wire owner a e)"
    by (rule keeps_spares [OF paste_spares [OF tm away]])
  show "agrees I (paste_input tm p input wire owner a e) (paste_input (guarded I tm) p input wire owner a e)"
    unfolding paste_input_def guarded_simps same_reading
    by (intro agrees_then agrees_attempt agrees_refl send_agrees [OF tm] keeps_spares sent send_spares [OF tm])
qed

lemma type_keys_agrees:
  assumes lay: "plain_segment h" "p = agent_of (team_of d) h" and tm: "leaves_state p tm"
  shows "agrees I (type_keys rt tm col p wire owner input queue old a e)
      (type_keys rt (guarded I tm) col p wire owner input queue old a e)"
    "keeps I (type_keys rt tm col p wire owner input queue old a e)"
proof -
  note paste = paste_agrees [OF tm state_apart(1) [OF lay]]
  have wait: "spares {ap_state p} (await_input rt tm col p wire queue old n before a' e')" for n before a' e'
    by (rule spares_await_input [OF tm])
  have sent: "spares {ap_state p} (attempt (sendHarnessKeys tm submit_key))" by (intro spares_intro send_spares [OF tm])
  show "agrees I (type_keys rt tm col p wire owner input queue old a e)
      (type_keys rt (guarded I tm) col p wire owner input queue old a e)"
    unfolding type_keys_def same_await_input guarded_simps
    by (intro agrees_then agrees_cases agrees_attempt agrees_refl paste send_agrees [OF tm] keeps_spares [OF sent])
  have "spares {ap_state p} (paste_input tm p input wire owner a e)"
    by (rule paste_spares [OF tm state_apart(1) [OF lay]])
  then show "keeps I (type_keys rt tm col p wire owner input queue old a e)"
    unfolding type_keys_def by (intro keeps_spares spares_intro wait send_spares [OF tm])
qed

lemma judge_agrees:
  assumes tm: "leaves_state p tm"
  shows "agrees I (judge_input rt tm col p typed) (judge_input rt (guarded I tm) col p typed)"
  unfolding judge_input_def
  by (simp only: Let_def, intro agrees_cases agrees_refl agrees_before withdraw_agrees [OF tm])

lemma type_input_agrees:
  assumes lay: "plain_segment h" "p = agent_of (team_of d) h" and tm: "leaves_state p tm"
  shows "agrees I (type_input rt tm col native_pending p wire owner input queue old a e)
      (type_input rt (guarded I tm) col native_pending p wire owner input queue old a e)"
proof -
  note keys = type_keys_agrees [OF lay tm]
  have startup: "spares {ap_state p} (attempt (if b then Publish p x else ret ()))" for b x
    by (intro spares_intro) (use state_apart(1) [OF lay] in auto)
  have judged: "agrees I (and_then (judge_input rt tm col p typed) f)
      (and_then (judge_input rt (guarded I tm) col p typed) f)" for typed f
    by (intro agrees_before judge_agrees [OF tm])
  show ?thesis
    unfolding type_input_def same_endings
    by (simp only: Let_def, intro agrees_cases agrees_refl agrees_then judged keys keeps_spares [OF startup])
qed

end

interpretation typing: state_guard p "envelope_intent p i" for p i
  by unfold_locales (simp add: envelope_intent_def input_saved_def)

section \<open>Stamping hands back the same agent and the same envelope\<close>

definition gives :: "('a \<Rightarrow> bool) \<Rightarrow> 'a io \<Rightarrow> bool" where
  "gives P m \<longleftrightarrow> (\<forall>w x w'. m w = (Inr x, w') \<longrightarrow> P x)"

named_theorems gives_intro \<open>rules showing a property of what an action returns\<close>

lemma gives_pure [gives_intro]: "P x \<Longrightarrow> gives P (ret x)" "gives P (raise err)"
  by (simp_all add: gives_def ret_def raise_def)

lemma gives_any: "gives (\<lambda>_. True) m"
  by (simp add: gives_def)

lemma gives_then:
  assumes "gives R m" "\<And>x. R x \<Longrightarrow> gives P (f x)"
  shows "gives P (and_then m f)"
  using assms by (fastforce simp: gives_def and_then_def split: prod.splits sum.splits)

lemma gives_bind [gives_intro]: "(\<And>x. gives P (f x)) \<Longrightarrow> gives P (and_then m f)"
  by (rule gives_then [OF gives_any])

lemma gives_cases [gives_intro]:
  "(b \<Longrightarrow> gives P m) \<Longrightarrow> (\<not> b \<Longrightarrow> gives P n) \<Longrightarrow> gives P (if b then m else n)"
  "(x = None \<Longrightarrow> gives P m) \<Longrightarrow> (\<And>y. x = Some y \<Longrightarrow> gives P (f y)) \<Longrightarrow> gives P (case x of None \<Rightarrow> m | Some y \<Rightarrow> f y)"
  "(\<And>e. r = Inl e \<Longrightarrow> gives P (g e)) \<Longrightarrow> (\<And>y. r = Inr y \<Longrightarrow> gives P (k y)) \<Longrightarrow> gives P (case r of Inl e \<Rightarrow> g e | Inr y \<Rightarrow> k y)"
  by (auto split: option.split sum.split)

lemma wp_gives: "gives P m \<Longrightarrow> (\<And>x w'. P x \<Longrightarrow> Q x w') \<Longrightarrow> (\<And>e w'. E e w') \<Longrightarrow> wp m Q E w"
  by (rule wpI) (auto simp: gives_def)

abbreviation is_agent :: "hitch_id \<Rightarrow> err option \<times> agent \<Rightarrow> bool" where
  "is_agent h \<equiv> \<lambda>(x, b). ag_id b = h"

lemma gives_agent [gives_intro]:
  assumes "gives (is_agent h) m" "\<And>x b. ag_id b = h \<Longrightarrow> gives P (g x b)"
  shows "gives P (and_then m (\<lambda>(x, b). g x b))"
  by (rule gives_then [OF assms(1)]) (use assms(2) in auto)

lemma gives_note_crossing: "ag_id a = h \<Longrightarrow> gives (is_agent h) (note_crossing fl t draws final r b a)"
  unfolding note_crossing_def Let_def by (intro gives_bind gives_cases gives_pure) auto

lemma gives_note_crossings: "ag_id a = h \<Longrightarrow> gives (is_agent h) (note_crossings fl t draws final r bs a)"
proof (induction bs arbitrary: a)
  case (Cons b bs)
  show ?case
    unfolding note_crossings.simps
    by (rule gives_agent [OF gives_note_crossing [OF Cons.prems]], intro gives_cases gives_pure Cons.IH) auto
qed (simp add: gives_pure)

lemma same_agent: "ag_id (rebase_bands a) = ag_id a" "ag_id (note_finished a r) = ag_id a"
  by (auto simp: rebase_bands_def note_finished_def Let_def split: option.split)

lemma gives_noteContextBands:
  assumes "ag_id a = h"
  shows "gives (is_agent h) (noteContextBands fl t draws a collar)"
proof -
  have rebased: "ag_id (rebase_bands a) = h" using assms by (simp add: same_agent)
  show ?thesis
    unfolding noteContextBands_def Let_def
    by (intro gives_cases gives_pure gives_agent [OF gives_note_crossings [OF rebased]])
      (use assms rebased in simp_all)
qed

lemma gives_acceptContextReadings: "ag_id a = h \<Longrightarrow> gives (is_agent h) (acceptContextReadings fl t draws a collar rs)"
proof (induction rs arbitrary: a)
  case (Cons r rs)
  let ?a = "(note_finished a r)\<lparr>ag_native := acceptReadings (ag_native (note_finished a r)) [r]\<rparr>"
  have id: "ag_id ?a = h" using Cons.prems by (simp add: same_agent)
  show ?case
    unfolding acceptContextReadings.simps Let_def
    by (intro gives_cases Cons.IH [OF id] gives_agent [OF gives_noteContextBands [OF id]] gives_pure Cons.IH) simp_all
qed (simp add: gives_pure)

abbreviation same_names :: "hitch_id \<Rightarrow> envelope_id \<Rightarrow> err option \<times> agent \<times> envelope \<Rightarrow> bool" where
  "same_names h i \<equiv> \<lambda>(x, b, e). ag_id b = h \<and> env_id e = i"

lemma gives_stamp_fresh:
  assumes "ag_id a = h" "env_id e = i"
  shows "gives (same_names h i) (stamp_fresh fl u t p draws collar telemetry readings a e)"
proof -
  have own: "ag_id (own_clear b x) = ag_id b" for b x by (simp add: own_clear_def split: option.split)
  have some: "gives (is_agent h) (if c then acceptContextReadings fl t draws b collar rs else ret (None, b))"
    if "ag_id b = h" for c b rs
    by (intro gives_cases gives_pure gives_acceptContextReadings) (use that in auto)
  show ?thesis
    unfolding stamp_fresh_def Let_def
    by (intro gives_agent [OF gives_acceptContextReadings [OF assms(1)]] gives_agent [OF some] gives_bind gives_cases gives_pure)
      (simp_all add: assms own)
qed

lemma gives_stored: "gives (\<lambda>r. \<forall>s. r = Inr s \<longrightarrow> env_id s = i) (attempt (ReadEnvelope p dir i))"
  by (auto simp: gives_def attempt_def ReadEnvelope_def and_then_def ret_def raise_def split: prod.splits sum.splits if_splits)

lemma gives_stampEnvelope:
  assumes "ag_id a = h"
  shows "gives (same_names h (env_id e)) (stampEnvelope fl u t p draws collar telemetry readings a e)"
  unfolding stampEnvelope_def Let_def
  by (rule gives_then [OF gives_stored], intro gives_cases gives_pure gives_stamp_fresh) (auto simp: assms split: sum.split)

section \<open>No key without an intent\<close>

lemma stamped_delivery:
  assumes lay: "plain_segment h" "p = agent_of (team_of d) h" "rt_team rt = team_of d" "ag_id a = h" and tm: "leaves_state p tm"
  shows "deliver_stamped rt tm col native_pending p owner a e w
    = deliver_stamped rt (guarded (envelope_intent p (env_id e)) tm) col native_pending p owner a e w"
proof -
  let ?tm = "guarded (envelope_intent p (env_id e)) tm"
  let ?ev = "blank_event\<lparr>ev_type := ''input_started'', ev_id := env_id e, ev_status := ''envelope''\<rparr>"
  define typed where "typed tm wire input queue old = (\<lambda>(x, b). case x of Some err \<Rightarrow> ret (Some err, b, '''', False)
     | None \<Rightarrow> type_input rt tm col native_pending p wire owner input queue old b e)" for tm wire input queue old
  have after: "and_then (run_apply rt p a ?ev) (typed tm wire input queue old)
      = and_then (run_apply rt p a ?ev) (typed ?tm wire input queue old)" for wire input queue old
  proof (intro ext and_then_cong_wp wp_run_apply [OF lay], goal_cases)
    case (2 v x w')
    show ?case by (simp add: typed_def)
  next
    case (3 v x w' ev)
    let ?b = "fst (Step a ev)"
    have ev: "ev_type ev = ''input_started''" "ev_id ev = env_id e" "ev_status ev = ''envelope''"
      using 3(1) by (simp_all add: stamped_event_def)
    have "envelope_intent p (env_id e) w'"
      using state_is_input(1) [OF 3(3) started_event [OF ev(1) 3(2)]] ev(2,3)
      by (intro envelope_intent_def [THEN iffD2] exI [of _ "\<lparr>int_id = ev_id ev, int_kind = ev_status ev, int_at = ev_at ev\<rparr>"]) simp
    then show ?case
      using typing.type_input_agrees [OF lay(1,2) tm] by (simp add: typed_def agrees_def split: option.split)
  qed simp
  show ?thesis
    unfolding deliver_stamped_def same_reading Let_def typed_def [symmetric] after by (rule refl)
qed

text \<open>
  C1 (typing_needs_intent): no key reaches the recipient's pane without an intent on disk:
  delivering through a terminal that refuses every key press, of a paste, of the submit key or of
  withdrawing the paste, for which the state file does not record the intent to type this
  envelope, is the same as delivering, from every world and whatever fails, when the harness and
  its hooks leave the state file to the process that holds the agent's lock. A crash after a key
  press therefore leaves an intent that recovery settles.
\<close>

theorem typing_needs_intent:
  assumes "plain_segment h" "p = agent_of (team_of d) h" "rt_team rt = team_of d" "ag_id a = h" "leaves_state p tm"
  shows "deliver rt (guarded (envelope_intent p (env_id e)) tm) col st native_pending p owner a e w
    = deliver rt tm col st native_pending p owner a e w"
proof -
  let ?stamped = "\<lambda>tm. \<lambda>(x, a1, e1). case x of Some err \<Rightarrow> ret (Some err, a1, '''', False)
     | None \<Rightarrow> deliver_stamped rt tm col native_pending p owner a1 e1"
  let ?stamp = "stampEnvelope (st_round st) (rt_unicode rt) (rt_team rt) p (st_draws st) (st_bands st) (st_telemetry st) (st_readings st) a e"
  have "and_then ?stamp (?stamped tm) v = and_then ?stamp (?stamped (guarded (envelope_intent p (env_id e)) tm)) v" for v
  proof (intro and_then_cong_wp wp_gives [OF gives_stampEnvelope [OF assms(4)]])
    fix z :: "err option \<times> agent \<times> envelope" and w'
    obtain x b e1 where z: "z = (x, b, e1)" by (cases z) auto
    assume "same_names h (env_id e) z"
    then have "ag_id b = h" "env_id e1 = env_id e" using z by simp_all
    then show "?stamped tm z w' = ?stamped (guarded (envelope_intent p (env_id e)) tm) z w'"
      using stamped_delivery [OF assms(1-3) _ assms(5), of b col native_pending owner e1 w'] z by (simp split: option.split)
  qed simp
  then show ?thesis
    by (simp add: deliver_def and_then_def split: sum.split prod.split)
qed

text \<open>A terminal whose pane answers nothing unusual.\<close>

definition demo_view :: screen_view where
  "demo_view = \<lparr>view_blocked = Inr None, view_compacting = Inr False, view_composer = Inr ('''', ''''), view_idle = Inr True, view_print = ''''\<rparr>"

definition demo_terminal :: terminal where
  "demo_terminal = \<lparr>tm_recipient = (\<lambda>_. ret ()), tm_view = ret demo_view, tm_foreground = ret (), tm_keys = (\<lambda>_. ret ()),
     tm_queued = (\<lambda>_. ret False), tm_settle = (\<lambda>_ _. ret ()), tm_watch = ret (), tm_wait = ret (), tm_close = ret (),
     tm_repaint = (\<lambda>_. ret ()), tm_mark = (\<lambda>_. ret ()), tm_patience = 3\<rparr>"

definition demo_typing_collar :: typing_collar where
  "demo_typing_collar = \<lparr>col_submit = (\<lambda>s. Inr \<lparr>key_text = s, key_names = [], key_submit = False\<rparr>), col_bracketed = True,
     col_midturn = True, col_queue = True, col_witness = \<lparr>inv_name = ''exact-prompt'', inv_params = []\<rparr>, col_clear = None\<rparr>"

definition demo_stamping :: stamping where
  "demo_stamping = \<lparr>st_round = (\<lambda>x. x), st_draws = (\<lambda>_. ''tok''), st_bands = [], st_telemetry = True, st_readings = (blank_reading, [])\<rparr>"

lemma demo_leaves_state: "leaves_state p demo_terminal"
  by (simp add: leaves_state_def demo_terminal_def spares_intro)

theorem typing_needs_intent_witness:
  "deliver demo_env (guarded (envelope_intent demo_paths ''m1'') demo_terminal) demo_typing_collar demo_stamping proceed demo_paths '''' demo_hitch
      (demo_envelope ''m1'') demo_settle_world
    = deliver demo_env demo_terminal demo_typing_collar demo_stamping proceed demo_paths '''' demo_hitch (demo_envelope ''m1'') demo_settle_world"
  using typing_needs_intent [OF plain_h1 demo_paths_def, of demo_env demo_hitch demo_terminal "demo_envelope ''m1''"]
  by (simp add: demo_env_def demo_hitch_def blank_agent_def demo_envelope_def demo_leaves_state)

end
