(* ===== verification/Delivery_Outcome.thy ===== *)
theory Delivery_Outcome
  imports Delivery_Intent
begin

text \<open>
  What the outcome of typing proves: a message is reported delivered or accepted only after the
  submit key and on a proof, and failed only when the submit key was never sent.
\<close>

section \<open>Where the proofs come from\<close>










text \<open>
  The three proofs, as what was read of the terminal and of the witness file: the native queue
  showed the opener, the witness file held a witness, and the composer read empty. Nothing but
  closing the watch comes after the first two, and nothing at all after the third.
\<close>

definition queue_showed :: "terminal \<Rightarrow> string option \<Rightarrow> world \<Rightarrow> bool" where
  "queue_showed tm queue w' \<longleftrightarrow> (\<exists>opener u v. queue = Some opener \<and> queue_seen tm opener u = (Inr True, v) \<and> w' = snd (tm_close tm v))"

definition hook_reported :: "terminal \<Rightarrow> agent_paths \<Rightarrow> witness \<Rightarrow> world \<Rightarrow> bool" where
  "hook_reported tm p wit w' \<longleftrightarrow> (\<exists>u v. ReadWitness p u = (Inr wit, v) \<and> (w' = v \<or> w' = snd (tm_close tm v)))"







section \<open>What typing proved\<close>

definition proved :: "terminal \<Rightarrow> agent_paths \<Rightarrow> typing_collar \<Rightarrow> string \<Rightarrow> string option \<Rightarrow> receipt_proof \<Rightarrow> world \<Rightarrow> bool" where
  "proved tm p col wire queue = (\<lambda>(x, accepted, wit, a, e) w'. x = None \<longrightarrow>
     (if accepted then queue_showed tm queue w'
      else hook_reported tm p wit w' \<and> SubmittedPromptStartsWith (col_witness col) wire (wit_prompt wit) = Inr True))"

lemma proved_simps [simp]:
  "proved tm p col wire queue (Some err, accepted, wit, a, e) w'"
  "proved tm p col wire queue (None, True, wit, a, e) w' = queue_showed tm queue w'"
  "proved tm p col wire queue (None, False, wit, a, e) w' =
    (hook_reported tm p wit w' \<and> SubmittedPromptStartsWith (col_witness col) wire (wit_prompt wit) = Inr True)"
  by (simp_all add: proved_def)









section \<open>Withdrawing\<close>




section \<open>What an outcome proves\<close>




text \<open>A paste that a native prompt swallows is withdrawn from the composer that still shows it.\<close>

definition demo_keys :: keystrokes where
  "demo_keys = \<lparr>key_text = ''hi'', key_names = [], key_submit = False\<rparr>"

definition demo_cleared :: terminal where
  "demo_cleared = demo_terminal\<lparr>tm_view := (\<lambda>w. (Inr (demo_view\<lparr>view_composer := Inr (if now w = 0 then ''hi'' else '''', '''')\<rparr>), w)),
     tm_settle := (\<lambda>_ _. raise IOError), tm_keys := (\<lambda>k. updates (\<lambda>w. w\<lparr>now := if k = demo_keys then 0 else 1\<rparr>))\<rparr>"

definition demo_clearing :: typing_collar where
  "demo_clearing = demo_typing_collar\<lparr>col_clear := Some \<lparr>key_text = '''', key_names = [''C-u''], key_submit = False\<rparr>\<rparr>"

lemma demo_cleared_simps [simp]:
  "tm_foreground demo_cleared = ret ()" "tm_repaint demo_cleared t = ret ()" "tm_settle demo_cleared t o' = raise IOError"
  "tm_keys demo_cleared k = updates (\<lambda>w. w\<lparr>now := if k = demo_keys then 0 else 1\<rparr>)"
  "tm_view demo_cleared w = (Inr (demo_view\<lparr>view_composer := Inr (if now w = 0 then ''hi'' else '''', '''')\<rparr>), w)"
  by (simp_all add: demo_cleared_def demo_terminal_def)

lemma demo_clearing_simps [simp]:
  "col_clear demo_clearing = Some \<lparr>key_text = '''', key_names = [''C-u''], key_submit = False\<rparr>" "col_bracketed demo_clearing"
  by (simp_all add: demo_clearing_def demo_typing_collar_def)



end
