(* ===== verification/Delivery_Clear.thy ===== *)
theory Delivery_Clear
  imports Delivery_Outcome
begin

text \<open>
  Retiring a native session (\<^verbatim>\<open>advanceClear\<close> and \<^verbatim>\<open>clear\<close> in \<^verbatim>\<open>cmd/gang/clear.go\<close>): the command records
  a request and queues its continuation; once the turn has ended, the agent's owner types the
  harness's native clear, at most once, under a reservation on disk.
\<close>

section \<open>Advancing a request\<close>












section \<open>A native clear is typed at most once\<close>










text \<open>A request that is not queued stays so while it is reconciled.\<close>

definition clear_settled :: "agent \<Rightarrow> bool" where
  "clear_settled a \<longleftrightarrow> (\<forall>c. ag_clear a = Some c \<longrightarrow> clr_status c \<noteq> ''queued'')"

lemma clear_settled_upd [simp]:
  "clear_settled (a\<lparr>ag_context_bands := b\<rparr>) = clear_settled a" "clear_settled (cleared_agent a n) = clear_settled a"
  by (simp_all add: clear_settled_def cleared_agent_def)









end
