(* ===== verification/Lock_Budget.thy ===== *)
theory Lock_Budget
  imports Store_Agent
begin

text \<open>
  Waiting for an agent's lock (\<^verbatim>\<open>acquireBounded\<close> in \<^verbatim>\<open>cmd/gang/runtime.go\<close>): short commands retry the
  lock for half a second, with pauses that double from 10 to 100 milliseconds.
\<close>

definition agentLockBudget :: duration where
  "agentLockBudget = 500 * millisecond"

text \<open>
  The loop. The pause is an argument: while it runs, other processes do. The option is
  \<^term>\<open>None\<close> when the loop does not return.
\<close>

partial_function (option) retry_lock :: "'l io \<Rightarrow> (duration \<Rightarrow> unit io) \<Rightarrow> time \<Rightarrow> duration \<Rightarrow> world \<Rightarrow> ((err + 'l) \<times> world) option" where
  "retry_lock tries pause deadline delay w =
     (case tries w of
        (Inr l, w1) \<Rightarrow> Some (Inr l, w1)
      | (Inl x, w1) \<Rightarrow>
          if \<not> errors_is x Locked then Some (Inl x, w1)
          else if deadline - now w1 \<le> 0 then Some (Inl x, w1)
          else retry_lock tries pause deadline (min (delay * 2) (100 * millisecond)) (snd (pause (min delay (deadline - now w1)) w1)))"

definition lock_bounded :: "(duration \<Rightarrow> unit io) \<Rightarrow> agent_paths \<Rightarrow> world \<Rightarrow> ((err + unit) \<times> world) option" where
  "lock_bounded pause p w = retry_lock (TryLock p) pause (now w + agentLockBudget) (10 * millisecond) w"

section \<open>The wait ends\<close>

lemma sys_now: "now (snd (sys w)) = now w"
  by (simp add: sys_def split: list.split)

lemma act_now:
  assumes "\<And>w w'. f w = Inr w' \<Longrightarrow> now w' = now w"
  shows "now (snd (act f w)) = now w"
  using sys_now [of w] assms
  by (auto simp: act_def and_then_def split: prod.split sum.split)

lemma then_now:
  assumes "\<And>w. now (snd (m w)) = now w" "\<And>x w. now (snd (f x w)) = now w"
  shows "now (snd (and_then m f w)) = now w"
  using assms(1) [of w] by (auto simp: and_then_def assms(2) split: prod.split sum.split)

lemma TryLock_now: "now (snd (TryLock p w)) = now w"
  unfolding TryLock_def lock_def os_stat_def
  by (intro then_now act_now) (auto simp: updates_def split: option.splits if_splits)

text \<open>What the loop returns, by how much of the budget is left.\<close>

lemma retry_returns:
  assumes still: "\<And>w. now (snd (tries w)) = now w"
    and sleeps: "\<And>d w. 0 < d \<Longrightarrow> now w + d \<le> now (snd (pause d w))"
  shows "0 < delay \<Longrightarrow> \<exists>r w'. retry_lock tries pause deadline delay w = Some (r, w') \<and> now w \<le> now w'
    \<and> (\<forall>x. r = Inl x \<longrightarrow> errors_is x Locked \<longrightarrow> deadline \<le> now w')
    \<and> ((\<forall>d w. 0 < d \<longrightarrow> now (snd (pause d w)) = now w + d) \<longrightarrow> now w \<le> deadline \<longrightarrow> now w' \<le> deadline)"
proof (induction "nat (deadline - now w)" arbitrary: w delay rule: less_induct)
  case less
  obtain r w1 where t: "tries w = (r, w1)" by force
  have w1: "now w1 = now w" using still [of w] t by simp
  show ?case
  proof (cases "\<exists>x. r = Inl x \<and> errors_is x Locked \<and> now w < deadline")
    case False
    then show ?thesis
      by (subst retry_lock.simps) (auto simp: t w1 split: sum.split)
  next
    case True
    then obtain x where x: "r = Inl x" "errors_is x Locked" "now w < deadline" by blast
    define d where "d = min delay (deadline - now w1)"
    define v where "v = snd (pause d w1)"
    have d: "0 < d" "d \<le> deadline - now w" using less.prems x(3) w1 by (simp_all add: d_def)
    have v: "now w + d \<le> now v" using sleeps [OF d(1), of w1] w1 by (simp add: v_def)
    have loop: "retry_lock tries pause deadline delay w = retry_lock tries pause deadline (min (delay * 2) (100 * millisecond)) v"
      by (subst retry_lock.simps) (use x w1 in \<open>simp add: t d_def v_def\<close>)
    have shorter: "nat (deadline - now v) < nat (deadline - now w)" using v d(1) x(3) by simp
    have positive: "0 < min (delay * 2) (100 * millisecond)" using less.prems by (simp)
    obtain r' w' where r: "retry_lock tries pause deadline delay w = Some (r', w')" "now v \<le> now w'"
        "\<forall>x. r' = Inl x \<longrightarrow> errors_is x Locked \<longrightarrow> deadline \<le> now w'"
        "(\<forall>d w. 0 < d \<longrightarrow> now (snd (pause d w)) = now w + d) \<longrightarrow> now v \<le> deadline \<longrightarrow> now w' \<le> deadline"
      using less.hyps [OF shorter positive] unfolding loop by blast
    have "now v \<le> deadline" if "\<forall>d w. 0 < d \<longrightarrow> now (snd (pause d w)) = now w + d"
      using that d w1 by (simp add: v_def)
    then show ?thesis using r v d(1) by auto
  qed
qed

text \<open>
  C7 (lock_wait_ends): waiting for an agent's lock returns, whoever holds the lock and whatever
  happens during the pauses, when a pause lasts at least as long as it was asked for; it reports a
  locked agent only once the whole budget of 500 milliseconds has passed, and pauses that last
  exactly as long as asked never exceed the budget.
\<close>

theorem lock_wait_ends:
  assumes "\<And>d w. 0 < d \<Longrightarrow> now w + d \<le> now (snd (pause d w))"
  shows "\<exists>r w'. lock_bounded pause p w = Some (r, w')
    \<and> (\<forall>x. r = Inl x \<longrightarrow> errors_is x Locked \<longrightarrow> now w + 500000000 \<le> now w')
    \<and> ((\<forall>d w. 0 < d \<longrightarrow> now (snd (pause d w)) = now w + d) \<longrightarrow> now w' \<le> now w + 500000000)"
proof -
  have "(0 :: duration) < 10 * millisecond" by (simp)
  from retry_returns [where tries = "TryLock p", OF TryLock_now assms this, of "now w + agentLockBudget" w]
  show ?thesis by (auto simp: lock_bounded_def agentLockBudget_def)
qed

text \<open>A pause that only lets time pass.\<close>

definition demo_pause :: "duration \<Rightarrow> unit io" where
  "demo_pause d = updates (\<lambda>w. w\<lparr>now := now w + d\<rparr>)"

theorem lock_wait_ends_witness:
  "\<exists>r w'. lock_bounded demo_pause demo_paths (demo_hitch_world blank_event demo_hitch None) = Some (r, w')
    \<and> (r = Inl Locked \<longrightarrow> now w' = 5500000000)"
proof -
  let ?w = "demo_hitch_world blank_event demo_hitch None"
  have pause: "now (snd (demo_pause d w)) = now w + d" for d w by (simp add: demo_pause_def updates_def)
  obtain r w' where run: "lock_bounded demo_pause demo_paths ?w = Some (r, w')" "now w' \<le> now ?w + 500000000"
      "\<forall>x. r = Inl x \<longrightarrow> errors_is x Locked \<longrightarrow> now ?w + 500000000 \<le> now w'"
    using lock_wait_ends [of demo_pause demo_paths ?w] pause by auto
  have "now ?w = 5000000000" by (simp)
  then have "r = Inl Locked \<longrightarrow> now w' = 5500000000" using run(2,3) by (auto intro: antisym)
  then show ?thesis using run(1) by blast
qed

end
