(* ===== verification/Spec2Isabelle.thy ===== *)
theory Spec2Isabelle
  imports Core_Protocol Core_Runs Store_Paths Store_Files Store_Hooks Store_Idle Store_Inbox Store_Side Store_Senders Store_Outside
    Harness_Queue Context_Bands Usage_Disk Idle_Disk Envelope_Stamp Envelope_Receipt
    Delivery_Clear Lock_Budget
begin

text \<open>
  \<^bold>\<open>Gangline\<close> runs teams of coding agents in tmux panes. The core of the program is two
  packages: \<^verbatim>\<open>core/\<close>, the data model and the state machine of one agent, and \<^verbatim>\<open>store/\<close>, the
  directory of files in which every process of a team finds and changes that data. The
  command layer (\<^verbatim>\<open>cmd/gang\<close>) and the screen and transcript readers (\<^verbatim>\<open>harness/\<close>) turn what
  they observe into events for the first and calls of the second.

  \<^bold>\<open>Theories.\<close>
  \<^item> \<^verbatim>\<open>Prelude\<close>: time, word and string abbreviations, Go's \<^verbatim>\<open>sort.Slice\<close> (\<^theory_text>\<open>sort_slice\<close>), and the
    locales \<^theory_text>\<open>comparator\<close> (a strict order that sorting respects) and \<^theory_text>\<open>ordered_machine\<close> (an
    invariant relation that every step of a run extends).
  \<^item> \<^verbatim>\<open>Agent_Model\<close>: the structs and string enums of \<^verbatim>\<open>core/agent.go\<close> and \<^verbatim>\<open>core/event.go\<close>.
  \<^item> \<^verbatim>\<open>Core_Step\<close>: \<^verbatim>\<open>core.Step\<close>, one definition per event kind; \<^verbatim>\<open>Core_Runs\<close>, what a run of
    events keeps; \<^verbatim>\<open>Core_Protocol\<close>, the protocols inside the machine: input intents, the
    compaction lifecycle (a refinement), deadlines, capacity recovery and retry delays.
  \<^item> \<^verbatim>\<open>Store_Types\<close>: the structs the store writes, and the contents of a file.
  \<^item> \<^verbatim>\<open>FileSystem\<close>, \<^verbatim>\<open>FileSystem_Logic\<close>: the operating system as the store uses it, with a
    schedule of failures, and rules to reason about every schedule (\<^theory_text>\<open>wp\<close>); the locale
    \<^theory_text>\<open>typed_file\<close> is the contract of a JSON file.
  \<^item> \<^verbatim>\<open>Store_Paths\<close>: state paths, names and team records; \<^verbatim>\<open>Event_Log\<close>: the codec and the
    audit log as bytes, with short writes; \<^verbatim>\<open>Store_Agent\<close>: locks, saving an agent, the
    roster, creation and renaming; \<^verbatim>\<open>Store_Files\<close>: the contract \<^theory_text>\<open>typed_file\<close> for every file
    type and the round trip of an agent record.
  \<^item> \<^verbatim>\<open>Store_Envelopes\<close>: the inbox and its order; \<^verbatim>\<open>Store_Idle\<close>: the idle ledger and
    publication; \<^verbatim>\<open>Store_Inbox\<close>: withdrawal, settlement, sealing; \<^verbatim>\<open>Store_Hooks\<close>: status
    hooks, session transitions, native attempts and prompt witnesses; \<^verbatim>\<open>Store_Side\<close>: the
    small side files, the usage and registration locks and observations.
  \<^item> \<^verbatim>\<open>Go_Strings\<close>, \<^verbatim>\<open>Store_Senders\<close>, \<^verbatim>\<open>Store_Outside\<close>: credentials, registered senders and
    outside participants with their mailboxes.
  \<^item> \<^verbatim>\<open>Harness_Queue\<close>: which turn of a transcript ran a prompt; \<^verbatim>\<open>Go_Format\<close>, \<^verbatim>\<open>Go_Time\<close>: the
    parts of \<^verbatim>\<open>fmt\<close>, \<^verbatim>\<open>strings\<close> and \<^verbatim>\<open>time\<close> the code prints with; \<^verbatim>\<open>Context_Bands\<close>:
    context readings and the bands they cross (\<^verbatim>\<open>cmd/gang/context_bands.go\<close>).
  \<^item> Account usage (\<^verbatim>\<open>harness/usage.go\<close>, \<^verbatim>\<open>cmd/gang/usage_state.go\<close>, \<^verbatim>\<open>auto_cap.go\<close>,
    \<^verbatim>\<open>snooze.go\<close>): \<^verbatim>\<open>Usage_Types\<close>, the record of windows, warnings and wakes;
    \<^verbatim>\<open>Harness_Usage\<close>, windows, pace and resets; \<^verbatim>\<open>Usage_State\<close>, changing the record,
    delivery outcomes and the end of a wake's turn; \<^verbatim>\<open>Usage_Work\<close>, readings, provider caps
    and the flush; \<^verbatim>\<open>Usage_Snooze\<close>, the command; \<^verbatim>\<open>Usage_Runs\<close>, \<^verbatim>\<open>Usage_Bands\<close>,
    \<^verbatim>\<open>Usage_Flush\<close>: the state machine \<^theory_text>\<open>usage_step\<close> of all these changes, that no wake is
    lost and that a band warns once, and when a due wake is published; \<^verbatim>\<open>Usage_Disk\<close>: the
    change of the record on disk. The locale \<^theory_text>\<open>wake_loop\<close> is what every loop over the wakes
    keeps.
  \<^item> The notice that a team is idle (\<^verbatim>\<open>cmd/gang/team_idle.go\<close>): \<^verbatim>\<open>Idle_Sweep\<close>, activity, the
    evaluation of a sweep, its quiet window, reservation and publication; \<^verbatim>\<open>Idle_Runs\<close>, the
    window as a machine and the machine \<^theory_text>\<open>idle_step\<close> of the ledger, that one quiet period is
    reported once; \<^verbatim>\<open>Idle_Disk\<close>: every write of the ledger is a run of that machine, and a
    notice is reserved only over files in which every worker is quiet.
  \<^item> The text of a message (\<^verbatim>\<open>cmd/gang/input.go\<close>, \<^verbatim>\<open>delivery.go\<close>, \<^verbatim>\<open>context_stamp.go\<close>,
    \<^verbatim>\<open>envelope_legacy.go\<close>): \<^verbatim>\<open>Go_Runes\<close>, UTF-8 strings as runes; \<^verbatim>\<open>Envelope_Tags\<close>, text
    checks, the removal of tag-shaped brackets and rendering; \<^verbatim>\<open>Envelope_Defang\<close>, that no
    tag survives the removal; \<^verbatim>\<open>Envelope_Text\<close>, stamps and wires; \<^verbatim>\<open>Envelope_Wires\<close>, that
    a wire holds exactly the tags Gangline wrote; \<^verbatim>\<open>Envelope_Stamp\<close>, stamping, and that a
    message accepted into the queue fits its budget when it is typed.
  \<^item> The receipt of a message (\<^verbatim>\<open>harness/hooks.go\<close>, \<^verbatim>\<open>envelope_legacy.go\<close>): \<^verbatim>\<open>Harness_Witness\<close>,
    what a native hook reports of a paste; \<^verbatim>\<open>Envelope_Receipt\<close>, that a witness is the receipt
    of one envelope only.
  \<^item> The ledger of delivery (\<^verbatim>\<open>cmd/gang/runtime.go\<close>, \<^verbatim>\<open>late_witness.go\<close>, \<^verbatim>\<open>clear.go\<close>,
    \<^verbatim>\<open>authority.go\<close>, \<^verbatim>\<open>delivery.go\<close>): \<^verbatim>\<open>Delivery_Ledger\<close>, how an event is applied to a saved
    agent, input settled, recovered and reopened, and who is told; \<^verbatim>\<open>Delivery_Frame\<close>, the
    files an action leaves alone (\<^theory_text>\<open>spares\<close>), with one rule per operation of the other
    components; \<^verbatim>\<open>Delivery_Recovery\<close>, that the input of a process that died keeps its intent
    until its receipt is filed; \<^verbatim>\<open>Delivery_Reopen\<close>, that a filed receipt is reopened only under
    an intent, and that the record of a replaced receipt stays well formed;
    \<^verbatim>\<open>Delivery_Queue\<close>, which envelope a drain types next and which expired ones it withdraws.
  \<^item> Typing (\<^verbatim>\<open>deliver\<close> and \<^verbatim>\<open>inputState\<close> of \<^verbatim>\<open>cmd/gang/delivery.go\<close>, \<^verbatim>\<open>witness.go\<close>):
    \<^verbatim>\<open>Delivery_Typing\<close>, whether the composer takes input, typing, the wait for the receipt, the
    withdrawal of a paste and the end of a delivery, over a record \<^theory_text>\<open>terminal\<close> of actions that
    stands for the pane and the readers of its screen; \<^verbatim>\<open>Delivery_Intent\<close>, that every key press
    has an intent on disk (a delivery \<^theory_text>\<open>agrees\<close> with one through a \<^theory_text>\<open>guarded\<close> terminal);
    \<^verbatim>\<open>Delivery_Outcome\<close>, what each outcome proves; \<^verbatim>\<open>Delivery_Clear\<close>, retiring a native
    session (\<^verbatim>\<open>advanceClear\<close> of \<^verbatim>\<open>cmd/gang/clear.go\<close>), that its keys are typed once. The locale
    \<^theory_text>\<open>state_guard\<close> is the contract of a guard both typing and clearing are under.
    \<^verbatim>\<open>Lock_Budget\<close>: the bounded wait for an agent's lock.

  \<^bold>\<open>Modelling conventions.\<close> A Go struct is a record, a pointer field an option, a string enum a
  datatype with a constructor for other strings or a string. A function that returns an
  error is an action of type \<^theory_text>\<open>'a io\<close>: it takes a world and returns an error or a value,
  and the world after. Every system call consumes one entry of the world's failure
  schedule, so a theorem over all worlds covers every combination of failed calls, among
  them the crash points of the code. Operations of one process on one file are atomic; a
  blocking lock that another process holds is the error \<^theory_text>\<open>WouldBlock\<close>. JSON encoding, the
  CUE schema and SHA-256 are third-party or library code: the record \<^theory_text>\<open>codec\<close> holds them as
  parameters. What the theorems on the log take of JSON is \<^theory_text>\<open>framed_codec\<close>, that an encoding has
  no newline in it, and for one event \<^theory_text>\<open>reads_back\<close>, that it decodes to what its JSON tags keep. Times are nanosecond counts; sequence numbers and token counts keep their
  64-bit width.

  What \<^verbatim>\<open>crypto/rand\<close> draws, the pane and what is read of its screen, the rounding of a float operation (\<^theory_text>\<open>fl\<close>, monotone and exact on
  the values named by \<^theory_text>\<open>rounds\<close>), locking a recipient and draining its inbox, and the collar's
  test whether a prompt carries an envelope are arguments. A loop over a Go map visits the
  keys in the order of the model's list.

  \<^bold>\<open>Termination and fuel.\<close> Loops over slices are recursion on lists; the doubling loop of
  \<^verbatim>\<open>RetryDelay\<close> and the splitting of words have termination proofs. The matcher of globs
  takes as fuel the joint length of pattern and text, one of which every step shortens.
  Waiting for a receipt takes as fuel \<^theory_text>\<open>tm_patience\<close>, how many looks fit before the deadline of
  the operation; running out of it is the error of a passed deadline, as in the code. The wait
  for a lock is \<^theory_text>\<open>partial_function\<close> and proved to return.

  \<^bold>\<open>Not modelled.\<close> The parsers of native screens and transcripts, tmux and process tables, option
  parsing and tables for output, file watching, HTTP and MCP servers, and
  \<^verbatim>\<open>store/log_retention.go\<close> (it compares hard-link identities the file model does not have).
\<close>

end
